(* ===== verification/Prelude.thy ===== *)
theory Prelude
  imports Main "HOL-Library.Char_ord" "HOL-Library.List_Lexorder" "HOL-Library.Product_Lexorder"
begin

text \<open>
  What the component theories share: the identifiers and instants of the program, the
  state-and-error computations its services are written in, and the generic list lemmas the
  component proofs use.

  A Go service method is a function of its receiver's state that returns a value and an error.
  Here it is a computation of type \<open>('s, 'e, 'a) comp\<close>: it takes the state, and gives either an
  error or a value, together with the state it leaves behind. An error is either one of the
  component's own sentinel errors (\<open>Err\<close>) or a failure of the storage below it (\<open>StoreFail\<close>);
  a loop or recursion of the source that never ends is the value \<open>NoReturn\<close>, so that a theorem has
  to show it does not occur.
  Which storage calls fail is decided by the \<open>fails\<close> field of the state, a function of the number
  of calls made so far, so that every \<^verbatim>\<open>if err != nil\<close> of the source is a branch of the model and
  a theorem over an arbitrary state covers every pattern of failures.
\<close>

named_theorems comp_simps \<open>running computations\<close>
named_theorems comp_elims \<open>what a finished computation did\<close>
named_theorems frame_simps \<open>fields an operation leaves alone\<close>

section \<open>Identifiers and instants\<close>

text \<open>
  A UUID is its sixteen bytes read as one big-endian number: equality of UUIDs is equality of the
  numbers, \<open>uuid.Nil\<close> is 0, and the lexicographic order of the fixed-width lower-case hexadecimal
  \<open>String()\<close> form is the order of the numbers. An instant is a number of nanoseconds.
\<close>

type_synonym uuid = nat
type_synonym instant = int

abbreviation (input) uuid_nil :: uuid where
  "uuid_nil \<equiv> 0"

text \<open>The value of a Go \<^verbatim>\<open>int\<close> expression: the result wrapped to 64 signed bits.\<close>

definition int64 :: "int \<Rightarrow> int" where
  "int64 x = signed_take_bit 63 x"

lemma int64_id: "- (2 ^ 63) \<le> x \<Longrightarrow> x < 2 ^ 63 \<Longrightarrow> int64 x = x"
  unfolding int64_def by (rule signed_take_bit_int_eq_self) simp_all

lemma int64_nat: "int n < 2 ^ 63 \<Longrightarrow> int64 (int n) = int n"
  by (rule int64_id) simp_all

lemma int64_range: "- (2 ^ 63) \<le> int64 x \<and> int64 x < 2 ^ 63"
  unfolding int64_def
  using signed_take_bit_int_greater_eq_minus_exp [of 63 x] signed_take_bit_int_less_exp [of 63 x] by simp

lemma int64_shift: "int64 x = (x + 2 ^ 63) mod 2 ^ 64 - 2 ^ 63"
  unfolding int64_def signed_take_bit_eq_take_bit_shift take_bit_eq_mod by simp

lemma int64_mod: "x mod 2 ^ 64 = 0 \<Longrightarrow> int64 x = 0"
  unfolding int64_shift by (simp add: mod_add_left_eq [symmetric])

section \<open>Computations with state and errors\<close>

datatype 'e failure = StoreFail | NoReturn | Err 'e

type_synonym ('s, 'e, 'a) comp = "'s \<Rightarrow> ('e failure + 'a) \<times> 's"

definition ret :: "'a \<Rightarrow> ('s, 'e, 'a) comp" where
  "ret x s = (Inr x, s)"

definition throw :: "'e \<Rightarrow> ('s, 'e, 'a) comp" where
  "throw e s = (Inl (Err e), s)"

definition raise :: "'e failure \<Rightarrow> ('s, 'e, 'a) comp" where
  "raise e s = (Inl e, s)"

definition andthen :: "('s, 'e, 'a) comp \<Rightarrow> ('a \<Rightarrow> ('s, 'e, 'b) comp) \<Rightarrow> ('s, 'e, 'b) comp" where
  "andthen m f s = (case m s of (Inl e, t) \<Rightarrow> (Inl e, t) | (Inr x, t) \<Rightarrow> f x t)"

definition of_result :: "'e + 'a \<Rightarrow> ('s, 'e, 'a) comp" where
  "of_result r s = (case r of Inl e \<Rightarrow> (Inl (Err e), s) | Inr x \<Rightarrow> (Inr x, s))"

definition guard :: "bool \<Rightarrow> 'e \<Rightarrow> ('s, 'e, unit) comp" where
  "guard b e s = (if b then (Inr (), s) else (Inl (Err e), s))"

definition asks :: "('s \<Rightarrow> 'a) \<Rightarrow> ('s, 'e, 'a) comp" where
  "asks f s = (Inr (f s), s)"

definition change :: "('s \<Rightarrow> 's) \<Rightarrow> ('s, 'e, unit) comp" where
  "change f s = (Inr (), f s)"

lemma ret_run [comp_simps]: "ret x s = (Inr x, s)"
  by (simp add: ret_def)

lemma throw_run [comp_simps]: "throw e s = (Inl (Err e), s)"
  by (simp add: throw_def)

lemma raise_run [comp_simps]: "raise e s = (Inl e, s)"
  by (simp add: raise_def)

lemma of_result_run [comp_simps]:
  "of_result r s = (case r of Inl e \<Rightarrow> (Inl (Err e), s) | Inr x \<Rightarrow> (Inr x, s))"
  by (simp add: of_result_def)

lemma guard_run [comp_simps]: "guard b e s = (if b then (Inr (), s) else (Inl (Err e), s))"
  by (simp add: guard_def)

lemma asks_run [comp_simps]: "asks f s = (Inr (f s), s)"
  by (simp add: asks_def)

lemma change_run [comp_simps]: "change f s = (Inr (), f s)"
  by (simp add: change_def)

lemma andthen_run [comp_simps]:
  "m s = (Inl e, t) \<Longrightarrow> andthen m f s = (Inl e, t)"
  "m s = (Inr x, t) \<Longrightarrow> andthen m f s = f x t"
  by (simp_all add: andthen_def)

lemma andthen_Inr_iff:
  "andthen m f s = (Inr y, u) \<longleftrightarrow> (\<exists>x t. m s = (Inr x, t) \<and> f x t = (Inr y, u))"
  by (auto simp: andthen_def split: prod.splits sum.splits)

lemma andthen_Inl_iff:
  "andthen m f s = (Inl e, u) \<longleftrightarrow>
     m s = (Inl e, u) \<or> (\<exists>x t. m s = (Inr x, t) \<and> f x t = (Inl e, u))"
  by (auto simp: andthen_def split: prod.splits sum.splits)

lemma andthen_iff:
  "andthen m f s = (r, u) \<longleftrightarrow>
     (\<exists>e. m s = (Inl e, u) \<and> r = Inl e) \<or> (\<exists>x t. m s = (Inr x, t) \<and> f x t = (r, u))"
  by (auto simp: andthen_def split: prod.splits sum.splits)

lemma andthen_InrE [comp_elims]:
  assumes "andthen m f s = (Inr y, u)"
  obtains x t where "m s = (Inr x, t)" and "f x t = (Inr y, u)"
  using assms by (auto simp: andthen_Inr_iff)

lemma andthen_assoc: "andthen (andthen m f) g = andthen m (\<lambda>x. andthen (f x) g)"
  by (auto simp: fun_eq_iff andthen_def split: prod.splits sum.splits)

lemma andthen_ret [simp]: "andthen (ret x) f = f x"
  by (simp add: fun_eq_iff andthen_def ret_def)

lemma andthen_throw [simp]: "andthen (throw e) f = throw e"
  by (simp add: fun_eq_iff andthen_def throw_def)

subsection \<open>Storage calls and transactions\<close>

text \<open>
  The part of every component's state that the storage below it owns: how many calls were made,
  and which of them fail. A component's record extends this one with its tables.
\<close>

record store =
  calls :: nat
  fails :: "nat \<Rightarrow> bool"

text \<open>One storage call: it fails, with nothing changed, or does its work.\<close>

definition db_call ::
  "('z store_scheme, 'e, 'a) comp \<Rightarrow> ('z store_scheme, 'e, 'a) comp" where
  "db_call m s =
     (let t = s\<lparr>calls := Suc (calls s)\<rparr>
      in if fails s (calls s) then (Inl StoreFail, t) else m t)"

text \<open>
  A transaction: the state after the block when it succeeds, the state before it when it fails;
  the calls were made either way.
\<close>

definition within_tx ::
  "('z store_scheme, 'e, 'a) comp \<Rightarrow> ('z store_scheme, 'e, 'a) comp" where
  "within_tx m s =
     (case m s of
        (Inl e, t) \<Rightarrow> (Inl e, s\<lparr>calls := calls t\<rparr>)
      | (Inr x, t) \<Rightarrow> (Inr x, t))"

lemma db_call_ok: "\<not> fails s (calls s) \<Longrightarrow> db_call m s = m (s\<lparr>calls := Suc (calls s)\<rparr>)"
  by (simp add: db_call_def Let_def)

lemma db_call_Inr_iff:
  "db_call m s = (Inr x, u) \<longleftrightarrow>
     \<not> fails s (calls s) \<and> m (s\<lparr>calls := Suc (calls s)\<rparr>) = (Inr x, u)"
  by (simp add: db_call_def Let_def)

lemma db_call_Inl_iff:
  "db_call m s = (Inl e, u) \<longleftrightarrow>
     (if fails s (calls s) then e = StoreFail \<and> u = s\<lparr>calls := Suc (calls s)\<rparr>
      else m (s\<lparr>calls := Suc (calls s)\<rparr>) = (Inl e, u))"
  by (auto simp: db_call_def Let_def)

lemma within_tx_Inr_iff: "within_tx m s = (Inr x, u) \<longleftrightarrow> m s = (Inr x, u)"
  by (auto simp: within_tx_def split: prod.splits sum.splits)

lemma within_tx_Inl_iff:
  "within_tx m s = (Inl e, u) \<longleftrightarrow> (\<exists>t. m s = (Inl e, t) \<and> u = s\<lparr>calls := calls t\<rparr>)"
  by (auto simp: within_tx_def split: prod.splits sum.splits)

lemma result_iffs:
  "ret x s = (Inr y, t) \<longleftrightarrow> y = x \<and> t = s" "ret x s = (Inl e, t) \<longleftrightarrow> False"
  "throw d s = (Inr y, t) \<longleftrightarrow> False" "throw d s = (Inl e, t) \<longleftrightarrow> e = Err d \<and> t = s"
  "raise e' s = (Inr y, t) \<longleftrightarrow> False" "raise e' s = (Inl e, t) \<longleftrightarrow> e = e' \<and> t = s"
  "of_result r s = (Inr y, t) \<longleftrightarrow> r = Inr y \<and> t = s"
  "of_result r s = (Inl e, t) \<longleftrightarrow> (\<exists>d. r = Inl d \<and> e = Err d) \<and> t = s"
  "asks f s = (Inr y, t) \<longleftrightarrow> y = f s \<and> t = s" "asks f s = (Inl e, t) \<longleftrightarrow> False"
  "change g s = (Inr z, t) \<longleftrightarrow> t = g s" "change g s = (Inl e, t) \<longleftrightarrow> False"
  "guard b d s = (Inr z, t) \<longleftrightarrow> b \<and> t = s" "guard b d s = (Inl e, t) \<longleftrightarrow> \<not> b \<and> e = Err d \<and> t = s"
  by (auto simp: ret_def throw_def raise_def of_result_def asks_def change_def guard_def
      split: sum.splits)

lemmas comp_iffs =
  result_iffs
  andthen_Inr_iff andthen_Inl_iff db_call_Inr_iff db_call_Inl_iff
  within_tx_Inr_iff within_tx_Inl_iff

text \<open>To evaluate a computation on a concrete state.\<close>

lemmas run_eval =
  andthen_def db_call_def within_tx_def ret_def throw_def raise_def of_result_def asks_def
  change_def guard_def Let_def

subsection \<open>What a computation may change\<close>

text \<open>
  \<open>unchanged s t\<close>: the two states differ in the number of storage calls at most. A computation
  \<open>reads\<close> when it never changes anything else; it is \<open>atomic\<close> when it changes nothing else
  whenever it fails.
\<close>

definition unchanged :: "'z store_scheme \<Rightarrow> 'z store_scheme \<Rightarrow> bool" where
  "unchanged s t \<longleftrightarrow> (\<exists>n. t = s\<lparr>calls := n\<rparr>)"

definition reads :: "('z store_scheme, 'e, 'a) comp \<Rightarrow> bool" where
  "reads m \<longleftrightarrow> (\<forall>s. unchanged s (snd (m s)))"

definition atomic :: "('z store_scheme, 'e, 'a) comp \<Rightarrow> bool" where
  "atomic m \<longleftrightarrow> (\<forall>s e t. m s = (Inl e, t) \<longrightarrow> unchanged s t)"

named_theorems reads_intros \<open>computations that only read\<close>
named_theorems atomic_intros \<open>computations that are atomic\<close>

lemma unchanged_refl [simp]: "unchanged s s"
  unfolding unchanged_def by (rule exI [of _ "calls s"]) simp

lemma unchanged_calls [simp]: "unchanged s (s\<lparr>calls := n\<rparr>)"
  unfolding unchanged_def by blast

lemma unchanged_trans [trans]: "unchanged s t \<Longrightarrow> unchanged t u \<Longrightarrow> unchanged s u"
  by (auto simp: unchanged_def)

lemma readsD: "reads m \<Longrightarrow> m s = (r, t) \<Longrightarrow> unchanged s t"
  unfolding reads_def by (metis snd_conv)

lemma reads_ret [reads_intros]: "reads (ret x)"
  by (simp add: reads_def ret_def)

lemma reads_throw [reads_intros]: "reads (throw e)"
  by (simp add: reads_def throw_def)

lemma reads_raise [reads_intros]: "reads (raise e)"
  by (simp add: reads_def raise_def)

lemma reads_asks [reads_intros]: "reads (asks f)"
  by (simp add: reads_def asks_def)

lemma reads_of_result [reads_intros]: "reads (of_result r)"
  by (simp add: reads_def of_result_def split: sum.splits)

lemma reads_guard [reads_intros]: "reads (guard b e)"
  by (simp add: reads_def guard_def)

lemma reads_andthen [reads_intros]:
  assumes "reads m" "\<And>x. reads (f x)"
  shows "reads (andthen m f)"
  unfolding reads_def
proof
  fix s
  obtain r t where m: "m s = (r, t)" by (cases "m s")
  show "unchanged s (snd (andthen m f s))"
  proof (cases r)
    case (Inl e)
    then show ?thesis using m readsD [OF assms(1) m] by (simp add: andthen_def)
  next
    case (Inr x)
    have "unchanged t (snd (f x t))" using assms(2) by (simp add: reads_def)
    then show ?thesis using m Inr readsD [OF assms(1) m] by (auto simp: andthen_def intro: unchanged_trans)
  qed
qed

lemma reads_db_call [reads_intros]: "reads m \<Longrightarrow> reads (db_call m)"
  unfolding reads_def db_call_def Let_def using unchanged_calls unchanged_trans by fastforce

lemma reads_if [reads_intros]: "reads a \<Longrightarrow> reads b \<Longrightarrow> reads (if c then a else b)"
  by simp

lemma reads_option [reads_intros]:
  "reads a \<Longrightarrow> (\<And>x. reads (b x)) \<Longrightarrow> reads (case r of None \<Rightarrow> a | Some x \<Rightarrow> b x)"
  by (cases r) auto

lemma readsI: "(\<And>s. snd (f s) = s) \<Longrightarrow> reads f"
  by (simp add: reads_def)

lemma atomicD: "atomic m \<Longrightarrow> m s = (Inl e, t) \<Longrightarrow> unchanged s t"
  by (auto simp: atomic_def)

lemma atomic_reads [atomic_intros]: "reads m \<Longrightarrow> atomic m"
  using readsD by (auto simp: atomic_def)

lemma atomic_tx [atomic_intros]: "atomic (within_tx m)"
  by (auto simp: atomic_def within_tx_Inl_iff)

lemma atomic_andthen [atomic_intros]:
  assumes "reads m" "\<And>x. atomic (f x)"
  shows "atomic (andthen m f)"
  unfolding atomic_def
proof (intro allI impI)
  fix s e t
  assume "andthen m f s = (Inl e, t)"
  then consider "m s = (Inl e, t)" | x u where "m s = (Inr x, u)" "f x u = (Inl e, t)"
    by (auto simp: andthen_Inl_iff)
  then show "unchanged s t"
    by cases (use assms readsD atomicD unchanged_trans in blast)+
qed

lemma atomic_then_sure:
  assumes "atomic m" "\<And>x s. \<exists>y t. f x s = (Inr y, t)"
  shows "atomic (andthen m f)"
  using assms by (auto simp: atomic_def andthen_Inl_iff) (metis Inl_Inr_False prod.inject)

lemma atomic_if [atomic_intros]: "atomic a \<Longrightarrow> atomic b \<Longrightarrow> atomic (if c then a else b)"
  by simp

lemma reads_thenE:
  assumes "andthen m f s = (r, t)" "reads m" "unchanged s0 s"
  obtains e where "r = Inl e" "unchanged s0 t"
  | x u where "m s = (Inr x, u)" "unchanged s0 u" "f x u = (r, t)"
  using assms readsD [OF assms(2)] unchanged_trans by (auto simp: andthen_iff) blast+

text \<open>A computation \<open>returns\<close> when it never runs forever, whatever the state.\<close>

definition returns :: "('s, 'e, 'a) comp \<Rightarrow> bool" where
  "returns m \<longleftrightarrow> (\<forall>s t. m s \<noteq> (Inl NoReturn, t))"

named_theorems returns_intros \<open>computations that return\<close>

lemma returnsD: "returns m \<Longrightarrow> m s = (Inl NoReturn, t) \<Longrightarrow> P"
  by (simp add: returns_def)

lemma returns_basic [returns_intros]:
  "returns (ret x)" "returns (throw e)" "returns (of_result r)" "returns (guard b e)"
  "returns (asks f)" "returns (change g)"
  by (simp_all add: returns_def result_iffs)

lemma returns_andthen [returns_intros]: "returns m \<Longrightarrow> (\<And>x. returns (f x)) \<Longrightarrow> returns (andthen m f)"
  by (auto simp: returns_def andthen_Inl_iff)

lemma returns_db_call [returns_intros]: "returns m \<Longrightarrow> returns (db_call m)"
  by (auto simp: returns_def db_call_Inl_iff)

lemma returns_within_tx [returns_intros]: "returns m \<Longrightarrow> returns (within_tx m)"
  by (auto simp: returns_def within_tx_Inl_iff)

lemma returns_if [returns_intros]: "returns a \<Longrightarrow> returns b \<Longrightarrow> returns (if c then a else b)"
  by simp

lemma returns_option [returns_intros]:
  "returns a \<Longrightarrow> (\<And>x. returns (b x)) \<Longrightarrow> returns (case r of None \<Rightarrow> a | Some x \<Rightarrow> b x)"
  by (cases r) auto

lemma returnsI: "(\<And>s. fst (m s) \<noteq> Inl NoReturn) \<Longrightarrow> returns m"
  by (auto simp: returns_def) (metis fst_conv)

subsection \<open>Weakest preconditions\<close>

text \<open>
  \<open>wp m Q F s\<close>: run from \<open>s\<close>, \<open>m\<close> either returns a value and a state in \<open>Q\<close>, or fails with an
  error and a state in \<open>F\<close>. The equations compute it over the structure of a computation.
\<close>

definition wp ::
  "('s, 'e, 'a) comp \<Rightarrow> ('a \<Rightarrow> 's \<Rightarrow> bool) \<Rightarrow> ('e failure \<Rightarrow> 's \<Rightarrow> bool) \<Rightarrow> 's \<Rightarrow> bool" where
  "wp m Q F s = (case m s of (Inl e, t) \<Rightarrow> F e t | (Inr x, t) \<Rightarrow> Q x t)"

named_theorems wp_simps \<open>weakest preconditions of computations\<close>

lemma wp_basic [wp_simps]:
  "wp (ret x) Q F s = Q x s" "wp (throw d) Q F s = F (Err d) s" "wp (raise f) Q F s = F f s"
  "wp (asks g) Q F s = Q (g s) s" "wp (change h) Q' F s = Q' () (h s)"
  "wp (guard b d) Q' F s = (if b then Q' () s else F (Err d) s)"
  by (simp_all add: wp_def ret_def throw_def raise_def asks_def change_def guard_def)

lemma wp_const [wp_simps]: "wp (ret x) Q F = Q x" "wp (throw d) Q F = F (Err d)" "wp (raise f) Q F = F f"
  by (simp_all add: fun_eq_iff wp_basic)

lemma wp_of_result [wp_simps]:
  "wp (of_result r) Q F s = (case r of Inl d \<Rightarrow> F (Err d) s | Inr x \<Rightarrow> Q x s)"
  by (simp add: wp_def of_result_def split: sum.split)

lemma wp_andthen [wp_simps]: "wp (andthen m f) Q F s = wp m (\<lambda>x. wp (f x) Q F) F s"
  by (simp add: wp_def andthen_def split: prod.split sum.split)

lemma wp_andthen_fun: "wp (andthen m f) Q F = wp m (\<lambda>x. wp (f x) Q F) F"
  by (rule ext) (rule wp_andthen)

lemma wp_db_call [wp_simps]:
  "wp (db_call m) Q F s =
     (if fails s (calls s) then F StoreFail (s\<lparr>calls := Suc (calls s)\<rparr>)
      else wp m Q F (s\<lparr>calls := Suc (calls s)\<rparr>))"
  by (simp add: wp_def db_call_def Let_def)

lemma wp_within_tx [wp_simps]:
  "wp (within_tx m) Q F s = wp m Q (\<lambda>e t. F e (s\<lparr>calls := calls t\<rparr>)) s"
  by (simp add: wp_def within_tx_def split: prod.split sum.split)

lemma wp_if [wp_simps]: "wp (if c then a else b) Q F s = (if c then wp a Q F s else wp b Q F s)"
  by simp

lemma wp_option [wp_simps]:
  "wp (case r of None \<Rightarrow> a | Some x \<Rightarrow> b x) Q F s =
     (case r of None \<Rightarrow> wp a Q F s | Some x \<Rightarrow> wp (b x) Q F s)"
  by (simp split: option.split)

lemma wp_lambda [wp_simps]:
  "wp (\<lambda>s. (Inr (x s), g s)) Q F s = Q (x s) (g s)"
  "wp (\<lambda>s. (Inl (e s), g s)) Q F s = F (e s) (g s)"
  "wp (\<lambda>s. if c s then a s else b s) Q F s = (if c s then wp a Q F s else wp b Q F s)"
  by (simp_all add: wp_def)

lemma wp_lambda_option [wp_simps]:
  "wp (\<lambda>s. case r s of None \<Rightarrow> a s | Some x \<Rightarrow> b x s) Q F s =
     (case r s of None \<Rightarrow> wp a Q F s | Some x \<Rightarrow> wp (b x) Q F s)"
  by (simp add: wp_def split: option.split)

lemma wp_mono:
  assumes "wp m Q F s" "\<And>x t. Q x t \<Longrightarrow> Q' x t" "\<And>e t. F e t \<Longrightarrow> F' e t"
  shows "wp m Q' F' s"
  using assms by (auto simp: wp_def split: prod.splits sum.splits)

lemma wp_conj: "wp m Q F s \<Longrightarrow> wp m Q' F' s \<Longrightarrow> wp m (\<lambda>x t. Q x t \<and> Q' x t) (\<lambda>e t. F e t \<and> F' e t) s"
  by (auto simp: wp_def split: prod.splits sum.splits)

lemma wp_Inr: "wp m Q F s \<Longrightarrow> m s = (Inr x, t) \<Longrightarrow> Q x t"
  by (simp add: wp_def)

lemma wp_Inl: "wp m Q F s \<Longrightarrow> m s = (Inl e, t) \<Longrightarrow> F e t"
  by (simp add: wp_def)

lemma wp_snd: "wp m (\<lambda>_. P) (\<lambda>_. P) s \<Longrightarrow> P (snd (m s))"
  by (auto simp: wp_def split: prod.splits sum.splits)

lemma wp_snd_iff: "wp m (\<lambda>_. P) (\<lambda>_. P) s \<longleftrightarrow> P (snd (m s))"
  by (auto simp: wp_def split: prod.splits sum.splits)

lemma wpI: "(\<And>x t. m s = (Inr x, t) \<Longrightarrow> Q x t) \<Longrightarrow> (\<And>e t. m s = (Inl e, t) \<Longrightarrow> F e t) \<Longrightarrow> wp m Q F s"
  by (auto simp: wp_def split: prod.splits sum.splits)

lemma atomic_wp: "atomic m \<Longrightarrow> wp m (\<lambda>_ _. True) (\<lambda>_. unchanged s) s"
  by (auto intro!: wpI dest: atomicD)

lemma wp_reads:
  assumes "reads m" "\<And>x n. Q x (s\<lparr>calls := n\<rparr>)" "\<And>e n. F e (s\<lparr>calls := n\<rparr>)"
  shows "wp m Q F s"
  using readsD [OF assms(1)] assms(2,3) unfolding unchanged_def by (auto intro!: wpI) (metis, metis)

text \<open>A computation for its effect only.\<close>

definition drop_result :: "('s, 'e, 'a) comp \<Rightarrow> ('s, 'e, unit) comp" where
  "drop_result m = andthen m (\<lambda>_. ret ())"

lemma drop_result_state: "snd (drop_result m s) = snd (m s)"
  by (cases "m s"; cases "fst (m s)") (simp_all add: drop_result_def andthen_def ret_def)

lemma atomic_drop: "atomic m \<Longrightarrow> atomic (drop_result m)"
  unfolding drop_result_def by (rule atomic_then_sure) (simp_all add: ret_def)

lemma wp_drop_result [wp_simps]: "wp (drop_result m) Q F s = wp m (\<lambda>_. Q ()) F s"
  by (simp add: wp_def drop_result_def andthen_def ret_def split: prod.split sum.split)

section \<open>Services as systems of atomic operations\<close>

text \<open>
  A service under a sequence of requests. A failed request changes nothing the service stores
  (\<open>tables\<close>), whatever storage calls it made before it failed, and every request keeps the
  service's invariant.
\<close>

definition run_all :: "('op \<Rightarrow> ('s, 'e, 'a) comp) \<Rightarrow> 'op list \<Rightarrow> 's \<Rightarrow> 's" where
  "run_all run ops s = fold (\<lambda>x t. snd (run x t)) ops s"

locale invariant_service =
  fixes run :: "'op \<Rightarrow> ('s, 'e, 'a) comp"
    and inv :: "'s \<Rightarrow> bool"
  assumes step_inv: "inv s \<Longrightarrow> inv (snd (run x s))"
begin

lemma runs_inv: "inv s \<Longrightarrow> inv (run_all run ops s)"
  by (induction ops arbitrary: s) (simp_all add: run_all_def step_inv)

end

locale evolving_service = invariant_service run inv
  for run :: "'op \<Rightarrow> ('s, 'e, 'a) comp" and inv :: "'s \<Rightarrow> bool" +
  fixes rel :: "'s \<Rightarrow> 's \<Rightarrow> bool"
  assumes rel_refl: "rel s s"
    and rel_trans: "rel s t \<Longrightarrow> rel t u \<Longrightarrow> rel s u"
    and step_rel: "inv s \<Longrightarrow> rel s (snd (run x s))"
begin

lemma runs_rel: "inv s \<Longrightarrow> rel s (run_all run ops s)"
proof (induction ops arbitrary: s)
  case (Cons x ops)
  have "rel (snd (run x s)) (run_all run ops (snd (run x s)))" by (rule Cons.IH [OF step_inv [OF Cons.prems]])
  then show ?case using step_rel [OF Cons.prems] rel_trans by (simp add: run_all_def) blast
qed (simp add: run_all_def rel_refl)

end

locale atomic_service = invariant_service run inv
  for run :: "'op \<Rightarrow> ('s, 'e, 'a) comp" and inv :: "'s \<Rightarrow> bool" +
  fixes tables :: "'s \<Rightarrow> 'd"
  assumes step_atomic: "fst (run x s) = Inl e \<Longrightarrow> tables (snd (run x s)) = tables s"
begin

lemma runs_changed:
  assumes "tables (run_all run ops s) \<noteq> tables s"
  shows "\<exists>pre x post y. ops = pre @ x # post \<and> fst (run x (run_all run pre s)) = Inr y"
  using assms
proof (induction ops arbitrary: s)
  case (Cons x ops)
  show ?case
  proof (cases "fst (run x s)")
    case (Inr y)
    then have "x # ops = [] @ x # ops \<and> fst (run x (run_all run [] s)) = Inr y"
      by (simp add: run_all_def)
    then show ?thesis by blast
  next
    case (Inl e)
    then have "tables (run_all run ops (snd (run x s))) \<noteq> tables (snd (run x s))"
      using Cons.prems step_atomic by (simp add: run_all_def)
    from Cons.IH [OF this] obtain pre z post y where
      "ops = pre @ z # post" "fst (run z (run_all run pre (snd (run x s)))) = Inr y" by blast
    then have "x # ops = (x # pre) @ z # post \<and> fst (run z (run_all run (x # pre) s)) = Inr y"
      by (simp add: run_all_def)
    then show ?thesis by blast
  qed
qed (simp add: run_all_def)

end

section \<open>Systems of interleaved steps\<close>

text \<open>
  The states a step relation reaches, and what every step keeps of them.
\<close>

inductive reachable :: "('s \<Rightarrow> bool) \<Rightarrow> ('s \<Rightarrow> 's \<Rightarrow> bool) \<Rightarrow> 's \<Rightarrow> bool" for init step where
  reach_init: "init s \<Longrightarrow> reachable init step s"
| reach_step: "reachable init step s \<Longrightarrow> step s t \<Longrightarrow> reachable init step t"

locale step_invariant =
  fixes init :: "'s \<Rightarrow> bool" and step :: "'s \<Rightarrow> 's \<Rightarrow> bool" and inv :: "'s \<Rightarrow> bool"
  assumes init_inv: "init s \<Longrightarrow> inv s"
    and step_keeps: "inv s \<Longrightarrow> step s t \<Longrightarrow> inv t"
begin

lemma reachable_inv: "reachable init step s \<Longrightarrow> inv s"
  by (induction rule: reachable.induct) (blast intro: init_inv step_keeps)+

end

end
