(* ===== verification/Go_Strings.thy ===== *)
theory Go_Strings
  imports Prelude
begin

text \<open>
  Go strings as the program uses them. A Go string is a sequence of bytes, so it is an Isabelle
  \<open>string\<close> whose characters are read as bytes; the functions that read runes (\<open>utf8.RuneCount\<close>,
  \<open>strings.TrimSpace\<close>, \<open>strings.ToLower\<close>, \<open>strings.Map\<close>) decode UTF-8 first, with an
  invalid byte read as U+FFFD of width one, as the Go library does. The lower-case mapping of runes
  above ASCII comes from the Unicode tables and is the parameter \<open>lo\<close> of every function that
  lower-cases.
\<close>

section \<open>UTF-8\<close>

abbreviation byte :: "char \<Rightarrow> nat" where
  "byte c \<equiv> of_char c"

definition rune_error :: nat where
  "rune_error = 65533"

definition is_cont :: "char \<Rightarrow> bool" where
  "is_cont c \<longleftrightarrow> 128 \<le> byte c \<and> byte c < 192"

text \<open>The rune at the head of a non-empty string and its width in bytes.\<close>

definition decode_rune :: "string \<Rightarrow> nat \<times> nat" where
  "decode_rune s =
     (case s of
        [] \<Rightarrow> (rune_error, 0)
      | b0 # rest \<Rightarrow>
          (let n0 = byte b0 in
           if n0 < 128 then (n0, 1)
           else if n0 < 194 \<or> 244 < n0 then (rune_error, 1)
           else (case rest of
              [] \<Rightarrow> (rune_error, 1)
            | b1 # rest1 \<Rightarrow>
                if \<not> is_cont b1 then (rune_error, 1)
                else if n0 < 224 then ((n0 - 192) * 64 + (byte b1 - 128), 2)
                else if (n0 = 224 \<and> byte b1 < 160) \<or> (n0 = 237 \<and> 160 \<le> byte b1)
                     \<or> (n0 = 240 \<and> byte b1 < 144) \<or> (n0 = 244 \<and> 144 \<le> byte b1)
                then (rune_error, 1)
                else (case rest1 of
                   [] \<Rightarrow> (rune_error, 1)
                 | b2 # rest2 \<Rightarrow>
                     if \<not> is_cont b2 then (rune_error, 1)
                     else if n0 < 240
                     then ((n0 - 224) * 4096 + (byte b1 - 128) * 64 + (byte b2 - 128), 3)
                     else (case rest2 of
                        [] \<Rightarrow> (rune_error, 1)
                      | b3 # _ \<Rightarrow>
                          if \<not> is_cont b3 then (rune_error, 1)
                          else ((n0 - 240) * 262144 + (byte b1 - 128) * 4096
                                + (byte b2 - 128) * 64 + (byte b3 - 128), 4))))))"

lemma decode_rune_ascii [simp]:
  "byte b < 128 \<Longrightarrow> decode_rune (b # rest) = (byte b, 1)"
  by (simp add: decode_rune_def)

lemma decode_rune_width_pos: "s \<noteq> [] \<Longrightarrow> 0 < snd (decode_rune s)"
  by (auto simp: decode_rune_def Let_def split: list.splits)

text \<open>The string cut into the byte sequences of its runes, in order.\<close>

function chunks :: "string \<Rightarrow> (nat \<times> string) list" where
  "chunks [] = []"
| "chunks (b # bs) =
     (let (r, w) = decode_rune (b # bs)
      in (r, take w (b # bs)) # chunks (drop w (b # bs)))"
  by pat_completeness auto
termination
proof (relation "measure length", goal_cases)
  case (2 b bs x r w)
  have "0 < w"
    using decode_rune_width_pos [of "b # bs"] 2 by (metis list.distinct(1) snd_conv)
  then show ?case by simp
qed simp

definition runes :: "string \<Rightarrow> nat list" where
  "runes s = map fst (chunks s)"

definition rune_count :: "string \<Rightarrow> nat" where
  "rune_count s = length (runes s)"

definition ascii :: "string \<Rightarrow> bool" where
  "ascii s \<longleftrightarrow> list_all (\<lambda>c. byte c < 128) s"

definition encode_rune :: "nat \<Rightarrow> string" where
  "encode_rune r =
     (if r < 128 then [char_of r]
      else if r < 2048 then [char_of (192 + r div 64), char_of (128 + r mod 64)]
      else if (55296 \<le> r \<and> r < 57344) \<or> 1114111 < r
      then [char_of (239::nat), char_of (191::nat), char_of (189::nat)]
      else if r < 65536
      then [char_of (224 + r div 4096), char_of (128 + r div 64 mod 64), char_of (128 + r mod 64)]
      else [char_of (240 + r div 262144), char_of (128 + r div 4096 mod 64),
            char_of (128 + r div 64 mod 64), char_of (128 + r mod 64)])"

lemma chunks_ascii: "ascii s \<Longrightarrow> chunks s = map (\<lambda>c. (byte c, [c])) s"
  by (induction s) (simp_all add: ascii_def)

lemma runes_ascii: "ascii s \<Longrightarrow> runes s = map byte s"
  by (simp add: runes_def chunks_ascii comp_def)

lemma rune_count_ascii: "ascii s \<Longrightarrow> rune_count s = length s"
  by (simp add: rune_count_def runes_ascii)

lemma rune_count_Nil [simp]: "rune_count [] = 0"
  by (simp add: rune_count_def runes_def)

lemma concat_chunks: "concat (map snd (chunks s)) = s"
  by (induction s rule: chunks.induct) (auto simp: Let_def split: prod.splits)

lemma rune_count_le_length: "rune_count s \<le> length s"
proof (induction s rule: chunks.induct)
  case 1
  then show ?case by simp
next
  case (2 b bs)
  obtain r w where d: "decode_rune (b # bs) = (r, w)" by (cases "decode_rune (b # bs)")
  with decode_rune_width_pos [of "b # bs"] have "0 < w" by simp
  moreover have "rune_count (drop w (b # bs)) \<le> length (drop w (b # bs))"
    using 2 d by simp
  ultimately show ?case
    using d by (simp add: rune_count_def runes_def Let_def)
qed

section \<open>Trimming and lower case\<close>

definition is_space :: "nat \<Rightarrow> bool" where
  "is_space r \<longleftrightarrow>
     r \<in> {9, 10, 11, 12, 13, 32, 133, 160, 5760, 8232, 8233, 8239, 8287, 12288}
     \<or> (8192 \<le> r \<and> r \<le> 8202)"

text \<open>\<open>strings.TrimSpace\<close>: the white-space runes at both ends are cut off.\<close>

definition trim_space :: "string \<Rightarrow> string" where
  "trim_space s =
     (let cs = dropWhile (\<lambda>(r, _). is_space r) (chunks s)
      in concat (map snd (rev (dropWhile (\<lambda>(r, _). is_space r) (rev cs)))))"

definition lower_ascii :: "nat \<Rightarrow> nat" where
  "lower_ascii r = (if 65 \<le> r \<and> r \<le> 90 then r + 32 else r)"

definition lower_rune :: "(nat \<Rightarrow> nat) \<Rightarrow> nat \<Rightarrow> nat" where
  "lower_rune lo r = (if r < 128 then lower_ascii r else lo r)"

text \<open>\<open>strings.ToLower\<close>: byte by byte when the string is ASCII, rune by rune otherwise.\<close>

definition to_lower :: "(nat \<Rightarrow> nat) \<Rightarrow> string \<Rightarrow> string" where
  "to_lower lo s =
     (if ascii s then map (\<lambda>c. char_of (lower_ascii (byte c))) s
      else concat (map (\<lambda>r. encode_rune (lower_rune lo r)) (runes s)))"

lemma lower_ascii_idem [simp]: "lower_ascii (lower_ascii r) = lower_ascii r"
  by (simp add: lower_ascii_def)

lemma lower_ascii_bound: "r < 128 \<Longrightarrow> lower_ascii r < 128"
  by (simp add: lower_ascii_def)

text \<open>\<open>strings.Trim\<close> with a one-byte ASCII cut set.\<close>

definition trim_char :: "char \<Rightarrow> string \<Rightarrow> string" where
  "trim_char c s = rev (dropWhile (\<lambda>x. x = c) (rev (dropWhile (\<lambda>x. x = c) s)))"

lemma trim_space_Nil [simp]: "trim_space [] = []"
  by (simp add: trim_space_def)

lemma char_of_iff: "char_of (n::nat) = c \<longleftrightarrow> n mod 256 = byte c"
  by (simp add: char_of_eq_iff take_bit_eq_mod)

text \<open>To evaluate the string functions on concrete strings.\<close>

lemmas string_eval =
  trim_space_def is_space_def runes_def rune_count_def Let_def to_lower_def ascii_def
  lower_ascii_def trim_char_def char_of_iff

end
