(* ===== verification/Slug.thy ===== *)
theory Slug
  imports Go_Strings
begin

text \<open>
  Slugs: the pattern both the category and the tag service check a slug against, and the
  \<open>slugify\<close> function each of them has (the two are the same text, in
  \<^verbatim>\<open>internal/core/category/service/service.go\<close> and \<^verbatim>\<open>internal/core/tag/service/service.go\<close>). The
  lemmas show that \<open>slugify\<close> only makes slugs the pattern accepts, and leaves those as they are.
\<close>

definition dash :: char where
  "dash = CHR ''-''"

definition slug_char :: "char \<Rightarrow> bool" where
  "slug_char c \<longleftrightarrow> (97 \<le> byte c \<and> byte c \<le> 122) \<or> (48 \<le> byte c \<and> byte c \<le> 57)"

text \<open>
  \<^verbatim>\<open>^[a-z0-9]+(?:-[a-z0-9]+)*$\<close>, read from the left; \<open>g\<close> says that the current group of
  letters and digits is not empty.
\<close>

fun slug_match :: "bool \<Rightarrow> string \<Rightarrow> bool" where
  "slug_match g [] = g"
| "slug_match g (c # cs) =
     (if slug_char c then slug_match True cs
      else if c = dash \<and> g then slug_match False cs
      else False)"

definition slugPattern :: "string \<Rightarrow> bool" where
  "slugPattern s = slug_match False s"

text \<open>\<^verbatim>\<open>strings.Contains(s, "--")\<close> and \<^verbatim>\<open>strings.ReplaceAll(s, "--", "-")\<close>.\<close>

fun has_double :: "string \<Rightarrow> bool" where
  "has_double (a # b # s) \<longleftrightarrow> (a = dash \<and> b = dash) \<or> has_double (b # s)"
| "has_double _ \<longleftrightarrow> False"

fun halve_doubles :: "string \<Rightarrow> string" where
  "halve_doubles (a # b # s) =
     (if a = dash \<and> b = dash then dash # halve_doubles s else a # halve_doubles (b # s))"
| "halve_doubles s = s"

lemma length_halve_doubles: "length (halve_doubles s) \<le> length s"
  by (induction s rule: halve_doubles.induct) auto

lemma length_halve_doubles_less: "has_double s \<Longrightarrow> length (halve_doubles s) < length s"
proof (induction s rule: halve_doubles.induct)
  case (1 a b s)
  then show ?case using length_halve_doubles [of s] by auto
qed simp_all

function collapse :: "string \<Rightarrow> string" where
  "collapse s = (if has_double s then collapse (halve_doubles s) else s)"
  by pat_completeness auto
termination
  by (relation "measure length") (auto simp: length_halve_doubles_less)

declare collapse.simps [simp del]

definition slug_rune :: "nat \<Rightarrow> string" where
  "slug_rune r =
     (if (97 \<le> r \<and> r \<le> 122) \<or> (48 \<le> r \<and> r \<le> 57) then [char_of r]
      else if r = 32 \<or> r = 95 \<or> r = 45 then [dash]
      else [])"

definition slugify :: "(nat \<Rightarrow> nat) \<Rightarrow> string \<Rightarrow> string" where
  "slugify lo name =
     trim_char dash (collapse (concat (map slug_rune (runes (to_lower lo (trim_space name))))))"

section \<open>Words over letters, digits and dashes\<close>

definition slug_or_dash :: "string \<Rightarrow> bool" where
  "slug_or_dash s \<longleftrightarrow> list_all (\<lambda>c. slug_char c \<or> c = dash) s"

lemma dash_not_slug_char [simp]: "\<not> slug_char dash"
  by (simp add: dash_def slug_char_def)

lemma byte_dash [simp]: "byte dash = 45"
  by (simp add: dash_def)

lemma slug_char_ascii: "slug_char c \<Longrightarrow> byte c < 128"
  by (auto simp: slug_char_def)

lemma slug_or_dash_ascii: "slug_or_dash s \<Longrightarrow> ascii s"
  by (auto simp: slug_or_dash_def ascii_def list_all_iff dest: slug_char_ascii)

lemma slug_or_dash_halve: "slug_or_dash s \<Longrightarrow> slug_or_dash (halve_doubles s)"
  by (induction s rule: halve_doubles.induct) (auto simp: slug_or_dash_def)

lemma slug_or_dash_collapse: "slug_or_dash s \<Longrightarrow> slug_or_dash (collapse s)"
proof (induction s rule: collapse.induct)
  case (1 s)
  then show ?case
    by (cases "has_double s") (auto simp: collapse.simps [of s] slug_or_dash_halve)
qed

lemma collapse_no_double: "\<not> has_double (collapse s)"
proof (induction s rule: collapse.induct)
  case (1 s)
  then show ?case
    by (cases "has_double s") (auto simp: collapse.simps [of s])
qed

lemma collapse_id: "\<not> has_double s \<Longrightarrow> collapse s = s"
  by (simp add: collapse.simps [of s])

text \<open>
  What the pattern accepts, without the automaton: letters, digits and dashes, no two dashes in a
  row, none at the ends, and not nothing.
\<close>

lemma slug_match_True:
  "slug_match True s \<longleftrightarrow>
     slug_or_dash s \<and> \<not> has_double s \<and> (s \<noteq> [] \<longrightarrow> last s \<noteq> dash)"
  "slug_match False s \<longleftrightarrow>
     slug_or_dash s \<and> \<not> has_double s \<and> s \<noteq> [] \<and> hd s \<noteq> dash \<and> last s \<noteq> dash"
proof (induction s)
  case Nil
  { case 1 show ?case by (simp add: slug_or_dash_def) }
  { case 2 show ?case by simp }
next
  case (Cons c s)
  have hd_dash: "has_double (c # s) \<longleftrightarrow> (c = dash \<and> s \<noteq> [] \<and> hd s = dash) \<or> has_double s"
    by (cases s) auto
  { case 1 show ?case using Cons.IH hd_dash by (cases "s = []") (auto simp: slug_or_dash_def) }
  { case 2 show ?case using Cons.IH hd_dash by (cases "s = []") (auto simp: slug_or_dash_def) }
qed

lemma slugPattern_iff:
  "slugPattern s \<longleftrightarrow>
     slug_or_dash s \<and> \<not> has_double s \<and> s \<noteq> [] \<and> hd s \<noteq> dash \<and> last s \<noteq> dash"
  by (simp add: slugPattern_def slug_match_True(2))

section \<open>Trimming dashes\<close>

lemma has_double_append: "has_double t \<Longrightarrow> has_double (s @ t)"
proof (induction s)
  case (Cons a s)
  then show ?case by (cases "s @ t") auto
qed simp

lemma has_double_append1: "has_double s \<Longrightarrow> has_double (s @ t)"
  by (induction s rule: has_double.induct) auto

lemma trim_char_split:
  obtains p q where "s = p @ trim_char c s @ q"
proof -
  let ?u = "dropWhile (\<lambda>x. x = c) s"
  have "s = takeWhile (\<lambda>x. x = c) s @ ?u" by simp
  moreover have "?u = trim_char c s @ rev (takeWhile (\<lambda>x. x = c) (rev ?u))"
    unfolding trim_char_def by (metis rev_append rev_rev_ident takeWhile_dropWhile_id)
  ultimately show ?thesis using that by metis
qed

lemma trim_char_hd: "trim_char c s \<noteq> [] \<Longrightarrow> hd (trim_char c s) \<noteq> c"
proof -
  assume ne: "trim_char c s \<noteq> []"
  let ?u = "dropWhile (\<lambda>x. x = c) s"
  have u: "?u = trim_char c s @ rev (takeWhile (\<lambda>x. x = c) (rev ?u))"
    unfolding trim_char_def by (metis rev_append rev_rev_ident takeWhile_dropWhile_id)
  with ne have "?u \<noteq> []" by (metis Nil_is_append_conv)
  then have "hd ?u \<noteq> c" using hd_dropWhile [of "\<lambda>x. x = c" s] by simp
  then show ?thesis using u ne by (metis hd_append2)
qed

lemma trim_char_last: "trim_char c s \<noteq> [] \<Longrightarrow> last (trim_char c s) \<noteq> c"
  using hd_dropWhile [of "\<lambda>x. x = c" "rev (dropWhile (\<lambda>x. x = c) s)"]
  by (simp add: trim_char_def last_rev)

lemma trim_char_id: "s \<noteq> [] \<Longrightarrow> hd s \<noteq> c \<Longrightarrow> last s \<noteq> c \<Longrightarrow> trim_char c s = s"
proof -
  assume a: "s \<noteq> []" "hd s \<noteq> c" "last s \<noteq> c"
  then have "dropWhile (\<lambda>x. x = c) s = s" by (cases s) auto
  moreover have "dropWhile (\<lambda>x. x = c) (rev s) = rev s"
    using a by (cases "rev s") (auto simp: hd_rev [symmetric])
  ultimately show ?thesis by (simp add: trim_char_def)
qed

section \<open>The slugs of slugify\<close>

lemma slug_or_dash_slug_runes: "slug_or_dash (concat (map slug_rune rs))"
  by (induction rs) (auto simp: slug_or_dash_def slug_rune_def slug_char_def)

lemma slug_or_dash_slice: "slug_or_dash (p @ s @ q) \<Longrightarrow> slug_or_dash s"
  by (simp add: slug_or_dash_def)

lemma slug_runes_id:
  assumes "slug_or_dash s" shows "concat (map slug_rune (map byte s)) = s"
  using assms
proof (induction s)
  case (Cons c s)
  then have "slug_rune (byte c) = [c]"
    by (auto simp: slug_or_dash_def slug_rune_def slug_char_def)
  with Cons show ?case by (simp add: slug_or_dash_def)
qed simp

lemma to_lower_slug: "slug_or_dash s \<Longrightarrow> to_lower lo s = s"
proof -
  assume s: "slug_or_dash s"
  then have "map (\<lambda>c. char_of (lower_ascii (byte c))) s = map id s"
    by (intro map_cong) (auto simp: slug_or_dash_def list_all_iff lower_ascii_def slug_char_def)
  with slug_or_dash_ascii [OF s] show ?thesis by (simp add: to_lower_def)
qed

lemma slug_char_not_space: "slug_char c \<or> c = dash \<Longrightarrow> \<not> is_space (byte c)"
  by (auto simp: slug_char_def is_space_def)

lemma trim_space_slug: "slug_or_dash s \<Longrightarrow> trim_space s = s"
proof -
  assume s: "slug_or_dash s"
  have id: "dropWhile (\<lambda>(r, _). is_space r) (map (\<lambda>c. (byte c, [c])) t) = map (\<lambda>c. (byte c, [c])) t"
    if "slug_or_dash t" for t
    using that slug_char_not_space by (cases t) (auto simp: slug_or_dash_def simp del: byte_dash)
  have "slug_or_dash (rev s)" using s by (simp add: slug_or_dash_def list_all_iff)
  from id [OF s] id [OF this] slug_or_dash_ascii [OF s] show ?thesis
    by (simp add: trim_space_def chunks_ascii rev_map comp_def)
qed

lemma slugify_accepted: "slugify lo name \<noteq> [] \<Longrightarrow> slugPattern (slugify lo name)"
proof -
  assume ne: "slugify lo name \<noteq> []"
  let ?c = "collapse (concat (map slug_rune (runes (to_lower lo (trim_space name)))))"
  have c: "slug_or_dash ?c" by (intro slug_or_dash_collapse slug_or_dash_slug_runes)
  obtain p q where pq: "?c = p @ slugify lo name @ q"
    unfolding slugify_def by (rule trim_char_split)
  from c pq have "slug_or_dash (slugify lo name)" by (metis slug_or_dash_slice)
  moreover have "\<not> has_double (slugify lo name)"
    using pq collapse_no_double by (metis has_double_append has_double_append1)
  ultimately show ?thesis
    using ne trim_char_hd trim_char_last by (auto simp: slugPattern_iff slugify_def)
qed

lemma slugify_fixes_slugs: "slugPattern s \<Longrightarrow> slugify lo s = s"
  by (simp add: slugPattern_iff slugify_def trim_space_slug to_lower_slug runes_ascii
      slug_or_dash_ascii slug_runes_id collapse_id trim_char_id del: map_map)

lemmas slug_eval =
  string_eval slug_rune_def collapse.simps dash_def slugify_def slugPattern_def slug_char_def

end
