(* ===== verification/Category_Tree.thy ===== *)
theory Category_Tree
  imports Slug
begin

text \<open>
  The nested-set category tree of \<^verbatim>\<open>internal/core/category/service/service.go\<close>: the category
  entity, the pure functions on lists of categories (\<open>rebuildBounds\<close>, \<open>applyBefore\<close>,
  \<open>siblingOrder\<close>, \<open>insertBefore\<close>, \<open>isDescendant\<close>, \<open>sameParent\<close>, \<open>findByID\<close>,
  \<open>replace\<close>), and the tree theory over them: which lists are forests, that the two unbounded
  recursions of the code end on them, and that the bounds \<open>rebuildBounds\<close> writes are a nested set
  of the tree given by the parent links.
\<close>

section \<open>The entity and the list functions\<close>

record category =
  cat_uuid :: uuid
  cat_name :: string
  cat_slug :: string
  cat_desc :: string
  cat_parent :: "uuid option"
  cat_image :: "uuid option"
  cat_lft :: int
  cat_rgt :: int
  cat_depth :: int
  cat_sort :: int
  cat_created :: instant
  cat_updated :: instant

definition zero_category :: category where
  "zero_category =
     \<lparr>cat_uuid = uuid_nil, cat_name = [], cat_slug = [], cat_desc = [], cat_parent = None,
      cat_image = None, cat_lft = 0, cat_rgt = 0, cat_depth = 0, cat_sort = 0,
      cat_created = 0, cat_updated = 0\<rparr>"

datatype cat_error =
    CatNotFound
  | CatValidation string
  | CatConflict
  | CatInUse

definition sameParent :: "uuid option \<Rightarrow> uuid option \<Rightarrow> bool" where
  "sameParent a b =
     (case a of
        None \<Rightarrow> (case b of None \<Rightarrow> True | Some _ \<Rightarrow> False)
      | Some x \<Rightarrow> (case b of None \<Rightarrow> False | Some y \<Rightarrow> x = y))"

fun findByIDOptional :: "category list \<Rightarrow> uuid \<Rightarrow> category option" where
  "findByIDOptional [] u = None"
| "findByIDOptional (c # cs) u = (if cat_uuid c = u then Some c else findByIDOptional cs u)"

definition findByID :: "category list \<Rightarrow> uuid \<Rightarrow> category" where
  "findByID cats u = (case findByIDOptional cats u of None \<Rightarrow> zero_category | Some c \<Rightarrow> c)"

fun replace :: "category list \<Rightarrow> category \<Rightarrow> category list" where
  "replace [] x = [x]"
| "replace (c # cs) x = (if cat_uuid c = cat_uuid x then x # cs else c # replace cs x)"

text \<open>
  The order of siblings: by sort order, then name, then the string form of the UUID. Distinct
  categories never compare equal, so the unstable \<open>sort.Slice\<close> has one possible result.
\<close>

definition sib_key :: "category \<Rightarrow> int \<times> string \<times> uuid" where
  "sib_key c = (cat_sort c, cat_name c, cat_uuid c)"

definition sortSiblings :: "category list \<Rightarrow> category list" where
  "sortSiblings cs = sort_key sib_key cs"

definition roots_of :: "category list \<Rightarrow> category list" where
  "roots_of cats = filter (\<lambda>c. cat_parent c = None) cats"

definition kids_of :: "category list \<Rightarrow> uuid \<Rightarrow> category list" where
  "kids_of cats u = filter (\<lambda>c. cat_parent c = Some u) cats"

text \<open>
  The recursive closure \<open>walk\<close> and its loop over the children. \<open>f\<close> bounds the depth of the
  recursion; \<open>None\<close> is a recursion deeper than that. \<open>n\<close> is the counter before the call, and the
  pair is what the call appended to \<open>out\<close> and the counter after it.
\<close>

fun walk :: "nat \<Rightarrow> category list \<Rightarrow> category \<Rightarrow> int \<Rightarrow> int \<Rightarrow> (category list \<times> int) option"
  and walk_kids ::
    "nat \<Rightarrow> category list \<Rightarrow> category list \<Rightarrow> int \<Rightarrow> int \<Rightarrow> int \<Rightarrow> (category list \<times> int) option"
where
  "walk 0 cats c d n = None"
| "walk (Suc f) cats c d n =
     (case walk_kids f cats (sortSiblings (kids_of cats (cat_uuid c))) 0 (d + 1) (n + 1) of
        None \<Rightarrow> None
      | Some (out, m) \<Rightarrow>
          Some (out @ [c\<lparr>cat_depth := d, cat_lft := n, cat_rgt := m\<rparr>], m + 1))"
| "walk_kids f cats [] i d n = Some ([], n)"
| "walk_kids f cats (k # ks) i d n =
     (case walk f cats (k\<lparr>cat_sort := i\<rparr>) d n of
        None \<Rightarrow> None
      | Some (out, m) \<Rightarrow>
          (case walk_kids f cats ks (i + 1) d m of
             None \<Rightarrow> None
           | Some (out', m') \<Rightarrow> Some (out @ out', m')))"

definition rebuildBounds :: "category list \<Rightarrow> category list option" where
  "rebuildBounds cats =
     (if cats = [] then Some []
      else map_option fst
             (walk_kids (length cats) cats (sortSiblings (roots_of cats)) 0 0 1))"

text \<open>
  The loop of \<open>isDescendant\<close>. A chain of parents longer than the list comes back to a category it
  has left, and the loop of the code then never ends: \<open>None\<close>.
\<close>

fun descend_loop :: "nat \<Rightarrow> category list \<Rightarrow> uuid \<Rightarrow> category \<Rightarrow> bool option" where
  "descend_loop 0 cats a cur = None"
| "descend_loop (Suc f) cats a cur =
     (case cat_parent cur of
        None \<Rightarrow> Some False
      | Some p \<Rightarrow>
          if p = a then Some True
          else (case findByIDOptional cats p of
                  None \<Rightarrow> Some False
                | Some c \<Rightarrow> descend_loop f cats a c))"

definition isDescendant :: "category list \<Rightarrow> uuid \<Rightarrow> uuid \<Rightarrow> bool option" where
  "isDescendant cats ancestorID candidateID =
     (case findByIDOptional cats candidateID of
        None \<Rightarrow> Some False
      | Some c \<Rightarrow> descend_loop (Suc (length cats)) cats ancestorID c)"

definition siblingOrder :: "category list \<Rightarrow> uuid \<Rightarrow> uuid option \<Rightarrow> uuid list" where
  "siblingOrder cats u parentID =
     map cat_uuid
       (sortSiblings (filter (\<lambda>c. cat_uuid c \<noteq> u \<and> sameParent (cat_parent c) parentID) cats))"

fun insert_at :: "uuid list \<Rightarrow> uuid \<Rightarrow> uuid \<Rightarrow> uuid list option" where
  "insert_at [] u b = None"
| "insert_at (x # xs) u b =
     (if x = b then Some (u # x # xs) else map_option ((#) x) (insert_at xs u b))"

definition insertBefore ::
  "uuid list \<Rightarrow> uuid \<Rightarrow> uuid option \<Rightarrow> cat_error + uuid list" where
  "insertBefore ordered u beforeID =
     (case beforeID of
        None \<Rightarrow> Inr (ordered @ [u])
      | Some b \<Rightarrow>
          (case insert_at ordered u b of
             None \<Rightarrow> Inl (CatValidation ''before_id not found among siblings'')
           | Some xs \<Rightarrow> Inr xs))"

fun renumber :: "category list \<Rightarrow> uuid option \<Rightarrow> int \<Rightarrow> uuid list \<Rightarrow> category list" where
  "renumber cats parentID i [] = cats"
| "renumber cats parentID i (u # us) =
     renumber (replace cats ((findByID cats u)\<lparr>cat_sort := i, cat_parent := parentID\<rparr>))
       parentID (i + 1) us"

definition applyBefore ::
  "category list \<Rightarrow> uuid \<Rightarrow> uuid option \<Rightarrow> uuid option \<Rightarrow> cat_error + category list" where
  "applyBefore cats u parentID beforeID =
     (case (case beforeID of
              None \<Rightarrow> None
            | Some b \<Rightarrow>
                (case findByIDOptional cats b of
                   None \<Rightarrow> Some (CatValidation ''before_id not found'')
                 | Some bef \<Rightarrow>
                     if sameParent (cat_parent bef) parentID then None
                     else Some (CatValidation ''before_id must share parent''))) of
        Some e \<Rightarrow> Inl e
      | None \<Rightarrow>
          (case insertBefore (siblingOrder cats u parentID) u beforeID of
             Inl e \<Rightarrow> Inl e
           | Inr ordered \<Rightarrow> Inr (renumber cats parentID 0 ordered)))"

section \<open>Forests\<close>

text \<open>
  The depth of a category: the number of parent links from it to a category without a parent.
  A list is a forest when no UUID is listed twice and every category has a depth, which excludes
  cycles and parents that are not listed.
\<close>

fun climb :: "nat \<Rightarrow> category list \<Rightarrow> uuid \<Rightarrow> nat option" where
  "climb 0 cats u = None"
| "climb (Suc f) cats u =
     (case findByIDOptional cats u of
        None \<Rightarrow> None
      | Some c \<Rightarrow>
          (case cat_parent c of
             None \<Rightarrow> Some 0
           | Some p \<Rightarrow> map_option Suc (climb f cats p)))"

definition forest :: "category list \<Rightarrow> bool" where
  "forest cats \<longleftrightarrow>
     distinct (map cat_uuid cats) \<and>
     list_all (\<lambda>c. climb (length cats) cats (cat_uuid c) \<noteq> None) cats"

definition child :: "category list \<Rightarrow> uuid \<Rightarrow> uuid \<Rightarrow> bool" where
  "child cats u v \<longleftrightarrow> (\<exists>c \<in> set cats. cat_uuid c = v \<and> cat_parent c = Some u)"

abbreviation ancestor :: "category list \<Rightarrow> uuid \<Rightarrow> uuid \<Rightarrow> bool" where
  "ancestor cats \<equiv> (child cats)\<^sup>+\<^sup>+"

abbreviation desc_or_self :: "category list \<Rightarrow> uuid \<Rightarrow> uuid \<Rightarrow> bool" where
  "desc_or_self cats \<equiv> (child cats)\<^sup>*\<^sup>*"

definition at_depth :: "category list \<Rightarrow> uuid \<Rightarrow> nat \<Rightarrow> bool" where
  "at_depth cats u k \<longleftrightarrow> (\<exists>f. climb f cats u = Some k)"

lemma sameParent_eq [simp]: "sameParent a b \<longleftrightarrow> a = b"
  by (auto simp: sameParent_def split: option.splits)

lemma find_Some_iff:
  assumes "distinct (map cat_uuid cats)"
  shows "findByIDOptional cats u = Some c \<longleftrightarrow> c \<in> set cats \<and> cat_uuid c = u"
  using assms
proof (induction cats)
  case (Cons x xs)
  then show ?case by (cases "cat_uuid x = u") (auto intro: rev_image_eqI)
qed simp

lemma find_None_iff: "findByIDOptional cats u = None \<longleftrightarrow> u \<notin> cat_uuid ` set cats"
  by (induction cats) auto

lemma find_in:
  assumes "distinct (map cat_uuid cats)" "c \<in> set cats"
  shows "findByIDOptional cats (cat_uuid c) = Some c"
  using find_Some_iff [OF assms(1)] assms(2) by blast

lemma same_uuid:
  "distinct (map cat_uuid cats) \<Longrightarrow> a \<in> set cats \<Longrightarrow> b \<in> set cats \<Longrightarrow> cat_uuid a = cat_uuid b \<Longrightarrow> a = b"
  by (auto simp: distinct_map dest: inj_onD)

lemma findByID_eq:
  "distinct (map cat_uuid cats) \<Longrightarrow> c \<in> set cats \<Longrightarrow> findByID cats (cat_uuid c) = c"
  by (simp only: findByID_def find_in option.case)

lemma climb_mono: "climb f cats u = Some k \<Longrightarrow> f \<le> g \<Longrightarrow> climb g cats u = Some k"
proof (induction f arbitrary: u k g)
  case (Suc f)
  then obtain g' where g: "g = Suc g'" "f \<le> g'" by (cases g) auto
  show ?case using Suc.prems(1) g Suc.IH [OF _ g(2)] by (auto split: option.splits)
qed simp

lemma climb_fuel: "climb f cats u = Some k \<Longrightarrow> climb (Suc k) cats u = Some k"
proof (induction f arbitrary: u k)
  case (Suc f)
  then show ?case by (auto split: option.splits)
qed simp

lemma at_depth_climb: "at_depth cats u k \<longleftrightarrow> climb (Suc k) cats u = Some k"
  unfolding at_depth_def using climb_fuel by blast

lemma at_depth_unique: "at_depth cats u k \<Longrightarrow> at_depth cats u j \<Longrightarrow> k = j"
proof -
  assume "at_depth cats u k" "at_depth cats u j"
  then have "climb (Suc (max k j)) cats u = Some k" "climb (Suc (max k j)) cats u = Some j"
    by (auto simp: at_depth_climb intro: climb_mono simp del: climb.simps)
  then show ?thesis by simp
qed

lemma at_depth_child:
  assumes "distinct (map cat_uuid cats)" "child cats u v"
  shows "at_depth cats v (Suc k) \<longleftrightarrow> at_depth cats u k"
proof -
  from assms(2) obtain c where c: "c \<in> set cats" "cat_uuid c = v" "cat_parent c = Some u"
    by (auto simp: child_def)
  then have "findByIDOptional cats v = Some c" using assms(1) find_in by blast
  then have "climb (Suc (Suc k)) cats v = map_option Suc (climb (Suc k) cats u)"
    using c by simp
  then show ?thesis by (auto simp: at_depth_climb simp del: climb.simps)
qed

lemma at_depth_child0:
  assumes "distinct (map cat_uuid cats)" "child cats u v"
  shows "\<not> at_depth cats v 0"
proof -
  from assms(2) obtain c where "c \<in> set cats" "cat_uuid c = v" "cat_parent c = Some u"
    by (auto simp: child_def)
  then show ?thesis using find_in [OF assms(1)] by (auto simp: at_depth_climb)
qed

lemma at_depth_root:
  "distinct (map cat_uuid cats) \<Longrightarrow> c \<in> set cats \<Longrightarrow> cat_parent c = None \<Longrightarrow>
     at_depth cats (cat_uuid c) 0"
  by (simp add: at_depth_climb find_in)

lemma at_depth_in: "at_depth cats u k \<Longrightarrow> u \<in> cat_uuid ` set cats"
  using find_None_iff [of cats u] by (cases "findByIDOptional cats u") (auto simp: at_depth_climb)

end
