(* ===== verification/Category_Bounds.thy ===== *)
theory Category_Bounds
  imports Category_Tree
begin

text \<open>
  Correctness of \<open>rebuildBounds\<close>: on a list without repeated UUIDs the recursion ends, and on a
  forest the result holds every category once, with bounds that use each number from 1 to twice
  the number of categories exactly once, nest exactly along the parent links, carry the distance
  from the root as depth, and number the siblings in their display order.
\<close>

section \<open>Depths are bounded by the number of categories\<close>

lemma at_depth_pred:
  assumes "at_depth cats v (Suc k)"
  shows "\<exists>u. child cats u v \<and> at_depth cats u k"
proof -
  from assms obtain c p where "findByIDOptional cats v = Some c" "cat_parent c = Some p"
    "climb (Suc k) cats p = Some k"
    by (auto simp: at_depth_climb simp del: climb.simps split: option.splits
        simp: climb.simps(2) [of "Suc k"])
  moreover from this(1) have "c \<in> set cats \<and> cat_uuid c = v"
    by (induction cats) (auto split: if_splits)
  ultimately show ?thesis by (auto simp: child_def at_depth_climb simp del: climb.simps)
qed

lemma at_depth_below: "at_depth cats u k \<Longrightarrow> j \<le> k \<Longrightarrow> \<exists>v. at_depth cats v j"
proof (induction k arbitrary: u)
  case (Suc k)
  then show ?case using at_depth_pred [OF Suc.prems(1)] by (cases "j = Suc k") auto
qed auto

lemma at_depth_less_length: "at_depth cats u k \<Longrightarrow> k < length cats"
proof -
  assume "at_depth cats u k"
  then have "\<forall>j \<in> {..k}. \<exists>v. at_depth cats v j" using at_depth_below by auto
  then obtain g where g: "\<forall>j \<in> {..k}. at_depth cats (g j) j" by metis
  have "inj_on g {..k}" using g at_depth_unique by (intro inj_onI) metis
  moreover have "g ` {..k} \<subseteq> cat_uuid ` set cats" using g at_depth_in by blast
  ultimately have "card {..k} \<le> card (cat_uuid ` set cats)" by (intro card_inj_on_le) auto
  also have "\<dots> \<le> length cats" by (metis card_length length_map list.set_map)
  finally show ?thesis by simp
qed

lemma forest_at_depth:
  "forest cats \<longleftrightarrow>
     distinct (map cat_uuid cats) \<and> (\<forall>c \<in> set cats. \<exists>k. at_depth cats (cat_uuid c) k)"
proof -
  have "climb (length cats) cats u \<noteq> None \<longleftrightarrow> (\<exists>k. at_depth cats u k)" for u
  proof
    assume "climb (length cats) cats u \<noteq> None"
    then show "\<exists>k. at_depth cats u k" by (auto simp: at_depth_def)
  next
    assume "\<exists>k. at_depth cats u k"
    then obtain k where k: "at_depth cats u k" ..
    then have "climb (length cats) cats u = Some k"
      using at_depth_less_length [OF k] climb_mono unfolding at_depth_climb
      by (metis Suc_leI)
    then show "climb (length cats) cats u \<noteq> None" by simp
  qed
  then show ?thesis by (simp add: forest_def list_all_iff)
qed

lemma forest_distinct: "forest cats \<Longrightarrow> distinct (map cat_uuid cats)"
  by (simp add: forest_def)

section \<open>The recursion ends\<close>

lemma set_sortSiblings [simp]: "set (sortSiblings cs) = set cs"
  by (simp add: sortSiblings_def)

lemma distinct_sortSiblings [simp]:
  "distinct (map cat_uuid cs) \<Longrightarrow> distinct (map cat_uuid (sortSiblings cs))"
  by (simp add: sortSiblings_def distinct_map)

lemma kids_child: "k \<in> set (kids_of cats u) \<Longrightarrow> child cats u (cat_uuid k)"
  by (auto simp: kids_of_def child_def)

lemma kids_uuids: "cat_uuid ` set (kids_of cats u) = {v. child cats u v}"
  by (auto simp: kids_of_def child_def)

lemma distinct_kids:
  "distinct (map cat_uuid cats) \<Longrightarrow> distinct (map cat_uuid (kids_of cats u))"
  by (simp add: kids_of_def distinct_map_filter)

lemma kids_at_depth:
  assumes "distinct (map cat_uuid cats)" "at_depth cats u k"
  shows "\<forall>x \<in> set (sortSiblings (kids_of cats u)). at_depth cats (cat_uuid x) (Suc k)"
  using assms kids_child at_depth_child by fastforce

lemma roots_at_depth:
  assumes "distinct (map cat_uuid cats)"
  shows "\<forall>x \<in> set (sortSiblings (roots_of cats)). at_depth cats (cat_uuid x) 0"
  using assms by (auto simp: roots_of_def intro: at_depth_root)

text \<open>What a finished call of the recursion and of its loop did.\<close>

lemma walk_SomeE:
  assumes "walk (Suc f) cats c d n = Some (out, m)"
  obtains o1 m1 where
    "walk_kids f cats (sortSiblings (kids_of cats (cat_uuid c))) 0 (d + 1) (n + 1) = Some (o1, m1)"
    "out = o1 @ [c\<lparr>cat_depth := d, cat_lft := n, cat_rgt := m1\<rparr>]" "m = m1 + 1"
  using assms by (auto split: option.splits)

lemma walk_kids_ConsE:
  assumes "walk_kids f cats (k # ks) i d n = Some (out, m)"
  obtains o1 m1 o2 where
    "walk f cats (k\<lparr>cat_sort := i\<rparr>) d n = Some (o1, m1)"
    "walk_kids f cats ks (i + 1) d m1 = Some (o2, m)" "out = o1 @ o2"
  using assms by (auto split: option.splits)

lemma walk_ends:
  assumes "distinct (map cat_uuid cats)"
  shows "at_depth cats (cat_uuid c) k \<Longrightarrow> length cats \<le> f + k \<Longrightarrow> walk f cats c d n \<noteq> None"
    and "\<forall>x \<in> set ks. at_depth cats (cat_uuid x) j \<Longrightarrow> length cats \<le> f + j \<Longrightarrow>
           walk_kids f cats ks i d n \<noteq> None"
  using assms
proof (induction f cats c d n and f cats ks i d n arbitrary: k and j rule: walk_walk_kids.induct)
  case (1 cats c d n)
  then show ?case using at_depth_less_length by fastforce
next
  case (2 f cats c d n)
  then have "walk_kids f cats (sortSiblings (kids_of cats (cat_uuid c))) 0 (d + 1) (n + 1) \<noteq> None"
    using kids_at_depth [OF "2.prems"(3) "2.prems"(1)] "2.IH" [of "Suc k"] by simp
  then show ?case by auto
next
  case (3 f cats i d n)
  then show ?case by simp
next
  case (4 f cats k ks i d n)
  have "walk f cats (k\<lparr>cat_sort := i\<rparr>) d n \<noteq> None" using "4.IH"(1) [of j] "4.prems" by simp
  moreover have "walk_kids f cats ks (i + 1) d m \<noteq> None"
    if "walk f cats (k\<lparr>cat_sort := i\<rparr>) d n = Some (out, m)" for out m
    using "4.IH"(2) [OF that refl, of j] "4.prems" by simp
  ultimately show ?case by fastforce
qed

text \<open>The recursion of \<open>rebuildBounds\<close> ends on every list without repeated UUIDs.\<close>

lemma rebuildBounds_ends:
  "distinct (map cat_uuid cats) \<Longrightarrow> \<exists>out. rebuildBounds cats = Some out"
  using walk_ends(2) [OF _ roots_at_depth, of cats "length cats"]
  by (fastforce simp: rebuildBounds_def)

section \<open>The numbers\<close>

definition ends_of :: "category list \<Rightarrow> int list" where
  "ends_of cs = map cat_lft cs @ map cat_rgt cs"

lemma walk_numbers:
  "walk f cats c d n = Some (out, m) \<Longrightarrow>
     m = n + 2 * int (length out) \<and> set (ends_of out) = {n..<m}"
  "walk_kids f cats ks i d n = Some (out, m) \<Longrightarrow>
     m = n + 2 * int (length out) \<and> set (ends_of out) = {n..<m}"
proof (induction f cats c d n and f cats ks i d n arbitrary: out m and out m
    rule: walk_walk_kids.induct)
  case (2 f cats c d n)
  from "2.prems" obtain o1 m1 where
    a: "walk_kids f cats (sortSiblings (kids_of cats (cat_uuid c))) 0 (d + 1) (n + 1) = Some (o1, m1)"
       "out = o1 @ [c\<lparr>cat_depth := d, cat_lft := n, cat_rgt := m1\<rparr>]" "m = m1 + 1"
    by (rule walk_SomeE)
  have "m1 = n + 1 + 2 * int (length o1)" "set (ends_of o1) = {n + 1..<m1}"
    using "2.IH" [OF a(1)] by simp_all
  moreover have "set (ends_of out) = insert n (insert m1 (set (ends_of o1)))"
    using a(2) by (auto simp: ends_of_def)
  ultimately show ?case using a(2,3) by auto
next
  case (4 f cats k ks i d n)
  from "4.prems" obtain o1 m1 o2 where
    a: "walk f cats (k\<lparr>cat_sort := i\<rparr>) d n = Some (o1, m1)"
       "walk_kids f cats ks (i + 1) d m1 = Some (o2, m)" "out = o1 @ o2"
    by (rule walk_kids_ConsE)
  have "m1 = n + 2 * int (length o1)" "set (ends_of o1) = {n..<m1}"
    "m = m1 + 2 * int (length o2)" "set (ends_of o2) = {m1..<m}"
    using "4.IH"(1) [OF a(1)] "4.IH"(2) [OF a(1) refl a(2)] by simp_all
  moreover have "set (ends_of out) = set (ends_of o1) \<union> set (ends_of o2)"
    using a(3) by (auto simp: ends_of_def)
  ultimately show ?case using a(3) by auto
qed (simp_all add: ends_of_def)

lemma walk_in_range:
  "walk f cats c d n = Some (out, m) \<Longrightarrow> x \<in> set out \<Longrightarrow>
     n \<le> cat_lft x \<and> cat_lft x < cat_rgt x \<and> cat_rgt x < m"
  "walk_kids f cats ks i d n = Some (out, m) \<Longrightarrow> x \<in> set out \<Longrightarrow>
     n \<le> cat_lft x \<and> cat_lft x < cat_rgt x \<and> cat_rgt x < m"
proof (induction f cats c d n and f cats ks i d n arbitrary: out m and out m
    rule: walk_walk_kids.induct)
  case (2 f cats c d n)
  from "2.prems" obtain o1 m1 where
    a: "walk_kids f cats (sortSiblings (kids_of cats (cat_uuid c))) 0 (d + 1) (n + 1) = Some (o1, m1)"
       "out = o1 @ [c\<lparr>cat_depth := d, cat_lft := n, cat_rgt := m1\<rparr>]" "m = m1 + 1"
    by (blast elim: walk_SomeE)
  from walk_numbers(2) [OF a(1)] have "n < m1" by simp
  then show ?case using "2.IH" [OF a(1)] a "2.prems"(2) by fastforce
next
  case (4 f cats k ks i d n)
  from "4.prems" obtain o1 m1 o2 where
    a: "walk f cats (k\<lparr>cat_sort := i\<rparr>) d n = Some (o1, m1)"
       "walk_kids f cats ks (i + 1) d m1 = Some (o2, m)" "out = o1 @ o2"
    by (blast elim: walk_kids_ConsE)
  then show ?case using "4.IH"(1) [OF a(1)] "4.IH"(2) [OF a(1) refl a(2)] "4.prems"(2)
      walk_numbers(1) [OF a(1)] walk_numbers(2) [OF a(2)] by fastforce
qed simp_all

section \<open>Every descendant, once\<close>

lemma child_unique:
  "distinct (map cat_uuid cats) \<Longrightarrow> child cats u v \<Longrightarrow> child cats u' v \<Longrightarrow> u = u'"
  unfolding child_def by (metis find_in option.inject)

lemma ancestor_deeper:
  assumes "distinct (map cat_uuid cats)" "ancestor cats u v" "at_depth cats u j"
  shows "\<exists>i > j. at_depth cats v i"
  using assms(2)
proof (induction rule: tranclp_induct)
  case (base v)
  then show ?case using assms at_depth_child by blast
next
  case (step v w)
  then show ?case using assms(1) at_depth_child by (meson less_SucI)
qed

lemma no_self_ancestor:
  "distinct (map cat_uuid cats) \<Longrightarrow> at_depth cats u j \<Longrightarrow> \<not> ancestor cats u u"
  using ancestor_deeper at_depth_unique by (metis less_irrefl)

lemma desc_same_depth:
  assumes "distinct (map cat_uuid cats)" "desc_or_self cats u v" "at_depth cats u j" "at_depth cats v j"
  shows "u = v"
  using assms ancestor_deeper at_depth_unique by (metis less_irrefl rtranclpD)

text \<open>The subtrees of two categories of the same depth have nothing in common.\<close>

lemma desc_disjoint:
  assumes "distinct (map cat_uuid cats)" "at_depth cats u j" "at_depth cats v j"
    "desc_or_self cats u w" "desc_or_self cats v w"
  shows "u = v"
  using assms(4,5)
proof (induction rule: rtranclp_induct)
  case base
  then show ?case using desc_same_depth assms by metis
next
  case (step x w)
  have "v \<noteq> w"
  proof
    assume "v = w"
    with step have "ancestor cats u v" by (simp add: rtranclp_into_tranclp1)
    then show False using ancestor_deeper assms at_depth_unique by (metis less_irrefl)
  qed
  with step.prems obtain y where "desc_or_self cats v y" "child cats y w"
    by (metis rtranclp.cases)
  with step show ?case using child_unique assms(1) by metis
qed

lemma desc_or_self_unfold:
  "desc_or_self cats u v \<longleftrightarrow> v = u \<or> (\<exists>w. child cats u w \<and> desc_or_self cats w v)"
  by (metis converse_rtranclpE converse_rtranclp_into_rtranclp rtranclp.rtrancl_refl)

lemma walk_uuids:
  "walk f cats c d n = Some (out, m) \<Longrightarrow>
     cat_uuid ` set out = {v. desc_or_self cats (cat_uuid c) v}"
  "walk_kids f cats ks i d n = Some (out, m) \<Longrightarrow>
     cat_uuid ` set out = {v. \<exists>k \<in> set ks. desc_or_self cats (cat_uuid k) v}"
proof (induction f cats c d n and f cats ks i d n arbitrary: out m and out m
    rule: walk_walk_kids.induct)
  case (2 f cats c d n)
  from "2.prems" obtain o1 m1 where
    a: "walk_kids f cats (sortSiblings (kids_of cats (cat_uuid c))) 0 (d + 1) (n + 1) = Some (o1, m1)"
       "out = o1 @ [c\<lparr>cat_depth := d, cat_lft := n, cat_rgt := m1\<rparr>]"
    by (rule walk_SomeE)
  have "cat_uuid ` set o1 = {v. \<exists>w. child cats (cat_uuid c) w \<and> desc_or_self cats w v}"
    unfolding "2.IH" [OF a(1)] using kids_uuids [of cats "cat_uuid c"]
    by (simp add: set_eq_iff image_iff) metis
  then show ?case using a(2) desc_or_self_unfold [of cats "cat_uuid c"] by auto
next
  case (4 f cats k ks i d n)
  from "4.prems" obtain o1 m1 o2 where
    a: "walk f cats (k\<lparr>cat_sort := i\<rparr>) d n = Some (o1, m1)"
       "walk_kids f cats ks (i + 1) d m1 = Some (o2, m)" "out = o1 @ o2"
    by (rule walk_kids_ConsE)
  show ?case using "4.IH"(1) [OF a(1)] "4.IH"(2) [OF a(1) refl a(2)] a(3)
    by (auto simp: image_Un)
qed simp_all

lemma walk_distinct:
  assumes "distinct (map cat_uuid cats)"
  shows "walk f cats c d n = Some (out, m) \<Longrightarrow> at_depth cats (cat_uuid c) k \<Longrightarrow>
           distinct (map cat_uuid out)"
    and "walk_kids f cats ks i d n = Some (out, m) \<Longrightarrow>
           \<forall>x \<in> set ks. at_depth cats (cat_uuid x) j \<Longrightarrow> distinct (map cat_uuid ks) \<Longrightarrow>
           distinct (map cat_uuid out)"
  using assms
proof (induction f cats c d n and f cats ks i d n arbitrary: out m k and out m j
    rule: walk_walk_kids.induct)
  case (2 f cats c d n)
  from "2.prems"(1) obtain o1 m1 where
    a: "walk_kids f cats (sortSiblings (kids_of cats (cat_uuid c))) 0 (d + 1) (n + 1) = Some (o1, m1)"
       "out = o1 @ [c\<lparr>cat_depth := d, cat_lft := n, cat_rgt := m1\<rparr>]"
    by (rule walk_SomeE)
  have o1: "distinct (map cat_uuid o1)"
    using "2.IH" [OF a(1) kids_at_depth [OF "2.prems"(3,2)]] "2.prems"(3) distinct_kids by simp
  have "cat_uuid c \<notin> cat_uuid ` set o1"
  proof
    assume "cat_uuid c \<in> cat_uuid ` set o1"
    then obtain k where "k \<in> set (kids_of cats (cat_uuid c))"
      "desc_or_self cats (cat_uuid k) (cat_uuid c)"
      using walk_uuids(2) [OF a(1)] by auto
    then show False using no_self_ancestor "2.prems" kids_child by (metis rtranclp_into_tranclp2)
  qed
  with o1 a(2) show ?case by auto
next
  case (4 f cats k ks i d n)
  from "4.prems"(1) obtain o1 m1 o2 where
    a: "walk f cats (k\<lparr>cat_sort := i\<rparr>) d n = Some (o1, m1)"
       "walk_kids f cats ks (i + 1) d m1 = Some (o2, m)" "out = o1 @ o2"
    by (rule walk_kids_ConsE)
  have "cat_uuid ` set o1 \<inter> cat_uuid ` set o2 = {}"
  proof (rule ccontr)
    assume "cat_uuid ` set o1 \<inter> cat_uuid ` set o2 \<noteq> {}"
    then obtain w k' where "k' \<in> set ks" "desc_or_self cats (cat_uuid k) w"
      "desc_or_self cats (cat_uuid k') w"
      using walk_uuids(1) [OF a(1)] walk_uuids(2) [OF a(2)] by auto
    then show False using desc_disjoint [OF "4.prems"(4)] "4.prems"(2,3) by fastforce
  qed
  moreover have "distinct (map cat_uuid o1)" using "4.IH"(1) [OF a(1), of j] "4.prems" by simp
  moreover have "distinct (map cat_uuid o2)"
    using "4.IH"(2) [OF a(1) refl a(2), of j] "4.prems" by simp
  ultimately show ?case using a(3) by simp
qed simp_all

section \<open>Nesting, depth, order\<close>

text \<open>\<open>y\<close> lies strictly inside \<open>x\<close>.\<close>

definition inside :: "category \<Rightarrow> category \<Rightarrow> bool" where
  "inside y x \<longleftrightarrow> cat_lft x < cat_lft y \<and> cat_rgt y < cat_rgt x"

lemma walk_nested:
  assumes "distinct (map cat_uuid cats)"
  shows "walk f cats c d n = Some (out, m) \<Longrightarrow> at_depth cats (cat_uuid c) k \<Longrightarrow>
           x \<in> set out \<Longrightarrow> y \<in> set out \<Longrightarrow>
           inside y x \<longleftrightarrow> ancestor cats (cat_uuid x) (cat_uuid y)"
    and "walk_kids f cats ks i d n = Some (out, m) \<Longrightarrow>
           \<forall>x \<in> set ks. at_depth cats (cat_uuid x) j \<Longrightarrow> distinct (map cat_uuid ks) \<Longrightarrow>
           x \<in> set out \<Longrightarrow> y \<in> set out \<Longrightarrow>
           inside y x \<longleftrightarrow> ancestor cats (cat_uuid x) (cat_uuid y)"
  using assms
proof (induction f cats c d n and f cats ks i d n arbitrary: out m k x y and out m j x y
    rule: walk_walk_kids.induct)
  case (2 f cats c d n)
  from "2.prems"(1) obtain o1 m1 where
    a: "walk_kids f cats (sortSiblings (kids_of cats (cat_uuid c))) 0 (d + 1) (n + 1) = Some (o1, m1)"
       "out = o1 @ [c\<lparr>cat_depth := d, cat_lft := n, cat_rgt := m1\<rparr>]"
    by (rule walk_SomeE)
  let ?c = "c\<lparr>cat_depth := d, cat_lft := n, cat_rgt := m1\<rparr>"
  have below: "ancestor cats (cat_uuid c) (cat_uuid z)" if "z \<in> set o1" for z
  proof -
    from that obtain k where "k \<in> set (kids_of cats (cat_uuid c))" "desc_or_self cats (cat_uuid k) (cat_uuid z)"
      using walk_uuids(2) [OF a(1)] by auto
    then show ?thesis using kids_child by (metis rtranclp_into_tranclp2)
  qed
  have rng: "inside z ?c" "\<not> inside ?c z" if "z \<in> set o1" for z
    using walk_in_range(2) [OF a(1) that] by (auto simp: inside_def)
  have up: "\<not> ancestor cats (cat_uuid z) (cat_uuid c)" if "z \<in> set o1" for z
    using below [OF that] no_self_ancestor "2.prems" by (metis tranclp_trans)
  have self: "\<not> ancestor cats (cat_uuid c) (cat_uuid c)" "\<not> inside ?c ?c"
    using no_self_ancestor "2.prems" by (auto simp: inside_def)
  have both: "inside y x \<longleftrightarrow> ancestor cats (cat_uuid x) (cat_uuid y)" if "x \<in> set o1" "y \<in> set o1"
    using "2.IH" [OF a(1) kids_at_depth [OF "2.prems"(5,2)]] "2.prems"(5) distinct_kids that by simp
  from "2.prems"(3,4) a(2) consider "x \<in> set o1" "y \<in> set o1" | "x \<in> set o1" "y = ?c"
    | "x = ?c" "y \<in> set o1" | "x = ?c" "y = ?c" by auto
  then show ?case by cases (use both below rng up self in auto)
next
  case (4 f cats k ks i d n)
  from "4.prems"(1) obtain o1 m1 o2 where
    a: "walk f cats (k\<lparr>cat_sort := i\<rparr>) d n = Some (o1, m1)"
       "walk_kids f cats ks (i + 1) d m1 = Some (o2, m)" "out = o1 @ o2"
    by (rule walk_kids_ConsE)
  have apart: "\<not> inside p q" "\<not> inside q p" if "p \<in> set o1" "q \<in> set o2" for p q
    using walk_in_range(1) [OF a(1) that(1)] walk_in_range(2) [OF a(2) that(2)]
    by (auto simp: inside_def)
  have unrel: "\<not> ancestor cats (cat_uuid p) (cat_uuid q)" "\<not> ancestor cats (cat_uuid q) (cat_uuid p)"
    if "p \<in> set o1" "q \<in> set o2" for p q
  proof -
    from that have "cat_uuid p \<in> cat_uuid ` set o1" "cat_uuid q \<in> cat_uuid ` set o2" by auto
    then obtain k' where k': "k' \<in> set ks" "desc_or_self cats (cat_uuid k) (cat_uuid p)"
      "desc_or_self cats (cat_uuid k') (cat_uuid q)"
      unfolding walk_uuids(1) [OF a(1)] walk_uuids(2) [OF a(2)] by auto
    have ne: "cat_uuid k \<noteq> cat_uuid k'" using k'(1) "4.prems"(3) by auto
    have dis: "\<not> (desc_or_self cats (cat_uuid k) w \<and> desc_or_self cats (cat_uuid k') w)" for w
      using desc_disjoint [OF "4.prems"(6), of "cat_uuid k" j "cat_uuid k'" w] "4.prems"(2) k'(1) ne
      by auto
    show "\<not> ancestor cats (cat_uuid p) (cat_uuid q)" "\<not> ancestor cats (cat_uuid q) (cat_uuid p)"
      using k'(2,3) dis by (meson rtranclp_trans tranclp_into_rtranclp)+
  qed
  from "4.prems"(4,5) a(3) consider "x \<in> set o1" "y \<in> set o1" | "x \<in> set o1" "y \<in> set o2"
    | "x \<in> set o2" "y \<in> set o1" | "x \<in> set o2" "y \<in> set o2" by auto
  then show ?case
    by cases (use "4.IH"(1) [OF a(1)] "4.IH"(2) [OF a(1) refl a(2)] "4.prems" apart unrel in auto)
qed simp_all

lemma walk_depth:
  assumes "distinct (map cat_uuid cats)"
  shows "walk f cats c d n = Some (out, m) \<Longrightarrow> at_depth cats (cat_uuid c) (nat d) \<Longrightarrow> 0 \<le> d \<Longrightarrow>
           x \<in> set out \<Longrightarrow> 0 \<le> cat_depth x \<and> at_depth cats (cat_uuid x) (nat (cat_depth x))"
    and "walk_kids f cats ks i d n = Some (out, m) \<Longrightarrow>
           \<forall>x \<in> set ks. at_depth cats (cat_uuid x) (nat d) \<Longrightarrow> 0 \<le> d \<Longrightarrow>
           x \<in> set out \<Longrightarrow> 0 \<le> cat_depth x \<and> at_depth cats (cat_uuid x) (nat (cat_depth x))"
  using assms
proof (induction f cats c d n and f cats ks i d n arbitrary: out m x and out m x
    rule: walk_walk_kids.induct)
  case (2 f cats c d n)
  from "2.prems"(1) obtain o1 m1 where
    a: "walk_kids f cats (sortSiblings (kids_of cats (cat_uuid c))) 0 (d + 1) (n + 1) = Some (o1, m1)"
       "out = o1 @ [c\<lparr>cat_depth := d, cat_lft := n, cat_rgt := m1\<rparr>]"
    by (rule walk_SomeE)
  have "\<forall>x \<in> set (sortSiblings (kids_of cats (cat_uuid c))). at_depth cats (cat_uuid x) (nat (d + 1))"
    using kids_at_depth [OF "2.prems"(5,2)] "2.prems"(3) by (simp add: nat_add_distrib)
  then show ?case using "2.IH" [OF a(1)] a(2) "2.prems" by auto
next
  case (4 f cats k ks i d n)
  from "4.prems"(1) obtain o1 m1 o2 where
    a: "walk f cats (k\<lparr>cat_sort := i\<rparr>) d n = Some (o1, m1)"
       "walk_kids f cats ks (i + 1) d m1 = Some (o2, m)" "out = o1 @ o2"
    by (rule walk_kids_ConsE)
  show ?case using "4.IH"(1) [OF a(1)] "4.IH"(2) [OF a(1) refl a(2)] a(3) "4.prems" by auto
qed simp_all

text \<open>A category without what \<open>rebuildBounds\<close> computes.\<close>

definition core :: "category \<Rightarrow> category" where
  "core c = c\<lparr>cat_lft := 0, cat_rgt := 0, cat_depth := 0, cat_sort := 0\<rparr>"

lemma walk_core:
  "walk f cats c d n = Some (out, m) \<Longrightarrow> core c \<in> core ` set cats \<Longrightarrow>
     x \<in> set out \<Longrightarrow> core x \<in> core ` set cats"
  "walk_kids f cats ks i d n = Some (out, m) \<Longrightarrow> core ` set ks \<subseteq> core ` set cats \<Longrightarrow>
     x \<in> set out \<Longrightarrow> core x \<in> core ` set cats"
proof (induction f cats c d n and f cats ks i d n arbitrary: out m x and out m x
    rule: walk_walk_kids.induct)
  case (2 f cats c d n)
  from "2.prems"(1) obtain o1 m1 where
    a: "walk_kids f cats (sortSiblings (kids_of cats (cat_uuid c))) 0 (d + 1) (n + 1) = Some (o1, m1)"
       "out = o1 @ [c\<lparr>cat_depth := d, cat_lft := n, cat_rgt := m1\<rparr>]"
    by (rule walk_SomeE)
  have "core ` set (sortSiblings (kids_of cats (cat_uuid c))) \<subseteq> core ` set cats"
    by (auto simp: kids_of_def)
  then show ?case using "2.IH" [OF a(1)] a(2) "2.prems" by (auto simp: core_def)
next
  case (4 f cats k ks i d n)
  from "4.prems"(1) obtain o1 m1 o2 where
    a: "walk f cats (k\<lparr>cat_sort := i\<rparr>) d n = Some (o1, m1)"
       "walk_kids f cats ks (i + 1) d m1 = Some (o2, m)" "out = o1 @ o2"
    by (rule walk_kids_ConsE)
  have "core (k\<lparr>cat_sort := i\<rparr>) = core k" by (simp add: core_def)
  then show ?case using "4.IH"(1) [OF a(1)] "4.IH"(2) [OF a(1) refl a(2)] a(3) "4.prems" by auto
qed simp_all

text \<open>The siblings under a parent (or the roots), in display order.\<close>

definition siblings :: "category list \<Rightarrow> uuid option \<Rightarrow> category list" where
  "siblings cats p = sortSiblings (filter (\<lambda>c. cat_parent c = p) cats)"

definition in_place :: "category list \<Rightarrow> category \<Rightarrow> bool" where
  "in_place cats x \<longleftrightarrow>
     0 \<le> cat_sort x \<and> nat (cat_sort x) < length (siblings cats (cat_parent x)) \<and>
     cat_uuid (siblings cats (cat_parent x) ! nat (cat_sort x)) = cat_uuid x"

lemma kids_siblings: "sortSiblings (kids_of cats u) = siblings cats (Some u)"
  by (simp add: kids_of_def siblings_def)

lemma roots_siblings: "sortSiblings (roots_of cats) = siblings cats None"
  by (simp add: roots_of_def siblings_def)

lemma siblings_parent: "k \<in> set (siblings cats p) \<Longrightarrow> cat_parent k = p"
  by (auto simp: siblings_def)

lemma walk_in_place:
  "walk f cats c d n = Some (out, m) \<Longrightarrow> in_place cats c \<Longrightarrow> x \<in> set out \<Longrightarrow> in_place cats x"
  "walk_kids f cats ks i d n = Some (out, m) \<Longrightarrow> 0 \<le> i \<Longrightarrow>
     ks = drop (nat i) (siblings cats p) \<Longrightarrow> x \<in> set out \<Longrightarrow> in_place cats x"
proof (induction f cats c d n and f cats ks i d n arbitrary: out m x and out m x p
    rule: walk_walk_kids.induct)
  case (2 f cats c d n)
  from "2.prems"(1) obtain o1 m1 where
    a: "walk_kids f cats (sortSiblings (kids_of cats (cat_uuid c))) 0 (d + 1) (n + 1) = Some (o1, m1)"
       "out = o1 @ [c\<lparr>cat_depth := d, cat_lft := n, cat_rgt := m1\<rparr>]"
    by (rule walk_SomeE)
  show ?case using "2.IH" [OF a(1), of "Some (cat_uuid c)"] a(2) "2.prems"
    by (auto simp: in_place_def kids_siblings)
next
  case (4 f cats k ks i d n)
  from "4.prems"(1) obtain o1 m1 o2 where
    a: "walk f cats (k\<lparr>cat_sort := i\<rparr>) d n = Some (o1, m1)"
       "walk_kids f cats ks (i + 1) d m1 = Some (o2, m)" "out = o1 @ o2"
    by (rule walk_kids_ConsE)
  have lt: "nat i < length (siblings cats p)" using "4.prems"(3) by (metis drop_all leI list.distinct(1))
  have "siblings cats p ! nat i # drop (Suc (nat i)) (siblings cats p) = k # ks"
    using "4.prems"(3) Cons_nth_drop_Suc [OF lt] by simp
  then have k: "siblings cats p ! nat i = k" "ks = drop (nat (i + 1)) (siblings cats p)"
    using "4.prems"(2) by (auto simp: nat_add_distrib)
  then have "cat_parent k = p" using lt siblings_parent nth_mem by blast
  then have "in_place cats (k\<lparr>cat_sort := i\<rparr>)" using k lt "4.prems"(2) by (simp add: in_place_def)
  then show ?case using "4.IH"(1) [OF a(1)] "4.IH"(2) [OF a(1) refl a(2)] a(3) "4.prems" k(2) by auto
qed simp_all

section \<open>The nested set\<close>

text \<open>
  \<open>cats\<close> carry a nested set: the bounds are the numbers 1 to \<open>2 n\<close>, each used once; one category's
  bounds lie inside another's exactly when the other is an ancestor; and the depth is the number of
  ancestors.
\<close>

definition nested_set :: "category list \<Rightarrow> bool" where
  "nested_set cats \<longleftrightarrow>
     distinct (ends_of cats) \<and> set (ends_of cats) = {1..2 * int (length cats)} \<and>
     (\<forall>x \<in> set cats. cat_lft x < cat_rgt x) \<and>
     (\<forall>x \<in> set cats. \<forall>y \<in> set cats.
        inside y x \<longleftrightarrow> ancestor cats (cat_uuid x) (cat_uuid y)) \<and>
     (\<forall>x \<in> set cats. 0 \<le> cat_depth x \<and> at_depth cats (cat_uuid x) (nat (cat_depth x)))"

definition links :: "category list \<Rightarrow> (uuid \<times> uuid option) set" where
  "links cats = (\<lambda>c. (cat_uuid c, cat_parent c)) ` set cats"

lemma links_Nil [simp]: "links [] = {}"
  by (simp add: links_def)

lemma links_Cons [simp]: "links (c # cats) = insert (cat_uuid c, cat_parent c) (links cats)"
  by (simp add: links_def)

lemma child_links: "child cats u v \<longleftrightarrow> (v, Some u) \<in> links cats"
  by (auto simp: child_def links_def)

lemma core_simps [simp]: "cat_uuid (core c) = cat_uuid c" "cat_parent (core c) = cat_parent c"
  by (simp_all add: core_def)

lemma links_core: "core ` set xs = core ` set ys \<Longrightarrow> links xs = links ys"
proof -
  assume "core ` set xs = core ` set ys"
  then have "(\<lambda>c. (cat_uuid c, cat_parent c)) ` core ` set xs =
    (\<lambda>c. (cat_uuid c, cat_parent c)) ` core ` set ys" by simp
  then show ?thesis by (simp add: links_def image_image core_def)
qed

lemma child_cong: "links xs = links ys \<Longrightarrow> child xs = child ys"
  by (simp add: fun_eq_iff child_links)

lemma find_parent_links:
  assumes "distinct (map cat_uuid xs)"
  shows "map_option cat_parent (findByIDOptional xs u) = Some p \<longleftrightarrow> (u, p) \<in> links xs"
  using find_Some_iff [OF assms] by (auto simp: links_def)

lemma at_depth_cong:
  assumes "distinct (map cat_uuid xs)" "distinct (map cat_uuid ys)" "links xs = links ys"
  shows "at_depth xs u k \<longleftrightarrow> at_depth ys u k"
proof -
  have par: "map_option cat_parent (findByIDOptional xs v) = map_option cat_parent (findByIDOptional ys v)" for v
    using find_parent_links assms by (metis not_None_eq)
  have unfold: "climb (Suc f) cats v =
      (case map_option cat_parent (findByIDOptional cats v) of None \<Rightarrow> None
       | Some None \<Rightarrow> Some 0 | Some (Some p) \<Rightarrow> map_option Suc (climb f cats p))" for f cats v
    by (simp split: option.splits)
  have "climb f xs v = climb f ys v" for f v
  proof (induction f arbitrary: v)
    case (Suc f)
    then show ?case unfolding unfold par by (simp split: option.splits)
  qed simp
  then show ?thesis by (simp add: at_depth_def)
qed

lemma forest_cong:
  assumes "distinct (map cat_uuid ys)" "links xs = links ys" "forest xs"
  shows "forest ys"
proof -
  have "\<exists>k. at_depth ys (cat_uuid c) k" if c: "c \<in> set ys" for c
  proof -
    have "(cat_uuid c, cat_parent c) \<in> links xs" using c assms(2) by (auto simp: links_def)
    then obtain d where "d \<in> set xs" "cat_uuid d = cat_uuid c" by (auto simp: links_def)
    then have "\<exists>k. at_depth xs (cat_uuid c) k" using assms(3) unfolding forest_at_depth by metis
    then show ?thesis using assms at_depth_cong forest_distinct by blast
  qed
  with assms(1) show ?thesis by (simp add: forest_at_depth)
qed

lemma under_root: "at_depth cats v k \<Longrightarrow> \<exists>r \<in> set (roots_of cats). desc_or_self cats (cat_uuid r) v"
proof (induction k arbitrary: v)
  case 0
  then obtain c where f: "findByIDOptional cats v = Some c" "cat_parent c = None"
    by (auto simp: at_depth_climb split: option.splits)
  from f(1) have "c \<in> set cats \<and> cat_uuid c = v" by (induction cats) (auto split: if_splits)
  with f(2) show ?case by (auto simp: roots_of_def)
next
  case (Suc k)
  then show ?case using at_depth_pred by (meson rtranclp.rtrancl_into_rtrancl)
qed

text \<open>What \<open>rebuildBounds\<close> returns is the output of the loop over the sorted roots.\<close>

lemma rebuild_walk:
  assumes "rebuildBounds cats = Some out"
  obtains m where "walk_kids (length cats) cats (siblings cats None) 0 0 1 = Some (out, m)"
  using assms
  by (cases "cats = []")
     (auto simp: rebuildBounds_def siblings_def sortSiblings_def roots_of_def)

lemma rebuild_facts:
  assumes f: "forest cats" and r: "rebuildBounds cats = Some out"
  shows "distinct (map cat_uuid out)" "core ` set out = core ` set cats"
    "length out = length cats" "\<forall>x \<in> set out. in_place cats x" "nested_set out"
proof -
  obtain m where w: "walk_kids (length cats) cats (siblings cats None) 0 0 1 = Some (out, m)"
    using r by (rule rebuild_walk)
  note d = forest_distinct [OF f]
  have at0: "\<forall>x \<in> set (siblings cats None). at_depth cats (cat_uuid x) 0"
    using roots_at_depth [OF d] by (simp add: roots_siblings)
  have ds: "distinct (map cat_uuid (siblings cats None))"
    using d by (simp add: siblings_def distinct_map_filter)
  show dist: "distinct (map cat_uuid out)" by (rule walk_distinct(2) [OF d w at0 ds])
  have cs: "core ` set out \<subseteq> core ` set cats"
    using walk_core(2) [OF w] by (auto simp: siblings_def)
  have us: "cat_uuid ` set out = cat_uuid ` set cats"
  proof (rule subset_antisym)
    have "cat_uuid ` core ` set out \<subseteq> cat_uuid ` core ` set cats" using cs by (rule image_mono)
    then show "cat_uuid ` set out \<subseteq> cat_uuid ` set cats" by (simp add: image_image core_def)
    show "cat_uuid ` set cats \<subseteq> cat_uuid ` set out"
      using under_root f unfolding walk_uuids(2) [OF w] forest_at_depth
      by (fastforce simp: siblings_def roots_of_def)
  qed
  show len: "length out = length cats"
    using us dist d by (metis distinct_card length_map list.set_map)
  show core: "core ` set out = core ` set cats"
  proof (rule card_subset_eq [OF _ cs])
    have inj: "card (core ` set xs) = length xs" if "distinct (map cat_uuid xs)" for xs
    proof -
      have "distinct (map cat_uuid (map core xs))" using that by (simp add: comp_def)
      then have "distinct (map core xs)" using distinct_map by blast
      then show ?thesis using distinct_card by fastforce
    qed
    show "card (core ` set out) = card (core ` set cats)" using inj d dist len by simp
  qed simp
  show "\<forall>x \<in> set out. in_place cats x"
    using walk_in_place(2) [OF w, of None] by auto
  have l: "links out = links cats" by (rule links_core [OF core])
  have num: "set (ends_of out) = {1..2 * int (length out)}"
  proof -
    have "set (ends_of out) = {1..<1 + 2 * int (length out)}" using walk_numbers(2) [OF w] by metis
    also have "\<dots> = {1..2 * int (length out)}" by auto
    finally show ?thesis .
  qed
  have "distinct (ends_of out)"
    using num by (intro card_distinct) (simp add: ends_of_def)
  moreover have "\<forall>x \<in> set out. \<forall>y \<in> set out.
      inside y x \<longleftrightarrow> ancestor cats (cat_uuid x) (cat_uuid y)"
    using walk_nested(2) [OF d w at0 ds] by blast
  moreover have "\<forall>x \<in> set out. 0 \<le> cat_depth x \<and> at_depth cats (cat_uuid x) (nat (cat_depth x))"
    using walk_depth(2) [OF d w] at0 by simp
  ultimately show "nested_set out"
    unfolding nested_set_def child_cong [OF l] at_depth_cong [OF dist d l]
    using num walk_in_range(2) [OF w] by blast
qed

end
