(* ===== verification/Category_Order.thy ===== *)
theory Category_Order
  imports Category_Bounds
begin

text \<open>
  The list edits of \<open>Create\<close> and \<open>Move\<close>: \<open>replace\<close>, \<open>insertBefore\<close> and \<open>applyBefore\<close>
  change the sort order of one group of siblings and nothing else, and afterwards the group is
  displayed in the order asked for. \<open>isDescendant\<close> decides the ancestor relation on a forest and
  returns there.
\<close>

section \<open>isDescendant\<close>

lemma ancestor_step:
  assumes "distinct (map cat_uuid cats)" "child cats p v"
  shows "ancestor cats a v \<longleftrightarrow> a = p \<or> ancestor cats a p"
proof
  assume "ancestor cats a v"
  then show "a = p \<or> ancestor cats a p"
    by cases (use child_unique [OF assms(1) _ assms(2)] in auto)
next
  assume "a = p \<or> ancestor cats a p"
  then show "ancestor cats a v" using assms(2) by (auto intro: tranclp.trancl_into_trancl)
qed

lemma descend_loop_decides:
  assumes "distinct (map cat_uuid cats)" "c \<in> set cats" "at_depth cats (cat_uuid c) k" "k < f"
  shows "descend_loop f cats a c = Some (ancestor cats a (cat_uuid c))"
  using assms(2-4)
proof (induction f arbitrary: c k)
  case (Suc f)
  note d = assms(1)
  show ?case
  proof (cases "cat_parent c")
    case None
    have "\<not> child cats u (cat_uuid c)" for u
      using None Suc.prems(1) same_uuid [OF d] unfolding child_def by (metis option.distinct(1))
    then have "\<not> ancestor cats a (cat_uuid c)" by (auto elim: tranclp.cases)
    then show ?thesis using None by simp
  next
    case (Some p)
    then have ch: "child cats p (cat_uuid c)" using Suc.prems(1) by (auto simp: child_def)
    note anc = ancestor_step [OF d ch, of a]
    obtain j where j: "k = Suc j" "at_depth cats p j"
      using Suc.prems(2) at_depth_child [OF d ch] at_depth_child0 [OF d ch] by (cases k) auto
    then obtain q where q: "q \<in> set cats" "cat_uuid q = p" using at_depth_in by blast
    then have "findByIDOptional cats p = Some q" using find_in [OF d] by blast
    then show ?thesis using Some anc Suc.IH [OF q(1)] q(2) j Suc.prems(3) by auto
  qed
qed simp

text \<open>On a forest the loop ends and decides the ancestor relation of the parent links.\<close>

lemma isDescendant_decides:
  assumes "forest cats" "v \<in> cat_uuid ` set cats"
  shows "isDescendant cats a v = Some (ancestor cats a v)"
proof -
  from assms obtain c k where c: "c \<in> set cats" "v = cat_uuid c" "at_depth cats (cat_uuid c) k"
    by (auto simp: forest_at_depth)
  moreover have "k < Suc (length cats)" using at_depth_less_length [OF c(3)] by simp
  ultimately show ?thesis
    using descend_loop_decides [OF forest_distinct [OF assms(1)] c(1,3)] find_in forest_distinct assms(1)
    by (simp add: isDescendant_def del: descend_loop.simps)
qed

lemma isDescendant_total:
  assumes "forest cats" shows "\<exists>b. isDescendant cats a v = Some b"
proof (cases "v \<in> cat_uuid ` set cats")
  case True
  then show ?thesis using isDescendant_decides [OF assms] by blast
next
  case False
  then have "findByIDOptional cats v = None" by (induction cats) auto
  then show ?thesis by (intro exI [of _ False]) (simp add: isDescendant_def)
qed

lemma isDescendant_not:
  "forest cats \<Longrightarrow> isDescendant cats a v \<noteq> Some True \<Longrightarrow> isDescendant cats a v = Some False"
  using isDescendant_total [of cats a v] by (metis (full_types))

section \<open>replace and renumber\<close>

lemma replace_map:
  assumes "distinct (map cat_uuid cats)" "cat_uuid x \<in> cat_uuid ` set cats"
  shows "replace cats x = map (\<lambda>c. if cat_uuid c = cat_uuid x then x else c) cats"
  using assms
proof (induction cats)
  case (Cons c cats)
  show ?case
  proof (cases "cat_uuid c = cat_uuid x")
    case True
    then have "map (\<lambda>c. if cat_uuid c = cat_uuid x then x else c) cats = cats"
      using Cons.prems(1) by (intro map_idI) (metis distinct.simps(2) image_eqI list.set_map list.simps(9))
    with True show ?thesis by simp
  next
    case False
    with Cons show ?thesis by auto
  qed
qed simp

definition pos :: "uuid list \<Rightarrow> uuid \<Rightarrow> nat" where
  "pos us u = length (takeWhile (\<lambda>v. v \<noteq> u) us)"

lemma pos_Cons: "pos (v # us) u = (if v = u then 0 else Suc (pos us u))"
  by (simp add: pos_def)

lemma nth_pos: "u \<in> set us \<Longrightarrow> pos us u < length us \<and> us ! pos us u = u"
  by (induction us) (auto simp: pos_Cons)

lemma pos_nth: "distinct us \<Longrightarrow> i < length us \<Longrightarrow> pos us (us ! i) = i"
proof (induction us arbitrary: i)
  case (Cons v us)
  then show ?case by (cases i) (auto simp: pos_Cons)
qed simp

definition renumbered :: "uuid option \<Rightarrow> int \<Rightarrow> uuid list \<Rightarrow> category \<Rightarrow> category" where
  "renumbered p i us c =
     (if cat_uuid c \<in> set us
      then c\<lparr>cat_sort := i + int (pos us (cat_uuid c)), cat_parent := p\<rparr> else c)"

lemma renumbered_uuid [simp]: "cat_uuid (renumbered p i us c) = cat_uuid c"
  by (simp add: renumbered_def)

lemma renumber_map:
  assumes "distinct (map cat_uuid cats)" "distinct us" "set us \<subseteq> cat_uuid ` set cats"
  shows "renumber cats p i us = map (renumbered p i us) cats"
  using assms
proof (induction us arbitrary: cats i)
  case Nil
  then show ?case by (simp add: renumbered_def)
next
  case (Cons u us)
  obtain x where x: "x \<in> set cats" "cat_uuid x = u" using Cons.prems(3) by auto
  let ?x = "x\<lparr>cat_sort := i, cat_parent := p\<rparr>"
  let ?step = "\<lambda>c. if cat_uuid c = u then ?x else c"
  have f: "findByID cats u = x" using findByID_eq [OF Cons.prems(1) x(1)] x(2) by simp
  have rep: "replace cats ?x = map ?step cats"
    using replace_map [OF Cons.prems(1), of ?x] x by auto
  have uu: "map cat_uuid (map ?step cats) = map cat_uuid cats" using x(2) by auto
  have "distinct (map cat_uuid (map ?step cats))" "set us \<subseteq> cat_uuid ` set (map ?step cats)"
    using uu Cons.prems(1,3) by (simp_all only: list.set_map [symmetric]) auto
  from Cons.IH [OF this(1) _ this(2), of "i + 1"]
  have "renumber cats p i (u # us) = map (renumbered p (i + 1) us) (map ?step cats)"
    using Cons.prems(2) rep f by (simp del: map_map)
  also have "\<dots> = map (renumbered p i (u # us)) cats"
  proof -
    have "renumbered p (i + 1) us (?step c) = renumbered p i (u # us) c" if "c \<in> set cats" for c
    proof (cases "cat_uuid c = u")
      case True
      then have "c = x" using that x same_uuid [OF Cons.prems(1)] by simp
      then show ?thesis using True Cons.prems(2) by (simp add: renumbered_def pos_Cons)
    qed (simp add: renumbered_def pos_Cons)
    then show ?thesis by simp
  qed
  finally show ?case .
qed

section \<open>insertBefore\<close>

lemma insert_at_Some:
  "insert_at us u b = Some vs \<Longrightarrow> \<exists>xs ys. us = xs @ b # ys \<and> vs = xs @ u # b # ys"
proof (induction us arbitrary: vs)
  case (Cons x us)
  show ?case
  proof (cases "x = b")
    case True
    with Cons.prems show ?thesis by (auto intro: exI [of _ "[]"])
  next
    case False
    with Cons.prems obtain ws where ws: "insert_at us u b = Some ws" "vs = x # ws" by auto
    from Cons.IH [OF ws(1)] obtain xs ys where "us = xs @ b # ys" "ws = xs @ u # b # ys" by blast
    with ws(2) show ?thesis by (metis append_Cons)
  qed
qed simp

lemma insert_at_None: "insert_at us u b = None \<longleftrightarrow> b \<notin> set us"
  by (induction us) auto

text \<open>
  The UUID goes right before \<open>before_id\<close>, or at the end; the others keep their order.
\<close>

definition placed :: "uuid list \<Rightarrow> uuid \<Rightarrow> uuid option \<Rightarrow> uuid list \<Rightarrow> bool" where
  "placed others u b us \<longleftrightarrow>
     (case b of
        None \<Rightarrow> us = others @ [u]
      | Some v \<Rightarrow> (\<exists>xs ys. others = xs @ v # ys \<and> us = xs @ u # v # ys))"

lemma insertBefore_placed: "insertBefore others u b = Inr us \<Longrightarrow> placed others u b us"
  by (auto simp: insertBefore_def placed_def dest!: insert_at_Some split: option.splits)

lemma insertBefore_fails:
  "(\<exists>e. insertBefore others u b = Inl e) \<longleftrightarrow> (\<exists>v. b = Some v \<and> v \<notin> set others)"
  using insert_at_None by (fastforce simp: insertBefore_def split: option.splits)

lemma placed_set: "placed others u b us \<Longrightarrow> set us = insert u (set others)"
  by (auto simp: placed_def split: option.splits)

lemma placed_distinct: "placed others u b us \<Longrightarrow> distinct others \<Longrightarrow> u \<notin> set others \<Longrightarrow> distinct us"
  by (auto simp: placed_def split: option.splits)

section \<open>applyBefore\<close>

definition group :: "category list \<Rightarrow> uuid option \<Rightarrow> uuid list" where
  "group cats p = map cat_uuid (siblings cats p)"

lemma siblingOrder_eq:
  "siblingOrder cats u p =
     map cat_uuid (sortSiblings (filter (\<lambda>c. cat_uuid c \<noteq> u \<and> cat_parent c = p) cats))"
  by (simp add: siblingOrder_def)

lemma set_siblingOrder:
  "set (siblingOrder cats u p) = {v. v \<noteq> u \<and> (v, p) \<in> links cats}"
  by (auto simp: siblingOrder_eq links_def)

lemma distinct_siblingOrder:
  "distinct (map cat_uuid cats) \<Longrightarrow> distinct (siblingOrder cats u p)"
  by (simp add: siblingOrder_eq distinct_map_filter)

lemma applyBefore_map:
  assumes d: "distinct (map cat_uuid cats)" and u: "(u, p) \<in> links cats"
    and a: "applyBefore cats u p b = Inr cats'"
  obtains us where "placed (siblingOrder cats u p) u b us"
    "set us = {v. (v, p) \<in> links cats}" "distinct us"
    "cats' = map (renumbered p 0 us) cats"
proof -
  from a obtain us where us: "insertBefore (siblingOrder cats u p) u b = Inr us"
    "cats' = renumber cats p 0 us"
    by (auto simp: applyBefore_def split: option.splits sum.splits if_splits)
  note pl = insertBefore_placed [OF us(1)]
  have s: "set us = {v. (v, p) \<in> links cats}"
    using placed_set [OF pl] u by (auto simp: set_siblingOrder)
  have di: "distinct us"
    using placed_distinct [OF pl distinct_siblingOrder [OF d]] by (simp add: set_siblingOrder)
  have "set us \<subseteq> cat_uuid ` set cats" using s by (auto simp: links_def)
  then show ?thesis using that pl s di renumber_map [OF d di] us(2) by metis
qed

lemma renumbered_link:
  assumes "distinct (map cat_uuid cats)" "set us = {v. (v, p) \<in> links cats}" "c \<in> set cats"
  shows "cat_parent (renumbered p i us c) = cat_parent c"
proof -
  have "cat_parent c = p" if m: "cat_uuid c \<in> set us"
  proof -
    from m assms(2) obtain c' where "c' \<in> set cats" "cat_uuid c' = cat_uuid c" "cat_parent c' = p"
      by (auto simp: links_def)
    then show ?thesis using same_uuid [OF assms(1) _ assms(3)] by blast
  qed
  then show ?thesis by (simp add: renumbered_def)
qed

text \<open>The parent links are as before, and so is everything but the sort order.\<close>

lemma applyBefore_core:
  assumes "distinct (map cat_uuid cats)" "(u, p) \<in> links cats" "applyBefore cats u p b = Inr cats'"
  shows "map core cats' = map core cats" "links cats' = links cats"
proof -
  obtain us where us: "set us = {v. (v, p) \<in> links cats}" "cats' = map (renumbered p 0 us) cats"
    using assms by (rule applyBefore_map)
  have "core (renumbered p 0 us c) = core c" if "c \<in> set cats" for c
    using renumbered_link [OF assms(1) us(1) that, of 0]
    by (auto simp: renumbered_def core_def split: if_splits)
  then show m: "map core cats' = map core cats" using us(2) by simp
  show "links cats' = links cats" using m by (intro links_core) (metis list.set_map)
qed

section \<open>The order siblings are displayed in\<close>

text \<open>
  A group of siblings whose sort orders are their positions in a list of all their UUIDs is
  displayed in the order of that list.
\<close>

lemma sib_key_sort: "sib_key a \<le> sib_key b \<Longrightarrow> cat_sort a \<le> cat_sort b"
  by (auto simp: sib_key_def less_eq_prod_def)

lemma group_by_position:
  assumes d: "distinct (map cat_uuid cats)" and us: "distinct us" "set us = {v. (v, p) \<in> links cats}"
    and so: "\<forall>c \<in> set cats. cat_parent c = p \<longrightarrow> cat_sort c = int (pos us (cat_uuid c))"
  shows "group cats p = us"
proof -
  let ?s = "siblings cats p"
  have s: "set ?s = {c \<in> set cats. cat_parent c = p}" by (simp add: siblings_def)
  have ds: "distinct (map cat_uuid ?s)" using d by (simp add: siblings_def distinct_map_filter)
  have gs: "set (group cats p) = set us"
    unfolding us(2) group_def list.set_map s links_def by auto
  have "sorted (map sib_key ?s)" by (simp add: siblings_def sortSiblings_def)
  then have srt: "sorted (map (\<lambda>c. cat_sort c) ?s)"
    unfolding sorted_map by (rule sorted_wrt_mono_rel [rotated]) (rule sib_key_sort)
  have "map (\<lambda>c. cat_sort c) ?s = map (\<lambda>v. int (pos us v)) (group cats p)"
    using so s by (simp add: group_def)
  with srt have srt2: "sorted (map (\<lambda>v. int (pos us v)) (group cats p))" by simp
  have "sorted (map (\<lambda>v. int (pos us v)) us)"
    using us(1) pos_nth by (simp add: sorted_iff_nth_mono)
  moreover have inj: "inj_on (\<lambda>v. int (pos us v)) (set us)"
    by (rule inj_onI) (metis nth_pos of_nat_eq_iff)
  ultimately have "map (\<lambda>v. int (pos us v)) us = map (\<lambda>v. int (pos us v)) (group cats p)"
    using srt2 gs us(1) ds
    by (intro sorted_distinct_set_unique) (simp_all add: distinct_map group_def [symmetric])
  moreover have "inj_on (\<lambda>v. int (pos us v)) (set us \<union> set (group cats p))" using inj gs by simp
  ultimately show ?thesis using inj_on_map_eq_map by (metis (no_types))
qed

text \<open>After \<open>applyBefore\<close> the group of siblings is in the order asked for.\<close>

lemma applyBefore_order:
  assumes "distinct (map cat_uuid cats)" "(u, p) \<in> links cats" "applyBefore cats u p b = Inr cats'"
  shows "placed (siblingOrder cats u p) u b (group cats' p)"
proof -
  obtain us where us: "placed (siblingOrder cats u p) u b us"
    "set us = {v. (v, p) \<in> links cats}" "distinct us" "cats' = map (renumbered p 0 us) cats"
    using assms by (rule applyBefore_map)
  have l: "links cats' = links cats" using applyBefore_core(2) [OF assms] .
  have "\<forall>c \<in> set cats'. cat_parent c = p \<longrightarrow> cat_sort c = int (pos us (cat_uuid c))"
  proof (intro ballI impI)
    fix c assume c: "c \<in> set cats'" "cat_parent c = p"
    then have "(cat_uuid c, p) \<in> links cats" using l by (auto simp: links_def)
    with us(2) have m: "cat_uuid c \<in> set us" by simp
    from c(1) us(4) obtain x where "c = renumbered p 0 us x" by auto
    with m show "cat_sort c = int (pos us (cat_uuid c))" by (simp add: renumbered_def split: if_splits)
  qed
  moreover have "distinct (map cat_uuid cats')" using assms(1) us(4) by (simp add: comp_def)
  ultimately have "group cats' p = us" using group_by_position us l by metis
  with us(1) show ?thesis by simp
qed

text \<open>\<open>rebuildBounds\<close> keeps the order of every group.\<close>

lemma rebuild_order:
  assumes "forest cats" "rebuildBounds cats = Some out"
  shows "group out p = group cats p"
proof -
  note r = rebuild_facts [OF assms] and d = forest_distinct [OF assms(1)]
  have l: "links out = links cats" by (rule links_core [OF r(2)])
  have ds: "distinct (group cats p)"
    using d by (simp add: group_def siblings_def distinct_map_filter)
  have "set (group cats p) = {v. (v, p) \<in> links out}"
    unfolding l by (auto simp: group_def siblings_def links_def)
  moreover have "\<forall>c \<in> set out. cat_parent c = p \<longrightarrow> cat_sort c = int (pos (group cats p) (cat_uuid c))"
  proof (intro ballI impI)
    fix c assume c: "c \<in> set out" "cat_parent c = p"
    then have "0 \<le> cat_sort c" "nat (cat_sort c) < length (group cats p)"
      "group cats p ! nat (cat_sort c) = cat_uuid c"
      using r(4) by (auto simp: in_place_def group_def)
    then show "cat_sort c = int (pos (group cats p) (cat_uuid c))"
      using pos_nth [OF ds] by (metis nat_0_le)
  qed
  ultimately show ?thesis using group_by_position [OF r(1) ds] by simp
qed

section \<open>Edits that keep a forest\<close>

lemma links_snoc: "links (cats @ [c]) = insert (cat_uuid c, cat_parent c) (links cats)"
  by (simp add: links_def)

lemma linked: "at_depth cats v k \<Longrightarrow> \<exists>p. (v, p) \<in> links cats"
  using at_depth_in unfolding links_def by blast

text \<open>Depths only depend on the parent links above a category.\<close>

lemma at_depth_step:
  assumes "distinct (map cat_uuid cats)" "(v, p) \<in> links cats"
  shows "at_depth cats v k \<longleftrightarrow> (case p of None \<Rightarrow> k = 0 | Some u \<Rightarrow> \<exists>j. k = Suc j \<and> at_depth cats u j)"
proof (cases p)
  case None
  then have "at_depth cats v 0" using assms at_depth_root by (auto simp: links_def)
  then show ?thesis using None at_depth_unique by auto
next
  case (Some u)
  then have ch: "child cats u v" using assms(2) by (simp add: child_links)
  show ?thesis using Some at_depth_child [OF assms(1) ch] at_depth_child0 [OF assms(1) ch]
    by (cases k) auto
qed

text \<open>
  A list whose links hold everything a part of another list's links, closed under parents, hold:
  categories of that part keep their depth.
\<close>

lemma at_depth_part:
  assumes "distinct (map cat_uuid cats)" "distinct (map cat_uuid cats')"
    and up: "\<And>v p. V v \<Longrightarrow> (v, p) \<in> links cats \<Longrightarrow>
               (v, p) \<in> links cats' \<and> (case p of None \<Rightarrow> True | Some u \<Rightarrow> V u)"
  shows "V v \<Longrightarrow> at_depth cats v k \<Longrightarrow> at_depth cats' v k"
proof (induction k arbitrary: v)
  case 0
  then obtain p where p: "(v, p) \<in> links cats" using linked by blast
  then have "p = None" using at_depth_step [OF assms(1) p, of 0] 0(2) by (cases p) auto
  then show ?case using at_depth_step [OF assms(2), of v None 0] up [OF 0(1) p] by simp
next
  case (Suc k)
  then obtain p where p: "(v, p) \<in> links cats" using linked by blast
  then obtain u where u: "p = Some u" "at_depth cats u k"
    using at_depth_step [OF assms(1) p, of "Suc k"] Suc.prems(2) by (cases p) auto
  then show ?case
    using at_depth_step [OF assms(2), of v p "Suc k"] up [OF Suc.prems(1) p] Suc.IH by auto
qed

lemma forestI:
  assumes "distinct (map cat_uuid cats)" "\<And>c. c \<in> set cats \<Longrightarrow> \<exists>k. at_depth cats (cat_uuid c) k"
  shows "forest cats"
  using assms by (simp add: forest_at_depth)

lemma forest_snoc:
  assumes f: "forest cats" and new: "cat_uuid c \<notin> cat_uuid ` set cats"
    and par: "\<forall>q. cat_parent c = Some q \<longrightarrow> q \<in> cat_uuid ` set cats"
  shows "forest (cats @ [c])"
proof (rule forestI)
  note d = forest_distinct [OF f]
  show d': "distinct (map cat_uuid (cats @ [c]))" using d new by simp
  have old: "at_depth cats v k \<Longrightarrow> at_depth (cats @ [c]) v k" for v k
    by (rule at_depth_part [OF d d', where V = "\<lambda>_. True"]) (auto simp: links_snoc split: option.split)
  fix x assume "x \<in> set (cats @ [c])"
  then consider "x \<in> set cats" | "x = c" by auto
  then show "\<exists>k. at_depth (cats @ [c]) (cat_uuid x) k"
  proof cases
    case 1
    then obtain k where "at_depth cats (cat_uuid x) k" using f by (auto simp: forest_at_depth)
    then show ?thesis using old by blast
  next
    case 2
    have l: "(cat_uuid c, cat_parent c) \<in> links (cats @ [c])" by (simp add: links_snoc)
    show ?thesis
    proof (cases "cat_parent c")
      case None
      then show ?thesis using at_depth_step [OF d' l] 2 by simp
    next
      case (Some p)
      then obtain k where "at_depth cats p k" using par f by (auto simp: forest_at_depth)
      then show ?thesis using at_depth_step [OF d' l, of "Suc k"] Some 2 old by auto
    qed
  qed
qed

lemma forest_remove:
  assumes f: "forest cats" and leaf: "\<And>v. \<not> child cats u v"
  shows "forest (filter (\<lambda>c. cat_uuid c \<noteq> u) cats)"
proof (rule forestI)
  let ?cats = "filter (\<lambda>c. cat_uuid c \<noteq> u) cats"
  note d = forest_distinct [OF f]
  show d': "distinct (map cat_uuid ?cats)" using d by (rule distinct_map_filter)
  fix x assume "x \<in> set ?cats"
  then obtain k where "at_depth cats (cat_uuid x) k" "cat_uuid x \<noteq> u"
    using f by (auto simp: forest_at_depth)
  moreover have "at_depth cats v k \<Longrightarrow> v \<noteq> u \<Longrightarrow> at_depth ?cats v k" for v k
  proof (rule at_depth_part [OF d d', where V = "\<lambda>v. v \<noteq> u"])
    fix w p assume w: "w \<noteq> u" "(w, p) \<in> links cats"
    then have "p \<noteq> Some u" using leaf by (auto simp: child_links)
    then show "(w, p) \<in> links ?cats \<and> (case p of None \<Rightarrow> True | Some v \<Rightarrow> v \<noteq> u)"
      using w by (auto simp: links_def split: option.split)
  qed
  ultimately show "\<exists>k. at_depth ?cats (cat_uuid x) k" by blast
qed

text \<open>
  Hanging a category under another parent keeps a forest unless the new parent is the category
  itself or one of its descendants.
\<close>

lemma forest_reparent:
  assumes f: "forest cats" and x: "x \<in> set cats" "cat_uuid y = cat_uuid x"
    and par: "\<forall>q. cat_parent y = Some q \<longrightarrow>
                q \<in> cat_uuid ` set cats \<and> q \<noteq> cat_uuid x \<and> \<not> ancestor cats (cat_uuid x) q"
  shows "forest (replace cats y)"
proof (rule forestI)
  let ?cats = "replace cats y" and ?u = "cat_uuid x"
  note d = forest_distinct [OF f]
  have r: "?cats = map (\<lambda>c. if cat_uuid c = ?u then y else c) cats"
    using replace_map [OF d, of y] x by simp
  have uu: "map cat_uuid ?cats = map cat_uuid cats" using r x(2) by (simp add: comp_def)
  show d': "distinct (map cat_uuid ?cats)" using d uu by simp
  have l: "(v, p) \<in> links ?cats \<longleftrightarrow> (v, p) \<in> links cats" if "v \<noteq> ?u" for v p
    using that x(2) unfolding r links_def by (auto split: if_splits)
  have "y \<in> set ?cats" using x unfolding r by auto
  then have lu: "(?u, cat_parent y) \<in> links ?cats"
    unfolding links_def by (intro image_eqI [where x = y]) (simp_all add: x(2))
  have out: "at_depth ?cats v k" if "at_depth cats v k" "\<not> desc_or_self cats ?u v" for v k
  proof (rule at_depth_part [OF d d', where V = "\<lambda>v. \<not> desc_or_self cats ?u v"])
    fix w p assume w: "\<not> desc_or_self cats ?u w" "(w, p) \<in> links cats"
    then have "w \<noteq> ?u" by auto
    moreover have "child cats q w" if "p = Some q" for q using w(2) that by (simp add: child_links)
    ultimately show "(w, p) \<in> links ?cats \<and> (case p of None \<Rightarrow> True | Some q \<Rightarrow> \<not> desc_or_self cats ?u q)"
      using l w by (auto split: option.split dest: rtranclp.rtrancl_into_rtrancl)
  qed (use that in auto)
  have at_u: "\<exists>k. at_depth ?cats ?u k"
  proof (cases "cat_parent y")
    case None
    then show ?thesis using at_depth_step [OF d' lu] by simp
  next
    case (Some p)
    then obtain k where k: "at_depth cats p k" using par f by (auto simp: forest_at_depth)
    have "\<not> desc_or_self cats ?u p" using Some par by (auto dest: rtranclpD)
    then show ?thesis using at_depth_step [OF d' lu, of "Suc k"] Some out [OF k] by auto
  qed
  have all: "at_depth cats v k \<Longrightarrow> \<exists>j. at_depth ?cats v j" for v k
  proof (induction k arbitrary: v)
    case 0
    then obtain p where p: "(v, p) \<in> links cats" using linked by blast
    then have "p = None" using at_depth_step [OF d p, of 0] 0 by (cases p) auto
    then show ?case using at_u at_depth_step [OF d', of v None] l p by (cases "v = ?u") auto
  next
    case (Suc k)
    then obtain q where q: "child cats q v" "at_depth cats q k" using at_depth_pred by blast
    then obtain j where "at_depth ?cats q j" using Suc.IH by blast
    then show ?case using at_u at_depth_step [OF d', of v "Some q" "Suc j"] l q(1)
      by (cases "v = ?u") (auto simp: child_links)
  qed
  fix c assume "c \<in> set ?cats"
  then have "cat_uuid c \<in> cat_uuid ` set cats" using uu by (metis image_eqI list.set_map)
  then show "\<exists>k. at_depth ?cats (cat_uuid c) k" using f all by (auto simp: forest_at_depth)
qed

section \<open>The order does not depend on the order of the list\<close>

lemma sortSiblings_cong:
  assumes "distinct (map cat_uuid xs)" "distinct (map cat_uuid ys)" "set xs = set ys"
  shows "sortSiblings xs = sortSiblings ys"
proof -
  have inj: "inj_on sib_key (set xs)"
    using assms(1) by (intro inj_onI) (simp add: sib_key_def same_uuid)
  have "map sib_key (sortSiblings xs) = map sib_key (sortSiblings ys)"
    using assms inj
    by (intro sorted_distinct_set_unique) (auto simp: sortSiblings_def distinct_map)
  moreover have "inj_on sib_key (set (sortSiblings xs) \<union> set (sortSiblings ys))" using inj assms(3) by simp
  ultimately show ?thesis using inj_on_map_eq_map by (metis (no_types))
qed

lemma group_sort:
  assumes "distinct (map cat_uuid cats)"
  shows "group (sort_key f cats) p = group cats p"
proof -
  have "distinct (map cat_uuid (sort_key f cats))" using assms by (simp add: distinct_map)
  then have "sortSiblings (filter (\<lambda>c. cat_parent c = p) (sort_key f cats)) =
    sortSiblings (filter (\<lambda>c. cat_parent c = p) cats)"
    using assms by (intro sortSiblings_cong distinct_map_filter) auto
  then show ?thesis by (simp add: group_def siblings_def)
qed

lemma siblingOrder_group: "siblingOrder cats u p = filter (\<lambda>v. v \<noteq> u) (group cats p)"
proof -
  have "sortSiblings (filter (\<lambda>c. cat_uuid c \<noteq> u \<and> cat_parent c = p) cats) =
    filter (\<lambda>c. cat_uuid c \<noteq> u) (siblings cats p)"
    by (simp add: siblings_def sortSiblings_def filter_sort conj_commute)
  then show ?thesis by (simp add: siblingOrder_eq group_def filter_map comp_def)
qed

text \<open>The other groups of siblings are left alone.\<close>

lemma applyBefore_others:
  assumes "distinct (map cat_uuid cats)" "(u, p) \<in> links cats" "applyBefore cats u p b = Inr cats'" "q \<noteq> p"
  shows "group cats' q = group cats q"
proof -
  obtain us where us: "set us = {v. (v, p) \<in> links cats}" "cats' = map (renumbered p 0 us) cats"
    using assms(1-3) by (rule applyBefore_map)
  have "renumbered p 0 us c = c" if c: "c \<in> set cats" "cat_parent c \<noteq> p" for c
    using renumbered_link [OF assms(1) us(1) c(1), of 0] c(2) by (auto simp: renumbered_def split: if_splits)
  moreover have "cat_parent (renumbered p 0 us c) = cat_parent c" if "c \<in> set cats" for c
    using renumbered_link [OF assms(1) us(1) that] .
  ultimately have "filter (\<lambda>c. cat_parent c = q) cats' = filter (\<lambda>c. cat_parent c = q) cats"
    unfolding us(2) using assms(4) by (induction cats) auto
  then show ?thesis by (simp add: group_def siblings_def)
qed

text \<open>What \<open>replace\<close> does to the links, the UUIDs and the other siblings.\<close>

lemma links_put:
  "links (map (\<lambda>z. if cat_uuid z = cat_uuid y then y else z) cats) =
     (if cat_uuid y \<in> cat_uuid ` set cats then {(cat_uuid y, cat_parent y)} else {}) \<union>
     {l \<in> links cats. fst l \<noteq> cat_uuid y}"
  by (induction cats) auto

lemma replace_effect:
  assumes "distinct (map cat_uuid cats)" "cat_uuid y \<in> cat_uuid ` set cats"
  shows "links (replace cats y) = insert (cat_uuid y, cat_parent y) {l \<in> links cats. fst l \<noteq> cat_uuid y}"
    "map cat_uuid (replace cats y) = map cat_uuid cats"
    "siblingOrder (replace cats y) (cat_uuid y) p = siblingOrder cats (cat_uuid y) p"
proof -
  show "links (replace cats y) = insert (cat_uuid y, cat_parent y) {l \<in> links cats. fst l \<noteq> cat_uuid y}"
    using assms by (simp add: replace_map links_put)
  show "map cat_uuid (replace cats y) = map cat_uuid cats"
    using assms by (simp add: replace_map)
  have "filter (\<lambda>c. cat_uuid c \<noteq> cat_uuid y \<and> cat_parent c = p) (replace cats y) =
    filter (\<lambda>c. cat_uuid c \<noteq> cat_uuid y \<and> cat_parent c = p) cats"
    unfolding replace_map [OF assms] by (induction cats) auto
  then show "siblingOrder (replace cats y) (cat_uuid y) p = siblingOrder cats (cat_uuid y) p"
    by (simp add: siblingOrder_eq)
qed

end
