(* ===== verification/Category_Service.thy ===== *)
theory Category_Service
  imports Category_Order
begin

text \<open>
  The category repository (\<^verbatim>\<open>internal/adapters/outbound/persistence/category_repository.go\<close>) over
  the \<open>categories\<close> table, and the category service on top of it
  (\<^verbatim>\<open>internal/core/category/service/service.go\<close>). The state holds the rows of the table, the
  category each post refers to, the media assets an image may refer to, and how often the
  \<open>categories\<close> family of the read cache was invalidated. Internal bigint ids are not modelled: the
  repository resolves each of them from the UUID inside the same query.
\<close>

section \<open>The repository\<close>

record cat_store = store +
  cat_rows :: "category list"
  cat_post_refs :: "uuid option list"
  cat_media :: "uuid list"
  cat_invalidations :: nat

type_synonym 'a cat_comp = "(cat_store, cat_error, 'a) comp"

definition cat_list :: "category list cat_comp" where
  "cat_list = db_call (asks (\<lambda>s. sort_key cat_lft (cat_rows s)))"

definition cat_get :: "uuid \<Rightarrow> category cat_comp" where
  "cat_get u = db_call (\<lambda>s. case findByIDOptional (cat_rows s) u of
                              None \<Rightarrow> (Inl (Err CatNotFound), s)
                            | Some c \<Rightarrow> (Inr c, s))"

definition cat_get_by_slug :: "string \<Rightarrow> category cat_comp" where
  "cat_get_by_slug g = db_call (\<lambda>s. case find (\<lambda>c. cat_slug c = g) (cat_rows s) of
                                      None \<Rightarrow> (Inl (Err CatNotFound), s)
                                    | Some c \<Rightarrow> (Inr c, s))"

text \<open>\<open>optionalIDByUUID\<close> with its error turned into the validation error of the field.\<close>

definition cat_ref :: "(cat_store \<Rightarrow> uuid list) \<Rightarrow> uuid option \<Rightarrow> string \<Rightarrow> unit cat_comp" where
  "cat_ref known r field =
     (case r of
        None \<Rightarrow> ret ()
      | Some u \<Rightarrow>
          db_call (\<lambda>s. if u \<in> set (known s) then (Inr (), s)
                       else (Inl (Err (CatValidation (field @ '' not found''))), s)))"

definition cat_uuids :: "cat_store \<Rightarrow> uuid list" where
  "cat_uuids s = map cat_uuid (cat_rows s)"

definition cat_create :: "category \<Rightarrow> category cat_comp" where
  "cat_create c =
     andthen (cat_ref cat_uuids (cat_parent c) ''parent_id'') (\<lambda>_.
     andthen (cat_ref cat_media (cat_image c) ''image_id'') (\<lambda>_.
     db_call (\<lambda>s.
       if cat_uuid c \<in> set (cat_uuids s) \<or> cat_slug c \<in> set (map cat_slug (cat_rows s))
       then (Inl StoreFail, s)
       else (Inr c, s\<lparr>cat_rows := cat_rows s @ [c]\<rparr>))))"

definition cat_put_fields :: "category \<Rightarrow> category \<Rightarrow> category" where
  "cat_put_fields c r =
     (if cat_uuid r = cat_uuid c
      then r\<lparr>cat_name := cat_name c, cat_slug := cat_slug c, cat_desc := cat_desc c,
             cat_parent := cat_parent c, cat_image := cat_image c, cat_updated := cat_updated c\<rparr>
      else r)"

definition cat_update :: "category \<Rightarrow> category cat_comp" where
  "cat_update c =
     andthen (cat_ref cat_uuids (cat_parent c) ''parent_id'') (\<lambda>_.
     andthen (cat_ref cat_media (cat_image c) ''image_id'') (\<lambda>_.
     andthen (db_call (\<lambda>s.
       if cat_uuid c \<notin> set (cat_uuids s) then (Inl (Err CatNotFound), s)
       else if list_ex (\<lambda>r. cat_uuid r \<noteq> cat_uuid c \<and> cat_slug r = cat_slug c) (cat_rows s)
       then (Inl StoreFail, s)
       else (Inr (), s\<lparr>cat_rows := map (cat_put_fields c) (cat_rows s)\<rparr>))) (\<lambda>_.
     cat_get (cat_uuid c))))"

text \<open>
  Deleting a row sets the foreign keys that point to it to NULL: \<^verbatim>\<open>ON DELETE SET NULL\<close> on
  \<open>categories.parent_id\<close> and \<open>posts.category_id\<close>.
\<close>

definition cat_unlink :: "uuid \<Rightarrow> uuid option \<Rightarrow> uuid option" where
  "cat_unlink u r = (if r = Some u then None else r)"

definition cat_delete :: "uuid \<Rightarrow> unit cat_comp" where
  "cat_delete u = db_call (\<lambda>s.
     if u \<notin> set (cat_uuids s) then (Inl (Err CatNotFound), s)
     else (Inr (), s\<lparr>cat_rows := map (\<lambda>r. r\<lparr>cat_parent := cat_unlink u (cat_parent r)\<rparr>)
                                      (filter (\<lambda>r. cat_uuid r \<noteq> u) (cat_rows s)),
                     cat_post_refs := map (cat_unlink u) (cat_post_refs s)\<rparr>))"

definition cat_slug_taken :: "string \<Rightarrow> uuid \<Rightarrow> bool cat_comp" where
  "cat_slug_taken g u =
     db_call (asks (\<lambda>s. 0 < length (filter (\<lambda>c. cat_slug c = g \<and> cat_uuid c \<noteq> u) (cat_rows s))))"

definition cat_count_posts :: "uuid \<Rightarrow> nat cat_comp" where
  "cat_count_posts u = db_call (asks (\<lambda>s. length (filter (\<lambda>r. r = Some u) (cat_post_refs s))))"

definition cat_count_children :: "uuid \<Rightarrow> nat cat_comp" where
  "cat_count_children u =
     db_call (asks (\<lambda>s. length (filter (\<lambda>c. cat_parent c = Some u) (cat_rows s))))"

text \<open>One row of \<open>ReplaceTreeBounds\<close>; the parent is looked up by a subquery, NULL when absent.\<close>

definition cat_put_bounds :: "uuid list \<Rightarrow> category \<Rightarrow> category \<Rightarrow> category" where
  "cat_put_bounds known c r =
     (if cat_uuid r = cat_uuid c
      then r\<lparr>cat_lft := cat_lft c, cat_rgt := cat_rgt c, cat_depth := cat_depth c,
             cat_sort := cat_sort c,
             cat_parent := (case cat_parent c of
                              None \<Rightarrow> None
                            | Some p \<Rightarrow> if p \<in> set known then Some p else None),
             cat_updated := cat_updated c\<rparr>
      else r)"

fun cat_replace_bounds :: "category list \<Rightarrow> unit cat_comp" where
  "cat_replace_bounds [] = ret ()"
| "cat_replace_bounds (c # cs) =
     andthen (db_call (change (\<lambda>s.
                s\<lparr>cat_rows := map (cat_put_bounds (cat_uuids s) c) (cat_rows s)\<rparr>))) (\<lambda>_.
     cat_replace_bounds cs)"

section \<open>The service\<close>

record cat_create_input =
  ci_name :: string
  ci_slug :: string
  ci_desc :: "string option"
  ci_parent :: "uuid option"
  ci_image :: "uuid option"
  ci_before :: "uuid option"

record cat_update_input =
  ui_name :: "string option"
  ui_slug :: "string option"
  ui_desc :: "string option"
  ui_image :: "uuid option"
  ui_image_provided :: bool

text \<open>\<open>written\<close>: a write that succeeded invalidates the cached category reads.\<close>

definition cat_written :: "'a cat_comp \<Rightarrow> 'a cat_comp" where
  "cat_written m =
     andthen m (\<lambda>x.
     andthen (change (\<lambda>s. s\<lparr>cat_invalidations := Suc (cat_invalidations s)\<rparr>)) (\<lambda>_.
     ret x))"

definition cat_validateName :: "string \<Rightarrow> cat_error + string" where
  "cat_validateName raw =
     (let name = trim_space raw in
      if name = [] then Inl (CatValidation ''name required'')
      else if rune_count name > 128 then Inl (CatValidation ''name too long'')
      else Inr name)"

definition cat_updatedSlug :: "(nat \<Rightarrow> nat) \<Rightarrow> category \<Rightarrow> string \<Rightarrow> string cat_comp" where
  "cat_updatedSlug lo c raw =
     (let g = trim_space (to_lower lo raw) in
      if g = [] then throw (CatValidation ''slug required'')
      else if \<not> slugPattern g then throw (CatValidation ''invalid slug'')
      else if g = cat_slug c then ret g
      else andthen (cat_slug_taken g (cat_uuid c)) (\<lambda>taken.
           if taken then throw CatConflict else ret g))"

definition cat_validateCreateFields ::
  "(nat \<Rightarrow> nat) \<Rightarrow> cat_create_input \<Rightarrow> (string \<times> string \<times> string) cat_comp" where
  "cat_validateCreateFields lo i =
     andthen (of_result (cat_validateName (ci_name i))) (\<lambda>name.
     andthen (let g = trim_space (ci_slug i) in
              if g = []
              then let h = slugify lo name in
                   if h = [] then throw (CatValidation ''invalid slug'') else ret h
              else let h = to_lower lo g in
                   if slugPattern h then ret h else throw (CatValidation ''invalid slug'')) (\<lambda>g.
     andthen (cat_slug_taken g uuid_nil) (\<lambda>taken.
     if taken then throw CatConflict
     else ret (name, g, case ci_desc i of None \<Rightarrow> [] | Some d \<Rightarrow> d))))"

text \<open>A lookup whose not-found error becomes a validation error.\<close>

definition cat_lookup_or :: "string \<Rightarrow> uuid \<Rightarrow> category cat_comp" where
  "cat_lookup_or msg u s =
     (case cat_get u s of
        (Inl e, t) \<Rightarrow> (Inl (if e = Err CatNotFound then Err (CatValidation msg) else e), t)
      | (Inr c, t) \<Rightarrow> (Inr c, t))"

definition cat_validateParentAndBefore :: "uuid option \<Rightarrow> uuid option \<Rightarrow> unit cat_comp" where
  "cat_validateParentAndBefore parentID beforeID =
     andthen (case parentID of
                None \<Rightarrow> ret ()
              | Some p \<Rightarrow> andthen (cat_lookup_or ''parent not found'' p) (\<lambda>_. ret ())) (\<lambda>_.
     (case beforeID of
        None \<Rightarrow> ret ()
      | Some b \<Rightarrow>
          andthen (cat_lookup_or ''before_id not found'' b) (\<lambda>bef.
          if sameParent (cat_parent bef) parentID then ret ()
          else throw (CatValidation ''before_id must share parent''))))"

definition cat_rebuild :: "category list \<Rightarrow> category list cat_comp" where
  "cat_rebuild cats = (case rebuildBounds cats of None \<Rightarrow> raise NoReturn | Some out \<Rightarrow> ret out)"

text \<open>The body of the transaction of \<open>Create\<close>, and \<open>Create\<close>.\<close>

definition create_tx :: "category \<Rightarrow> uuid option \<Rightarrow> category cat_comp" where
  "create_tx c beforeID =
     andthen cat_list (\<lambda>cats.
     andthen (cat_create c) (\<lambda>_.
     andthen (of_result (applyBefore (cats @ [c]) (cat_uuid c) (cat_parent c) beforeID)) (\<lambda>cats2.
     andthen (cat_rebuild cats2) (\<lambda>out.
     andthen (cat_replace_bounds out) (\<lambda>_.
     ret (findByID out (cat_uuid c)))))))"

definition Create ::
  "(nat \<Rightarrow> nat) \<Rightarrow> instant \<Rightarrow> uuid \<Rightarrow> cat_create_input \<Rightarrow> category cat_comp" where
  "Create lo now new_id i =
     andthen (cat_validateCreateFields lo i) (\<lambda>(name, g, desc).
     andthen (cat_validateParentAndBefore (ci_parent i) (ci_before i)) (\<lambda>_.
     cat_written (within_tx (create_tx
       (zero_category\<lparr>cat_uuid := new_id, cat_name := name, cat_slug := g,
          cat_desc := desc, cat_parent := ci_parent i, cat_image := ci_image i,
          cat_created := now, cat_updated := now\<rparr>)
       (ci_before i)))))"

definition Update ::
  "(nat \<Rightarrow> nat) \<Rightarrow> instant \<Rightarrow> uuid \<Rightarrow> cat_update_input \<Rightarrow> category cat_comp" where
  "Update lo now u i =
     (if ui_name i = None \<and> ui_slug i = None \<and> ui_desc i = None \<and> \<not> ui_image_provided i
      then throw (CatValidation ''no fields to update'')
      else
      andthen (cat_get u) (\<lambda>c.
      andthen (case ui_name i of
                 None \<Rightarrow> ret c
               | Some raw \<Rightarrow> andthen (of_result (cat_validateName raw)) (\<lambda>n. ret (c\<lparr>cat_name := n\<rparr>))) (\<lambda>c.
      andthen (case ui_slug i of
                 None \<Rightarrow> ret c
               | Some raw \<Rightarrow> andthen (cat_updatedSlug lo c raw) (\<lambda>g. ret (c\<lparr>cat_slug := g\<rparr>))) (\<lambda>c.
      let c1 = (case ui_desc i of None \<Rightarrow> c | Some d \<Rightarrow> c\<lparr>cat_desc := d\<rparr>);
          c2 = (if ui_image_provided i then c1\<lparr>cat_image := ui_image i\<rparr> else c1)
      in cat_written (cat_update (c2\<lparr>cat_updated := now\<rparr>))))))"

definition delete_tx :: "uuid \<Rightarrow> unit cat_comp" where
  "delete_tx u =
     andthen (cat_delete u) (\<lambda>_.
     andthen cat_list (\<lambda>cats.
     andthen (cat_rebuild cats) (\<lambda>out.
     cat_replace_bounds out)))"

definition Delete :: "uuid \<Rightarrow> unit cat_comp" where
  "Delete u =
     andthen (cat_count_children u) (\<lambda>children.
     if children > 0 then throw CatInUse
     else andthen (cat_count_posts u) (\<lambda>posts.
     if posts > 0 then throw CatInUse
     else cat_written (within_tx (delete_tx u))))"

definition below_check :: "category list \<Rightarrow> uuid \<Rightarrow> uuid option \<Rightarrow> bool cat_comp" where
  "below_check cats u parentID =
     (case parentID of
        None \<Rightarrow> ret False
      | Some p \<Rightarrow> (case isDescendant cats u p of None \<Rightarrow> raise NoReturn | Some b \<Rightarrow> ret b))"

definition move_tx :: "instant \<Rightarrow> uuid \<Rightarrow> uuid option \<Rightarrow> uuid option \<Rightarrow> category cat_comp" where
  "move_tx now u parentID beforeID =
     andthen cat_list (\<lambda>cats.
     case findByIDOptional cats u of
       None \<Rightarrow> throw CatNotFound
     | Some c \<Rightarrow>
         andthen (below_check cats u parentID) (\<lambda>below.
         if below then throw (CatValidation ''cannot move category under its descendant'')
         else
         andthen (of_result (applyBefore
                    (replace cats (c\<lparr>cat_parent := parentID, cat_updated := now\<rparr>))
                    u parentID beforeID)) (\<lambda>cats2.
         andthen (cat_update (c\<lparr>cat_parent := parentID, cat_updated := now\<rparr>)) (\<lambda>_.
         andthen (cat_rebuild cats2) (\<lambda>out.
         andthen (cat_replace_bounds out) (\<lambda>_.
         ret (findByID out u)))))))"

definition Move :: "instant \<Rightarrow> uuid \<Rightarrow> uuid option \<Rightarrow> uuid option \<Rightarrow> category cat_comp" where
  "Move now u parentID beforeID =
     (if parentID = Some u then throw (CatValidation ''cannot move category under itself'')
      else
      andthen (cat_validateParentAndBefore parentID beforeID) (\<lambda>_.
      cat_written (within_tx (move_tx now u parentID beforeID))))"

definition rebuild_tx :: "unit cat_comp" where
  "rebuild_tx =
     andthen cat_list (\<lambda>cats.
     andthen (cat_rebuild cats) (\<lambda>out.
     cat_replace_bounds out))"

definition RebuildAll :: "unit cat_comp" where
  "RebuildAll = cat_written (within_tx rebuild_tx)"

text \<open>To evaluate the requests on concrete states.\<close>

lemmas cat_eval =
  Create_def Update_def Delete_def Move_def RebuildAll_def run_eval cat_validateCreateFields_def
  cat_slug_taken_def cat_validateParentAndBefore_def cat_written_def create_tx_def delete_tx_def
  move_tx_def rebuild_tx_def cat_list_def cat_get_def cat_create_def cat_update_def cat_delete_def
  cat_ref_def cat_lookup_or_def cat_updatedSlug_def cat_count_posts_def cat_count_children_def
  applyBefore_def cat_rebuild_def rebuildBounds_def sameParent_def cat_uuids_def sortSiblings_def
  roots_of_def kids_of_def findByID_def cat_put_bounds_def cat_put_fields_def cat_unlink_def
  siblingOrder_def insertBefore_def below_check_def isDescendant_def zero_category_def sib_key_def

end
