(* ===== verification/Category_Correct.thy ===== *)
theory Category_Correct
  imports Category_Service
begin

text \<open>
  The category service keeps its table a forest with a nested set, whatever requests it gets and
  whichever storage calls fail; the requests that change the tree change all of it or nothing.
\<close>

section \<open>Reads\<close>

lemma reads_cat_list [reads_intros]: "reads cat_list"
  unfolding cat_list_def by (intro reads_intros)

lemma reads_cat_get [reads_intros]: "reads (cat_get u)"
  unfolding cat_get_def by (intro reads_db_call readsI) (simp split: option.split)

lemma reads_cat_slug_taken [reads_intros]: "reads (cat_slug_taken g u)"
  unfolding cat_slug_taken_def by (intro reads_intros)

lemma reads_cat_count_posts [reads_intros]: "reads (cat_count_posts u)"
  unfolding cat_count_posts_def by (intro reads_intros)

lemma reads_cat_count_children [reads_intros]: "reads (cat_count_children u)"
  unfolding cat_count_children_def by (intro reads_intros)

lemma reads_cat_ref [reads_intros]: "reads (cat_ref known r field)"
  unfolding cat_ref_def by (intro reads_option reads_ret reads_db_call readsI) simp

lemma reads_cat_lookup_or [reads_intros]: "reads (cat_lookup_or msg u)"
  using reads_cat_get [of u]
  by (auto simp: reads_def cat_lookup_or_def split: prod.splits sum.splits) (metis snd_conv)+

lemma reads_cat_rebuild [reads_intros]: "reads (cat_rebuild cats)"
  unfolding cat_rebuild_def by (intro reads_intros)

lemma reads_cat_validateParentAndBefore [reads_intros]:
  "reads (cat_validateParentAndBefore p b)"
  unfolding cat_validateParentAndBefore_def by (intro reads_intros)

lemma reads_cat_updatedSlug [reads_intros]: "reads (cat_updatedSlug lo c raw)"
  unfolding cat_updatedSlug_def Let_def by (intro reads_intros)

lemma reads_cat_validateCreateFields [reads_intros]: "reads (cat_validateCreateFields lo i)"
  unfolding cat_validateCreateFields_def Let_def by (intro reads_intros)

section \<open>Writing the bounds\<close>

definition put_all :: "category list \<Rightarrow> category list \<Rightarrow> category list" where
  "put_all out rows = foldl (\<lambda>rs c. map (cat_put_bounds (map cat_uuid rs) c) rs) rows out"

lemma put_bounds_simps [simp]:
  "cat_uuid (cat_put_bounds known c r) = cat_uuid r"
  "cat_slug (cat_put_bounds known c r) = cat_slug r"
  by (simp_all add: cat_put_bounds_def)

lemma put_bounds_uuids: "map cat_uuid (map (cat_put_bounds known c) rs) = map cat_uuid rs"
  by (simp add: comp_def)

lemma put_all_map:
  assumes "distinct (map cat_uuid out)"
  shows "put_all out rows =
    map (\<lambda>r. case findByIDOptional out (cat_uuid r) of None \<Rightarrow> r
             | Some c \<Rightarrow> cat_put_bounds (map cat_uuid rows) c r) rows"
  using assms
proof (induction out arbitrary: rows)
  case Nil
  then show ?case by (simp add: put_all_def)
next
  case (Cons c out)
  let ?rows = "map (cat_put_bounds (map cat_uuid rows) c) rows"
  have no: "findByIDOptional out (cat_uuid c) = None" using Cons.prems by (simp add: find_None_iff)
  have "put_all (c # out) rows = put_all out ?rows" by (simp add: put_all_def)
  also have "\<dots> = map (\<lambda>r. case findByIDOptional out (cat_uuid r) of None \<Rightarrow> r
             | Some d \<Rightarrow> cat_put_bounds (map cat_uuid rows) d r) ?rows"
    using Cons.IH [of ?rows, unfolded put_bounds_uuids] Cons.prems by simp
  also have "\<dots> = map (\<lambda>r. case findByIDOptional (c # out) (cat_uuid r) of None \<Rightarrow> r
             | Some d \<Rightarrow> cat_put_bounds (map cat_uuid rows) d r) rows"
  proof -
    have "cat_put_bounds (map cat_uuid rows) c r = r" if "cat_uuid r \<noteq> cat_uuid c" for r
      using that by (simp add: cat_put_bounds_def)
    then show ?thesis using no by (auto split: option.splits)
  qed
  finally show ?case .
qed

lemma put_all_keeps [simp]:
  "map cat_uuid (put_all out rows) = map cat_uuid rows"
  "map cat_slug (put_all out rows) = map cat_slug rows"
  unfolding put_all_def by (induction out arbitrary: rows) (simp_all add: comp_def)

lemma replace_bounds_ok:
  "cat_replace_bounds out s = (Inr x, t) \<Longrightarrow>
     \<exists>n. t = s\<lparr>calls := n, cat_rows := put_all out (cat_rows s)\<rparr>"
proof (induction out arbitrary: s)
  case Nil
  then show ?case by (intro exI [of _ "calls s"]) (simp add: ret_def put_all_def)
next
  case (Cons c out)
  then obtain u where "u = s\<lparr>calls := Suc (calls s), cat_rows := map (cat_put_bounds (map cat_uuid (cat_rows s)) c) (cat_rows s)\<rparr>"
    "cat_replace_bounds out u = (Inr x, t)"
    by (auto simp: comp_iffs cat_uuids_def)
  with Cons.IH [of u] show ?case by (auto simp: put_all_def)
qed

text \<open>What a row and a category of the rebuilt list have in common.\<close>

definition tree_view :: "category \<Rightarrow> uuid \<times> uuid option \<times> int \<times> int \<times> int \<times> int" where
  "tree_view c = (cat_uuid c, cat_parent c, cat_lft c, cat_rgt c, cat_depth c, cat_sort c)"

lemma forest_parent:
  assumes "forest cats" "c \<in> set cats" "cat_parent c = Some p"
  shows "p \<in> cat_uuid ` set cats"
proof -
  have ch: "child cats p (cat_uuid c)" using assms by (auto simp: child_def)
  obtain k where "at_depth cats (cat_uuid c) k" using assms by (auto simp: forest_at_depth)
  then obtain j where "at_depth cats p j"
    using at_depth_child [OF forest_distinct [OF assms(1)] ch] at_depth_child0 [OF forest_distinct [OF assms(1)] ch]
    by (cases k) auto
  then show ?thesis by (rule at_depth_in)
qed

lemma put_all_view:
  assumes f: "forest out" and u: "cat_uuid ` set out = cat_uuid ` set rows"
  shows "tree_view ` set (put_all out rows) = tree_view ` set out"
proof -
  note d = forest_distinct [OF f]
  have row: "\<exists>c \<in> set out. cat_uuid c = cat_uuid r \<and>
      tree_view (case findByIDOptional out (cat_uuid r) of None \<Rightarrow> r
                 | Some c \<Rightarrow> cat_put_bounds (map cat_uuid rows) c r) = tree_view c"
    if r: "r \<in> set rows" for r
  proof -
    from r u obtain c where c: "c \<in> set out" "cat_uuid c = cat_uuid r" by (metis imageE imageI)
    have par: "cat_parent c = Some p \<Longrightarrow> p \<in> cat_uuid ` set rows" for p
      using forest_parent [OF f c(1)] u by simp
    show ?thesis using find_in [OF d c(1)] c par
      by (intro bexI [of _ c]) (auto simp: tree_view_def cat_put_bounds_def split: option.splits)
  qed
  show ?thesis
  proof (rule subset_antisym)
    show "tree_view ` set (put_all out rows) \<subseteq> tree_view ` set out"
    proof
      fix v assume "v \<in> tree_view ` set (put_all out rows)"
      then obtain r where "r \<in> set rows" "v = tree_view (case findByIDOptional out (cat_uuid r) of
          None \<Rightarrow> r | Some c \<Rightarrow> cat_put_bounds (map cat_uuid rows) c r)"
        unfolding put_all_map [OF d] by auto
      then show "v \<in> tree_view ` set out" using row by blast
    qed
    show "tree_view ` set out \<subseteq> tree_view ` set (put_all out rows)"
    proof
      fix v assume "v \<in> tree_view ` set out"
      then obtain c where c: "c \<in> set out" "v = tree_view c" by auto
      from c(1) u obtain r where r: "r \<in> set rows" "cat_uuid r = cat_uuid c" by (metis imageE imageI)
      obtain c' where c': "c' \<in> set out" "cat_uuid c' = cat_uuid r"
        "tree_view (case findByIDOptional out (cat_uuid r) of None \<Rightarrow> r
                 | Some c \<Rightarrow> cat_put_bounds (map cat_uuid rows) c r) = tree_view c'"
        using row [OF r(1)] by blast
      have "c' = c" using same_uuid [OF d c'(1) c(1)] c'(2) r(2) by simp
      then show "v \<in> tree_view ` set (put_all out rows)"
        unfolding put_all_map [OF d] set_map image_image using c(2) c'(3) r(1)
        by (metis (mono_tags, lifting) image_eqI)
    qed
  qed
qed

lemma links_view: "tree_view ` set xs = tree_view ` set ys \<Longrightarrow> links xs = links ys"
proof -
  assume v: "tree_view ` set xs = tree_view ` set ys"
  have "links zs = (\<lambda>(u, p, _). (u, p)) ` tree_view ` set zs" for zs
    by (simp add: links_def image_image tree_view_def)
  then show ?thesis using v by simp
qed

lemma nested_set_view:
  assumes v: "tree_view ` set xs = tree_view ` set ys"
    and d: "distinct (map cat_uuid xs)" "distinct (map cat_uuid ys)" and n: "nested_set xs"
  shows "nested_set ys"
proof -
  note l = links_view [OF v]
  have uuids: "cat_uuid ` set zs = fst ` tree_view ` set zs" for zs
    by (simp add: image_image tree_view_def)
  have len: "length xs = length ys"
    using d uuids v by (metis distinct_card length_map list.set_map)
  have e: "set (ends_of zs) = (\<lambda>(_, _, a, _). a) ` tree_view ` set zs \<union> (\<lambda>(_, _, _, b, _). b) ` tree_view ` set zs" for zs
    by (simp add: ends_of_def image_image tree_view_def)
  have ends: "set (ends_of ys) = {1..2 * int (length ys)}"
    using n e [of xs] e [of ys] v len by (simp add: nested_set_def)
  have "distinct (ends_of ys)" using ends by (intro card_distinct) (simp add: ends_of_def)
  moreover have same: "\<exists>x \<in> set xs. cat_uuid x = cat_uuid y \<and> cat_lft x = cat_lft y \<and>
      cat_rgt x = cat_rgt y \<and> cat_depth x = cat_depth y" if "y \<in> set ys" for y
  proof -
    obtain x where "x \<in> set xs" "tree_view x = tree_view y" using \<open>y \<in> set ys\<close> v by (metis imageE imageI)
    then show ?thesis by (auto simp: tree_view_def)
  qed
  moreover have "inside y x \<longleftrightarrow> ancestor xs (cat_uuid x) (cat_uuid y)" if m: "x \<in> set ys" "y \<in> set ys" for x y
  proof -
    obtain x' where x': "x' \<in> set xs" "cat_uuid x' = cat_uuid x" "cat_lft x' = cat_lft x" "cat_rgt x' = cat_rgt x"
      using same [OF m(1)] by blast
    obtain y' where y': "y' \<in> set xs" "cat_uuid y' = cat_uuid y" "cat_lft y' = cat_lft y" "cat_rgt y' = cat_rgt y"
      using same [OF m(2)] by blast
    have "inside y' x' \<longleftrightarrow> ancestor xs (cat_uuid x') (cat_uuid y')"
      using n x'(1) y'(1) unfolding nested_set_def by blast
    then show ?thesis using x' y' by (simp add: inside_def)
  qed
  moreover have "\<forall>y \<in> set ys. cat_lft y < cat_rgt y" using same n unfolding nested_set_def by metis
  moreover have "\<forall>y \<in> set ys. 0 \<le> cat_depth y \<and> at_depth xs (cat_uuid y) (nat (cat_depth y))"
    using same n unfolding nested_set_def by metis
  ultimately show ?thesis
    using ends unfolding nested_set_def child_cong [OF l, symmetric] at_depth_cong [OF d l, symmetric]
    by blast
qed

section \<open>The invariant\<close>

definition cat_inv :: "cat_store \<Rightarrow> bool" where
  "cat_inv s \<longleftrightarrow>
     forest (cat_rows s) \<and> nested_set (cat_rows s) \<and> distinct (map cat_slug (cat_rows s))"

lemma unchanged_rows: "unchanged s t \<Longrightarrow> cat_rows t = cat_rows s"
  by (auto simp: unchanged_def)

lemma unchanged_cat_inv: "unchanged s t \<Longrightarrow> cat_inv s \<Longrightarrow> cat_inv t"
  by (auto simp: unchanged_def cat_inv_def)

lemma cat_written_ok:
  "cat_written m s = (Inr x, t) \<longleftrightarrow>
     (\<exists>u. m s = (Inr x, u) \<and> t = u\<lparr>cat_invalidations := Suc (cat_invalidations u)\<rparr>)"
  by (auto simp: cat_written_def comp_iffs)

lemma cat_written_fails: "cat_written m s = (Inl e, t) \<longleftrightarrow> m s = (Inl e, t)"
  by (auto simp: cat_written_def comp_iffs)

lemma cat_rebuild_ok: "cat_rebuild cats s = (Inr out, t) \<longleftrightarrow> rebuildBounds cats = Some out \<and> t = s"
  by (auto simp: cat_rebuild_def raise_def ret_def split: option.splits)

lemma cat_rebuild_returns: "forest cats \<Longrightarrow> \<exists>out. cat_rebuild cats s = (Inr out, s)"
  using rebuildBounds_ends forest_distinct by (fastforce simp: cat_rebuild_ok)

lemma cat_list_ok: "cat_list s = (Inr cats, t) \<Longrightarrow> cats = sort_key cat_lft (cat_rows s) \<and> unchanged s t"
  by (auto simp: cat_list_def comp_iffs)

lemma links_sort [simp]: "links (sort_key f cats) = links cats"
  by (simp add: links_def)

lemma distinct_uuid_sort: "distinct (map cat_uuid cats) \<Longrightarrow> distinct (map cat_uuid (sort_key f cats))"
  by (simp add: distinct_map)

lemma forest_sort: "forest cats \<Longrightarrow> forest (sort_key f cats)"
  using forest_cong [of "sort_key f cats" cats] distinct_uuid_sort forest_distinct by auto

text \<open>
  Writing the rebuilt bounds of a forest over rows with the same UUIDs gives rows with the links
  and the sibling order of that forest, carrying a nested set.
\<close>

lemma settle:
  assumes f: "forest cats" and r: "rebuildBounds cats = Some out"
    and d: "distinct (map cat_uuid rows)" and u: "cat_uuid ` set cats = cat_uuid ` set rows"
  shows "forest (put_all out rows)" "nested_set (put_all out rows)"
    "links (put_all out rows) = links cats" "group (put_all out rows) p = group cats p"
proof -
  note rf = rebuild_facts [OF f r]
  have l: "links out = links cats" by (rule links_core [OF rf(2)])
  have fo: "forest out" using forest_cong [OF rf(1) l [symmetric] f] .
  have uo: "cat_uuid ` set out = cat_uuid ` set rows"
  proof -
    have "cat_uuid ` core ` set out = cat_uuid ` core ` set cats" using rf(2) by simp
    then show ?thesis using u by (simp add: image_image)
  qed
  note v = put_all_view [OF fo uo]
  show l': "links (put_all out rows) = links cats" using links_view [OF v] l by simp
  have d': "distinct (map cat_uuid (put_all out rows))" using d by simp
  show "forest (put_all out rows)" using forest_cong [OF d' l' [symmetric] f] .
  show "nested_set (put_all out rows)" using nested_set_view [OF v [symmetric] rf(1) d' rf(5)] .
  have ds: "distinct (group cats p)" "set (group cats p) = {v. (v, p) \<in> links cats}"
    using forest_distinct [OF f]
    by (auto simp: group_def siblings_def links_def distinct_map_filter)
  have "cat_sort c = int (pos (group cats p) (cat_uuid c))"
    if c: "c \<in> set (put_all out rows)" "cat_parent c = p" for c
  proof -
    obtain x where x: "x \<in> set out" "tree_view x = tree_view c" using c(1) v by (metis imageE imageI)
    then have e: "cat_sort c = cat_sort x" "cat_uuid c = cat_uuid x" "cat_parent x = p"
      using c(2) by (simp_all add: tree_view_def)
    have "0 \<le> cat_sort x" "nat (cat_sort x) < length (group cats p)"
      "group cats p ! nat (cat_sort x) = cat_uuid x"
      using rf(4) x(1) e(3) by (auto simp: in_place_def group_def)
    then show ?thesis using pos_nth [OF ds(1)] e by (metis nat_0_le)
  qed
  then show "group (put_all out rows) p = group cats p"
    using group_by_position [OF d' ds(1)] ds(2) l' by simp
qed

section \<open>RebuildAll and Delete\<close>

text \<open>What the transactions that succeeded did to the state.\<close>

lemma rebuild_tx_ok:
  assumes "rebuild_tx s = (Inr x, t)"
  obtains n out where "rebuildBounds (sort_key cat_lft (cat_rows s)) = Some out"
    "t = s\<lparr>calls := n, cat_rows := put_all out (cat_rows s)\<rparr>"
proof -
  from assms obtain cats u out where a: "cat_list s = (Inr cats, u)" "rebuildBounds cats = Some out"
    "cat_replace_bounds out u = (Inr x, t)"
    by (auto simp: rebuild_tx_def andthen_Inr_iff cat_rebuild_ok)
  from cat_list_ok [OF a(1)] obtain n where "cats = sort_key cat_lft (cat_rows s)" "u = s\<lparr>calls := n\<rparr>"
    by (auto simp: unchanged_def)
  then show ?thesis using that a(2) replace_bounds_ok [OF a(3)] by auto
qed

lemma delete_tx_ok:
  assumes "delete_tx u s = (Inr x, t)"
  obtains out rows where
    "rows = map (\<lambda>r. r\<lparr>cat_parent := cat_unlink u (cat_parent r)\<rparr>)
              (filter (\<lambda>r. cat_uuid r \<noteq> u) (cat_rows s))"
    "rebuildBounds (sort_key cat_lft rows) = Some out" "u \<in> set (cat_uuids s)"
    "cat_rows t = put_all out rows" "cat_invalidations t = cat_invalidations s"
    "cat_post_refs t = map (cat_unlink u) (cat_post_refs s)"
proof -
  from assms obtain s1 y where d: "cat_delete u s = (Inr y, s1)" "rebuild_tx s1 = (Inr x, t)"
    by (auto simp: delete_tx_def rebuild_tx_def andthen_Inr_iff)
  from d(1) have s1: "u \<in> set (cat_uuids s)" "s1 = s\<lparr>calls := Suc (calls s),
       cat_rows := map (\<lambda>r. r\<lparr>cat_parent := cat_unlink u (cat_parent r)\<rparr>)
                     (filter (\<lambda>r. cat_uuid r \<noteq> u) (cat_rows s)),
       cat_post_refs := map (cat_unlink u) (cat_post_refs s)\<rparr>"
    by (auto simp: cat_delete_def comp_iffs cat_uuids_def split: if_splits)
  from d(2) obtain n out where "rebuildBounds (sort_key cat_lft (cat_rows s1)) = Some out"
    "t = s1\<lparr>calls := n, cat_rows := put_all out (cat_rows s1)\<rparr>"
    by (rule rebuild_tx_ok)
  then show ?thesis using that s1 by simp
qed

lemma cat_ref_ok:
  "cat_ref known r field s = (Inr x, t) \<Longrightarrow>
     unchanged s t \<and> (case r of None \<Rightarrow> True | Some u \<Rightarrow> u \<in> set (known (s\<lparr>calls := Suc (calls s)\<rparr>)))"
  using readsD [OF reads_cat_ref]
  by (auto simp: cat_ref_def comp_iffs split: option.splits if_splits)

lemma cat_create_ok:
  assumes "cat_create c s = (Inr x, t)"
  obtains n where "t = s\<lparr>calls := n, cat_rows := cat_rows s @ [c]\<rparr>"
    "cat_uuid c \<notin> cat_uuid ` set (cat_rows s)" "cat_slug c \<notin> cat_slug ` set (cat_rows s)"
    "\<forall>q. cat_parent c = Some q \<longrightarrow> q \<in> cat_uuid ` set (cat_rows s)"
proof -
  from assms obtain s1 s2 where a: "cat_ref cat_uuids (cat_parent c) ''parent_id'' s = (Inr (), s1)"
    "cat_ref cat_media (cat_image c) ''image_id'' s1 = (Inr (), s2)"
    "cat_uuid c \<notin> set (cat_uuids s2)" "cat_slug c \<notin> cat_slug ` set (cat_rows s2)"
    "t = s2\<lparr>calls := Suc (calls s2), cat_rows := cat_rows s2 @ [c]\<rparr>"
    by (auto simp: cat_create_def andthen_Inr_iff db_call_Inr_iff cat_uuids_def split: if_splits)
  have "unchanged s s2" using cat_ref_ok [OF a(1)] cat_ref_ok [OF a(2)] unchanged_trans by blast
  then obtain n where "s2 = s\<lparr>calls := n\<rparr>" by (auto simp: unchanged_def)
  then show ?thesis using that a(3-5) cat_ref_ok [OF a(1)]
    by (auto simp: cat_uuids_def split: option.splits)
qed

lemma cat_update_ok:
  assumes "cat_update c s = (Inr x, t)"
  shows "cat_rows t = map (cat_put_fields c) (cat_rows s)" "cat_invalidations t = cat_invalidations s"
    "cat_uuid c \<in> cat_uuid ` set (cat_rows s)"
    "\<forall>r \<in> set (cat_rows s). cat_slug r = cat_slug c \<longrightarrow> cat_uuid r = cat_uuid c"
    "\<forall>q. cat_parent c = Some q \<longrightarrow> q \<in> cat_uuid ` set (cat_rows s)"
proof -
  from assms obtain s1 s2 s3 where a: "cat_ref cat_uuids (cat_parent c) ''parent_id'' s = (Inr (), s1)"
    "cat_ref cat_media (cat_image c) ''image_id'' s1 = (Inr (), s2)"
    "cat_uuid c \<in> set (cat_uuids s2)"
    "\<forall>r \<in> set (cat_rows s2). cat_slug r = cat_slug c \<longrightarrow> cat_uuid r = cat_uuid c"
    "s3 = s2\<lparr>calls := Suc (calls s2), cat_rows := map (cat_put_fields c) (cat_rows s2)\<rparr>"
    "cat_get (cat_uuid c) s3 = (Inr x, t)"
    by (auto simp: cat_update_def andthen_Inr_iff db_call_Inr_iff cat_uuids_def list_ex_iff split: if_splits)
  have "unchanged s s2" using cat_ref_ok [OF a(1)] cat_ref_ok [OF a(2)] unchanged_trans by blast
  moreover have "unchanged s3 t" by (rule readsD [OF reads_cat_get a(6)])
  ultimately obtain n m where nm: "s2 = s\<lparr>calls := n\<rparr>" "t = s3\<lparr>calls := m\<rparr>"
    by (auto simp: unchanged_def)
  show "cat_rows t = map (cat_put_fields c) (cat_rows s)" "cat_invalidations t = cat_invalidations s"
    "cat_uuid c \<in> cat_uuid ` set (cat_rows s)"
    "\<forall>r \<in> set (cat_rows s). cat_slug r = cat_slug c \<longrightarrow> cat_uuid r = cat_uuid c"
    using nm a(3-5) by (simp_all add: cat_uuids_def)
  show "\<forall>q. cat_parent c = Some q \<longrightarrow> q \<in> cat_uuid ` set (cat_rows s)"
    using cat_ref_ok [OF a(1)] by (auto simp: cat_uuids_def)
qed

lemma create_tx_ok:
  assumes "create_tx c b s = (Inr x, t)"
  obtains n out cats2 where
    "applyBefore (sort_key cat_lft (cat_rows s) @ [c]) (cat_uuid c) (cat_parent c) b = Inr cats2"
    "rebuildBounds cats2 = Some out" "x = findByID out (cat_uuid c)"
    "t = s\<lparr>calls := n, cat_rows := put_all out (cat_rows s @ [c])\<rparr>"
    "cat_uuid c \<notin> cat_uuid ` set (cat_rows s)" "cat_slug c \<notin> cat_slug ` set (cat_rows s)"
    "\<forall>q. cat_parent c = Some q \<longrightarrow> q \<in> cat_uuid ` set (cat_rows s)"
proof -
  from assms obtain cats s1 s2 y cats2 out where a: "cat_list s = (Inr cats, s1)"
    "cat_create c s1 = (Inr y, s2)"
    "applyBefore (cats @ [c]) (cat_uuid c) (cat_parent c) b = Inr cats2"
    "rebuildBounds cats2 = Some out" "x = findByID out (cat_uuid c)"
    "cat_replace_bounds out s2 = (Inr (), t)"
    by (auto simp: create_tx_def andthen_Inr_iff cat_rebuild_ok result_iffs)
  from cat_list_ok [OF a(1)] obtain m where m: "cats = sort_key cat_lft (cat_rows s)" "s1 = s\<lparr>calls := m\<rparr>"
    by (auto simp: unchanged_def)
  from a(2) obtain k where "s2 = s1\<lparr>calls := k, cat_rows := cat_rows s1 @ [c]\<rparr>"
    "cat_uuid c \<notin> cat_uuid ` set (cat_rows s1)" "cat_slug c \<notin> cat_slug ` set (cat_rows s1)"
    "\<forall>q. cat_parent c = Some q \<longrightarrow> q \<in> cat_uuid ` set (cat_rows s1)"
    by (rule cat_create_ok)
  then show ?thesis using that a(3-5) m replace_bounds_ok [OF a(6)] by auto
qed

lemma move_tx_ok:
  assumes "move_tx now u p b s = (Inr x, t)"
  obtains out cats2 c cats node where "cats = sort_key cat_lft (cat_rows s)"
    "findByIDOptional cats u = Some c" "node = c\<lparr>cat_parent := p, cat_updated := now\<rparr>"
    "\<forall>q. p = Some q \<longrightarrow> isDescendant cats u q = Some False"
    "applyBefore (replace cats node) u p b = Inr cats2"
    "rebuildBounds cats2 = Some out" "x = findByID out u"
    "cat_rows t = put_all out (map (cat_put_fields node) (cat_rows s))"
    "cat_invalidations t = cat_invalidations s"
    "\<forall>r \<in> set (cat_rows s). cat_slug r = cat_slug node \<longrightarrow> cat_uuid r = cat_uuid node"
    "\<forall>q. p = Some q \<longrightarrow> q \<in> cat_uuid ` set (cat_rows s)"
proof -
  from assms obtain cats s1 c s2 s3 y cats2 out where a: "cat_list s = (Inr cats, s1)"
    "findByIDOptional cats u = Some c" "below_check cats u p s1 = (Inr False, s2)"
    "applyBefore (replace cats (c\<lparr>cat_parent := p, cat_updated := now\<rparr>)) u p b = Inr cats2"
    "cat_update (c\<lparr>cat_parent := p, cat_updated := now\<rparr>) s2 = (Inr y, s3)"
    "rebuildBounds cats2 = Some out" "x = findByID out u" "cat_replace_bounds out s3 = (Inr (), t)"
    by (auto simp: move_tx_def andthen_Inr_iff cat_rebuild_ok result_iffs
        split: option.splits if_splits)
  let ?node = "c\<lparr>cat_parent := p, cat_updated := now\<rparr>"
  from a(3) have b: "s2 = s1" "\<forall>q. p = Some q \<longrightarrow> isDescendant cats u q = Some False"
    by (auto simp: below_check_def ret_def raise_def split: option.splits)
  from cat_list_ok [OF a(1)] obtain m where m: "cats = sort_key cat_lft (cat_rows s)" "s1 = s\<lparr>calls := m\<rparr>"
    by (auto simp: unchanged_def)
  show ?thesis
    by (rule that [OF m(1) a(2) refl b(2) a(4,6,7)])
       (use cat_update_ok [OF a(5)] b(1) m(2) replace_bounds_ok [OF a(8)] in auto)
qed

section \<open>What the requests do to the tree\<close>

lemma uuids_sort [simp]: "cat_uuid ` set (sort_key f cats) = cat_uuid ` set cats"
  by simp

lemma uuids_of_core: "map core xs = map core ys \<Longrightarrow> map cat_uuid xs = map cat_uuid ys"
proof -
  assume "map core xs = map core ys"
  then have "map cat_uuid (map core xs) = map cat_uuid (map core ys)" by simp
  then show ?thesis by (simp add: comp_def)
qed

lemma links_filter:
  "links (filter (\<lambda>r. cat_uuid r \<noteq> u) rows) = {l \<in> links rows. fst l \<noteq> u}"
proof (rule set_eqI)
  fix l
  show "l \<in> links (filter (\<lambda>r. cat_uuid r \<noteq> u) rows) \<longleftrightarrow> l \<in> {l \<in> links rows. fst l \<noteq> u}"
    by (induction rows) (simp, cases l, simp, blast)
qed

lemma created_forest:
  fixes rows :: "category list" and c :: category
  defines "cats \<equiv> sort_key cat_lft rows @ [c]"
  assumes f: "forest rows" and new: "cat_uuid c \<notin> cat_uuid ` set rows"
    and par: "\<forall>q. cat_parent c = Some q \<longrightarrow> q \<in> cat_uuid ` set rows"
    and ap: "applyBefore cats (cat_uuid c) (cat_parent c) b = Inr cats2"
  shows "distinct (map cat_uuid cats)" "(cat_uuid c, cat_parent c) \<in> links cats"
    "map core cats2 = map core cats" "links cats2 = links cats" "forest cats2"
proof -
  have f1: "forest cats" using forest_snoc [OF forest_sort [OF f]] new par by (simp add: cats_def)
  show d1: "distinct (map cat_uuid cats)" by (rule forest_distinct [OF f1])
  show l1: "(cat_uuid c, cat_parent c) \<in> links cats" by (simp add: links_snoc cats_def)
  show ab: "map core cats2 = map core cats" "links cats2 = links cats" by (rule applyBefore_core [OF d1 l1 ap])+
  have d2: "distinct (map cat_uuid cats2)" using uuids_of_core [OF ab(1)] d1 by simp
  show "forest cats2" using forest_cong [OF d2 ab(2) [symmetric] f1] .
qed

lemma moved_forest:
  assumes f: "forest cats" and c: "findByIDOptional cats u = Some c"
    and node: "cat_uuid node = cat_uuid c" "cat_parent node = p"
    and par: "\<forall>q. p = Some q \<longrightarrow> q \<in> cat_uuid ` set cats \<and> q \<noteq> u \<and> isDescendant cats u q = Some False"
    and ap: "applyBefore (replace cats node) u p b = Inr cats2"
  shows "distinct (map cat_uuid (replace cats node))" "(u, p) \<in> links (replace cats node)"
    "map core cats2 = map core (replace cats node)" "links cats2 = links (replace cats node)" "forest cats2"
proof -
  have cu: "c \<in> set cats" "cat_uuid c = u" using c find_Some_iff [OF forest_distinct [OF f]] by blast+
  have par': "\<forall>q. cat_parent node = Some q \<longrightarrow>
      q \<in> cat_uuid ` set cats \<and> q \<noteq> cat_uuid c \<and> \<not> ancestor cats (cat_uuid c) q"
    using par isDescendant_decides [OF f] node(2) cu(2) by auto
  have f1: "forest (replace cats node)" by (rule forest_reparent [OF f cu(1) node(1) par'])
  have "cat_uuid node \<in> cat_uuid ` set cats" using node(1) cu(1) by simp
  note re = replace_effect [OF forest_distinct [OF f] this, unfolded node cu(2)]
  show d1: "distinct (map cat_uuid (replace cats node))" by (rule forest_distinct [OF f1])
  show l1: "(u, p) \<in> links (replace cats node)" using re(1) by simp
  show ab: "map core cats2 = map core (replace cats node)" "links cats2 = links (replace cats node)"
    by (rule applyBefore_core [OF d1 l1 ap])+
  have d2: "distinct (map cat_uuid cats2)" using uuids_of_core [OF ab(1)] d1 by simp
  show "forest cats2" using forest_cong [OF d2 ab(2) [symmetric] f1] .
qed

lemma create_tx_settles:
  assumes f: "forest (cat_rows s)" and ds: "distinct (map cat_slug (cat_rows s))"
    and t: "create_tx c b s = (Inr x, t)"
  shows "cat_inv t" "links (cat_rows t) = insert (cat_uuid c, cat_parent c) (links (cat_rows s))"
    "placed (group (cat_rows s) (cat_parent c)) (cat_uuid c) b (group (cat_rows t) (cat_parent c))"
    "cat_invalidations t = cat_invalidations s"
proof -
  let ?cats = "sort_key cat_lft (cat_rows s) @ [c]" and ?p = "cat_parent c" and ?u = "cat_uuid c"
  obtain n out cats2 where a: "applyBefore ?cats ?u ?p b = Inr cats2" "rebuildBounds cats2 = Some out"
    "t = s\<lparr>calls := n, cat_rows := put_all out (cat_rows s @ [c])\<rparr>"
    "?u \<notin> cat_uuid ` set (cat_rows s)" "cat_slug c \<notin> cat_slug ` set (cat_rows s)"
    "\<forall>q. ?p = Some q \<longrightarrow> q \<in> cat_uuid ` set (cat_rows s)"
    using t by (rule create_tx_ok)
  note d = forest_distinct [OF f]
  note cf = created_forest [OF f a(4,6,1)]
  note d1 = cf(1) and l1 = cf(2) and ab = cf(3,4) and f2 = cf(5)
  have u2: "cat_uuid ` set cats2 = cat_uuid ` set (cat_rows s @ [c])"
    using arg_cong [OF uuids_of_core [OF ab(1)], of set] by simp
  have d3: "distinct (map cat_uuid (cat_rows s @ [c]))" using d a(4) by simp
  note se = settle [OF f2 a(2) d3 u2]
  have rows: "cat_rows t = put_all out (cat_rows s @ [c])" using a(3) by simp
  show "cat_inv t" using se(1,2) ds a(5) by (simp add: cat_inv_def rows)
  show "links (cat_rows t) = insert (?u, ?p) (links (cat_rows s))"
    using se(3) ab(2) by (simp add: rows links_snoc)
  have "siblingOrder ?cats ?u ?p = siblingOrder (sort_key cat_lft (cat_rows s)) ?u ?p"
    by (simp add: siblingOrder_eq)
  also have "\<dots> = group (cat_rows s) ?p"
    using a(4) unfolding siblingOrder_group group_sort [OF d]
    by (intro filter_True) (auto simp: group_def siblings_def intro: rev_image_eqI)
  finally show "placed (group (cat_rows s) ?p) ?u b (group (cat_rows t) ?p)"
    using applyBefore_order [OF d1 l1 a(1)] se(4) by (simp add: rows)
  show "cat_invalidations t = cat_invalidations s" using a(3) by simp
qed

lemma unlink_leaf:
  assumes leaf: "\<And>v. \<not> child rows u v"
  shows "map (\<lambda>r. r\<lparr>cat_parent := cat_unlink u (cat_parent r)\<rparr>) (filter (\<lambda>r. cat_uuid r \<noteq> u) rows) =
    filter (\<lambda>r. cat_uuid r \<noteq> u) rows"
proof -
  have "r\<lparr>cat_parent := cat_unlink u (cat_parent r)\<rparr> = r" if "r \<in> set rows" for r
  proof -
    have "cat_parent r \<noteq> Some u" using leaf [of "cat_uuid r"] that unfolding child_def by blast
    then show ?thesis by (simp add: cat_unlink_def)
  qed
  then show ?thesis by (intro map_idI) auto
qed

lemma delete_tx_settles:
  assumes f: "forest (cat_rows s)" and ds: "distinct (map cat_slug (cat_rows s))"
    and leaf: "\<And>v. \<not> child (cat_rows s) u v" and t: "delete_tx u s = (Inr x, t)"
  shows "cat_inv t" "links (cat_rows t) = {l \<in> links (cat_rows s). fst l \<noteq> u}"
    "cat_invalidations t = cat_invalidations s"
proof -
  let ?rows = "filter (\<lambda>r. cat_uuid r \<noteq> u) (cat_rows s)"
  obtain out rows where a: "rows = map (\<lambda>r. r\<lparr>cat_parent := cat_unlink u (cat_parent r)\<rparr>) ?rows"
    "rebuildBounds (sort_key cat_lft rows) = Some out" "cat_rows t = put_all out rows"
    "cat_invalidations t = cat_invalidations s"
    using t by (rule delete_tx_ok)
  have rows: "rows = ?rows" unfolding a(1) by (rule unlink_leaf [OF leaf])
  have f1: "forest rows" unfolding rows using forest_remove [OF f leaf] .
  note d1 = forest_distinct [OF f1]
  note se = settle [OF forest_sort [OF f1] a(2) d1 uuids_sort]
  have "distinct (map cat_slug rows)" unfolding rows using ds by (rule distinct_map_filter)
  then show "cat_inv t" using se(1,2) a(3) by (simp add: cat_inv_def)
  have "links rows = {l \<in> links (cat_rows s). fst l \<noteq> u}" unfolding rows by (rule links_filter)
  then show "links (cat_rows t) = {l \<in> links (cat_rows s). fst l \<noteq> u}" using se(3) a(3) by simp
  show "cat_invalidations t = cat_invalidations s" by (rule a(4))
qed

lemma put_fields_uuids: "map cat_uuid (map (cat_put_fields node) rows) = map cat_uuid rows"
  by (simp add: cat_put_fields_def)

lemma put_fields_slugs:
  assumes d: "distinct (map cat_uuid rows)" "distinct (map cat_slug rows)"
    and own: "\<forall>r \<in> set rows. cat_slug r = cat_slug node \<longrightarrow> cat_uuid r = cat_uuid node"
  shows "distinct (map cat_slug (map (cat_put_fields node) rows))"
  using assms
proof (induction rows)
  case (Cons r rows)
  have ih: "distinct (map cat_slug (map (cat_put_fields node) rows))" using Cons by simp
  have "cat_slug (cat_put_fields node r) \<noteq> cat_slug (cat_put_fields node r')" if r': "r' \<in> set rows" for r'
  proof -
    have "cat_uuid r \<noteq> cat_uuid r'" "cat_slug r \<noteq> cat_slug r'" using Cons.prems(1,2) r' by (auto simp: image_iff)
    then show ?thesis using Cons.prems(3) r' by (auto simp: cat_put_fields_def)
  qed
  with ih show ?case by auto
qed simp

lemma move_tx_settles:
  assumes f: "forest (cat_rows s)" and ds: "distinct (map cat_slug (cat_rows s))"
    and pu: "p \<noteq> Some u" and t: "move_tx now u p b s = (Inr x, t)"
  shows "cat_inv t"
    "links (cat_rows t) = insert (u, p) {l \<in> links (cat_rows s). fst l \<noteq> u}"
    "placed (filter (\<lambda>v. v \<noteq> u) (group (cat_rows s) p)) u b (group (cat_rows t) p)"
    "cat_invalidations t = cat_invalidations s"
proof -
  obtain out cats2 c cats node where a: "cats = sort_key cat_lft (cat_rows s)"
    "findByIDOptional cats u = Some c" "node = c\<lparr>cat_parent := p, cat_updated := now\<rparr>"
    "\<forall>q. p = Some q \<longrightarrow> isDescendant cats u q = Some False"
    "applyBefore (replace cats node) u p b = Inr cats2" "rebuildBounds cats2 = Some out"
    "cat_rows t = put_all out (map (cat_put_fields node) (cat_rows s))"
    "cat_invalidations t = cat_invalidations s"
    "\<forall>r \<in> set (cat_rows s). cat_slug r = cat_slug node \<longrightarrow> cat_uuid r = cat_uuid node"
    "\<forall>q. p = Some q \<longrightarrow> q \<in> cat_uuid ` set (cat_rows s)"
    using t by (rule move_tx_ok)
  have fc: "forest cats" unfolding a(1) by (rule forest_sort [OF f])
  note dc = forest_distinct [OF fc] and d = forest_distinct [OF f]
  have c: "c \<in> set cats" "cat_uuid c = u" using a(2) find_Some_iff [OF dc] by blast+
  have node: "cat_uuid node = cat_uuid c" "cat_parent node = p" using a(3) by simp_all
  have par: "\<forall>q. p = Some q \<longrightarrow> q \<in> cat_uuid ` set cats \<and> q \<noteq> u \<and> isDescendant cats u q = Some False"
    using a(4,10) pu a(1) by auto
  let ?cats = "replace cats node"
  have "cat_uuid node \<in> cat_uuid ` set cats" using node(1) c(1) by simp
  note re = replace_effect [OF dc this, unfolded node c(2)]
  note mf = moved_forest [OF fc a(2) node par a(5)]
  note d1 = mf(1) and l1 = mf(2) and ab = mf(3,4) and f2 = mf(5)
  note pf = put_fields_uuids [of node "cat_rows s"]
  have u2: "cat_uuid ` set cats2 = cat_uuid ` set (map (cat_put_fields node) (cat_rows s))"
    using arg_cong [OF uuids_of_core [OF ab(1)], of set] re(2) a(1) pf
    by (metis list.set_map uuids_sort)
  have d3: "distinct (map cat_uuid (map (cat_put_fields node) (cat_rows s)))" using d by (simp only: pf)
  note se = settle [OF f2 a(6) d3 u2]
  show "cat_inv t" using se(1,2) put_fields_slugs [OF d ds a(9)] by (simp add: cat_inv_def a(7))
  show "links (cat_rows t) = insert (u, p) {l \<in> links (cat_rows s). fst l \<noteq> u}"
    using se(3) ab(2) re(1) a(1) by (simp add: a(7))
  have "siblingOrder ?cats u p = filter (\<lambda>v. v \<noteq> u) (group (cat_rows s) p)"
    using re(3) [of p] unfolding siblingOrder_group a(1) group_sort [OF d] .
  then show "placed (filter (\<lambda>v. v \<noteq> u) (group (cat_rows s) p)) u b (group (cat_rows t) p)"
    using applyBefore_order [OF d1 l1 a(5)] se(4) by (simp add: a(7))
  show "cat_invalidations t = cat_invalidations s" by (rule a(8))
qed

end
