(* ===== verification/Category_Requests.thy ===== *)
theory Category_Requests
  imports Category_Correct
begin

text \<open>
  The requests of the category service as a system: every request, successful or not, keeps the
  table a forest with a nested set; the requests that change the tree change all of it or nothing;
  and none of them runs forever.
\<close>

section \<open>Requests that succeed\<close>

lemma reads_unchanged_rows:
  assumes "reads m" "m s = (r, t)"
  shows "cat_rows t = cat_rows s" "cat_invalidations t = cat_invalidations s"
    "cat_post_refs t = cat_post_refs s"
  using readsD [OF assms] by (auto simp: unchanged_def)

lemma Create_ok:
  assumes "Create lo now new_id i s = (Inr x, t)"
  obtains s1 t1 c where "unchanged s s1" "create_tx c (ci_before i) s1 = (Inr x, t1)"
    "cat_uuid c = new_id" "cat_parent c = ci_parent i"
    "t = t1\<lparr>cat_invalidations := Suc (cat_invalidations t1)\<rparr>"
proof -
  from assms obtain name g desc s0 s1 y where
    a: "cat_validateCreateFields lo i s = (Inr (name, g, desc), s0)"
      "cat_validateParentAndBefore (ci_parent i) (ci_before i) s0 = (Inr y, s1)" and
    w: "cat_written (within_tx (create_tx
       (zero_category\<lparr>cat_uuid := new_id, cat_name := name, cat_slug := g,
          cat_desc := desc, cat_parent := ci_parent i, cat_image := ci_image i,
          cat_created := now, cat_updated := now\<rparr>) (ci_before i))) s1 = (Inr x, t)"
    by (auto simp: Create_def andthen_Inr_iff)
  have u: "unchanged s s1"
    using readsD [OF reads_cat_validateCreateFields a(1)]
      readsD [OF reads_cat_validateParentAndBefore a(2)] by (rule unchanged_trans)
  from w obtain t1 where "create_tx (zero_category\<lparr>cat_uuid := new_id, cat_name := name, cat_slug := g,
          cat_desc := desc, cat_parent := ci_parent i, cat_image := ci_image i,
          cat_created := now, cat_updated := now\<rparr>) (ci_before i) s1 = (Inr x, t1)"
    "t = t1\<lparr>cat_invalidations := Suc (cat_invalidations t1)\<rparr>"
    by (auto simp: cat_written_ok within_tx_Inr_iff)
  from that [OF u this(1) _ _ this(2)] show ?thesis by simp
qed

lemma Move_ok:
  assumes "Move now u p b s = (Inr x, t)"
  obtains s1 t1 where "unchanged s s1" "p \<noteq> Some u" "move_tx now u p b s1 = (Inr x, t1)"
    "t = t1\<lparr>cat_invalidations := Suc (cat_invalidations t1)\<rparr>"
proof -
  from assms obtain s1 y t1 where a: "p \<noteq> Some u"
    "cat_validateParentAndBefore p b s = (Inr y, s1)" "move_tx now u p b s1 = (Inr x, t1)"
    "t = t1\<lparr>cat_invalidations := Suc (cat_invalidations t1)\<rparr>"
    by (auto simp: Move_def andthen_Inr_iff result_iffs cat_written_ok within_tx_Inr_iff split: if_splits)
  from that [OF readsD [OF reads_cat_validateParentAndBefore a(2)] a(1,3,4)] show ?thesis .
qed

lemma Delete_ok:
  assumes "Delete u s = (Inr x, t)"
  obtains s1 t1 where "unchanged s s1" "delete_tx u s1 = (Inr x, t1)"
    "\<And>v. \<not> child (cat_rows s) u v" "Some u \<notin> set (cat_post_refs s)"
    "t = t1\<lparr>cat_invalidations := Suc (cat_invalidations t1)\<rparr>"
proof -
  from assms obtain n m s0 s1 t1 where a: "cat_count_children u s = (Inr n, s0)" "n = 0"
    "cat_count_posts u s0 = (Inr m, s1)" "m = 0" "delete_tx u s1 = (Inr x, t1)"
    "t = t1\<lparr>cat_invalidations := Suc (cat_invalidations t1)\<rparr>"
    by (auto simp: Delete_def andthen_Inr_iff result_iffs cat_written_ok within_tx_Inr_iff split: if_splits)
  note r1 = readsD [OF reads_cat_count_children a(1)] and r2 = readsD [OF reads_cat_count_posts a(3)]
  have "filter (\<lambda>c. cat_parent c = Some u) (cat_rows s) = []"
    using a(1,2) by (auto simp: cat_count_children_def comp_iffs)
  then have leaf: "\<not> child (cat_rows s) u v" for v by (auto simp: child_def filter_empty_conv)
  have "cat_post_refs s0 = cat_post_refs s" using r1 by (auto simp: unchanged_def)
  moreover have "filter (\<lambda>r. r = Some u) (cat_post_refs s0) = []"
    using a(3,4) by (auto simp: cat_count_posts_def comp_iffs)
  ultimately have "Some u \<notin> set (cat_post_refs s)" by (auto simp: filter_empty_conv)
  from that [OF unchanged_trans [OF r1 r2] a(5) leaf this a(6)] show ?thesis .
qed

lemma RebuildAll_ok:
  assumes "RebuildAll s = (Inr x, t)"
  obtains t1 where "rebuild_tx s = (Inr x, t1)" "t = t1\<lparr>cat_invalidations := Suc (cat_invalidations t1)\<rparr>"
  using assms that by (auto simp: RebuildAll_def cat_written_ok within_tx_Inr_iff)

section \<open>Atomicity\<close>

lemma atomic_cat_written: "atomic m \<Longrightarrow> atomic (cat_written m)"
  by (auto simp: atomic_def cat_written_fails)

lemma atomic_Create: "atomic (Create lo now new_id i)"
  unfolding Create_def
  by (intro atomic_andthen reads_intros) (auto intro!: atomic_andthen reads_intros atomic_cat_written atomic_tx)

lemma atomic_Move: "atomic (Move now u p b)"
  unfolding Move_def by (intro atomic_if atomic_andthen atomic_reads reads_intros atomic_cat_written atomic_tx)

lemma atomic_Delete: "atomic (Delete u)"
  unfolding Delete_def by (intro atomic_if atomic_andthen reads_intros atomic_cat_written atomic_tx)
    (auto intro!: atomic_if atomic_andthen atomic_reads reads_intros atomic_cat_written atomic_tx)

lemma atomic_RebuildAll: "atomic RebuildAll"
  unfolding RebuildAll_def by (intro atomic_cat_written atomic_tx)

section \<open>The invariant\<close>

lemma inv_parts: "cat_inv s \<Longrightarrow> forest (cat_rows s)" "cat_inv s \<Longrightarrow> distinct (map cat_slug (cat_rows s))"
  by (simp_all add: cat_inv_def)

lemma inv_invalidated [simp]: "cat_inv (s\<lparr>cat_invalidations := n\<rparr>) = cat_inv s"
  by (simp add: cat_inv_def)

lemma Create_inv:
  assumes i: "cat_inv s" and r: "Create lo now new_id i s = (Inr x, t)"
  shows "cat_inv t" "links (cat_rows t) = insert (new_id, ci_parent i) (links (cat_rows s))"
    "placed (group (cat_rows s) (ci_parent i)) new_id (ci_before i) (group (cat_rows t) (ci_parent i))"
    "cat_invalidations t = Suc (cat_invalidations s)"
proof -
  obtain s1 t1 c where a: "unchanged s s1" "create_tx c (ci_before i) s1 = (Inr x, t1)"
    "cat_uuid c = new_id" "cat_parent c = ci_parent i"
    "t = t1\<lparr>cat_invalidations := Suc (cat_invalidations t1)\<rparr>" using r by (rule Create_ok)
  have s1: "cat_rows s1 = cat_rows s" "cat_invalidations s1 = cat_invalidations s"
    using a(1) by (auto simp: unchanged_def)
  note se = create_tx_settles [OF _ _ a(2), unfolded s1, OF inv_parts [OF i]]
  show "cat_inv t" "links (cat_rows t) = insert (new_id, ci_parent i) (links (cat_rows s))"
    "placed (group (cat_rows s) (ci_parent i)) new_id (ci_before i) (group (cat_rows t) (ci_parent i))"
    "cat_invalidations t = Suc (cat_invalidations s)"
    using se a(3-5) by simp_all
qed

lemma Move_inv:
  assumes i: "cat_inv s" and r: "Move now u p b s = (Inr x, t)"
  shows "cat_inv t" "links (cat_rows t) = insert (u, p) {l \<in> links (cat_rows s). fst l \<noteq> u}"
    "placed (filter (\<lambda>v. v \<noteq> u) (group (cat_rows s) p)) u b (group (cat_rows t) p)"
    "cat_invalidations t = Suc (cat_invalidations s)"
proof -
  obtain s1 t1 where a: "unchanged s s1" "p \<noteq> Some u" "move_tx now u p b s1 = (Inr x, t1)"
    "t = t1\<lparr>cat_invalidations := Suc (cat_invalidations t1)\<rparr>" using r by (rule Move_ok)
  have s1: "cat_rows s1 = cat_rows s" "cat_invalidations s1 = cat_invalidations s"
    using a(1) by (auto simp: unchanged_def)
  note se = move_tx_settles [OF _ _ a(2,3), unfolded s1, OF inv_parts [OF i]]
  show "cat_inv t" "links (cat_rows t) = insert (u, p) {l \<in> links (cat_rows s). fst l \<noteq> u}"
    "placed (filter (\<lambda>v. v \<noteq> u) (group (cat_rows s) p)) u b (group (cat_rows t) p)"
    "cat_invalidations t = Suc (cat_invalidations s)"
    using se a(4) by simp_all
qed

lemma Delete_inv:
  assumes i: "cat_inv s" and r: "Delete u s = (Inr x, t)"
  shows "cat_inv t" "links (cat_rows t) = {l \<in> links (cat_rows s). fst l \<noteq> u}"
    "\<And>v. \<not> child (cat_rows s) u v" "Some u \<notin> set (cat_post_refs s)"
    "u \<in> cat_uuid ` set (cat_rows s)" "cat_post_refs t = cat_post_refs s"
    "cat_invalidations t = Suc (cat_invalidations s)"
proof -
  obtain s1 t1 where a: "unchanged s s1" "delete_tx u s1 = (Inr x, t1)"
    "\<And>v. \<not> child (cat_rows s) u v" "Some u \<notin> set (cat_post_refs s)"
    "t = t1\<lparr>cat_invalidations := Suc (cat_invalidations t1)\<rparr>" using r by (rule Delete_ok) blast
  have s1: "cat_rows s1 = cat_rows s" "cat_invalidations s1 = cat_invalidations s"
      "cat_post_refs s1 = cat_post_refs s" "cat_uuids s1 = cat_uuids s"
    using a(1) by (auto simp: unchanged_def cat_uuids_def)
  note se = delete_tx_settles [OF _ _ _ a(2), unfolded s1, OF inv_parts [OF i] a(3)]
  show "cat_inv t" "links (cat_rows t) = {l \<in> links (cat_rows s). fst l \<noteq> u}"
    "cat_invalidations t = Suc (cat_invalidations s)"
    using se a(5) by simp_all
  obtain out rows where "u \<in> set (cat_uuids s1)" "cat_post_refs t1 = map (cat_unlink u) (cat_post_refs s1)"
    using a(2) by (rule delete_tx_ok)
  moreover have "map (cat_unlink u) (cat_post_refs s) = cat_post_refs s"
    using a(4) by (intro map_idI) (auto simp: cat_unlink_def)
  ultimately show "u \<in> cat_uuid ` set (cat_rows s)" "cat_post_refs t = cat_post_refs s"
    using a(5) s1 by (simp_all add: cat_uuids_def)
  show "\<And>v. \<not> child (cat_rows s) u v" "Some u \<notin> set (cat_post_refs s)" by fact+
qed

lemma RebuildAll_inv:
  assumes f: "forest (cat_rows s)" and r: "RebuildAll s = (Inr x, t)"
  shows "forest (cat_rows t)" "nested_set (cat_rows t)" "links (cat_rows t) = links (cat_rows s)"
    "group (cat_rows t) p = group (cat_rows s) p" "map cat_slug (cat_rows t) = map cat_slug (cat_rows s)"
    "cat_invalidations t = Suc (cat_invalidations s)"
proof -
  obtain t1 where t1: "rebuild_tx s = (Inr x, t1)" "t = t1\<lparr>cat_invalidations := Suc (cat_invalidations t1)\<rparr>"
    using r by (rule RebuildAll_ok)
  obtain n out where a: "rebuildBounds (sort_key cat_lft (cat_rows s)) = Some out"
    "t1 = s\<lparr>calls := n, cat_rows := put_all out (cat_rows s)\<rparr>" using t1(1) by (rule rebuild_tx_ok)
  note d = forest_distinct [OF f]
  note se = settle [OF forest_sort [OF f] a(1) d uuids_sort]
  show "forest (cat_rows t)" "nested_set (cat_rows t)" "links (cat_rows t) = links (cat_rows s)"
    "group (cat_rows t) p = group (cat_rows s) p" "map cat_slug (cat_rows t) = map cat_slug (cat_rows s)"
    "cat_invalidations t = Suc (cat_invalidations s)"
    using se group_sort [OF d] t1(2) a(2) by simp_all
qed

subsection \<open>Update\<close>

lemma cat_update_effect:
  assumes "cat_update c s = (r, t)"
  shows "unchanged s t \<or>
    cat_rows t = map (cat_put_fields c) (cat_rows s) \<and> cat_invalidations t = cat_invalidations s \<and>
    (\<forall>r \<in> set (cat_rows s). cat_slug r = cat_slug c \<longrightarrow> cat_uuid r = cat_uuid c)"
proof -
  let ?put = "db_call (\<lambda>s.
       if cat_uuid c \<notin> set (cat_uuids s) then (Inl (Err CatNotFound), s)
       else if list_ex (\<lambda>r. cat_uuid r \<noteq> cat_uuid c \<and> cat_slug r = cat_slug c) (cat_rows s)
       then (Inl StoreFail, s)
       else (Inr (), s\<lparr>cat_rows := map (cat_put_fields c) (cat_rows s)\<rparr>))"
  have pre: "unchanged s s2" if "cat_ref cat_uuids (cat_parent c) ''parent_id'' s = (Inr x1, s1)"
    "cat_ref cat_media (cat_image c) ''image_id'' s1 = (Inr x2, s2)" for s1 s2 x1 x2
    using readsD [OF reads_cat_ref that(1)] readsD [OF reads_cat_ref that(2)] by (rule unchanged_trans)
  have fail: "unchanged s1 t1" if "?put s1 = (Inl e, t1)" for s1 t1 e
    using that by (auto simp: db_call_Inl_iff split: if_splits)
  have good: "cat_rows t2 = map (cat_put_fields c) (cat_rows s1) \<and> cat_invalidations t2 = cat_invalidations s1 \<and>
      (\<forall>r \<in> set (cat_rows s1). cat_slug r = cat_slug c \<longrightarrow> cat_uuid r = cat_uuid c)"
    if "?put s1 = (Inr y, t1)" "cat_get (cat_uuid c) t1 = (z, t2)" for s1 t1 t2 y z
    using that(1) reads_unchanged_rows [OF reads_cat_get that(2)]
    by (auto simp: db_call_Inr_iff list_ex_iff split: if_splits)
  have same: "cat_rows s2 = cat_rows s \<and> cat_invalidations s2 = cat_invalidations s" if "unchanged s s2" for s2
    using that by (auto simp: unchanged_def)
  show ?thesis
  proof (cases r)
    case (Inl e)
    then consider "cat_ref cat_uuids (cat_parent c) ''parent_id'' s = (Inl e, t)"
      | x1 s1 where "cat_ref cat_uuids (cat_parent c) ''parent_id'' s = (Inr x1, s1)"
          "cat_ref cat_media (cat_image c) ''image_id'' s1 = (Inl e, t)"
      | x1 s1 x2 s2 where "cat_ref cat_uuids (cat_parent c) ''parent_id'' s = (Inr x1, s1)"
          "cat_ref cat_media (cat_image c) ''image_id'' s1 = (Inr x2, s2)" "?put s2 = (Inl e, t)"
      | x1 s1 x2 s2 y t1 where "cat_ref cat_uuids (cat_parent c) ''parent_id'' s = (Inr x1, s1)"
          "cat_ref cat_media (cat_image c) ''image_id'' s1 = (Inr x2, s2)" "?put s2 = (Inr y, t1)"
          "cat_get (cat_uuid c) t1 = (Inl e, t)"
      using assms unfolding cat_update_def by (auto simp: andthen_Inl_iff)
    then show ?thesis
    proof cases
      case 1
      then show ?thesis using readsD [OF reads_cat_ref] by blast
    next
      case 2
      then show ?thesis using readsD [OF reads_cat_ref] unchanged_trans by blast
    next
      case 3
      then show ?thesis using pre [OF 3(1,2)] fail [OF 3(3)] unchanged_trans by blast
    next
      case 4
      then show ?thesis using same [OF pre [OF 4(1,2)]] good [OF 4(3,4)] by simp
    qed
  next
    case (Inr x)
    then show ?thesis using cat_update_ok assms by blast
  qed
qed

lemma tree_view_put_fields:
  assumes "distinct (map cat_uuid rows)" "c \<in> set rows" "cat_uuid c' = cat_uuid c" "cat_parent c' = cat_parent c"
  shows "map tree_view (map (cat_put_fields c') rows) = map tree_view rows"
proof -
  have "tree_view (cat_put_fields c' r) = tree_view r" if "r \<in> set rows" for r
  proof (cases "cat_uuid r = cat_uuid c'")
    case True
    then have "r = c" using same_uuid [OF assms(1) that assms(2)] assms(3) by simp
    then show ?thesis using assms(3,4) by (simp add: tree_view_def cat_put_fields_def)
  qed (simp add: cat_put_fields_def)
  then show ?thesis by simp
qed

lemma put_fields_inv:
  assumes i: "cat_inv s" and c: "c \<in> set (cat_rows s)" "cat_uuid c' = cat_uuid c" "cat_parent c' = cat_parent c"
    and own: "\<forall>r \<in> set (cat_rows s). cat_slug r = cat_slug c' \<longrightarrow> cat_uuid r = cat_uuid c'"
    and t: "cat_rows t = map (cat_put_fields c') (cat_rows s)"
  shows "cat_inv t" "map tree_view (cat_rows t) = map tree_view (cat_rows s)"
proof -
  note d = forest_distinct [OF inv_parts(1) [OF i]]
  show m: "map tree_view (cat_rows t) = map tree_view (cat_rows s)"
    unfolding t by (rule tree_view_put_fields [OF d c])
  have v: "tree_view ` set (cat_rows s) = tree_view ` set (cat_rows t)"
    using arg_cong [OF m, of set] by simp
  have d': "distinct (map cat_uuid (cat_rows t))" unfolding t put_fields_uuids by (rule d)
  have "forest (cat_rows t)" using forest_cong [OF d' links_view [OF v] inv_parts(1) [OF i]] .
  moreover have "nested_set (cat_rows t)"
    using nested_set_view [OF v d d'] i by (simp add: cat_inv_def)
  moreover have "distinct (map cat_slug (cat_rows t))"
    unfolding t by (rule put_fields_slugs [OF d inv_parts(2) [OF i] own])
  ultimately show "cat_inv t" by (simp add: cat_inv_def)
qed

text \<open>The optional steps of \<open>Update\<close> before the write: they read, and keep the node's place.\<close>

definition same_place :: "category \<Rightarrow> category \<Rightarrow> bool" where
  "same_place c c' \<longleftrightarrow> cat_uuid c' = cat_uuid c \<and> cat_parent c' = cat_parent c"

lemma Update_runs:
  assumes "Update lo now u i s = (r, t)"
  obtains e where "r = Inl e" "unchanged s t"
  | s1 c c' where "unchanged s s1" "findByIDOptional (cat_rows s) u = Some c" "same_place c c'"
      "cat_written (cat_update c') s1 = (r, t)"
proof -
  define fin :: "category \<Rightarrow> category" where
    "fin = (\<lambda>c. let c1 = (case ui_desc i of None \<Rightarrow> c | Some d \<Rightarrow> c\<lparr>cat_desc := d\<rparr>);
          c2 = (if ui_image_provided i then c1\<lparr>cat_image := ui_image i\<rparr> else c1)
      in c2\<lparr>cat_updated := now\<rparr>)"
  have fin: "same_place c (fin c)" for c
    by (simp add: fin_def Let_def same_place_def split: option.split)
  show ?thesis
  proof (cases "ui_name i = None \<and> ui_slug i = None \<and> ui_desc i = None \<and> \<not> ui_image_provided i")
    case True
    then show ?thesis using assms that(1) by (auto simp: Update_def throw_def)
  next
    case False
    then have "andthen (cat_get u) (\<lambda>c.
      andthen (case ui_name i of None \<Rightarrow> ret c
               | Some raw \<Rightarrow> andthen (of_result (cat_validateName raw)) (\<lambda>n. ret (c\<lparr>cat_name := n\<rparr>))) (\<lambda>c.
      andthen (case ui_slug i of None \<Rightarrow> ret c
               | Some raw \<Rightarrow> andthen (cat_updatedSlug lo c raw) (\<lambda>g. ret (c\<lparr>cat_slug := g\<rparr>))) (\<lambda>c.
      cat_written (cat_update (fin c))))) s = (r, t)"
      using assms unfolding Update_def fin_def Let_def by (simp only: if_False)
    then show ?thesis
    proof (rule reads_thenE [OF _ reads_cat_get unchanged_refl], goal_cases)
      case (2 c s1)
      have c: "findByIDOptional (cat_rows s) u = Some c"
        using 2(1) by (auto simp: cat_get_def comp_iffs split: option.splits)
      show ?case
      proof (rule reads_thenE [OF 2(3) _ 2(2)], goal_cases)
        case 1
        show ?case by (intro reads_intros)
      next
        case n: (3 c1 s2)
        have p1: "same_place c c1" using n(1) by (auto simp: comp_iffs same_place_def split: option.splits)
        show ?case
        proof (rule reads_thenE [OF n(3) _ n(2)], goal_cases)
          case 1
          show ?case by (intro reads_intros)
        next
          case g: (3 c2 s3)
          have "same_place c1 c2" using g(1) by (auto simp: comp_iffs same_place_def split: option.splits)
          then have "same_place c (fin c2)" using p1 fin [of c2] by (simp add: same_place_def)
          then show ?case using that(2) [OF g(2) c _ g(3)] by blast
        qed (rule that(1))
      qed (rule that(1))
    qed (rule that(1))
  qed
qed

lemma find_mem: "findByIDOptional cats u = Some c \<Longrightarrow> c \<in> set cats \<and> cat_uuid c = u"
  by (induction cats) (auto split: if_splits)

lemma Update_inv:
  assumes i: "cat_inv s" and r: "Update lo now u i s = (r, t)"
  shows "cat_inv t" "map tree_view (cat_rows t) = map tree_view (cat_rows s)"
proof -
  have "cat_inv t \<and> map tree_view (cat_rows t) = map tree_view (cat_rows s)"
    using r
  proof (cases rule: Update_runs)
    case (1 e)
    then show ?thesis using i unchanged_cat_inv unchanged_rows by metis
  next
    case (2 s1 c c')
    have s1: "cat_rows s1 = cat_rows s" "cat_inv s1"
      using 2(1) i unchanged_cat_inv unchanged_rows by blast+
    obtain q t1 where t1: "cat_update c' s1 = (q, t1)" by (cases "cat_update c' s1")
    have same: "cat_rows t = cat_rows t1" "cat_inv t \<longleftrightarrow> cat_inv t1"
      using 2(4) t1 by (cases q; auto simp: cat_written_def andthen_def ret_def change_def)+
    note c = find_mem [OF 2(2), folded s1(1)]
    from cat_update_effect [OF t1] consider "unchanged s1 t1"
      | "cat_rows t1 = map (cat_put_fields c') (cat_rows s1)"
        "\<forall>r \<in> set (cat_rows s1). cat_slug r = cat_slug c' \<longrightarrow> cat_uuid r = cat_uuid c'" by blast
    then show ?thesis
    proof cases
      case 1
      then show ?thesis using s1 same unchanged_cat_inv unchanged_rows by metis
    next
      case w: 2
      show ?thesis using put_fields_inv [OF s1(2) conjunct1 [OF c] _ _ w(2,1)] 2(3) same s1(1)
        by (simp add: same_place_def)
    qed
  qed
  then show "cat_inv t" "map tree_view (cat_rows t) = map tree_view (cat_rows s)" by blast+
qed

section \<open>Every request returns\<close>

lemma returns_cat_list [returns_intros]: "returns cat_list"
  unfolding cat_list_def by (intro returns_intros)

lemma returns_cat_get [returns_intros]: "returns (cat_get u)"
  unfolding cat_get_def by (intro returns_db_call returnsI) (simp split: option.split)

lemma returns_cat_slug_taken [returns_intros]: "returns (cat_slug_taken g u)"
  unfolding cat_slug_taken_def by (intro returns_intros)

lemma returns_cat_counts [returns_intros]: "returns (cat_count_posts u)" "returns (cat_count_children u)"
  unfolding cat_count_posts_def cat_count_children_def by (intro returns_intros)+

lemma returns_cat_ref [returns_intros]: "returns (cat_ref known r field)"
  unfolding cat_ref_def by (intro returns_option returns_basic returns_db_call returnsI) simp

lemma returns_cat_create [returns_intros]: "returns (cat_create c)"
  unfolding cat_create_def by (intro returns_andthen returns_cat_ref returns_db_call returnsI) simp

lemma returns_cat_update [returns_intros]: "returns (cat_update c)"
  unfolding cat_update_def
  by (intro returns_andthen returns_cat_ref returns_cat_get returns_db_call returnsI) simp

lemma returns_cat_delete [returns_intros]: "returns (cat_delete u)"
  unfolding cat_delete_def by (intro returns_db_call returnsI) simp

lemma returns_cat_replace_bounds [returns_intros]: "returns (cat_replace_bounds cs)"
  by (induction cs) (auto intro!: returns_intros)

lemma returns_cat_lookup_or [returns_intros]: "returns (cat_lookup_or msg u)"
  using returns_cat_get [of u]
  by (auto simp: returns_def cat_lookup_or_def split: prod.splits sum.splits if_splits)

lemma returns_validation [returns_intros]:
  "returns (cat_validateParentAndBefore p b)" "returns (cat_validateCreateFields lo i)"
  "returns (cat_updatedSlug lo c raw)"
  unfolding cat_validateParentAndBefore_def cat_validateCreateFields_def cat_updatedSlug_def Let_def
  by (intro returns_intros)+

lemma rebuild_stuck: "cat_rebuild cats s = (Inl NoReturn, t) \<Longrightarrow> \<not> forest cats"
  using cat_rebuild_returns [of cats s] by auto

lemma rebuild_tx_returns:
  assumes "forest (cat_rows s)" shows "rebuild_tx s \<noteq> (Inl NoReturn, t)"
proof
  assume "rebuild_tx s = (Inl NoReturn, t)"
  then obtain cats s1 where a: "cat_list s = (Inr cats, s1)" "cat_rebuild cats s1 = (Inl NoReturn, t)"
    unfolding rebuild_tx_def andthen_Inl_iff
    using returnsD [OF returns_cat_list] returnsD [OF returns_cat_replace_bounds] by blast
  show False using rebuild_stuck [OF a(2)] cat_list_ok [OF a(1)] forest_sort [OF assms] by blast
qed

lemma delete_tx_returns:
  assumes f: "forest (cat_rows s)" and leaf: "\<And>v. \<not> child (cat_rows s) u v"
  shows "delete_tx u s \<noteq> (Inl NoReturn, t)"
proof
  assume "delete_tx u s = (Inl NoReturn, t)"
  then obtain y s1 where d: "cat_delete u s = (Inr y, s1)" "rebuild_tx s1 = (Inl NoReturn, t)"
    using returnsD [OF returns_cat_delete] unfolding delete_tx_def rebuild_tx_def
    by (subst (asm) andthen_Inl_iff) blast
  have "cat_rows s1 = filter (\<lambda>r. cat_uuid r \<noteq> u) (cat_rows s)"
    using d(1) unlink_leaf [OF leaf] by (auto simp: cat_delete_def comp_iffs split: if_splits)
  then have "forest (cat_rows s1)" using forest_remove [OF f leaf] by simp
  then show False using rebuild_tx_returns d(2) by blast
qed

lemma create_tx_returns:
  assumes f: "forest (cat_rows s)" shows "create_tx c b s \<noteq> (Inl NoReturn, t)"
proof
  assume "create_tx c b s = (Inl NoReturn, t)"
  then obtain cats s1 y s2 cats2 s3 where a: "cat_list s = (Inr cats, s1)" "cat_create c s1 = (Inr y, s2)"
    "applyBefore (cats @ [c]) (cat_uuid c) (cat_parent c) b = Inr cats2" "cat_rebuild cats2 s3 = (Inl NoReturn, t)"
    unfolding create_tx_def andthen_Inl_iff result_iffs
    using returnsD [OF returns_cat_list] returnsD [OF returns_cat_create] returnsD [OF returns_cat_replace_bounds] by blast
  have s1: "cats = sort_key cat_lft (cat_rows s)" "cat_rows s1 = cat_rows s"
    using cat_list_ok [OF a(1)] unchanged_rows by blast+
  from a(2) obtain n where "cat_uuid c \<notin> cat_uuid ` set (cat_rows s1)"
    "\<forall>q. cat_parent c = Some q \<longrightarrow> q \<in> cat_uuid ` set (cat_rows s1)" by (rule cat_create_ok)
  then show False
    using created_forest(5) [OF f _ _ a(3) [unfolded s1(1)]] rebuild_stuck [OF a(4)] by (simp add: s1(2))
qed

lemma move_tx_returns:
  assumes f: "forest (cat_rows s)" and pu: "p \<noteq> Some u" shows "move_tx now u p b s \<noteq> (Inl NoReturn, t)"
proof
  assume m: "move_tx now u p b s = (Inl NoReturn, t)"
  then obtain cats s1 where l: "cat_list s = (Inr cats, s1)"
    unfolding move_tx_def by (subst (asm) andthen_Inl_iff) (use returnsD [OF returns_cat_list] in blast)
  have s1: "cats = sort_key cat_lft (cat_rows s)" "cat_rows s1 = cat_rows s"
    using cat_list_ok [OF l] unchanged_rows by blast+
  have fc: "forest cats" unfolding s1(1) by (rule forest_sort [OF f])
  have below: "below_check cats u p s1 = (Inr (case p of None \<Rightarrow> False | Some q \<Rightarrow> isDescendant cats u q = Some True), s1)"
  proof (cases p)
    case (Some q)
    obtain b where "isDescendant cats u q = Some b" using isDescendant_total [OF fc] by blast
    then show ?thesis using Some by (simp add: below_check_def ret_def)
  qed (simp add: below_check_def ret_def)
  from m l obtain c where c: "findByIDOptional cats u = Some c"
    by (auto simp: move_tx_def andthen_Inl_iff result_iffs split: option.splits)
  let ?node = "c\<lparr>cat_parent := p, cat_updated := now\<rparr>"
  from m l c below have nb: "\<not> (case p of None \<Rightarrow> False | Some q \<Rightarrow> isDescendant cats u q = Some True)"
    by (auto simp: move_tx_def andthen_def throw_def split: if_splits)
  have "below_check cats u p s1 = (Inr False, s1)" using below nb by simp
  then have "andthen (of_result (applyBefore (replace cats ?node) u p b)) (\<lambda>cats2.
      andthen (cat_update ?node) (\<lambda>_. andthen (cat_rebuild cats2) (\<lambda>out.
      andthen (cat_replace_bounds out) (\<lambda>_. ret (findByID out u))))) s1 = (Inl NoReturn, t)"
    using m l c by (simp add: move_tx_def andthen_def [of cat_list] andthen_def [of "below_check cats u p"])
  then obtain cats2 y s2 s3 where a: "applyBefore (replace cats ?node) u p b = Inr cats2"
    "cat_update ?node s1 = (Inr y, s2)" "cat_rebuild cats2 s3 = (Inl NoReturn, t)"
    using returnsD [OF returns_cat_update] returnsD [OF returns_cat_replace_bounds]
    unfolding andthen_Inl_iff result_iffs by blast
  have par: "\<forall>q. p = Some q \<longrightarrow> q \<in> cat_uuid ` set cats \<and> q \<noteq> u \<and> isDescendant cats u q = Some False"
    using cat_update_ok(5) [OF a(2)] pu nb isDescendant_not [OF fc, of u] s1
    by (auto split: option.splits)
  show False using moved_forest(5) [OF fc c _ _ par a(1)] rebuild_stuck [OF a(3)] by simp
qed

section \<open>The service under a sequence of requests\<close>

datatype cat_request =
    CreateReq "nat \<Rightarrow> nat" instant uuid cat_create_input
  | UpdateReq "nat \<Rightarrow> nat" instant uuid cat_update_input
  | DeleteReq uuid
  | MoveReq instant uuid "uuid option" "uuid option"
  | RebuildReq

fun cat_run :: "cat_request \<Rightarrow> unit cat_comp" where
  "cat_run (CreateReq lo now u i) = drop_result (Create lo now u i)"
| "cat_run (UpdateReq lo now u i) = drop_result (Update lo now u i)"
| "cat_run (DeleteReq u) = Delete u"
| "cat_run (MoveReq now u p b) = drop_result (Move now u p b)"
| "cat_run RebuildReq = RebuildAll"

lemma atomic_inv:
  assumes "atomic m" "cat_inv s" "m s = (r, t)" "\<And>x. r = Inr x \<Longrightarrow> cat_inv t"
  shows "cat_inv t"
  using assms unchanged_cat_inv [OF atomicD] by (cases r) blast+

lemma snd_inv:
  assumes "atomic m" "cat_inv s" "\<And>x t. m s = (Inr x, t) \<Longrightarrow> cat_inv t"
  shows "cat_inv (snd (m s))"
  using atomic_inv [OF assms(1,2)] assms(3) by (cases "m s") auto

lemma cat_run_inv:
  assumes "cat_inv s" shows "cat_inv (snd (cat_run x s))"
proof (cases x)
  case (CreateReq lo now u i)
  show ?thesis using snd_inv [OF atomic_Create assms Create_inv(1) [OF assms]]
    by (simp add: CreateReq drop_result_state)
next
  case (UpdateReq lo now u i)
  show ?thesis using Update_inv(1) [OF assms surjective_pairing] by (simp add: UpdateReq drop_result_state)
next
  case (DeleteReq u)
  show ?thesis using snd_inv [OF atomic_Delete assms Delete_inv(1) [OF assms]] by (simp add: DeleteReq)
next
  case (MoveReq now u p b)
  show ?thesis using snd_inv [OF atomic_Move assms Move_inv(1) [OF assms]]
    by (simp add: MoveReq drop_result_state)
next
  case RebuildReq
  have "cat_inv t" if "RebuildAll s = (Inr y, t)" for y t
    using RebuildAll_inv [OF inv_parts(1) [OF assms] that] inv_parts(2) [OF assms] by (simp add: cat_inv_def)
  then show ?thesis using snd_inv [OF atomic_RebuildAll assms] by (simp add: RebuildReq)
qed

interpretation categories: invariant_service cat_run cat_inv
  by unfold_locales (rule cat_run_inv)

text \<open>The requests that change the tree, without \<open>Update\<close>, are atomic.\<close>

datatype cat_tree_request =
    CreateTree "nat \<Rightarrow> nat" instant uuid cat_create_input
  | DeleteTree uuid
  | MoveTree instant uuid "uuid option" "uuid option"
  | RebuildTree

fun tree_request :: "cat_tree_request \<Rightarrow> cat_request" where
  "tree_request (CreateTree lo now u i) = CreateReq lo now u i"
| "tree_request (DeleteTree u) = DeleteReq u"
| "tree_request (MoveTree now u p b) = MoveReq now u p b"
| "tree_request RebuildTree = RebuildReq"

definition cat_run_tree :: "cat_tree_request \<Rightarrow> unit cat_comp" where
  "cat_run_tree x = cat_run (tree_request x)"

definition cat_tables :: "cat_store \<Rightarrow> category list \<times> uuid option list \<times> uuid list \<times> nat" where
  "cat_tables s = (cat_rows s, cat_post_refs s, cat_media s, cat_invalidations s)"

lemma unchanged_tables: "unchanged s t \<Longrightarrow> cat_tables t = cat_tables s"
  by (auto simp: unchanged_def cat_tables_def)

lemma atomic_cat_run_tree: "atomic (cat_run_tree x)"
  unfolding cat_run_tree_def
  by (cases x) (simp_all add: atomic_drop atomic_Create atomic_Delete atomic_Move atomic_RebuildAll)

interpretation cat_tree: atomic_service cat_run_tree cat_inv cat_tables
proof
  show "cat_inv (snd (cat_run_tree x s))" if "cat_inv s" for s x
    using categories.step_inv [OF that] by (simp add: cat_run_tree_def)
  show "cat_tables (snd (cat_run_tree x s)) = cat_tables s" if "fst (cat_run_tree x s) = Inl e" for x s e
    using atomicD [OF atomic_cat_run_tree, of x s e] that unchanged_tables
    by (metis prod.collapse)
qed

lemma returns_cat_written [returns_intros]: "returns m \<Longrightarrow> returns (cat_written m)"
  unfolding cat_written_def by (intro returns_intros)

lemma cat_written_returns: "(\<And>u. m s \<noteq> (Inl NoReturn, u)) \<Longrightarrow> cat_written m s \<noteq> (Inl NoReturn, t)"
  by (simp add: cat_written_fails)

lemma within_tx_returns: "(\<And>u. m s \<noteq> (Inl NoReturn, u)) \<Longrightarrow> within_tx m s \<noteq> (Inl NoReturn, t)"
  by (simp add: within_tx_Inl_iff)

lemma Create_returns:
  assumes f: "forest (cat_rows s)" shows "Create lo now u i s \<noteq> (Inl NoReturn, t)"
proof
  assume "Create lo now u i s = (Inl NoReturn, t)"
  then obtain x1 s1 y s2 c where a: "cat_validateCreateFields lo i s = (Inr x1, s1)"
    "cat_validateParentAndBefore (ci_parent i) (ci_before i) s1 = (Inr y, s2)"
    "cat_written (within_tx (create_tx c (ci_before i))) s2 = (Inl NoReturn, t)"
    unfolding Create_def andthen_Inl_iff
    using returnsD [OF returns_validation(1)] returnsD [OF returns_validation(2)]
    by (auto simp: andthen_Inl_iff)
  have "forest (cat_rows s2)" using f reads_unchanged_rows(1) [OF reads_cat_validateCreateFields a(1)]
      reads_unchanged_rows(1) [OF reads_cat_validateParentAndBefore a(2)] by simp
  then show False using a(3) cat_written_returns within_tx_returns create_tx_returns by blast
qed

lemma Move_returns:
  assumes f: "forest (cat_rows s)" shows "Move now u p b s \<noteq> (Inl NoReturn, t)"
proof
  assume "Move now u p b s = (Inl NoReturn, t)"
  then obtain y s2 where a: "p \<noteq> Some u" "cat_validateParentAndBefore p b s = (Inr y, s2)"
    "cat_written (within_tx (move_tx now u p b)) s2 = (Inl NoReturn, t)"
    using returnsD [OF returns_validation(1)]
    by (auto simp: Move_def andthen_Inl_iff result_iffs split: if_splits)
  have "forest (cat_rows s2)" using f reads_unchanged_rows(1) [OF reads_cat_validateParentAndBefore a(2)] by simp
  then show False using a(1,3) cat_written_returns within_tx_returns move_tx_returns by blast
qed

lemma Delete_returns:
  assumes f: "forest (cat_rows s)" shows "Delete u s \<noteq> (Inl NoReturn, t)"
proof
  assume "Delete u s = (Inl NoReturn, t)"
  then obtain s1 s2 m where a: "cat_count_children u s = (Inr 0, s1)" "cat_count_posts u s1 = (Inr m, s2)"
    "cat_written (within_tx (delete_tx u)) s2 = (Inl NoReturn, t)"
    using returnsD [OF returns_cat_counts(1)] returnsD [OF returns_cat_counts(2)]
    by (auto simp: Delete_def andthen_Inl_iff result_iffs split: if_splits)
  have s2: "cat_rows s2 = cat_rows s"
    using reads_unchanged_rows(1) [OF reads_cat_count_children a(1)] reads_unchanged_rows(1) [OF reads_cat_count_posts a(2)] by simp
  have "filter (\<lambda>c. cat_parent c = Some u) (cat_rows s) = []"
    using a(1) by (auto simp: cat_count_children_def comp_iffs)
  then have "\<not> child (cat_rows s2) u v" for v by (auto simp: child_def filter_empty_conv s2)
  then show False using a(3) f cat_written_returns within_tx_returns delete_tx_returns by (metis s2)
qed

lemma Update_returns: "returns (Update lo now u i)"
  unfolding Update_def Let_def by (intro returns_intros)

lemma drop_result_stuck: "fst (drop_result m s) = Inl NoReturn \<Longrightarrow> \<exists>t. m s = (Inl NoReturn, t)"
  by (cases "m s"; cases "fst (m s)") (auto simp: drop_result_def andthen_def ret_def)

lemma fst_stuck: "fst (m s) = Inl NoReturn \<Longrightarrow> \<exists>t. m s = (Inl NoReturn, t)"
  by (cases "m s") auto

lemma RebuildAll_returns: "forest (cat_rows s) \<Longrightarrow> RebuildAll s \<noteq> (Inl NoReturn, t)"
  unfolding RebuildAll_def by (intro cat_written_returns within_tx_returns rebuild_tx_returns)

lemma cat_run_returns:
  assumes f: "forest (cat_rows s)" shows "fst (cat_run x s) \<noteq> Inl NoReturn"
proof (cases x)
  case (CreateReq lo now u i)
  then show ?thesis using drop_result_stuck Create_returns [OF f] by fastforce
next
  case (UpdateReq lo now u i)
  then show ?thesis using drop_result_stuck Update_returns unfolding returns_def by fastforce
next
  case (DeleteReq u)
  then show ?thesis using fst_stuck Delete_returns [OF f] by fastforce
next
  case (MoveReq now u p b)
  then show ?thesis using drop_result_stuck Move_returns [OF f] by fastforce
next
  case RebuildReq
  then show ?thesis using fst_stuck RebuildAll_returns [OF f] by fastforce
qed

end
