(* ===== verification/Category_Properties.thy ===== *)
theory Category_Properties
  imports Category_Requests
begin

text \<open>
  The properties of the category component, each with a run of the service on a small store as its
  witness.
\<close>

section \<open>A small store\<close>

definition demo_store :: cat_store where
  "demo_store = \<lparr>calls = 0, fails = (\<lambda>_. False), cat_rows = [], cat_post_refs = [],
     cat_media = [], cat_invalidations = 0\<rparr>"

definition demo_input :: "string \<Rightarrow> uuid option \<Rightarrow> uuid option \<Rightarrow> cat_create_input" where
  "demo_input name p b = \<lparr>ci_name = name, ci_slug = [], ci_desc = None, ci_parent = p,
     ci_image = None, ci_before = b\<rparr>"

definition demo_go :: category where
  "demo_go = zero_category\<lparr>cat_uuid := 1, cat_name := ''Go'', cat_slug := ''go'', cat_lft := 1,
     cat_rgt := 2, cat_created := 10, cat_updated := 10\<rparr>"

definition demo_web :: category where
  "demo_web = zero_category\<lparr>cat_uuid := 2, cat_name := ''Web'', cat_slug := ''web'', cat_lft := 3,
     cat_rgt := 4, cat_sort := 1, cat_created := 11, cat_updated := 11\<rparr>"

definition demo_one :: cat_store where
  "demo_one = demo_store\<lparr>calls := 4, cat_rows := [demo_go], cat_invalidations := 1\<rparr>"

definition demo_two :: cat_store where
  "demo_two = demo_store\<lparr>cat_rows := [demo_go, demo_web]\<rparr>"

lemmas demo_defs = demo_store_def demo_input_def demo_go_def demo_web_def demo_one_def demo_two_def

lemma demo_store_inv: "cat_inv demo_store"
  by (simp add: cat_inv_def demo_store_def forest_def nested_set_def ends_of_def)

lemma demo_go_name: "cat_validateName ''Go'' = Inr ''Go''" "slugify id ''Go'' = ''go''"
  by (simp_all add: cat_validateName_def slug_eval)

lemma demo_web_name: "cat_validateName ''Web'' = Inr ''Web''" "slugify id ''Web'' = ''web''"
  by (simp_all add: cat_validateName_def slug_eval)

lemma demo_create: "Create id 10 1 (demo_input ''Go'' None None) demo_store = (Inr demo_go, demo_one)"
  by (simp add: cat_eval demo_defs demo_go_name)

lemma demo_create2:
  "\<exists>c t. Create id 11 2 (demo_input ''Web'' None None) demo_one = (Inr c, t) \<and> cat_rows t = cat_rows demo_two"
  by (simp add: cat_eval demo_defs demo_web_name)

lemma demo_two_inv: "cat_inv demo_two"
proof -
  obtain c t where t: "Create id 11 2 (demo_input ''Web'' None None) demo_one = (Inr c, t)"
    "cat_rows t = cat_rows demo_two" using demo_create2 by blast
  have "cat_inv t" by (rule Create_inv(1) [OF Create_inv(1) [OF demo_store_inv demo_create] t(1)])
  then show ?thesis using t(2) by (simp add: cat_inv_def)
qed

definition demo_requests :: "cat_request list" where
  "demo_requests =
     [CreateReq id 10 1 (demo_input ''Go'' None None), CreateReq id 11 2 (demo_input ''Web'' None (Some 1)),
      MoveReq 12 1 (Some 2) None, MoveReq 13 2 (Some 1) None, RebuildReq, DeleteReq 2]"

section \<open>Properties\<close>

text \<open>
  C1. Whatever sequence of Create, Update, Delete, Move and RebuildAll requests the category service
  gets, and whichever storage calls fail on the way, its table stays a forest of parent links that
  carries the nested set of that forest (bounds 1 to 2n, each used once, an interval inside another
  one exactly for a descendant, depths those of the tree) with slugs unique; and the next request
  always returns.
\<close>

theorem cat_requests_keep_tree:
  assumes "cat_inv s"
  shows "cat_inv (run_all cat_run ops s) \<and> fst (cat_run x (run_all cat_run ops s)) \<noteq> Inl NoReturn"
  using categories.runs_inv [OF assms] cat_run_returns [OF inv_parts(1)] by blast

theorem cat_requests_keep_tree_witness:
  "cat_inv demo_store \<and> cat_inv (run_all cat_run demo_requests demo_store)"
  using demo_store_inv cat_requests_keep_tree [OF demo_store_inv] by blast

text \<open>
  C2. A Create that succeeds adds exactly the new node under the requested parent, right before the
  sibling named by before_id or else last, with all other siblings in their order; the table is a
  forest with its nested set again, and the cached category reads are invalidated once.
\<close>

theorem Create_places_category:
  assumes "cat_inv s" and "Create lo now new_id i s = (Inr c, t)"
  shows "cat_inv t \<and> links (cat_rows t) = insert (new_id, ci_parent i) (links (cat_rows s)) \<and>
    placed (group (cat_rows s) (ci_parent i)) new_id (ci_before i) (group (cat_rows t) (ci_parent i)) \<and>
    cat_invalidations t = Suc (cat_invalidations s)"
  using Create_inv [OF assms] by blast

theorem Create_places_category_witness:
  "Create id 10 1 (demo_input ''Go'' None None) demo_store = (Inr demo_go, demo_one) \<and>
   cat_inv demo_one \<and> links (cat_rows demo_one) = {(1, None)}"
  using Create_places_category [OF demo_store_inv demo_create] demo_create
  by (simp add: demo_defs)

text \<open>
  C3. A Move that succeeds changes the parent link of the moved node and no other, puts it right
  before the sibling named by before_id or else last among the children of its new parent, whose
  order is otherwise kept, and leaves a forest with its nested set: in particular it never makes a
  cycle. The cached category reads are invalidated once.
\<close>

theorem Move_relinks_category:
  assumes "cat_inv s" and "Move now u p b s = (Inr c, t)"
  shows "cat_inv t \<and> links (cat_rows t) = insert (u, p) {l \<in> links (cat_rows s). fst l \<noteq> u} \<and>
    placed (filter (\<lambda>v. v \<noteq> u) (group (cat_rows s) p)) u b (group (cat_rows t) p) \<and>
    cat_invalidations t = Suc (cat_invalidations s)"
  using Move_inv [OF assms] by blast

lemma demo_move: "\<exists>c t. Move 12 2 (Some 1) None demo_two = (Inr c, t) \<and> cat_lft c = 2 \<and> cat_rgt c = 3"
  by (simp add: cat_eval demo_defs)

theorem Move_relinks_category_witness:
  "\<exists>c t. Move 12 2 (Some 1) None demo_two = (Inr c, t) \<and> cat_inv t \<and>
     links (cat_rows t) = {(1, None), (2, Some 1)}"
proof -
  obtain c t where t: "Move 12 2 (Some 1) None demo_two = (Inr c, t)" using demo_move by blast
  have l: "links (cat_rows demo_two) = {(1, None), (2, None)}" by (simp add: demo_defs zero_category_def)
  have "{l \<in> links (cat_rows demo_two). fst l \<noteq> 2} = {(1, None)}" unfolding l by auto
  then have "links (cat_rows t) = {(1, None), (2, Some 1)}" "cat_inv t"
    using Move_relinks_category [OF demo_two_inv t] by (simp_all add: insert_commute)
  then show ?thesis using t by blast
qed

text \<open>
  Delete succeeds only on an existing category with no children and no posts; it then removes
  that node and nothing else, no post loses its category, and the nested set is rebuilt.
\<close>

theorem Delete_removes_leaf:
  assumes "cat_inv s" and "Delete u s = (Inr x, t)"
  shows "cat_inv t \<and> u \<in> cat_uuid ` set (cat_rows s) \<and> (\<nexists>v. child (cat_rows s) u v) \<and>
    Some u \<notin> set (cat_post_refs s) \<and> links (cat_rows t) = {l \<in> links (cat_rows s). fst l \<noteq> u} \<and>
    cat_post_refs t = cat_post_refs s \<and> cat_invalidations t = Suc (cat_invalidations s)"
  using Delete_inv [OF assms] by blast

lemma demo_delete: "\<exists>t. Delete 1 demo_two = (Inr (), t)"
  by (simp add: cat_eval demo_defs)

theorem Delete_removes_leaf_witness:
  "\<exists>t. Delete 1 demo_two = (Inr (), t) \<and> cat_inv t \<and> cat_invalidations t = 1"
proof -
  obtain t where t: "Delete 1 demo_two = (Inr (), t)" using demo_delete by blast
  then show ?thesis using Delete_removes_leaf [OF demo_two_inv t] by (auto simp: demo_defs)
qed

text \<open>
  C4. RebuildAll repairs the bounds: from any forest, whatever numbers its rows carry, a run that
  succeeds leaves the nested set of that forest, with every parent link, sibling order and slug kept;
  and a run fails only by a failed storage call.
\<close>

theorem RebuildAll_restores_bounds:
  assumes "forest (cat_rows s)"
  shows "\<exists>r t. RebuildAll s = (r, t) \<and> r \<in> {Inl StoreFail, Inr ()} \<and>
    (r = Inr () \<longrightarrow> nested_set (cat_rows t) \<and> links (cat_rows t) = links (cat_rows s) \<and>
      (\<forall>p. group (cat_rows t) p = group (cat_rows s) p) \<and>
      map cat_slug (cat_rows t) = map cat_slug (cat_rows s))"
proof -
  obtain r t where r: "RebuildAll s = (r, t)" by (cases "RebuildAll s")
  have "cat_replace_bounds cs u \<noteq> (Inl (Err e), v)" for cs u e v
    by (induction cs arbitrary: u) (auto simp: comp_iffs split: if_splits)
  then have "r \<noteq> Inl (Err e)" for e
    using r by (auto simp: RebuildAll_def cat_written_fails rebuild_tx_def cat_list_def cat_rebuild_def
        comp_iffs split: if_splits option.splits)
  moreover have "r \<noteq> Inl NoReturn" using RebuildAll_returns [OF assms] r by blast
  ultimately have "r \<in> {Inl StoreFail, Inr ()}" by (cases r) (auto, metis failure.exhaust)
  then show ?thesis using r RebuildAll_inv [OF assms] by blast
qed

theorem RebuildAll_restores_bounds_witness:
  "nested_set (cat_rows (snd (RebuildAll (demo_store\<lparr>cat_rows := [demo_go\<lparr>cat_lft := 7, cat_rgt := 3\<rparr>]\<rparr>))))"
proof -
  let ?s = "demo_store\<lparr>cat_rows := [demo_go\<lparr>cat_lft := 7, cat_rgt := 3\<rparr>]\<rparr>"
  have f: "forest (cat_rows ?s)" by (simp add: forest_def demo_defs zero_category_def)
  have "fst (RebuildAll ?s) = Inr ()" by (simp add: cat_eval demo_defs)
  then show ?thesis using RebuildAll_restores_bounds [OF f] by (metis fst_conv snd_conv)
qed

text \<open>
  Create, Delete, Move and RebuildAll are atomic: a request that fails, by its own checks or by
  any storage call, leaves the categories, the posts' categories and the cache generation as they
  were; over a sequence of such requests a change is always the work of one that succeeded.
\<close>

theorem failed_tree_request_changes_nothing:
  assumes "fst (cat_run_tree x s) = Inl e"
  shows "cat_tables (snd (cat_run_tree x s)) = cat_tables s"
  using assms by (rule cat_tree.step_atomic)

lemma demo_fails: "fst (cat_run_tree RebuildTree (demo_two\<lparr>fails := (\<lambda>n. n = 2)\<rparr>)) = Inl StoreFail"
  by (simp add: cat_run_tree_def cat_eval demo_defs)

theorem failed_tree_request_witness:
  "cat_tables (snd (cat_run_tree RebuildTree (demo_two\<lparr>fails := (\<lambda>n. n = 2)\<rparr>))) =
   cat_tables (demo_two\<lparr>fails := (\<lambda>n. n = 2)\<rparr>)"
  by (rule failed_tree_request_changes_nothing [OF demo_fails])

text \<open>
  Update is not atomic: the repository writes the row and then reads it again outside a
  transaction, so a failed second read makes Update report a failure although the row was changed,
  and the cached category reads are not invalidated.
\<close>

theorem failed_Update_may_change_row:
  "\<exists>s t i. cat_inv s \<and> Update id 20 1 i s = (Inl StoreFail, t) \<and>
     cat_rows t \<noteq> cat_rows s \<and> cat_invalidations t = cat_invalidations s"
proof -
  let ?s = "demo_two\<lparr>fails := (\<lambda>n. n = 2)\<rparr>"
  let ?i = "\<lparr>ui_name = Some ''Web'', ui_slug = None, ui_desc = None, ui_image = None, ui_image_provided = False\<rparr>"
  have "cat_inv ?s" using demo_two_inv by (simp add: cat_inv_def)
  moreover have "\<exists>t. Update id 20 1 ?i ?s = (Inl StoreFail, t) \<and> cat_rows t \<noteq> cat_rows ?s \<and>
      cat_invalidations t = cat_invalidations ?s"
    by (simp add: cat_eval demo_defs demo_web_name)
  ultimately show ?thesis by blast
qed

text \<open>
  Update never moves a category: whether it succeeds or fails, every row keeps its UUID, parent,
  bounds, depth and sort order, and the invariant is kept.
\<close>

theorem Update_keeps_tree:
  assumes "cat_inv s"
  shows "cat_inv (snd (Update lo now u i s)) \<and>
    map tree_view (cat_rows (snd (Update lo now u i s))) = map tree_view (cat_rows s)"
  using Update_inv [OF assms surjective_pairing] by blast

theorem Update_keeps_tree_witness:
  "map tree_view (cat_rows (snd (Update id 20 1 \<lparr>ui_name = Some ''Web'', ui_slug = None, ui_desc = None,
     ui_image = None, ui_image_provided = False\<rparr> demo_two))) = [(1, None, 1, 2, 0, 0), (2, None, 3, 4, 0, 1)]"
  using Update_keeps_tree [OF demo_two_inv] by (simp add: demo_defs tree_view_def zero_category_def)

end
