(* ===== verification/Decimal.thy ===== *)
theory Decimal
  imports Prelude
begin

text \<open>
  Decimal text of Go integers: \<^verbatim>\<open>strconv.FormatInt\<close> and the \<^verbatim>\<open>%d\<close> verb, and the reading back by
  \<^verbatim>\<open>strconv.ParseInt\<close> with its 64-bit range check.
\<close>

definition digit :: "nat \<Rightarrow> char" where
  "digit d = char_of (48 + d :: nat)"

definition is_digit :: "char \<Rightarrow> bool" where
  "is_digit c \<longleftrightarrow> 48 \<le> (of_char c :: nat) \<and> (of_char c :: nat) \<le> 57"

definition digit_value :: "char \<Rightarrow> nat" where
  "digit_value c = of_char c - 48"

fun format_nat :: "nat \<Rightarrow> string" where
  "format_nat n = (if n < 10 then [digit n] else format_nat (n div 10) @ [digit (n mod 10)])"

definition format_int :: "int \<Rightarrow> string" where
  "format_int x = (if x < 0 then CHR ''-'' # format_nat (nat (- x)) else format_nat (nat x))"

definition parse_nat :: "string \<Rightarrow> nat option" where
  "parse_nat t = (if t = [] \<or> \<not> list_all is_digit t then None
                  else Some (foldl (\<lambda>n c. 10 * n + digit_value c) 0 t))"

definition parse_int :: "string \<Rightarrow> int option" where
  "parse_int t =
     (let r = (case t of
          [] \<Rightarrow> None
        | c # u \<Rightarrow> if c = CHR ''-'' then map_option (\<lambda>n. - int n) (parse_nat u)
                   else if c = CHR ''+'' then map_option int (parse_nat u)
                   else map_option int (parse_nat t))
      in case r of None \<Rightarrow> None | Some x \<Rightarrow> if - (2 ^ 63) \<le> x \<and> x < 2 ^ 63 then Some x else None)"

declare format_nat.simps [simp del]

lemma digit_of: "d < 10 \<Longrightarrow> is_digit (digit d) \<and> digit_value (digit d) = d"
  by (simp add: is_digit_def digit_def digit_value_def)

lemma format_nat_digits: "list_all is_digit (format_nat n) \<and> format_nat n \<noteq> []"
proof (induction n rule: format_nat.induct)
  case (1 n)
  then show ?case by (subst (1 2) format_nat.simps) (auto simp: digit_of)
qed

lemma format_nat_value: "foldl (\<lambda>n c. 10 * n + digit_value c) 0 (format_nat n) = n"
proof (induction n rule: format_nat.induct)
  case (1 n)
  then show ?case by (subst format_nat.simps) (auto simp: digit_of)
qed

lemma parse_format_nat [simp]: "parse_nat (format_nat n) = Some n"
  using format_nat_digits format_nat_value by (simp add: parse_nat_def)

lemma digit_not [simp]: "\<not> is_digit CHR ''-''" "\<not> is_digit CHR ''+''" "\<not> is_digit CHR '':''" "\<not> is_digit CHR ''e''"
  by (simp_all add: is_digit_def)

lemma format_nat_head:
  obtains c u where "format_nat n = c # u" "is_digit c"
  using format_nat_digits [of n] by (cases "format_nat n") auto

lemma parse_format: "parse_int (format_int x) = (if - (2 ^ 63) \<le> x \<and> x < 2 ^ 63 then Some x else None)"
proof (cases "x < 0")
  case False
  obtain c u where c: "format_nat (nat x) = c # u" "is_digit c" by (rule format_nat_head)
  then have "c \<noteq> CHR ''-''" "c \<noteq> CHR ''+''" by auto
  moreover have "parse_nat (c # u) = Some (nat x)" using parse_format_nat [of "nat x"] c by simp
  ultimately show ?thesis using False c by (simp add: parse_int_def format_int_def)
qed (simp add: parse_int_def format_int_def)

lemma parse_format_Some: "parse_int (format_int x) = Some y \<Longrightarrow> y = x"
  by (simp add: parse_format split: if_splits)

lemma format_nat_inj: "format_nat m = format_nat n \<Longrightarrow> m = n"
  by (metis format_nat_value)

lemma format_int_inj: "format_int x = format_int y \<Longrightarrow> x = y"
proof -
  assume e: "format_int x = format_int y"
  obtain c u where c: "format_nat (nat x) = c # u" "is_digit c" by (rule format_nat_head)
  obtain d v where d: "format_nat (nat y) = d # v" "is_digit d" by (rule format_nat_head)
  have "c \<noteq> CHR ''-''" "d \<noteq> CHR ''-''" using c d by auto
  then show ?thesis using e c d format_nat_inj [of "nat x" "nat y"] format_nat_inj [of "nat (- x)" "nat (- y)"]
    by (auto simp: format_int_def split: if_splits)
qed

lemma format_int_chars: "c \<in> set (format_int x) \<Longrightarrow> is_digit c \<or> c = CHR ''-''"
  using format_nat_digits by (auto simp: format_int_def list_all_iff split: if_splits)

lemma format_int_colon: "CHR '':'' \<notin> set (format_int x)"
  using format_int_chars [of "CHR '':''" x] by auto

lemma format_int_no_e: "CHR ''e'' \<notin> set (format_int x)"
  using format_int_chars [of "CHR ''e''" x] by auto

lemma format_int_ne: "format_int x \<noteq> []"
  using format_nat_digits by (simp add: format_int_def)

end
