(* ===== verification/Read_Cache.thy ===== *)
theory Read_Cache
  imports Slug Decimal
begin

text \<open>
  The read cache port (\<^verbatim>\<open>internal/core/readcache/readcache.go\<close>) and the keys of its Redis
  implementation (\<^verbatim>\<open>internal/adapters/outbound/cache/redis.go\<close>): the families of cached reads that
  writes invalidate, the keys of queries, and the keys of generations and entries, which are shown
  unambiguous.
\<close>

datatype family = Posts | Categories | Tags | Users | Settings

definition Families :: "family list" where
  "Families = [Posts, Categories, Tags, Users, Settings]"

section \<open>Keys\<close>

text \<open>\<open>Key\<close> on names and already printed values; empty and nil values render as a dash.\<close>

definition key_value :: "string \<Rightarrow> string" where
  "key_value v = (if v = [] \<or> v = ''<nil>'' then ''-'' else v)"

primrec key_pairs :: "(string \<times> string) list \<Rightarrow> string" where
  "key_pairs [] = []"
| "key_pairs (p # ps) = '':'' @ fst p @ ''='' @ key_value (snd p) @ key_pairs ps"

definition Key :: "string \<Rightarrow> (string \<times> string) list \<Rightarrow> string" where
  "Key name pairs = name @ key_pairs pairs"

text \<open>What \<^verbatim>\<open>fmt.Sprint\<close> prints for an optional UUID; \<open>us\<close> is the text of a UUID.\<close>

definition sprint_uuid :: "(uuid \<Rightarrow> string) \<Rightarrow> uuid option \<Rightarrow> string" where
  "sprint_uuid us r = (case r of None \<Rightarrow> ''<nil>'' | Some u \<Rightarrow> us u)"

definition list_key :: "(uuid \<Rightarrow> string) \<Rightarrow> int \<Rightarrow> int \<Rightarrow> uuid option \<Rightarrow> uuid option \<Rightarrow> string" where
  "list_key us page perPage category tg =
     Key ''list'' [(''page'', format_int page), (''per_page'', format_int perPage),
       (''category'', sprint_uuid us category), (''tag'', sprint_uuid us tg)]"

definition search_key :: "(uuid \<Rightarrow> string) \<Rightarrow> string \<Rightarrow> int \<Rightarrow> int \<Rightarrow> uuid option \<Rightarrow> uuid option \<Rightarrow> string" where
  "search_key us q page perPage category tg =
     Key ''search'' [(''q'', q), (''page'', format_int page), (''per_page'', format_int perPage),
       (''category'', sprint_uuid us category), (''tag'', sprint_uuid us tg)]"

definition family_name :: "family \<Rightarrow> string" where
  "family_name f = (case f of Posts \<Rightarrow> ''posts'' | Categories \<Rightarrow> ''categories'' | Tags \<Rightarrow> ''tags''
                    | Users \<Rightarrow> ''users'' | Settings \<Rightarrow> ''settings'')"

definition keyPrefix :: string where "keyPrefix = ''cache:public''"

definition SchemaVersion :: int where "SchemaVersion = 1"

definition generationKey :: "family \<Rightarrow> string" where
  "generationKey f = keyPrefix @ '':v'' @ format_int SchemaVersion @ '':'' @ family_name f @ '':gen''"

definition entryKey :: "family \<Rightarrow> int \<Rightarrow> string \<Rightarrow> string" where
  "entryKey f g k =
     keyPrefix @ '':v'' @ format_int SchemaVersion @ '':'' @ family_name f @ '':g'' @ format_int g @ '':'' @ k"

section \<open>Keys are unambiguous\<close>

lemma split_colon:
  assumes "a @ c # x = b @ c # y" "c \<notin> set a" "c \<notin> set b"
  shows "a = b \<and> x = y"
  using assms by (induction a arbitrary: b) (case_tac b; auto)+

lemma split_last_colon:
  assumes "x @ c # a = y @ c # b" "c \<notin> set a" "c \<notin> set b"
  shows "a = b \<and> x = y"
proof -
  have "rev a @ c # rev x = rev b @ c # rev y" using arg_cong [OF assms(1), of rev] by simp
  from split_colon [OF this] assms(2,3) show ?thesis by simp
qed

lemma family_name_colon: "CHR '':'' \<notin> set (family_name f)"
  by (cases f) (simp_all add: family_name_def)

lemma family_name_inj: "family_name f = family_name g \<Longrightarrow> f = g"
  by (cases f; cases g) (simp_all add: family_name_def)

lemma generationKey_inj: "generationKey f = generationKey g \<Longrightarrow> f = g"
  using family_name_inj by (simp add: generationKey_def)

lemma entryKey_inj:
  assumes "entryKey f g k = entryKey f' g' k'"
  shows "f = f' \<and> g = g' \<and> k = k'"
proof -
  have "family_name f @ CHR '':'' # (''g'' @ format_int g @ '':'' @ k) = family_name f' @ CHR '':'' # (''g'' @ format_int g' @ '':'' @ k')"
    using assms by (simp add: entryKey_def)
  from split_colon [OF this family_name_colon family_name_colon]
  have f: "f = f'" and r: "format_int g @ CHR '':'' # k = format_int g' @ CHR '':'' # k'"
    using family_name_inj by auto
  from split_colon [OF r format_int_colon format_int_colon] f show ?thesis using format_int_inj by auto
qed

lemma generation_not_entry: "generationKey f \<noteq> entryKey f' g k"
proof
  assume "generationKey f = entryKey f' g k"
  then have "family_name f @ CHR '':'' # ''gen'' = family_name f' @ CHR '':'' # (''g'' @ format_int g @ '':'' @ k)"
    by (simp add: generationKey_def entryKey_def)
  from split_colon [OF this family_name_colon family_name_colon] have "''en'' = format_int g @ CHR '':'' # k" by simp
  then have "CHR ''e'' \<in> set (format_int g)" using format_int_ne [of g] by (cases "format_int g") auto
  then show False using format_int_no_e by blast
qed

lemmas cache_keys = generation_not_entry generation_not_entry [symmetric]

definition plain_text :: "(uuid \<Rightarrow> string) \<Rightarrow> bool" where
  "plain_text us \<longleftrightarrow> inj us \<and> (\<forall>u. us u \<noteq> [] \<and> us u \<noteq> ''-'' \<and> us u \<noteq> ''<nil>'' \<and> CHR '':'' \<notin> set (us u))"

lemma sprint_key:
  assumes "plain_text us"
  shows "CHR '':'' \<notin> set (key_value (sprint_uuid us r))"
    and "key_value (sprint_uuid us r) = key_value (sprint_uuid us r') \<Longrightarrow> r = r'"
proof -
  from assms show "CHR '':'' \<notin> set (key_value (sprint_uuid us r))"
    by (auto simp: key_value_def sprint_uuid_def plain_text_def split: option.split)
  from assms have i: "us a = us b \<Longrightarrow> a = b" for a b by (simp add: plain_text_def inj_def)
  have n: "us u \<noteq> []" "us u \<noteq> ''-''" "us u \<noteq> ''<nil>''" for u using assms unfolding plain_text_def by blast+
  show "key_value (sprint_uuid us r) = key_value (sprint_uuid us r') \<Longrightarrow> r = r'"
    using i n n [symmetric] by (cases r; cases r') (auto simp: key_value_def sprint_uuid_def)
qed

lemma format_key: "key_value (format_int x) = format_int x"
  using format_int_ne [of x] format_int_chars [of "CHR ''<''" x] by (auto simp: key_value_def is_digit_def)

text \<open>The tail that every list and search key ends with determines its four values.\<close>

definition query_tail :: "(uuid \<Rightarrow> string) \<Rightarrow> int \<Rightarrow> int \<Rightarrow> uuid option \<Rightarrow> uuid option \<Rightarrow> string" where
  "query_tail us page n c tg = key_pairs [(''page'', format_int page), (''per_page'', format_int n),
     (''category'', sprint_uuid us c), (''tag'', sprint_uuid us tg)]"

lemma query_tail_inj:
  assumes us: "plain_text us" and e: "x @ query_tail us page n c tg = y @ query_tail us page' n' c' tg'"
  shows "x = y \<and> page = page' \<and> n = n' \<and> c = c' \<and> tg = tg'"
proof -
  let ?v = "\<lambda>r. key_value (sprint_uuid us r)"
  have "(x @ '':page='' @ format_int page @ '':per_page='' @ format_int n @ '':category='' @ ?v c) @ CHR '':'' # ''tag='' @ ?v tg =
        (y @ '':page='' @ format_int page' @ '':per_page='' @ format_int n' @ '':category='' @ ?v c') @ CHR '':'' # ''tag='' @ ?v tg'"
    using e by (simp add: query_tail_def format_key)
  from split_last_colon [OF this] sprint_key(1) [OF us] have
    1: "?v tg = ?v tg'" "(x @ '':page='' @ format_int page @ '':per_page='' @ format_int n) @ CHR '':'' # ''category='' @ ?v c =
        (y @ '':page='' @ format_int page' @ '':per_page='' @ format_int n') @ CHR '':'' # ''category='' @ ?v c'" by auto
  from split_last_colon [OF 1(2)] sprint_key(1) [OF us] have
    2: "?v c = ?v c'" "(x @ '':page='' @ format_int page) @ CHR '':'' # ''per_page='' @ format_int n =
        (y @ '':page='' @ format_int page') @ CHR '':'' # ''per_page='' @ format_int n'" by auto
  from split_last_colon [OF 2(2)] format_int_colon have
    3: "format_int n = format_int n'" "x @ CHR '':'' # ''page='' @ format_int page = y @ CHR '':'' # ''page='' @ format_int page'" by auto
  from split_last_colon [OF 3(2)] format_int_colon have "format_int page = format_int page'" "x = y" by auto
  then show ?thesis using 1(1) 2(1) 3(1) sprint_key(2) [OF us] format_int_inj by blast
qed

end
