(* ===== verification/Tag_Service.thy ===== *)
theory Tag_Service
  imports Read_Cache
begin

text \<open>
  Tags: the repository (\<^verbatim>\<open>internal/adapters/outbound/persistence/tag_repository.go\<close>) over the
  tables \<open>tags\<close> and \<open>post_tags\<close>, and the service
  (\<^verbatim>\<open>internal/core/tag/service/service.go\<close>). A link is a pair of a post and a tag; the state also
  logs the cache families the service invalidated, oldest first. Both foreign keys of
  \<open>post_tags\<close> are \<^verbatim>\<open>ON DELETE CASCADE\<close>.
\<close>

section \<open>The repository\<close>

record tag =
  tag_uuid :: uuid
  tag_name :: string
  tag_slug :: string
  tag_created :: instant

datatype tag_error =
    TagNotFound
  | TagConflict
  | TagInUse
  | TagValidation string
  | TagUnknownReference

record tag_store = store +
  tag_rows :: "tag list"
  tag_links :: "(uuid \<times> uuid) list"
  tag_posts :: "uuid list"
  tag_invalidated :: "family list"

type_synonym 'a tag_comp = "(tag_store, tag_error, 'a) comp"

definition tag_uuids :: "tag_store \<Rightarrow> uuid list" where
  "tag_uuids s = map tag_uuid (tag_rows s)"

text \<open>The collation of the database orders the names.\<close>

definition tag_list :: "(string \<Rightarrow> nat) \<Rightarrow> tag list tag_comp" where
  "tag_list coll = db_call (asks (\<lambda>s. sort_key (\<lambda>t. coll (tag_name t)) (tag_rows s)))"

definition tag_get :: "uuid \<Rightarrow> tag tag_comp" where
  "tag_get u = db_call (\<lambda>s. case find (\<lambda>t. tag_uuid t = u) (tag_rows s) of
                              None \<Rightarrow> (Inl (Err TagNotFound), s)
                            | Some t \<Rightarrow> (Inr t, s))"

definition tag_get_by_slug :: "string \<Rightarrow> tag tag_comp" where
  "tag_get_by_slug g = db_call (\<lambda>s. case find (\<lambda>t. tag_slug t = g) (tag_rows s) of
                                      None \<Rightarrow> (Inl (Err TagNotFound), s)
                                    | Some t \<Rightarrow> (Inr t, s))"

definition tag_create :: "tag \<Rightarrow> tag tag_comp" where
  "tag_create t = db_call (\<lambda>s.
     if tag_uuid t \<in> set (tag_uuids s) \<or> tag_slug t \<in> set (map tag_slug (tag_rows s))
     then (Inl StoreFail, s)
     else (Inr t, s\<lparr>tag_rows := tag_rows s @ [t]\<rparr>))"

definition tag_put :: "tag \<Rightarrow> tag \<Rightarrow> tag" where
  "tag_put t r = (if tag_uuid r = tag_uuid t then r\<lparr>tag_name := tag_name t, tag_slug := tag_slug t\<rparr> else r)"

definition tag_update :: "tag \<Rightarrow> tag tag_comp" where
  "tag_update t =
     andthen (db_call (\<lambda>s.
       if tag_uuid t \<notin> set (tag_uuids s) then (Inl (Err TagNotFound), s)
       else if list_ex (\<lambda>r. tag_uuid r \<noteq> tag_uuid t \<and> tag_slug r = tag_slug t) (tag_rows s)
       then (Inl StoreFail, s)
       else (Inr (), s\<lparr>tag_rows := map (tag_put t) (tag_rows s)\<rparr>))) (\<lambda>_.
     tag_get (tag_uuid t))"

definition tag_slug_taken :: "string \<Rightarrow> uuid \<Rightarrow> bool tag_comp" where
  "tag_slug_taken g u =
     db_call (asks (\<lambda>s. 0 < length (filter (\<lambda>t. tag_slug t = g \<and> tag_uuid t \<noteq> u) (tag_rows s))))"

definition tag_count_posts :: "uuid \<Rightarrow> nat tag_comp" where
  "tag_count_posts u = db_call (asks (\<lambda>s. length (filter (\<lambda>(p, t). t = u) (tag_links s))))"

text \<open>\<open>idByUUID\<close>: the row of a UUID, or the given error.\<close>

definition row_of :: "(tag_store \<Rightarrow> uuid list) \<Rightarrow> uuid \<Rightarrow> tag_error \<Rightarrow> unit tag_comp" where
  "row_of known u e = db_call (\<lambda>s. if u \<in> set (known s) then (Inr (), s) else (Inl (Err e), s))"

text \<open>Deleting a tag row deletes its links.\<close>

definition drop_tag :: "uuid \<Rightarrow> tag_store \<Rightarrow> tag_store" where
  "drop_tag u s = s\<lparr>tag_rows := filter (\<lambda>t. tag_uuid t \<noteq> u) (tag_rows s),
                    tag_links := filter (\<lambda>(p, t). t \<noteq> u) (tag_links s)\<rparr>"

definition tag_delete :: "uuid \<Rightarrow> unit tag_comp" where
  "tag_delete u = db_call (\<lambda>s.
     if u \<in> set (tag_uuids s) then (Inr (), drop_tag u s) else (Inl (Err TagNotFound), s))"

text \<open>\<^verbatim>\<open>INSERT ... SELECT post_id, target ... ON CONFLICT DO NOTHING\<close>.\<close>

definition copied_links :: "uuid \<Rightarrow> uuid \<Rightarrow> (uuid \<times> uuid) list \<Rightarrow> (uuid \<times> uuid) list" where
  "copied_links source target ls =
     filter (\<lambda>l. l \<notin> set ls) (map (\<lambda>(p, t). (p, target)) (filter (\<lambda>(p, t). t = source) ls))"

definition tag_merge_into :: "uuid \<Rightarrow> uuid \<Rightarrow> unit tag_comp" where
  "tag_merge_into source target = within_tx (
     andthen (row_of tag_uuids source TagNotFound) (\<lambda>_.
     andthen (row_of tag_uuids target TagUnknownReference) (\<lambda>_.
     andthen (db_call (change (\<lambda>s. s\<lparr>tag_links := tag_links s @ copied_links source target (tag_links s)\<rparr>))) (\<lambda>_.
     andthen (db_call (change (\<lambda>s. s\<lparr>tag_links := filter (\<lambda>(p, t). t \<noteq> source) (tag_links s)\<rparr>))) (\<lambda>_.
     tag_delete source)))))"

definition replace_links :: "uuid \<Rightarrow> uuid list \<Rightarrow> unit tag_comp" where
  "replace_links p ids = within_tx (
     andthen (row_of tag_posts p TagUnknownReference) (\<lambda>_.
     andthen (db_call (change (\<lambda>s. s\<lparr>tag_links := filter (\<lambda>(q, t). q \<noteq> p) (tag_links s)\<rparr>))) (\<lambda>_.
     if ids = [] then ret ()
     else
     andthen (db_call (asks (\<lambda>s. filter (\<lambda>u. u \<in> set ids) (tag_uuids s)))) (\<lambda>rows.
     if length rows \<noteq> length (remdups ids) then throw TagUnknownReference
     else db_call (change (\<lambda>s. s\<lparr>tag_links := tag_links s @ map (Pair p) rows\<rparr>))))))"

definition tags_of_post :: "(string \<Rightarrow> nat) \<Rightarrow> uuid \<Rightarrow> tag list tag_comp" where
  "tags_of_post coll p = db_call (asks (\<lambda>s.
     sort_key (\<lambda>t. coll (tag_name t)) (filter (\<lambda>t. (p, tag_uuid t) \<in> set (tag_links s)) (tag_rows s))))"

section \<open>The service\<close>

definition tag_written :: "family list \<Rightarrow> 'a tag_comp \<Rightarrow> 'a tag_comp" where
  "tag_written fs m =
     andthen m (\<lambda>x.
     andthen (change (\<lambda>s. s\<lparr>tag_invalidated := tag_invalidated s @ fs\<rparr>)) (\<lambda>_.
     ret x))"

definition tag_validName :: "string \<Rightarrow> tag_error + string" where
  "tag_validName raw =
     (let n = trim_space raw in
      if n = [] then Inl (TagValidation ''name required'')
      else if rune_count n > 64 then Inl (TagValidation ''name too long'')
      else Inr n)"

definition tag_createSlug :: "(nat \<Rightarrow> nat) \<Rightarrow> string \<Rightarrow> string \<Rightarrow> tag_error + string" where
  "tag_createSlug lo name raw =
     (let g = trim_space raw in
      if g = []
      then let h = slugify lo name in
           if h = [] then Inl (TagValidation ''invalid slug'') else Inr h
      else let h = to_lower lo g in
           if slugPattern h then Inr h else Inl (TagValidation ''invalid slug''))"

definition tag_Create ::
  "(nat \<Rightarrow> nat) \<Rightarrow> instant \<Rightarrow> uuid \<Rightarrow> string \<Rightarrow> string \<Rightarrow> tag tag_comp" where
  "tag_Create lo now new_id name slug =
     andthen (of_result (tag_validName name)) (\<lambda>n.
     andthen (of_result (tag_createSlug lo n slug)) (\<lambda>g.
     andthen (tag_slug_taken g uuid_nil) (\<lambda>taken.
     if taken then throw TagConflict
     else tag_written [Tags] (tag_create
            \<lparr>tag_uuid = new_id, tag_name = n, tag_slug = g, tag_created = now\<rparr>))))"

definition tag_updatedSlug :: "(nat \<Rightarrow> nat) \<Rightarrow> tag \<Rightarrow> string \<Rightarrow> string tag_comp" where
  "tag_updatedSlug lo t raw =
     (let g = trim_space (to_lower lo raw) in
      if g = [] then throw (TagValidation ''slug required'')
      else if \<not> slugPattern g then throw (TagValidation ''invalid slug'')
      else if g = tag_slug t then ret g
      else andthen (tag_slug_taken g (tag_uuid t)) (\<lambda>taken.
           if taken then throw TagConflict else ret g))"

definition tag_Update ::
  "(nat \<Rightarrow> nat) \<Rightarrow> uuid \<Rightarrow> string option \<Rightarrow> string option \<Rightarrow> tag tag_comp" where
  "tag_Update lo u name slug =
     (if name = None \<and> slug = None then throw (TagValidation ''no fields to update'')
      else
      andthen (tag_get u) (\<lambda>t.
      andthen (case name of
                 None \<Rightarrow> ret t
               | Some raw \<Rightarrow> andthen (of_result (tag_validName raw)) (\<lambda>n. ret (t\<lparr>tag_name := n\<rparr>))) (\<lambda>t.
      andthen (case slug of
                 None \<Rightarrow> ret t
               | Some raw \<Rightarrow> andthen (tag_updatedSlug lo t raw) (\<lambda>g. ret (t\<lparr>tag_slug := g\<rparr>))) (\<lambda>t.
      tag_written [Tags] (tag_update t)))))"

definition tag_Merge :: "uuid \<Rightarrow> uuid \<Rightarrow> unit tag_comp" where
  "tag_Merge source into =
     (if source = into then throw (TagValidation ''source and target must differ'')
      else
      andthen (tag_get source) (\<lambda>_.
      andthen (tag_get into) (\<lambda>_.
      tag_written [Tags, Posts] (tag_merge_into source into))))"

definition tag_Delete :: "uuid \<Rightarrow> unit tag_comp" where
  "tag_Delete u =
     andthen (tag_count_posts u) (\<lambda>n.
     if n > 0 then throw TagInUse else tag_written [Tags] (tag_delete u))"

text \<open>
  The loop of \<open>ResolveOrCreate\<close> over the names that are left; \<open>gen\<close> and \<open>clk\<close> give the UUID and
  the time a creation at the k-th name gets.
\<close>

fun resolve_loop ::
  "(nat \<Rightarrow> nat) \<Rightarrow> (nat \<Rightarrow> uuid) \<Rightarrow> (nat \<Rightarrow> instant) \<Rightarrow> nat \<Rightarrow> string list \<Rightarrow> string list \<Rightarrow> tag list
     \<Rightarrow> tag list tag_comp" where
  "resolve_loop lo gen clk k seen [] out = ret out"
| "resolve_loop lo gen clk k seen (raw # names) out =
     (let name = trim_space raw in
      if name = [] then resolve_loop lo gen clk (Suc k) seen names out
      else if rune_count name > 64 then throw (TagValidation ''name too long'')
      else let g = slugify lo name in
      if g = [] then throw (TagValidation ''invalid tag name'')
      else if g \<in> set seen then resolve_loop lo gen clk (Suc k) seen names out
      else (\<lambda>s. case tag_get_by_slug g s of
              (Inr t, s1) \<Rightarrow> resolve_loop lo gen clk (Suc k) (g # seen) names (out @ [t]) s1
            | (Inl e, s1) \<Rightarrow>
                if e \<noteq> Err TagNotFound then (Inl e, s1)
                else andthen (tag_Create lo (clk k) (gen k) name g) (\<lambda>t.
                     resolve_loop lo gen clk (Suc k) (g # seen) names (out @ [t])) s1))"

definition ResolveOrCreate ::
  "(nat \<Rightarrow> nat) \<Rightarrow> (nat \<Rightarrow> uuid) \<Rightarrow> (nat \<Rightarrow> instant) \<Rightarrow> string list \<Rightarrow> tag list tag_comp" where
  "ResolveOrCreate lo gen clk names = resolve_loop lo gen clk 0 [] names []"

definition ReplacePostTags :: "uuid \<Rightarrow> uuid list \<Rightarrow> unit tag_comp" where
  "ReplacePostTags p ids = tag_written [Posts] (replace_links p ids)"

end
