(* ===== verification/Tag_Correct.thy ===== *)
theory Tag_Correct
  imports Tag_Service
begin

text \<open>
  The tag service keeps the tables consistent: unique UUIDs and slugs, every slug of the pattern,
  every name present and at most 64 runes, no link twice and none dangling. Merging and re-tagging
  are all or nothing and do exactly what they say.
\<close>

section \<open>The invariant\<close>

definition tag_ok :: "tag \<Rightarrow> bool" where
  "tag_ok t \<longleftrightarrow> slugPattern (tag_slug t) \<and> tag_name t \<noteq> [] \<and> rune_count (tag_name t) \<le> 64"

definition tag_inv :: "tag_store \<Rightarrow> bool" where
  "tag_inv s \<longleftrightarrow>
     distinct (map tag_uuid (tag_rows s)) \<and> distinct (map tag_slug (tag_rows s)) \<and>
     list_all tag_ok (tag_rows s) \<and> distinct (tag_links s) \<and>
     (\<forall>(p, t) \<in> set (tag_links s). p \<in> set (tag_posts s) \<and> t \<in> set (tag_uuids s))"

lemma tag_inv_calls [simp]: "tag_inv (s\<lparr>calls := n\<rparr>) = tag_inv s"
  by (simp add: tag_inv_def tag_uuids_def)

lemma tag_inv_invalidated [simp]: "tag_inv (s\<lparr>tag_invalidated := n\<rparr>) = tag_inv s"
  by (simp add: tag_inv_def tag_uuids_def)

lemma tag_validName_ok: "tag_validName raw = Inr n \<Longrightarrow> n \<noteq> [] \<and> rune_count n \<le> 64"
  by (auto simp: tag_validName_def Let_def split: if_splits)

lemma tag_createSlug_ok: "tag_createSlug lo n raw = Inr g \<Longrightarrow> slugPattern g"
  using slugify_accepted by (auto simp: tag_createSlug_def Let_def split: if_splits)

lemma tag_inv_create:
  assumes "tag_inv s" "tag_ok t" "tag_uuid t \<notin> set (tag_uuids s)" "tag_slug t \<notin> tag_slug ` set (tag_rows s)"
  shows "tag_inv (s\<lparr>tag_rows := tag_rows s @ [t]\<rparr>)"
  using assms by (auto simp: tag_inv_def tag_uuids_def)

lemma tag_inv_drop: "tag_inv s \<Longrightarrow> tag_inv (drop_tag u s)"
  by (auto simp: tag_inv_def drop_tag_def tag_uuids_def distinct_map_filter list_all_iff)

lemma tag_put_uuid [simp]: "tag_uuid (tag_put t r) = tag_uuid r"
  by (simp add: tag_put_def)

lemma tag_put_slugs:
  assumes "distinct (map tag_uuid rows)" "distinct (map tag_slug rows)"
    and "\<forall>r \<in> set rows. tag_slug r = tag_slug t \<longrightarrow> tag_uuid r = tag_uuid t"
  shows "distinct (map tag_slug (map (tag_put t) rows))"
  using assms
proof (induction rows)
  case (Cons r rows)
  have "tag_slug (tag_put t r) \<noteq> tag_slug (tag_put t r')" if r': "r' \<in> set rows" for r'
  proof -
    have "tag_uuid r \<noteq> tag_uuid r'" "tag_slug r \<noteq> tag_slug r'" using Cons.prems(1,2) r' by (auto simp: image_iff)
    then show ?thesis using Cons.prems(3) r' by (auto simp: tag_put_def)
  qed
  then show ?case using Cons by auto
qed simp

lemma tag_inv_update:
  assumes "tag_inv s" "tag_ok t" "\<forall>r \<in> set (tag_rows s). tag_slug r = tag_slug t \<longrightarrow> tag_uuid r = tag_uuid t"
  shows "tag_inv (s\<lparr>tag_rows := map (tag_put t) (tag_rows s)\<rparr>)"
proof -
  have "list_all tag_ok (map (tag_put t) (tag_rows s))"
    using assms(1,2) by (auto simp: tag_inv_def list_all_iff tag_put_def tag_ok_def)
  moreover have "map tag_uuid (map (tag_put t) (tag_rows s)) = map tag_uuid (tag_rows s)" by simp
  ultimately show ?thesis using assms(1) tag_put_slugs [OF _ _ assms(3)]
    by (auto simp: tag_inv_def tag_uuids_def simp del: map_map)
qed

section \<open>The requests keep it\<close>

lemma tag_get_wp:
  "(\<And>t. t \<in> set (tag_rows s) \<Longrightarrow> tag_uuid t = u \<Longrightarrow> Q t (s\<lparr>calls := Suc (calls s)\<rparr>)) \<Longrightarrow>
   F StoreFail (s\<lparr>calls := Suc (calls s)\<rparr>) \<Longrightarrow> F (Err TagNotFound) (s\<lparr>calls := Suc (calls s)\<rparr>) \<Longrightarrow>
   wp (tag_get u) Q F s"
  by (auto simp: tag_get_def wp_simps find_Some_iff split: option.split)

lemma tag_create_inv:
  "tag_inv s \<Longrightarrow> tag_ok t \<Longrightarrow> wp (tag_create t) (\<lambda>_. tag_inv) (\<lambda>_. tag_inv) s"
  using tag_inv_create [of "s\<lparr>calls := Suc (calls s)\<rparr>" t]
  by (auto simp: tag_create_def wp_simps tag_uuids_def)

lemma tag_update_inv:
  assumes "tag_inv s" "tag_ok t"
  shows "wp (tag_update t) (\<lambda>_. tag_inv) (\<lambda>_. tag_inv) s"
  using assms by (auto simp: tag_update_def wp_simps list_ex_iff intro!: tag_get_wp tag_inv_update)

lemma tag_Create_inv: "tag_inv s \<Longrightarrow> wp (tag_Create lo now u name slug) (\<lambda>_. tag_inv) (\<lambda>_. tag_inv) s"
  using tag_validName_ok tag_createSlug_ok
  by (auto simp: tag_Create_def tag_written_def tag_slug_taken_def wp_simps tag_ok_def
      split: sum.split intro!: tag_create_inv [THEN wp_mono])

lemma tag_Delete_inv: "tag_inv s \<Longrightarrow> wp (tag_Delete u) (\<lambda>_. tag_inv) (\<lambda>_. tag_inv) s"
  by (auto simp: tag_Delete_def tag_count_posts_def tag_written_def tag_delete_def wp_simps tag_inv_drop)

lemma tag_updatedSlug_wp:
  assumes "tag_inv s"
  shows "wp (tag_updatedSlug lo t raw) (\<lambda>g u. slugPattern g \<and> tag_inv u) (\<lambda>_. tag_inv) s"
  using assms by (auto simp: tag_updatedSlug_def tag_slug_taken_def Let_def wp_simps)

lemma tag_update_written:
  "tag_inv s \<Longrightarrow> tag_ok t \<Longrightarrow> wp (tag_written [Tags] (tag_update t)) (\<lambda>_. tag_inv) (\<lambda>_. tag_inv) s"
  unfolding tag_written_def wp_simps by (rule tag_update_inv [THEN wp_mono]) simp_all

lemma tag_update_slug:
  assumes "tag_inv s" "tag_ok t"
  shows "wp (case slug of None \<Rightarrow> ret t
       | Some raw \<Rightarrow> andthen (tag_updatedSlug lo t raw) (\<lambda>g. ret (t\<lparr>tag_slug := g\<rparr>)))
     (\<lambda>t u. tag_ok t \<and> tag_inv u) (\<lambda>_. tag_inv) s"
  using assms
  by (cases slug) (auto simp: wp_simps tag_ok_def intro!: tag_updatedSlug_wp [THEN wp_mono])

lemma tag_update_name:
  assumes "tag_inv s" "tag_ok t"
  shows "wp (case name of None \<Rightarrow> ret t
       | Some raw \<Rightarrow> andthen (of_result (tag_validName raw)) (\<lambda>n. ret (t\<lparr>tag_name := n\<rparr>)))
     (\<lambda>t u. tag_ok t \<and> tag_inv u) (\<lambda>_. tag_inv) s"
  using assms tag_validName_ok by (cases name) (auto simp: wp_simps tag_ok_def split: sum.split)

lemma tag_Update_inv:
  assumes i: "tag_inv s"
  shows "wp (tag_Update lo u name slug) (\<lambda>_. tag_inv) (\<lambda>_. tag_inv) s"
proof (cases "name = None \<and> slug = None")
  case True
  then show ?thesis using i by (simp add: tag_Update_def wp_simps)
next
  case False
  have get: "wp (tag_get u) (\<lambda>t v. tag_ok t \<and> tag_inv v) (\<lambda>_. tag_inv) s"
    using i by (auto simp: tag_inv_def list_all_iff tag_uuids_def intro!: tag_get_wp)
  show ?thesis unfolding tag_Update_def if_not_P [OF False] wp_andthen
  proof (rule wp_mono [OF get])
    fix t v assume v: "tag_ok t \<and> tag_inv v"
    show "wp (case name of None \<Rightarrow> ret t
        | Some raw \<Rightarrow> andthen (of_result (tag_validName raw)) (\<lambda>n. ret (t\<lparr>tag_name := n\<rparr>)))
      (\<lambda>t. wp (case slug of None \<Rightarrow> ret t
        | Some raw \<Rightarrow> andthen (tag_updatedSlug lo t raw) (\<lambda>g. ret (t\<lparr>tag_slug := g\<rparr>)))
      (\<lambda>t. wp (tag_written [Tags] (tag_update t)) (\<lambda>_. tag_inv) (\<lambda>_. tag_inv)) (\<lambda>_. tag_inv)) (\<lambda>_. tag_inv) v"
      by (rule wp_mono [OF tag_update_name], use v in blast, use v in blast)
         (rule wp_mono [OF tag_update_slug], auto intro: tag_update_written)
  qed
qed

lemma distinct_copied: "distinct ls \<Longrightarrow> distinct (copied_links a b ls)"
  by (auto simp: copied_links_def distinct_map inj_on_def intro!: distinct_filter)

text \<open>The effect of a finished merge on the tables.\<close>

definition merged :: "uuid \<Rightarrow> uuid \<Rightarrow> tag_store \<Rightarrow> tag_store \<Rightarrow> bool" where
  "merged a b s t \<longleftrightarrow>
     tag_rows t = filter (\<lambda>r. tag_uuid r \<noteq> a) (tag_rows s) \<and>
     tag_links t = filter (\<lambda>(p, r). r \<noteq> a) (tag_links s @ copied_links a b (tag_links s)) \<and>
     tag_posts t = tag_posts s"

lemma tag_merge_into_wp:
  "wp (tag_merge_into a b)
     (\<lambda>_ t. merged a b s t \<and> b \<in> set (tag_uuids s) \<and> tag_invalidated t = tag_invalidated s)
     (\<lambda>_. unchanged s) s"
  by (auto simp: tag_merge_into_def row_of_def tag_delete_def drop_tag_def wp_simps merged_def
      tag_uuids_def)

lemma merged_inv:
  assumes i: "tag_inv s" and m: "merged a b s t" and "a \<noteq> b" "b \<in> set (tag_uuids s)"
  shows "tag_inv t"
proof -
  have "distinct (tag_links s @ copied_links a b (tag_links s))"
    using i distinct_copied [of "tag_links s" a b] by (auto simp: tag_inv_def copied_links_def)
  then have "distinct (tag_links t)" using m by (simp add: merged_def del: filter_append distinct_append)
  moreover have "\<forall>(p, r) \<in> set (tag_links t). p \<in> set (tag_posts t) \<and> r \<in> set (tag_uuids t)"
    using assms by (fastforce simp: tag_inv_def merged_def copied_links_def tag_uuids_def)
  ultimately show ?thesis using i m
    by (auto simp: tag_inv_def merged_def distinct_map_filter list_all_iff)
qed

lemma tag_Merge_wp:
  assumes "tag_inv s"
  shows "wp (tag_Merge a b)
     (\<lambda>_ t. tag_inv t \<and> a \<noteq> b \<and> merged a b s t \<and> tag_invalidated t = tag_invalidated s @ [Tags, Posts])
     (\<lambda>_. unchanged s) s"
proof (cases "a = b")
  case True
  then show ?thesis by (simp add: tag_Merge_def wp_simps)
next
  case False
  have last: "wp (tag_written [Tags, Posts] (tag_merge_into a b))
     (\<lambda>_ t. tag_inv t \<and> a \<noteq> b \<and> merged a b s t \<and> tag_invalidated t = tag_invalidated s @ [Tags, Posts])
     (\<lambda>_. unchanged s) u" if u: "unchanged s u" for u
    unfolding tag_written_def wp_simps
  proof (rule wp_mono [OF tag_merge_into_wp])
    fix x t assume t: "merged a b u t \<and> b \<in> set (tag_uuids u) \<and> tag_invalidated t = tag_invalidated u"
    from u obtain n where n: "u = s\<lparr>calls := n\<rparr>" by (auto simp: unchanged_def)
    then have m: "merged a b s t" "b \<in> set (tag_uuids s)" using t by (simp_all add: merged_def tag_uuids_def)
    then show "tag_inv (t\<lparr>tag_invalidated := tag_invalidated t @ [Tags, Posts]\<rparr>) \<and> a \<noteq> b \<and>
      merged a b s (t\<lparr>tag_invalidated := tag_invalidated t @ [Tags, Posts]\<rparr>) \<and>
      tag_invalidated (t\<lparr>tag_invalidated := tag_invalidated t @ [Tags, Posts]\<rparr>) = tag_invalidated s @ [Tags, Posts]"
      using False t n merged_inv [OF assms m(1) False m(2)] by (simp add: merged_def)
  next
    fix e t assume "unchanged u t"
    then show "unchanged s t" using u unchanged_trans by blast
  qed
  show ?thesis unfolding tag_Merge_def using False last
    by (auto simp: wp_simps intro!: tag_get_wp)
qed

text \<open>The posts of the target after a merge are those of both tags; no other tag is touched.\<close>

lemma merged_posts:
  assumes "merged a b s t" "a \<noteq> b"
  shows "{p. (p, b) \<in> set (tag_links t)} = {p. (p, a) \<in> set (tag_links s) \<or> (p, b) \<in> set (tag_links s)}"
    "{p. (p, a) \<in> set (tag_links t)} = {}"
    "c \<notin> {a, b} \<Longrightarrow> (p, c) \<in> set (tag_links t) \<longleftrightarrow> (p, c) \<in> set (tag_links s)"
  using assms by (auto simp: merged_def copied_links_def)

section \<open>Re-tagging a post\<close>

definition relinked :: "uuid \<Rightarrow> uuid list \<Rightarrow> tag_store \<Rightarrow> tag_store \<Rightarrow> bool" where
  "relinked p ids s t \<longleftrightarrow>
     tag_rows t = tag_rows s \<and> tag_posts t = tag_posts s \<and> p \<in> set (tag_posts s) \<and>
     tag_links t = filter (\<lambda>(q, r). q \<noteq> p) (tag_links s) @
       map (Pair p) (filter (\<lambda>u. u \<in> set ids) (tag_uuids s)) \<and>
     length (filter (\<lambda>u. u \<in> set ids) (tag_uuids s)) = length (remdups ids)"

lemma ReplacePostTags_wp:
  "wp (ReplacePostTags p ids)
     (\<lambda>_ t. relinked p ids s t \<and> tag_invalidated t = tag_invalidated s @ [Posts]) (\<lambda>_. unchanged s) s"
  by (auto simp: ReplacePostTags_def replace_links_def row_of_def tag_written_def wp_simps relinked_def
      tag_uuids_def)

lemma relinked_inv:
  assumes i: "tag_inv s" and r: "relinked p ids s t"
  shows "tag_inv t" "{u. (p, u) \<in> set (tag_links t)} = set ids"
    "q \<noteq> p \<Longrightarrow> (q, u) \<in> set (tag_links t) \<longleftrightarrow> (q, u) \<in> set (tag_links s)"
proof -
  let ?rows = "filter (\<lambda>u. u \<in> set ids) (tag_uuids s)"
  have d: "distinct ?rows" using i by (simp add: tag_inv_def tag_uuids_def)
  have "card (set ?rows) = card (set ids)"
    using r distinct_card [OF d] by (simp add: relinked_def length_remdups_card_conv)
  then have "set ?rows = set ids" by (intro card_subset_eq) auto
  then show "{u. (p, u) \<in> set (tag_links t)} = set ids" using r by (auto simp: relinked_def)
  show "(q, u) \<in> set (tag_links t) \<longleftrightarrow> (q, u) \<in> set (tag_links s)" if "q \<noteq> p"
    using r that by (auto simp: relinked_def)
  have "distinct (tag_links t)" using i r d
    by (auto simp: relinked_def tag_inv_def distinct_map inj_on_def)
  then show "tag_inv t" using i r by (auto simp: tag_inv_def relinked_def tag_uuids_def)
qed

section \<open>Resolving names\<close>

fun firsts :: "'a list \<Rightarrow> 'a list \<Rightarrow> 'a list" where
  "firsts seen [] = []"
| "firsts seen (x # xs) = (if x \<in> set seen then firsts seen xs else x # firsts (x # seen) xs)"

lemma firsts_set: "set (firsts seen xs) = set xs - set seen"
  by (induction seen xs rule: firsts.induct) auto

lemma firsts_distinct: "distinct (firsts seen xs)"
  by (induction seen xs rule: firsts.induct) (auto simp: firsts_set)

definition wanted_slugs :: "(nat \<Rightarrow> nat) \<Rightarrow> string list \<Rightarrow> string list" where
  "wanted_slugs lo names = map (\<lambda>n. slugify lo (trim_space n)) (filter (\<lambda>n. trim_space n \<noteq> []) names)"

definition grown :: "tag_store \<Rightarrow> tag_store \<Rightarrow> bool" where
  "grown s t \<longleftrightarrow> (\<exists>new. tag_rows t = tag_rows s @ new) \<and> tag_links t = tag_links s \<and> tag_posts t = tag_posts s"

lemma grown_refl [simp]: "grown s s"
  by (simp add: grown_def)

lemma grown_trans: "grown s t \<Longrightarrow> grown t u \<Longrightarrow> grown s u"
  by (auto simp: grown_def)

lemma tag_createSlug_fixed: "slugPattern g \<Longrightarrow> tag_createSlug lo n g = Inr g"
  by (auto simp: tag_createSlug_def Let_def trim_space_slug to_lower_slug slugPattern_iff)

lemma tag_Create_wp:
  assumes "tag_inv s" "slugPattern g"
  shows "wp (tag_Create lo now u name g)
     (\<lambda>t v. tag_slug t = g \<and> t \<in> set (tag_rows v) \<and> grown s v \<and> tag_inv v) (\<lambda>_ v. grown s v \<and> tag_inv v) s"
proof -
  have "wp (tag_Create lo now u name g)
     (\<lambda>t v. tag_slug t = g \<and> t \<in> set (tag_rows v) \<and> grown s v) (\<lambda>_. grown s) s"
    by (auto simp: tag_Create_def tag_written_def tag_slug_taken_def tag_create_def wp_simps
        tag_createSlug_fixed [OF assms(2)] grown_def split: sum.split)
  from wp_conj [OF this tag_Create_inv [OF assms(1)]] show ?thesis by (rule wp_mono) auto
qed

lemma tag_get_by_slug_wp:
  "(\<And>t. t \<in> set (tag_rows s) \<Longrightarrow> tag_slug t = g \<Longrightarrow> Q t (s\<lparr>calls := Suc (calls s)\<rparr>)) \<Longrightarrow>
   F StoreFail (s\<lparr>calls := Suc (calls s)\<rparr>) \<Longrightarrow> F (Err TagNotFound) (s\<lparr>calls := Suc (calls s)\<rparr>) \<Longrightarrow>
   wp (tag_get_by_slug g) Q F s"
  by (auto simp: tag_get_by_slug_def wp_simps find_Some_iff split: option.split)

lemma grown_rows: "grown s t \<Longrightarrow> set (tag_rows s) \<subseteq> set (tag_rows t)"
  by (auto simp: grown_def)

text \<open>One name that is not blank, too long or seen: looked up, or created.\<close>

definition resolve_one :: "(nat \<Rightarrow> nat) \<Rightarrow> instant \<Rightarrow> uuid \<Rightarrow> string \<Rightarrow> string \<Rightarrow> tag tag_comp" where
  "resolve_one lo now u name g s =
     (case tag_get_by_slug g s of
        (Inr t, s1) \<Rightarrow> (Inr t, s1)
      | (Inl e, s1) \<Rightarrow> if e \<noteq> Err TagNotFound then (Inl e, s1) else tag_Create lo now u name g s1)"

lemma resolve_loop_Cons:
  "resolve_loop lo gen clk k seen (raw # names) out =
     (let name = trim_space raw; g = slugify lo name in
      if name = [] then resolve_loop lo gen clk (Suc k) seen names out
      else if rune_count name > 64 then throw (TagValidation ''name too long'')
      else if g = [] then throw (TagValidation ''invalid tag name'')
      else if g \<in> set seen then resolve_loop lo gen clk (Suc k) seen names out
      else andthen (resolve_one lo (clk k) (gen k) name g)
             (\<lambda>t. resolve_loop lo gen clk (Suc k) (g # seen) names (out @ [t])))"
  by (auto simp: Let_def fun_eq_iff resolve_one_def andthen_def split: prod.split sum.split)

declare resolve_loop.simps(2) [simp del]

lemma resolve_one_wp:
  assumes "tag_inv s" "slugPattern g"
  shows "wp (resolve_one lo now u name g)
     (\<lambda>t v. tag_slug t = g \<and> t \<in> set (tag_rows v) \<and> grown s v \<and> tag_inv v) (\<lambda>_ v. grown s v \<and> tag_inv v) s"
proof -
  let ?s = "s\<lparr>calls := Suc (calls s)\<rparr>"
  have g: "grown s v" if "grown ?s v" for v using that by (simp add: grown_def)
  have "wp (tag_get_by_slug g) (\<lambda>t v. v = ?s \<and> tag_slug t = g \<and> t \<in> set (tag_rows s)) (\<lambda>_ v. v = ?s) s"
    by (rule tag_get_by_slug_wp) auto
  moreover have "wp (tag_Create lo now u name g)
     (\<lambda>t v. tag_slug t = g \<and> t \<in> set (tag_rows v) \<and> grown s v \<and> tag_inv v) (\<lambda>_ v. grown s v \<and> tag_inv v) ?s"
    by (rule wp_mono [OF tag_Create_wp [of ?s g]]) (use assms g in auto)
  ultimately show ?thesis using assms(1)
    by (auto simp: wp_def resolve_one_def grown_def split: prod.splits sum.splits)
qed

lemma resolve_loop_wp:
  assumes "tag_inv s" "set out \<subseteq> set (tag_rows s)"
  shows "wp (resolve_loop lo gen clk k seen names out)
     (\<lambda>ts v. map tag_slug ts = map tag_slug out @ firsts seen (wanted_slugs lo names) \<and>
        set ts \<subseteq> set (tag_rows v) \<and> grown s v \<and> tag_inv v)
     (\<lambda>_ v. grown s v \<and> tag_inv v) s"
  using assms
proof (induction names arbitrary: k seen out s)
  case Nil
  then show ?case by (simp add: wp_simps wanted_slugs_def)
next
  case (Cons raw names)
  let ?n = "trim_space raw" and ?g = "slugify lo (trim_space raw)"
  have blank: ?case if "?n = []"
    using Cons.IH [OF Cons.prems] that by (simp add: resolve_loop_Cons Let_def wanted_slugs_def)
  have seen: ?case if "?n \<noteq> []" "rune_count ?n \<le> 64" "?g \<noteq> []" "?g \<in> set seen"
    using Cons.IH [OF Cons.prems] that by (simp add: resolve_loop_Cons Let_def wanted_slugs_def)
  have new: ?case if h: "?n \<noteq> []" "rune_count ?n \<le> 64" "?g \<noteq> []" "?g \<notin> set seen"
  proof -
    have "wp (resolve_one lo (clk k) (gen k) ?n ?g)
        (\<lambda>t. wp (resolve_loop lo gen clk (Suc k) (?g # seen) names (out @ [t]))
          (\<lambda>ts v. map tag_slug ts = map tag_slug out @ ?g # firsts (?g # seen) (wanted_slugs lo names) \<and>
             set ts \<subseteq> set (tag_rows v) \<and> grown s v \<and> tag_inv v) (\<lambda>_ v. grown s v \<and> tag_inv v))
        (\<lambda>_ v. grown s v \<and> tag_inv v) s"
    proof (rule wp_mono [OF resolve_one_wp [OF Cons.prems(1) slugify_accepted [OF h(3)]]])
      fix t v assume t: "tag_slug t = ?g \<and> t \<in> set (tag_rows v) \<and> grown s v \<and> tag_inv v"
      then have "set (out @ [t]) \<subseteq> set (tag_rows v)" using Cons.prems(2) grown_rows by auto
      with t show "wp (resolve_loop lo gen clk (Suc k) (?g # seen) names (out @ [t]))
          (\<lambda>ts v. map tag_slug ts = map tag_slug out @ ?g # firsts (?g # seen) (wanted_slugs lo names) \<and>
             set ts \<subseteq> set (tag_rows v) \<and> grown s v \<and> tag_inv v) (\<lambda>_ v. grown s v \<and> tag_inv v) v"
        by (intro wp_mono [OF Cons.IH]) (auto intro: grown_trans)
    qed
    then show ?thesis using h by (simp add: resolve_loop_Cons Let_def wp_simps wanted_slugs_def)
  qed
  show ?case
  proof (cases "?n \<noteq> [] \<and> (rune_count ?n > 64 \<or> ?g = [])")
    case True
    then show ?thesis using Cons.prems(1) by (auto simp: resolve_loop_Cons Let_def wp_simps)
  next
    case False
    then show ?thesis using blank seen new by fastforce
  qed
qed

section \<open>The service under a sequence of requests\<close>

datatype tag_request =
    TagCreate "nat \<Rightarrow> nat" instant uuid string string
  | TagUpdate "nat \<Rightarrow> nat" uuid "string option" "string option"
  | TagMerge uuid uuid
  | TagDelete uuid
  | TagResolve "nat \<Rightarrow> nat" "nat \<Rightarrow> uuid" "nat \<Rightarrow> instant" "string list"
  | TagReplace uuid "uuid list"

fun tag_run :: "tag_request \<Rightarrow> unit tag_comp" where
  "tag_run (TagCreate lo now u n g) = drop_result (tag_Create lo now u n g)"
| "tag_run (TagUpdate lo u n g) = drop_result (tag_Update lo u n g)"
| "tag_run (TagMerge a b) = tag_Merge a b"
| "tag_run (TagDelete u) = tag_Delete u"
| "tag_run (TagResolve lo gen clk names) = drop_result (ResolveOrCreate lo gen clk names)"
| "tag_run (TagReplace p ids) = ReplacePostTags p ids"

lemma unchanged_tag_inv: "unchanged s t \<Longrightarrow> tag_inv s \<Longrightarrow> tag_inv t"
  by (auto simp: unchanged_def)

lemma tag_run_inv:
  assumes i: "tag_inv s" shows "wp (tag_run x) (\<lambda>_. tag_inv) (\<lambda>_. tag_inv) s"
proof (cases x)
  case (TagResolve lo gen clk names)
  show ?thesis unfolding TagResolve using i
    by (auto simp: ResolveOrCreate_def wp_simps intro!: wp_mono [OF resolve_loop_wp])
next
  case (TagMerge a b)
  show ?thesis unfolding TagMerge using i unchanged_tag_inv
    by (auto intro!: wp_mono [OF tag_Merge_wp])
next
  case (TagReplace p ids)
  show ?thesis unfolding TagReplace tag_run.simps
    by (rule wp_mono [OF ReplacePostTags_wp]) (use i unchanged_tag_inv relinked_inv(1) in blast)+
qed (use i in \<open>auto simp: wp_simps tag_Create_inv tag_Update_inv tag_Delete_inv\<close>)

interpretation tags: invariant_service tag_run tag_inv
  by unfold_locales (rule wp_snd, rule tag_run_inv)

section \<open>Properties\<close>

definition tag_demo :: tag_store where
  "tag_demo = \<lparr>calls = 0, fails = (\<lambda>_. False),
     tag_rows = [\<lparr>tag_uuid = 1, tag_name = ''Go'', tag_slug = ''go'', tag_created = 5\<rparr>,
                 \<lparr>tag_uuid = 2, tag_name = ''Golang'', tag_slug = ''golang'', tag_created = 6\<rparr>],
     tag_links = [(10, 1), (11, 1), (11, 2)], tag_posts = [10, 11, 12], tag_invalidated = []\<rparr>"

lemma tag_demo_inv: "tag_inv tag_demo"
  by (simp add: tag_inv_def tag_demo_def tag_ok_def tag_uuids_def slug_eval)

lemmas tag_eval =
  run_eval tag_Create_def tag_Update_def tag_Merge_def tag_Delete_def ReplacePostTags_def
  ResolveOrCreate_def tag_validName_def tag_slug_taken_def tag_create_def
  tag_get_def tag_get_by_slug_def tag_update_def tag_put_def tag_merge_into_def tag_delete_def
  drop_tag_def row_of_def copied_links_def replace_links_def tag_written_def tag_uuids_def
  tag_count_posts_def resolve_loop.simps(2)

text \<open>
  C5. Whatever sequence of tag requests runs, and whichever storage calls fail, UUIDs and slugs of
  tags stay unique, every slug matches the slug pattern, every name has 1 to 64 runes, and the links
  between posts and tags have no duplicates and no dangling end.
\<close>

theorem tag_requests_keep_invariant:
  assumes "tag_inv s"
  shows "tag_inv (run_all tag_run ops s)"
  using assms by (rule tags.runs_inv)

theorem tag_requests_keep_invariant_witness:
  "tag_inv (run_all tag_run [TagMerge 1 2, TagReplace 10 [], TagDelete 2] tag_demo)"
  by (rule tag_requests_keep_invariant [OF tag_demo_inv])

text \<open>
  C6. A merge that succeeds deletes the source tag, gives the target exactly the posts either tag
  had, touches no other tag's posts and invalidates the cached tags and posts; one that fails
  changes nothing.
\<close>

theorem Merge_joins_posts:
  assumes "tag_inv s"
  shows "wp (tag_Merge a b)
     (\<lambda>_ t. tag_rows t = filter (\<lambda>r. tag_uuid r \<noteq> a) (tag_rows s) \<and>
        {p. (p, b) \<in> set (tag_links t)} = {p. (p, a) \<in> set (tag_links s) \<or> (p, b) \<in> set (tag_links s)} \<and>
        (\<forall>p c. c \<noteq> b \<longrightarrow> (p, c) \<in> set (tag_links t) \<longleftrightarrow> c \<noteq> a \<and> (p, c) \<in> set (tag_links s)) \<and>
        tag_invalidated t = tag_invalidated s @ [Tags, Posts])
     (\<lambda>_. unchanged s) s"
proof (rule wp_mono [OF tag_Merge_wp [OF assms]])
  fix x t assume t: "tag_inv t \<and> a \<noteq> b \<and> merged a b s t \<and> tag_invalidated t = tag_invalidated s @ [Tags, Posts]"
  then have m: "merged a b s t" "a \<noteq> b" by blast+
  show "tag_rows t = filter (\<lambda>r. tag_uuid r \<noteq> a) (tag_rows s) \<and>
        {p. (p, b) \<in> set (tag_links t)} = {p. (p, a) \<in> set (tag_links s) \<or> (p, b) \<in> set (tag_links s)} \<and>
        (\<forall>p c. c \<noteq> b \<longrightarrow> (p, c) \<in> set (tag_links t) \<longleftrightarrow> c \<noteq> a \<and> (p, c) \<in> set (tag_links s)) \<and>
        tag_invalidated t = tag_invalidated s @ [Tags, Posts]"
    using merged_posts [OF m] m(1) t by (auto simp: merged_def)
qed

theorem Merge_joins_posts_witness:
  "\<exists>t. tag_Merge 1 2 tag_demo = (Inr (), t) \<and> {p. (p, 2) \<in> set (tag_links t)} = {10, 11}"
proof -
  obtain t where t: "tag_Merge 1 2 tag_demo = (Inr (), t)"
    by (simp add: tag_eval tag_demo_def)
  have "{p. (p, 2) \<in> set (tag_links t)} =
      {p. (p, 1) \<in> set (tag_links tag_demo) \<or> (p, 2) \<in> set (tag_links tag_demo)}"
    using wp_Inr [OF Merge_joins_posts [OF tag_demo_inv] t] by blast
  also have "\<dots> = {10, 11}" by (auto simp: tag_demo_def)
  finally show ?thesis using t by blast
qed

text \<open>
  ReplacePostTags sets the tags of the post to exactly the given ones, whatever their order and
  repetitions, and keeps every other post's tags; when the post or a tag is unknown, or a storage
  call fails, it changes nothing.
\<close>

theorem ReplacePostTags_exact:
  assumes "tag_inv s"
  shows "wp (ReplacePostTags p ids)
     (\<lambda>_ t. {u. (p, u) \<in> set (tag_links t)} = set ids \<and>
        (\<forall>q u. q \<noteq> p \<longrightarrow> (q, u) \<in> set (tag_links t) \<longleftrightarrow> (q, u) \<in> set (tag_links s)) \<and>
        tag_rows t = tag_rows s \<and> tag_invalidated t = tag_invalidated s @ [Posts])
     (\<lambda>_. unchanged s) s"
proof (rule wp_mono [OF ReplacePostTags_wp])
  fix x t assume t: "relinked p ids s t \<and> tag_invalidated t = tag_invalidated s @ [Posts]"
  then have "tag_rows t = tag_rows s" by (simp add: relinked_def)
  then show "{u. (p, u) \<in> set (tag_links t)} = set ids \<and>
        (\<forall>q u. q \<noteq> p \<longrightarrow> (q, u) \<in> set (tag_links t) \<longleftrightarrow> (q, u) \<in> set (tag_links s)) \<and>
        tag_rows t = tag_rows s \<and> tag_invalidated t = tag_invalidated s @ [Posts]"
    using t relinked_inv(2,3) [OF assms conjunct1 [OF t]] by blast
qed

theorem ReplacePostTags_exact_witness:
  "\<exists>t. ReplacePostTags 11 [2, 1, 2] tag_demo = (Inr (), t) \<and> {u. (11, u) \<in> set (tag_links t)} = {1, 2}"
proof -
  obtain t where t: "ReplacePostTags 11 [2, 1, 2] tag_demo = (Inr (), t)"
    by (simp add: tag_eval tag_demo_def)
  have "{u. (11, u) \<in> set (tag_links t)} = set [2, 1, 2]"
    using wp_Inr [OF ReplacePostTags_exact [OF tag_demo_inv] t] by blast
  then show ?thesis using t by auto
qed

text \<open>
  ResolveOrCreate, when it succeeds, returns one tag of the table for each distinct slug of the
  non-blank names, in the order of their first occurrence; the table only grows, and the links stay.
  When it fails, the table may have grown, and nothing else has changed.
\<close>

theorem ResolveOrCreate_resolves:
  assumes "tag_inv s"
  shows "wp (ResolveOrCreate lo gen clk names)
     (\<lambda>ts t. map tag_slug ts = firsts [] (wanted_slugs lo names) \<and> set ts \<subseteq> set (tag_rows t) \<and>
        grown s t \<and> tag_inv t)
     (\<lambda>_ t. grown s t \<and> tag_inv t) s"
  unfolding ResolveOrCreate_def by (rule wp_mono [OF resolve_loop_wp [OF assms]]) auto

lemma tag_demo_names:
  "trim_space '' Go'' = ''Go''" "trim_space ''Go'' = ''Go''" "trim_space ''go'' = ''go''" "trim_space ''Web'' = ''Web''"
  "rune_count ''Go'' = 2" "rune_count ''go'' = 2" "rune_count ''Web'' = 3"
  "slugify id ''Go'' = ''go''" "slugify id ''go'' = ''go''" "slugify id ''Web'' = ''web''"
  "tag_createSlug id n ''web'' = Inr ''web''"
  by (simp_all add: tag_createSlug_def slug_eval)

theorem ResolveOrCreate_resolves_witness:
  "\<exists>ts t. ResolveOrCreate id (\<lambda>k. 50 + k) (\<lambda>k. 7) ['' Go'', [], ''Web'', ''go''] tag_demo = (Inr ts, t) \<and>
     map tag_uuid ts = [1, 52] \<and> tag_inv t"
proof -
  obtain ts t where t: "ResolveOrCreate id (\<lambda>k. 50 + k) (\<lambda>k. 7) ['' Go'', [], ''Web'', ''go''] tag_demo = (Inr ts, t)"
    "map tag_uuid ts = [1, 52]"
    by (simp add: tag_eval tag_demo_names tag_demo_def del: One_nat_def)
  have "tag_inv t" using wp_Inr [OF ResolveOrCreate_resolves [OF tag_demo_inv] t(1)] by blast
  with t show ?thesis by (intro exI conjI)
qed

end
