(* ===== verification/Impersonation.thy ===== *)
theory Impersonation
  imports Read_Cache
begin

text \<open>
  Impersonation sessions: the rules of \<^verbatim>\<open>internal/core/impersonation/domain\<close>, the repository
  \<^verbatim>\<open>internal/adapters/outbound/persistence/impersonation_repository.go\<close> with the constraints of
  its table, and the service \<^verbatim>\<open>internal/core/impersonation/service/service.go\<close>. The state holds the
  sessions, the users and refresh sessions the repository joins them with, the answers of the
  permission store and of the step-up check, and the events recorded in the outbox, oldest first.
  Signing a token is a call that may fail and gives the claims; audit metadata is not modelled.
\<close>

section \<open>Domain\<close>

definition PermissionStart :: string where
  "PermissionStart = ''impersonation.start''"

definition MinReasonLength :: nat where "MinReasonLength = 10"

definition MaxReasonLength :: nat where "MaxReasonLength = 255"

datatype imp_error =
    ImpValidation
  | ImpForbidden
  | ImpStepUpRequired
  | ImpIneligible
  | ImpAlreadyActive
  | ImpNotFound
  | ImpSignInRequired
  | ImpEnded

datatype imp_state = StateActive | StateExited | StateExpired | StateRevoked

datatype end_reason = EndManual | EndExpired | EndPolicy | EndBaseSession

record session =
  ses_uuid :: uuid
  ses_actor :: uuid
  ses_target :: uuid
  ses_state :: imp_state
  ses_reason :: string
  ses_ip :: string
  ses_agent :: string
  ses_started :: instant
  ses_expires :: instant
  ses_ended :: "instant option"
  ses_end_reason :: "end_reason option"
  ses_family :: uuid
  ses_participants :: bool
  ses_base_until :: "instant option"

definition ActiveAt :: "session \<Rightarrow> instant \<Rightarrow> bool" where
  "ActiveAt x now \<longleftrightarrow> ses_state x = StateActive \<and> now < ses_expires x"

definition BaseSessionActiveAt :: "session \<Rightarrow> instant \<Rightarrow> bool" where
  "BaseSessionActiveAt x now \<longleftrightarrow> (case ses_base_until x of None \<Rightarrow> False | Some u \<Rightarrow> now < u)"

record grants =
  gr_roles :: "string list"
  gr_permissions :: "string list"

definition Has :: "grants \<Rightarrow> string \<Rightarrow> bool" where
  "Has g p \<longleftrightarrow> p \<in> set (gr_permissions g) \<or> ''*'' \<in> set (gr_permissions g)"

definition CanImpersonate :: "grants \<Rightarrow> grants \<Rightarrow> string \<Rightarrow> bool" where
  "CanImpersonate g target adminRole \<longleftrightarrow>
     \<not> (adminRole \<in> set (gr_roles target) \<or> Has target PermissionStart) \<and>
     list_all (Has g) (gr_permissions target)"

section \<open>The repository\<close>

record imp_user =
  iu_uuid :: uuid
  iu_active_status :: bool
  iu_deleted :: bool

record refresh_session =
  rs_user :: uuid
  rs_family :: uuid
  rs_expires :: instant
  rs_revoked :: bool

datatype imp_event_type = ImpersonationStarted | ImpersonationExited | ImpersonationExpired | ImpersonationRevoked

record imp_event =
  ie_type :: imp_event_type
  ie_session :: uuid
  ie_actor :: uuid
  ie_target :: uuid
  ie_started :: instant
  ie_expires :: instant
  ie_reason :: "end_reason option"
  ie_at :: instant

record imp_store = store +
  imp_sessions :: "session list"
  imp_users :: "imp_user list"
  imp_refresh :: "refresh_session list"
  imp_enforce :: "uuid \<Rightarrow> string \<Rightarrow> bool"
  imp_grants :: "uuid \<Rightarrow> grants"
  imp_stepup :: "uuid \<Rightarrow> string \<Rightarrow> string \<Rightarrow> bool"
  imp_events :: "imp_event list"

type_synonym 'a imp_comp = "(imp_store, imp_error, 'a) comp"

definition find_user :: "imp_store \<Rightarrow> uuid \<Rightarrow> imp_user option" where
  "find_user s u = find (\<lambda>x. iu_uuid x = u) (imp_users s)"

definition iu_ok :: "imp_user \<Rightarrow> bool" where
  "iu_ok x \<longleftrightarrow> iu_active_status x \<and> \<not> iu_deleted x"

text \<open>\<open>max(r.expires_at)\<close> over the unrevoked refresh sessions of the base family.\<close>

definition base_until :: "imp_store \<Rightarrow> session \<Rightarrow> instant option" where
  "base_until s x =
     (case [rs_expires r. r \<leftarrow> imp_refresh s, rs_user r = ses_actor x \<and> ses_family x \<noteq> uuid_nil \<and>
                         rs_family r = ses_family x \<and> \<not> rs_revoked r] of
        [] \<Rightarrow> None
      | e # es \<Rightarrow> Some (foldl max e es))"

text \<open>A row joined with its two users, as \<open>impersonationSelect\<close> reads it.\<close>

definition imp_join :: "imp_store \<Rightarrow> session \<Rightarrow> session option" where
  "imp_join s x =
     (case (find_user s (ses_actor x), find_user s (ses_target x)) of
        (Some a, Some t) \<Rightarrow>
          Some (x\<lparr>ses_participants := iu_ok a \<and> iu_ok t, ses_base_until := base_until s x\<rparr>)
      | _ \<Rightarrow> None)"

definition imp_select :: "(session \<Rightarrow> bool) \<Rightarrow> imp_store \<Rightarrow> session list" where
  "imp_select P s = List.map_filter (imp_join s) (filter P (imp_sessions s))"

definition imp_insert_ok :: "session \<Rightarrow> imp_store \<Rightarrow> bool" where
  "imp_insert_ok x s \<longleftrightarrow>
     find_user s (ses_actor x) \<noteq> None \<and> find_user s (ses_target x) \<noteq> None \<and>
     ses_actor x \<noteq> ses_target x \<and> ses_started x < ses_expires x \<and>
     (ses_state x = StateActive \<longleftrightarrow> ses_ended x = None) \<and>
     MinReasonLength \<le> rune_count (ses_reason x) \<and> rune_count (ses_reason x) \<le> MaxReasonLength"

definition imp_create :: "session \<Rightarrow> unit imp_comp" where
  "imp_create x = within_tx (db_call (\<lambda>s.
     if \<not> imp_insert_ok x s then (Inl StoreFail, s)
     else if ses_uuid x \<in> set (map ses_uuid (imp_sessions s)) \<or>
             list_ex (\<lambda>y. ses_actor y = ses_actor x \<and> ses_state y = StateActive) (imp_sessions s)
     then (Inl (Err ImpAlreadyActive), s)
     else (Inr (), s\<lparr>imp_sessions := imp_sessions s @ [x]\<rparr>)))"

definition imp_get :: "uuid \<Rightarrow> session imp_comp" where
  "imp_get u = db_call (\<lambda>s. case imp_select (\<lambda>x. ses_uuid x = u) s of
                              [] \<Rightarrow> (Inl (Err ImpNotFound), s)
                            | x # _ \<Rightarrow> (Inr x, s))"

definition imp_active_for :: "uuid \<Rightarrow> session option imp_comp" where
  "imp_active_for actor = db_call (asks (\<lambda>s.
     case imp_select (\<lambda>x. ses_actor x = actor \<and> ses_state x = StateActive) s of
       [] \<Rightarrow> None
     | x # _ \<Rightarrow> Some x))"

definition end_row :: "uuid \<Rightarrow> imp_state \<Rightarrow> end_reason \<Rightarrow> instant \<Rightarrow> session \<Rightarrow> session" where
  "end_row u st r at x =
     (if ses_uuid x = u \<and> ses_state x = StateActive
      then x\<lparr>ses_state := st, ses_end_reason := Some r, ses_ended := Some at\<rparr> else x)"

definition imp_end :: "uuid \<Rightarrow> imp_state \<Rightarrow> end_reason \<Rightarrow> instant \<Rightarrow> bool imp_comp" where
  "imp_end u st r at = db_call (\<lambda>s.
     (Inr (length (filter (\<lambda>x. ses_uuid x = u \<and> ses_state x = StateActive) (imp_sessions s)) = 1),
      s\<lparr>imp_sessions := map (end_row u st r at) (imp_sessions s)\<rparr>))"

definition imp_expired :: "instant \<Rightarrow> nat \<Rightarrow> session list imp_comp" where
  "imp_expired now limit = db_call (asks (\<lambda>s.
     take limit (sort_key ses_expires
       (imp_select (\<lambda>x. ses_state x = StateActive \<and> ses_expires x \<le> now) s))))"

section \<open>The service\<close>

definition endEvents :: "end_reason \<Rightarrow> imp_event_type" where
  "endEvents r = (case r of EndManual \<Rightarrow> ImpersonationExited | EndExpired \<Rightarrow> ImpersonationExpired
                  | EndPolicy \<Rightarrow> ImpersonationRevoked | EndBaseSession \<Rightarrow> ImpersonationRevoked)"

definition lifecycleEvent ::
  "imp_event_type \<Rightarrow> session \<Rightarrow> end_reason option \<Rightarrow> instant \<Rightarrow> imp_event" where
  "lifecycleEvent typ x r at = \<lparr>ie_type = typ, ie_session = ses_uuid x, ie_actor = ses_actor x,
     ie_target = ses_target x, ie_started = ses_started x, ie_expires = ses_expires x,
     ie_reason = r, ie_at = at\<rparr>"

definition imp_record :: "imp_event \<Rightarrow> unit imp_comp" where
  "imp_record e = db_call (change (\<lambda>s. s\<lparr>imp_events := imp_events s @ [e]\<rparr>))"

text \<open>\<open>end\<close> of the service; \<open>end\<close> itself is a keyword.\<close>

definition imp_finish :: "session \<Rightarrow> imp_state \<Rightarrow> end_reason \<Rightarrow> instant \<Rightarrow> session imp_comp" where
  "imp_finish x st r now =
     andthen (within_tx (
       andthen (imp_end (ses_uuid x) st r now) (\<lambda>changed.
       if \<not> changed then ret False
       else andthen (imp_record (lifecycleEvent (endEvents r) x (Some r) now)) (\<lambda>_. ret True)))) (\<lambda>changed.
     ret (if changed then x\<lparr>ses_state := st, ses_ended := Some now, ses_end_reason := Some r\<rparr> else x))"

record start_input =
  si_actor :: uuid
  si_target :: uuid
  si_family :: uuid
  si_reason :: string
  si_password :: string
  si_code :: string
  si_ip :: string
  si_agent :: string

record access_claims =
  ac_subject :: uuid
  ac_issued :: instant
  ac_expires :: instant
  ac_id :: uuid
  ac_actor :: uuid
  ac_session :: uuid

definition imp_enforced :: "uuid \<Rightarrow> string \<Rightarrow> bool imp_comp" where
  "imp_enforced u p = db_call (asks (\<lambda>s. imp_enforce s u p))"

definition authorizeStart :: "start_input \<Rightarrow> unit imp_comp" where
  "authorizeStart i =
     andthen (imp_enforced (si_actor i) PermissionStart) (\<lambda>allowed.
     if \<not> allowed then throw ImpForbidden
     else andthen (db_call (asks (\<lambda>s. imp_stepup s (si_actor i) (si_password i) (si_code i)))) (\<lambda>verified.
     if \<not> verified then throw ImpStepUpRequired
     else if si_family i = uuid_nil then throw ImpSignInRequired
     else ret ()))"

definition eligibleTarget :: "string \<Rightarrow> uuid \<Rightarrow> uuid \<Rightarrow> imp_user imp_comp" where
  "eligibleTarget adminRole actor target =
     (if actor = target then throw ImpIneligible
      else
      andthen (db_call (asks (\<lambda>s. find (\<lambda>x. iu_uuid x = target \<and> \<not> iu_deleted x) (imp_users s)))) (\<lambda>found.
      case found of
        None \<Rightarrow> throw ImpIneligible
      | Some t \<Rightarrow>
          if \<not> iu_ok t then throw ImpIneligible
          else
          andthen (db_call (asks (\<lambda>s. imp_grants s actor))) (\<lambda>actorGrants.
          andthen (db_call (asks (\<lambda>s. imp_grants s target))) (\<lambda>targetGrants.
          if \<not> CanImpersonate actorGrants targetGrants adminRole then throw ImpIneligible
          else ret t))))"

definition closeLapsed :: "uuid \<Rightarrow> instant \<Rightarrow> unit imp_comp" where
  "closeLapsed actor now =
     andthen (imp_active_for actor) (\<lambda>found.
     case found of
       None \<Rightarrow> ret ()
     | Some x \<Rightarrow>
         if \<not> ActiveAt x now
         then andthen (imp_finish x StateExpired EndExpired now) (\<lambda>_. ret ())
         else if \<not> BaseSessionActiveAt x now
         then andthen (imp_finish x StateRevoked EndBaseSession now) (\<lambda>_. ret ())
         else ret ())"

definition start_tx :: "session \<Rightarrow> uuid \<Rightarrow> instant \<Rightarrow> access_claims imp_comp" where
  "start_tx x tokenID now = within_tx (
     andthen (imp_create x) (\<lambda>_.
     andthen (db_call (ret
       \<lparr>ac_subject = ses_target x, ac_issued = now, ac_expires = ses_expires x, ac_id = tokenID,
        ac_actor = ses_actor x, ac_session = ses_uuid x\<rparr>)) (\<lambda>token.
     andthen (imp_record (lifecycleEvent ImpersonationStarted x None now)) (\<lambda>_.
     ret token))))"

definition imp_Start ::
  "instant \<Rightarrow> string \<Rightarrow> instant \<Rightarrow> uuid \<Rightarrow> uuid \<Rightarrow> start_input \<Rightarrow> (session \<times> imp_user \<times> access_claims) imp_comp" where
  "imp_Start ttl adminRole now newID tokenID i =
     (let reason = trim_space (si_reason i); n = rune_count reason in
      if n < MinReasonLength \<or> n > MaxReasonLength then throw ImpValidation
      else
      andthen (authorizeStart i) (\<lambda>_.
      andthen (eligibleTarget adminRole (si_actor i) (si_target i)) (\<lambda>target.
      andthen (closeLapsed (si_actor i) now) (\<lambda>_.
      let x = \<lparr>ses_uuid = newID, ses_actor = si_actor i, ses_target = si_target i,
               ses_state = StateActive, ses_reason = reason, ses_ip = si_ip i, ses_agent = si_agent i,
               ses_started = now, ses_expires = now + ttl, ses_ended = None, ses_end_reason = None,
               ses_family = si_family i, ses_participants = False, ses_base_until = None\<rparr>
      in andthen (start_tx x tokenID now) (\<lambda>token. ret (x, target, token))))))"

definition endAndDeny :: "session \<Rightarrow> imp_state \<Rightarrow> end_reason \<Rightarrow> instant \<Rightarrow> unit imp_comp" where
  "endAndDeny x st r now = andthen (imp_finish x st r now) (\<lambda>_. throw ImpEnded)"

definition imp_lookup :: "uuid \<Rightarrow> session option imp_comp" where
  "imp_lookup u s =
     (case imp_get u s of
        (Inl e, t) \<Rightarrow> if e = Err ImpNotFound then (Inr None, t) else (Inl e, t)
      | (Inr x, t) \<Rightarrow> (Inr (Some x), t))"

text \<open>\<open>parse\<close> stands for \<open>uuid.Parse\<close>.\<close>

definition imp_Verify ::
  "(string \<Rightarrow> uuid option) \<Rightarrow> instant \<Rightarrow> string \<Rightarrow> uuid \<Rightarrow> uuid \<Rightarrow> unit imp_comp" where
  "imp_Verify parse now sessionID actor target =
     (case parse sessionID of
        None \<Rightarrow> throw ImpEnded
      | Some u \<Rightarrow>
          andthen (imp_lookup u) (\<lambda>found.
          case found of
            None \<Rightarrow> throw ImpEnded
          | Some x \<Rightarrow>
              if ses_actor x \<noteq> actor \<or> ses_target x \<noteq> target then throw ImpEnded
              else if ses_state x \<noteq> StateActive then throw ImpEnded
              else if \<not> ActiveAt x now then endAndDeny x StateExpired EndExpired now
              else if \<not> BaseSessionActiveAt x now then endAndDeny x StateRevoked EndBaseSession now
              else
              andthen (if ses_participants x then imp_enforced actor PermissionStart else ret False) (\<lambda>allowed.
              if \<not> allowed then endAndDeny x StateRevoked EndPolicy now else ret ())))"

definition imp_find :: "uuid \<Rightarrow> uuid option \<Rightarrow> session option imp_comp" where
  "imp_find actor sessionID =
     (case sessionID of
        None \<Rightarrow> imp_active_for actor
      | Some u \<Rightarrow>
          andthen (imp_lookup u) (\<lambda>found.
          ret (case found of None \<Rightarrow> None | Some x \<Rightarrow> if ses_actor x = actor then Some x else None)))"

definition imp_Stop :: "instant \<Rightarrow> uuid \<Rightarrow> uuid option \<Rightarrow> session imp_comp" where
  "imp_Stop now actor sessionID =
     andthen (imp_find actor sessionID) (\<lambda>found.
     case found of
       None \<Rightarrow> throw ImpNotFound
     | Some x \<Rightarrow>
         if ses_state x \<noteq> StateActive then throw ImpNotFound
         else if \<not> ActiveAt x now then imp_finish x StateExpired EndExpired now
         else imp_finish x StateExited EndManual now)"

definition imp_Current :: "instant \<Rightarrow> uuid \<Rightarrow> uuid option \<Rightarrow> (session \<times> bool) option imp_comp" where
  "imp_Current now actor sessionID =
     andthen (imp_find actor sessionID) (\<lambda>found.
     ret (case found of None \<Rightarrow> None | Some x \<Rightarrow> Some (x, ActiveAt x now)))"

text \<open>The loop of \<open>ExpireStale\<close>; the count that comes back beside an error is dropped.\<close>

fun expire_loop :: "instant \<Rightarrow> session list \<Rightarrow> nat \<Rightarrow> nat imp_comp" where
  "expire_loop now [] closed = ret closed"
| "expire_loop now (x # xs) closed =
     andthen (imp_finish x StateExpired EndExpired now) (\<lambda>y.
     expire_loop now xs (if ses_state y = StateExpired then Suc closed else closed))"

definition ExpireStale :: "instant \<Rightarrow> nat \<Rightarrow> nat imp_comp" where
  "ExpireStale now limit = andthen (imp_expired now limit) (\<lambda>xs. expire_loop now xs 0)"

end
