(* ===== verification/Impersonation_Correct.thy ===== *)
theory Impersonation_Correct
  imports Impersonation
begin

text \<open>
  Every impersonation session goes from active to exactly one end and never back, an actor has at
  most one active session, and the outbox tells the story of each session; a token is accepted only
  while everything its session rests on still holds.
\<close>

section \<open>Rows and events\<close>

definition ses_core :: "session \<Rightarrow> uuid \<times> uuid \<times> uuid \<times> instant \<times> instant" where
  "ses_core x = (ses_uuid x, ses_actor x, ses_target x, ses_started x, ses_expires x)"

definition end_match :: "imp_state \<Rightarrow> end_reason \<Rightarrow> bool" where
  "end_match st r \<longleftrightarrow>
     (st, r) \<in> {(StateExited, EndManual), (StateExpired, EndExpired), (StateRevoked, EndPolicy), (StateRevoked, EndBaseSession)}"

definition session_ok :: "session \<Rightarrow> bool" where
  "session_ok x \<longleftrightarrow>
     ses_actor x \<noteq> ses_target x \<and> ses_started x < ses_expires x \<and>
     MinReasonLength \<le> rune_count (ses_reason x) \<and> rune_count (ses_reason x) \<le> MaxReasonLength \<and>
     (if ses_state x = StateActive then ses_ended x = None \<and> ses_end_reason x = None
      else ses_ended x \<noteq> None \<and> (\<exists>r. ses_end_reason x = Some r \<and> end_match (ses_state x) r))"

definition story :: "session \<Rightarrow> imp_event list" where
  "story x = lifecycleEvent ImpersonationStarted x None (ses_started x) #
     (case (ses_end_reason x, ses_ended x) of
        (Some r, Some at) \<Rightarrow> [lifecycleEvent (endEvents r) x (Some r) at]
      | _ \<Rightarrow> [])"

definition events_of :: "uuid \<Rightarrow> imp_event list \<Rightarrow> imp_event list" where
  "events_of u es = filter (\<lambda>e. ie_session e = u) es"

definition imp_inv :: "imp_store \<Rightarrow> bool" where
  "imp_inv s \<longleftrightarrow>
     distinct (map ses_uuid (imp_sessions s)) \<and> list_all session_ok (imp_sessions s) \<and>
     distinct (map ses_actor (filter (\<lambda>x. ses_state x = StateActive) (imp_sessions s))) \<and>
     (\<forall>x \<in> set (imp_sessions s). events_of (ses_uuid x) (imp_events s) = story x) \<and>
     ie_session ` set (imp_events s) \<subseteq> ses_uuid ` set (imp_sessions s)"

lemma imp_inv_cong:
  "imp_sessions t = imp_sessions s \<Longrightarrow> imp_events t = imp_events s \<Longrightarrow> imp_inv t = imp_inv s"
  by (simp add: imp_inv_def)

lemma imp_inv_calls [simp]: "imp_inv (s\<lparr>calls := n\<rparr>) = imp_inv s"
  by (rule imp_inv_cong) simp_all

lemma end_row_simps [simp]:
  "ses_uuid (end_row u st r at x) = ses_uuid x" "ses_actor (end_row u st r at x) = ses_actor x"
  "ses_core (end_row u st r at x) = ses_core x"
  by (simp_all add: end_row_def ses_core_def)

section \<open>How sessions evolve\<close>

definition row_evolves :: "session \<Rightarrow> session \<Rightarrow> bool" where
  "row_evolves x y \<longleftrightarrow> y = x \<or> ses_state x = StateActive \<and> ses_state y \<noteq> StateActive \<and> ses_core y = ses_core x"

definition evolves :: "imp_store \<Rightarrow> imp_store \<Rightarrow> bool" where
  "evolves s t \<longleftrightarrow>
     (\<exists>old new. imp_sessions t = old @ new \<and> list_all2 row_evolves (imp_sessions s) old)"

lemma row_evolves_refl [simp]: "row_evolves x x"
  by (simp add: row_evolves_def)

lemma row_evolves_trans: "row_evolves x y \<Longrightarrow> row_evolves y z \<Longrightarrow> row_evolves x z"
  by (auto simp: row_evolves_def)

lemma evolves_sessions: "imp_sessions t = imp_sessions s \<Longrightarrow> evolves s t"
  unfolding evolves_def by (intro exI [of _ "imp_sessions s"] exI [of _ "[]"]) (simp add: list_all2_refl)

lemma evolves_refl [simp]: "evolves s s"
  by (rule evolves_sessions) simp

lemma evolves_trans:
  assumes "evolves s t" "evolves t u"
  shows "evolves s u"
proof -
  obtain o1 n1 where a: "imp_sessions t = o1 @ n1" "list_all2 row_evolves (imp_sessions s) o1"
    using assms(1) by (auto simp: evolves_def)
  obtain o2 n2 where b: "imp_sessions u = o2 @ n2" "list_all2 row_evolves (imp_sessions t) o2"
    using assms(2) by (auto simp: evolves_def)
  from b(2) a(1) obtain p q where pq: "o2 = p @ q" "list_all2 row_evolves o1 p"
    by (auto simp: list_all2_append1)
  have "list_all2 row_evolves (imp_sessions s) p"
    using list_all2_trans [OF row_evolves_trans a(2) pq(2)] .
  then show ?thesis unfolding evolves_def using b(1) pq(1) by (intro exI [of _ p] exI [of _ "q @ n2"]) simp
qed

lemma evolves_row:
  assumes "evolves s t" "x \<in> set (imp_sessions s)"
  shows "\<exists>y \<in> set (imp_sessions t). row_evolves x y"
  using assms by (auto simp: evolves_def list_all2_conv_all_nth in_set_conv_nth) (metis nth_append nth_mem UnCI)

section \<open>Ending a session\<close>

definition active_row :: "uuid \<Rightarrow> session list \<Rightarrow> bool" where
  "active_row u xs \<longleftrightarrow> (\<exists>y \<in> set xs. ses_uuid y = u \<and> ses_state y = StateActive)"

definition imp_world ::
  "imp_store \<Rightarrow> imp_user list \<times> refresh_session list \<times> (uuid \<Rightarrow> string \<Rightarrow> bool) \<times> (uuid \<Rightarrow> grants) \<times>
     (uuid \<Rightarrow> string \<Rightarrow> string \<Rightarrow> bool)" where
  "imp_world s = (imp_users s, imp_refresh s, imp_enforce s, imp_grants s, imp_stepup s)"

definition finished :: "session \<Rightarrow> imp_state \<Rightarrow> end_reason \<Rightarrow> instant \<Rightarrow> imp_store \<Rightarrow> imp_store \<Rightarrow> bool" where
  "finished x st r now s t \<longleftrightarrow>
     imp_sessions t = map (end_row (ses_uuid x) st r now) (imp_sessions s) \<and>
     imp_events t = imp_events s @ (if active_row (ses_uuid x) (imp_sessions s)
       then [lifecycleEvent (endEvents r) x (Some r) now] else []) \<and>
     imp_world t = imp_world s"

lemma count_active:
  assumes "distinct (map ses_uuid xs)"
  shows "length (filter (\<lambda>x. ses_uuid x = u \<and> ses_state x = StateActive) xs) = 1 \<longleftrightarrow> active_row u xs"
    and "\<not> active_row u xs \<Longrightarrow> map (end_row u st r at) xs = xs"
proof -
  show "length (filter (\<lambda>x. ses_uuid x = u \<and> ses_state x = StateActive) xs) = 1 \<longleftrightarrow> active_row u xs"
    using assms
  proof (induction xs)
    case (Cons x xs)
    have "filter (\<lambda>y. ses_uuid y = u \<and> ses_state y = StateActive) xs = []" if "ses_uuid x = u"
      using Cons.prems that by (auto simp: filter_empty_conv image_iff)
    then show ?case using Cons by (auto simp: active_row_def)
  qed (simp add: active_row_def)
  show "\<not> active_row u xs \<Longrightarrow> map (end_row u st r at) xs = xs"
    by (intro map_idI) (auto simp: end_row_def active_row_def)
qed

lemma imp_finish_wp:
  assumes "distinct (map ses_uuid (imp_sessions s))"
  shows "wp (imp_finish x st r now)
     (\<lambda>y t. finished x st r now s t \<and>
        y = (if active_row (ses_uuid x) (imp_sessions s)
             then x\<lparr>ses_state := st, ses_ended := Some now, ses_end_reason := Some r\<rparr> else x))
     (\<lambda>_. unchanged s) s"
  using count_active [OF assms, of "ses_uuid x"]
  by (auto simp: imp_finish_def imp_end_def imp_record_def wp_simps finished_def imp_world_def)

lemma finished_active:
  "finished x st r now s t \<Longrightarrow> st \<noteq> StateActive \<Longrightarrow>
   filter (\<lambda>y. ses_state y = StateActive) (imp_sessions t) =
   filter (\<lambda>y. ses_uuid y \<noteq> ses_uuid x) (filter (\<lambda>y. ses_state y = StateActive) (imp_sessions s))"
proof -
  assume f: "finished x st r now s t" "st \<noteq> StateActive"
  have "filter (\<lambda>y. ses_state y = StateActive) (map (end_row u st r now) xs) =
      filter (\<lambda>y. ses_uuid y \<noteq> u) (filter (\<lambda>y. ses_state y = StateActive) xs)" for u xs
    using f(2) by (induction xs) (auto simp: end_row_def)
  then show ?thesis using f(1) by (simp add: finished_def)
qed

lemma finished_evolves:
  assumes "finished x st r now s t" "st \<noteq> StateActive"
  shows "evolves s t"
  unfolding evolves_def
proof (intro exI conjI)
  show "imp_sessions t = map (end_row (ses_uuid x) st r now) (imp_sessions s) @ []"
    using assms(1) by (simp add: finished_def)
  have "row_evolves y (end_row (ses_uuid x) st r now y)" for y
    using assms(2) by (simp add: row_evolves_def end_row_def ses_core_def)
  then show "list_all2 row_evolves (imp_sessions s) (map (end_row (ses_uuid x) st r now) (imp_sessions s))"
    by (simp add: list_all2_conv_all_nth)
qed

lemma finished_inv:
  assumes i: "imp_inv s" and f: "finished x st r now s t" and m: "end_match st r"
    and c: "ses_core x \<in> ses_core ` set (imp_sessions s)"
  shows "imp_inv t"
proof -
  have na: "st \<noteq> StateActive" using m by (auto simp: end_match_def)
  have rows: "imp_sessions t = map (end_row (ses_uuid x) st r now) (imp_sessions s)"
    and evs: "imp_events t = imp_events s @ (if active_row (ses_uuid x) (imp_sessions s)
       then [lifecycleEvent (endEvents r) x (Some r) now] else [])"
    using f by (auto simp: finished_def)
  have ids: "ses_uuid ` set (imp_sessions t) = ses_uuid ` set (imp_sessions s)" by (simp add: rows image_image)
  obtain x0 where x0: "x0 \<in> set (imp_sessions s)" "ses_core x = ses_core x0" using c by auto
  have "events_of (ses_uuid y) (imp_events t) = story (end_row (ses_uuid x) st r now y)"
    if y: "y \<in> set (imp_sessions s)" for y
  proof -
    have e: "events_of (ses_uuid y) (imp_events s) = story y" using i y by (simp add: imp_inv_def)
    have ok: "session_ok y" using i y by (simp add: imp_inv_def list_all_iff)
    show ?thesis
    proof (cases "ses_uuid y = ses_uuid x")
      case True
      then have "ses_uuid y = ses_uuid x0" using x0(2) by (simp add: ses_core_def)
      then have yx: "y = x0" using i y x0(1) by (auto simp: imp_inv_def distinct_map inj_on_def)
      have act: "active_row (ses_uuid x) (imp_sessions s) \<longleftrightarrow> ses_state y = StateActive"
        using i y True by (auto simp: imp_inv_def active_row_def distinct_map inj_on_def)
      have "lifecycleEvent ty x q a = lifecycleEvent ty y q a" for ty q a
        using x0(2) yx by (simp add: lifecycleEvent_def ses_core_def)
      moreover have "lifecycleEvent ty (y\<lparr>ses_state := st, ses_end_reason := a1, ses_ended := a2\<rparr>) q a =
          lifecycleEvent ty y q a" for ty q a a1 a2 by (simp add: lifecycleEvent_def)
      moreover have "ie_session (lifecycleEvent ty y q a) = ses_uuid y" for ty q a by (simp add: lifecycleEvent_def)
      ultimately show ?thesis using e ok True act
        by (auto simp: evs events_of_def end_row_def story_def session_ok_def)
    next
      case False
      then show ?thesis using e by (simp add: evs events_of_def end_row_def lifecycleEvent_def)
    qed
  qed
  moreover have "list_all session_ok (imp_sessions t)"
    using i m na unfolding rows by (auto simp: imp_inv_def list_all_iff session_ok_def end_row_def)
  moreover have "distinct (map ses_actor (filter (\<lambda>y. ses_state y = StateActive) (imp_sessions t)))"
    unfolding finished_active [OF f na] by (rule distinct_map_filter) (use i in \<open>simp add: imp_inv_def\<close>)
  moreover have "ie_session ` set (imp_events t) \<subseteq> ses_uuid ` set (imp_sessions t)"
    unfolding ids using i x0 by (auto simp: evs imp_inv_def lifecycleEvent_def ses_core_def)
  ultimately show ?thesis using i by (simp add: imp_inv_def rows comp_def)
qed

section \<open>Reads\<close>

lemma map_filter_mem: "x \<in> set (List.map_filter f xs) \<longleftrightarrow> (\<exists>y \<in> set xs. f y = Some x)"
  by (induction xs) (auto simp: List.map_filter_def)

lemma imp_join_Some:
  "imp_join s y = Some x \<longleftrightarrow>
     (\<exists>a b. find_user s (ses_actor y) = Some a \<and> find_user s (ses_target y) = Some b \<and>
        x = y\<lparr>ses_participants := iu_ok a \<and> iu_ok b, ses_base_until := base_until s y\<rparr>)"
  by (auto simp: imp_join_def split: option.split)

lemma imp_select_iff:
  "x \<in> set (imp_select P s) \<longleftrightarrow>
     (\<exists>y a b. y \<in> set (imp_sessions s) \<and> P y \<and> find_user s (ses_actor y) = Some a \<and>
        find_user s (ses_target y) = Some b \<and>
        x = y\<lparr>ses_participants := iu_ok a \<and> iu_ok b, ses_base_until := base_until s y\<rparr>)"
  unfolding imp_select_def map_filter_mem imp_join_Some by auto

lemma imp_select_empty:
  assumes "imp_select P s = []" "x \<in> set (imp_sessions s)" "P x"
  shows "find_user s (ses_actor x) = None \<or> find_user s (ses_target x) = None"
proof (rule ccontr)
  assume "\<not> ?thesis"
  then obtain a b where "find_user s (ses_actor x) = Some a" "find_user s (ses_target x) = Some b" by auto
  then have "x\<lparr>ses_participants := iu_ok a \<and> iu_ok b, ses_base_until := base_until s x\<rparr> \<in> set (imp_select P s)"
    using assms(2,3) unfolding imp_select_iff by blast
  then show False using assms(1) by simp
qed

lemma reads_calls [simp]:
  "find_user (s\<lparr>calls := n\<rparr>) = find_user s" "base_until (s\<lparr>calls := n\<rparr>) = base_until s"
  "imp_join (s\<lparr>calls := n\<rparr>) = imp_join s" "imp_select P (s\<lparr>calls := n\<rparr>) = imp_select P s"
proof -
  show f: "find_user (s\<lparr>calls := n\<rparr>) = find_user s" and b: "base_until (s\<lparr>calls := n\<rparr>) = base_until s"
    by (simp_all add: fun_eq_iff find_user_def base_until_def)
  show j: "imp_join (s\<lparr>calls := n\<rparr>) = imp_join s" unfolding fun_eq_iff imp_join_def f b by simp
  show "imp_select P (s\<lparr>calls := n\<rparr>) = imp_select P s" by (simp add: imp_select_def j)
qed

definition first_of :: "'a list \<Rightarrow> 'a option" where
  "first_of xs = (case xs of [] \<Rightarrow> None | x # _ \<Rightarrow> Some x)"

lemma first_of_Some: "first_of xs = Some x \<Longrightarrow> x \<in> set xs"
  by (cases xs) (auto simp: first_of_def)

lemma first_of_None: "first_of xs = None \<longleftrightarrow> xs = []"
  by (cases xs) (auto simp: first_of_def)

lemma wp_imp_active_for [wp_simps]:
  "wp (imp_active_for a) Q F s =
     (if fails s (calls s) then F StoreFail (s\<lparr>calls := Suc (calls s)\<rparr>)
      else Q (first_of (imp_select (\<lambda>x. ses_actor x = a \<and> ses_state x = StateActive) s)) (s\<lparr>calls := Suc (calls s)\<rparr>))"
  by (simp add: imp_active_for_def wp_simps first_of_def)

lemma wp_imp_lookup [wp_simps]:
  "wp (imp_lookup u) Q F s =
     (if fails s (calls s) then F StoreFail (s\<lparr>calls := Suc (calls s)\<rparr>)
      else Q (first_of (imp_select (\<lambda>x. ses_uuid x = u) s)) (s\<lparr>calls := Suc (calls s)\<rparr>))"
  by (simp add: wp_def imp_lookup_def imp_get_def db_call_def first_of_def split: list.split)

lemma imp_select_core:
  "x \<in> set (imp_select P s) \<Longrightarrow> ses_core x \<in> ses_core ` set (imp_sessions s)"
  by (auto simp: imp_select_iff ses_core_def image_iff)

section \<open>The requests keep the invariant\<close>

text \<open>What every request guarantees of the sessions, whether it succeeds or fails.\<close>

definition good :: "imp_store \<Rightarrow> imp_store \<Rightarrow> bool" where
  "good s t \<longleftrightarrow> imp_inv t \<and> evolves s t \<and> imp_world t = imp_world s"

lemma good_refl: "imp_inv s \<Longrightarrow> good s s"
  by (simp add: good_def)

lemma good_trans: "good s t \<Longrightarrow> good t u \<Longrightarrow> good s u"
  by (auto simp: good_def intro: evolves_trans)

lemma good_unchanged: "imp_inv s \<Longrightarrow> unchanged s t \<Longrightarrow> good s t"
  by (auto simp: good_def unchanged_def imp_world_def intro!: evolves_sessions)

lemma good_calls [simp]: "good s (t\<lparr>calls := n\<rparr>) = good s t" "good (s\<lparr>calls := n\<rparr>) = good s"
  by (simp_all add: fun_eq_iff good_def evolves_def imp_world_def)

lemma inv_distinct: "imp_inv s \<Longrightarrow> distinct (map ses_uuid (imp_sessions s))"
  by (simp add: imp_inv_def)

lemma finished_good:
  assumes "imp_inv s" "finished x st r now s t" "end_match st r" "ses_core x \<in> ses_core ` set (imp_sessions s)"
  shows "good s t"
proof -
  have "st \<noteq> StateActive" using assms(3) by (auto simp: end_match_def)
  moreover have "imp_world t = imp_world s" using assms(2) by (simp add: finished_def)
  ultimately show ?thesis using finished_inv [OF assms] finished_evolves [OF assms(2)] by (simp add: good_def)
qed

lemma imp_finish_good:
  assumes "imp_inv s" "end_match st r" "ses_core x \<in> ses_core ` set (imp_sessions s)"
  shows "wp (imp_finish x st r now) (\<lambda>_. good s) (\<lambda>_. good s) s"
  by (rule wp_mono [OF imp_finish_wp]) (use assms finished_good good_unchanged inv_distinct in blast)+

lemma end_matches [simp]:
  "end_match StateExited EndManual" "end_match StateExpired EndExpired"
  "end_match StateRevoked EndPolicy" "end_match StateRevoked EndBaseSession"
  by (simp_all add: end_match_def)

lemma endAndDeny_good:
  assumes "imp_inv s" "end_match st r" "ses_core x \<in> ses_core ` set (imp_sessions s)"
  shows "wp (endAndDeny x st r now) Q (\<lambda>_. good s) s"
  unfolding endAndDeny_def wp_simps by (rule imp_finish_good [OF assms])

lemma imp_Verify_good:
  assumes i: "imp_inv s"
  shows "wp (imp_Verify parse now sid actor target) (\<lambda>_. good s) (\<lambda>_. good s) s"
proof (cases "parse sid")
  case None
  then show ?thesis using good_refl [OF i] by (simp add: imp_Verify_def wp_simps)
next
  case (Some u)
  let ?f = "first_of (imp_select (\<lambda>x. ses_uuid x = u) s)"
  have deny: "wp (endAndDeny x st r now) (\<lambda>_. good s) (\<lambda>_. good s) (s\<lparr>calls := n\<rparr>)"
    if "?f = Some x" "end_match st r" for x st r n
    using endAndDeny_good [of "s\<lparr>calls := n\<rparr>" st r x] i that imp_select_core [OF first_of_Some [OF that(1)]] by simp
  show ?thesis using Some deny good_refl [OF i]
    by (cases ?f) (auto simp: imp_Verify_def imp_enforced_def wp_simps)
qed

lemma imp_find_core:
  assumes "imp_inv s"
  shows "wp (imp_find actor sid)
     (\<lambda>r t. unchanged s t \<and> (\<forall>x. r = Some x \<longrightarrow> ses_core x \<in> ses_core ` set (imp_sessions s) \<and> ses_actor x = actor))
     (\<lambda>_. unchanged s) s"
proof -
  have act: "ses_actor x = actor" if "first_of (imp_select (\<lambda>x. ses_actor x = actor \<and> ses_state x = StateActive) s) = Some x" for x
    using first_of_Some [OF that] by (auto simp: imp_select_iff)
  have core: "ses_core x \<in> ses_core ` set (imp_sessions s)" if "first_of (imp_select P s) = Some x" for x P
    by (rule imp_select_core [OF first_of_Some [OF that]])
  show ?thesis
  proof (cases sid)
    case None
    then show ?thesis using act core by (auto simp: imp_find_def wp_simps)
  next
    case (Some u)
    then show ?thesis using core
      by (cases "first_of (imp_select (\<lambda>x. ses_uuid x = u) s)") (auto simp: imp_find_def wp_simps)
  qed
qed

lemma imp_Stop_good:
  assumes i: "imp_inv s"
  shows "wp (imp_Stop now actor sid) (\<lambda>_. good s) (\<lambda>_. good s) s"
  unfolding imp_Stop_def wp_andthen
proof (rule wp_mono [OF imp_find_core [OF i]])
  fix r t assume t: "unchanged s t \<and> (\<forall>x. r = Some x \<longrightarrow> ses_core x \<in> ses_core ` set (imp_sessions s) \<and> ses_actor x = actor)"
  then obtain n where n: "t = s\<lparr>calls := n\<rparr>" by (auto simp: unchanged_def)
  have "wp (imp_finish x st q now) (\<lambda>_. good s) (\<lambda>_. good s) t" if "r = Some x" "end_match st q" for x st q
    using imp_finish_good [of t st q x now] i t that n by simp
  then show "wp (case r of None \<Rightarrow> throw ImpNotFound | Some x \<Rightarrow>
         if ses_state x \<noteq> StateActive then throw ImpNotFound
         else if \<not> ActiveAt x now then imp_finish x StateExpired EndExpired now
         else imp_finish x StateExited EndManual now) (\<lambda>_. good s) (\<lambda>_. good s) t"
    using good_refl [OF i] n by (cases r) (auto simp: wp_simps)
qed (use good_unchanged [OF i] in blast)

lemma cores_evolve: "evolves s t \<Longrightarrow> ses_core ` set (imp_sessions s) \<subseteq> ses_core ` set (imp_sessions t)"
proof
  fix c assume "evolves s t" "c \<in> ses_core ` set (imp_sessions s)"
  then obtain x y where "c = ses_core x" "y \<in> set (imp_sessions t)" "row_evolves x y" using evolves_row by blast
  then show "c \<in> ses_core ` set (imp_sessions t)" by (auto simp: row_evolves_def intro: rev_image_eqI)
qed

lemma expire_loop_good:
  assumes "imp_inv s" "ses_core ` set xs \<subseteq> ses_core ` set (imp_sessions s)"
  shows "wp (expire_loop now xs n) (\<lambda>_. good s) (\<lambda>_. good s) s"
  using assms
proof (induction xs arbitrary: n s)
  case Nil
  then show ?case by (simp add: wp_simps good_refl)
next
  case (Cons x xs)
  show ?case unfolding expire_loop.simps wp_andthen
  proof (rule wp_mono [OF imp_finish_good])
    fix y t assume t: "good s t"
    then have "ses_core ` set (imp_sessions s) \<subseteq> ses_core ` set (imp_sessions t)"
      using cores_evolve by (simp add: good_def)
    moreover have "ses_core ` set xs \<subseteq> ses_core ` set (imp_sessions s)" using Cons.prems(2) by simp
    ultimately have "ses_core ` set xs \<subseteq> ses_core ` set (imp_sessions t)" by (rule subset_trans [rotated])
    with t show "wp (expire_loop now xs (if ses_state y = StateExpired then Suc n else n)) (\<lambda>_. good s) (\<lambda>_. good s) t"
      by (intro wp_mono [OF Cons.IH]) (auto simp: good_def intro: evolves_trans)
  qed (use Cons.prems in auto)
qed

lemma ExpireStale_good:
  assumes i: "imp_inv s"
  shows "wp (ExpireStale now limit) (\<lambda>_. good s) (\<lambda>_. good s) s"
proof -
  let ?xs = "take limit (sort_key ses_expires (imp_select (\<lambda>x. ses_state x = StateActive \<and> ses_expires x \<le> now) s))"
  have "ses_core ` set ?xs \<subseteq> ses_core ` set (imp_sessions s)"
    using imp_select_core by (auto dest!: in_set_takeD)
  then have "wp (expire_loop now ?xs 0) (\<lambda>_. good s) (\<lambda>_. good s) (s\<lparr>calls := n\<rparr>)" for n
    using expire_loop_good [of "s\<lparr>calls := n\<rparr>" ?xs now 0] i by simp
  then show ?thesis using good_refl [OF i] by (simp add: ExpireStale_def imp_expired_def wp_simps)
qed

section \<open>Starting a session\<close>

lemma closeLapsed_good:
  assumes i: "imp_inv s"
  shows "wp (closeLapsed actor now) (\<lambda>_. good s) (\<lambda>_. good s) s"
proof -
  let ?f = "first_of (imp_select (\<lambda>x. ses_actor x = actor \<and> ses_state x = StateActive) s)"
  have "wp (imp_finish x st r now) (\<lambda>_. good s) (\<lambda>_. good s) (s\<lparr>calls := n\<rparr>)"
    if "?f = Some x" "end_match st r" for x st r n
    using imp_finish_good [of "s\<lparr>calls := n\<rparr>" st r x] i that imp_select_core [OF first_of_Some [OF that(1)]] by simp
  then show ?thesis using good_refl [OF i] by (cases ?f) (auto simp: closeLapsed_def wp_simps)
qed

lemma create_inv:
  assumes i: "imp_inv s" and ok: "imp_insert_ok x s" and a: "ses_state x = StateActive" "ses_end_reason x = None"
    and u: "ses_uuid x \<notin> ses_uuid ` set (imp_sessions s)" and st: "ses_started x = now"
    and one: "\<not> list_ex (\<lambda>y. ses_actor y = ses_actor x \<and> ses_state y = StateActive) (imp_sessions s)"
    and t: "imp_sessions t = imp_sessions s @ [x]"
      "imp_events t = imp_events s @ [lifecycleEvent ImpersonationStarted x None now]"
  shows "imp_inv t"
proof -
  have "session_ok x" using ok a by (simp add: imp_insert_ok_def session_ok_def)
  moreover have "ie_session e \<noteq> ses_uuid x" if "e \<in> set (imp_events s)" for e
  proof -
    have "ie_session e \<in> ses_uuid ` set (imp_sessions s)" using i that by (auto simp: imp_inv_def)
    then show ?thesis using u by metis
  qed
  then have "events_of (ses_uuid x) (imp_events s) = []" by (simp add: events_of_def filter_empty_conv)
  then have "events_of (ses_uuid x) (imp_events t) = story x"
    using t(2) a st by (simp add: events_of_def story_def lifecycleEvent_def)
  moreover have "events_of (ses_uuid y) (imp_events t) = story y" if "y \<in> set (imp_sessions s)" for y
  proof -
    have "ses_uuid y \<noteq> ses_uuid x" using u that by (metis image_eqI)
    then show ?thesis using i that t(2) by (simp add: imp_inv_def events_of_def lifecycleEvent_def)
  qed
  ultimately show ?thesis using i u one a t
    by (auto simp: imp_inv_def list_ex_iff lifecycleEvent_def)
qed

definition same_count :: "imp_store \<Rightarrow> imp_store \<Rightarrow> bool" where
  "same_count s t \<longleftrightarrow> length (imp_sessions t) = length (imp_sessions s)"

lemma closeLapsed_count: "wp (closeLapsed actor now) (\<lambda>_. same_count s) (\<lambda>_. same_count s) s"
  by (cases "first_of (imp_select (\<lambda>x. ses_actor x = actor \<and> ses_state x = StateActive) s)")
     (auto simp: closeLapsed_def imp_finish_def imp_end_def imp_record_def wp_simps same_count_def)

lemma authorizeStart_wp:
  "wp (authorizeStart i)
     (\<lambda>_ t. unchanged s t \<and> imp_enforce s (si_actor i) PermissionStart \<and>
        imp_stepup s (si_actor i) (si_password i) (si_code i) \<and> si_family i \<noteq> uuid_nil)
     (\<lambda>_. unchanged s) s"
  by (auto simp: authorizeStart_def imp_enforced_def wp_simps)

definition eligible :: "string \<Rightarrow> uuid \<Rightarrow> uuid \<Rightarrow> imp_user \<Rightarrow> imp_store \<Rightarrow> bool" where
  "eligible adminRole actor target u s \<longleftrightarrow>
     actor \<noteq> target \<and> u \<in> set (imp_users s) \<and> iu_uuid u = target \<and> iu_ok u \<and>
     CanImpersonate (imp_grants s actor) (imp_grants s target) adminRole"

lemma eligibleTarget_wp:
  "wp (eligibleTarget adminRole actor target)
     (\<lambda>u t. unchanged s t \<and> eligible adminRole actor target u s) (\<lambda>_. unchanged s) s"
  by (auto simp: eligibleTarget_def wp_simps eligible_def find_Some_iff split: option.split)

definition started :: "session \<Rightarrow> imp_store \<Rightarrow> imp_store \<Rightarrow> bool" where
  "started x s t \<longleftrightarrow> good s t \<and> (\<exists>old. imp_sessions t = old @ [x] \<and> length old = length (imp_sessions s))"

lemma start_tx_wp:
  assumes i: "imp_inv s" and x: "ses_state x = StateActive" "ses_end_reason x = None" "ses_started x = now"
  shows "wp (start_tx x tokenID now)
     (\<lambda>c t. started x s t \<and> c = \<lparr>ac_subject = ses_target x, ac_issued = now, ac_expires = ses_expires x,
          ac_id = tokenID, ac_actor = ses_actor x, ac_session = ses_uuid x\<rparr>)
     (\<lambda>_. unchanged s) s"
proof -
  have "started x s t" if "imp_insert_ok x s" "ses_uuid x \<notin> ses_uuid ` set (imp_sessions s)"
    "\<not> list_ex (\<lambda>y. ses_actor y = ses_actor x \<and> ses_state y = StateActive) (imp_sessions s)"
    "imp_sessions t = imp_sessions s @ [x]" "imp_world t = imp_world s"
    "imp_events t = imp_events s @ [lifecycleEvent ImpersonationStarted x None now]" for t
  proof -
    have "imp_inv t" using create_inv [OF i that(1) x(1,2) that(2) x(3) that(3,4,6)] .
    moreover have "evolves s t" unfolding evolves_def
      using that(4) by (intro exI [of _ "imp_sessions s"] exI [of _ "[x]"]) (simp add: list_all2_refl)
    ultimately show ?thesis using that(4,5) by (auto simp: started_def good_def)
  qed
  moreover have "imp_insert_ok x (s\<lparr>calls := n\<rparr>) = imp_insert_ok x s" for n by (simp add: imp_insert_ok_def)
  ultimately show ?thesis
    by (auto simp: start_tx_def imp_create_def imp_record_def wp_simps imp_world_def)
qed

lemma started_trans:
  assumes "good s t" "same_count s t" "started x t u"
  shows "started x s u"
  using assms good_trans by (auto simp: started_def same_count_def)

lemma good_count_trans:
  "good s t \<and> same_count s t \<Longrightarrow> good t u \<and> same_count t u \<Longrightarrow> good s u \<and> same_count s u"
  using good_trans by (auto simp: same_count_def)

lemma unchanged_good: "imp_inv s \<Longrightarrow> unchanged s t \<Longrightarrow> good s t \<and> same_count s t"
  using good_unchanged by (auto simp: unchanged_def same_count_def)

lemma imp_Start_wp:
  assumes i: "imp_inv s"
  shows "wp (imp_Start ttl adminRole now newID tokenID j)
     (\<lambda>(x, u, c) t. started x s t \<and> ses_uuid x = newID \<and> ses_actor x = si_actor j \<and> ses_target x = si_target j \<and>
        ses_state x = StateActive \<and> ses_expires x = now + ttl \<and> ses_family x = si_family j \<and>
        imp_enforce s (si_actor j) PermissionStart \<and> imp_stepup s (si_actor j) (si_password j) (si_code j) \<and>
        si_family j \<noteq> uuid_nil \<and> eligible adminRole (si_actor j) (si_target j) u s \<and>
        c = \<lparr>ac_subject = si_target j, ac_issued = now, ac_expires = now + ttl, ac_id = tokenID,
             ac_actor = si_actor j, ac_session = newID\<rparr>)
     (\<lambda>_ t. good s t \<and> same_count s t) s"
proof (cases "rune_count (trim_space (si_reason j)) < MinReasonLength \<or> rune_count (trim_space (si_reason j)) > MaxReasonLength")
  case True
  then show ?thesis using unchanged_good [OF i unchanged_refl] by (simp add: imp_Start_def Let_def wp_simps)
next
  case False
  let ?x = "\<lparr>ses_uuid = newID, ses_actor = si_actor j, ses_target = si_target j,
       ses_state = StateActive, ses_reason = trim_space (si_reason j), ses_ip = si_ip j, ses_agent = si_agent j,
       ses_started = now, ses_expires = now + ttl, ses_ended = None, ses_end_reason = None,
       ses_family = si_family j, ses_participants = False, ses_base_until = None\<rparr>"
  show ?thesis unfolding imp_Start_def Let_def if_not_P [OF False] wp_andthen
  proof (rule wp_mono [OF authorizeStart_wp [where s = s]], goal_cases)
    case (1 y a)
    have ia: "imp_inv a" using 1 i by (auto simp: unchanged_def)
    have ga: "good s a \<and> same_count s a" using unchanged_good [OF i] 1 by blast
    show ?case
    proof (rule wp_mono [OF eligibleTarget_wp [where s = a]], goal_cases)
      case (1 u b)
      have ib: "imp_inv b" using 1 ia by (auto simp: unchanged_def)
      have gb: "good s b \<and> same_count s b" using good_count_trans [OF ga unchanged_good [OF ia]] 1 by blast
      have eu: "eligible adminRole (si_actor j) (si_target j) u s"
        using 1 \<open>unchanged s a \<and> _\<close> by (auto simp: unchanged_def eligible_def)
      show ?case
      proof (rule wp_mono [OF wp_conj [OF closeLapsed_good [OF ib] closeLapsed_count]], goal_cases)
        case c: (1 z d)
        have gd: "good s d \<and> same_count s d" using good_count_trans [OF gb c] .
        then have id: "imp_inv d" by (simp add: good_def)
        have w: "wp (start_tx ?x tokenID now)
          (\<lambda>c t. started ?x d t \<and> c = \<lparr>ac_subject = ses_target ?x, ac_issued = now, ac_expires = ses_expires ?x,
             ac_id = tokenID, ac_actor = ses_actor ?x, ac_session = ses_uuid ?x\<rparr>) (\<lambda>_. unchanged d) d"
          by (rule start_tx_wp [OF id]) simp_all
        show ?case
        proof (rule wp_mono [OF w], goal_cases)
          case (1 c t)
          then have "started ?x s t" using started_trans gd by blast
          then show ?case using 1 eu \<open>unchanged s a \<and> _\<close> by (simp add: wp_simps)
        next
          case (2 e t)
          then show ?case using good_count_trans [OF gd unchanged_good [OF id]] by blast
        qed
      next
        case (2 e d)
        then show ?case using good_count_trans [OF gb] by blast
      qed
    next
      case (2 e b)
      then show ?case using good_count_trans [OF ga unchanged_good [OF ia]] by blast
    qed
  next
    case (2 e a)
    then show ?case using unchanged_good [OF i] by blast
  qed
qed

section \<open>The service under a sequence of requests\<close>

text \<open>
  Between requests the rest of the system may do anything to the accounts, the sign-ins and the
  permissions: \<open>ImpWorld\<close>.
\<close>

datatype imp_request =
    ImpStart instant string instant uuid uuid start_input
  | ImpVerify "string \<Rightarrow> uuid option" instant string uuid uuid
  | ImpStop instant uuid "uuid option"
  | ImpExpire instant nat
  | ImpWorld "imp_user list" "refresh_session list" "uuid \<Rightarrow> string \<Rightarrow> bool" "uuid \<Rightarrow> grants"
      "uuid \<Rightarrow> string \<Rightarrow> string \<Rightarrow> bool"

fun imp_run :: "imp_request \<Rightarrow> unit imp_comp" where
  "imp_run (ImpStart ttl adminRole now newID tokenID i) = drop_result (imp_Start ttl adminRole now newID tokenID i)"
| "imp_run (ImpVerify parse now sid actor target) = imp_Verify parse now sid actor target"
| "imp_run (ImpStop now actor sid) = drop_result (imp_Stop now actor sid)"
| "imp_run (ImpExpire now limit) = drop_result (ExpireStale now limit)"
| "imp_run (ImpWorld us rs en gr su) =
     change (\<lambda>s. s\<lparr>imp_users := us, imp_refresh := rs, imp_enforce := en, imp_grants := gr, imp_stepup := su\<rparr>)"

lemma imp_run_good:
  assumes i: "imp_inv s"
  shows "wp (imp_run x) (\<lambda>_ t. imp_inv t \<and> evolves s t) (\<lambda>_ t. imp_inv t \<and> evolves s t) s"
proof (cases x)
  case (ImpStart ttl adminRole now newID tokenID j)
  show ?thesis unfolding ImpStart imp_run.simps wp_drop_result
    by (rule wp_mono [OF imp_Start_wp [OF i]]) (auto simp: started_def good_def split: prod.splits)
next
  case (ImpVerify parse now sid actor target)
  show ?thesis unfolding ImpVerify imp_run.simps
    by (rule wp_mono [OF imp_Verify_good [OF i]]) (simp_all add: good_def)
next
  case (ImpStop now actor sid)
  show ?thesis unfolding ImpStop imp_run.simps wp_drop_result
    by (rule wp_mono [OF imp_Stop_good [OF i]]) (simp_all add: good_def)
next
  case (ImpExpire now limit)
  show ?thesis unfolding ImpExpire imp_run.simps wp_drop_result
    by (rule wp_mono [OF ExpireStale_good [OF i]]) (simp_all add: good_def)
next
  case (ImpWorld us rs en gr su)
  have "imp_inv (s\<lparr>imp_users := us, imp_refresh := rs, imp_enforce := en, imp_grants := gr, imp_stepup := su\<rparr>)"
    by (rule imp_inv_cong [THEN iffD2, OF _ _ i]) simp_all
  then show ?thesis unfolding ImpWorld by (simp add: wp_simps evolves_sessions)
qed

interpretation impersonation: evolving_service imp_run imp_inv evolves
proof
  fix s x
  show "imp_inv (snd (imp_run x s))" if "imp_inv s"
    using wp_snd [OF imp_run_good [OF that]] by blast
  show "evolves s (snd (imp_run x s))" if "imp_inv s"
    using wp_snd [OF imp_run_good [OF that]] by blast
qed (auto intro: evolves_trans)

section \<open>What Verify accepts\<close>

lemma finished_not_active: "finished x st r now s t \<Longrightarrow> st \<noteq> StateActive \<Longrightarrow> \<not> active_row (ses_uuid x) (imp_sessions t)"
  by (auto simp: finished_def active_row_def end_row_def)

lemma endAndDeny_wp:
  assumes "imp_inv s" "end_match st r"
  shows "wp (endAndDeny x st r now) Q (\<lambda>e t. e = Err ImpEnded \<longrightarrow> \<not> active_row (ses_uuid x) (imp_sessions t)) s"
proof -
  have na: "st \<noteq> StateActive" using assms(2) by (auto simp: end_match_def)
  have nd: "wp (imp_finish x st r now) (\<lambda>_ _. True) (\<lambda>e _. e = StoreFail) s"
    by (auto simp: imp_finish_def imp_end_def imp_record_def wp_simps)
  show ?thesis unfolding endAndDeny_def wp_simps
    by (rule wp_mono [OF wp_conj [OF imp_finish_wp nd]]) (use assms(1) na finished_not_active in \<open>auto simp: imp_inv_def\<close>)
qed

definition live :: "imp_store \<Rightarrow> instant \<Rightarrow> session \<Rightarrow> bool" where
  "live s now x \<longleftrightarrow>
     ses_state x = StateActive \<and> now < ses_expires x \<and>
     (\<exists>e. base_until s x = Some e \<and> now < e) \<and>
     (\<exists>a. find_user s (ses_actor x) = Some a \<and> iu_ok a) \<and>
     (\<exists>b. find_user s (ses_target x) = Some b \<and> iu_ok b) \<and>
     imp_enforce s (ses_actor x) PermissionStart"

lemma imp_Verify_cases:
  assumes u: "parse sid = Some u"
    and found: "first_of (imp_select (\<lambda>x. ses_uuid x = u) s) = found"
    and fail: "\<And>n. F StoreFail (s\<lparr>calls := n\<rparr>)"
    and ended: "\<And>n. \<not> (\<exists>v. found = Some v \<and> ses_actor v = actor \<and> ses_target v = target \<and> ses_state v = StateActive) \<Longrightarrow>
      F (Err ImpEnded) (s\<lparr>calls := n\<rparr>)"
    and deny: "\<And>v st r n. found = Some v \<Longrightarrow> end_match st r \<Longrightarrow> wp (endAndDeny v st r now) Q F (s\<lparr>calls := n\<rparr>)"
    and acc: "\<And>v n. found = Some v \<Longrightarrow> ses_actor v = actor \<Longrightarrow> ses_target v = target \<Longrightarrow> ActiveAt v now \<Longrightarrow>
      BaseSessionActiveAt v now \<Longrightarrow> ses_participants v \<Longrightarrow> imp_enforce s actor PermissionStart \<Longrightarrow> Q () (s\<lparr>calls := n\<rparr>)"
  shows "wp (imp_Verify parse now sid actor target) Q F s"
  using assms by (cases found) (auto simp: imp_Verify_def imp_enforced_def wp_simps)

lemma imp_Verify_wp:
  assumes i: "imp_inv s" and u: "parse sid = Some u"
  shows "wp (imp_Verify parse now sid actor target)
     (\<lambda>_ t. unchanged s t \<and> (\<exists>x \<in> set (imp_sessions s). ses_uuid x = u \<and> ses_actor x = actor \<and>
        ses_target x = target \<and> live s now x))
     (\<lambda>e t. e = Err ImpEnded \<longrightarrow> find_user s actor \<noteq> None \<longrightarrow> find_user s target \<noteq> None \<longrightarrow>
        \<not> (\<exists>x \<in> set (imp_sessions t). ses_uuid x = u \<and> ses_actor x = actor \<and> ses_target x = target \<and>
             ses_state x = StateActive)) s"
proof -
  let ?f = "first_of (imp_select (\<lambda>x. ses_uuid x = u) s)"
  let ?F = "\<lambda>e t. e = Err ImpEnded \<longrightarrow> find_user s actor \<noteq> None \<longrightarrow> find_user s target \<noteq> None \<longrightarrow>
        \<not> (\<exists>x \<in> set (imp_sessions t). ses_uuid x = u \<and> ses_actor x = actor \<and> ses_target x = target \<and>
             ses_state x = StateActive)"
  let ?s = "\<lambda>n. s\<lparr>calls := n\<rparr>"
  show ?thesis
  proof (cases ?f)
    case None
    then have e: "imp_select (\<lambda>x. ses_uuid x = u) s = []" by (simp add: first_of_None)
    show ?thesis
    proof (rule imp_Verify_cases [where parse = parse and sid = sid, OF u None], goal_cases)
      case (2 n)
      show ?case
      proof (intro impI notI)
        assume a: "find_user s actor \<noteq> None" "find_user s target \<noteq> None"
          and "\<exists>x \<in> set (imp_sessions (?s n)). ses_uuid x = u \<and> ses_actor x = actor \<and> ses_target x = target \<and>
               ses_state x = StateActive"
        then obtain x where "x \<in> set (imp_sessions s)" "ses_uuid x = u" "ses_actor x = actor" "ses_target x = target"
          by auto
        then show False using imp_select_empty [OF e, of x] a by simp
      qed
    qed simp_all
  next
    case (Some v)
    obtain y a b where y: "y \<in> set (imp_sessions s)" "ses_uuid y = u" "find_user s (ses_actor y) = Some a"
      "find_user s (ses_target y) = Some b"
      "v = y\<lparr>ses_participants := iu_ok a \<and> iu_ok b, ses_base_until := base_until s y\<rparr>"
      using first_of_Some [OF Some] by (auto simp: imp_select_iff)
    have only: "x = y" if "x \<in> set (imp_sessions s)" "ses_uuid x = u" for x
      using i that y(1,2) by (auto simp: imp_inv_def distinct_map inj_on_def)
    show ?thesis
    proof (rule imp_Verify_cases [where parse = parse and sid = sid, OF u Some], goal_cases)
      case (2 n)
      then show ?case using only y(5) by auto
    next
      case (3 w st r n)
      have "imp_inv (?s n)" using i by simp
      from endAndDeny_wp [OF this 3(2)] show ?case
        by (rule wp_mono) (use 3 y(2,5) in \<open>auto simp: active_row_def\<close>)
    next
      case (4 w n)
      then have "live s now y" using y(3-5)
        by (auto simp: live_def ActiveAt_def BaseSessionActiveAt_def split: option.splits)
      then show ?case using 4 y(1,2,5) by auto
    qed simp_all
  qed
qed

section \<open>Properties\<close>

definition imp_demo_user :: "uuid \<Rightarrow> imp_user" where
  "imp_demo_user u = \<lparr>iu_uuid = u, iu_active_status = True, iu_deleted = False\<rparr>"

definition imp_demo_session :: session where
  "imp_demo_session = \<lparr>ses_uuid = 7, ses_actor = 1, ses_target = 2, ses_state = StateActive,
     ses_reason = ''support case'', ses_ip = [], ses_agent = [], ses_started = 100, ses_expires = 200,
     ses_ended = None, ses_end_reason = None, ses_family = 5, ses_participants = False, ses_base_until = None\<rparr>"

definition imp_demo_empty :: imp_store where
  "imp_demo_empty = \<lparr>calls = 0, fails = (\<lambda>_. False), imp_sessions = [],
     imp_users = [imp_demo_user 1, imp_demo_user 2],
     imp_refresh = [\<lparr>rs_user = 1, rs_family = 5, rs_expires = 900, rs_revoked = False\<rparr>],
     imp_enforce = (\<lambda>u p. u = 1), imp_grants = (\<lambda>u. \<lparr>gr_roles = [], gr_permissions = []\<rparr>),
     imp_stepup = (\<lambda>u p c. True), imp_events = []\<rparr>"

definition imp_demo :: imp_store where
  "imp_demo = imp_demo_empty\<lparr>imp_sessions := [imp_demo_session],
     imp_events := [lifecycleEvent ImpersonationStarted imp_demo_session None 100]\<rparr>"

definition imp_demo_input :: start_input where
  "imp_demo_input = \<lparr>si_actor = 1, si_target = 2, si_family = 5, si_reason = ''support case'',
     si_password = [], si_code = [], si_ip = [], si_agent = []\<rparr>"

lemmas imp_demo_defs = imp_demo_def imp_demo_empty_def imp_demo_session_def imp_demo_user_def imp_demo_input_def

lemma imp_demo_reason: "trim_space ''support case'' = ''support case''" "rune_count ''support case'' = 12"
  by (simp_all add: string_eval)

lemma imp_demo_inv: "imp_inv imp_demo"
  by (simp add: imp_inv_def imp_demo_defs session_ok_def imp_demo_reason MinReasonLength_def MaxReasonLength_def
      events_of_def story_def lifecycleEvent_def)

lemma imp_demo_empty_inv: "imp_inv imp_demo_empty"
  by (simp add: imp_inv_def imp_demo_defs)

lemmas imp_eval =
  run_eval imp_Verify_def imp_Start_def imp_lookup_def imp_get_def imp_select_def imp_join_def find_user_def
  base_until_def List.map_filter_def ActiveAt_def BaseSessionActiveAt_def imp_enforced_def iu_ok_def
  PermissionStart_def authorizeStart_def eligibleTarget_def closeLapsed_def imp_active_for_def start_tx_def
  imp_create_def imp_insert_ok_def imp_record_def CanImpersonate_def Has_def MinReasonLength_def MaxReasonLength_def

text \<open>
  C7. Whatever requests run, whatever happens to accounts, sign-ins and permissions between them and
  whichever storage calls fail: session ids stay unique, an actor has at most one active session,
  nobody impersonates themselves, a session is over exactly when it has an end time and a matching end
  reason, and the outbox holds exactly one start event per session and one end event per ended one,
  of the type of its end reason.
\<close>

theorem imp_requests_keep_invariant:
  assumes "imp_inv s"
  shows "imp_inv (run_all imp_run ops s)"
  using assms by (rule impersonation.runs_inv)

theorem imp_requests_keep_invariant_witness:
  "imp_inv (run_all imp_run [ImpStop 120 1 None, ImpStart 50 ''admin'' 130 8 9 imp_demo_input, ImpExpire 500 10] imp_demo)"
  by (rule imp_requests_keep_invariant [OF imp_demo_inv])

text \<open>
  C8. A session that has ended stays exactly as it ended, whatever requests follow, and its token is
  never accepted again.
\<close>

theorem ended_session_stays_ended:
  assumes "imp_inv s" "x \<in> set (imp_sessions s)" "ses_state x \<noteq> StateActive" "parse sid = Some (ses_uuid x)"
  shows "x \<in> set (imp_sessions (run_all imp_run ops s)) \<and>
    fst (imp_Verify parse now sid actor target (run_all imp_run ops s)) \<noteq> Inr ()"
proof -
  let ?t = "run_all imp_run ops s"
  have t: "imp_inv ?t" "evolves s ?t" using assms(1) impersonation.runs_inv impersonation.runs_rel by blast+
  obtain y where "y \<in> set (imp_sessions ?t)" "row_evolves x y" using evolves_row [OF t(2) assms(2)] by blast
  then have x: "x \<in> set (imp_sessions ?t)" using assms(3) by (auto simp: row_evolves_def)
  have "z = x" if "z \<in> set (imp_sessions ?t)" "ses_uuid z = ses_uuid x" for z
    using t(1) that x by (auto simp: imp_inv_def distinct_map inj_on_def)
  then have "fst (imp_Verify parse now sid actor target ?t) \<noteq> Inr ()"
    using imp_Verify_wp [where parse = parse and sid = sid and u = "ses_uuid x", OF t(1) assms(4), of now actor target] assms(3)
    by (auto simp: wp_def live_def split: prod.splits sum.splits)
  with x show ?thesis by blast
qed

definition imp_demo_ended :: imp_store where
  "imp_demo_ended = snd (imp_Stop 120 1 None imp_demo)"

lemma imp_demo_ended: "imp_inv imp_demo_ended"
  "end_row 7 StateExited EndManual 120 imp_demo_session \<in> set (imp_sessions imp_demo_ended)"
  using wp_snd [OF wp_mono [OF imp_Stop_good [OF imp_demo_inv]]]
  by (auto simp: imp_demo_ended_def good_def)
     (simp add: imp_Stop_def imp_find_def imp_finish_def imp_end_def imp_eval imp_demo_defs end_row_def)

theorem ended_session_stays_ended_witness:
  "fst (imp_Verify (\<lambda>_. Some 7) 130 [] 1 2 (run_all imp_run [ImpExpire 150 3] imp_demo_ended)) \<noteq> Inr ()"
  using ended_session_stays_ended [OF imp_demo_ended, of "\<lambda>_. Some 7" "[]"]
  by (simp add: end_row_def imp_demo_session_def)

text \<open>
  C9. Verify accepts a token only if its session exists, belongs to that actor and target, is active
  and unexpired, the actor's own sign-in still lasts, both accounts are active and the actor may still
  impersonate; accepting changes nothing. When it denies the token as ended, no active session with
  that id, actor and target is left.
\<close>

theorem Verify_accepts_only_live:
  assumes "imp_inv s" "parse sid = Some u"
  shows "wp (imp_Verify parse now sid actor target)
     (\<lambda>_ t. unchanged s t \<and> (\<exists>x \<in> set (imp_sessions s). ses_uuid x = u \<and> ses_actor x = actor \<and>
        ses_target x = target \<and> live s now x))
     (\<lambda>e t. e = Err ImpEnded \<longrightarrow> find_user s actor \<noteq> None \<longrightarrow> find_user s target \<noteq> None \<longrightarrow>
        \<not> (\<exists>x \<in> set (imp_sessions t). ses_uuid x = u \<and> ses_actor x = actor \<and> ses_target x = target \<and>
             ses_state x = StateActive)) s"
  by (rule imp_Verify_wp [where parse = parse and sid = sid and u = u, OF assms])

theorem Verify_accepts_only_live_witness:
  "\<exists>t. imp_Verify (\<lambda>_. Some 7) 150 [] 1 2 imp_demo = (Inr (), t) \<and> (\<exists>x \<in> set (imp_sessions imp_demo). live imp_demo 150 x)"
proof -
  obtain t where t: "imp_Verify (\<lambda>_. Some 7) 150 [] 1 2 imp_demo = (Inr (), t)"
    by (simp add: imp_eval imp_demo_defs)
  then show ?thesis
    using wp_Inr [OF Verify_accepts_only_live [OF imp_demo_inv, of "\<lambda>_. Some 7" "[]" 7] t] by auto
qed

text \<open>
  A Start that succeeds opens one new active session for that actor and target, bound to the
  actor's sign-in, whose token acts as the target and expires with the session; and then the actor held
  the permission, passed step-up and may impersonate the target, an active account other than their own.
  A Start that fails opens none.
\<close>

theorem Start_opens_session:
  assumes "imp_inv s"
  shows "wp (imp_Start ttl adminRole now newID tokenID j)
     (\<lambda>(x, u, c) t. started x s t \<and> ses_uuid x = newID \<and> ses_actor x = si_actor j \<and> ses_target x = si_target j \<and>
        ses_state x = StateActive \<and> ses_expires x = now + ttl \<and> ses_family x = si_family j \<and>
        imp_enforce s (si_actor j) PermissionStart \<and> imp_stepup s (si_actor j) (si_password j) (si_code j) \<and>
        si_family j \<noteq> uuid_nil \<and> eligible adminRole (si_actor j) (si_target j) u s \<and>
        c = \<lparr>ac_subject = si_target j, ac_issued = now, ac_expires = now + ttl, ac_id = tokenID,
             ac_actor = si_actor j, ac_session = newID\<rparr>)
     (\<lambda>_ t. good s t \<and> same_count s t) s"
  by (rule imp_Start_wp [OF assms])

theorem Start_opens_session_witness:
  "\<exists>r t. imp_Start 100 ''admin'' 100 7 9 imp_demo_input imp_demo_empty = (Inr r, t) \<and>
     ac_expires (snd (snd r)) = 200 \<and> imp_inv t"
proof -
  obtain r t where t: "imp_Start 100 ''admin'' 100 7 9 imp_demo_input imp_demo_empty = (Inr r, t)"
    by (simp add: imp_eval imp_demo_defs imp_demo_reason)
  show ?thesis using wp_Inr [OF Start_opens_session [OF imp_demo_empty_inv] t] t
    by (cases r) (auto simp: started_def good_def)
qed

text \<open>
  Impersonation never adds rights: whatever permission the target has, directly or through the
  wildcard, the actor who may impersonate them has too; and nobody impersonates a user who could
  impersonate others.
\<close>

theorem CanImpersonate_adds_no_rights:
  assumes "CanImpersonate g target adminRole"
  shows "(Has target p \<longrightarrow> Has g p) \<and> \<not> Has target PermissionStart \<and> adminRole \<notin> set (gr_roles target)"
  using assms by (auto simp: CanImpersonate_def Has_def list_all_iff)

theorem CanImpersonate_adds_no_rights_witness:
  "CanImpersonate \<lparr>gr_roles = [], gr_permissions = [''*'']\<rparr> \<lparr>gr_roles = [], gr_permissions = [''post.publish'']\<rparr> ''admin'' \<and>
   Has \<lparr>gr_roles = [], gr_permissions = [''*'']\<rparr> ''post.publish''"
proof -
  have c: "CanImpersonate \<lparr>gr_roles = [], gr_permissions = [''*'']\<rparr> \<lparr>gr_roles = [], gr_permissions = [''post.publish'']\<rparr> ''admin''"
    by (simp add: CanImpersonate_def Has_def PermissionStart_def)
  then show ?thesis using CanImpersonate_adds_no_rights [OF c, of "''post.publish''"] by (simp add: Has_def)
qed

end
