(* ===== verification/Comment_Service.thy ===== *)
theory Comment_Service
  imports Read_Cache
begin

text \<open>
  Comments: the domain rules (\<^verbatim>\<open>internal/core/comment/domain\<close>), the repository
  (\<^verbatim>\<open>internal/adapters/outbound/persistence/comment_repository.go\<close> and
  \<^verbatim>\<open>comment_moderation_repository.go\<close>) with the constraints and cascades of its tables, and the
  service (\<^verbatim>\<open>internal/core/comment/service\<close>). Parameters stand for the markdown renderer
  (\<open>render\<close>) and the identity hash (\<open>hash\<close>). The state also holds the events of the outbox, the
  notices handed to the notifier, and the captcha provider's verdicts.
\<close>

section \<open>Domain\<close>

definition MaxDepth :: int where "MaxDepth = 5"

definition MaxContentRunes :: nat where "MaxContentRunes = 10000"

definition MaxFlagDetailsRunes :: nat where "MaxFlagDetailsRunes = 2000"

definition MaxModerationReasonRunes :: nat where "MaxModerationReasonRunes = 1000"

definition MaxBulkModerate :: nat where "MaxBulkModerate = 500"

datatype com_error =
    ComNotFound
  | ComPostNotFound
  | ComValidation string
  | ComForbidden
  | ComEditWindowClosed
  | ComNotEditable
  | ComDepthExceeded
  | ComParentInvalid
  | ComGuestDisabled
  | ComCommentsDisabled
  | ComCommentsClosed
  | ComChallengeFailed
  | ComChallengeUnavailable
  | ComInvalidTransition
  | ComBatch com_error "uuid list"
  | ComUnknownReference

datatype com_policy = PolicyOpen | PolicyAuthenticated | PolicyReadOnly | PolicyDisabled

definition Readable :: "com_policy \<Rightarrow> com_error + unit" where
  "Readable p = (if p = PolicyDisabled then Inl ComCommentsDisabled else Inr ())"

definition Writable :: "com_policy \<Rightarrow> com_error + unit" where
  "Writable p = (case p of PolicyDisabled \<Rightarrow> Inl ComCommentsDisabled | PolicyReadOnly \<Rightarrow> Inl ComCommentsClosed
                 | PolicyOpen \<Rightarrow> Inr () | PolicyAuthenticated \<Rightarrow> Inr ())"

datatype com_status = StatusPending | StatusApproved | StatusFlagged | StatusSpam | StatusRejected | StatusDeleted

definition PublicStatuses :: "com_status list" where "PublicStatuses = [StatusApproved, StatusDeleted]"

definition QueueStatuses :: "com_status list" where "QueueStatuses = [StatusPending, StatusFlagged]"

definition FlagReasons :: "string list" where
  "FlagReasons = [''spam'', ''abuse'', ''hate'', ''harassment'', ''doxx'', ''self_harm'',
     ''copyright'', ''impersonation'', ''illegal'', ''other'']"

record comment =
  com_uuid :: uuid
  com_post :: uuid
  com_parent :: "uuid option"
  com_author :: "uuid option"
  com_name :: string
  com_email :: string
  com_ip :: string
  com_agent :: string
  com_content :: string
  com_html :: string
  com_status :: com_status
  com_depth :: int
  com_upvotes :: int
  com_flags :: int
  com_edited :: "instant option"
  com_created :: instant
  com_updated :: instant
  com_deleted :: "instant option"
  com_deleted_by :: "uuid option"
  com_mod_by :: "uuid option"
  com_mod_reason :: string
  com_mod_at :: "instant option"

definition com_Public :: "comment \<Rightarrow> bool" where
  "com_Public c \<longleftrightarrow> com_status c = StatusApproved \<or> com_status c = StatusDeleted"

definition OwnedBy :: "comment \<Rightarrow> uuid \<Rightarrow> bool" where
  "OwnedBy c u \<longleftrightarrow> com_author c = Some u"

datatype com_action =
    ActionApprove
  | ActionReject
  | ActionSpam
  | ActionRestore
  | ActionHardDelete
  | ActionOther string

definition ModerationActions :: "com_action list" where
  "ModerationActions = [ActionApprove, ActionReject, ActionSpam, ActionRestore]"

definition transitions :: "com_action \<Rightarrow> (com_status list \<times> com_status) option" where
  "transitions a =
     (case a of
        ActionApprove \<Rightarrow> Some ([StatusPending, StatusFlagged, StatusRejected, StatusSpam], StatusApproved)
      | ActionReject \<Rightarrow> Some ([StatusPending, StatusFlagged, StatusApproved, StatusSpam], StatusRejected)
      | ActionSpam \<Rightarrow> Some ([StatusPending, StatusFlagged, StatusApproved, StatusRejected], StatusSpam)
      | ActionRestore \<Rightarrow> Some ([StatusDeleted], StatusApproved)
      | ActionHardDelete \<Rightarrow> None
      | ActionOther _ \<Rightarrow> None)"

definition Transition :: "com_status \<Rightarrow> com_action \<Rightarrow> com_error + com_status" where
  "Transition st a =
     (case transitions a of
        None \<Rightarrow> Inl (ComValidation ''unknown action'')
      | Some (froms, to) \<Rightarrow> if st \<in> set froms then Inr to else Inl ComInvalidTransition)"

definition Scrubbed :: "comment \<Rightarrow> bool" where
  "Scrubbed c \<longleftrightarrow> com_status c = StatusDeleted \<and> com_content c = []"

record snapshot =
  sn_status :: com_status
  sn_content :: string
  sn_flags :: int
  sn_name :: string
  sn_email :: string
  sn_reason :: string
  sn_deleted :: bool

definition Snapshot :: "comment \<Rightarrow> snapshot" where
  "Snapshot c = \<lparr>sn_status = com_status c, sn_content = com_content c, sn_flags = com_flags c,
     sn_name = com_name c, sn_email = com_email c, sn_reason = com_mod_reason c,
     sn_deleted = (com_deleted c \<noteq> None)\<rparr>"

record mod_entry =
  me_uuid :: uuid
  me_comment :: uuid
  me_moderator :: "uuid option"
  me_action :: com_action
  me_from :: com_status
  me_to :: com_status
  me_reason :: string
  me_notify :: bool
  me_before :: snapshot
  me_after :: "snapshot option"
  me_at :: instant

record moderation =
  mo_comment :: comment
  mo_from :: com_status
  mo_entry :: mod_entry

section \<open>The repository\<close>

record com_post_row =
  cp_uuid :: uuid
  cp_published :: bool
  cp_policy :: com_policy

record com_flag =
  cf_comment :: uuid
  cf_reporter :: "uuid option"
  cf_ip :: string
  cf_reason :: string
  cf_details :: string
  cf_at :: instant

record com_event =
  ce_moderated :: bool
  ce_comment :: uuid
  ce_post :: uuid
  ce_parent :: "uuid option"
  ce_author :: "uuid option"
  ce_actor :: "uuid option"
  ce_status :: com_status
  ce_action :: "com_action option"
  ce_from :: "com_status option"
  ce_at :: instant

datatype com_notice = CommentReplied comment comment | CommentModerated moderation

record com_store = store +
  com_rows :: "comment list"
  com_posts :: "com_post_row list"
  com_users :: "uuid list"
  com_flag_rows :: "com_flag list"
  com_upvote_rows :: "(uuid \<times> uuid) list"
  com_log :: "mod_entry list"
  com_events :: "com_event list"
  com_notices :: "com_notice list"
  com_captcha :: "string \<Rightarrow> string \<Rightarrow> bool"

type_synonym 'a com_comp = "(com_store, com_error, 'a) comp"

definition com_ids :: "com_store \<Rightarrow> uuid list" where
  "com_ids s = map com_uuid (com_rows s)"

definition PostPolicy :: "uuid \<Rightarrow> com_policy com_comp" where
  "PostPolicy p = db_call (\<lambda>s. case find (\<lambda>r. cp_uuid r = p \<and> cp_published r) (com_posts s) of
                                 None \<Rightarrow> (Inl (Err ComPostNotFound), s)
                               | Some r \<Rightarrow> (Inr (cp_policy r), s))"

text \<open>\<open>renderingRepository.fill\<close>: rows stored before the HTML was persisted are rendered on reads.\<close>

definition com_fill :: "(string \<Rightarrow> string) \<Rightarrow> comment \<Rightarrow> comment" where
  "com_fill render c = (if com_html c = [] \<and> com_content c \<noteq> [] then c\<lparr>com_html := render (com_content c)\<rparr> else c)"

definition com_get :: "(string \<Rightarrow> string) \<Rightarrow> uuid \<Rightarrow> comment com_comp" where
  "com_get render u = db_call (\<lambda>s. case find (\<lambda>c. com_uuid c = u) (com_rows s) of
                                     None \<Rightarrow> (Inl (Err ComNotFound), s)
                                   | Some c \<Rightarrow> (Inr (com_fill render c), s))"

definition com_get_many :: "(string \<Rightarrow> string) \<Rightarrow> uuid list \<Rightarrow> comment list com_comp" where
  "com_get_many render ids =
     (if ids = [] then ret []
      else db_call (asks (\<lambda>s. map (com_fill render) (filter (\<lambda>c. com_uuid c \<in> set ids) (com_rows s)))))"

text \<open>\<open>idByUUID\<close> and \<open>optionalIDByUUID\<close>.\<close>

definition com_known :: "(com_store \<Rightarrow> uuid list) \<Rightarrow> uuid \<Rightarrow> com_error \<Rightarrow> unit com_comp" where
  "com_known f u e = db_call (\<lambda>s. if u \<in> set (f s) then (Inr (), s) else (Inl (Err e), s))"

definition com_known_opt :: "(com_store \<Rightarrow> uuid list) \<Rightarrow> uuid option \<Rightarrow> com_error \<Rightarrow> unit com_comp" where
  "com_known_opt f r e = (case r of None \<Rightarrow> ret () | Some u \<Rightarrow> com_known f u e)"

definition com_create :: "(string \<Rightarrow> string) \<Rightarrow> comment \<Rightarrow> comment com_comp" where
  "com_create render c =
     andthen (com_known (\<lambda>s. map cp_uuid (com_posts s)) (com_post c) ComPostNotFound) (\<lambda>_.
     andthen (com_known_opt com_ids (com_parent c) ComParentInvalid) (\<lambda>_.
     andthen (com_known_opt com_users (com_author c) ComUnknownReference) (\<lambda>_.
     andthen (db_call (\<lambda>s.
       if com_uuid c \<in> set (com_ids s) \<or> com_depth c < 0 \<or> com_depth c > 5 then (Inl StoreFail, s)
       else (Inr (), s\<lparr>com_rows := com_rows s @
         [c\<lparr>com_upvotes := 0, com_flags := 0, com_edited := None, com_deleted := None, com_deleted_by := None,
            com_mod_by := None, com_mod_reason := [], com_mod_at := None\<rparr>]\<rparr>))) (\<lambda>_.
     com_get render (com_uuid c)))))"

definition com_put :: "comment \<Rightarrow> comment \<Rightarrow> comment" where
  "com_put c r =
     (if com_uuid r = com_uuid c
      then r\<lparr>com_content := com_content c, com_html := com_html c, com_status := com_status c,
             com_edited := com_edited c, com_deleted := com_deleted c, com_deleted_by := com_deleted_by c,
             com_updated := com_updated c\<rparr>
      else r)"

definition com_update :: "(string \<Rightarrow> string) \<Rightarrow> comment \<Rightarrow> comment com_comp" where
  "com_update render c =
     andthen (com_known_opt com_users (com_deleted_by c) ComUnknownReference) (\<lambda>_.
     andthen (db_call (\<lambda>s.
       if com_uuid c \<notin> set (com_ids s) then (Inl (Err ComNotFound), s)
       else (Inr (), s\<lparr>com_rows := map (com_put c) (com_rows s)\<rparr>))) (\<lambda>_.
     com_get render (com_uuid c)))"

text \<open>The unique indexes of \<open>comment_flags\<close>: one flag per user, or per hash for guests.\<close>

definition same_flagger :: "com_flag \<Rightarrow> com_flag \<Rightarrow> bool" where
  "same_flagger a b \<longleftrightarrow>
     cf_comment a = cf_comment b \<and>
     (case (cf_reporter a, cf_reporter b) of
        (Some u, Some v) \<Rightarrow> u = v
      | (None, None) \<Rightarrow> cf_ip a = cf_ip b
      | _ \<Rightarrow> False)"

definition bump_flag :: "int \<Rightarrow> uuid \<Rightarrow> comment \<Rightarrow> comment" where
  "bump_flag threshold u c =
     (if com_uuid c = u
      then c\<lparr>com_status := (if com_status c = StatusApproved \<and> com_flags c + 1 \<ge> threshold
                            then StatusFlagged else com_status c),
             com_flags := com_flags c + 1\<rparr>
      else c)"

definition AddFlag :: "com_flag \<Rightarrow> int \<Rightarrow> bool com_comp" where
  "AddFlag f threshold = within_tx (
     andthen (com_known com_ids (cf_comment f) ComNotFound) (\<lambda>_.
     andthen (com_known_opt com_users (cf_reporter f) ComUnknownReference) (\<lambda>_.
     andthen (db_call (\<lambda>s.
       if cf_reporter f = None \<and> cf_ip f = [] \<or> cf_reason f \<notin> set FlagReasons then (Inl StoreFail, s)
       else if list_ex (same_flagger f) (com_flag_rows s) then (Inr False, s)
       else (Inr True, s\<lparr>com_flag_rows := com_flag_rows s @ [f]\<rparr>))) (\<lambda>added.
     if \<not> added then ret False
     else andthen (db_call (change (\<lambda>s.
            s\<lparr>com_rows := map (bump_flag threshold (cf_comment f)) (com_rows s)\<rparr>))) (\<lambda>_.
          ret True)))))"

definition bump_upvote :: "int \<Rightarrow> uuid \<Rightarrow> comment \<Rightarrow> comment" where
  "bump_upvote d u c = (if com_uuid c = u then c\<lparr>com_upvotes := max (com_upvotes c + d) 0\<rparr> else c)"

definition com_toggle_upvote :: "uuid \<Rightarrow> uuid \<Rightarrow> (bool \<times> int) com_comp" where
  "com_toggle_upvote u voter = within_tx (
     andthen (com_known com_ids u ComNotFound) (\<lambda>_.
     andthen (com_known com_users voter ComUnknownReference) (\<lambda>_.
     andthen (db_call (\<lambda>s.
       (Inr ((u, voter) \<in> set (com_upvote_rows s)),
        s\<lparr>com_upvote_rows := filter (\<lambda>r. r \<noteq> (u, voter)) (com_upvote_rows s)\<rparr>))) (\<lambda>removed.
     andthen (if removed then ret (-1)
              else db_call (\<lambda>s.
                if (u, voter) \<in> set (com_upvote_rows s) then (Inr 0, s)
                else (Inr 1, s\<lparr>com_upvote_rows := com_upvote_rows s @ [(u, voter)]\<rparr>))) (\<lambda>d.
     andthen (db_call (\<lambda>s.
       let rows = map (bump_upvote d u) (com_rows s) in
       (case find (\<lambda>c. com_uuid c = u) rows of
          None \<Rightarrow> (Inl StoreFail, s)
        | Some c \<Rightarrow> (Inr (com_upvotes c), s\<lparr>com_rows := rows\<rparr>)))) (\<lambda>n.
     ret (\<not> removed, n)))))))"

text \<open>
  \<open>userIDCache.resolve\<close>: an unknown user is stored as NULL, and a resolved one is remembered for
  the rest of the transaction.
\<close>

type_synonym user_cache = "(uuid \<times> uuid option) list"

definition com_resolve :: "user_cache \<Rightarrow> uuid option \<Rightarrow> (uuid option \<times> user_cache) com_comp" where
  "com_resolve cache r =
     (case r of
        None \<Rightarrow> ret (None, cache)
      | Some u \<Rightarrow>
          (case map_of cache u of
             Some row \<Rightarrow> ret (row, cache)
           | None \<Rightarrow> andthen (db_call (asks (\<lambda>s. if u \<in> set (com_users s) then Some u else None))) (\<lambda>row.
                      ret (row, (u, row) # cache))))"

definition com_put_moderation :: "moderation \<Rightarrow> uuid option \<Rightarrow> uuid option \<Rightarrow> comment \<Rightarrow> comment" where
  "com_put_moderation m deletedBy moderatedBy r =
     (let c = mo_comment m in
      if com_uuid r = com_uuid c \<and> com_status r = mo_from m
      then r\<lparr>com_status := com_status c, com_flags := com_flags c, com_deleted := com_deleted c,
             com_deleted_by := deletedBy, com_mod_by := moderatedBy, com_mod_reason := com_mod_reason c,
             com_mod_at := com_mod_at c, com_updated := com_updated c\<rparr>
      else r)"

text \<open>
  The loop of \<open>ApplyModerations\<close>, with the user cache, the stale UUIDs and the log rows collected so
  far, and the insertion of the log rows in batches of a hundred; the table's UUIDs are unique.
\<close>

fun apply_loop ::
  "moderation list \<Rightarrow> user_cache \<Rightarrow> uuid list \<Rightarrow> mod_entry list \<Rightarrow> (uuid list \<times> mod_entry list) com_comp" where
  "apply_loop [] cache stale logs = ret (stale, logs)"
| "apply_loop (m # ms) cache stale logs =
     andthen (com_resolve cache (com_mod_by (mo_comment m))) (\<lambda>(moderatedBy, cache1).
     andthen (com_resolve cache1 (com_deleted_by (mo_comment m))) (\<lambda>(deletedBy, cache2).
     andthen (db_call (\<lambda>s.
       (Inr (list_ex (\<lambda>r. com_uuid r = com_uuid (mo_comment m) \<and> com_status r = mo_from m) (com_rows s)),
        s\<lparr>com_rows := map (com_put_moderation m deletedBy moderatedBy) (com_rows s)\<rparr>))) (\<lambda>hit.
     if \<not> hit then apply_loop ms cache2 (stale @ [com_uuid (mo_comment m)]) logs
     else andthen (com_resolve cache2 (me_moderator (mo_entry m))) (\<lambda>(moderator, cache3).
          apply_loop ms cache3 stale (logs @ [(mo_entry m)\<lparr>me_moderator := moderator\<rparr>])))))"

definition insert_logs :: "mod_entry list \<Rightarrow> unit com_comp" where
  "insert_logs es = db_call (\<lambda>s.
     if distinct (map me_uuid (com_log s @ es)) then (Inr (), s\<lparr>com_log := com_log s @ es\<rparr>)
     else (Inl StoreFail, s))"

function CreateInBatches :: "mod_entry list \<Rightarrow> unit com_comp" where
  "CreateInBatches [] = ret ()"
| "CreateInBatches (e # es) =
     andthen (insert_logs (take 100 (e # es))) (\<lambda>_. CreateInBatches (drop 100 (e # es)))"
  by pat_completeness auto
termination by (relation "measure length") auto

definition ApplyModerations :: "moderation list \<Rightarrow> unit com_comp" where
  "ApplyModerations ms =
     (if ms = [] then ret ()
      else within_tx (
        andthen (apply_loop ms [] [] []) (\<lambda>(stale, logs).
        if stale \<noteq> [] then throw (ComBatch ComInvalidTransition stale)
        else CreateInBatches logs)))"

definition com_scrub :: "uuid \<Rightarrow> mod_entry \<Rightarrow> uuid option \<Rightarrow> comment \<Rightarrow> comment" where
  "com_scrub u e moderator c =
     (if com_uuid c = u
      then c\<lparr>com_content := [], com_html := [], com_author := None, com_name := [], com_email := [],
             com_ip := [], com_agent := [], com_flags := 0, com_upvotes := 0, com_status := StatusDeleted,
             com_deleted := (case com_deleted c of None \<Rightarrow> Some (me_at e) | Some t \<Rightarrow> Some t),
             com_deleted_by := moderator, com_mod_by := moderator, com_mod_reason := me_reason e,
             com_mod_at := Some (me_at e), com_updated := me_at e\<rparr>
      else c)"

text \<open>Deleting a comment row cascades to its flags and upvotes; it has no replies here.\<close>

definition drop_votes :: "uuid \<Rightarrow> com_store \<Rightarrow> com_store" where
  "drop_votes u s = s\<lparr>com_flag_rows := filter (\<lambda>f. cf_comment f \<noteq> u) (com_flag_rows s),
                      com_upvote_rows := filter (\<lambda>r. fst r \<noteq> u) (com_upvote_rows s)\<rparr>"

definition com_hard_delete :: "uuid \<Rightarrow> mod_entry \<Rightarrow> bool com_comp" where
  "com_hard_delete u e = within_tx (
     andthen (com_known com_ids u ComNotFound) (\<lambda>_.
     andthen (com_resolve [] (me_moderator e)) (\<lambda>(moderator, _).
     andthen (insert_logs [e\<lparr>me_moderator := moderator\<rparr>]) (\<lambda>_.
     andthen (db_call (asks (\<lambda>s. list_ex (\<lambda>c. com_parent c = Some u) (com_rows s)))) (\<lambda>hasReplies.
     if \<not> hasReplies
     then andthen (db_call (change (\<lambda>s.
            (drop_votes u s)\<lparr>com_rows := filter (\<lambda>c. com_uuid c \<noteq> u) (com_rows s)\<rparr>))) (\<lambda>_. ret False)
     else
     andthen (db_call (change (\<lambda>s. s\<lparr>com_flag_rows := filter (\<lambda>f. cf_comment f \<noteq> u) (com_flag_rows s)\<rparr>))) (\<lambda>_.
     andthen (db_call (change (\<lambda>s. s\<lparr>com_upvote_rows := filter (\<lambda>r. fst r \<noteq> u) (com_upvote_rows s)\<rparr>))) (\<lambda>_.
     andthen (db_call (change (\<lambda>s. s\<lparr>com_rows := map (com_scrub u e moderator) (com_rows s)\<rparr>))) (\<lambda>_.
     ret True))))))))"

section \<open>The service\<close>

record com_config =
  cc_guest :: bool
  cc_approval :: bool
  cc_window :: int
  cc_threshold :: int
  cc_captcha :: bool

definition com_New :: "com_config \<Rightarrow> com_config" where
  "com_New cfg =
     (let c1 = (if cc_window cfg \<le> 0 then cfg\<lparr>cc_window := 15 * 60 * 1000000000\<rparr> else cfg)
      in if cc_threshold c1 < 1 then c1\<lparr>cc_threshold := 3\<rparr> else c1)"

record com_input =
  ki_post :: uuid
  ki_parent :: "uuid option"
  ki_author :: "uuid option"
  ki_name :: string
  ki_email :: string
  ki_content :: string
  ki_honeypot :: string
  ki_token :: string
  ki_ip :: string
  ki_agent :: string

definition normalizeContent :: "string \<Rightarrow> com_error + string" where
  "normalizeContent raw =
     (let c = trim_space raw in
      if c = [] then Inl (ComValidation ''content required'')
      else if rune_count c > MaxContentRunes then Inl (ComValidation ''content too long'')
      else Inr c)"

definition normalizePage :: "int \<Rightarrow> int \<Rightarrow> int \<times> int" where
  "normalizePage page perPage =
     (if page < 1 then 1 else page, if perPage < 1 \<or> perPage > 100 then 20 else perPage)"

definition normalizeReason :: "string \<Rightarrow> com_error + string" where
  "normalizeReason raw =
     (let r = trim_space raw in
      if rune_count r > MaxModerationReasonRunes then Inl (ComValidation ''reason too long'') else Inr r)"

definition hashIdentity :: "(string \<Rightarrow> string) \<Rightarrow> string \<Rightarrow> string" where
  "hashIdentity hash v = (if v = [] then [] else hash v)"

definition truncateRunes :: "string \<Rightarrow> nat \<Rightarrow> string" where
  "truncateRunes v limit =
     (if rune_count v \<le> limit then v else concat (map encode_rune (take limit (runes v))))"

definition writablePolicy :: "uuid \<Rightarrow> com_policy com_comp" where
  "writablePolicy p =
     andthen (PostPolicy p) (\<lambda>policy. andthen (of_result (Writable policy)) (\<lambda>_. ret policy))"

definition readablePost :: "uuid \<Rightarrow> unit com_comp" where
  "readablePost p s =
     (case PostPolicy p s of
        (Inl e, t) \<Rightarrow> (Inl (if e = Err ComPostNotFound then Err ComNotFound else e), t)
      | (Inr policy, t) \<Rightarrow> of_result (Readable policy) t)"

definition guestIdentity :: "(nat \<Rightarrow> nat) \<Rightarrow> com_config \<Rightarrow> string \<Rightarrow> string \<Rightarrow> com_error + string \<times> string" where
  "guestIdentity lo cfg rawName rawEmail =
     (if \<not> cc_guest cfg then Inl ComGuestDisabled
      else let name = trim_space rawName; email = to_lower lo (trim_space rawEmail) in
      if name = [] \<or> email = [] then Inl (ComValidation ''author_name and author_email are required for guest comments'')
      else if rune_count name > 100 then Inl (ComValidation ''author_name too long'')
      else Inr (name, email))"

definition com_verify_captcha :: "string \<Rightarrow> string \<Rightarrow> bool com_comp" where
  "com_verify_captcha token ip s =
     (case (db_call (asks (\<lambda>s. com_captcha s token ip)) :: bool com_comp) s of
        (Inl _, t) \<Rightarrow> (Inl (Err ComChallengeUnavailable), t)
      | (Inr b, t) \<Rightarrow> (Inr b, t))"

definition checkGuest :: "(nat \<Rightarrow> nat) \<Rightarrow> com_config \<Rightarrow> com_policy \<Rightarrow> com_input \<Rightarrow> (string \<times> string) com_comp" where
  "checkGuest lo cfg policy i =
     (if policy = PolicyAuthenticated then throw ComGuestDisabled
      else andthen (of_result (guestIdentity lo cfg (ki_name i) (ki_email i))) (\<lambda>identity.
      if \<not> cc_captcha cfg \<or> trim_space (ki_honeypot i) \<noteq> [] then ret identity
      else andthen (com_verify_captcha (ki_token i) (ki_ip i)) (\<lambda>ok.
      if \<not> ok then throw ComChallengeFailed else ret identity)))"

definition replyParent :: "(string \<Rightarrow> string) \<Rightarrow> uuid \<Rightarrow> uuid \<Rightarrow> comment com_comp" where
  "replyParent render post parentID s =
     (case com_get render parentID s of
        (Inl e, t) \<Rightarrow> (Inl (if e = Err ComNotFound then Err ComParentInvalid else e), t)
      | (Inr parent, t) \<Rightarrow>
          if com_post parent \<noteq> post \<or> com_status parent \<noteq> StatusApproved then (Inl (Err ComParentInvalid), t)
          else if com_depth parent + 1 > MaxDepth then (Inl (Err ComDepthExceeded), t)
          else (Inr parent, t))"

definition com_record :: "com_event list \<Rightarrow> unit com_comp" where
  "com_record es = db_call (change (\<lambda>s. s\<lparr>com_events := com_events s @ es\<rparr>))"

definition commentCreatedEvent :: "comment \<Rightarrow> com_event" where
  "commentCreatedEvent c = \<lparr>ce_moderated = False, ce_comment = com_uuid c, ce_post = com_post c,
     ce_parent = com_parent c, ce_author = com_author c, ce_actor = com_author c, ce_status = com_status c,
     ce_action = None, ce_from = None, ce_at = com_created c\<rparr>"

definition commentModeratedEvent :: "comment \<Rightarrow> mod_entry \<Rightarrow> instant \<Rightarrow> com_event" where
  "commentModeratedEvent c e at = \<lparr>ce_moderated = True, ce_comment = com_uuid c, ce_post = com_post c,
     ce_parent = com_parent c, ce_author = com_author c, ce_actor = me_moderator e, ce_status = me_to e,
     ce_action = Some (me_action e), ce_from = Some (me_from e), ce_at = at\<rparr>"

definition com_store_new :: "(string \<Rightarrow> string) \<Rightarrow> comment \<Rightarrow> comment com_comp" where
  "com_store_new render c = within_tx (
     andthen (com_create render c) (\<lambda>created.
     andthen (com_record [commentCreatedEvent created]) (\<lambda>_. ret created)))"

definition com_notify :: "com_notice list \<Rightarrow> unit com_comp" where
  "com_notify ns = change (\<lambda>s. s\<lparr>com_notices := com_notices s @ ns\<rparr>)"

definition initial_status :: "com_config \<Rightarrow> com_input \<Rightarrow> com_status" where
  "initial_status cfg i =
     (if trim_space (ki_honeypot i) \<noteq> [] then StatusSpam
      else if ki_author i = None \<or> cc_approval cfg then StatusPending
      else StatusApproved)"

definition new_comment ::
  "(string \<Rightarrow> string) \<Rightarrow> (string \<Rightarrow> string) \<Rightarrow> com_config \<Rightarrow> instant \<Rightarrow> uuid \<Rightarrow> com_input \<Rightarrow> string \<Rightarrow> string \<times> string
     \<Rightarrow> comment option \<Rightarrow> comment" where
  "new_comment render hash cfg now newID i content identity parent =
     \<lparr>com_uuid = newID, com_post = ki_post i, com_parent = ki_parent i, com_author = ki_author i,
      com_name = fst identity, com_email = snd identity, com_ip = hashIdentity hash (ki_ip i),
      com_agent = truncateRunes (trim_space (ki_agent i)) 500, com_content = content,
      com_html = render content, com_status = initial_status cfg i,
      com_depth = (case parent of None \<Rightarrow> 0 | Some c \<Rightarrow> com_depth c + 1),
      com_upvotes = 0, com_flags = 0, com_edited = None, com_created = now, com_updated = now,
      com_deleted = None, com_deleted_by = None, com_mod_by = None, com_mod_reason = [], com_mod_at = None\<rparr>"

definition parent_of :: "(string \<Rightarrow> string) \<Rightarrow> com_input \<Rightarrow> comment option com_comp" where
  "parent_of render i =
     (case ki_parent i of
        None \<Rightarrow> ret None
      | Some p \<Rightarrow> andthen (replyParent render (ki_post i) p) (\<lambda>parent. ret (Some parent)))"

definition reply_notice :: "comment option \<Rightarrow> comment \<Rightarrow> unit com_comp" where
  "reply_notice parent created =
     (case parent of
        Some q \<Rightarrow> if com_status created = StatusApproved then com_notify [CommentReplied created q] else ret ()
      | None \<Rightarrow> ret ())"

definition com_Create ::
  "(nat \<Rightarrow> nat) \<Rightarrow> (string \<Rightarrow> string) \<Rightarrow> (string \<Rightarrow> string) \<Rightarrow> com_config \<Rightarrow> instant \<Rightarrow> uuid \<Rightarrow> com_input \<Rightarrow> comment com_comp" where
  "com_Create lo render hash cfg now newID i =
     andthen (of_result (normalizeContent (ki_content i))) (\<lambda>content.
     andthen (writablePolicy (ki_post i)) (\<lambda>policy.
     andthen (if ki_author i = None then checkGuest lo cfg policy i else ret ([], [])) (\<lambda>identity.
     andthen (parent_of render i) (\<lambda>parent.
     andthen (com_store_new render (new_comment render hash cfg now newID i content identity parent)) (\<lambda>created.
     andthen (reply_notice parent created) (\<lambda>_.
     ret created))))))"

definition getOwned :: "(string \<Rightarrow> string) \<Rightarrow> uuid \<Rightarrow> uuid \<Rightarrow> comment com_comp" where
  "getOwned render actor u =
     andthen (com_get render u) (\<lambda>c.
     if \<not> OwnedBy c actor then throw ComForbidden
     else if com_status c = StatusDeleted then throw ComNotFound
     else ret c)"

text \<open>\<open>Update\<close>: everything up to the write, and the write of what it read.\<close>

definition edit_prepare ::
  "(string \<Rightarrow> string) \<Rightarrow> com_config \<Rightarrow> instant \<Rightarrow> uuid \<Rightarrow> uuid \<Rightarrow> string \<Rightarrow> comment com_comp" where
  "edit_prepare render cfg now actor u raw =
     andthen (of_result (normalizeContent raw)) (\<lambda>content.
     andthen (getOwned render actor u) (\<lambda>c.
     if com_status c = StatusSpam \<or> com_status c = StatusRejected then throw ComNotEditable
     else if now > com_created c + cc_window cfg then throw ComEditWindowClosed
     else andthen (writablePolicy (com_post c)) (\<lambda>_.
     ret (c\<lparr>com_content := content, com_html := render content, com_edited := Some now, com_updated := now\<rparr>))))"

definition com_Update ::
  "(string \<Rightarrow> string) \<Rightarrow> com_config \<Rightarrow> instant \<Rightarrow> uuid \<Rightarrow> uuid \<Rightarrow> string \<Rightarrow> comment com_comp" where
  "com_Update render cfg now actor u raw = andthen (edit_prepare render cfg now actor u raw) (com_update render)"

definition com_Delete :: "(string \<Rightarrow> string) \<Rightarrow> instant \<Rightarrow> uuid \<Rightarrow> uuid \<Rightarrow> unit com_comp" where
  "com_Delete render now actor u =
     andthen (com_get render u) (\<lambda>c.
     if \<not> OwnedBy c actor then throw ComForbidden
     else if com_status c = StatusDeleted then ret ()
     else drop_result (com_update render
       (c\<lparr>com_status := StatusDeleted, com_deleted := Some now, com_deleted_by := Some actor, com_updated := now\<rparr>)))"

record flag_input =
  fi_comment :: uuid
  fi_reporter :: "uuid option"
  fi_reason :: string
  fi_details :: string
  fi_ip :: string
  fi_agent :: string

definition flag_of :: "(string \<Rightarrow> string) \<Rightarrow> instant \<Rightarrow> uuid \<Rightarrow> flag_input \<Rightarrow> string \<Rightarrow> string \<Rightarrow> com_flag" where
  "flag_of hash now u i reason details =
     \<lparr>cf_comment = u, cf_reporter = fi_reporter i,
      cf_ip = (if fi_reporter i = None then hashIdentity hash (fi_ip i @ ''|'' @ fi_agent i) else []),
      cf_reason = reason, cf_details = details, cf_at = now\<rparr>"

definition com_Flag :: "(string \<Rightarrow> string) \<Rightarrow> (string \<Rightarrow> string) \<Rightarrow> com_config \<Rightarrow> instant \<Rightarrow> flag_input \<Rightarrow> unit com_comp" where
  "com_Flag render hash cfg now i =
     (let reason = trim_space (fi_reason i); details = trim_space (fi_details i) in
      if reason \<notin> set FlagReasons then throw (ComValidation ''unknown reason_code'')
      else if rune_count details > MaxFlagDetailsRunes then throw (ComValidation ''details too long'')
      else
      andthen (com_get render (fi_comment i)) (\<lambda>c.
      if com_status c \<noteq> StatusApproved then throw ComNotFound
      else
      andthen (readablePost (com_post c)) (\<lambda>_.
      drop_result (AddFlag (flag_of hash now (com_uuid c) i reason details) (cc_threshold cfg)))))"

definition com_ToggleUpvote :: "(string \<Rightarrow> string) \<Rightarrow> uuid \<Rightarrow> uuid \<Rightarrow> (bool \<times> int) com_comp" where
  "com_ToggleUpvote render voter u =
     andthen (com_get render u) (\<lambda>c.
     if com_status c \<noteq> StatusApproved then throw ComNotFound
     else andthen (writablePolicy (com_post c)) (\<lambda>_.
     com_toggle_upvote (com_uuid c) voter))"

definition getPublic :: "(string \<Rightarrow> string) \<Rightarrow> uuid \<Rightarrow> comment com_comp" where
  "getPublic render u =
     andthen (com_get render u) (\<lambda>c.
     if \<not> com_Public c then throw ComNotFound
     else andthen (readablePost (com_post c)) (\<lambda>_. ret c))"

subsection \<open>Moderation\<close>

definition validateAction :: "com_action \<Rightarrow> com_error + unit" where
  "validateAction a = (if a \<in> set ModerationActions then Inr () else Inl (ComValidation ''unknown action''))"

definition decide ::
  "comment \<Rightarrow> com_action \<Rightarrow> uuid \<Rightarrow> string \<Rightarrow> bool \<Rightarrow> instant \<Rightarrow> uuid \<Rightarrow> com_error + moderation" where
  "decide c a moderator reason notify now entryID =
     (case Transition (com_status c) a of
        Inl e \<Rightarrow> Inl e
      | Inr to \<Rightarrow>
          if Scrubbed c then Inl ComInvalidTransition
          else
          let u0 = c\<lparr>com_status := to, com_mod_by := Some moderator, com_mod_reason := reason,
                    com_mod_at := Some now, com_updated := now\<rparr>;
              u1 = (if com_status c = StatusFlagged \<and> a = ActionApprove then u0\<lparr>com_flags := 0\<rparr> else u0);
              u2 = (if a = ActionRestore then u1\<lparr>com_deleted := None, com_deleted_by := None\<rparr> else u1)
          in Inr \<lparr>mo_comment = u2, mo_from = com_status c,
                  mo_entry = \<lparr>me_uuid = entryID, me_comment = com_uuid c, me_moderator = Some moderator,
                    me_action = a, me_from = com_status c, me_to = to, me_reason = reason,
                    me_notify = notify, me_before = Snapshot c, me_after = Some (Snapshot u2), me_at = now\<rparr>\<rparr>)"

definition applyModerations_tx :: "moderation list \<Rightarrow> unit com_comp" where
  "applyModerations_tx ms = within_tx (
     andthen (ApplyModerations ms) (\<lambda>_.
     com_record (map (\<lambda>m. commentModeratedEvent (mo_comment m) (mo_entry m) (me_at (mo_entry m))) ms)))"

fun com_uniqueIDs :: "uuid list \<Rightarrow> uuid list \<Rightarrow> uuid list" where
  "com_uniqueIDs seen [] = []"
| "com_uniqueIDs seen (u # us) = (if u \<in> set seen then com_uniqueIDs seen us else u # com_uniqueIDs (u # seen) us)"

definition becameVisibleReply :: "moderation \<Rightarrow> bool" where
  "becameVisibleReply m \<longleftrightarrow>
     com_parent (mo_comment m) \<noteq> None \<and> me_to (mo_entry m) = StatusApproved \<and> mo_from m \<noteq> StatusFlagged"

definition notifyModerations :: "(string \<Rightarrow> string) \<Rightarrow> moderation list \<Rightarrow> unit com_comp" where
  "notifyModerations render ms =
     andthen (com_notify (map CommentModerated
       (filter (\<lambda>m. me_notify (mo_entry m) \<and> com_author (mo_comment m) \<noteq> None) ms))) (\<lambda>_ s.
     let parentIDs = map (\<lambda>m. the (com_parent (mo_comment m))) (filter becameVisibleReply ms) in
     if parentIDs = [] then (Inr (), s)
     else (case com_get_many render (com_uniqueIDs [] parentIDs) s of
        (Inl _, t) \<Rightarrow> (Inr (), t)
      | (Inr parents, t) \<Rightarrow>
          com_notify (concat (map (\<lambda>m.
            case find (\<lambda>q. com_uuid q = the (com_parent (mo_comment m))) parents of
              None \<Rightarrow> [] | Some p \<Rightarrow> [CommentReplied (mo_comment m) p]) (filter becameVisibleReply ms))) t))"

definition com_Moderate ::
  "(string \<Rightarrow> string) \<Rightarrow> instant \<Rightarrow> uuid \<Rightarrow> uuid \<Rightarrow> uuid \<Rightarrow> com_action \<Rightarrow> string \<Rightarrow> bool \<Rightarrow> comment com_comp" where
  "com_Moderate render now entryID moderator u a rawReason notify =
     andthen (of_result (validateAction a)) (\<lambda>_.
     andthen (of_result (normalizeReason rawReason)) (\<lambda>reason.
     andthen (com_get render u) (\<lambda>c.
     andthen (of_result (decide c a moderator reason notify now entryID)) (\<lambda>m.
     andthen (applyModerations_tx [m]) (\<lambda>_.
     andthen (notifyModerations render [m]) (\<lambda>_.
     com_get render u))))))"

text \<open>The loop of \<open>decideBatch\<close>: missing, invalid and decided so far; \<open>gen k\<close> is the id of the k-th entry.\<close>

fun batch_loop ::
  "comment list \<Rightarrow> com_action \<Rightarrow> uuid \<Rightarrow> string \<Rightarrow> instant \<Rightarrow> (nat \<Rightarrow> uuid) \<Rightarrow> nat \<Rightarrow> uuid list
     \<Rightarrow> uuid list \<times> uuid list \<times> moderation list \<Rightarrow> com_error + uuid list \<times> uuid list \<times> moderation list" where
  "batch_loop cs a moderator reason now gen k [] acc = Inr acc"
| "batch_loop cs a moderator reason now gen k (u # us) (missing, invalid, changes) =
     (case find (\<lambda>c. com_uuid c = u) cs of
        None \<Rightarrow> batch_loop cs a moderator reason now gen (Suc k) us (missing @ [u], invalid, changes)
      | Some c \<Rightarrow>
          (case decide c a moderator reason False now (gen k) of
             Inl e \<Rightarrow> if e = ComInvalidTransition
                      then batch_loop cs a moderator reason now gen (Suc k) us (missing, invalid @ [u], changes)
                      else Inl e
           | Inr m \<Rightarrow> batch_loop cs a moderator reason now gen (Suc k) us (missing, invalid, changes @ [m])))"

definition decideBatch ::
  "comment list \<Rightarrow> com_action \<Rightarrow> uuid \<Rightarrow> string \<Rightarrow> instant \<Rightarrow> (nat \<Rightarrow> uuid) \<Rightarrow> uuid list \<Rightarrow> com_error + moderation list" where
  "decideBatch cs a moderator reason now gen ids =
     (case batch_loop cs a moderator reason now gen 0 ids ([], [], []) of
        Inl e \<Rightarrow> Inl e
      | Inr (missing, invalid, changes) \<Rightarrow>
          if missing \<noteq> [] then Inl (ComBatch ComNotFound missing)
          else if invalid \<noteq> [] then Inl (ComBatch ComInvalidTransition invalid)
          else Inr changes)"

definition com_BulkModerate ::
  "(string \<Rightarrow> string) \<Rightarrow> instant \<Rightarrow> (nat \<Rightarrow> uuid) \<Rightarrow> uuid \<Rightarrow> uuid list \<Rightarrow> com_action \<Rightarrow> string \<Rightarrow> nat com_comp" where
  "com_BulkModerate render now gen moderator rawIDs a rawReason =
     andthen (of_result (validateAction a)) (\<lambda>_.
     andthen (of_result (normalizeReason rawReason)) (\<lambda>reason.
     let ids = com_uniqueIDs [] rawIDs in
     if ids = [] \<or> length ids > MaxBulkModerate then throw (ComValidation ''ids must contain 1 to 500 comments'')
     else
     andthen (com_get_many render ids) (\<lambda>cs.
     andthen (of_result (decideBatch cs a moderator reason now gen ids)) (\<lambda>ms.
     andthen (applyModerations_tx ms) (\<lambda>_.
     andthen (notifyModerations render ms) (\<lambda>_.
     ret (length ms)))))))"

definition com_HardDelete ::
  "(string \<Rightarrow> string) \<Rightarrow> instant \<Rightarrow> uuid \<Rightarrow> uuid \<Rightarrow> uuid \<Rightarrow> string \<Rightarrow> bool com_comp" where
  "com_HardDelete render now entryID moderator u rawReason =
     andthen (of_result (normalizeReason rawReason)) (\<lambda>reason.
     andthen (com_get render u) (\<lambda>c.
     let e = \<lparr>me_uuid = entryID, me_comment = com_uuid c, me_moderator = Some moderator,
              me_action = ActionHardDelete, me_from = com_status c, me_to = StatusDeleted, me_reason = reason,
              me_notify = False, me_before = Snapshot c, me_after = None, me_at = now\<rparr>
     in within_tx (
       andthen (com_hard_delete u e) (\<lambda>scrubbed.
       andthen (com_record [commentModeratedEvent c e now]) (\<lambda>_. ret scrubbed)))))"

end
