(* ===== verification/Comment_Correct.thy ===== *)
theory Comment_Correct
  imports Comment_Service
begin

text \<open>
  What the comment service keeps of its tables, whichever requests run and whichever storage calls
  fail: the thread structure, the counters, the meaning of the deleted status, and the moderation log.
\<close>

section \<open>The invariant\<close>

definition com_placed :: "comment list \<Rightarrow> comment \<Rightarrow> bool" where
  "com_placed rows c \<longleftrightarrow>
     (case com_parent c of
        None \<Rightarrow> com_depth c = 0
      | Some p \<Rightarrow> \<exists>q \<in> set rows. com_uuid q = p \<and> com_post q = com_post c \<and> com_depth c = com_depth q + 1)
     \<and> 0 \<le> com_depth c \<and> com_depth c \<le> MaxDepth"

definition votes_for :: "uuid \<Rightarrow> (uuid \<times> uuid) list \<Rightarrow> int" where
  "votes_for u ups = int (length (filter (\<lambda>r. fst r = u) ups))"

definition flags_for :: "uuid \<Rightarrow> com_flag list \<Rightarrow> int" where
  "flags_for u fs = int (length (filter (\<lambda>f. cf_comment f = u) fs))"

definition com_sound :: "(uuid \<times> uuid) list \<Rightarrow> com_flag list \<Rightarrow> comment \<Rightarrow> bool" where
  "com_sound ups fs c \<longleftrightarrow>
     com_upvotes c = votes_for (com_uuid c) ups \<and>
     0 \<le> com_flags c \<and> com_flags c \<le> flags_for (com_uuid c) fs \<and>
     (com_status c = StatusDeleted \<longleftrightarrow> com_deleted c \<noteq> None) \<and>
     (com_content c = [] \<longrightarrow> com_status c = StatusDeleted)"

definition entry_ok :: "mod_entry \<Rightarrow> bool" where
  "entry_ok e \<longleftrightarrow>
     (if me_action e = ActionHardDelete then me_to e = StatusDeleted
      else Transition (me_from e) (me_action e) = Inr (me_to e))"

definition com_ok :: "comment list \<Rightarrow> (uuid \<times> uuid) list \<Rightarrow> com_flag list \<Rightarrow> mod_entry list \<Rightarrow> bool" where
  "com_ok rows ups fs entries \<longleftrightarrow>
     distinct (map com_uuid rows) \<and>
     (\<forall>c \<in> set rows. com_placed rows c \<and> com_sound ups fs c) \<and>
     distinct ups \<and> fst ` set ups \<subseteq> com_uuid ` set rows \<and>
     sorted_wrt (\<lambda>a b. \<not> same_flagger b a) fs \<and> cf_comment ` set fs \<subseteq> com_uuid ` set rows \<and>
     list_all entry_ok entries \<and> distinct (map me_uuid entries)"

definition com_inv :: "com_store \<Rightarrow> bool" where
  "com_inv s \<longleftrightarrow> com_ok (com_rows s) (com_upvote_rows s) (com_flag_rows s) (com_log s)"

lemma com_inv_frame [simp]:
  "com_inv (s\<lparr>calls := n\<rparr>) = com_inv s" "com_inv (s\<lparr>com_events := es\<rparr>) = com_inv s"
  "com_inv (s\<lparr>com_notices := ns\<rparr>) = com_inv s"
  by (simp_all add: com_inv_def)

lemma com_ids_calls [simp]: "com_ids (s\<lparr>calls := n\<rparr>) = com_ids s"
  by (simp add: com_ids_def)

text \<open>The rows an operation may rewrite in place: everything but their position in the thread.\<close>

definition keeps_place :: "(comment \<Rightarrow> comment) \<Rightarrow> bool" where
  "keeps_place f \<longleftrightarrow> (\<forall>c. com_uuid (f c) = com_uuid c \<and> com_post (f c) = com_post c \<and>
                           com_parent (f c) = com_parent c \<and> com_depth (f c) = com_depth c)"

lemma keeps_placeI:
  assumes "\<And>c. com_uuid (f c) = com_uuid c" "\<And>c. com_post (f c) = com_post c"
    "\<And>c. com_parent (f c) = com_parent c" "\<And>c. com_depth (f c) = com_depth c"
  shows "keeps_place f"
  unfolding keeps_place_def using assms by blast

lemma keeps_placeD [simp]:
  assumes "keeps_place f"
  shows "com_uuid (f c) = com_uuid c" "com_post (f c) = com_post c"
    "com_parent (f c) = com_parent c" "com_depth (f c) = com_depth c"
  using assms unfolding keeps_place_def by blast+

lemma com_placed_map:
  "keeps_place f \<Longrightarrow> com_placed rows c \<Longrightarrow> com_placed (map f rows) (f c)"
  by (auto simp: com_placed_def split: option.splits)

lemma com_placed_mono: "com_placed rows c \<Longrightarrow> set rows \<subseteq> set rows' \<Longrightarrow> com_placed rows' c"
  by (auto simp: com_placed_def split: option.splits)

lemma com_okD:
  assumes "com_ok rows ups fs es"
  shows "distinct (map com_uuid rows)"
    "c \<in> set rows \<Longrightarrow> com_placed rows c" "c \<in> set rows \<Longrightarrow> com_sound ups fs c"
    "distinct ups" "fst ` set ups \<subseteq> com_uuid ` set rows"
    "sorted_wrt (\<lambda>a b. \<not> same_flagger b a) fs" "cf_comment ` set fs \<subseteq> com_uuid ` set rows"
    "list_all entry_ok es" "distinct (map me_uuid es)"
  using assms by (simp_all add: com_ok_def)

lemma com_ok_map:
  assumes i: "com_ok rows ups fs es" and f: "keeps_place f"
    and ups: "distinct ups'" "fst ` set ups' \<subseteq> com_uuid ` set rows"
    and fs: "sorted_wrt (\<lambda>a b. \<not> same_flagger b a) fs'" "cf_comment ` set fs' \<subseteq> com_uuid ` set rows"
    and sound: "\<And>c. c \<in> set rows \<Longrightarrow> com_sound ups' fs' (f c)"
  shows "com_ok (map f rows) ups' fs' es"
proof -
  have *: "map (com_uuid \<circ> f) rows = map com_uuid rows" "com_uuid ` f ` set rows = com_uuid ` set rows"
    using f by (simp_all add: image_image)
  show ?thesis
    using com_okD(1,8,9) [OF i] com_placed_map [OF f] com_okD(2) [OF i] sound ups fs
    unfolding com_ok_def by (simp add: *)
qed

lemma com_find: "find (\<lambda>c. com_uuid c = u) rows = Some c \<Longrightarrow> c \<in> set rows \<and> com_uuid c = u"
  by (auto simp: find_Some_iff)

lemma com_unique:
  "distinct (map com_uuid rows) \<Longrightarrow> c \<in> set rows \<Longrightarrow> d \<in> set rows \<Longrightarrow> com_uuid c = com_uuid d \<Longrightarrow> c = d"
  by (auto simp: distinct_map dest: inj_onD)

section \<open>How each write changes the tables\<close>

lemma com_ok_add:
  assumes i: "com_ok rows ups fs es" and new: "com_uuid c \<notin> com_uuid ` set rows"
    and c: "com_placed rows c" "com_upvotes c = 0" "com_flags c = 0" "com_deleted c = None"
      "com_status c \<noteq> StatusDeleted" "com_content c \<noteq> []"
  shows "com_ok (rows @ [c]) ups fs es"
proof -
  have "votes_for (com_uuid c) ups = 0"
    using com_okD(5) [OF i] new by (auto simp: votes_for_def filter_empty_conv)
  then have sound: "com_sound ups fs c" using c by (simp add: com_sound_def flags_for_def)
  have placed: "com_placed (rows @ [c]) d" if "com_placed rows d" for d
    using that by (rule com_placed_mono) auto
  show ?thesis unfolding com_ok_def
    using com_okD [OF i] new sound placed [OF c(1)] placed by (simp add: subset_insertI2)
qed

lemma com_put_place: "keeps_place (com_put c)"
  by (rule keeps_placeI) (simp_all add: com_put_def)

lemma com_ok_put:
  assumes i: "com_ok rows ups fs es" and c: "com_status c = StatusDeleted \<longleftrightarrow> com_deleted c \<noteq> None"
      "com_content c = [] \<longrightarrow> com_status c = StatusDeleted"
  shows "com_ok (map (com_put c) rows) ups fs es"
proof (rule com_ok_map [OF i com_put_place])
  fix r assume "r \<in> set rows"
  from com_okD(3) [OF i this] show "com_sound ups fs (com_put c r)"
    using c by (auto simp: com_sound_def com_put_def)
qed (use com_okD(4-7) [OF i] in simp_all)

lemma bump_flag_place: "keeps_place (bump_flag n u)"
  by (rule keeps_placeI) (simp_all add: bump_flag_def)

lemma com_ok_flag:
  assumes i: "com_ok rows ups fs es" and f: "cf_comment f \<in> com_uuid ` set rows" "\<not> list_ex (same_flagger f) fs"
  shows "com_ok (map (bump_flag n (cf_comment f)) rows) ups (fs @ [f]) es"
proof (rule com_ok_map [OF i bump_flag_place])
  fix r assume "r \<in> set rows"
  from com_okD(3) [OF i this] show "com_sound ups (fs @ [f]) (bump_flag n (cf_comment f) r)"
    by (auto simp: com_sound_def bump_flag_def flags_for_def)
qed (use com_okD(4-7) [OF i] f in \<open>auto simp: sorted_wrt_append list_ex_iff\<close>)

lemma bump_upvote_place: "keeps_place (bump_upvote d u)"
  by (rule keeps_placeI) (simp_all add: bump_upvote_def)

lemma votes_add: "votes_for u (ups @ [(v, w)]) = votes_for u ups + (if v = u then 1 else 0)"
  by (simp add: votes_for_def)

lemma votes_remove:
  "distinct ups \<Longrightarrow> (v, w) \<in> set ups \<Longrightarrow>
     votes_for u (filter (\<lambda>r. r \<noteq> (v, w)) ups) = votes_for u ups - (if v = u then 1 else 0)"
proof (induction ups)
  case (Cons r ups)
  then show ?case
    by (cases "r = (v, w)") (auto simp: votes_for_def intro!: arg_cong [where f = length] filter_cong)
qed simp

lemma votes_nonneg [simp]: "0 \<le> votes_for u ups"
  by (simp add: votes_for_def)

lemma com_ok_votes:
  assumes i: "com_ok rows ups fs es" and ups: "distinct ups'" "fst ` set ups' \<subseteq> com_uuid ` set rows"
    and v: "\<And>w. votes_for w ups' = votes_for w ups + (if w = u then d else 0)"
  shows "com_ok (map (bump_upvote d u) rows) ups' fs es"
proof (rule com_ok_map [OF i bump_upvote_place ups])
  fix r assume "r \<in> set rows"
  from com_okD(3) [OF i this] v [of u] votes_nonneg [of u ups'] v [of "com_uuid r"]
  show "com_sound ups' fs (bump_upvote d u r)" by (auto simp: com_sound_def bump_upvote_def)
qed (use com_okD [OF i] in simp_all)

text \<open>A decided moderation is fit to be applied to the tables.\<close>

definition mod_fit :: "comment list \<Rightarrow> com_flag list \<Rightarrow> moderation \<Rightarrow> bool" where
  "mod_fit rows fs m \<longleftrightarrow>
     0 \<le> com_flags (mo_comment m) \<and>
     com_flags (mo_comment m) \<le> flags_for (com_uuid (mo_comment m)) fs \<and>
     com_deleted (mo_comment m) = None \<and> com_status (mo_comment m) \<noteq> StatusDeleted \<and>
     (\<forall>r \<in> set rows. com_uuid r = com_uuid (mo_comment m) \<longrightarrow> com_content r \<noteq> []) \<and>
     entry_ok (mo_entry m)"

lemma put_moderation_place: "keeps_place (com_put_moderation m d w)"
  by (rule keeps_placeI) (simp_all add: com_put_moderation_def Let_def)

lemma put_moderation_content [simp]: "com_content (com_put_moderation m d w r) = com_content r"
  by (simp add: com_put_moderation_def Let_def)

lemma mod_fit_put [simp]: "mod_fit (map (com_put_moderation m d w) rows) fs m' = mod_fit rows fs m'"
  by (simp add: mod_fit_def put_moderation_place)

lemma com_ok_moderate:
  assumes i: "com_ok rows ups fs es" and m: "mod_fit rows fs m"
  shows "com_ok (map (com_put_moderation m d w) rows) ups fs es"
proof (rule com_ok_map [OF i put_moderation_place])
  fix r assume r: "r \<in> set rows"
  have *: "com_uuid r = com_uuid (mo_comment m) \<Longrightarrow> com_content r \<noteq> []" using m r by (simp add: mod_fit_def)
  from com_okD(3) [OF i r] show "com_sound ups fs (com_put_moderation m d w r)"
    using m * by (auto simp: com_sound_def com_put_moderation_def mod_fit_def Let_def)
qed (use com_okD [OF i] in simp_all)

lemma com_ok_log:
  "com_ok rows ups fs es \<Longrightarrow> list_all entry_ok es' \<Longrightarrow> distinct (map me_uuid (es @ es')) \<Longrightarrow>
     com_ok rows ups fs (es @ es')"
  by (simp add: com_ok_def)

lemma scrub_place: "keeps_place (com_scrub u e w)"
  by (rule keeps_placeI) (simp_all add: com_scrub_def)

lemma dropped_votes [simp]:
  "votes_for w (filter (\<lambda>r. fst r \<noteq> u) ups) = (if w = u then 0 else votes_for w ups)"
  "flags_for w (filter (\<lambda>f. cf_comment f \<noteq> u) fs) = (if w = u then 0 else flags_for w fs)"
  by (auto simp: votes_for_def flags_for_def filter_empty_conv intro!: arg_cong [where f = length] filter_cong)

lemma com_ok_scrub:
  assumes i: "com_ok rows ups fs es"
  shows "com_ok (map (com_scrub u e w) rows) (filter (\<lambda>r. fst r \<noteq> u) ups) (filter (\<lambda>f. cf_comment f \<noteq> u) fs) es"
proof (rule com_ok_map [OF i scrub_place])
  fix r assume "r \<in> set rows"
  from com_okD(3) [OF i this]
  show "com_sound (filter (\<lambda>r. fst r \<noteq> u) ups) (filter (\<lambda>f. cf_comment f \<noteq> u) fs) (com_scrub u e w r)"
    by (cases "com_uuid r = u") (auto simp: com_sound_def com_scrub_def split: option.split)
qed (use com_okD(4-7) [OF i] in \<open>auto simp: sorted_wrt_filter\<close>)

lemma com_ok_remove:
  assumes i: "com_ok rows ups fs es" and r: "\<not> list_ex (\<lambda>c. com_parent c = Some u) rows"
  shows "com_ok (filter (\<lambda>c. com_uuid c \<noteq> u) rows) (filter (\<lambda>r. fst r \<noteq> u) ups)
           (filter (\<lambda>f. cf_comment f \<noteq> u) fs) es"
proof -
  have placed: "com_placed (filter (\<lambda>c. com_uuid c \<noteq> u) rows) c" if "c \<in> set rows" for c
    using com_okD(2) [OF i that] r that by (auto simp: com_placed_def list_ex_iff split: option.splits)
  have sound: "com_sound (filter (\<lambda>r. fst r \<noteq> u) ups) (filter (\<lambda>f. cf_comment f \<noteq> u) fs) c"
    if "c \<in> set rows" "com_uuid c \<noteq> u" for c
    using com_okD(3) [OF i that(1)] that(2) by (simp add: com_sound_def)
  have "map com_uuid (filter (\<lambda>c. com_uuid c \<noteq> u) rows) = filter (\<lambda>v. v \<noteq> u) (map com_uuid rows)"
    by (simp add: filter_map comp_def)
  then show ?thesis using com_okD(1,4-9) [OF i] placed sound unfolding com_ok_def
    by (auto simp: sorted_wrt_filter)
qed

section \<open>Reading operations\<close>

lemma reads_com_known [reads_intros]: "reads (com_known f u e)"
  unfolding com_known_def by (intro reads_db_call readsI) simp

lemma reads_com_known_opt [reads_intros]: "reads (com_known_opt f r e)"
  unfolding com_known_opt_def by (intro reads_intros)

lemma reads_com_get [reads_intros]: "reads (com_get render u)"
  unfolding com_get_def by (intro reads_db_call readsI) (simp split: option.split)

lemma reads_com_get_many [reads_intros]: "reads (com_get_many render us)"
  unfolding com_get_many_def by (intro reads_intros)

lemma reads_PostPolicy [reads_intros]: "reads (PostPolicy p)"
  unfolding PostPolicy_def by (intro reads_db_call readsI) (simp split: option.split)

lemma reads_writablePolicy [reads_intros]: "reads (writablePolicy p)"
  unfolding writablePolicy_def by (intro reads_intros)

lemma reads_readablePost [reads_intros]: "reads (readablePost p)"
proof -
  have "unchanged s (snd (readablePost p s))" for s
    using readsD [OF reads_PostPolicy, of p s]
    by (auto simp: readablePost_def of_result_def split: prod.split sum.split)
  then show ?thesis by (simp add: reads_def)
qed

lemma reads_com_resolve [reads_intros]: "reads (com_resolve cache r)"
  unfolding com_resolve_def by (intro reads_intros)

lemma reads_checkGuest [reads_intros]: "reads (checkGuest lo cfg policy i)"
proof -
  have "reads (com_verify_captcha a b)" for a b
    by (auto simp: reads_def com_verify_captcha_def db_call_def asks_def Let_def split: prod.split sum.split)
  then show ?thesis unfolding checkGuest_def by (intro reads_intros)
qed

lemma com_fill_fields [simp]:
  "com_uuid (com_fill render c) = com_uuid c" "com_post (com_fill render c) = com_post c"
  "com_parent (com_fill render c) = com_parent c" "com_author (com_fill render c) = com_author c"
  "com_content (com_fill render c) = com_content c" "com_status (com_fill render c) = com_status c"
  "com_depth (com_fill render c) = com_depth c" "com_upvotes (com_fill render c) = com_upvotes c"
  "com_flags (com_fill render c) = com_flags c" "com_deleted (com_fill render c) = com_deleted c"
  "com_deleted_by (com_fill render c) = com_deleted_by c" "com_created (com_fill render c) = com_created c"
  by (simp_all add: com_fill_def)

lemma com_get_wp:
  assumes "\<And>c n. c \<in> set (com_rows s) \<Longrightarrow> com_uuid c = u \<Longrightarrow> Q (com_fill render c) (s\<lparr>calls := n\<rparr>)"
    and "\<And>e n. F e (s\<lparr>calls := n\<rparr>)"
  shows "wp (com_get render u) Q F s"
proof (cases "find (\<lambda>c. com_uuid c = u) (com_rows s)")
  case (Some c)
  then show ?thesis using assms(1) [of c] com_find [OF Some] assms(2) by (simp add: com_get_def wp_simps)
qed (use assms(2) in \<open>simp add: com_get_def wp_simps\<close>)

lemma com_known_wp:
  assumes "\<And>n. u \<in> set (f (s\<lparr>calls := n\<rparr>)) \<Longrightarrow> Q () (s\<lparr>calls := n\<rparr>)" "\<And>e n. F e (s\<lparr>calls := n\<rparr>)"
  shows "wp (com_known f u e) Q F s"
  using assms by (simp add: com_known_def wp_simps)

lemma replyParent_wp:
  assumes "\<And>c n. c \<in> set (com_rows s) \<Longrightarrow> com_uuid c = u \<Longrightarrow> com_post c = p \<Longrightarrow> com_status c = StatusApproved \<Longrightarrow>
             com_depth c + 1 \<le> MaxDepth \<Longrightarrow> Q (com_fill render c) (s\<lparr>calls := n\<rparr>)"
    and "\<And>e n. F e (s\<lparr>calls := n\<rparr>)"
  shows "wp (replyParent render p u) Q F s"
proof -
  have "wp (com_get render u)
     (\<lambda>c t. (com_post c = p \<and> com_status c = StatusApproved \<and> com_depth c + 1 \<le> MaxDepth \<longrightarrow> Q c t) \<and> (\<forall>e. F e t)) (\<lambda>_ t. \<forall>e. F e t) s"
    by (rule com_get_wp) (use assms in auto)
  then show ?thesis by (auto simp: wp_def replyParent_def split: prod.split sum.split)
qed

section \<open>Writing operations\<close>

lemma com_get_inv: "com_inv s \<Longrightarrow> wp (com_get render u) (\<lambda>_. com_inv) (\<lambda>_. com_inv) s"
  by (rule wp_reads [OF reads_com_get]) simp_all

lemma com_update_inv:
  assumes "com_inv s" "com_status c = StatusDeleted \<longleftrightarrow> com_deleted c \<noteq> None"
    "com_content c = [] \<longrightarrow> com_status c = StatusDeleted"
  shows "wp (com_update render c) (\<lambda>_. com_inv) (\<lambda>_. com_inv) s"
proof -
  have "com_inv (s\<lparr>calls := n, com_rows := map (com_put c) (com_rows s)\<rparr>)" for n
    using assms com_ok_put by (simp add: com_inv_def)
  then show ?thesis using assms(1) unfolding com_update_def wp_andthen
    by (intro wp_reads [OF reads_com_known_opt]) (simp_all add: wp_simps com_get_inv)
qed

lemma AddFlag_inv:
  assumes i: "com_inv s" shows "wp (AddFlag f n) (\<lambda>_. com_inv) (\<lambda>_. com_inv) s"
proof -
  have "com_ok (map (bump_flag n (cf_comment f)) (com_rows s)) (com_upvote_rows s) (com_flag_rows s @ [f]) (com_log s)"
    if "\<not> list_ex (same_flagger f) (com_flag_rows s)" "cf_comment f \<in> com_uuid ` set (com_rows s)"
    using i that by (intro com_ok_flag) (simp_all add: com_inv_def)
  then show ?thesis using i unfolding AddFlag_def wp_within_tx wp_andthen
    by (intro com_known_wp wp_reads [OF reads_com_known_opt])
      (simp_all add: wp_simps com_inv_def com_ids_def)
qed

lemma toggle_inv:
  assumes i: "com_inv s" shows "wp (com_toggle_upvote u v) (\<lambda>_. com_inv) (\<lambda>_. com_inv) s"
proof -
  let ?ups = "com_upvote_rows s"
  have ok: "com_ok (com_rows s) ?ups (com_flag_rows s) (com_log s)" using i by (simp add: com_inv_def)
  have rem: "com_ok (map (bump_upvote (- 1) u) (com_rows s)) (filter (\<lambda>r. r \<noteq> (u, v)) ?ups) (com_flag_rows s) (com_log s)"
    if "(u, v) \<in> set ?ups"
    using com_okD(4,5) [OF ok] that by (intro com_ok_votes [OF ok]) (auto simp: votes_remove)
  have add: "com_ok (map (bump_upvote 1 u) (com_rows s)) (?ups @ [(u, v)]) (com_flag_rows s) (com_log s)"
    if "(u, v) \<notin> set ?ups" "u \<in> com_uuid ` set (com_rows s)"
    using com_okD(4,5) [OF ok] that by (intro com_ok_votes [OF ok]) (auto simp: votes_add)
  have none: "filter (\<lambda>r. r \<noteq> (u, v)) ?ups = ?ups" if "(u, v) \<notin> set ?ups"
    using that by (auto simp: filter_id_conv)
  show ?thesis
    unfolding com_toggle_upvote_def wp_within_tx wp_andthen
    by (intro com_known_wp; cases "(u, v) \<in> set ?ups")
      (use ok rem add none in \<open>simp_all add: wp_simps com_inv_def com_ids_def Let_def split: option.split\<close>)
qed

lemma insert_logs_inv:
  "com_inv s \<Longrightarrow> list_all entry_ok es \<Longrightarrow> wp (insert_logs es) (\<lambda>_. com_inv) (\<lambda>_. com_inv) s"
  using com_ok_log by (simp add: insert_logs_def wp_simps com_inv_def)

lemma CreateInBatches_inv:
  "com_inv s \<Longrightarrow> list_all entry_ok es \<Longrightarrow> wp (CreateInBatches es) (\<lambda>_. com_inv) (\<lambda>_. com_inv) s"
proof (induction es arbitrary: s rule: CreateInBatches.induct)
  case (2 e es)
  have "list_all entry_ok (take 100 (e # es))" "list_all entry_ok (drop 100 (e # es))"
    using 2(3) by (auto simp: list_all_iff dest: in_set_takeD in_set_dropD)
  then show ?case unfolding CreateInBatches.simps wp_andthen
    by (intro wp_mono [OF insert_logs_inv [OF 2(2)]] 2(1))
qed (simp add: wp_simps)

lemma apply_loop_inv:
  "com_inv s \<Longrightarrow> list_all (mod_fit (com_rows s) (com_flag_rows s)) ms \<Longrightarrow> list_all entry_ok logs \<Longrightarrow>
     wp (apply_loop ms cache stale logs) (\<lambda>(st, ls) t. com_inv t \<and> list_all entry_ok ls) (\<lambda>_ _. True) s"
proof (induction ms arbitrary: s cache stale logs)
  case (Cons m ms)
  let ?Q = "\<lambda>(st, ls) t. com_inv t \<and> list_all entry_ok ls"
  have rest: "wp (apply_loop ms cache' stale' logs') ?Q (\<lambda>_ _. True)
      (s\<lparr>com_rows := map (com_put_moderation m d w) (com_rows s), calls := l\<rparr>)"
    if "list_all entry_ok logs'" for cache' stale' logs' l d w
    using Cons.prems(1,2) that by (intro Cons.IH) (simp_all add: com_inv_def com_ok_moderate)
  have e: "entry_ok ((mo_entry m)\<lparr>me_moderator := w\<rparr>)" for w
    using Cons.prems(2) by (simp add: mod_fit_def entry_ok_def)
  have rest': "wp (apply_loop ms cache' stale' logs') ?Q (\<lambda>_ _. True)
      (s\<lparr>calls := l, com_rows := map (com_put_moderation m d w) (com_rows s)\<rparr>)"
    if "list_all entry_ok logs'" for cache' stale' logs' l d w
    using Cons.prems(1,2) that by (intro Cons.IH) (simp_all add: com_inv_def com_ok_moderate)
  show ?case unfolding apply_loop.simps wp_andthen
    using rest rest' e Cons.prems(3)
    by (intro wp_reads [OF reads_com_resolve])
      (auto simp: wp_simps split: prod.split intro!: wp_reads [OF reads_com_resolve])
qed (simp add: wp_simps)

lemma ApplyModerations_inv:
  assumes "com_inv s" "list_all (mod_fit (com_rows s) (com_flag_rows s)) ms"
  shows "wp (ApplyModerations ms) (\<lambda>_. com_inv) (\<lambda>_. com_inv) s"
proof -
  have "wp (apply_loop ms [] [] []) (\<lambda>r. wp (case r of (stale, logs) \<Rightarrow>
      if stale \<noteq> [] then throw (ComBatch ComInvalidTransition stale) else CreateInBatches logs)
      (\<lambda>_. com_inv) (\<lambda>_ _. True)) (\<lambda>_ _. True) s"
    by (rule wp_mono [OF apply_loop_inv [OF assms]])
      (auto simp: wp_simps split: prod.splits intro: wp_mono [OF CreateInBatches_inv])
  then show ?thesis using assms(1)
    by (auto simp: ApplyModerations_def wp_simps elim!: wp_mono)
qed

lemma com_hard_delete_inv:
  assumes i: "com_inv s" and e: "entry_ok e"
  shows "wp (com_hard_delete u e) (\<lambda>_. com_inv) (\<lambda>_. com_inv) s"
proof -
  let ?e = "\<lambda>w. e\<lparr>me_moderator := w\<rparr>"
  have "com_ok (com_rows s) (com_upvote_rows s) (com_flag_rows s) (com_log s @ [?e w])"
    if "distinct (map me_uuid (com_log s @ [?e w]))" for w
    using i e that by (intro com_ok_log) (simp_all add: com_inv_def entry_ok_def)
  note ok = com_ok_scrub [OF this, of _ u e] com_ok_remove [OF this, of _ u]
  show ?thesis unfolding com_hard_delete_def wp_within_tx wp_andthen
    by (intro com_known_wp wp_reads [OF reads_com_resolve])
      (use i ok in \<open>auto simp: wp_simps com_inv_def insert_logs_def drop_votes_def split: prod.split\<close>)
qed

section \<open>Requests\<close>

lemma com_create_inv:
  assumes i: "com_inv s" and c: "com_placed (com_rows s) c" "com_status c \<noteq> StatusDeleted" "com_content c \<noteq> []"
  shows "wp (com_create render c) (\<lambda>_. com_inv) (\<lambda>_. com_inv) s"
proof -
  let ?c = "c\<lparr>com_upvotes := 0, com_flags := 0, com_edited := None, com_deleted := None, com_deleted_by := None,
            com_mod_by := None, com_mod_reason := [], com_mod_at := None\<rparr>"
  have "com_placed (com_rows s) ?c" using c(1) by (simp add: com_placed_def split: option.splits)
  then have "com_ok (com_rows s @ [?c]) (com_upvote_rows s) (com_flag_rows s) (com_log s)"
    if "com_uuid c \<notin> com_uuid ` set (com_rows s)"
    using i c that by (intro com_ok_add) (simp_all add: com_inv_def)
  then have "com_inv (s\<lparr>calls := n, com_rows := com_rows s @ [?c]\<rparr>)" if "com_uuid c \<notin> set (com_ids s)" for n
    using that by (simp add: com_inv_def com_ids_def)
  then show ?thesis using i unfolding com_create_def wp_andthen
    by (intro wp_reads [OF reads_com_known] wp_reads [OF reads_com_known_opt])
      (simp_all add: wp_simps com_get_inv)
qed

lemma com_store_new_inv:
  assumes "com_inv s" "com_placed (com_rows s) c" "com_status c \<noteq> StatusDeleted" "com_content c \<noteq> []"
  shows "wp (com_store_new render c) (\<lambda>_. com_inv) (\<lambda>_. com_inv) s"
  unfolding com_store_new_def wp_within_tx wp_andthen
  by (rule wp_mono [OF com_create_inv [OF assms]]) (use assms(1) in \<open>simp_all add: wp_simps com_record_def\<close>)

lemma initial_status_live: "initial_status cfg i \<noteq> StatusDeleted"
  by (simp add: initial_status_def)

lemma reply_notice_inv: "com_inv s \<Longrightarrow> wp (reply_notice p c) (\<lambda>_. com_inv) (\<lambda>_. com_inv) s"
  by (simp add: reply_notice_def wp_simps com_notify_def split: option.split)

lemma parent_of_wp:
  assumes i: "com_inv s"
    and Q: "\<And>parent n. com_placed (com_rows s) (new_comment render hash cfg now u k content w parent) \<Longrightarrow>
              Q parent (s\<lparr>calls := n\<rparr>)"
    and F: "\<And>e n. F e (s\<lparr>calls := n\<rparr>)"
  shows "wp (parent_of render k) Q F s"
proof (cases "ki_parent k")
  case None
  then have "com_placed (com_rows s) (new_comment render hash cfg now u k content w None)"
    by (simp add: new_comment_def com_placed_def MaxDepth_def)
  from Q [OF this, of "calls s"] None show ?thesis by (simp add: parent_of_def wp_simps)
next
  case (Some p)
  show ?thesis unfolding parent_of_def Some option.case wp_andthen wp_const
  proof (rule replyParent_wp)
    fix c n
    assume c: "c \<in> set (com_rows s)" "com_uuid c = p" "com_post c = ki_post k" "com_depth c + 1 \<le> MaxDepth"
    have "0 \<le> com_depth c" using com_okD(2) i c(1) unfolding com_inv_def com_placed_def by blast
    then have "com_placed (com_rows s) (new_comment render hash cfg now u k content w (Some (com_fill render c)))"
      using c Some by (auto simp: new_comment_def com_placed_def)
    then show "Q (Some (com_fill render c)) (s\<lparr>calls := n\<rparr>)" by (rule Q)
  qed (rule F)
qed

lemma com_Create_inv:
  assumes i: "com_inv s"
  shows "wp (com_Create lo render hash cfg now u k) (\<lambda>_. com_inv) (\<lambda>_. com_inv) s"
proof (cases "normalizeContent (ki_content k)")
  case (Inr content)
  then have content: "content \<noteq> []" by (auto simp: normalizeContent_def Let_def split: if_splits)
  let ?new = "new_comment render hash cfg now u k content"
  have stored: "wp (com_store_new render (?new w parent)) (\<lambda>_. com_inv) (\<lambda>_. com_inv) (s\<lparr>calls := n\<rparr>)"
    if "com_placed (com_rows s) (?new w parent)" for w parent n
    using i that content by (intro com_store_new_inv) (simp_all add: new_comment_def initial_status_live)
  have parent: "wp (parent_of render k) (\<lambda>parent. wp (com_store_new render (?new w parent))
      (\<lambda>x. wp (reply_notice parent x) (\<lambda>_. com_inv) (\<lambda>_. com_inv)) (\<lambda>_. com_inv)) (\<lambda>_. com_inv) (s\<lparr>calls := n\<rparr>)" for w n
    by (rule parent_of_wp) (use i in \<open>auto intro!: wp_mono [OF stored] reply_notice_inv\<close>)
  have guest: "reads (if ki_author k = None then checkGuest lo cfg policy k else ret ([], []))" for policy
    by (intro reads_if reads_checkGuest reads_ret)
  have "wp (if ki_author k = None then checkGuest lo cfg policy k else ret ([], []))
     (\<lambda>w. wp (parent_of render k) (\<lambda>parent. wp (com_store_new render (?new w parent))
      (\<lambda>x. wp (reply_notice parent x) (\<lambda>_. com_inv) (\<lambda>_. com_inv)) (\<lambda>_. com_inv)) (\<lambda>_. com_inv))
     (\<lambda>_. com_inv) (s\<lparr>calls := n\<rparr>)" for policy n
    by (rule wp_reads [OF guest]) (use i parent in simp_all)
  then show ?thesis unfolding com_Create_def wp_andthen wp_of_result Inr sum.case wp_const
    by (intro wp_reads [OF reads_writablePolicy]) (use i in simp_all)
qed (simp add: com_Create_def wp_simps i)

lemma com_owned_sound:
  assumes "com_inv s" "c \<in> set (com_rows s)"
  shows "com_status c = StatusDeleted \<longleftrightarrow> com_deleted c \<noteq> None" "com_content c = [] \<longrightarrow> com_status c = StatusDeleted"
  using com_okD(3) assms unfolding com_inv_def com_sound_def by blast+

lemma edit_prepare_wp:
  assumes i: "com_inv s"
    and Q: "\<And>c n content html. com_status c \<noteq> StatusDeleted \<Longrightarrow> com_deleted c = None \<Longrightarrow> content \<noteq> [] \<Longrightarrow>
        c \<in> set (com_rows s) \<Longrightarrow> com_uuid c = u \<Longrightarrow> com_author c = Some actor \<Longrightarrow>
        Q ((com_fill render c)\<lparr>com_content := content, com_html := html, com_edited := Some now, com_updated := now\<rparr>)
          (s\<lparr>calls := n\<rparr>)"
    and F: "\<And>e n. F e (s\<lparr>calls := n\<rparr>)"
  shows "wp (edit_prepare render cfg now actor u raw) Q F s"
proof (cases "normalizeContent raw")
  case (Inr content)
  then have content: "content \<noteq> []" by (auto simp: normalizeContent_def Let_def split: if_splits)
  show ?thesis unfolding edit_prepare_def getOwned_def wp_andthen wp_of_result Inr sum.case
  proof (rule com_get_wp)
    fix c n assume c: "c \<in> set (com_rows s)" "com_uuid c = u"
    have "wp (writablePolicy p) (\<lambda>_. Q ((com_fill render c)\<lparr>com_content := content, com_html := render content,
        com_edited := Some now, com_updated := now\<rparr>)) F (s\<lparr>calls := n\<rparr>)"
      if "com_status c \<noteq> StatusDeleted" "com_author c = Some actor" for p
      by (rule wp_reads [OF reads_writablePolicy])
        (use that F Q [OF _ _ content c] com_owned_sound [OF i c(1)] in simp_all)
    then show "wp (if \<not> OwnedBy (com_fill render c) actor then throw ComForbidden
        else if com_status (com_fill render c) = StatusDeleted then throw ComNotFound else ret (com_fill render c))
       (\<lambda>x. wp (if com_status x = StatusSpam \<or> com_status x = StatusRejected then throw ComNotEditable
                 else if com_created x + cc_window cfg < now then throw ComEditWindowClosed
                 else andthen (writablePolicy (com_post x)) (\<lambda>_. ret (x\<lparr>com_content := content, com_html := render content,
                       com_edited := Some now, com_updated := now\<rparr>))) Q F) F (s\<lparr>calls := n\<rparr>)"
      using F by (simp add: wp_simps OwnedBy_def)
  qed (rule F)
qed (use F [of _ "calls s"] in \<open>simp add: edit_prepare_def wp_simps\<close>)

lemma com_Update_inv:
  assumes "com_inv s" shows "wp (com_Update render cfg now actor u raw) (\<lambda>_. com_inv) (\<lambda>_. com_inv) s"
  unfolding com_Update_def wp_andthen
  by (rule edit_prepare_wp [OF assms]) (use assms in \<open>auto intro!: com_update_inv\<close>)

lemma com_Delete_inv:
  assumes i: "com_inv s" shows "wp (com_Delete render now actor u) (\<lambda>_. com_inv) (\<lambda>_. com_inv) s"
  unfolding com_Delete_def wp_andthen
  by (rule com_get_wp) (use i in \<open>auto simp: wp_simps intro!: com_update_inv\<close>)

lemma com_Flag_inv:
  assumes i: "com_inv s" shows "wp (com_Flag render hash cfg now k) (\<lambda>_. com_inv) (\<lambda>_. com_inv) s"
proof -
  have "wp (readablePost p) (\<lambda>_. wp (drop_result (AddFlag f n)) (\<lambda>_. com_inv) (\<lambda>_. com_inv)) (\<lambda>_. com_inv) (s\<lparr>calls := m\<rparr>)" for p f n m
    by (rule wp_reads [OF reads_readablePost]) (use i in \<open>simp_all add: AddFlag_inv wp_drop_result\<close>)
  then show ?thesis using i unfolding com_Flag_def Let_def
    by (auto simp: wp_simps intro!: com_get_wp)
qed

lemma com_ToggleUpvote_inv:
  assumes i: "com_inv s" shows "wp (com_ToggleUpvote render v u) (\<lambda>_. com_inv) (\<lambda>_. com_inv) s"
proof -
  have "wp (writablePolicy p) (\<lambda>_. wp (com_toggle_upvote w v) (\<lambda>_. com_inv) (\<lambda>_. com_inv)) (\<lambda>_. com_inv) (s\<lparr>calls := m\<rparr>)" for p w m
    by (rule wp_reads [OF reads_writablePolicy]) (use i in \<open>simp_all add: toggle_inv\<close>)
  then show ?thesis using i unfolding com_ToggleUpvote_def
    by (auto simp: wp_simps intro!: com_get_wp)
qed

lemma decide_Inr:
  assumes "decide c a w reason notify now e = Inr m"
  obtains to where "Transition (com_status c) a = Inr to" "\<not> Scrubbed c"
    "com_uuid (mo_comment m) = com_uuid c" "com_status (mo_comment m) = to" "mo_from m = com_status c"
    "com_flags (mo_comment m) = (if com_status c = StatusFlagged \<and> a = ActionApprove then 0 else com_flags c)"
    "com_deleted (mo_comment m) = (if a = ActionRestore then None else com_deleted c)"
    "com_parent (mo_comment m) = com_parent c" "com_author (mo_comment m) = com_author c"
    "me_action (mo_entry m) = a" "me_from (mo_entry m) = com_status c" "me_to (mo_entry m) = to"
    "me_comment (mo_entry m) = com_uuid c" "me_moderator (mo_entry m) = Some w" "me_uuid (mo_entry m) = e"
    "com_mod_by (mo_comment m) = Some w" "me_notify (mo_entry m) = notify"
  using assms by (auto simp: decide_def Let_def split: sum.splits if_splits)

lemma Transition_Inr:
  "Transition st a = Inr to \<Longrightarrow> to \<noteq> StatusDeleted \<and> a \<noteq> ActionHardDelete \<and> (st = StatusDeleted \<longleftrightarrow> a = ActionRestore)"
  by (auto simp: Transition_def transitions_def split: com_action.splits if_splits)

lemma decide_fit:
  assumes ok: "com_ok rows ups fs es" and c: "c \<in> set rows"
    and d: "decide (com_fill render c) a w reason notify now e = Inr m"
  shows "mod_fit rows fs m"
proof -
  obtain to where to: "Transition (com_status c) a = Inr to" "\<not> Scrubbed (com_fill render c)"
    and m: "com_uuid (mo_comment m) = com_uuid c" "com_status (mo_comment m) = to"
      "com_flags (mo_comment m) = (if com_status c = StatusFlagged \<and> a = ActionApprove then 0 else com_flags c)"
      "com_deleted (mo_comment m) = (if a = ActionRestore then None else com_deleted c)"
      "me_action (mo_entry m) = a" "me_from (mo_entry m) = com_status c" "me_to (mo_entry m) = to"
    using d by (rule decide_Inr) simp
  have *: "r = c" if "r \<in> set rows" "com_uuid r = com_uuid c" for r
    using com_unique [OF com_okD(1) [OF ok]] c that by blast
  have "com_content c \<noteq> []" using to(2) com_okD(3) [OF ok c] by (auto simp: Scrubbed_def com_sound_def)
  then have "\<forall>r \<in> set rows. com_uuid r = com_uuid c \<longrightarrow> com_content r \<noteq> []" using * by blast
  then show ?thesis using com_okD(3) [OF ok c] Transition_Inr [OF to(1)] to(1)
    by (auto simp: mod_fit_def m com_sound_def entry_ok_def)
qed

lemma notices_calls: "s\<lparr>calls := n, com_notices := ns\<rparr> = s\<lparr>com_notices := ns, calls := n\<rparr>" for s :: com_store
  by (rule com_store.equality) simp_all

lemma notifyModerations_wp:
  assumes Q: "\<And>n ns. Q () (s\<lparr>com_notices := ns, calls := n\<rparr>)"
  shows "wp (notifyModerations render ms) Q F s"
proof -
  let ?s = "s\<lparr>com_notices := com_notices s @ map CommentModerated
       (filter (\<lambda>m. me_notify (mo_entry m) \<and> com_author (mo_comment m) \<noteq> None) ms)\<rparr>"
  let ?g = "com_get_many render (com_uniqueIDs []
      (map (\<lambda>m. the (com_parent (mo_comment m))) (filter becameVisibleReply ms)))"
  obtain r t where rt: "?g ?s = (r, t)" by (rule prod.exhaust)
  from readsD [OF reads_com_get_many rt] obtain n where t: "t = ?s\<lparr>calls := n\<rparr>" unfolding unchanged_def by (rule exE)
  note r = rt [unfolded t]
  have same: "s\<lparr>com_notices := ns, calls := calls s\<rparr> = s\<lparr>com_notices := ns\<rparr>" for ns
    by (rule com_store.equality) simp_all
  have Q0: "Q () (s\<lparr>com_notices := ns\<rparr>)" for ns using Q [of "calls s" ns] unfolding same .
  have Q2: "Q () (s\<lparr>calls := n, com_notices := ns\<rparr>)" for ns using Q unfolding notices_calls .
  show ?thesis
    unfolding notifyModerations_def wp_andthen com_notify_def wp_basic Let_def
    unfolding wp_def r by (auto simp: Q Q0 Q2 change_run split: sum.split)
qed

lemma applyModerations_tx_inv:
  assumes "com_inv s" "list_all (mod_fit (com_rows s) (com_flag_rows s)) ms"
  shows "wp (applyModerations_tx ms) (\<lambda>_. com_inv) (\<lambda>_. com_inv) s"
  unfolding applyModerations_tx_def wp_within_tx wp_andthen
  by (rule wp_mono [OF ApplyModerations_inv [OF assms]]) (use assms(1) in \<open>simp_all add: wp_simps com_record_def\<close>)

lemma notify_inv: "com_inv s \<Longrightarrow> wp (notifyModerations render ms) (\<lambda>_. com_inv) (\<lambda>_. com_inv) s"
  by (rule notifyModerations_wp) simp

lemma applied_inv:
  assumes "com_inv s" "list_all (mod_fit (com_rows s) (com_flag_rows s)) ms"
    "\<And>t. com_inv t \<Longrightarrow> wp m (\<lambda>_. com_inv) (\<lambda>_. com_inv) t"
  shows "wp (applyModerations_tx ms) (\<lambda>_. wp (notifyModerations render ms) (\<lambda>_. wp m (\<lambda>_. com_inv) (\<lambda>_. com_inv)) (\<lambda>_. com_inv))
           (\<lambda>_. com_inv) s"
  using assms by (intro wp_mono [OF applyModerations_tx_inv] wp_mono [OF notify_inv])

lemma com_Moderate_inv:
  assumes i: "com_inv s" shows "wp (com_Moderate render now e w u a reason notify) (\<lambda>_. com_inv) (\<lambda>_. com_inv) s"
proof -
  have "list_all (mod_fit (com_rows s) (com_flag_rows s)) [m]"
    if "c \<in> set (com_rows s)" "decide (com_fill render c) a w why notify now e = Inr m" for c why m
    using i that by (simp add: com_inv_def decide_fit)
  then show ?thesis using i unfolding com_Moderate_def wp_andthen wp_of_result
    by (auto split: sum.split intro!: com_get_wp applied_inv com_get_inv)
qed

lemma batch_loop_Inr:
  "batch_loop cs a w reason now gen k ids (missing, invalid, ms) = Inr (missing', invalid', ms') \<Longrightarrow>
     m \<in> set ms' \<Longrightarrow> m \<in> set ms \<or> (\<exists>c \<in> set cs. \<exists>e. decide c a w reason False now e = Inr m)"
proof (induction cs a w reason now gen k ids "(missing, invalid, ms)" arbitrary: missing invalid ms rule: batch_loop.induct)
  case (2 cs a w reason now gen k u us)
  then show ?case
    by (auto split: option.splits sum.splits if_splits dest!: com_find) blast
qed simp

lemma decideBatch_Inr:
  "decideBatch cs a w reason now gen ids = Inr ms \<Longrightarrow> m \<in> set ms \<Longrightarrow>
     \<exists>c \<in> set cs. \<exists>e. decide c a w reason False now e = Inr m"
  by (auto simp: decideBatch_def split: sum.splits if_splits prod.splits dest: batch_loop_Inr)

lemma com_BulkModerate_inv:
  assumes i: "com_inv s" shows "wp (com_BulkModerate render now gen w ids a reason) (\<lambda>_. com_inv) (\<lambda>_. com_inv) s"
proof -
  let ?cs = "\<lambda>us. map (com_fill render) (filter (\<lambda>c. com_uuid c \<in> set us) (com_rows s))"
  have "list_all (mod_fit (com_rows s) (com_flag_rows s)) ms"
    if "decideBatch (?cs us) a w why now gen us = Inr ms" for us why ms
    using i decideBatch_Inr [OF that] unfolding list_all_iff com_inv_def by (auto intro: decide_fit)
  then show ?thesis using i unfolding com_BulkModerate_def wp_andthen wp_of_result Let_def com_get_many_def
    by (auto simp: wp_simps split: sum.split intro!: wp_mono [OF applyModerations_tx_inv] notify_inv)
qed

lemma com_HardDelete_inv:
  assumes i: "com_inv s" shows "wp (com_HardDelete render now e w u reason) (\<lambda>_. com_inv) (\<lambda>_. com_inv) s"
  unfolding com_HardDelete_def Let_def wp_andthen wp_of_result wp_within_tx
  using i by (auto simp: wp_simps com_record_def entry_ok_def split: sum.split
      intro!: com_get_wp wp_mono [OF com_hard_delete_inv])

subsection \<open>Any sequence of requests\<close>

datatype com_request =
    ComCreate "nat \<Rightarrow> nat" instant uuid com_input
  | ComUpdate instant uuid uuid string
  | ComDelete instant uuid uuid
  | ComFlag instant flag_input
  | ComUpvote uuid uuid
  | ComModerate instant uuid uuid uuid com_action string bool
  | ComBulk instant "nat \<Rightarrow> uuid" uuid "uuid list" com_action string
  | ComHardDelete instant uuid uuid uuid string

fun com_run ::
  "(string \<Rightarrow> string) \<Rightarrow> (string \<Rightarrow> string) \<Rightarrow> com_config \<Rightarrow> com_request \<Rightarrow> unit com_comp" where
  "com_run render hash cfg (ComCreate lo now u i) = drop_result (com_Create lo render hash cfg now u i)"
| "com_run render hash cfg (ComUpdate now actor u raw) = drop_result (com_Update render cfg now actor u raw)"
| "com_run render hash cfg (ComDelete now actor u) = com_Delete render now actor u"
| "com_run render hash cfg (ComFlag now i) = com_Flag render hash cfg now i"
| "com_run render hash cfg (ComUpvote v u) = drop_result (com_ToggleUpvote render v u)"
| "com_run render hash cfg (ComModerate now e w u a reason n) = drop_result (com_Moderate render now e w u a reason n)"
| "com_run render hash cfg (ComBulk now gen w ids a reason) = drop_result (com_BulkModerate render now gen w ids a reason)"
| "com_run render hash cfg (ComHardDelete now e w u reason) = drop_result (com_HardDelete render now e w u reason)"

lemma com_run_inv: "com_inv s \<Longrightarrow> wp (com_run render hash cfg x) (\<lambda>_. com_inv) (\<lambda>_. com_inv) s"
  by (cases x)
    (simp_all add: wp_drop_result com_Create_inv com_Update_inv com_Delete_inv com_Flag_inv com_ToggleUpvote_inv
      com_Moderate_inv com_BulkModerate_inv com_HardDelete_inv)

interpretation comments: invariant_service "com_run render hash cfg" com_inv for render hash cfg
  by unfold_locales (rule wp_snd, rule com_run_inv)

end
