(* ===== verification/Comment_Properties.thy ===== *)
theory Comment_Properties
  imports Comment_Correct
begin

text \<open>
  What a single request does: bulk moderation is all or nothing, an upvote toggled twice is a round
  trip, a hard delete leaves no trace of its author and keeps the replies, and flags escalate at the
  threshold. Two interleavings of requests that the guards of the code do not stop are shown too.
\<close>

section \<open>The effect of applying moderations\<close>

definition moved :: "uuid set \<Rightarrow> com_status \<Rightarrow> comment \<Rightarrow> comment \<Rightarrow> bool" where
  "moved U st c d \<longleftrightarrow>
     (if com_uuid c \<in> U then com_uuid d = com_uuid c \<and> com_status d = st \<and> com_content d = com_content c
      else d = c)"

lemma moved_uuid: "moved U st c d \<Longrightarrow> com_uuid d = com_uuid c"
  by (auto simp: moved_def split: if_splits)

lemma moved_trans: "moved U st c d \<Longrightarrow> moved V st d e \<Longrightarrow> moved (U \<union> V) st c e"
  by (auto simp: moved_def split: if_splits)

lemma list_moved_trans:
  "list_all2 (moved U st) xs ys \<Longrightarrow> list_all2 (moved V st) ys zs \<Longrightarrow> list_all2 (moved (U \<union> V) st) xs zs"
  by (rule list_all2_trans [of "moved U st" "moved V st" "moved (U \<union> V) st"]) (rule moved_trans)

lemma list_moved_ids: "list_all2 (moved U st) xs ys \<Longrightarrow> map com_uuid ys = map com_uuid xs"
  by (induction rule: list_all2_induct) (auto dest: moved_uuid)

lemma put_moderation_moved:
  assumes d: "distinct (map com_uuid rows)" and m: "com_status (mo_comment m) = st"
    and hit: "list_ex (\<lambda>r. com_uuid r = com_uuid (mo_comment m) \<and> com_status r = mo_from m) rows"
  shows "list_all2 (moved {com_uuid (mo_comment m)} st) rows (map (com_put_moderation m x y) rows)"
proof -
  from hit obtain r where r: "r \<in> set rows" "com_uuid r = com_uuid (mo_comment m)" "com_status r = mo_from m"
    by (auto simp: list_ex_iff)
  have "moved {com_uuid (mo_comment m)} st c (com_put_moderation m x y c)" if "c \<in> set rows" for c
    using com_unique [OF d that r(1)] r m by (auto simp: moved_def com_put_moderation_def Let_def)
  then show ?thesis by (simp add: list_all2_map2 list_all2_same)
qed

definition log_key :: "mod_entry \<Rightarrow> uuid \<times> com_action \<times> com_status \<times> com_status" where
  "log_key e = (me_comment e, me_action e, me_from e, me_to e)"

lemma log_key_moderator [simp]: "log_key (e\<lparr>me_moderator := w\<rparr>) = log_key e"
  by (simp add: log_key_def)

lemma list_moved_refl [simp]: "list_all2 (moved {} st) xs xs"
  by (simp add: list_all2_same moved_def)

definition applied ::
  "com_status \<Rightarrow> com_store \<Rightarrow> moderation list \<Rightarrow> uuid list \<Rightarrow> mod_entry list \<Rightarrow> uuid list \<times> mod_entry list \<Rightarrow> com_store \<Rightarrow> bool" where
  "applied st s ms stale logs r t \<longleftrightarrow> com_log t = com_log s \<and>
     (fst r = [] \<longrightarrow> stale = [] \<and>
        list_all2 (moved (set (map (com_uuid \<circ> mo_comment) ms)) st) (com_rows s) (com_rows t) \<and>
        map log_key (snd r) = map log_key logs @ map (log_key \<circ> mo_entry) ms)"

lemma apply_loop_applied:
  "distinct (map com_uuid (com_rows s)) \<Longrightarrow> \<forall>m \<in> set ms. com_status (mo_comment m) = st \<Longrightarrow>
     wp (apply_loop ms cache stale logs) (applied st s ms stale logs) (\<lambda>_ _. True) s"
proof (induction ms arbitrary: s cache stale logs)
  case (Cons m ms)
  let ?put = "\<lambda>x y. map (com_put_moderation m x y) (com_rows s)"
  have d: "distinct (map com_uuid (?put x y))" for x y
    using Cons.prems(1) put_moderation_place by (simp add: comp_def)
  have miss: "wp (apply_loop ms c (stale @ [u]) logs) (applied st s (m # ms) stale logs) (\<lambda>_ _. True) t"
    if "com_rows t = ?put x y" "com_log t = com_log s" for c u t x y
    by (rule wp_mono [OF Cons.IH]) (use that d Cons.prems(2) in \<open>auto simp: applied_def\<close>)
  have hit: "wp (apply_loop ms c stale (logs @ [(mo_entry m)\<lparr>me_moderator := w\<rparr>])) (applied st s (m # ms) stale logs) (\<lambda>_ _. True) t"
    if "com_rows t = ?put x y" "com_log t = com_log s"
      "list_ex (\<lambda>r. com_uuid r = com_uuid (mo_comment m) \<and> com_status r = mo_from m) (com_rows s)" for c w t x y
  proof (rule wp_mono [OF Cons.IH])
    have "list_all2 (moved {com_uuid (mo_comment m)} st) (com_rows s) (?put x y)"
      by (rule put_moderation_moved) (use Cons.prems that in simp_all)
    note * = list_moved_trans [OF this]
    fix r u assume "applied st t ms stale (logs @ [(mo_entry m)\<lparr>me_moderator := w\<rparr>]) r u"
    then show "applied st s (m # ms) stale logs r u" using * that(1,2) by (auto simp: applied_def)
  qed (use that d Cons.prems(2) in simp_all)
  show ?case unfolding apply_loop.simps wp_andthen
    by (intro wp_reads [OF reads_com_resolve])
      (auto simp: wp_simps split: prod.split intro!: wp_reads [OF reads_com_resolve] hit miss)
qed (simp add: wp_simps applied_def)

lemma CreateInBatches_wp:
  "wp (CreateInBatches es) (\<lambda>_ t. com_log t = com_log s @ es \<and> com_rows t = com_rows s) (\<lambda>_ _. True) s"
proof (induction es arbitrary: s rule: CreateInBatches.induct)
  case (2 e es)
  have "wp (CreateInBatches (drop 100 (e # es))) (\<lambda>_ t. com_log t = com_log s @ e # es \<and> com_rows t = com_rows s) (\<lambda>_ _. True) t"
    if "com_log t = com_log s @ take 100 (e # es)" "com_rows t = com_rows s" for t
    by (rule wp_mono [OF 2]) (use that append_take_drop_id [of 100 "e # es"] in simp_all)
  then show ?case unfolding CreateInBatches.simps wp_andthen insert_logs_def
    by (simp add: wp_simps)
qed (simp add: wp_simps)

definition moderated :: "com_status \<Rightarrow> com_store \<Rightarrow> moderation list \<Rightarrow> com_store \<Rightarrow> bool" where
  "moderated st s ms t \<longleftrightarrow>
     list_all2 (moved (set (map (com_uuid \<circ> mo_comment) ms)) st) (com_rows s) (com_rows t) \<and>
     (\<exists>es. com_log t = com_log s @ es \<and> map log_key es = map (log_key \<circ> mo_entry) ms)"

lemma applyModerations_wp:
  assumes "distinct (map com_uuid (com_rows s))" "\<forall>m \<in> set ms. com_status (mo_comment m) = st"
  shows "wp (applyModerations_tx ms) (\<lambda>_. moderated st s ms) (\<lambda>_. unchanged s) s"
proof (cases "ms = []")
  case False
  have *: "wp (CreateInBatches logs) (\<lambda>_. moderated st s ms) (\<lambda>_ _. True) t" if "applied st s ms [] [] ([], logs) t" for logs t
    by (rule wp_mono [OF CreateInBatches_wp]) (use that in \<open>auto simp: applied_def moderated_def\<close>)
  have "wp (apply_loop ms [] [] []) (\<lambda>r. wp (case r of (stale, logs) \<Rightarrow>
      if stale \<noteq> [] then throw (ComBatch ComInvalidTransition stale) else CreateInBatches logs)
      (\<lambda>_. moderated st s ms) (\<lambda>_ _. True)) (\<lambda>_ _. True) s"
    by (rule wp_mono [OF apply_loop_applied [OF assms]]) (auto simp: wp_simps * split: prod.splits)
  then show ?thesis using False
    by (auto simp: applyModerations_tx_def ApplyModerations_def com_record_def wp_simps moderated_def elim!: wp_mono)
qed (simp add: applyModerations_tx_def ApplyModerations_def com_record_def wp_simps moderated_def)

section \<open>Bulk moderation\<close>

lemma com_uniqueIDs_set: "set (com_uniqueIDs seen xs) = set xs - set seen"
  by (induction seen xs rule: com_uniqueIDs.induct) auto

lemma com_uniqueIDs_distinct: "distinct (com_uniqueIDs seen xs)"
  by (induction seen xs rule: com_uniqueIDs.induct) (auto simp: com_uniqueIDs_set)

lemma batch_loop_decided:
  "batch_loop cs a w reason now gen k ids (missing, invalid, ms) = Inr ([], [], ms') \<Longrightarrow>
     missing = [] \<and> invalid = [] \<and> (\<exists>ms2. ms' = ms @ ms2 \<and>
       list_all2 (\<lambda>u m. \<exists>c \<in> set cs. \<exists>e. com_uuid c = u \<and> decide c a w reason False now e = Inr m) ids ms2)"
proof (induction cs a w reason now gen k ids "(missing, invalid, ms)" arbitrary: missing invalid ms rule: batch_loop.induct)
  case (2 cs a w reason now gen k u us)
  then show ?case
    by (fastforce split: option.splits sum.splits if_splits dest: com_find)
qed simp

lemma decideBatch_decided:
  "decideBatch cs a w reason now gen ids = Inr ms \<Longrightarrow>
     list_all2 (\<lambda>u m. \<exists>c \<in> set cs. \<exists>e. com_uuid c = u \<and> decide c a w reason False now e = Inr m) ids ms"
  by (auto simp: decideBatch_def split: sum.splits if_splits prod.splits dest: batch_loop_decided)

definition target_of :: "com_action \<Rightarrow> com_status" where
  "target_of a = snd (the (transitions a))"

lemma Transition_target: "Transition st a = Inr to \<Longrightarrow> to = target_of a"
  by (auto simp: Transition_def target_of_def split: option.splits if_splits prod.splits)

definition bulk_done :: "com_store \<Rightarrow> uuid list \<Rightarrow> com_action \<Rightarrow> com_store \<Rightarrow> bool" where
  "bulk_done s ids a t \<longleftrightarrow>
     set ids \<subseteq> set (com_ids s) \<and>
     (\<forall>c \<in> set (com_rows s). com_uuid c \<in> set ids \<longrightarrow> Transition (com_status c) a = Inr (target_of a)) \<and>
     list_all2 (moved (set ids) (target_of a)) (com_rows s) (com_rows t) \<and>
     (\<exists>es. com_log t = com_log s @ es \<and> map me_comment es = com_uniqueIDs [] ids \<and>
           (\<forall>e \<in> set es. me_action e = a \<and> me_to e = target_of a \<and>
              (\<exists>c \<in> set (com_rows s). com_uuid c = me_comment e \<and> me_from e = com_status c)))"

lemma bulk_decided:
  assumes ok: "distinct (map com_uuid (com_rows s))" and cs: "cs = map (com_fill render) (filter (\<lambda>c. com_uuid c \<in> U) (com_rows s))"
    and d: "decideBatch cs a w reason now gen (com_uniqueIDs [] ids) = Inr ms"
  shows "length ms = card (set ids)" "map (com_uuid \<circ> mo_comment) ms = com_uniqueIDs [] ids"
    "map (me_comment \<circ> mo_entry) ms = com_uniqueIDs [] ids"
    "\<forall>m \<in> set ms. com_status (mo_comment m) = target_of a"
    "\<forall>m \<in> set ms. \<exists>c \<in> set (com_rows s). log_key (mo_entry m) = (com_uuid c, a, com_status c, target_of a) \<and>
        Transition (com_status c) a = Inr (target_of a)"
proof -
  let ?P = "\<lambda>u m. \<exists>c \<in> set (com_rows s). com_uuid c = u \<and> com_uuid (mo_comment m) = u \<and> me_comment (mo_entry m) = u \<and>
     com_status (mo_comment m) = target_of a \<and> log_key (mo_entry m) = (u, a, com_status c, target_of a) \<and>
     Transition (com_status c) a = Inr (target_of a)"
  have P: "?P u m" if "\<exists>c \<in> set cs. \<exists>e. com_uuid c = u \<and> decide c a w reason False now e = Inr m" for u m
  proof -
    from that obtain c e where c: "c \<in> set (com_rows s)" "com_uuid c = u"
      and dec: "decide (com_fill render c) a w reason False now e = Inr m" by (auto simp: cs)
    from dec obtain to where "Transition (com_status c) a = Inr to" "com_uuid (mo_comment m) = com_uuid c"
      "com_status (mo_comment m) = to" "me_action (mo_entry m) = a" "me_from (mo_entry m) = com_status c"
      "me_to (mo_entry m) = to" "me_comment (mo_entry m) = com_uuid c" by (rule decide_Inr) simp
    then show ?thesis using c Transition_target by (auto simp: log_key_def)
  qed
  have l: "list_all2 ?P (com_uniqueIDs [] ids) ms"
    using decideBatch_decided [OF d] by (rule list_all2_mono) (rule P)
  show "length ms = card (set ids)"
    using list_all2_lengthD [OF l] distinct_card [OF com_uniqueIDs_distinct [of "[]" ids]] by (simp add: com_uniqueIDs_set)
  show "map (com_uuid \<circ> mo_comment) ms = com_uniqueIDs [] ids" "map (me_comment \<circ> mo_entry) ms = com_uniqueIDs [] ids"
    using l by (induction rule: list_all2_induct) auto
  have ex: "\<exists>u. ?P u m" if "m \<in> set ms" for m
    using l that by (induction rule: list_all2_induct) auto
  show "\<forall>m \<in> set ms. com_status (mo_comment m) = target_of a" using ex by blast
  show "\<forall>m \<in> set ms. \<exists>c \<in> set (com_rows s). log_key (mo_entry m) = (com_uuid c, a, com_status c, target_of a) \<and>
        Transition (com_status c) a = Inr (target_of a)" using ex by blast
qed

lemma bulk_moderated:
  assumes ok: "distinct (map com_uuid (com_rows s))" and cs: "cs = map (com_fill render) (filter (\<lambda>c. com_uuid c \<in> U) (com_rows s))"
    and d: "decideBatch cs a w reason now gen (com_uniqueIDs [] ids) = Inr ms"
    and t: "moderated (target_of a) s ms t"
  shows "bulk_done s ids a t"
proof -
  note b = bulk_decided [OF ok cs d]
  have ids: "set (map (com_uuid \<circ> mo_comment) ms) = set ids" by (simp only: b(2)) (simp add: com_uniqueIDs_set)
  from t obtain es where es: "com_log t = com_log s @ es" "map log_key es = map (log_key \<circ> mo_entry) ms"
    and rows: "list_all2 (moved (set ids) (target_of a)) (com_rows s) (com_rows t)"
    unfolding moderated_def ids by blast
  have "map me_comment es = map fst (map log_key es)" by (simp add: log_key_def comp_def)
  also have "\<dots> = com_uniqueIDs [] ids" unfolding es(2) b(3) [symmetric] by (simp add: log_key_def comp_def)
  finally have keys: "map me_comment es = com_uniqueIDs [] ids" .
  have e: "\<exists>c \<in> set (com_rows s). log_key e = (com_uuid c, a, com_status c, target_of a) \<and>
        Transition (com_status c) a = Inr (target_of a)" if "e \<in> set es" for e
  proof -
    have "log_key e \<in> set (map (log_key \<circ> mo_entry) ms)" unfolding es(2) [symmetric] using that by simp
    then show ?thesis using b(5) by auto
  qed
  have sub: "\<exists>c \<in> set (com_rows s). com_uuid c = u \<and> Transition (com_status c) a = Inr (target_of a)" if u: "u \<in> set ids" for u
  proof -
    have "u \<in> set (map me_comment es)" using u unfolding keys by (simp add: com_uniqueIDs_set)
    then show ?thesis using e by (force simp: log_key_def)
  qed
  have "Transition (com_status c) a = Inr (target_of a)" if "c \<in> set (com_rows s)" "com_uuid c \<in> set ids" for c
    using sub [OF that(2)] com_unique [OF ok that(1)] by metis
  moreover have "set ids \<subseteq> set (com_ids s)" using sub by (auto simp: com_ids_def)
  moreover have "me_action e = a \<and> me_to e = target_of a \<and>
      (\<exists>c \<in> set (com_rows s). com_uuid c = me_comment e \<and> me_from e = com_status c)" if "e \<in> set es" for e
    using e [OF that] by (auto simp: log_key_def)
  ultimately show ?thesis unfolding bulk_done_def using rows es(1) keys by blast
qed

lemma BulkModerate_wp:
  assumes ok: "distinct (map com_uuid (com_rows s))"
  shows "wp (com_BulkModerate render now gen w ids a reason) (\<lambda>n t. n = card (set ids) \<and> bulk_done s ids a t) (\<lambda>_. unchanged s) s"
proof -
  let ?cs = "map (com_fill render) (filter (\<lambda>c. com_uuid c \<in> set (com_uniqueIDs [] ids)) (com_rows s))"
  have *: "wp (applyModerations_tx ms) (\<lambda>_. wp (notifyModerations render ms) (\<lambda>_ t. length ms = card (set ids) \<and> bulk_done s ids a t)
       (\<lambda>_. unchanged s)) (\<lambda>_. unchanged s) (s\<lparr>calls := n\<rparr>)"
    if d: "decideBatch ?cs a w why now gen (com_uniqueIDs [] ids) = Inr ms" for why ms n
  proof (rule wp_mono [OF applyModerations_wp])
    fix t assume t: "moderated (target_of a) (s\<lparr>calls := n\<rparr>) ms t"
    show "wp (notifyModerations render ms) (\<lambda>_ t. length ms = card (set ids) \<and> bulk_done s ids a t) (\<lambda>_. unchanged s) t"
    proof (rule notifyModerations_wp)
      fix k ns
      have "moderated (target_of a) s ms (t\<lparr>com_notices := ns, calls := k\<rparr>)" using t by (simp add: moderated_def)
      from bulk_moderated [OF ok refl d this] bulk_decided(1) [OF ok refl d]
      show "length ms = card (set ids) \<and> bulk_done s ids a (t\<lparr>com_notices := ns, calls := k\<rparr>)" by simp
    qed
  qed (use ok bulk_decided(4) [OF ok refl d] unchanged_trans [OF unchanged_calls] in \<open>auto\<close>)
  show ?thesis unfolding com_BulkModerate_def wp_andthen wp_of_result Let_def com_get_many_def
    using * by (auto simp: wp_simps wp_andthen_fun split: sum.split)
qed

section \<open>Upvotes\<close>

definition upvoted :: "uuid \<Rightarrow> uuid \<Rightarrow> com_store \<Rightarrow> com_store \<Rightarrow> bool \<times> int \<Rightarrow> bool" where
  "upvoted u v s t r \<longleftrightarrow>
     u \<in> set (com_ids s) \<and> fst r = ((u, v) \<notin> set (com_upvote_rows s)) \<and>
     com_upvote_rows t = (if fst r then com_upvote_rows s @ [(u, v)] else filter (\<lambda>x. x \<noteq> (u, v)) (com_upvote_rows s)) \<and>
     com_rows t = map (bump_upvote (if fst r then 1 else - 1) u) (com_rows s) \<and>
     (\<exists>c \<in> set (com_rows t). com_uuid c = u \<and> com_upvotes c = snd r) \<and>
     com_flag_rows t = com_flag_rows s \<and> com_log t = com_log s \<and> com_events t = com_events s"

lemma upvoted_calls [simp]: "upvoted u v (s\<lparr>calls := n\<rparr>) t r = upvoted u v s t r"
  by (simp add: upvoted_def)

lemma toggle_wp: "wp (com_toggle_upvote u v) (\<lambda>r t. upvoted u v s t r) (\<lambda>_. unchanged s) s"
proof -
  have none: "filter (\<lambda>r. r \<noteq> (u, v)) ups = ups" if "(u, v) \<notin> set ups" for ups
    using that by (auto simp: filter_id_conv)
  show ?thesis
    unfolding com_toggle_upvote_def wp_within_tx wp_andthen
    by (intro com_known_wp; cases "(u, v) \<in> set (com_upvote_rows s)")
      (auto simp: wp_simps upvoted_def none Let_def com_ids_def split: option.split dest!: com_find)
qed

lemma ToggleUpvote_wp: "wp (com_ToggleUpvote render v u) (\<lambda>r t. upvoted u v s t r) (\<lambda>_. unchanged s) s"
proof -
  have "wp (writablePolicy p) (\<lambda>_. wp (com_toggle_upvote u v) (\<lambda>r t. upvoted u v s t r) (\<lambda>_. unchanged s)) (\<lambda>_. unchanged s) (s\<lparr>calls := m\<rparr>)" for p m
  proof (rule wp_reads [OF reads_writablePolicy])
    fix x n
    show "wp (com_toggle_upvote u v) (\<lambda>r t. upvoted u v s t r) (\<lambda>_. unchanged s) (s\<lparr>calls := m, calls := n\<rparr>)"
      by (rule wp_mono [OF toggle_wp]) (auto dest: unchanged_trans [OF unchanged_calls])
  qed simp
  then show ?thesis unfolding com_ToggleUpvote_def wp_andthen
    by (intro com_get_wp) (auto simp: wp_simps)
qed

lemma bump_back:
  assumes "com_sound ups fs c" "u = com_uuid c \<Longrightarrow> d \<noteq> - 1 \<or> com_upvotes c > 0" "d = 1 \<or> d = - 1"
  shows "bump_upvote (- d) u (bump_upvote d u c) = c"
proof (cases "com_uuid c = u")
  case True
  have "0 \<le> com_upvotes c" using assms(1) by (simp add: com_sound_def)
  then have "max (max (com_upvotes c + d) 0 - d) 0 = com_upvotes c" using assms(2,3) True by auto
  then show ?thesis using True by (simp add: bump_upvote_def)
qed (simp add: bump_upvote_def)

lemma upvoted_twice:
  assumes i: "com_inv s" and a: "upvoted u v s t r" and b: "upvoted u v t t' r'"
  shows "com_rows t' = com_rows s" "set (com_upvote_rows t') = set (com_upvote_rows s)" "fst r' = (\<not> fst r)"
proof -
  have ok: "com_sound (com_upvote_rows s) (com_flag_rows s) c" if "c \<in> set (com_rows s)" for c
    using i that com_okD(3) by (simp add: com_inv_def)
  have pos: "com_upvotes c > 0" if c: "c \<in> set (com_rows s)" and u: "u = com_uuid c" and r: "\<not> fst r" for c
  proof -
    have "(u, v) \<in> set (com_upvote_rows s)" using a r by (simp add: upvoted_def)
    then have "filter (\<lambda>x. fst x = u) (com_upvote_rows s) \<noteq> []" by (force simp: filter_empty_conv)
    then show ?thesis using ok [OF c] u by (simp add: com_sound_def votes_for_def)
  qed
  show r: "fst r' = (\<not> fst r)" using a b by (auto simp: upvoted_def split: if_splits)
  show "set (com_upvote_rows t') = set (com_upvote_rows s)" using a b r by (auto simp: upvoted_def)
  have "bump_upvote (if fst r' then 1 else - 1) u (bump_upvote (if fst r then 1 else - 1) u c) = c"
    if "c \<in> set (com_rows s)" for c
    using bump_back [OF ok [OF that], of u "if fst r then 1 else - 1"] pos [OF that] r by auto
  then show "com_rows t' = com_rows s" using a b by (simp add: upvoted_def comp_def map_idI)
qed

section \<open>Hard deletion\<close>

definition hard_deleted :: "uuid \<Rightarrow> com_store \<Rightarrow> com_store \<Rightarrow> bool \<Rightarrow> bool" where
  "hard_deleted u s t scrubbed \<longleftrightarrow>
     scrubbed = (\<exists>c \<in> set (com_rows s). com_parent c = Some u) \<and>
     filter (\<lambda>c. com_uuid c \<noteq> u) (com_rows t) = filter (\<lambda>c. com_uuid c \<noteq> u) (com_rows s) \<and>
     com_ids t = (if scrubbed then com_ids s else filter (\<lambda>v. v \<noteq> u) (com_ids s)) \<and>
     (\<forall>c \<in> set (com_rows t). com_uuid c = u \<longrightarrow>
        com_status c = StatusDeleted \<and> com_content c = [] \<and> com_html c = [] \<and> com_author c = None \<and>
        com_name c = [] \<and> com_email c = [] \<and> com_ip c = [] \<and> com_agent c = []) \<and>
     com_flag_rows t = filter (\<lambda>f. cf_comment f \<noteq> u) (com_flag_rows s) \<and>
     com_upvote_rows t = filter (\<lambda>r. fst r \<noteq> u) (com_upvote_rows s) \<and>
     (\<exists>e. com_log t = com_log s @ [e] \<and> me_comment e = u \<and> me_action e = ActionHardDelete)"

lemma hard_deleted_calls [simp]: "hard_deleted u (s\<lparr>calls := n\<rparr>) t r = hard_deleted u s t r"
  by (simp add: hard_deleted_def)

lemma hard_deleted_events [simp]: "hard_deleted u s (t\<lparr>calls := n, com_events := es\<rparr>) r = hard_deleted u s t r"
  by (simp add: hard_deleted_def com_ids_def)

lemma scrub_others: "filter (\<lambda>c. com_uuid c \<noteq> u) (map (com_scrub u e w) rows) = filter (\<lambda>c. com_uuid c \<noteq> u) rows"
  by (induction rows) (simp_all add: com_scrub_def)

lemma com_hard_delete_wp:
  assumes "me_comment e = u" "me_action e = ActionHardDelete"
  shows "wp (com_hard_delete u e) (\<lambda>r t. hard_deleted u s t r) (\<lambda>_. unchanged s) s"
proof -
  have *: "map com_uuid (map (com_scrub u e w) rows) = map com_uuid rows" for w rows
    using scrub_place by simp
  have ids: "map com_uuid (filter (\<lambda>c. com_uuid c \<noteq> u) rows) = filter (\<lambda>v. v \<noteq> u) (map com_uuid rows)" for rows
    by (simp add: filter_map comp_def)
  show ?thesis unfolding com_hard_delete_def wp_within_tx wp_andthen
    by (intro com_known_wp wp_reads [OF reads_com_resolve])
      (use assms in \<open>auto simp: wp_simps hard_deleted_def insert_logs_def drop_votes_def scrub_others com_ids_def
          list_ex_iff ids comp_def scrub_place com_scrub_def split: prod.split\<close>)
qed

lemma HardDelete_wp:
  "wp (com_HardDelete render now e w u reason) (\<lambda>r t. hard_deleted u s t r) (\<lambda>_. unchanged s) s"
proof -
  have "wp (com_hard_delete u x) (\<lambda>r. wp (com_record y) (\<lambda>_ t. hard_deleted u s t r) (\<lambda>_ t. unchanged s (s\<lparr>calls := k, calls := calls t\<rparr>)))
     (\<lambda>_ t. unchanged s (s\<lparr>calls := k, calls := calls t\<rparr>)) (s\<lparr>calls := k\<rparr>)"
    if "me_comment x = u" "me_action x = ActionHardDelete" for x y k
    by (rule wp_mono [OF com_hard_delete_wp [OF that]]) (simp_all add: com_record_def wp_simps)
  then show ?thesis unfolding com_HardDelete_def Let_def wp_andthen wp_of_result wp_within_tx
    by (auto simp: wp_within_tx wp_andthen wp_const wp_andthen_fun split: sum.split intro!: com_get_wp)
qed

section \<open>Flags\<close>

definition flagged :: "int \<Rightarrow> com_flag \<Rightarrow> com_store \<Rightarrow> com_store \<Rightarrow> bool" where
  "flagged threshold f s t \<longleftrightarrow>
     (if list_ex (same_flagger f) (com_flag_rows s)
      then com_rows t = com_rows s \<and> com_flag_rows t = com_flag_rows s
      else com_flag_rows t = com_flag_rows s @ [f] \<and>
           com_rows t = map (\<lambda>c. if com_uuid c = cf_comment f
              then c\<lparr>com_flags := com_flags c + 1,
                     com_status := (if threshold \<le> com_flags c + 1 then StatusFlagged else StatusApproved)\<rparr>
              else c) (com_rows s))"

lemma flagged_calls [simp]: "flagged n f (s\<lparr>calls := k\<rparr>) t = flagged n f s t"
  by (simp add: flagged_def)

lemma AddFlag_wp:
  assumes "distinct (com_ids s)" "c \<in> set (com_rows s)" "com_uuid c = cf_comment f" "com_status c = StatusApproved"
  shows "wp (AddFlag f n) (\<lambda>_. flagged n f s) (\<lambda>_. unchanged s) s"
proof -
  have "d = c" if "d \<in> set (com_rows s)" "com_uuid d = cf_comment f" for d
    using com_unique [OF _ that(1) assms(2)] assms(1,3) that(2) by (simp add: com_ids_def)
  then have "map (bump_flag n (cf_comment f)) (com_rows s) = map (\<lambda>c. if com_uuid c = cf_comment f
              then c\<lparr>com_flags := com_flags c + 1, com_status := (if n \<le> com_flags c + 1 then StatusFlagged else StatusApproved)\<rparr>
              else c) (com_rows s)"
    using assms(4) by (auto simp: bump_flag_def)
  then show ?thesis unfolding AddFlag_def wp_within_tx wp_andthen
    by (intro com_known_wp wp_reads [OF reads_com_known_opt]) (simp_all add: wp_simps flagged_def)
qed

lemma Flag_wp:
  assumes d: "distinct (com_ids s)"
  shows "wp (com_Flag render hash cfg now i) (\<lambda>_. flagged (cc_threshold cfg)
     (flag_of hash now (fi_comment i) i (trim_space (fi_reason i)) (trim_space (fi_details i))) s) (\<lambda>_. unchanged s) s"
proof -
  have *: "wp (readablePost p) (\<lambda>_. wp (drop_result (AddFlag f n)) (\<lambda>_. flagged n f s) (\<lambda>_. unchanged s)) (\<lambda>_. unchanged s) (s\<lparr>calls := m\<rparr>)"
    if c: "c \<in> set (com_rows s)" "com_uuid c = cf_comment f" "com_status c = StatusApproved" for p f n m c
  proof (rule wp_reads [OF reads_readablePost])
    fix x k
    show "wp (drop_result (AddFlag f n)) (\<lambda>_. flagged n f s) (\<lambda>_. unchanged s) (s\<lparr>calls := m, calls := k\<rparr>)"
      unfolding wp_drop_result by (rule wp_mono [OF AddFlag_wp])
        (use d c in \<open>auto dest: unchanged_trans [OF unchanged_calls]\<close>)
  qed simp
  have f: "cf_comment (flag_of hash now u i r d) = u" for u r d by (simp add: flag_of_def)
  show ?thesis unfolding com_Flag_def Let_def
    by (auto simp: wp_simps f intro!: com_get_wp *)
qed

section \<open>Posting a comment\<close>

definition admitted :: "com_input \<Rightarrow> com_store \<Rightarrow> com_policy \<Rightarrow> bool" where
  "admitted i s policy \<longleftrightarrow>
     (\<exists>p \<in> set (com_posts s). cp_uuid p = ki_post i \<and> cp_published p \<and> cp_policy p = policy) \<and>
     (policy = PolicyOpen \<or> policy = PolicyAuthenticated)"

definition guest_checked :: "com_config \<Rightarrow> com_input \<Rightarrow> com_store \<Rightarrow> com_policy \<Rightarrow> bool" where
  "guest_checked cfg i s policy \<longleftrightarrow>
     (ki_author i = None \<longrightarrow>
        policy = PolicyOpen \<and> cc_guest cfg \<and>
        (cc_captcha cfg \<longrightarrow> trim_space (ki_honeypot i) \<noteq> [] \<or> com_captcha s (ki_token i) (ki_ip i)))"

definition reply_to :: "com_input \<Rightarrow> com_store \<Rightarrow> comment option \<Rightarrow> bool" where
  "reply_to i s parent \<longleftrightarrow>
     (case ki_parent i of
        None \<Rightarrow> parent = None
      | Some p \<Rightarrow> \<exists>q \<in> set (com_rows s). \<exists>render. parent = Some (com_fill render q) \<and> com_uuid q = p \<and>
           com_post q = ki_post i \<and> com_status q = StatusApproved \<and> com_depth q < MaxDepth)"

definition posted :: "com_config \<Rightarrow> com_input \<Rightarrow> uuid \<Rightarrow> com_store \<Rightarrow> com_store \<Rightarrow> comment \<Rightarrow> bool" where
  "posted cfg i u s t c \<longleftrightarrow>
     u \<notin> set (com_ids s) \<and> com_uuid c = u \<and> com_post c = ki_post i \<and> com_author c = ki_author i \<and>
     com_parent c = ki_parent i \<and> com_status c = initial_status cfg i \<and> com_content c = trim_space (ki_content i) \<and>
     (\<exists>row render. com_rows t = com_rows s @ [row] \<and> c = com_fill render row) \<and>
     com_events t = com_events s @ [commentCreatedEvent c] \<and>
     (\<exists>policy. admitted i s policy \<and> guest_checked cfg i s policy) \<and>
     (\<exists>parent. reply_to i s parent \<and> com_depth c = (case parent of None \<Rightarrow> 0 | Some q \<Rightarrow> com_depth q + 1) \<and>
        com_notices t = com_notices s @
          (case parent of Some q \<Rightarrow> if com_status c = StatusApproved then [CommentReplied c q] else [] | None \<Rightarrow> []))"

lemma posting_calls [simp]:
  "reply_to i (s\<lparr>calls := n\<rparr>) p = reply_to i s p" "admitted i (s\<lparr>calls := n\<rparr>) policy = admitted i s policy"
  "guest_checked cfg i (s\<lparr>calls := n\<rparr>) policy = guest_checked cfg i s policy"
  by (simp_all add: reply_to_def admitted_def guest_checked_def split: option.split)

lemma writablePolicy_wp:
  assumes "\<And>policy n. admitted i s policy \<Longrightarrow> Q policy (s\<lparr>calls := n\<rparr>)" "\<And>e n. F e (s\<lparr>calls := n\<rparr>)"
  shows "wp (writablePolicy (ki_post i)) Q F s"
proof (cases "find (\<lambda>r. cp_uuid r = ki_post i \<and> cp_published r) (com_posts s)")
  case (Some p)
  then have "p \<in> set (com_posts s)" "cp_uuid p = ki_post i" "cp_published p" by (auto simp: find_Some_iff)
  then have "admitted i s (cp_policy p)" if "cp_policy p = PolicyOpen \<or> cp_policy p = PolicyAuthenticated"
    using that by (auto simp: admitted_def)
  then show ?thesis using assms Some
    by (cases "cp_policy p") (simp_all add: writablePolicy_def PostPolicy_def wp_simps Writable_def)
qed (use assms(2) in \<open>simp add: writablePolicy_def PostPolicy_def wp_simps\<close>)

lemma checkGuest_wp:
  assumes "ki_author i = None" "policy = PolicyOpen \<or> policy = PolicyAuthenticated"
    and "\<And>w n. guest_checked cfg i s policy \<Longrightarrow> Q w (s\<lparr>calls := n\<rparr>)" "\<And>e n. F e (s\<lparr>calls := n\<rparr>)"
  shows "wp (checkGuest lo cfg policy i) Q F s"
proof -
  have "Q w s" if "guest_checked cfg i s policy" for w using assms(3) [OF that, of w "calls s"] by simp
  moreover have "F e s" for e using assms(4) [of e "calls s"] by simp
  moreover have "cc_guest cfg" if "guestIdentity lo cfg a b = Inr w" for a b w
    using that by (auto simp: guestIdentity_def split: if_splits)
  ultimately show ?thesis using assms
    by (auto simp: checkGuest_def wp_andthen wp_of_result wp_const guest_checked_def wp_def [of "com_verify_captcha _ _"]
        com_verify_captcha_def db_call_def asks_def Let_def wp_basic split: sum.split)
qed

lemma reply_of_wp:
  assumes "\<And>parent n. reply_to i s parent \<Longrightarrow> Q parent (s\<lparr>calls := n\<rparr>)" "\<And>e n. F e (s\<lparr>calls := n\<rparr>)"
  shows "wp (parent_of render i) Q F s"
proof (cases "ki_parent i")
  case None
  then show ?thesis using assms(1) [of None "calls s"] by (simp add: parent_of_def wp_simps reply_to_def)
next
  case (Some p)
  show ?thesis unfolding parent_of_def Some option.case wp_andthen wp_const
  proof (rule replyParent_wp)
    fix c n
    assume "c \<in> set (com_rows s)" "com_uuid c = p" "com_post c = ki_post i" "com_status c = StatusApproved" "com_depth c + 1 \<le> MaxDepth"
    then have "reply_to i s (Some (com_fill render c))" unfolding reply_to_def Some option.case by auto
    then show "Q (Some (com_fill render c)) (s\<lparr>calls := n\<rparr>)" by (rule assms(1))
  qed (rule assms(2))
qed

lemma com_create_wp:
  "wp (com_create render c)
     (\<lambda>d t. com_uuid c \<notin> set (com_ids s) \<and> (\<exists>row. com_rows t = com_rows s @ [row] \<and> d = com_fill render row \<and>
        com_uuid row = com_uuid c \<and> com_post row = com_post c \<and> com_author row = com_author c \<and> com_parent row = com_parent c \<and>
        com_status row = com_status c \<and> com_content row = com_content c \<and> com_depth row = com_depth c) \<and>
        com_events t = com_events s \<and> com_notices t = com_notices s) (\<lambda>_ _. True) s"
proof -
  have "find (\<lambda>d. com_uuid d = com_uuid c) (com_rows s @ [row]) = Some row"
    if "com_uuid c \<notin> set (com_ids s)" "com_uuid row = com_uuid c" for row
  proof -
    have "find (\<lambda>d. com_uuid d = u) (rows @ [row]) = Some row" if "u \<notin> com_uuid ` set rows" "com_uuid row = u" for u rows
      using that by (induction rows) auto
    then show ?thesis using that by (simp add: com_ids_def)
  qed
  then show ?thesis unfolding com_create_def wp_andthen
    by (intro wp_reads [OF reads_com_known] wp_reads [OF reads_com_known_opt])
      (simp_all add: wp_simps com_get_def)
qed

lemma com_store_new_wp:
  "wp (com_store_new render c)
     (\<lambda>d t. com_uuid c \<notin> set (com_ids s) \<and> (\<exists>row. com_rows t = com_rows s @ [row] \<and> d = com_fill render row \<and>
        com_uuid row = com_uuid c \<and> com_post row = com_post c \<and> com_author row = com_author c \<and> com_parent row = com_parent c \<and>
        com_status row = com_status c \<and> com_content row = com_content c \<and> com_depth row = com_depth c) \<and>
        com_events t = com_events s @ [commentCreatedEvent d] \<and> com_notices t = com_notices s) (\<lambda>_. unchanged s) s"
  unfolding com_store_new_def wp_within_tx wp_andthen
  by (rule wp_mono [OF com_create_wp]) (auto simp: wp_simps com_record_def)

lemma com_Create_wp:
  "wp (com_Create lo render hash cfg now u i) (\<lambda>c t. posted cfg i u s t c) (\<lambda>_. unchanged s) s"
proof (cases "normalizeContent (ki_content i)")
  case (Inr content)
  then have content: "content = trim_space (ki_content i)" by (auto simp: normalizeContent_def Let_def split: if_splits)
  let ?new = "new_comment render hash cfg now u i content"
  have stored: "wp (com_store_new render (?new w parent)) (\<lambda>c. wp (reply_notice parent c) (\<lambda>_ t. posted cfg i u s t c) (\<lambda>_. unchanged s))
      (\<lambda>_. unchanged s) (s\<lparr>calls := n\<rparr>)"
    if "admitted i s policy" "guest_checked cfg i s policy" "reply_to i s parent" for w parent n policy
    by (rule wp_mono [OF com_store_new_wp])
      (use that content in \<open>auto simp: posted_def reply_notice_def com_notify_def wp_simps new_comment_def split: option.split
        dest: unchanged_trans [OF unchanged_calls]\<close>)
  have parent: "wp (parent_of render i) (\<lambda>parent. wp (com_store_new render (?new w parent))
      (\<lambda>c. wp (reply_notice parent c) (\<lambda>_ t. posted cfg i u s t c) (\<lambda>_. unchanged s)) (\<lambda>_. unchanged s))
      (\<lambda>_. unchanged s) (s\<lparr>calls := n\<rparr>)"
    if "admitted i s policy" "guest_checked cfg i s policy" for w n policy
    by (rule reply_of_wp) (use stored [OF that] in simp_all)
  have guest: "wp (if ki_author i = None then checkGuest lo cfg policy i else ret ([], []))
     (\<lambda>w. wp (parent_of render i) (\<lambda>parent. wp (com_store_new render (?new w parent))
      (\<lambda>c. wp (reply_notice parent c) (\<lambda>_ t. posted cfg i u s t c) (\<lambda>_. unchanged s)) (\<lambda>_. unchanged s)) (\<lambda>_. unchanged s))
     (\<lambda>_. unchanged s) (s\<lparr>calls := n\<rparr>)" if "admitted i s policy" for policy n
  proof (cases "ki_author i")
    case None
    have "policy = PolicyOpen \<or> policy = PolicyAuthenticated" using that by (simp add: admitted_def)
    then show ?thesis unfolding if_P [OF None]
      by (rule checkGuest_wp [OF None]) (use parent [OF that] in simp_all)
  qed (use parent [OF that] in \<open>simp add: wp_const guest_checked_def\<close>)
  show ?thesis unfolding com_Create_def wp_andthen_fun wp_of_result Inr sum.case wp_const
    by (rule writablePolicy_wp, rule guest, assumption, simp)
qed (simp add: com_Create_def wp_simps)

section \<open>Interleaved requests\<close>

lemma Moderate_wp:
  assumes "distinct (map com_uuid (com_rows s))"
  shows "wp (com_Moderate render now e w u a reason notify)
     (\<lambda>_ t. list_all2 (moved {u} (target_of a)) (com_rows s) (com_rows t) \<and>
        (\<exists>x. com_log t = com_log s @ [x] \<and> me_comment x = u \<and> me_action x = a \<and> me_to x = target_of a)) (\<lambda>_ _. True) s"
proof -
  have *: "wp (applyModerations_tx [m]) (\<lambda>_. wp (notifyModerations render [m]) (\<lambda>_. wp (com_get render u)
       (\<lambda>_ t. list_all2 (moved {u} (target_of a)) (com_rows s) (com_rows t) \<and>
        (\<exists>x. com_log t = com_log s @ [x] \<and> me_comment x = u \<and> me_action x = a \<and> me_to x = target_of a)) (\<lambda>_ _. True))
        (\<lambda>_ _. True)) (\<lambda>_ _. True) (s\<lparr>calls := n\<rparr>)"
    if d: "decide (com_fill render c) a w why notify now e = Inr m" and c: "com_uuid c = u" for c why m n
  proof -
    from d obtain to where m: "Transition (com_status c) a = Inr to" "com_uuid (mo_comment m) = u" "com_status (mo_comment m) = to"
      "me_action (mo_entry m) = a" "me_to (mo_entry m) = to" "me_comment (mo_entry m) = u"
      using c by (auto elim!: decide_Inr)
    have to: "to = target_of a" using m(1) by (rule Transition_target)
    show ?thesis
      by (rule wp_mono [OF applyModerations_wp])
        (use assms m to in \<open>auto simp: moderated_def log_key_def intro!: notifyModerations_wp wp_reads [OF reads_com_get]\<close>)
  qed
  show ?thesis unfolding com_Moderate_def wp_andthen_fun wp_of_result
    using * by (auto split: sum.split intro!: com_get_wp)
qed

lemma com_update_wp:
  assumes "distinct (map com_uuid (com_rows s))"
  shows "wp (com_update render c) (\<lambda>d t. com_rows t = map (com_put c) (com_rows s) \<and> com_log t = com_log s \<and>
     (\<exists>r \<in> set (com_rows t). com_uuid r = com_uuid c \<and> com_status r = com_status c) \<and> com_status d = com_status c) (\<lambda>_ _. True) s"
proof -
  have *: "com_status r = com_status c" if "r \<in> set (map (com_put c) rows)" "com_uuid r = com_uuid c" for r rows
    using that com_put_place [of c] by (auto simp: com_put_def)
  have "wp (com_get render (com_uuid c)) (\<lambda>d t. com_rows t = map (com_put c) (com_rows s) \<and> com_log t = com_log s \<and>
     (\<exists>r \<in> set (com_rows t). com_uuid r = com_uuid c \<and> com_status r = com_status c) \<and> com_status d = com_status c) (\<lambda>_ _. True) t"
    if "com_rows t = map (com_put c) (com_rows s)" "com_log t = com_log s" for t
  proof (rule com_get_wp)
    fix r n assume r: "r \<in> set (com_rows t)" "com_uuid r = com_uuid c"
    have "com_status r = com_status c" using * [OF r [unfolded that(1)]] .
    then show "com_rows (t\<lparr>calls := n\<rparr>) = map (com_put c) (com_rows s) \<and> com_log (t\<lparr>calls := n\<rparr>) = com_log s \<and>
     (\<exists>r \<in> set (com_rows (t\<lparr>calls := n\<rparr>)). com_uuid r = com_uuid c \<and> com_status r = com_status c) \<and>
     com_status (com_fill render r) = com_status c" using r that by auto
  qed simp
  then show ?thesis unfolding com_update_def wp_andthen
    by (intro wp_reads [OF reads_com_known_opt]) (simp_all add: wp_simps)
qed

section \<open>Properties\<close>

definition com_row :: "uuid \<Rightarrow> uuid option \<Rightarrow> uuid option \<Rightarrow> com_status \<Rightarrow> int \<Rightarrow> int \<Rightarrow> comment" where
  "com_row u parent author st depth ups =
     \<lparr>com_uuid = u, com_post = 10, com_parent = parent, com_author = author, com_name = [], com_email = [],
      com_ip = [], com_agent = [], com_content = ''hi'', com_html = ''hi'', com_status = st, com_depth = depth,
      com_upvotes = ups, com_flags = 0, com_edited = None, com_created = 0, com_updated = 0,
      com_deleted = (if st = StatusDeleted then Some 1 else None),
      com_deleted_by = None, com_mod_by = None, com_mod_reason = [], com_mod_at = None\<rparr>"

definition com_demo :: com_store where
  "com_demo = \<lparr>calls = 0, fails = (\<lambda>_. False),
     com_rows = [com_row 100 None (Some 1) StatusApproved 0 1, com_row 101 (Some 100) (Some 2) StatusPending 1 0,
                 com_row 102 (Some 100) (Some 3) StatusPending 1 0, com_row 103 None (Some 1) StatusDeleted 0 0,
                 com_row 104 (Some 103) (Some 2) StatusApproved 1 0],
     com_posts = [\<lparr>cp_uuid = 10, cp_published = True, cp_policy = PolicyOpen\<rparr>],
     com_users = [1, 2, 3], com_flag_rows = [], com_upvote_rows = [(100, 2)], com_log = [], com_events = [],
     com_notices = [], com_captcha = (\<lambda>_ _. True)\<rparr>"

definition com_cfg :: com_config where
  "com_cfg = \<lparr>cc_guest = True, cc_approval = False, cc_window = 900, cc_threshold = 1, cc_captcha = False\<rparr>"

lemma com_demo_inv: "com_inv com_demo"
  by (simp add: com_inv_def com_ok_def com_demo_def com_row_def com_placed_def com_sound_def votes_for_def flags_for_def MaxDepth_def)

lemmas com_eval =
  run_eval com_Create_def com_Update_def com_Moderate_def com_BulkModerate_def com_HardDelete_def com_Flag_def
  com_ToggleUpvote_def com_toggle_upvote_def com_get_def com_get_many_def com_fill_def com_known_def com_known_opt_def
  com_ids_def com_update_def com_put_def AddFlag_def bump_flag_def bump_upvote_def com_resolve_def
  com_put_moderation_def ApplyModerations_def insert_logs_def CreateInBatches.simps apply_loop.simps com_scrub_def
  drop_votes_def com_hard_delete_def normalizeContent_def normalizeReason_def hashIdentity_def writablePolicy_def
  PostPolicy_def Writable_def readablePost_def Readable_def edit_prepare_def getOwned_def OwnedBy_def
  validateAction_def ModerationActions_def decide_def Transition_def transitions_def Scrubbed_def Snapshot_def
  applyModerations_tx_def com_record_def notifyModerations_def com_notify_def becameVisibleReply_def
  com_uniqueIDs.simps batch_loop.simps decideBatch_def MaxBulkModerate_def MaxContentRunes_def
  MaxModerationReasonRunes_def MaxFlagDetailsRunes_def FlagReasons_def flag_of_def same_flagger_def drop_result_def
  commentModeratedEvent_def com_demo_def com_row_def com_cfg_def



text \<open>
  C11. Bulk moderation is all or nothing. If it fails, nothing is changed. If it succeeds, every
  requested comment existed and was in a status the action may leave; exactly these comments move
  to the action's target status with their content kept; the log grows by one entry per distinct
  requested comment, in the order of the request, which records the status it left; and the result
  is the number of distinct comments.
\<close>

theorem BulkModerate_all_or_nothing:
  assumes "com_inv s"
  shows "case com_BulkModerate render now gen w ids a reason s of
           (Inl e, t) \<Rightarrow> unchanged s t
         | (Inr n, t) \<Rightarrow> n = card (set ids) \<and> bulk_done s ids a t"
  using BulkModerate_wp [of s render now gen w ids a reason] assms
  by (simp add: wp_def com_inv_def com_ok_def)

theorem BulkModerate_all_or_nothing_witness:
  "\<exists>t. com_BulkModerate (\<lambda>x. x) 5 (\<lambda>k. 200 + k) 3 [101, 102, 101] ActionApprove [] com_demo = (Inr 2, t) \<and>
     bulk_done com_demo [101, 102, 101] ActionApprove t"
proof -
  obtain t where t: "com_BulkModerate (\<lambda>x. x) 5 (\<lambda>k. 200 + k) 3 [101, 102, 101] ActionApprove [] com_demo = (Inr 2, t)"
    by (simp add: com_eval string_eval)
  then show ?thesis
    using BulkModerate_all_or_nothing [OF com_demo_inv, where ids = "[101, 102, 101]" and a = ActionApprove and
        render = "\<lambda>x. x" and now = 5 and gen = "\<lambda>k. 200 + k" and w = 3 and reason = "[]"] by simp
qed

text \<open>
  Toggling an upvote twice is a round trip: two successful toggles by the same user on the same
  comment report opposite states and leave every comment row, its counter included, and the set of
  upvotes as they were.
\<close>

theorem ToggleUpvote_twice:
  assumes "com_inv s"
    and "com_ToggleUpvote render v u s = (Inr (up, n), t)" "com_ToggleUpvote render v u t = (Inr (up', n'), t')"
  shows "up' = (\<not> up) \<and> com_rows t' = com_rows s \<and> set (com_upvote_rows t') = set (com_upvote_rows s)"
  using upvoted_twice [OF assms(1) wp_Inr [OF ToggleUpvote_wp assms(2)] wp_Inr [OF ToggleUpvote_wp assms(3)]] by simp

theorem ToggleUpvote_twice_witness:
  "com_rows (snd (com_ToggleUpvote (\<lambda>x. x) 3 100 (snd (com_ToggleUpvote (\<lambda>x. x) 3 100 com_demo)))) = com_rows com_demo"
proof -
  obtain t where t: "com_ToggleUpvote (\<lambda>x. x) 3 100 com_demo = (Inr (True, 2), t)"
    "com_ToggleUpvote (\<lambda>x. x) 3 100 t = (Inr (False, 1), snd (com_ToggleUpvote (\<lambda>x. x) 3 100 t))"
    by (simp add: com_eval)
  show ?thesis using ToggleUpvote_twice [OF com_demo_inv t] t(1) by simp
qed

text \<open>
  C12. A hard delete that succeeds scrubs the comment exactly when it has replies and removes it
  otherwise. Whatever stays under its UUID carries no content, author, name, e-mail, address or user
  agent and is in status deleted; its flags and upvotes are gone; every other comment, its replies
  included, is untouched; and one hard-delete entry is logged. One that fails changes nothing.
\<close>

theorem HardDelete_effect:
  "case com_HardDelete render now e w u reason s of
     (Inl x, t) \<Rightarrow> unchanged s t
   | (Inr scrubbed, t) \<Rightarrow> hard_deleted u s t scrubbed"
  using HardDelete_wp [of render now e w u reason s] by (simp add: wp_def)

text \<open>
  Flagging an approved comment counts each reporter once: a repeated flag changes nothing, a new
  one is recorded, raises the counter by one and moves the comment to flagged exactly when the counter
  reaches the threshold; no other comment changes. A flag that fails changes nothing.
\<close>

theorem Flag_counts_once:
  assumes "com_inv s"
  shows "case com_Flag render hash cfg now i s of
           (Inl e, t) \<Rightarrow> unchanged s t
         | (Inr _, t) \<Rightarrow> flagged (cc_threshold cfg)
             (flag_of hash now (fi_comment i) i (trim_space (fi_reason i)) (trim_space (fi_details i))) s t"
  using Flag_wp [of s render hash cfg now i] assms by (simp add: wp_def com_inv_def com_ok_def com_ids_def)

theorem Flag_counts_once_witness:
  "\<exists>t. com_Flag (\<lambda>x. x) (\<lambda>x. x) com_cfg 9 \<lparr>fi_comment = 100, fi_reporter = Some 2, fi_reason = ''spam'',
        fi_details = [], fi_ip = [], fi_agent = []\<rparr> com_demo = (Inr (), t) \<and>
      (\<exists>c \<in> set (com_rows t). com_uuid c = 100 \<and> com_status c = StatusFlagged)"
proof -
  let ?i = "\<lparr>fi_comment = 100, fi_reporter = Some 2, fi_reason = ''spam'', fi_details = [], fi_ip = [], fi_agent = []\<rparr>"
  obtain t where t: "com_Flag (\<lambda>x. x) (\<lambda>x. x) com_cfg 9 ?i com_demo = (Inr (), t)"
    by (simp add: com_eval string_eval)
  then have "flagged 1 (flag_of (\<lambda>x. x) 9 100 ?i ''spam'' []) com_demo t"
    using Flag_counts_once [OF com_demo_inv, where render = "\<lambda>x. x" and hash = "\<lambda>x. x" and cfg = com_cfg and now = 9 and i = ?i]
    by (simp add: com_cfg_def string_eval)
  then show ?thesis using t by (simp add: flagged_def com_demo_def com_row_def flag_of_def)
qed

text \<open>
  C13. A comment that is posted was admitted: its post is published and takes comments; a guest may
  post only where the policy is open, guests are enabled and the captcha, if configured, was passed
  (unless the honeypot was filled); a reply answers an approved comment of the same post above the
  deepest level. Exactly one row and one created event are added, the status follows the honeypot
  and approval rules, so that a guest's comment is never public at once, and the parent's author is
  notified exactly when the reply is visible. A request that fails changes nothing.
\<close>

theorem Create_admission:
  "case com_Create lo render hash cfg now u i s of
     (Inl e, t) \<Rightarrow> unchanged s t
   | (Inr c, t) \<Rightarrow> posted cfg i u s t c \<and>
       (case ki_author i of None \<Rightarrow> com_status c = StatusPending \<or> com_status c = StatusSpam | Some _ \<Rightarrow> True)"
  using com_Create_wp [of lo render hash cfg now u i s]
  by (auto simp: wp_def posted_def initial_status_def split: prod.splits sum.splits option.splits)

text \<open>
  C14. The author's edit writes back the status it read. If a moderator rejects the comment between
  the two, and the edit's write goes through, the comment is approved again, although the log's last
  entry says it was rejected.
\<close>

theorem Update_undoes_rejection:
  assumes "com_inv s"
    and "edit_prepare render cfg now actor u raw s = (Inr c, s1)" "com_status c = StatusApproved"
    and "com_Moderate render now' e w u ActionReject reason notify s1 = (Inr d, s2)"
    and "com_update render c s2 = (Inr c', s3)"
  shows "com_status c' = StatusApproved \<and> (\<exists>r \<in> set (com_rows s3). com_uuid r = u \<and> com_status r = StatusApproved) \<and>
         (\<exists>x es. com_log s3 = es @ [x] \<and> me_comment x = u \<and> me_to x = StatusRejected)"
proof -
  have "wp (edit_prepare render cfg now actor u raw) (\<lambda>c t. com_uuid c = u \<and> com_inv t) (\<lambda>_ _. True) s"
    by (rule edit_prepare_wp [OF assms(1)]) (use assms(1) in simp_all)
  from wp_Inr [OF this assms(2)] have c: "com_uuid c = u" and i1: "com_inv s1" by auto
  from i1 have d1: "distinct (map com_uuid (com_rows s1))" by (simp add: com_inv_def com_ok_def)
  from wp_Inr [OF Moderate_wp [OF d1] assms(4)] obtain x where
    m: "com_log s2 = com_log s1 @ [x]" "me_comment x = u" "me_to x = StatusRejected"
    and rows: "list_all2 (moved {u} (target_of ActionReject)) (com_rows s1) (com_rows s2)"
    by (auto simp: target_of_def transitions_def)
  have d2: "distinct (map com_uuid (com_rows s2))" using list_moved_ids [OF rows] d1 by simp
  from wp_Inr [OF com_update_wp [OF d2] assms(5)] show ?thesis using m c assms(3) by auto
qed

theorem Update_undoes_rejection_witness:
  "\<exists>c s1 d s2 c' s3. edit_prepare (\<lambda>x. x) com_cfg 5 1 100 ''ok'' com_demo = (Inr c, s1) \<and>
     com_Moderate (\<lambda>x. x) 6 300 3 100 ActionReject [] False s1 = (Inr d, s2) \<and>
     com_update (\<lambda>x. x) c s2 = (Inr c', s3) \<and> com_status c' = StatusApproved"
proof -
  obtain c s1 d s2 c' s3 where r: "edit_prepare (\<lambda>x. x) com_cfg 5 1 100 ''ok'' com_demo = (Inr c, s1)"
    "com_status c = StatusApproved" "com_Moderate (\<lambda>x. x) 6 300 3 100 ActionReject [] False s1 = (Inr d, s2)"
    "com_update (\<lambda>x. x) c s2 = (Inr c', s3)"
    by (simp add: com_eval string_eval)
  from Update_undoes_rejection [OF com_demo_inv r] r show ?thesis by blast
qed

text \<open>
  Restoring checks the status only when it writes. If a deleted comment with replies is scrubbed
  by a hard delete after the restore was decided and before it is applied, and the restore goes
  through, the scrubbed placeholder becomes an approved comment with empty content.
\<close>

theorem Restore_revives_scrubbed:
  assumes "com_inv s" "c \<in> set (com_rows s)" "com_uuid c = u"
    and "decide (com_fill render c) ActionRestore w reason notify now e = Inr m"
    and "com_HardDelete render now' e' w' u reason' s = (Inr True, s1)"
    and "applyModerations_tx [m] s1 = (Inr (), s2)"
  shows "\<exists>r \<in> set (com_rows s2). com_uuid r = u \<and> com_status r = StatusApproved \<and> com_content r = []"
proof -
  have h: "hard_deleted u s s1 True" using wp_Inr [OF HardDelete_wp assms(5)] .
  have d: "distinct (map com_uuid (com_rows s1))"
    using h assms(1) by (simp add: hard_deleted_def com_inv_def com_ok_def com_ids_def)
  from assms(4) have m: "com_uuid (mo_comment m) = u" "com_status (mo_comment m) = StatusApproved"
    using assms(3) by (auto elim!: decide_Inr simp: Transition_def transitions_def split: if_splits)
  have rows: "list_all2 (moved {u} StatusApproved) (com_rows s1) (com_rows s2)"
    using wp_Inr [OF applyModerations_wp [OF d] assms(6), of StatusApproved] m by (simp add: moderated_def)
  have "com_ids s1 = com_ids s" using h by (simp add: hard_deleted_def)
  moreover have "u \<in> set (com_ids s)" using assms(2,3) by (auto simp: com_ids_def)
  ultimately have "u \<in> com_uuid ` set (com_rows s1)" by (metis com_ids_def set_map)
  then obtain r1 where r1: "r1 \<in> set (com_rows s1)" "com_uuid r1 = u" by auto
  then obtain r2 where "r2 \<in> set (com_rows s2)" "moved {u} StatusApproved r1 r2"
    using rows by (metis in_set_conv_nth list_all2_conv_all_nth)
  moreover have "com_content r1 = []" using h r1 by (simp add: hard_deleted_def)
  ultimately show ?thesis using r1(2) by (auto simp: moved_def)
qed

theorem Restore_revives_scrubbed_witness:
  "\<exists>m s1 s2 r. decide (com_row 103 None (Some 1) StatusDeleted 0 0) ActionRestore 3 [] False 5 300 = Inr m \<and>
     com_HardDelete (\<lambda>x. x) 6 301 3 103 [] com_demo = (Inr True, s1) \<and> applyModerations_tx [m] s1 = (Inr (), s2) \<and>
     r \<in> set (com_rows s2) \<and> com_status r = StatusApproved \<and> com_content r = []"
proof -
  let ?c = "com_row 103 None (Some 1) StatusDeleted 0 0"
  have c: "?c \<in> set (com_rows com_demo)" "com_uuid ?c = 103" "com_fill (\<lambda>x. x) ?c = ?c"
    by (simp_all add: com_demo_def com_row_def com_fill_def)
  obtain m s1 s2 where r: "decide (com_fill (\<lambda>x. x) ?c) ActionRestore 3 [] False 5 300 = Inr m"
    "com_HardDelete (\<lambda>x. x) 6 301 3 103 [] com_demo = (Inr True, s1)" "applyModerations_tx [m] s1 = (Inr (), s2)"
    by (simp add: com_eval string_eval)
  from Restore_revives_scrubbed [OF com_demo_inv c(1,2) r] r c(3) show ?thesis by metis
qed

end
