(* ===== verification/Comment_Lists.thy ===== *)
theory Comment_Lists
  imports Comment_Properties
begin

text \<open>
  The reading side of the comment service: the filtered, ordered and paged list of the repository, the
  public, own and moderator lists of the service, threads, and a moderator's view of one comment.
  Rows are kept in the order of their ids, so that ordering by creation time and id is a stable sort.
\<close>

record com_filter =
  lf_post :: "uuid option"
  lf_parent :: "uuid option"
  lf_roots :: bool
  lf_author :: "uuid option"
  lf_statuses :: "com_status list"
  lf_newest :: bool
  lf_page :: int
  lf_per_page :: int

record com_page =
  lr_items :: "comment list"
  lr_total :: nat
  lr_page :: int
  lr_per_page :: int

definition com_matches :: "com_filter \<Rightarrow> comment \<Rightarrow> bool" where
  "com_matches f c \<longleftrightarrow>
     (case lf_post f of None \<Rightarrow> True | Some p \<Rightarrow> com_post c = p) \<and>
     (case lf_parent f of Some q \<Rightarrow> com_parent c = Some q | None \<Rightarrow> lf_roots f \<longrightarrow> com_parent c = None) \<and>
     (case lf_author f of None \<Rightarrow> True | Some u \<Rightarrow> com_author c = Some u) \<and>
     (lf_statuses f \<noteq> [] \<longrightarrow> com_status c \<in> set (lf_statuses f))"

definition com_ordered :: "com_filter \<Rightarrow> comment list \<Rightarrow> comment list" where
  "com_ordered f rows =
     (let sorted = sort_key com_created (filter (com_matches f) rows) in if lf_newest f then rev sorted else sorted)"

text \<open>A limit of the query, after an offset; an offset that is not positive adds no clause.\<close>

definition offset_limit :: "int \<Rightarrow> int \<Rightarrow> 'a list \<Rightarrow> 'a list" where
  "offset_limit offset limit xs = take (nat limit) (drop (nat offset) xs)"

definition com_List :: "(string \<Rightarrow> string) \<Rightarrow> com_filter \<Rightarrow> com_page com_comp" where
  "com_List render f =
     andthen (db_call (asks (\<lambda>s. length (filter (com_matches f) (com_rows s))))) (\<lambda>total.
     andthen (db_call (asks (\<lambda>s.
       offset_limit (int64 ((lf_page f - 1) * lf_per_page f)) (lf_per_page f) (com_ordered f (com_rows s))))) (\<lambda>items.
     ret \<lparr>lr_items = map (com_fill render) items, lr_total = total, lr_page = lf_page f, lr_per_page = lf_per_page f\<rparr>))"

definition public_filter :: "uuid \<Rightarrow> uuid option \<Rightarrow> int \<Rightarrow> int \<Rightarrow> com_filter" where
  "public_filter p parent page perPage =
     \<lparr>lf_post = Some p, lf_parent = parent, lf_roots = (parent = None), lf_author = None, lf_statuses = PublicStatuses,
      lf_newest = False, lf_page = page, lf_per_page = perPage\<rparr>"

definition ListForPost :: "(string \<Rightarrow> string) \<Rightarrow> uuid \<Rightarrow> uuid option \<Rightarrow> int \<Rightarrow> int \<Rightarrow> com_page com_comp" where
  "ListForPost render p parent page perPage =
     andthen (PostPolicy p) (\<lambda>policy.
     andthen (of_result (Readable policy)) (\<lambda>_.
     com_List render (public_filter p parent (fst (normalizePage page perPage)) (snd (normalizePage page perPage)))))"

definition GetThread :: "(string \<Rightarrow> string) \<Rightarrow> uuid \<Rightarrow> (comment \<times> com_page) com_comp" where
  "GetThread render u =
     andthen (getPublic render u) (\<lambda>c.
     andthen (com_List render
       \<lparr>lf_post = None, lf_parent = Some (com_uuid c), lf_roots = False, lf_author = None, lf_statuses = PublicStatuses,
        lf_newest = False, lf_page = 1, lf_per_page = 20\<rparr>) (\<lambda>replies. ret (c, replies)))"

definition ListMine :: "(string \<Rightarrow> string) \<Rightarrow> uuid \<Rightarrow> int \<Rightarrow> int \<Rightarrow> com_page com_comp" where
  "ListMine render user page perPage = com_List render
     \<lparr>lf_post = None, lf_parent = None, lf_roots = False, lf_author = Some user,
      lf_statuses = [StatusPending, StatusApproved, StatusFlagged, StatusSpam, StatusRejected],
      lf_newest = True, lf_page = fst (normalizePage page perPage), lf_per_page = snd (normalizePage page perPage)\<rparr>"

text \<open>The moderator's statuses come as text; an unknown one is refused.\<close>

definition status_of :: "string \<Rightarrow> com_status option" where
  "status_of t = map_of [(''pending'', StatusPending), (''approved'', StatusApproved), (''flagged'', StatusFlagged),
     (''spam'', StatusSpam), (''rejected'', StatusRejected), (''deleted'', StatusDeleted)] t"

definition AdminList ::
  "(string \<Rightarrow> string) \<Rightarrow> uuid option \<Rightarrow> string list \<Rightarrow> bool \<Rightarrow> int \<Rightarrow> int \<Rightarrow> com_page com_comp" where
  "AdminList render p statuses newest page perPage =
     (if list_ex (\<lambda>t. status_of t = None) statuses then throw (ComValidation ''unknown status'')
      else com_List render
        \<lparr>lf_post = p, lf_parent = None, lf_roots = False, lf_author = None,
         lf_statuses = (if statuses = [] then QueueStatuses else map (the \<circ> status_of) statuses), lf_newest = newest,
         lf_page = fst (normalizePage page perPage), lf_per_page = snd (normalizePage page perPage)\<rparr>)"

definition ListFlags :: "uuid \<Rightarrow> com_flag list com_comp" where
  "ListFlags u = db_call (asks (\<lambda>s. rev (sort_key cf_at (filter (\<lambda>f. cf_comment f = u) (com_flag_rows s)))))"

definition ListModerationLog :: "uuid \<Rightarrow> mod_entry list com_comp" where
  "ListModerationLog u = db_call (asks (\<lambda>s. sort_key me_at (filter (\<lambda>e. me_comment e = u) (com_log s))))"

definition AdminGet :: "(string \<Rightarrow> string) \<Rightarrow> uuid \<Rightarrow> (comment \<times> com_flag list \<times> mod_entry list) com_comp" where
  "AdminGet render u =
     andthen (com_get render u) (\<lambda>c.
     andthen (ListFlags u) (\<lambda>flags.
     andthen (ListModerationLog u) (\<lambda>history.
     ret (c, flags, history))))"

section \<open>Pages\<close>

lemma normalizePage_bounds: "normalizePage page perPage = (p, n) \<Longrightarrow> 1 \<le> p \<and> 1 \<le> n \<and> n \<le> 100"
  by (auto simp: normalizePage_def split: if_splits)

lemma com_List_wp:
  "wp (com_List render f)
     (\<lambda>r t. lr_items r = map (com_fill render) (offset_limit (int64 ((lf_page f - 1) * lf_per_page f)) (lf_per_page f) (com_ordered f (com_rows s))) \<and>
        lr_total r = length (filter (com_matches f) (com_rows s)) \<and> lr_page r = lf_page f \<and> lr_per_page r = lf_per_page f)
     (\<lambda>_ _. True) s"
  by (simp add: com_List_def wp_simps)

text \<open>What readers may see below a post or a comment, in order.\<close>

definition public_comments :: "uuid \<Rightarrow> uuid option \<Rightarrow> com_store \<Rightarrow> comment list" where
  "public_comments p parent s =
     sort_key com_created (filter (\<lambda>c. com_post c = p \<and> com_parent c = parent \<and> com_Public c) (com_rows s))"

lemma public_ordered: "com_ordered (public_filter p parent pg n) (com_rows s) = public_comments p parent s"
proof -
  have "com_matches (public_filter p parent pg n) = (\<lambda>c. com_post c = p \<and> com_parent c = parent \<and> com_Public c)"
    by (rule ext) (auto simp: com_matches_def public_filter_def com_Public_def PublicStatuses_def split: option.split)
  then show ?thesis by (simp add: com_ordered_def public_comments_def public_filter_def)
qed

definition page_of :: "(string \<Rightarrow> string) \<Rightarrow> uuid \<Rightarrow> uuid option \<Rightarrow> int \<Rightarrow> int \<Rightarrow> com_store \<Rightarrow> com_page \<Rightarrow> bool" where
  "page_of render p parent pg n s r \<longleftrightarrow>
     lr_items r = map (com_fill render) (offset_limit (int64 ((pg - 1) * n)) n (public_comments p parent s)) \<and>
     lr_total r = length (public_comments p parent s) \<and> lr_page r = pg"

lemma public_list_wp:
  "wp (com_List render (public_filter p parent pg n)) (\<lambda>r t. page_of render p parent pg n s r) (\<lambda>_ _. True) s"
proof -
  have "length (filter (com_matches (public_filter p parent pg n)) (com_rows s)) = length (public_comments p parent s)"
    unfolding public_ordered [of p parent pg n, symmetric] by (simp add: com_ordered_def Let_def)
  then show ?thesis
    by (intro wp_mono [OF com_List_wp]) (simp_all add: page_of_def public_ordered, simp_all add: public_filter_def)
qed

lemma ListForPost_wp:
  assumes "normalizePage page perPage = (pg, n)"
  shows "wp (ListForPost render p parent page perPage) (\<lambda>r t. page_of render p parent pg n s r) (\<lambda>_ _. True) s"
proof -
  have "wp (of_result (Readable policy)) (\<lambda>_. wp (com_List render (public_filter p parent pg n))
      (\<lambda>r t. page_of render p parent pg n s r) (\<lambda>_ _. True)) (\<lambda>_ _. True) (s\<lparr>calls := k\<rparr>)" for policy k
    by (auto simp: wp_of_result page_of_def public_comments_def split: sum.split intro!: wp_mono [OF public_list_wp])
  then show ?thesis unfolding ListForPost_def wp_andthen_fun assms fst_conv snd_conv
    by (intro wp_reads [OF reads_PostPolicy]) simp_all
qed



section \<open>Properties\<close>


lemmas list_eval =
  com_eval ListForPost_def com_List_def public_filter_def normalizePage_def com_matches_def com_ordered_def
  offset_limit_def PublicStatuses_def public_comments_def com_Public_def




text \<open>
  C16. The offset of a page is computed in 64 bits and wraps: a page so far out that the offset is a
  multiple of \<open>2\<^sup>64\<close> shows the items of the first page under its own page number.
\<close>

theorem ListForPost_wraps:
  assumes "1 \<le> page" "1 \<le> n" "n \<le> 100" "((page - 1) * n) mod 2 ^ 64 = 0"
    and "ListForPost render p parent page n s = (Inr r, t)" "ListForPost render p parent 1 n s = (Inr r1, t1)"
  shows "lr_items r = lr_items r1 \<and> lr_page r = page"
proof -
  have "page_of render p parent page n s r" "page_of render p parent 1 n s r1"
    using wp_Inr [OF ListForPost_wp assms(5)] wp_Inr [OF ListForPost_wp assms(6)] assms(1-3) by (simp_all add: normalizePage_def)
  then show ?thesis using int64_mod [OF assms(4)] int64_mod [of 0] by (simp add: page_of_def)
qed

theorem ListForPost_wraps_witness:
  "\<exists>r t. ListForPost (\<lambda>x. x) 10 None (2 ^ 62 + 1) 4 com_demo = (Inr r, t) \<and> length (lr_items r) = 2 \<and> lr_total r = 2"
proof -
  obtain r t where r: "ListForPost (\<lambda>x. x) 10 None (2 ^ 62 + 1) 4 com_demo = (Inr r, t)" "lr_total r = 2"
    by (simp add: list_eval)
  obtain r1 t1 where r1: "ListForPost (\<lambda>x. x) 10 None 1 4 com_demo = (Inr r1, t1)" "length (lr_items r1) = 2"
    by (simp add: list_eval int64_shift)
  show ?thesis using ListForPost_wraps [OF _ _ _ _ r(1) r1(1)] r r1 by auto
qed

end
