(* ===== verification/Cache_Redis.thy ===== *)
theory Cache_Redis
  imports Read_Cache
begin

text \<open>
  The Redis read cache under concurrency: any number of readers go through \<open>Through\<close> and \<open>Redis.Get\<close>,
  any number of writers invalidate families, one Redis command at a time; every command may fail, and
  keys may expire or be evicted at any moment. \<open>load t f k\<close> is what loading the query \<open>k\<close> of family \<open>f\<close> at
  time \<open>t\<close> gives, so that an arbitrary \<open>load\<close> stands for any history of the database; \<open>encode\<close> and \<open>decode\<close>
  stand for the JSON encoding.

  Besides the Redis keys the state records, only for stating properties, the time, when each generation
  number was assigned, which were, when the last invalidation of a family took effect, and whether every
  number assigned so far was above the earlier ones of its family, which the clock seeds are meant to
  ensure.
\<close>

record cache_store =
  rd :: "string \<Rightarrow> string option"
  tick :: nat
  born :: "family \<Rightarrow> int \<Rightarrow> nat"
  used :: "family \<Rightarrow> int set"
  dropped :: "family \<Rightarrow> nat"
  fresh :: bool

section \<open>Redis commands\<close>






definition tock :: "cache_store \<Rightarrow> cache_store" where
  "tock s = s\<lparr>tick := Suc (tick s)\<rparr>"

section \<open>Readers and writers\<close>









section \<open>The invariant\<close>




lemma tock_fields [simp]:
  "tick (tock s) = Suc (tick s)" "rd (tock s) = rd s" "born (tock s) = born s" "used (tock s) = used s"
  "dropped (tock s) = dropped s" "fresh (tock s) = fresh s"
  by (simp_all add: tock_def)

definition cache_evolves :: "cache_store \<Rightarrow> cache_store \<Rightarrow> bool" where
  "cache_evolves s t \<longleftrightarrow>
     (\<forall>f. used s f \<subseteq> used t f \<and> dropped s f \<le> dropped t f \<and> (\<forall>g \<in> used s f. born t f g = born s f g)) \<and> tick s \<le> tick t"

lemma cache_evolves_refl [simp]: "cache_evolves s s"
  by (simp add: cache_evolves_def)



















section \<open>Progress\<close>




section \<open>Properties\<close>











text \<open>
  Keys are unambiguous: entries of different families, generations or queries never share a Redis
  key, no entry shadows a generation counter, and two searches share a query key only if they are the
  same search, whatever text the reader searched for, and likewise two lists.
\<close>

theorem cache_keys_unambiguous:
  assumes "plain_text us"
  shows "(entryKey f g k = entryKey f' g' k' \<longrightarrow> (f, g, k) = (f', g', k')) \<and> entryKey f g k \<noteq> generationKey f' \<and>
    (q \<noteq> [] \<and> q' \<noteq> [] \<and> q \<noteq> ''<nil>'' \<and> q' \<noteq> ''<nil>'' \<and> search_key us q p n c tg = search_key us q' p' n' c' tg' \<longrightarrow>
       (q, p, n, c, tg) = (q', p', n', c', tg')) \<and>
    (list_key us p n c tg = list_key us p' n' c' tg' \<longrightarrow> (p, n, c, tg) = (p', n', c', tg'))"
proof -
  have s: "search_key us q p n c tg = (''search:q='' @ key_value q) @ query_tail us p n c tg" for q p n c tg
    by (simp add: search_key_def query_tail_def Key_def)
  have l: "list_key us p n c tg = ''list'' @ query_tail us p n c tg" for p n c tg
    by (simp add: list_key_def query_tail_def Key_def)
  have "(q, p, n, c, tg) = (q', p', n', c', tg')"
    if "q \<noteq> []" "q' \<noteq> []" "q \<noteq> ''<nil>''" "q' \<noteq> ''<nil>''" "search_key us q p n c tg = search_key us q' p' n' c' tg'"
    using query_tail_inj [OF assms that(5) [unfolded s]] that(1-4) by (simp add: key_value_def)
  moreover have "(p, n, c, tg) = (p', n', c', tg')" if "list_key us p n c tg = list_key us p' n' c' tg'"
    using query_tail_inj [OF assms that [unfolded l]] by simp
  moreover have "(f, g, k) = (f', g', k')" if "entryKey f g k = entryKey f' g' k'"
    using entryKey_inj [OF that] by simp
  ultimately show ?thesis using cache_keys(2) by blast
qed

text \<open>The text of a nil pointer is not told apart from a search for that text, nor from a dash.\<close>

lemma search_nil_collides: "search_key us ''<nil>'' p n c tg = search_key us ''-'' p n c tg"
  by (simp add: search_key_def Key_def key_value_def)

definition demo_text :: "uuid \<Rightarrow> string" where
  "demo_text u = CHR ''u'' # replicate u CHR ''a''"

lemma demo_plain: "plain_text demo_text"
  by (auto simp: plain_text_def demo_text_def inj_def)

theorem cache_keys_unambiguous_witness:
  "search_key demo_text ''a:page=1'' 1 20 None (Some 3) \<noteq> search_key demo_text ''a'' 1 20 None (Some 3)"
  using cache_keys_unambiguous [OF demo_plain, where q = "''a:page=1''" and q' = "''a''" and p = 1 and p' = 1 and
      n = 20 and n' = 20 and c = None and c' = None and tg = "Some 3" and tg' = "Some 3"] by auto

end
