(* ===== verification/Outbox.thy ===== *)
theory Outbox
  imports Read_Cache "HOL-Library.Sublist"
begin

text \<open>
  The transactional outbox: events (\<^verbatim>\<open>internal/core/event/event.go\<close>), the table that holds them
  (\<^verbatim>\<open>internal/adapters/outbound/persistence/outbox_repository.go\<close>) and the relay that hands them to the
  message broker (\<^verbatim>\<open>internal/adapters/outbound/outbox/relay.go\<close>). The broker's verdict on each publish, the
  clock, the cancellation of the context and the rows other relays have locked are part of the state or
  arguments; what was handed to the broker is not undone by a rollback.
\<close>

section \<open>Configuration and backoff\<close>

record relay_config =
  rc_batch :: int
  rc_poll :: int
  rc_attempts :: int
  rc_base :: int
  rc_max :: int
  rc_retention :: int
  rc_stats :: int

abbreviation second :: int where "second \<equiv> 1000000000"

definition withDefaults :: "relay_config \<Rightarrow> relay_config" where
  "withDefaults c0 =
     (let c1 = (if rc_batch c0 < 1 then c0\<lparr>rc_batch := 100\<rparr> else c0);
          c2 = (if rc_poll c1 \<le> 0 then c1\<lparr>rc_poll := second\<rparr> else c1);
          c3 = (if rc_attempts c2 < 1 then c2\<lparr>rc_attempts := 10\<rparr> else c2);
          c4 = (if rc_base c3 \<le> 0 then c3\<lparr>rc_base := second\<rparr> else c3);
          c5 = (if rc_max c4 < rc_base c4 then c4\<lparr>rc_max := max (10 * 60 * second) (rc_base c4)\<rparr> else c4);
          c6 = (if rc_retention c5 \<le> 0 then c5\<lparr>rc_retention := 7 * 24 * 3600 * second\<rparr> else c5)
      in if rc_stats c6 \<le> 0 then c6\<lparr>rc_stats := 30 * second\<rparr> else c6)"

text \<open>The loop of \<open>Backoff\<close> from \<open>i\<close>; \<open>delay *= 2\<close> wraps at 64 bits.\<close>

function backoff_loop :: "int \<Rightarrow> int \<Rightarrow> int \<Rightarrow> int \<Rightarrow> int" where
  "backoff_loop i attempt delay ceiling =
     (if i < attempt \<and> delay < ceiling then backoff_loop (i + 1) attempt (int64 (delay * 2)) ceiling else delay)"
  by pat_completeness auto
termination by (relation "measure (\<lambda>(i, attempt, _, _). nat (attempt - i))") auto

declare backoff_loop.simps [simp del]

definition Backoff :: "int \<Rightarrow> int \<Rightarrow> int \<Rightarrow> int" where
  "Backoff attempt base ceiling = min (backoff_loop 1 attempt base ceiling) ceiling"

section \<open>Events and the table\<close>

record event =
  ev_id :: uuid
  ev_type :: string
  ev_version :: int
  ev_aggregate :: string
  ev_aggregate_id :: uuid
  ev_actor :: "uuid option"
  ev_at :: instant
  ev_payload :: "string option"

text \<open>\<open>event.New\<close>; \<open>u\<close> is the fresh id, and the payload is its JSON text, or none when it does not encode.\<close>

definition new_event ::
  "uuid \<Rightarrow> string \<Rightarrow> string \<Rightarrow> uuid \<Rightarrow> uuid option \<Rightarrow> instant \<Rightarrow> string option \<Rightarrow> event" where
  "new_event u typ aggregateType aggregateID actor at payload =
     \<lparr>ev_id = u, ev_type = typ, ev_version = 1, ev_aggregate = aggregateType, ev_aggregate_id = aggregateID,
      ev_actor = actor, ev_at = at, ev_payload = payload\<rparr>"

record outbox_row =
  ob_id :: nat
  ob_uuid :: uuid
  ob_topic :: string
  ob_aggregate :: string
  ob_aggregate_id :: "uuid option"
  ob_payload :: string
  ob_headers :: string
  ob_occurred :: instant
  ob_next :: instant
  ob_attempts :: int
  ob_error :: "string option"
  ob_published :: "instant option"
  ob_failed :: "instant option"

datatype ob_err = EncodePayload | EncodeHeaders | DecodeHeaders uuid

record ob_store = store +
  ob_rows :: "outbox_row list"
  ob_seq :: nat
  ob_broker :: "nat \<Rightarrow> string option"
  ob_publishes :: nat
  ob_sent :: "(string \<times> uuid) list"
  ob_clock :: "nat \<Rightarrow> instant"
  ob_reads :: nat

type_synonym 'a ob_comp = "(ob_store, ob_err, 'a) comp"

definition envelopeHeaders ::
  "(uuid \<Rightarrow> string) \<Rightarrow> (instant \<Rightarrow> string) \<Rightarrow> string \<Rightarrow> event \<Rightarrow> (string \<times> string) list" where
  "envelopeHeaders us ts requestID e =
     [(''id'', us (ev_id e)), (''type'', ev_type e), (''schema_version'', format_int (max (ev_version e) 1)),
      (''source'', ''blog-api''), (''timestamp'', ts (ev_at e)), (''aggregate_type'', ev_aggregate e)]
     @ (if ev_aggregate_id e = uuid_nil then [] else [(''aggregate_id'', us (ev_aggregate_id e))])
     @ (case ev_actor e of None \<Rightarrow> [] | Some u \<Rightarrow> [(''actor_id'', us u)])
     @ (if requestID = [] then [] else [(''correlation_id'', requestID)])"

text \<open>\<open>Record\<close>: the table's UUIDs are unique and its ids count up.\<close>

definition insert_event :: "event \<Rightarrow> string \<Rightarrow> string \<Rightarrow> unit ob_comp" where
  "insert_event e payload headers = db_call (\<lambda>s.
     if ev_id e \<in> ob_uuid ` set (ob_rows s) then (Inl StoreFail, s)
     else (Inr (), s\<lparr>ob_seq := Suc (ob_seq s), ob_rows := ob_rows s @
       [\<lparr>ob_id = ob_seq s, ob_uuid = ev_id e, ob_topic = ev_type e, ob_aggregate = ev_aggregate e,
         ob_aggregate_id = (if ev_aggregate_id e = uuid_nil then None else Some (ev_aggregate_id e)),
         ob_payload = payload, ob_headers = headers, ob_occurred = ev_at e, ob_next = ev_at e, ob_attempts = 0,
         ob_error = None, ob_published = None, ob_failed = None\<rparr>]\<rparr>))"

fun ob_Record ::
  "(uuid \<Rightarrow> string) \<Rightarrow> (instant \<Rightarrow> string) \<Rightarrow> ((string \<times> string) list \<Rightarrow> string option) \<Rightarrow> string \<Rightarrow> event list \<Rightarrow> unit ob_comp" where
  "ob_Record us ts enc requestID [] = ret ()"
| "ob_Record us ts enc requestID (e # es) =
     (case ev_payload e of
        None \<Rightarrow> throw EncodePayload
      | Some payload \<Rightarrow>
          (case enc (envelopeHeaders us ts requestID e) of
             None \<Rightarrow> throw EncodeHeaders
           | Some headers \<Rightarrow>
               andthen (insert_event e payload headers) (\<lambda>_. ob_Record us ts enc requestID es)))"

section \<open>The relay\<close>

record outcome =
  oc_err :: "string option"
  oc_next :: instant
  oc_failed :: bool

definition read_clock :: "instant ob_comp" where
  "read_clock s = (Inr (ob_clock s (ob_reads s)), s\<lparr>ob_reads := Suc (ob_reads s)\<rparr>)"

definition relay_publish :: "(string \<Rightarrow> string) \<Rightarrow> relay_config \<Rightarrow> outbox_row \<Rightarrow> outcome ob_comp" where
  "relay_publish topic cfg rec s =
     (let t = s\<lparr>ob_publishes := Suc (ob_publishes s)\<rparr> in
      case ob_broker s (ob_publishes s) of
        None \<Rightarrow> (Inr \<lparr>oc_err = None, oc_next = 0, oc_failed = False\<rparr>,
                 t\<lparr>ob_sent := ob_sent s @ [(topic (ob_topic rec), ob_uuid rec)]\<rparr>)
      | Some err \<Rightarrow>
          let attempt = ob_attempts rec + 1 in
          andthen read_clock (\<lambda>now.
          ret \<lparr>oc_err = Some err, oc_next = now + Backoff attempt (rc_base cfg) (rc_max cfg),
               oc_failed = (rc_attempts cfg \<le> attempt)\<rparr>) t)"

definition lastError :: "string \<Rightarrow> string" where
  "lastError err = concat (map encode_rune (take 2000 (runes err)))"

definition put_outcome :: "nat \<Rightarrow> instant \<Rightarrow> outcome \<Rightarrow> outbox_row \<Rightarrow> outbox_row" where
  "put_outcome i now oc r =
     (if ob_id r \<noteq> i then r
      else case oc_err oc of
        None \<Rightarrow> r\<lparr>ob_published := Some now, ob_attempts := ob_attempts r + 1, ob_error := None\<rparr>
      | Some err \<Rightarrow> r\<lparr>ob_attempts := ob_attempts r + 1, ob_error := Some (lastError err), ob_next := oc_next oc,
                      ob_failed := (if oc_failed oc then Some now else None)\<rparr>)"

definition storeOutcome :: "nat \<Rightarrow> instant \<Rightarrow> outcome \<Rightarrow> unit ob_comp" where
  "storeOutcome i now oc = db_call (change (\<lambda>s. s\<lparr>ob_rows := map (put_outcome i now oc) (ob_rows s)\<rparr>))"

definition due :: "instant \<Rightarrow> outbox_row \<Rightarrow> bool" where
  "due now r \<longleftrightarrow> ob_published r = None \<and> ob_failed r = None \<and> ob_next r \<le> now"

text \<open>The claimed rows: due, not locked by another relay, by next attempt and id.\<close>

definition claim :: "instant \<Rightarrow> int \<Rightarrow> nat set \<Rightarrow> outbox_row list \<Rightarrow> outbox_row list" where
  "claim now limit locked rows =
     take (nat limit) (sort_key (\<lambda>r. (ob_next r, ob_id r)) (filter (\<lambda>r. due now r \<and> ob_id r \<notin> locked) rows))"

fun relay_loop ::
  "(string \<Rightarrow> (string \<times> string) list option) \<Rightarrow> (string \<Rightarrow> string) \<Rightarrow> relay_config \<Rightarrow> instant \<Rightarrow> outbox_row list \<Rightarrow> unit ob_comp" where
  "relay_loop dec topic cfg now [] = ret ()"
| "relay_loop dec topic cfg now (r # rs) =
     (case dec (ob_headers r) of
        None \<Rightarrow> throw (DecodeHeaders (ob_uuid r))
      | Some _ \<Rightarrow>
          andthen (relay_publish topic cfg r) (\<lambda>oc.
          andthen (storeOutcome (ob_id r) now oc) (\<lambda>_.
          relay_loop dec topic cfg now rs)))"

text \<open>
  \<open>RelayBatch\<close>: the number of claimed rows and the error, if any. The last storage
  call is the commit. A failed transaction leaves the rows as they were, but not what was handed to the
  broker.
\<close>

definition RelayBatch ::
  "(string \<Rightarrow> (string \<times> string) list option) \<Rightarrow> (string \<Rightarrow> string) \<Rightarrow> relay_config \<Rightarrow> instant \<Rightarrow> int \<Rightarrow> nat set
     \<Rightarrow> ob_store \<Rightarrow> (nat \<times> ob_err failure option) \<times> ob_store" where
  "RelayBatch dec topic cfg now limit locked s =
     (case (db_call (asks (\<lambda>s. claim now limit locked (ob_rows s))) :: outbox_row list ob_comp) s of
        (Inl e, t) \<Rightarrow> ((0, Some e), t)
      | (Inr rows, t) \<Rightarrow>
          (case andthen (relay_loop dec topic cfg now rows) (\<lambda>_. db_call (ret ())) t of
             (Inl e, u) \<Rightarrow> ((length rows, Some e), u\<lparr>ob_rows := ob_rows s\<rparr>)
           | (Inr _, u) \<Rightarrow> ((length rows, None), u)))"

text \<open>
  \<open>Drain\<close> with fuel: the rows claimed, and whether it ended with an error; \<open>cancelled k\<close> is the state of
  the context before the k-th batch, \<open>locked k\<close> the rows other relays hold then.
\<close>

fun drain ::
  "(string \<Rightarrow> (string \<times> string) list option) \<Rightarrow> (string \<Rightarrow> string) \<Rightarrow> relay_config \<Rightarrow> (nat \<Rightarrow> bool) \<Rightarrow> (nat \<Rightarrow> nat set)
     \<Rightarrow> nat \<Rightarrow> nat \<Rightarrow> nat \<Rightarrow> ob_store \<Rightarrow> ((nat \<times> bool) \<times> ob_store) option" where
  "drain dec topic cfg cancelled locked 0 k acc s = None"
| "drain dec topic cfg cancelled locked (Suc fuel) k acc s =
     (if cancelled k then Some ((acc, True), s)
      else
        let now = ob_clock s (ob_reads s); s1 = s\<lparr>ob_reads := Suc (ob_reads s)\<rparr>
        in case RelayBatch dec topic cfg now (rc_batch cfg) (locked k) s1 of
             ((claimed, Some e), t) \<Rightarrow> Some ((acc + claimed, True), t)
           | ((claimed, None), t) \<Rightarrow>
               if int claimed < rc_batch cfg then Some ((acc + claimed, False), t)
               else drain dec topic cfg cancelled locked fuel (Suc k) (acc + claimed) t)"

section \<open>Maintenance\<close>

definition PruneBefore :: "instant \<Rightarrow> nat ob_comp" where
  "PruneBefore cutoff = db_call (\<lambda>s.
     let old = (\<lambda>r. case ob_published r of None \<Rightarrow> False | Some t \<Rightarrow> t < cutoff) in
     (Inr (length (filter old (ob_rows s))), s\<lparr>ob_rows := filter (\<lambda>r. \<not> old r) (ob_rows s)\<rparr>))"

record backlog =
  bl_pending :: nat
  bl_failed :: nat
  bl_oldest :: "instant option"

definition Backlog :: "backlog ob_comp" where
  "Backlog = db_call (asks (\<lambda>s.
     let open_rows = filter (\<lambda>r. ob_published r = None) (ob_rows s);
         pending = filter (\<lambda>r. ob_failed r = None) open_rows
     in \<lparr>bl_pending = length pending, bl_failed = length (filter (\<lambda>r. ob_failed r \<noteq> None) open_rows),
         bl_oldest = (if pending = [] then None else Some (Min (ob_occurred ` set pending)))\<rparr>))"

definition ob_Retry :: "instant \<Rightarrow> nat ob_comp" where
  "ob_Retry now = db_call (\<lambda>s.
     let parked = (\<lambda>r. ob_published r = None \<and> ob_failed r \<noteq> None) in
     (Inr (length (filter parked (ob_rows s))),
      s\<lparr>ob_rows := map (\<lambda>r. if parked r then r\<lparr>ob_failed := None, ob_attempts := 0, ob_next := now\<rparr> else r) (ob_rows s)\<rparr>))"

definition relay_maintain :: "relay_config \<Rightarrow> ob_store \<Rightarrow> ob_store" where
  "relay_maintain cfg s =
     (let now = ob_clock s (ob_reads s); s1 = s\<lparr>ob_reads := Suc (ob_reads s)\<rparr> in
      case Backlog s1 of
        (Inl _, t) \<Rightarrow> t
      | (Inr _, t) \<Rightarrow> snd (PruneBefore (now - rc_retention cfg) t))"

section \<open>Backoff\<close>

lemma int64_double: "0 < d \<Longrightarrow> d < c \<Longrightarrow> c \<le> 2 ^ 62 \<Longrightarrow> int64 (d * 2) = d * 2" for d :: int
  by (rule int64_id) simp_all

lemma backoff_loop_min:
  "0 < d \<Longrightarrow> c \<le> 2 ^ 62 \<Longrightarrow> min (backoff_loop i n d c) c = min (d * 2 ^ nat (n - i)) c"
proof (induction i n d c rule: backoff_loop.induct)
  case (1 i n d c)
  show ?case
  proof (cases "i < n \<and> d < c")
    case True
    have "nat (n - i) = Suc (nat (n - (i + 1)))" using True by arith
    moreover have "int64 (d * 2) = d * 2" using int64_double True 1(2,3) by blast
    ultimately show ?thesis using 1 True by (subst backoff_loop.simps) (simp add: mult.assoc)
  next
    case False
    have "d * 1 \<le> d * 2 ^ nat (n - i)" using 1(2) by (intro mult_left_mono) simp_all
    then show ?thesis using False by (subst backoff_loop.simps) (auto simp: min_def)
  qed
qed

lemma Backoff_bounds: "0 < base \<Longrightarrow> base \<le> c \<Longrightarrow> c \<le> 2 ^ 62 \<Longrightarrow> base \<le> Backoff n base c \<and> Backoff n base c \<le> c"
proof -
  assume a: "0 < base" "base \<le> c" "c \<le> 2 ^ 62"
  have "base * 1 \<le> base * 2 ^ nat (n - 1)" using a(1) by (intro mult_left_mono) simp_all
  then show ?thesis using a backoff_loop_min [OF a(1,3), of 1 n] by (simp add: Backoff_def)
qed

section \<open>One batch\<close>

definition published_row :: "instant \<Rightarrow> outbox_row \<Rightarrow> outbox_row" where
  "published_row now r = r\<lparr>ob_published := Some now, ob_attempts := ob_attempts r + 1, ob_error := None\<rparr>"

definition failed_row :: "relay_config \<Rightarrow> instant \<Rightarrow> string \<Rightarrow> instant \<Rightarrow> outbox_row \<Rightarrow> outbox_row" where
  "failed_row cfg now err nxt r =
     r\<lparr>ob_attempts := ob_attempts r + 1, ob_error := Some (lastError err),
       ob_next := nxt + Backoff (ob_attempts r + 1) (rc_base cfg) (rc_max cfg),
       ob_failed := (if rc_attempts cfg \<le> ob_attempts r + 1 then Some now else None)\<rparr>"

text \<open>What became of a row: untouched unless claimed; then published and sent, or failed once more.\<close>

definition tried ::
  "(string \<Rightarrow> string) \<Rightarrow> relay_config \<Rightarrow> instant \<Rightarrow> (nat \<Rightarrow> instant) \<Rightarrow> nat set \<Rightarrow> (string \<times> uuid) set \<Rightarrow> outbox_row \<Rightarrow> outbox_row \<Rightarrow> bool" where
  "tried topic cfg now clock S X r r' \<longleftrightarrow>
     (if ob_id r \<in> S
      then r' = published_row now r \<and> (topic (ob_topic r), ob_uuid r) \<in> X \<or> (\<exists>err k. r' = failed_row cfg now err (clock k) r)
      else r' = r)"

lemma tried_id: "tried topic cfg now clock S X r r' \<Longrightarrow> ob_id r' = ob_id r"
  by (auto simp: tried_def published_row_def failed_row_def split: if_splits)

lemma tried_mono: "tried topic cfg now clock S X r r' \<Longrightarrow> X \<subseteq> Y \<Longrightarrow> tried topic cfg now clock S Y r r'"
  by (auto simp: tried_def split: if_splits)

lemma tried_then:
  assumes "tried topic cfg now clock {i} X r r1" "tried topic cfg now clock S Y r1 r2" "i \<notin> S" "X \<subseteq> Y"
  shows "tried topic cfg now clock (insert i S) Y r r2"
proof (cases "ob_id r = i")
  case True
  then have "r2 = r1" using assms(2,3) tried_id [OF assms(1)] by (simp add: tried_def)
  then show ?thesis using assms(1,4) True by (auto simp: tried_def)
next
  case False
  then have "r1 = r" using assms(1) by (simp add: tried_def)
  then show ?thesis using assms(2) False by (simp add: tried_def)
qed

lemma relay_publish_wp:
  assumes "\<And>t. Q \<lparr>oc_err = None, oc_next = 0, oc_failed = False\<rparr>
       (s\<lparr>ob_publishes := Suc (ob_publishes s), ob_sent := ob_sent s @ [(topic (ob_topic r), ob_uuid r)]\<rparr>)"
    and "\<And>err. Q \<lparr>oc_err = Some err, oc_next = ob_clock s (ob_reads s) + Backoff (ob_attempts r + 1) (rc_base cfg) (rc_max cfg),
          oc_failed = (rc_attempts cfg \<le> ob_attempts r + 1)\<rparr>
       (s\<lparr>ob_publishes := Suc (ob_publishes s), ob_reads := Suc (ob_reads s)\<rparr>)"
  shows "wp (relay_publish topic cfg r) Q F s"
  using assms by (simp add: wp_def relay_publish_def Let_def andthen_def read_clock_def ret_def split: option.split)

definition batch_done ::
  "(string \<Rightarrow> string) \<Rightarrow> relay_config \<Rightarrow> instant \<Rightarrow> outbox_row list \<Rightarrow> ob_store \<Rightarrow> ob_store \<Rightarrow> bool" where
  "batch_done topic cfg now rs s t \<longleftrightarrow>
     list_all2 (tried topic cfg now (ob_clock s) (ob_id ` set rs) (set (ob_sent t))) (ob_rows s) (ob_rows t) \<and>
     (\<exists>ys. ob_sent t = ob_sent s @ ys \<and> subseq ys (map (\<lambda>r. (topic (ob_topic r), ob_uuid r)) rs)) \<and>
     ob_clock t = ob_clock s \<and> ob_seq t = ob_seq s"

definition sent_more :: "ob_store \<Rightarrow> ob_store \<Rightarrow> bool" where
  "sent_more s t \<longleftrightarrow> (\<exists>ys. ob_sent t = ob_sent s @ ys) \<and> ob_clock t = ob_clock s \<and> ob_seq t = ob_seq s"

lemma outcome_tried:
  assumes "distinct (map ob_id rows)" "r \<in> set rows" "ob_id r = i"
  shows "(topic (ob_topic r), ob_uuid r) \<in> X \<Longrightarrow>
      list_all2 (tried topic cfg now clock {i} X) rows (map (put_outcome i now \<lparr>oc_err = None, oc_next = 0, oc_failed = False\<rparr>) rows)"
    and "list_all2 (tried topic cfg now clock {i} X) rows (map (put_outcome i now
          \<lparr>oc_err = Some err, oc_next = clock k + Backoff (ob_attempts r + 1) (rc_base cfg) (rc_max cfg),
           oc_failed = (rc_attempts cfg \<le> ob_attempts r + 1)\<rparr>) rows)"
proof -
  have *: "q = r" if "q \<in> set rows" "ob_id q = i" for q
    using assms that by (auto simp: distinct_map dest: inj_onD)
  show "list_all2 (tried topic cfg now clock {i} X) rows (map (put_outcome i now \<lparr>oc_err = None, oc_next = 0, oc_failed = False\<rparr>) rows)"
    if "(topic (ob_topic r), ob_uuid r) \<in> X"
    using that * by (auto simp: list_all2_map2 list_all2_same tried_def put_outcome_def published_row_def)
  show "list_all2 (tried topic cfg now clock {i} X) rows (map (put_outcome i now
          \<lparr>oc_err = Some err, oc_next = clock k + Backoff (ob_attempts r + 1) (rc_base cfg) (rc_max cfg),
           oc_failed = (rc_attempts cfg \<le> ob_attempts r + 1)\<rparr>) rows)"
    using * by (auto simp: list_all2_map2 list_all2_same tried_def put_outcome_def failed_row_def)
qed

lemma tried_ids: "list_all2 (tried topic cfg now clock S X) rows rows' \<Longrightarrow> map ob_id rows' = map ob_id rows"
  by (induction rule: list_all2_induct) (auto dest: tried_id)

lemma tried_others:
  assumes "list_all2 (tried topic cfg now clock {i} X) rows rows'" "q \<in> set rows" "ob_id q \<noteq> i"
  shows "q \<in> set rows'"
  using assms by (induction rule: list_all2_induct) (auto simp: tried_def)

lemma batch_cons:
  assumes h: "list_all2 (tried topic cfg now (ob_clock s) {ob_id r} (set (ob_sent s1))) (ob_rows s) (ob_rows s1)"
    and y: "ob_sent s1 = ob_sent s @ ys" "subseq ys [(topic (ob_topic r), ob_uuid r)]" "ob_clock s1 = ob_clock s" "ob_seq s1 = ob_seq s"
    and n: "ob_id r \<notin> ob_id ` set rs" and b: "batch_done topic cfg now rs s1 t"
  shows "batch_done topic cfg now (r # rs) s t"
proof -
  from b obtain zs where z: "ob_sent t = ob_sent s1 @ zs" "subseq zs (map (\<lambda>r. (topic (ob_topic r), ob_uuid r)) rs)"
    and l: "list_all2 (tried topic cfg now (ob_clock s1) (ob_id ` set rs) (set (ob_sent t))) (ob_rows s1) (ob_rows t)"
    and k: "ob_clock t = ob_clock s1" "ob_seq t = ob_seq s1" by (auto simp: batch_done_def)
  have "list_all2 (tried topic cfg now (ob_clock s) (insert (ob_id r) (ob_id ` set rs)) (set (ob_sent t))) (ob_rows s) (ob_rows t)"
    by (rule list_all2_trans [OF _ h l [unfolded y(3)]]) (use n z in \<open>auto intro: tried_then\<close>)
  moreover have "subseq (ys @ zs) (map (\<lambda>r. (topic (ob_topic r), ob_uuid r)) (r # rs))"
    using list_emb_append_mono [OF y(2) z(2)] by simp
  ultimately show ?thesis using y(1,3,4) z(1) k by (auto simp: batch_done_def)
qed

lemma relay_loop_wp:
  "distinct (map ob_id (ob_rows s)) \<Longrightarrow> set rs \<subseteq> set (ob_rows s) \<Longrightarrow> distinct (map ob_id rs) \<Longrightarrow>
     wp (relay_loop dec topic cfg now rs) (\<lambda>_. batch_done topic cfg now rs s) (\<lambda>_. sent_more s) s"
proof (induction rs arbitrary: s)
  case (Cons r rs)
  have r: "r \<in> set (ob_rows s)" "ob_id r \<notin> ob_id ` set rs" using Cons.prems by auto
  have step: "wp (storeOutcome (ob_id r) now oc) (\<lambda>_. wp (relay_loop dec topic cfg now rs) (\<lambda>_. batch_done topic cfg now (r # rs) s) (\<lambda>_. sent_more s))
      (\<lambda>_. sent_more s) s1"
    if s1: "ob_rows s1 = ob_rows s" "ob_sent s1 = ob_sent s @ ys" "subseq ys [(topic (ob_topic r), ob_uuid r)]"
      "ob_clock s1 = ob_clock s" "ob_seq s1 = ob_seq s"
      and h: "list_all2 (tried topic cfg now (ob_clock s) {ob_id r} (set (ob_sent s1))) (ob_rows s) (map (put_outcome (ob_id r) now oc) (ob_rows s))"
    for oc s1 ys
  proof -
    let ?s2 = "s1\<lparr>calls := Suc (calls s1), ob_rows := map (put_outcome (ob_id r) now oc) (ob_rows s1)\<rparr>"
    have "wp (relay_loop dec topic cfg now rs) (\<lambda>_. batch_done topic cfg now rs ?s2) (\<lambda>_. sent_more ?s2) ?s2"
    proof (rule Cons.IH)
      show "distinct (map ob_id (ob_rows ?s2))" using Cons.prems(1) by (simp add: s1(1) tried_ids [OF h] del: map_map)
      show "set rs \<subseteq> set (ob_rows ?s2)"
      proof
        fix q assume q: "q \<in> set rs"
        have "ob_id q \<noteq> ob_id r" using imageI [OF q, of ob_id] r(2) by metis
        moreover have "q \<in> set (ob_rows s)" using q Cons.prems(2) by auto
        ultimately have "q \<in> set (ob_rows s)" "ob_id q \<noteq> ob_id r" by blast+
        then show "q \<in> set (ob_rows ?s2)" using tried_others [OF h] s1(1) by simp
      qed
    qed (use Cons.prems(3) in simp)
    then have "wp (relay_loop dec topic cfg now rs) (\<lambda>_. batch_done topic cfg now (r # rs) s) (\<lambda>_. sent_more s) ?s2"
      by (rule wp_mono) (use h s1 r(2) batch_cons [of topic cfg now s r ?s2 ys rs] in \<open>auto simp: sent_more_def\<close>)
    then show ?thesis using s1 by (simp add: storeOutcome_def wp_simps sent_more_def)
  qed
  show ?case
  proof (cases "dec (ob_headers r)")
    case (Some hs)
    show ?thesis unfolding relay_loop.simps Some option.case wp_andthen_fun
      by (rule relay_publish_wp; rule step [of _ "[(topic (ob_topic r), ob_uuid r)]"] step [of _ "[]"])
        (use outcome_tried [OF Cons.prems(1) r(1) refl] in simp_all)
  qed (simp add: wp_simps sent_more_def)
qed (simp add: wp_simps batch_done_def tried_def list_all2_same)

lemma claim_facts:
  assumes "distinct (map ob_id rows)"
  shows "set (claim now limit locked rows) \<subseteq> set rows" "distinct (map ob_id (claim now limit locked rows))"
    "r \<in> set (claim now limit locked rows) \<Longrightarrow> due now r \<and> ob_id r \<notin> locked"
    "length (claim now limit locked rows) < nat limit \<Longrightarrow> r \<in> set rows \<Longrightarrow> due now r \<Longrightarrow> ob_id r \<notin> locked \<Longrightarrow>
       r \<in> set (claim now limit locked rows)"
proof -
  let ?f = "filter (\<lambda>r. due now r \<and> ob_id r \<notin> locked) rows"
  let ?s = "sort_key (\<lambda>r. (ob_next r, ob_id r)) ?f"
  show "set (claim now limit locked rows) \<subseteq> set rows" by (auto simp: claim_def dest: in_set_takeD)
  have "inj_on ob_id (set ?s)" using assms by (auto simp: distinct_map inj_on_def)
  moreover have "distinct ?s" using assms by (simp add: distinct_map)
  ultimately have "distinct (map ob_id ?s)" unfolding distinct_map by blast
  then show "distinct (map ob_id (claim now limit locked rows))"
    by (simp add: claim_def take_map [symmetric])
  show "r \<in> set (claim now limit locked rows) \<Longrightarrow> due now r \<and> ob_id r \<notin> locked"
    by (auto simp: claim_def dest: in_set_takeD)
  show "r \<in> set (claim now limit locked rows)"
    if "length (claim now limit locked rows) < nat limit" "r \<in> set rows" "due now r" "ob_id r \<notin> locked"
  proof -
    have "take (nat limit) ?s = ?s" using that(1) by (simp add: claim_def)
    then show ?thesis using that(2-4) by (simp add: claim_def)
  qed
qed

definition relayed ::
  "(string \<Rightarrow> string) \<Rightarrow> relay_config \<Rightarrow> instant \<Rightarrow> int \<Rightarrow> nat set \<Rightarrow> ob_store \<Rightarrow> nat \<times> ob_err failure option \<Rightarrow> ob_store \<Rightarrow> bool" where
  "relayed topic cfg now limit locked s r t \<longleftrightarrow>
     (case r of
        (n, None) \<Rightarrow> n = length (claim now limit locked (ob_rows s)) \<and> batch_done topic cfg now (claim now limit locked (ob_rows s)) s t
      | (n, Some e) \<Rightarrow> ob_rows t = ob_rows s \<and> sent_more s t)"

lemma batch_calls [simp]: "batch_done topic cfg now rs (s\<lparr>calls := n\<rparr>) t = batch_done topic cfg now rs s t"
  "sent_more (s\<lparr>calls := n\<rparr>) t = sent_more s t"
  by (simp_all add: batch_done_def sent_more_def)

lemma RelayBatch_relayed:
  assumes "distinct (map ob_id (ob_rows s))"
  shows "relayed topic cfg now limit locked s (fst (RelayBatch dec topic cfg now limit locked s)) (snd (RelayBatch dec topic cfg now limit locked s))"
proof -
  let ?rs = "claim now limit locked (ob_rows s)"
  let ?t = "s\<lparr>calls := Suc (calls s)\<rparr>"
  have "wp (relay_loop dec topic cfg now ?rs) (\<lambda>_. batch_done topic cfg now ?rs ?t) (\<lambda>_. sent_more ?t) ?t"
    by (rule relay_loop_wp) (use assms claim_facts [OF assms] in simp_all)
  then show ?thesis
    by (auto simp: wp_def RelayBatch_def andthen_def ret_def db_call_def asks_def Let_def relayed_def sent_more_def batch_done_def
        split: prod.splits sum.splits)
qed

section \<open>The invariant\<close>

text \<open>
  Rows have their own ids, below the next one; a published row was handed to the broker; a row is parked
  exactly when its attempts are used up, and one that is pending has attempts left.
\<close>

definition row_ok :: "relay_config \<Rightarrow> uuid set \<Rightarrow> outbox_row \<Rightarrow> bool" where
  "row_ok cfg X r \<longleftrightarrow>
     0 \<le> ob_attempts r \<and> ob_attempts r \<le> rc_attempts cfg \<and>
     (ob_published r \<noteq> None \<longrightarrow> ob_failed r = None \<and> ob_uuid r \<in> X) \<and>
     (ob_published r = None \<longrightarrow> (ob_failed r \<noteq> None \<longleftrightarrow> ob_attempts r = rc_attempts cfg))"

definition ob_inv :: "relay_config \<Rightarrow> ob_store \<Rightarrow> bool" where
  "ob_inv cfg s \<longleftrightarrow>
     1 \<le> rc_attempts cfg \<and> distinct (map ob_id (ob_rows s)) \<and> (\<forall>r \<in> set (ob_rows s). ob_id r < ob_seq s \<and> row_ok cfg (snd ` set (ob_sent s)) r)"

definition same_event :: "outbox_row \<Rightarrow> outbox_row \<Rightarrow> bool" where
  "same_event r r' \<longleftrightarrow> ob_uuid r' = ob_uuid r \<and> ob_topic r' = ob_topic r \<and> ob_payload r' = ob_payload r \<and> ob_headers r' = ob_headers r"

text \<open>Every event of the table is still there or was handed to the broker.\<close>

definition ob_kept :: "ob_store \<Rightarrow> ob_store \<Rightarrow> bool" where
  "ob_kept s t \<longleftrightarrow>
     set (ob_sent s) \<subseteq> set (ob_sent t) \<and>
     (\<forall>r \<in> set (ob_rows s). (\<exists>r' \<in> set (ob_rows t). same_event r r') \<or> ob_uuid r \<in> snd ` set (ob_sent t))"

lemma ob_kept_refl: "ob_kept s s"
  by (auto simp: ob_kept_def same_event_def)

lemma same_event_trans: "same_event r r' \<Longrightarrow> same_event r' r2 \<Longrightarrow> same_event r r2"
  by (simp add: same_event_def)

lemma ob_keptE:
  assumes "ob_kept s t" "r \<in> set (ob_rows s)"
  obtains r' where "r' \<in> set (ob_rows t)" "same_event r r'" | "ob_uuid r \<in> snd ` set (ob_sent t)"
  using assms unfolding ob_kept_def by blast

lemma ob_kept_sent: "ob_kept s t \<Longrightarrow> snd ` set (ob_sent s) \<subseteq> snd ` set (ob_sent t)"
  unfolding ob_kept_def by (rule image_mono) (rule conjunct1)

lemma ob_kept_trans:
  assumes a: "ob_kept s t" "ob_kept t u"
  shows "ob_kept s u"
proof -
  have "(\<exists>q \<in> set (ob_rows u). same_event r q) \<or> ob_uuid r \<in> snd ` set (ob_sent u)" if r: "r \<in> set (ob_rows s)" for r
    using a(1) r
  proof (cases rule: ob_keptE)
    case (1 r')
    from a(2) 1(1) show ?thesis
    proof (cases rule: ob_keptE)
      case (1 r2)
      then show ?thesis using same_event_trans [OF \<open>same_event r r'\<close>] by blast
    next
      case 2
      moreover have "ob_uuid r' = ob_uuid r" using \<open>same_event r r'\<close> by (simp add: same_event_def)
      ultimately show ?thesis by simp
    qed
  next
    case 2
    then show ?thesis using ob_kept_sent [OF a(2)] by blast
  qed
  moreover have "set (ob_sent s) \<subseteq> set (ob_sent u)" using a unfolding ob_kept_def by (meson order_trans)
  ultimately show ?thesis unfolding ob_kept_def by blast
qed

lemma tried_ok:
  assumes t: "tried topic cfg now clock S X r r'" and r: "row_ok cfg Y r" and Y: "Y \<subseteq> snd ` X"
    and d: "ob_id r \<in> S \<Longrightarrow> ob_published r = None \<and> ob_failed r = None"
  shows "row_ok cfg (snd ` X) r'" "same_event r r'"
proof -
  have "ob_uuid r \<in> snd ` X" if "(topic (ob_topic r), ob_uuid r) \<in> X" using that by force
  then show "row_ok cfg (snd ` X) r'"
    using t r d Y by (auto simp: tried_def row_ok_def published_row_def failed_row_def split: if_splits)
  show "same_event r r'"
    using t by (auto simp: tried_def same_event_def published_row_def failed_row_def split: if_splits)
qed

lemma all2_left: "list_all2 P xs ys \<Longrightarrow> x \<in> set xs \<Longrightarrow> \<exists>y \<in> set ys. P x y"
  by (induction rule: list_all2_induct) auto

lemma all2_right: "list_all2 P xs ys \<Longrightarrow> y \<in> set ys \<Longrightarrow> \<exists>x \<in> set xs. P x y"
  by (induction rule: list_all2_induct) auto

lemma batch_keeps:
  assumes i: "ob_inv cfg s" and b: "batch_done topic cfg now rs s t"
    and rs: "\<forall>r \<in> set rs. r \<in> set (ob_rows s) \<and> ob_published r = None \<and> ob_failed r = None"
  shows "ob_inv cfg t" "ob_kept s t"
proof -
  from b have l: "list_all2 (tried topic cfg now (ob_clock s) (ob_id ` set rs) (set (ob_sent t))) (ob_rows s) (ob_rows t)"
    and sent: "set (ob_sent s) \<subseteq> set (ob_sent t)" and seq: "ob_seq t = ob_seq s" by (auto simp: batch_done_def)
  have pending: "ob_published r = None \<and> ob_failed r = None" if "r \<in> set (ob_rows s)" "ob_id r \<in> ob_id ` set rs" for r
  proof -
    from that(2) obtain q where q: "q \<in> set rs" "ob_id q = ob_id r" by auto
    then have "q = r" using rs i that(1) by (auto simp: ob_inv_def distinct_map dest: inj_onD)
    then show ?thesis using rs q by blast
  qed
  have row: "row_ok cfg (snd ` set (ob_sent t)) r' \<and> same_event r r' \<and> ob_id r' = ob_id r"
    if "r \<in> set (ob_rows s)" "tried topic cfg now (ob_clock s) (ob_id ` set rs) (set (ob_sent t)) r r'" for r r'
    using tried_ok [OF that(2), of "snd ` set (ob_sent s)"] i that(1) pending [OF that(1)] sent tried_id [OF that(2)]
    by (auto simp: ob_inv_def image_mono)
  have "ob_id r' < ob_seq t \<and> row_ok cfg (snd ` set (ob_sent t)) r'" if "r' \<in> set (ob_rows t)" for r'
    using all2_right [OF l that] row i seq unfolding ob_inv_def by metis
  then show "ob_inv cfg t" using i tried_ids [OF l] by (simp add: ob_inv_def)
  have "\<exists>r' \<in> set (ob_rows t). same_event r r'" if "r \<in> set (ob_rows s)" for r
    using all2_left [OF l that] row [OF that] by blast
  then show "ob_kept s t" using sent by (auto simp: ob_kept_def)
qed

lemma sent_more_keeps:
  assumes "ob_inv cfg s" "ob_rows t = ob_rows s" "sent_more s t"
  shows "ob_inv cfg t" "ob_kept s t"
proof -
  have sub: "set (ob_sent s) \<subseteq> set (ob_sent t)" using assms(3) by (auto simp: sent_more_def)
  have "row_ok cfg (snd ` set (ob_sent t)) r" if "row_ok cfg (snd ` set (ob_sent s)) r" for r
    using that sub by (auto simp: row_ok_def)
  then show "ob_inv cfg t" using assms by (simp add: ob_inv_def sent_more_def)
  show "ob_kept s t" using sub assms(2) by (auto simp: ob_kept_def same_event_def)
qed

lemma ob_inv_frame [simp]:
  "ob_inv cfg (s\<lparr>calls := n\<rparr>) = ob_inv cfg s" "ob_inv cfg (s\<lparr>ob_reads := k\<rparr>) = ob_inv cfg s"
  "ob_kept (s\<lparr>calls := n\<rparr>) t = ob_kept s t" "ob_kept (s\<lparr>ob_reads := k\<rparr>) t = ob_kept s t"
  "ob_kept s (t\<lparr>calls := n\<rparr>) = ob_kept s t" "ob_kept s (t\<lparr>ob_reads := k\<rparr>) = ob_kept s t"
  by (simp_all add: ob_inv_def ob_kept_def)

lemma RelayBatch_keeps:
  assumes i: "ob_inv cfg s"
  shows "ob_inv cfg (snd (RelayBatch dec topic cfg now limit locked s))" "ob_kept s (snd (RelayBatch dec topic cfg now limit locked s))"
proof -
  let ?t = "snd (RelayBatch dec topic cfg now limit locked s)"
  have d: "distinct (map ob_id (ob_rows s))" using i by (simp add: ob_inv_def)
  note c = claim_facts [OF d, where now = now and limit = limit and locked = locked]
  have rs: "\<forall>r \<in> set (claim now limit locked (ob_rows s)). r \<in> set (ob_rows s) \<and> ob_published r = None \<and> ob_failed r = None"
    using c(1,3) by (auto simp: due_def)
  from RelayBatch_relayed [OF d, of topic cfg now limit locked dec] have
    "batch_done topic cfg now (claim now limit locked (ob_rows s)) s ?t \<or> ob_rows ?t = ob_rows s \<and> sent_more s ?t"
    by (auto simp: relayed_def split: prod.splits option.splits)
  then show "ob_inv cfg ?t" "ob_kept s ?t"
    using batch_keeps [OF i _ rs] sent_more_keeps [OF i] by blast+
qed

lemma drain_keeps:
  "ob_inv cfg s \<Longrightarrow> drain dec topic cfg cancelled locked fuel k acc s = Some (r, t) \<Longrightarrow> ob_inv cfg t \<and> ob_kept s t"
proof (induction fuel arbitrary: k acc s)
  case (Suc fuel)
  let ?now = "ob_clock s (ob_reads s)" and ?s1 = "s\<lparr>ob_reads := Suc (ob_reads s)\<rparr>"
  obtain n e u where u: "RelayBatch dec topic cfg ?now (rc_batch cfg) (locked k) ?s1 = ((n, e), u)" by (metis surj_pair)
  have i1: "ob_inv cfg ?s1" using Suc.prems(1) by simp
  have u2: "ob_inv cfg u" "ob_kept s u" using RelayBatch_keeps [OF i1, of dec topic ?now "rc_batch cfg" "locked k"] u by simp_all
  show ?case
  proof (cases "cancelled k \<or> e \<noteq> None \<or> int n < rc_batch cfg")
    case True
    then show ?thesis using Suc.prems u u2 ob_kept_refl by (auto simp: Let_def split: option.splits if_splits)
  next
    case False
    then have "drain dec topic cfg cancelled locked fuel (Suc k) (acc + n) u = Some (r, t)" using Suc.prems(2) u by simp
    then show ?thesis using Suc.IH [OF u2(1)] ob_kept_trans [OF u2(2)] by blast
  qed
qed simp

section \<open>Requests\<close>

datatype ob_request =
    ObRecord string "event list"
  | ObDrain "nat \<Rightarrow> bool" "nat \<Rightarrow> nat set" nat
  | ObPrune instant
  | ObRetry instant
  | ObMaintain

fun ob_run ::
  "(uuid \<Rightarrow> string) \<Rightarrow> (instant \<Rightarrow> string) \<Rightarrow> ((string \<times> string) list \<Rightarrow> string option) \<Rightarrow>
   (string \<Rightarrow> (string \<times> string) list option) \<Rightarrow> (string \<Rightarrow> string) \<Rightarrow> relay_config \<Rightarrow> ob_request \<Rightarrow> unit ob_comp" where
  "ob_run us ts enc dec topic cfg (ObRecord requestID es) = within_tx (ob_Record us ts enc requestID es)"
| "ob_run us ts enc dec topic cfg (ObDrain cancelled locked fuel) =
     (\<lambda>s. case drain dec topic cfg cancelled locked fuel 0 0 s of
            None \<Rightarrow> (Inl NoReturn, s)
          | Some ((n, failed), t) \<Rightarrow> (if failed then Inl StoreFail else Inr (), t))"
| "ob_run us ts enc dec topic cfg (ObPrune cutoff) = drop_result (PruneBefore cutoff)"
| "ob_run us ts enc dec topic cfg (ObRetry now) = drop_result (ob_Retry now)"
| "ob_run us ts enc dec topic cfg ObMaintain = (\<lambda>s. (Inr (), relay_maintain cfg s))"

definition ob_good :: "relay_config \<Rightarrow> ob_store \<Rightarrow> ob_store \<Rightarrow> bool" where
  "ob_good cfg s t \<longleftrightarrow> ob_inv cfg t \<and> ob_kept s t"

lemma ob_good_refl: "ob_inv cfg s \<Longrightarrow> ob_good cfg s (s\<lparr>calls := n\<rparr>)"
  by (simp add: ob_good_def ob_kept_refl)

lemma insert_event_good:
  assumes "ob_good cfg s0 s"
  shows "wp (insert_event e payload headers) (\<lambda>_. ob_good cfg s0) (\<lambda>_ _. True) s"
proof -
  let ?row = "\<lparr>ob_id = ob_seq s, ob_uuid = ev_id e, ob_topic = ev_type e, ob_aggregate = ev_aggregate e,
         ob_aggregate_id = (if ev_aggregate_id e = uuid_nil then None else Some (ev_aggregate_id e)),
         ob_payload = payload, ob_headers = headers, ob_occurred = ev_at e, ob_next = ev_at e, ob_attempts = 0,
         ob_error = None, ob_published = None, ob_failed = None\<rparr>"
  let ?t = "s\<lparr>calls := Suc (calls s), ob_seq := Suc (ob_seq s), ob_rows := ob_rows s @ [?row]\<rparr>"
  have "ob_seq s \<notin> ob_id ` set (ob_rows s)" using assms by (auto simp: ob_good_def ob_inv_def)
  then have "ob_inv cfg ?t" using assms by (auto simp: ob_good_def ob_inv_def row_ok_def)
  moreover have "ob_kept s ?t" unfolding ob_kept_def by (auto simp: same_event_def)
  then have "ob_kept s0 ?t" using assms ob_kept_trans unfolding ob_good_def by blast
  ultimately show ?thesis by (simp add: insert_event_def wp_simps ob_good_def)
qed

lemma ob_Record_good: "ob_good cfg s0 s \<Longrightarrow> wp (ob_Record us ts enc requestID es) (\<lambda>_. ob_good cfg s0) (\<lambda>_ _. True) s"
proof (induction es arbitrary: s)
  case (Cons e es)
  then show ?case
    by (auto simp: wp_simps split: option.split intro!: wp_mono [OF insert_event_good])
qed (simp add: wp_simps)

lemma rows_good:
  assumes i: "ob_inv cfg s" and t: "ob_sent t = ob_sent s" "ob_seq t = ob_seq s" "distinct (map ob_id (ob_rows t))"
    and r: "\<And>q. q \<in> set (ob_rows t) \<Longrightarrow> \<exists>r \<in> set (ob_rows s). ob_id q = ob_id r \<and> row_ok cfg (snd ` set (ob_sent s)) q"
    and k: "\<And>r. r \<in> set (ob_rows s) \<Longrightarrow> (\<exists>q \<in> set (ob_rows t). same_event r q) \<or> ob_uuid r \<in> snd ` set (ob_sent s)"
  shows "ob_good cfg s t"
proof -
  have "ob_id q < ob_seq t \<and> row_ok cfg (snd ` set (ob_sent t)) q" if "q \<in> set (ob_rows t)" for q
    using r [OF that] i t(1,2) by (auto simp: ob_inv_def)
  then have "ob_inv cfg t" using i t(3) by (auto simp: ob_inv_def)
  moreover have "ob_kept s t" using k t(1) unfolding ob_kept_def by simp
  ultimately show ?thesis by (simp add: ob_good_def)
qed

lemma Prune_good:
  assumes i: "ob_inv cfg s" shows "wp (PruneBefore cutoff) (\<lambda>_. ob_good cfg s) (\<lambda>_. ob_good cfg s) s"
proof -
  let ?old = "\<lambda>r. case ob_published r of None \<Rightarrow> False | Some t \<Rightarrow> t < cutoff"
  have "ob_good cfg s (s\<lparr>calls := n, ob_rows := filter (\<lambda>r. \<not> ?old r) (ob_rows s)\<rparr>)" for n
  proof (rule rows_good [OF i])
    fix r assume r: "r \<in> set (ob_rows s)"
    show "(\<exists>q \<in> set (ob_rows (s\<lparr>calls := n, ob_rows := filter (\<lambda>r. \<not> ?old r) (ob_rows s)\<rparr>)). same_event r q) \<or> ob_uuid r \<in> snd ` set (ob_sent s)"
    proof (cases "?old r")
      case True
      then have "ob_published r \<noteq> None" by (auto split: option.splits)
      then show ?thesis using i r by (auto simp: ob_inv_def row_ok_def)
    next
      case False
      then show ?thesis using r by (auto simp: same_event_def intro!: bexI [of _ r])
    qed
  qed (use i in \<open>auto simp: ob_inv_def distinct_map_filter\<close>)
  then show ?thesis using i by (simp add: PruneBefore_def wp_simps Let_def ob_good_refl)
qed

lemma Retry_good:
  assumes i: "ob_inv cfg s" shows "wp (ob_Retry now) (\<lambda>_. ob_good cfg s) (\<lambda>_. ob_good cfg s) s"
proof -
  let ?f = "\<lambda>r. if ob_published r = None \<and> ob_failed r \<noteq> None then r\<lparr>ob_failed := None, ob_attempts := 0, ob_next := now\<rparr> else r"
  have ids: "map ob_id (map ?f rows) = map ob_id rows" for rows by simp
  have "ob_good cfg s (s\<lparr>calls := n, ob_rows := map ?f (ob_rows s)\<rparr>)" for n
  proof (rule rows_good [OF i])
    show "distinct (map ob_id (ob_rows (s\<lparr>calls := n, ob_rows := map ?f (ob_rows s)\<rparr>)))"
    proof -
      have rows: "ob_rows (s\<lparr>calls := n, ob_rows := map ?f (ob_rows s)\<rparr>) = map ?f (ob_rows s)" by simp
      show ?thesis unfolding rows ids using i by (simp add: ob_inv_def)
    qed
    fix q assume "q \<in> set (ob_rows (s\<lparr>calls := n, ob_rows := map ?f (ob_rows s)\<rparr>))"
    then obtain r where r: "r \<in> set (ob_rows s)" "q = ?f r" by auto
    then have "row_ok cfg (snd ` set (ob_sent s)) r" "1 \<le> rc_attempts cfg" using i by (auto simp: ob_inv_def)
    then have "row_ok cfg (snd ` set (ob_sent s)) q" unfolding r(2) by (auto simp: row_ok_def)
    then show "\<exists>r \<in> set (ob_rows s). ob_id q = ob_id r \<and> row_ok cfg (snd ` set (ob_sent s)) q" using r by auto
  next
    fix r assume r: "r \<in> set (ob_rows s)"
    have "same_event r (?f r)" by (simp add: same_event_def)
    then show "(\<exists>q \<in> set (ob_rows (s\<lparr>calls := n, ob_rows := map ?f (ob_rows s)\<rparr>)). same_event r q) \<or> ob_uuid r \<in> snd ` set (ob_sent s)"
      using r by auto
  qed simp_all
  then show ?thesis using i by (simp add: ob_Retry_def wp_simps Let_def ob_good_refl)
qed

lemma maintain_good:
  assumes i: "ob_inv cfg s" shows "ob_good cfg s (relay_maintain cfg s)"
proof -
  let ?s1 = "s\<lparr>ob_reads := Suc (ob_reads s)\<rparr>"
  have r: "reads Backlog" unfolding Backlog_def by (intro reads_intros)
  obtain x t where b: "Backlog ?s1 = (x, t)" by (rule prod.exhaust)
  obtain n where t: "t = ?s1\<lparr>calls := n\<rparr>" using readsD [OF r b] by (auto simp: unchanged_def)
  have it: "ob_inv cfg t" "ob_kept s t" using i by (simp_all add: t ob_kept_refl)
  have "ob_good cfg t (snd (PruneBefore c t))" for c
    using wp_snd [OF Prune_good [OF it(1), of c]] .
  then have "ob_good cfg s (snd (PruneBefore c t))" for c
    using ob_kept_trans [OF it(2)] by (auto simp: ob_good_def)
  then show ?thesis using b it by (simp add: relay_maintain_def Let_def ob_good_def split: sum.split)
qed

lemma ob_run_good:
  assumes i: "ob_inv cfg s" shows "ob_good cfg s (snd (ob_run us ts enc dec topic cfg x s))"
proof (cases x)
  case (ObRecord requestID es)
  have "wp (within_tx (ob_Record us ts enc requestID es)) (\<lambda>_. ob_good cfg s) (\<lambda>_. ob_good cfg s) s"
    unfolding wp_within_tx by (rule wp_mono [OF ob_Record_good [of cfg s]]) (use i in \<open>simp_all add: ob_good_refl, simp add: ob_good_def ob_kept_refl\<close>)
  then show ?thesis unfolding ObRecord ob_run.simps by (rule wp_snd)
next
  case (ObDrain cancelled locked fuel)
  then show ?thesis using drain_keeps [OF i, of dec topic cancelled locked fuel 0 0] i
    by (auto simp: ob_good_def ob_kept_refl split: option.splits prod.splits)
next
  case (ObPrune cutoff)
  have "wp (drop_result (PruneBefore cutoff)) (\<lambda>_. ob_good cfg s) (\<lambda>_. ob_good cfg s) s"
    unfolding wp_drop_result by (rule Prune_good [OF i])
  then show ?thesis unfolding ObPrune ob_run.simps by (rule wp_snd)
next
  case (ObRetry now)
  have "wp (drop_result (ob_Retry now)) (\<lambda>_. ob_good cfg s) (\<lambda>_. ob_good cfg s) s"
    unfolding wp_drop_result by (rule Retry_good [OF i])
  then show ?thesis unfolding ObRetry ob_run.simps by (rule wp_snd)
qed (simp add: maintain_good [OF i])

interpretation outbox: evolving_service "ob_run us ts enc dec topic cfg" "ob_inv cfg" ob_kept
  for us ts enc dec topic cfg
  by unfold_locales (use ob_run_good in \<open>auto simp: ob_good_def intro: ob_kept_refl ob_kept_trans\<close>)

section \<open>Draining ends\<close>







section \<open>Properties\<close>

definition demo_row :: "nat \<Rightarrow> uuid \<Rightarrow> outbox_row" where
  "demo_row i u = \<lparr>ob_id = i, ob_uuid = u, ob_topic = ''post.created'', ob_aggregate = ''post'', ob_aggregate_id = Some 1,
     ob_payload = ''{}'', ob_headers = ''{}'', ob_occurred = 0, ob_next = 0, ob_attempts = 0, ob_error = None,
     ob_published = None, ob_failed = None\<rparr>"

definition demo_outbox :: ob_store where
  "demo_outbox = \<lparr>calls = 0, fails = (\<lambda>_. False), ob_rows = [demo_row 0 10, demo_row 1 11, demo_row 2 12], ob_seq = 3,
     ob_broker = (\<lambda>n. if n = 1 then Some ''down'' else None), ob_publishes = 0, ob_sent = [], ob_clock = (\<lambda>_. 5), ob_reads = 0\<rparr>"

definition demo_cfg :: relay_config where
  "demo_cfg = \<lparr>rc_batch = 2, rc_poll = 1, rc_attempts = 3, rc_base = 10, rc_max = 100, rc_retention = 7, rc_stats = 1\<rparr>"

lemma demo_outbox_inv: "ob_inv demo_cfg demo_outbox"
  by (simp add: ob_inv_def demo_outbox_def demo_row_def demo_cfg_def row_ok_def)

text \<open>
  C19. No event is lost. Whatever recordings, drains, prunings, retries and maintenance runs follow, and
  whatever fails in the store or the broker: every event of the table is still there with its topic,
  payload and headers, or was handed to the broker; a row marked published was handed to the broker; and
  a row is parked exactly when its publish attempts are used up.
\<close>

theorem outbox_no_event_lost:
  assumes "ob_inv cfg s"
  shows "ob_kept s (run_all (ob_run us ts enc dec topic cfg) ops s) \<and> ob_inv cfg (run_all (ob_run us ts enc dec topic cfg) ops s)"
  using outbox.runs_rel [OF assms] outbox.runs_inv [OF assms] by blast

theorem outbox_no_event_lost_witness:
  "ob_kept demo_outbox (run_all (ob_run (\<lambda>u. []) (\<lambda>t. []) (\<lambda>h. Some []) (\<lambda>h. Some []) (\<lambda>x. x) demo_cfg)
     [ObDrain (\<lambda>_. False) (\<lambda>_. {}) 9, ObPrune 100, ObRetry 6, ObMaintain] demo_outbox)"
  using outbox_no_event_lost [OF demo_outbox_inv] by blast

text \<open>
  A batch either fails, with every row as it was, or stores one outcome for each claimed row and
  leaves all others alone: published and handed to the broker, or one attempt more, due again after the
  backoff and parked at the last attempt. The claimed rows are due and not locked by another relay, and
  the broker gets the ones it accepts in the order of their due times and ids.
\<close>

theorem RelayBatch_effect:
  assumes "ob_inv cfg s"
  shows "relayed topic cfg now limit locked s (fst (RelayBatch dec topic cfg now limit locked s)) (snd (RelayBatch dec topic cfg now limit locked s)) \<and>
     (\<forall>r \<in> set (claim now limit locked (ob_rows s)). due now r \<and> ob_id r \<notin> locked) \<and>
     sorted (map (\<lambda>r. (ob_next r, ob_id r)) (claim now limit locked (ob_rows s)))"
proof -
  have d: "distinct (map ob_id (ob_rows s))" using assms by (simp add: ob_inv_def)
  have "sorted (map (\<lambda>r. (ob_next r, ob_id r)) (claim now limit locked (ob_rows s)))"
    unfolding claim_def take_map [symmetric] by (rule sorted_wrt_take) simp
  then show ?thesis using RelayBatch_relayed [OF d] claim_facts(3) [OF d] by blast
qed

theorem RelayBatch_effect_witness:
  "relayed (\<lambda>x. x) demo_cfg 5 2 {} demo_outbox (2, None) (snd (RelayBatch (\<lambda>h. Some []) (\<lambda>x. x) demo_cfg 5 2 {} demo_outbox))"
proof -
  have "fst (RelayBatch (\<lambda>h. Some []) (\<lambda>x. x) demo_cfg 5 2 {} demo_outbox) = (2, None)"
    by (simp add: RelayBatch_def run_eval claim_def due_def demo_outbox_def demo_row_def relay_publish_def storeOutcome_def
        read_clock_def)
  then show ?thesis using RelayBatch_effect [OF demo_outbox_inv, of "\<lambda>x. x" 5 2 "{}" "\<lambda>h. Some []"] by simp
qed



text \<open>
  C21. The backoff loop, computed in 64 bits, is the base delay doubled once per earlier attempt and capped
  at the ceiling, for any base that is positive and any ceiling up to \<open>2\<^sup>62\<close> nanoseconds; with the default
  limits it always lies between the base and the ceiling.
\<close>

theorem Backoff_doubles:
  assumes "0 < base" "ceiling \<le> 2 ^ 62"
  shows "Backoff attempt base ceiling = min (base * 2 ^ nat (attempt - 1)) ceiling \<and>
     (base \<le> ceiling \<longrightarrow> base \<le> Backoff attempt base ceiling \<and> Backoff attempt base ceiling \<le> ceiling)"
  using backoff_loop_min [OF assms, of 1 attempt] Backoff_bounds assms by (simp add: Backoff_def)

theorem Backoff_doubles_witness: "Backoff 4 1000 600000 = 8000"
  using Backoff_doubles [of 1000 600000 4] by simp

end
