(* ===== verification/Post_Domain.thy ===== *)
theory Post_Domain
  imports Tag_Service
begin

text \<open>
  Posts: the entity and its status transitions (\<^verbatim>\<open>internal/core/post/domain/post.go\<close>), the snapshots,
  diffs and changelogs of its revisions (\<^verbatim>\<open>internal/core/post/domain/revision.go\<close>), the SEO record
  (\<^verbatim>\<open>internal/core/post/domain/seo.go\<close>), and the slugs of drafts (\<^verbatim>\<open>internal/core/post/service/lifecycle.go\<close>).
  JSON texts (the SEO snapshot, the diff) are the values they encode.
\<close>

section \<open>Posts and transitions\<close>

datatype post_status = StatusDraft | StatusScheduled | StatusPublished | StatusArchived

datatype transition = TransitionPublish | TransitionUnpublish | TransitionArchive

datatype post_error =
    PoNotFound
  | PoRevisionNotFound
  | PoValidation string
  | PoConflict
  | PoStaleVersion
  | PoInvalidTransition
  | PoUnknownReference
  | PoTag tag_error

definition policy_Valid :: "string \<Rightarrow> bool" where
  "policy_Valid p \<longleftrightarrow> p \<in> {''open'', ''authenticated'', ''read_only'', ''disabled''}"

definition post_transitions :: "transition \<Rightarrow> post_status list \<times> post_status" where
  "post_transitions t =
     (case t of
        TransitionPublish \<Rightarrow> ([StatusDraft, StatusScheduled, StatusArchived], StatusPublished)
      | TransitionUnpublish \<Rightarrow> ([StatusPublished, StatusScheduled], StatusDraft)
      | TransitionArchive \<Rightarrow> ([StatusDraft, StatusScheduled, StatusPublished], StatusArchived))"

definition Next :: "transition \<Rightarrow> post_status \<Rightarrow> post_error + post_status" where
  "Next t st = (if st \<in> set (fst (post_transitions t)) then Inr (snd (post_transitions t)) else Inl PoInvalidTransition)"

record post =
  po_uuid :: uuid
  po_author :: uuid
  po_category :: "uuid option"
  po_title :: string
  po_slug :: string
  po_excerpt :: string
  po_content :: string
  po_cover :: "uuid option"
  po_status :: post_status
  po_policy :: string
  po_version :: int
  po_published :: "instant option"
  po_created :: instant
  po_updated :: instant
  po_deleted :: "instant option"

section \<open>Slugs\<close>

definition MaxSlugLength :: nat where "MaxSlugLength = 255"

text \<open>\<^verbatim>\<open>strings.TrimRight(s, "-")\<close>.\<close>

definition trim_dashes :: "string \<Rightarrow> string" where
  "trim_dashes s = rev (dropWhile (\<lambda>c. c = dash) (rev s))"

definition withSuffix :: "string \<Rightarrow> int \<Rightarrow> string" where
  "withSuffix base n =
     (let suffix = dash # format_int n in
      (if length base + length suffix > MaxSlugLength
       then trim_dashes (take (MaxSlugLength - length suffix) base) else base) @ suffix)"

definition draftSlug :: "(nat \<Rightarrow> nat) \<Rightarrow> string \<Rightarrow> string \<Rightarrow> post_error + string" where
  "draftSlug lo title raw =
     (let given = trim_space (to_lower lo raw);
          derived = slugify lo title;
          g = (if given = [] then (if length derived > MaxSlugLength then trim_dashes (take MaxSlugLength derived) else derived)
               else given)
      in if g = [] then Inl (PoValidation ''slug required when the title has no letters or digits'')
         else if length g > MaxSlugLength \<or> \<not> slugPattern g then Inl (PoValidation ''invalid slug'')
         else Inr g)"

text \<open>
  The loop of \<open>freeSlug\<close> from the suffix \<open>n\<close>; every candidate is a new text, so one more round than there
  are taken slugs is enough.
\<close>

fun free_loop :: "nat \<Rightarrow> string list \<Rightarrow> string \<Rightarrow> int \<Rightarrow> string option" where
  "free_loop 0 taken base n = None"
| "free_loop (Suc fuel) taken base n =
     (if withSuffix base n \<in> set taken then free_loop fuel taken base (n + 1) else Some (withSuffix base n))"

section \<open>SEO\<close>

record seo =
  seo_title :: string
  seo_description :: string
  seo_keywords :: "string list"
  og_title :: string
  og_description :: string
  og_image :: "uuid option"
  og_url :: string
  twitter_card :: string
  twitter_title :: string
  twitter_description :: string
  twitter_image :: "uuid option"
  twitter_creator :: string
  canonical_url :: string
  robots_noindex :: bool
  robots_nofollow :: bool

definition no_seo :: seo where
  "no_seo = \<lparr>seo_title = [], seo_description = [], seo_keywords = [], og_title = [], og_description = [], og_image = None,
     og_url = [], twitter_card = [], twitter_title = [], twitter_description = [], twitter_image = None,
     twitter_creator = [], canonical_url = [], robots_noindex = False, robots_nofollow = False\<rparr>"

datatype seo_val = SText string | STexts "string list" | SRef uuid | SFlag

text \<open>The JSON object of \<open>EncodeSEO\<close>: the fields that are set, in the order of their keys.\<close>

definition seo_object :: "seo \<Rightarrow> (string \<times> seo_val) list" where
  "seo_object e =
     (let text = (\<lambda>k v. if v = [] then [] else [(k, SText v)]);
          ref = (\<lambda>k r. case r of None \<Rightarrow> [] | Some u \<Rightarrow> [(k, SRef u)]);
          flag = (\<lambda>k b. if b then [(k, SFlag)] else [])
      in text ''canonical_url'' (canonical_url e) @ text ''og_description'' (og_description e) @
         ref ''og_image_id'' (og_image e) @ text ''og_title'' (og_title e) @ text ''og_url'' (og_url e) @
         flag ''robots_nofollow'' (robots_nofollow e) @ flag ''robots_noindex'' (robots_noindex e) @
         text ''seo_description'' (seo_description e) @
         (if seo_keywords e = [] then [] else [(''seo_keywords'', STexts (seo_keywords e))]) @
         text ''seo_title'' (seo_title e) @ text ''twitter_card'' (twitter_card e) @
         text ''twitter_creator'' (twitter_creator e) @ text ''twitter_description'' (twitter_description e) @
         ref ''twitter_image_id'' (twitter_image e) @ text ''twitter_title'' (twitter_title e))"

definition changedKeys :: "(string \<times> 'v) list \<Rightarrow> (string \<times> 'v) list \<Rightarrow> string list" where
  "changedKeys before after =
     sort ([k. (k, v) \<leftarrow> after, map_of before k \<noteq> Some v] @ [k. (k, v) \<leftarrow> before, map_of after k = None])"

section \<open>Revisions\<close>

datatype revision_type =
    RevisionCreate | RevisionUpdate | RevisionPublish | RevisionUnpublish | RevisionArchive
  | RevisionDelete | RevisionUndelete | RevisionRestore

datatype field =
    FieldTitle | FieldSlug | FieldExcerpt | FieldContent | FieldStatus | FieldCommentPolicy | FieldCategory
  | FieldCoverImage | FieldTags | FieldMedia | FieldSEO

definition fieldLabels :: "field \<Rightarrow> string" where
  "fieldLabels f =
     (case f of FieldTitle \<Rightarrow> ''title'' | FieldSlug \<Rightarrow> ''slug'' | FieldExcerpt \<Rightarrow> ''excerpt'' | FieldContent \<Rightarrow> ''content''
      | FieldStatus \<Rightarrow> ''status'' | FieldCommentPolicy \<Rightarrow> ''comment policy'' | FieldCategory \<Rightarrow> ''category''
      | FieldCoverImage \<Rightarrow> ''cover image'' | FieldTags \<Rightarrow> ''tags'' | FieldMedia \<Rightarrow> ''media'' | FieldSEO \<Rightarrow> ''SEO'')"

record media_item =
  mi_asset :: uuid
  mi_kind :: string
  mi_sort :: int

record rev_snapshot =
  sn_title :: string
  sn_slug :: string
  sn_excerpt :: string
  sn_content :: string
  sn_status :: post_status
  sn_policy :: string
  sn_category :: "uuid option"
  sn_cover :: "uuid option"
  sn_tags :: "(uuid \<times> string) list"
  sn_media :: "media_item list"
  sn_seo :: seo

definition SnapshotOf :: "post \<Rightarrow> (uuid \<times> string) list \<Rightarrow> media_item list \<Rightarrow> seo \<Rightarrow> rev_snapshot" where
  "SnapshotOf p tags media e =
     \<lparr>sn_title = po_title p, sn_slug = po_slug p, sn_excerpt = po_excerpt p, sn_content = po_content p,
      sn_status = po_status p, sn_policy = po_policy p, sn_category = po_category p, sn_cover = po_cover p,
      sn_tags = tags, sn_media = media, sn_seo = e\<rparr>"

datatype scalar = VText string | VStatus post_status | VRef "uuid option"

datatype field_change =
    FromTo scalar scalar
  | Lengths nat nat
  | TagsChanged "string list" "string list"
  | MediaChanged "media_item list" "media_item list"
  | Reordered
  | SeoChanged "(string \<times> seo_val option \<times> seo_val option) list"

definition tagChange :: "(uuid \<times> string) list \<Rightarrow> (uuid \<times> string) list \<Rightarrow> field_change option" where
  "tagChange prev next =
     (let added = [nm. (u, nm) \<leftarrow> next, u \<notin> fst ` set prev];
          removed = [nm. (u, nm) \<leftarrow> prev, u \<notin> fst ` set next]
      in if added = [] \<and> removed = [] then None else Some (TagsChanged added removed))"

definition mediaChange :: "media_item list \<Rightarrow> media_item list \<Rightarrow> field_change option" where
  "mediaChange prev next =
     (let key = (\<lambda>m. (mi_asset m, mi_kind m));
          added = filter (\<lambda>m. key m \<notin> key ` set prev) next;
          removed = filter (\<lambda>m. key m \<notin> key ` set next) prev
      in if added \<noteq> [] \<or> removed \<noteq> [] then Some (MediaChanged added removed)
         else if prev \<noteq> next then Some Reordered
         else None)"

definition seoChange :: "seo \<Rightarrow> seo \<Rightarrow> field_change option" where
  "seoChange prev next =
     (let before = seo_object prev; after = seo_object next in
      if before = after then None
      else let change = map (\<lambda>k. (k, map_of before k, map_of after k)) (changedKeys before after)
           in if change = [] then None else Some (SeoChanged change))"

text \<open>The changed fields in display order, with their changes.\<close>

definition DiffSnapshots :: "rev_snapshot \<Rightarrow> rev_snapshot \<Rightarrow> (field \<times> field_change) list" where
  "DiffSnapshots prev next =
     (let scalar = (\<lambda>f v. if v prev = v next then [] else [(f, FromTo (v prev) (v next))]);
          part = (\<lambda>f c. case c of None \<Rightarrow> [] | Some x \<Rightarrow> [(f, x)])
      in scalar FieldTitle (\<lambda>n. VText (sn_title n)) @ scalar FieldSlug (\<lambda>n. VText (sn_slug n)) @
         scalar FieldExcerpt (\<lambda>n. VText (sn_excerpt n)) @
         (if sn_content prev = sn_content next then []
          else [(FieldContent, Lengths (length (sn_content prev)) (length (sn_content next)))]) @
         scalar FieldStatus (\<lambda>n. VStatus (sn_status n)) @ scalar FieldCommentPolicy (\<lambda>n. VText (sn_policy n)) @
         scalar FieldCategory (\<lambda>n. VRef (sn_category n)) @ scalar FieldCoverImage (\<lambda>n. VRef (sn_cover n)) @
         part FieldTags (tagChange (sn_tags prev) (sn_tags next)) @
         part FieldMedia (mediaChange (sn_media prev) (sn_media next)) @
         part FieldSEO (seoChange (sn_seo prev) (sn_seo next)))"

fun strings_join :: "string \<Rightarrow> string list \<Rightarrow> string" where
  "strings_join sep [] = []"
| "strings_join sep [x] = x"
| "strings_join sep (x # y # xs) = x @ sep @ strings_join sep (y # xs)"

text \<open>It is only called with labels; with none, the Go slice expression would panic.\<close>

definition joinLabels :: "string list \<Rightarrow> string" where
  "joinLabels labels =
     (if length labels = 1 then hd labels
      else strings_join '', '' (butlast labels) @ '' and '' @ last labels)"

definition lead :: "revision_type \<Rightarrow> string" where
  "lead typ =
     (case typ of RevisionCreate \<Rightarrow> ''Created post'' | RevisionPublish \<Rightarrow> ''Published'' | RevisionUnpublish \<Rightarrow> ''Unpublished''
      | RevisionArchive \<Rightarrow> ''Archived'' | RevisionDelete \<Rightarrow> ''Moved to trash'' | RevisionUndelete \<Rightarrow> ''Restored from trash''
      | RevisionRestore \<Rightarrow> ''Restored revision'' | RevisionUpdate \<Rightarrow> ''Updated'')"

definition Changelog :: "revision_type \<Rightarrow> field list \<Rightarrow> int option \<Rightarrow> string" where
  "Changelog typ fs restoredFrom =
     (let labels = map fieldLabels (filter (\<lambda>f. \<not> (typ \<noteq> RevisionUpdate \<and> f = FieldStatus)) fs);
          ld = (case restoredFrom of
                  Some n \<Rightarrow> if typ = RevisionRestore then ''Restored revision '' @ format_int n else lead typ
                | None \<Rightarrow> lead typ)
      in if typ = RevisionCreate then ld
         else if typ = RevisionUpdate \<and> labels = [] then ''Saved without changes''
         else if typ = RevisionUpdate then ld @ '' '' @ joinLabels labels
         else if labels = [] then ld
         else ld @ ''; changed '' @ joinLabels labels)"

record revision =
  rv_uuid :: uuid
  rv_post :: uuid
  rv_number :: int
  rv_type :: revision_type
  rv_snapshot :: rev_snapshot
  rv_diff :: "(field \<times> field_change) list"
  rv_changelog :: string
  rv_note :: string
  rv_author :: "uuid option"
  rv_from :: "(uuid \<times> int) option"
  rv_request :: string
  rv_created :: instant

datatype revision_ref = ByUUID uuid | ByNumber int

text \<open>\<open>parse\<close> stands for \<open>uuid.Parse\<close>; \<open>strconv.Atoi\<close> reads 64-bit integers.\<close>

definition ParseRevisionRef :: "(string \<Rightarrow> uuid option) \<Rightarrow> string \<Rightarrow> post_error + revision_ref" where
  "ParseRevisionRef parse raw =
     (let t = trim_space raw in
      case parse t of
        Some u \<Rightarrow> Inr (ByUUID u)
      | None \<Rightarrow>
          (case parse_int t of
             None \<Rightarrow> Inl (PoValidation ''revision must be a UUID or a positive number'')
           | Some n \<Rightarrow> if n < 1 \<or> format_int n \<noteq> t
                       then Inl (PoValidation ''revision must be a UUID or a positive number'')
                       else Inr (ByNumber n)))"

end
