(* ===== verification/Post_Repository.thy ===== *)
theory Post_Repository
  imports Post_Domain
begin

text \<open>
  The state of the post service and its repositories: \<^verbatim>\<open>post_repository.go\<close>,
  \<^verbatim>\<open>post_revision_repository.go\<close>, \<^verbatim>\<open>post_seo_repository.go\<close> and \<^verbatim>\<open>post_media_repository.go\<close> of
  \<^verbatim>\<open>internal/adapters/outbound/persistence\<close>. The tags of a post are those of the tag service, whose
  operations run on the tag tables of this state (\<open>with_tags\<close>).
\<close>

section \<open>State\<close>

record asset =
  as_uuid :: uuid
  as_status :: string
  as_deleted :: bool

record post_payload =
  pp_post :: uuid
  pp_author :: uuid
  pp_status :: post_status
  pp_slug :: string
  pp_category :: "uuid option"
  pp_version :: int
  pp_published :: "instant option"

record revision_payload =
  rp_post :: uuid
  rp_revision :: uuid
  rp_number :: int
  rp_type :: revision_type
  rp_author :: "uuid option"
  rp_from :: "uuid option"
  rp_fields :: "field list"

datatype post_event =
    PostEvent string "uuid option" instant post_payload
  | PostRevisionCreated instant revision_payload
  | PostRevisionRestored uuid uuid uuid "uuid option" instant

record post_store = store +
  ps_posts :: "post list"
  ps_users :: "uuid list"
  ps_categories :: "uuid list"
  ps_assets :: "asset list"
  ps_tag_rows :: "tag list"
  ps_tag_links :: "(uuid \<times> uuid) list"
  ps_attached :: "(uuid \<times> media_item) list"
  ps_seo :: "(uuid \<times> seo) list"
  ps_revisions :: "revision list"
  ps_events :: "post_event list"
  ps_invalidated :: "family list"
  ps_notices :: "(uuid \<times> uuid option) list"

type_synonym 'a post_comp = "(post_store, post_error, 'a) comp"

text \<open>
  What a request brings along: whether media are enabled, the editor of its context, the clock and the
  ids as they are read one after the other, those of the tag service, the database's collation, and the
  lower case of runes outside ASCII.
\<close>

record post_env =
  pe_media :: bool
  pe_user :: "uuid option"
  pe_request :: string
  pe_clock :: "nat \<Rightarrow> instant"
  pe_ids :: "nat \<Rightarrow> uuid"
  pe_tag_clock :: "nat \<Rightarrow> instant"
  pe_tag_ids :: "nat \<Rightarrow> uuid"
  pe_coll :: "string \<Rightarrow> nat"
  pe_lower :: "nat \<Rightarrow> nat"

text \<open>A transaction; what was invalidated in the cache meanwhile stays so.\<close>

definition post_tx :: "'a post_comp \<Rightarrow> 'a post_comp" where
  "post_tx m s =
     (case m s of
        (Inl e, t) \<Rightarrow> (Inl e, s\<lparr>ps_invalidated := ps_invalidated t, calls := calls t\<rparr>)
      | (Inr x, t) \<Rightarrow> (Inr x, t))"

definition tag_view :: "post_store \<Rightarrow> tag_store" where
  "tag_view s = \<lparr>calls = calls s, fails = fails s, tag_rows = ps_tag_rows s, tag_links = ps_tag_links s,
     tag_posts = map po_uuid (ps_posts s), tag_invalidated = ps_invalidated s\<rparr>"

definition with_tags :: "'a tag_comp \<Rightarrow> 'a post_comp" where
  "with_tags m s =
     (case m (tag_view s) of
        (r, t) \<Rightarrow> (map_sum (map_failure PoTag) (\<lambda>x. x) r,
                   s\<lparr>ps_tag_rows := tag_rows t, ps_tag_links := tag_links t,
                     ps_invalidated := tag_invalidated t, calls := calls t\<rparr>))"

section \<open>Repositories\<close>

subsection \<open>Posts\<close>

definition commentPolicyOrOpen :: "string \<Rightarrow> string" where
  "commentPolicyOrOpen p = (if p = [] then ''open'' else p)"

definition mapPost :: "post \<Rightarrow> post" where
  "mapPost r = r\<lparr>po_policy := commentPolicyOrOpen (po_policy r)\<rparr>"

definition po_live :: "post \<Rightarrow> bool" where
  "po_live p \<longleftrightarrow> po_deleted p = None"

definition po_one :: "(post \<Rightarrow> bool) \<Rightarrow> post post_comp" where
  "po_one P = db_call (\<lambda>s. case find P (ps_posts s) of
                             None \<Rightarrow> (Inl (Err PoNotFound), s)
                           | Some r \<Rightarrow> (Inr (mapPost r), s))"

definition po_get :: "uuid \<Rightarrow> post post_comp" where
  "po_get u = po_one (\<lambda>r. po_uuid r = u \<and> po_live r)"

definition po_get_deleted :: "uuid \<Rightarrow> post post_comp" where
  "po_get_deleted u = po_one (\<lambda>r. po_uuid r = u \<and> \<not> po_live r)"

definition po_get_published :: "string \<Rightarrow> post post_comp" where
  "po_get_published g = po_one (\<lambda>r. po_slug r = g \<and> po_status r = StatusPublished \<and> po_live r)"

text \<open>\<open>idByUUID\<close> with the error of an unknown reference, and \<open>optionalIDByUUID\<close>.\<close>

definition po_known :: "(post_store \<Rightarrow> uuid list) \<Rightarrow> uuid \<Rightarrow> post_error \<Rightarrow> unit post_comp" where
  "po_known known u e = db_call (\<lambda>s. if u \<in> set (known s) then (Inr (), s) else (Inl (Err e), s))"

definition po_ref :: "(post_store \<Rightarrow> uuid list) \<Rightarrow> uuid option \<Rightarrow> string \<Rightarrow> unit post_comp" where
  "po_ref known r field =
     (case r of None \<Rightarrow> ret () | Some u \<Rightarrow> po_known known u (PoValidation (field @ '' not found'')))"

definition asset_ids :: "post_store \<Rightarrow> uuid list" where
  "asset_ids s = map as_uuid (ps_assets s)"

definition post_ids :: "post_store \<Rightarrow> uuid list" where
  "post_ids s = map po_uuid (ps_posts s)"

text \<open>The unique index over the slugs of live posts.\<close>

definition slug_held :: "string \<Rightarrow> uuid \<Rightarrow> post list \<Rightarrow> bool" where
  "slug_held g u rows \<longleftrightarrow> list_ex (\<lambda>r. po_uuid r \<noteq> u \<and> po_live r \<and> po_slug r = g) rows"

text \<open>Ids are 64-bit and never used again, so a table with \<open>2\<^sup>6\<^sup>3 - 1\<close> rows takes no more.\<close>

definition max_rows :: nat where "max_rows = 2 ^ 63 - 1"

definition po_create :: "post \<Rightarrow> post post_comp" where
  "po_create p =
     andthen (po_known ps_users (po_author p) PoUnknownReference) (\<lambda>_.
     andthen (po_ref ps_categories (po_category p) ''category_id'') (\<lambda>_.
     andthen (po_ref asset_ids (po_cover p) ''cover_image_media_id'') (\<lambda>_.
     db_call (\<lambda>s.
       if max_rows \<le> length (ps_posts s) then (Inl StoreFail, s)
       else if po_uuid p \<in> set (post_ids s) \<or> slug_held (po_slug p) (po_uuid p) (ps_posts s)
       then (Inl (Err PoConflict), s)
       else let r = p\<lparr>po_deleted := None\<rparr> in (Inr (mapPost r), s\<lparr>ps_posts := ps_posts s @ [r]\<rparr>)))))"

text \<open>An update guarded by the version: the rows it matches, and the row it writes.\<close>

definition at_version :: "post \<Rightarrow> post \<Rightarrow> bool" where
  "at_version p r \<longleftrightarrow> po_uuid r = po_uuid p \<and> po_version r = po_version p - 1"

definition po_put :: "post \<Rightarrow> post \<Rightarrow> post" where
  "po_put p r =
     r\<lparr>po_title := po_title p, po_slug := po_slug p, po_content := po_content p, po_status := po_status p,
       po_policy := commentPolicyOrOpen (po_policy p), po_version := po_version p, po_published := po_published p,
       po_updated := po_updated p, po_category := po_category p, po_cover := po_cover p, po_excerpt := po_excerpt p\<rparr>"

definition po_write :: "(post \<Rightarrow> bool) \<Rightarrow> (post \<Rightarrow> post) \<Rightarrow> string \<Rightarrow> uuid \<Rightarrow> bool post_comp" where
  "po_write P f g u = db_call (\<lambda>s.
     if \<not> list_ex P (ps_posts s) then (Inr False, s)
     else if slug_held g u (ps_posts s) then (Inl (Err PoConflict), s)
     else (Inr True, s\<lparr>ps_posts := map (\<lambda>r. if P r then f r else r) (ps_posts s)\<rparr>))"

definition po_update :: "post \<Rightarrow> post post_comp" where
  "po_update p =
     andthen (po_ref ps_categories (po_category p) ''category_id'') (\<lambda>_.
     andthen (po_ref asset_ids (po_cover p) ''cover_image_media_id'') (\<lambda>_.
     andthen (po_write (\<lambda>r. at_version p r \<and> po_live r) (po_put p) (po_slug p) (po_uuid p)) (\<lambda>hit.
     if \<not> hit then andthen (po_get (po_uuid p)) (\<lambda>_. throw PoStaleVersion)
     else po_get (po_uuid p))))"

definition po_soft_delete :: "post \<Rightarrow> unit post_comp" where
  "po_soft_delete p =
     andthen (db_call (\<lambda>s.
       if \<not> list_ex (\<lambda>r. at_version p r \<and> po_live r) (ps_posts s) then (Inr False, s)
       else (Inr True, s\<lparr>ps_posts := map (\<lambda>r. if at_version p r \<and> po_live r
          then r\<lparr>po_deleted := po_deleted p, po_updated := po_updated p, po_version := po_version p\<rparr> else r) (ps_posts s)\<rparr>))) (\<lambda>hit.
     if \<not> hit then andthen (po_get (po_uuid p)) (\<lambda>_. throw PoStaleVersion) else ret ())"

definition po_restore :: "post \<Rightarrow> post post_comp" where
  "po_restore p =
     andthen (po_write (\<lambda>r. at_version p r \<and> \<not> po_live r)
       (\<lambda>r. r\<lparr>po_deleted := None, po_slug := po_slug p, po_status := po_status p, po_published := po_published p,
              po_updated := po_updated p, po_version := po_version p\<rparr>) (po_slug p) (po_uuid p)) (\<lambda>hit.
     if \<not> hit then andthen (po_get_deleted (po_uuid p)) (\<lambda>_. throw PoStaleVersion)
     else po_get (po_uuid p))"

definition SlugsWithPrefix :: "string \<Rightarrow> string list post_comp" where
  "SlugsWithPrefix base = db_call (asks (\<lambda>s.
     filter (\<lambda>g. g = base \<or> take (length base + 1) g = base @ [dash]) (map po_slug (filter po_live (ps_posts s)))))"

definition SlugTaken :: "string \<Rightarrow> uuid \<Rightarrow> bool post_comp" where
  "SlugTaken g u = db_call (asks (\<lambda>s. slug_held g u (ps_posts s)))"

definition SetCoverImage :: "uuid \<Rightarrow> uuid option \<Rightarrow> instant \<Rightarrow> unit post_comp" where
  "SetCoverImage u cover at =
     andthen (po_ref asset_ids cover ''cover_image_media_id'') (\<lambda>_.
     db_call (\<lambda>s.
       if \<not> list_ex (\<lambda>r. po_uuid r = u \<and> po_live r) (ps_posts s) then (Inl (Err PoNotFound), s)
       else (Inr (), s\<lparr>ps_posts := map (\<lambda>r. if po_uuid r = u \<and> po_live r
          then r\<lparr>po_cover := cover, po_updated := at\<rparr> else r) (ps_posts s)\<rparr>)))"

subsection \<open>Revisions\<close>

definition rv_one :: "(revision \<Rightarrow> bool) \<Rightarrow> revision post_comp" where
  "rv_one P = db_call (\<lambda>s. case rev (sort_key rv_number (filter P (ps_revisions s))) of
                             [] \<Rightarrow> (Inl (Err PoRevisionNotFound), s)
                           | r # _ \<Rightarrow> (Inr r, s))"

definition Latest :: "uuid \<Rightarrow> revision post_comp" where
  "Latest u = rv_one (\<lambda>r. rv_post r = u)"

definition rv_get :: "uuid \<Rightarrow> revision_ref \<Rightarrow> revision post_comp" where
  "rv_get u ref =
     (case ref of
        ByUUID x \<Rightarrow> rv_one (\<lambda>r. rv_post r = u \<and> rv_uuid r = x)
      | ByNumber n \<Rightarrow> rv_one (\<lambda>r. rv_post r = u \<and> rv_number r = n))"

text \<open>An author or source that does not exist is stored as NULL.\<close>

definition rv_stored :: "post_store \<Rightarrow> revision \<Rightarrow> revision" where
  "rv_stored s r =
     r\<lparr>rv_author := (case rv_author r of Some u \<Rightarrow> if u \<in> set (ps_users s) then Some u else None | None \<Rightarrow> None),
       rv_from := (case rv_from r of
                     Some (u, n) \<Rightarrow> if u \<in> rv_uuid ` set (ps_revisions s) then Some (u, n) else None
                   | None \<Rightarrow> None)\<rparr>"

definition rv_create :: "revision \<Rightarrow> revision post_comp" where
  "rv_create r = db_call (\<lambda>s.
     if rv_post r \<notin> set (post_ids s) then (Inl StoreFail, s)
     else if list_ex (\<lambda>q. rv_uuid q = rv_uuid r \<or> rv_post q = rv_post r \<and> rv_number q = rv_number r) (ps_revisions s)
     then (Inl (Err PoStaleVersion), s)
     else (Inr r, s\<lparr>ps_revisions := ps_revisions s @ [rv_stored s r]\<rparr>))"

text \<open>The rank of a revision among those of its post, newest first, from 1.\<close>

definition rv_rank :: "revision list \<Rightarrow> revision \<Rightarrow> nat" where
  "rv_rank rs r = length (filter (\<lambda>q. rv_post q = rv_post r \<and> rv_number r \<le> rv_number q) rs)"

definition unsourced :: "uuid set \<Rightarrow> revision \<Rightarrow> revision" where
  "unsourced gone r =
     (case rv_from r of Some (u, n) \<Rightarrow> if u \<in> gone then r\<lparr>rv_from := None\<rparr> else r | None \<Rightarrow> r)"

definition rv_Prune :: "int \<Rightarrow> nat post_comp" where
  "rv_Prune keep =
     (if keep < 1 then throw (PoValidation ''prune post revisions: keep must be at least 1'')
      else db_call (\<lambda>s.
        let old = filter (\<lambda>r. int (rv_rank (ps_revisions s) r) > keep) (ps_revisions s) in
        (Inr (length old),
         s\<lparr>ps_revisions := map (unsourced (rv_uuid ` set old))
            (filter (\<lambda>r. \<not> int (rv_rank (ps_revisions s) r) > keep) (ps_revisions s))\<rparr>)))"

record references =
  rf_categories :: "uuid list"
  rf_tags :: "uuid list"
  rf_media :: "uuid list"

definition lookup_ids :: "(post_store \<Rightarrow> uuid list) \<Rightarrow> uuid list \<Rightarrow> uuid list post_comp" where
  "lookup_ids known ids =
     (if ids = [] then ret [] else db_call (asks (\<lambda>s. filter (\<lambda>u. u \<in> set ids) (known s))))"

definition ready_ids :: "post_store \<Rightarrow> uuid list" where
  "ready_ids s = map as_uuid (filter (\<lambda>a. as_status a = ''ready'' \<and> \<not> as_deleted a) (ps_assets s))"

definition Existing :: "references \<Rightarrow> references post_comp" where
  "Existing refs =
     andthen (lookup_ids ps_categories (rf_categories refs)) (\<lambda>cs.
     andthen (lookup_ids (\<lambda>s. map tag_uuid (ps_tag_rows s)) (rf_tags refs)) (\<lambda>ts.
     andthen (lookup_ids ready_ids (rf_media refs)) (\<lambda>ms.
     ret \<lparr>rf_categories = cs, rf_tags = ts, rf_media = ms\<rparr>)))"

subsection \<open>Media attachments and SEO\<close>

fun assets_known :: "media_item list \<Rightarrow> unit post_comp" where
  "assets_known [] = ret ()"
| "assets_known (m # ms) = andthen (po_known asset_ids (mi_asset m) PoUnknownReference) (\<lambda>_. assets_known ms)"

definition ReplaceAll :: "uuid \<Rightarrow> media_item list \<Rightarrow> unit post_comp" where
  "ReplaceAll u items = post_tx (
     andthen (po_known post_ids u PoUnknownReference) (\<lambda>_.
     andthen (db_call (change (\<lambda>s. s\<lparr>ps_attached := filter (\<lambda>(p, m). p \<noteq> u) (ps_attached s)\<rparr>))) (\<lambda>_.
     if items = [] then ret ()
     else
     andthen (assets_known items) (\<lambda>_.
     db_call (\<lambda>s. if distinct (map (\<lambda>m. (mi_asset m, mi_kind m)) items)
                   then (Inr (), s\<lparr>ps_attached := ps_attached s @ map (Pair u) items\<rparr>)
                   else (Inl StoreFail, s))))))"

definition media_of_post :: "uuid \<Rightarrow> media_item list post_comp" where
  "media_of_post u = db_call (asks (\<lambda>s. sort_key mi_sort (map snd (filter (\<lambda>(p, m). p = u) (ps_attached s)))))"

definition seo_get :: "uuid \<Rightarrow> seo post_comp" where
  "seo_get u = db_call (asks (\<lambda>s. case map_of (ps_seo s) u of None \<Rightarrow> no_seo | Some e \<Rightarrow> e))"

definition seo_save :: "uuid \<Rightarrow> seo \<Rightarrow> unit post_comp" where
  "seo_save u e =
     andthen (po_known post_ids u PoNotFound) (\<lambda>_.
     andthen (po_ref asset_ids (og_image e) ''og_image_id'') (\<lambda>_.
     andthen (po_ref asset_ids (twitter_image e) ''twitter_image_id'') (\<lambda>_.
     db_call (change (\<lambda>s. s\<lparr>ps_seo := (u, e) # filter (\<lambda>(p, x). p \<noteq> u) (ps_seo s)\<rparr>)))))"

end
