(* ===== verification/Post_Service.thy ===== *)
theory Post_Service
  imports Post_Repository
begin

text \<open>
  The post service (\<^verbatim>\<open>internal/core/post/service\<close>: \<^verbatim>\<open>service.go\<close>, \<^verbatim>\<open>lifecycle.go\<close>, \<^verbatim>\<open>revisions.go\<close> and
  \<^verbatim>\<open>events.go\<close>) as \<^verbatim>\<open>internal/bootstrap/app.go\<close> wires it: with tags, events, revisions and SEO, and with media
  when they are enabled.
\<close>

section \<open>Revisions of writes\<close>

definition po_record :: "post_event \<Rightarrow> unit post_comp" where
  "po_record e = db_call (change (\<lambda>s. s\<lparr>ps_events := ps_events s @ [e]\<rparr>))"

definition po_invalidate :: "unit post_comp" where
  "po_invalidate = change (\<lambda>s. s\<lparr>ps_invalidated := ps_invalidated s @ [Posts]\<rparr>)"

definition postEvent :: "string \<Rightarrow> post \<Rightarrow> uuid option \<Rightarrow> instant \<Rightarrow> post_event" where
  "postEvent typ p actor at = PostEvent typ actor at
     \<lparr>pp_post = po_uuid p, pp_author = po_author p, pp_status = po_status p, pp_slug = po_slug p,
      pp_category = po_category p, pp_version = po_version p, pp_published = po_published p\<rparr>"

definition transitionEvent :: "post_status \<Rightarrow> string" where
  "transitionEvent st = (case st of StatusPublished \<Rightarrow> ''blog.post.published'' | StatusArchived \<Rightarrow> ''blog.post.archived''
                         | StatusDraft \<Rightarrow> ''blog.post.updated'' | StatusScheduled \<Rightarrow> ''blog.post.updated'')"

definition revisionCreatedEvent :: "revision \<Rightarrow> post_event" where
  "revisionCreatedEvent r = PostRevisionCreated (rv_created r)
     \<lparr>rp_post = rv_post r, rp_revision = rv_uuid r, rp_number = rv_number r, rp_type = rv_type r,
      rp_author = rv_author r, rp_from = map_option fst (rv_from r), rp_fields = map fst (rv_diff r)\<rparr>"

text \<open>It is only called for a restore, whose source is set.\<close>

definition revisionRestoredEvent :: "revision \<Rightarrow> post_event" where
  "revisionRestoredEvent r =
     PostRevisionRestored (rv_post r) (fst (the (rv_from r))) (rv_uuid r) (rv_author r) (rv_created r)"

definition revisionType :: "transition \<Rightarrow> revision_type" where
  "revisionType t = (case t of TransitionPublish \<Rightarrow> RevisionPublish | TransitionUnpublish \<Rightarrow> RevisionUnpublish
                     | TransitionArchive \<Rightarrow> RevisionArchive)"

definition post_snapshot :: "post_env \<Rightarrow> post \<Rightarrow> rev_snapshot post_comp" where
  "post_snapshot E p =
     andthen (with_tags (tags_of_post (pe_coll E) (po_uuid p))) (\<lambda>ts.
     andthen (if pe_media E then media_of_post (po_uuid p) else ret []) (\<lambda>ms.
     andthen (seo_get (po_uuid p)) (\<lambda>e.
     ret (SnapshotOf p (map (\<lambda>t. (tag_uuid t, tag_name t)) ts) ms e))))"

definition latest_opt :: "uuid \<Rightarrow> revision option post_comp" where
  "latest_opt u s =
     (case Latest u s of
        (Inl e, t) \<Rightarrow> if e = Err PoRevisionNotFound then (Inr None, t) else (Inl e, t)
      | (Inr r, t) \<Rightarrow> (Inr (Some r), t))"

definition new_revision ::
  "post_env \<Rightarrow> nat \<Rightarrow> post \<Rightarrow> revision_type \<Rightarrow> uuid option \<Rightarrow> (revision \<times> string) option \<Rightarrow> rev_snapshot \<Rightarrow> revision option \<Rightarrow> revision" where
  "new_revision E k p typ actor source snap prev =
     (let diff = (case prev of None \<Rightarrow> [] | Some r \<Rightarrow> DiffSnapshots (rv_snapshot r) snap);
          src = map_option (\<lambda>(r, note). (rv_uuid r, rv_number r)) source
      in \<lparr>rv_uuid = pe_ids E k, rv_post = po_uuid p, rv_number = (case prev of None \<Rightarrow> 1 | Some r \<Rightarrow> rv_number r + 1),
          rv_type = typ, rv_snapshot = snap, rv_diff = diff,
          rv_changelog = Changelog typ (map fst diff) (map_option snd src),
          rv_note = (case source of None \<Rightarrow> [] | Some (r, note) \<Rightarrow> note),
          rv_author = (case actor of None \<Rightarrow> pe_user E | Some u \<Rightarrow> Some u), rv_from = src,
          rv_request = pe_request E, rv_created = pe_clock E k\<rparr>)"

definition revise ::
  "post_env \<Rightarrow> nat \<Rightarrow> post \<Rightarrow> revision_type \<Rightarrow> uuid option \<Rightarrow> (revision \<times> string) option \<Rightarrow> revision post_comp" where
  "revise E k p typ actor source =
     andthen (post_snapshot E p) (\<lambda>snap.
     andthen (latest_opt (po_uuid p)) (\<lambda>prev.
     andthen (rv_create (new_revision E k p typ actor source snap prev)) (\<lambda>r.
     andthen (po_record (revisionCreatedEvent r)) (\<lambda>_.
     andthen (if source = None then ret () else po_record (revisionRestoredEvent r)) (\<lambda>_.
     ret r)))))"

section \<open>Slugs\<close>

definition freeSlug :: "string \<Rightarrow> string post_comp" where
  "freeSlug base =
     andthen (SlugsWithPrefix base) (\<lambda>taken.
     if base \<notin> set taken then ret base
     else case free_loop (Suc (length taken)) taken base 2 of
            None \<Rightarrow> raise NoReturn
          | Some g \<Rightarrow> ret g)"

definition isSlugConflict :: "post_error failure \<Rightarrow> bool" where
  "isSlugConflict e \<longleftrightarrow> e = Err PoConflict"

text \<open>The attempts of \<open>withFreeSlug\<close> that are left, and the error of the last one.\<close>

fun slug_attempts :: "nat \<Rightarrow> post_error failure \<Rightarrow> string \<Rightarrow> (string \<Rightarrow> post post_comp) \<Rightarrow> post post_comp" where
  "slug_attempts 0 e base write = raise e"
| "slug_attempts (Suc k) e base write =
     andthen (freeSlug base) (\<lambda>g s.
       case post_tx (write g) s of
         (Inl err, t) \<Rightarrow> if isSlugConflict err then slug_attempts k err base write t else (Inl err, t)
       | (Inr p, t) \<Rightarrow> (Inr p, t))"

definition withFreeSlug :: "string \<Rightarrow> (string \<Rightarrow> post post_comp) \<Rightarrow> post post_comp" where
  "withFreeSlug base write = slug_attempts 3 StoreFail base write"

section \<open>The life of a post\<close>

definition livePost :: "uuid \<Rightarrow> post post_comp" where
  "livePost u = andthen (po_get u) (\<lambda>p. if po_deleted p \<noteq> None then throw PoNotFound else ret p)"

definition moved_post :: "post \<Rightarrow> post_status \<Rightarrow> instant \<Rightarrow> post" where
  "moved_post p st now =
     p\<lparr>po_published := (case st of StatusPublished \<Rightarrow> Some now | StatusDraft \<Rightarrow> None | _ \<Rightarrow> po_published p),
       po_status := st, po_updated := now, po_version := po_version p + 1\<rparr>"

definition po_transition :: "post_env \<Rightarrow> uuid \<Rightarrow> transition \<Rightarrow> uuid option \<Rightarrow> post post_comp" where
  "po_transition E u tr actor =
     andthen (livePost u) (\<lambda>p.
     andthen (of_result (Next tr (po_status p))) (\<lambda>st.
     let now = pe_clock E 0 in
     andthen (post_tx (
       andthen (po_update (moved_post p st now)) (\<lambda>q.
       andthen (revise E 1 q (revisionType tr) actor None) (\<lambda>_.
       andthen (po_record (postEvent (transitionEvent st) q actor now)) (\<lambda>_.
       ret q))))) (\<lambda>q.
     andthen po_invalidate (\<lambda>_.
     andthen (if st = StatusPublished then change (\<lambda>s. s\<lparr>ps_notices := ps_notices s @ [(po_uuid q, actor)]\<rparr>) else ret ()) (\<lambda>_.
     ret q)))))"

definition po_Delete :: "post_env \<Rightarrow> uuid \<Rightarrow> unit post_comp" where
  "po_Delete E u =
     andthen (livePost u) (\<lambda>p.
     let now = pe_clock E 0;
         q = p\<lparr>po_deleted := Some now, po_updated := now, po_version := po_version p + 1\<rparr> in
     andthen (post_tx (
       andthen (po_soft_delete q) (\<lambda>_.
       andthen (revise E 1 q RevisionDelete None None) (\<lambda>_.
       ret ())))) (\<lambda>_.
     po_invalidate))"

definition po_Restore :: "post_env \<Rightarrow> uuid \<Rightarrow> post post_comp" where
  "po_Restore E u =
     andthen (po_get_deleted u) (\<lambda>p.
     let now = pe_clock E 0;
         q = p\<lparr>po_deleted := None, po_status := StatusDraft, po_published := None, po_updated := now,
               po_version := po_version p + 1\<rparr> in
     andthen (post_tx (
       andthen (withFreeSlug (po_slug q) (\<lambda>g. po_restore (q\<lparr>po_slug := g\<rparr>))) (\<lambda>r.
       andthen (revise E 1 r RevisionUndelete None None) (\<lambda>_.
       ret r)))) (\<lambda>r.
     andthen po_invalidate (\<lambda>_. ret r)))"

section \<open>Writing\<close>

definition storeDraft :: "post_env \<Rightarrow> post \<Rightarrow> string \<Rightarrow> uuid list option \<Rightarrow> post post_comp" where
  "storeDraft E p base tags = post_tx (
     andthen (withFreeSlug base (\<lambda>g. po_create (p\<lparr>po_slug := g\<rparr>))) (\<lambda>q.
     andthen (case tags of None \<Rightarrow> ret () | Some ids \<Rightarrow> with_tags (ReplacePostTags (po_uuid q) ids)) (\<lambda>_.
     andthen (revise E 1 q RevisionCreate (Some (po_author q)) None) (\<lambda>_.
     andthen (po_record (postEvent ''blog.post.created'' q (Some (po_author q)) (po_created q))) (\<lambda>_.
     ret q)))))"

definition resolveTags :: "post_env \<Rightarrow> string list option \<Rightarrow> tag list option post_comp" where
  "resolveTags E names =
     (case names of
        None \<Rightarrow> ret None
      | Some ns \<Rightarrow> andthen (with_tags (ResolveOrCreate (pe_lower E) (pe_tag_ids E) (pe_tag_clock E) ns)) (\<lambda>ts. ret (Some ts)))"

definition CreateDraft ::
  "post_env \<Rightarrow> uuid \<Rightarrow> string \<Rightarrow> string \<Rightarrow> string \<Rightarrow> string \<Rightarrow> uuid option \<Rightarrow> string list option
     \<Rightarrow> (post \<times> tag list) post_comp" where
  "CreateDraft E author title0 slug0 excerpt content category names =
     (let title = trim_space title0 in
      if title = [] then throw (PoValidation ''title required'')
      else
      andthen (of_result (draftSlug (pe_lower E) title slug0)) (\<lambda>base.
      andthen (resolveTags E names) (\<lambda>tags.
      let now = pe_clock E 0;
          p = \<lparr>po_uuid = pe_ids E 0, po_author = author, po_category = category, po_title = title, po_slug = [],
               po_excerpt = trim_space excerpt, po_content = content, po_cover = None, po_status = StatusDraft,
               po_policy = ''open'', po_version = 1, po_published = None, po_created = now, po_updated = now,
               po_deleted = None\<rparr> in
      andthen (storeDraft E p base (map_option (map tag_uuid) tags)) (\<lambda>q.
      case tags of
        Some ts \<Rightarrow> ret (q, ts)
      | None \<Rightarrow> andthen (with_tags (tags_of_post (pe_coll E) (po_uuid q))) (\<lambda>ts. ret (q, ts))))))"

definition editablePost :: "uuid \<Rightarrow> uuid \<Rightarrow> bool \<Rightarrow> post post_comp" where
  "editablePost u actor unrestricted =
     andthen (po_get u) (\<lambda>p.
     if po_deleted p \<noteq> None then throw PoNotFound
     else if \<not> unrestricted \<and> po_author p \<noteq> actor then throw PoNotFound
     else ret p)"

record update_input =
  ui_title :: "string option"
  ui_slug :: "string option"
  ui_excerpt :: "string option"
  ui_content :: "string option"
  ui_category :: "uuid option option"
  ui_tags :: "string list option"
  ui_policy :: "string option"

definition po_updatedSlug :: "(nat \<Rightarrow> nat) \<Rightarrow> post \<Rightarrow> string \<Rightarrow> string post_comp" where
  "po_updatedSlug lo p raw =
     (let g = trim_space (to_lower lo raw) in
      if g = [] then throw (PoValidation ''slug required'')
      else if \<not> slugPattern g then throw (PoValidation ''invalid slug'')
      else if g = po_slug p then ret g
      else andthen (SlugTaken g (po_uuid p)) (\<lambda>taken. if taken then throw PoConflict else ret g))"

definition po_applyUpdate :: "(nat \<Rightarrow> nat) \<Rightarrow> post \<Rightarrow> update_input \<Rightarrow> post post_comp" where
  "po_applyUpdate lo p i =
     andthen (case ui_title i of
                None \<Rightarrow> ret p
              | Some raw \<Rightarrow> if trim_space raw = [] then throw (PoValidation ''title required'')
                            else ret (p\<lparr>po_title := trim_space raw\<rparr>)) (\<lambda>p.
     andthen (case ui_slug i of
                None \<Rightarrow> ret p
              | Some raw \<Rightarrow> andthen (po_updatedSlug lo p raw) (\<lambda>g. ret (p\<lparr>po_slug := g\<rparr>))) (\<lambda>p.
     let p = (case ui_excerpt i of None \<Rightarrow> p | Some x \<Rightarrow> p\<lparr>po_excerpt := trim_space x\<rparr>);
         p = (case ui_content i of None \<Rightarrow> p | Some x \<Rightarrow> p\<lparr>po_content := x\<rparr>);
         p = (case ui_category i of None \<Rightarrow> p | Some c \<Rightarrow> p\<lparr>po_category := c\<rparr>) in
     case ui_policy i of
       None \<Rightarrow> ret p
     | Some x \<Rightarrow> if policy_Valid x then ret (p\<lparr>po_policy := x\<rparr>)
                 else throw (PoValidation ''comment_policy must be open, authenticated, read_only, or disabled'')))"

definition syncTags :: "post_env \<Rightarrow> uuid \<Rightarrow> tag list option \<Rightarrow> tag list post_comp" where
  "syncTags E u resolved =
     (case resolved of
        Some ts \<Rightarrow> andthen (with_tags (ReplacePostTags u (map tag_uuid ts))) (\<lambda>_. ret ts)
      | None \<Rightarrow> with_tags (tags_of_post (pe_coll E) u))"

definition storeUpdate :: "post_env \<Rightarrow> post \<Rightarrow> uuid \<Rightarrow> tag list option \<Rightarrow> (post \<times> tag list) post_comp" where
  "storeUpdate E p actor resolved = post_tx (
     andthen (po_update p) (\<lambda>q.
     andthen (syncTags E (po_uuid q) resolved) (\<lambda>ts.
     andthen (revise E 1 q RevisionUpdate (Some actor) None) (\<lambda>_.
     andthen (po_record (postEvent ''blog.post.updated'' q (Some actor) (po_updated q))) (\<lambda>_.
     ret (q, ts))))))"

definition no_fields :: "update_input \<Rightarrow> bool" where
  "no_fields i \<longleftrightarrow> ui_title i = None \<and> ui_slug i = None \<and> ui_excerpt i = None \<and> ui_content i = None \<and>
     ui_category i = None \<and> ui_tags i = None \<and> ui_policy i = None"

text \<open>\<open>Update\<close> up to its transaction: what another request may come between.\<close>

definition update_prepare ::
  "post_env \<Rightarrow> uuid \<Rightarrow> uuid \<Rightarrow> bool \<Rightarrow> update_input \<Rightarrow> (post \<times> tag list option) post_comp" where
  "update_prepare E u actor unrestricted i =
     (if no_fields i then throw (PoValidation ''no fields to update'')
      else
      andthen (editablePost u actor unrestricted) (\<lambda>p.
      andthen (po_applyUpdate (pe_lower E) p i) (\<lambda>p.
      andthen (resolveTags E (ui_tags i)) (\<lambda>ts.
      ret (p\<lparr>po_updated := pe_clock E 0, po_version := po_version p + 1\<rparr>, ts)))))"

definition update_finish :: "post_env \<Rightarrow> uuid \<Rightarrow> post \<times> tag list option \<Rightarrow> (post \<times> tag list) post_comp" where
  "update_finish E actor x =
     andthen (storeUpdate E (fst x) actor (snd x)) (\<lambda>r.
     andthen po_invalidate (\<lambda>_. ret r))"

definition po_Update ::
  "post_env \<Rightarrow> uuid \<Rightarrow> uuid \<Rightarrow> bool \<Rightarrow> update_input \<Rightarrow> (post \<times> tag list) post_comp" where
  "po_Update E u actor unrestricted i =
     andthen (update_prepare E u actor unrestricted i) (update_finish E actor)"

section \<open>Media\<close>

definition normalizeMediaItem :: "(nat \<Rightarrow> nat) \<Rightarrow> nat \<Rightarrow> media_item \<Rightarrow> media_item post_comp" where
  "normalizeMediaItem lo i m =
     (let kind = trim_space (to_lower lo (mi_kind m)) in
      if kind \<notin> {''cover'', ''inline_image'', ''attachment''} then throw (PoValidation ''invalid media kind'')
      else if mi_asset m = uuid_nil then throw (PoValidation ''media_asset_id required'')
      else
      andthen (db_call (\<lambda>s.
        case find (\<lambda>a. as_uuid a = mi_asset m \<and> \<not> as_deleted a) (ps_assets s) of
          None \<Rightarrow> (Inl (Err (PoValidation ''media not found'')), s)
        | Some a \<Rightarrow> (Inr a, s))) (\<lambda>a.
      if as_status a \<noteq> ''ready'' then throw (PoValidation ''media is not ready'')
      else ret \<lparr>mi_asset = mi_asset m, mi_kind = kind,
                mi_sort = (if mi_sort m = 0 \<and> i > 0 then int i else mi_sort m)\<rparr>))"

fun normalize_loop :: "(nat \<Rightarrow> nat) \<Rightarrow> nat \<Rightarrow> media_item list \<Rightarrow> media_item list \<Rightarrow> media_item list post_comp" where
  "normalize_loop lo i [] out = ret out"
| "normalize_loop lo i (m # ms) out =
     andthen (normalizeMediaItem lo i m) (\<lambda>n.
     if (mi_asset n, mi_kind n) \<in> (\<lambda>x. (mi_asset x, mi_kind x)) ` set out
     then throw (PoValidation ''duplicate media item'')
     else normalize_loop lo (Suc i) ms (out @ [n]))"

definition covers :: "media_item list \<Rightarrow> uuid list" where
  "covers ms = map mi_asset (filter (\<lambda>m. mi_kind m = ''cover'') ms)"

definition media_prepare :: "post_env \<Rightarrow> uuid \<Rightarrow> media_item list \<Rightarrow> (post \<times> media_item list) post_comp" where
  "media_prepare E u items =
     (if \<not> pe_media E then throw (PoValidation ''media associations not configured'')
      else
      andthen (livePost u) (\<lambda>p.
      andthen (normalize_loop (pe_lower E) 0 items []) (\<lambda>ms.
      if length (covers ms) > 1 then throw (PoValidation ''at most one cover media item allowed'')
      else ret (p, ms))))"

definition media_finish :: "post_env \<Rightarrow> uuid \<Rightarrow> post \<times> media_item list \<Rightarrow> media_item list post_comp" where
  "media_finish E u x =
     (let (p, ms) = x; cover = (if covers ms = [] then None else Some (last (covers ms))); now = pe_clock E 0 in
      andthen (post_tx (
        andthen (ReplaceAll u ms) (\<lambda>_.
        andthen (SetCoverImage u cover now) (\<lambda>_.
        andthen (revise E 1 (p\<lparr>po_cover := cover, po_updated := now\<rparr>) RevisionUpdate None None) (\<lambda>_.
        ret ()))))) (\<lambda>_.
      andthen po_invalidate (\<lambda>_. ret ms)))"

definition ReplaceMedia :: "post_env \<Rightarrow> uuid \<Rightarrow> media_item list \<Rightarrow> media_item list post_comp" where
  "ReplaceMedia E u items = andthen (media_prepare E u items) (media_finish E u)"

section \<open>Restoring a revision\<close>

record skips =
  sk_slug :: "string option"
  sk_categories :: "uuid list"
  sk_tags :: "uuid list"
  sk_media :: "uuid list"

definition opt_list :: "'a option \<Rightarrow> 'a list" where
  "opt_list x = (case x of None \<Rightarrow> [] | Some y \<Rightarrow> [y])"

definition snapshotRefs :: "rev_snapshot \<Rightarrow> references" where
  "snapshotRefs n =
     \<lparr>rf_categories = opt_list (sn_category n), rf_tags = map fst (sn_tags n),
      rf_media = map mi_asset (sn_media n) @ opt_list (sn_cover n) @
                 opt_list (og_image (sn_seo n)) @ opt_list (twitter_image (sn_seo n))\<rparr>"

definition keep_ref :: "uuid list \<Rightarrow> uuid option \<Rightarrow> uuid option" where
  "keep_ref known r = (case r of None \<Rightarrow> None | Some u \<Rightarrow> if u \<in> set known then Some u else None)"

text \<open>The skipped media in the order they are met, each once.\<close>

definition skipped_media :: "rev_snapshot \<Rightarrow> uuid list \<Rightarrow> uuid list" where
  "skipped_media n known =
     rev (remdups (rev (filter (\<lambda>u. u \<notin> set known) (rf_media (snapshotRefs n)))))"

definition dropMissing :: "rev_snapshot \<Rightarrow> references \<Rightarrow> string option \<Rightarrow> rev_snapshot \<times> skips" where
  "dropMissing n existing taken =
     (n\<lparr>sn_category := keep_ref (rf_categories existing) (sn_category n),
        sn_tags := filter (\<lambda>t. fst t \<in> set (rf_tags existing)) (sn_tags n),
        sn_media := filter (\<lambda>m. mi_asset m \<in> set (rf_media existing)) (sn_media n),
        sn_cover := keep_ref (rf_media existing) (sn_cover n),
        sn_seo := (sn_seo n)\<lparr>og_image := keep_ref (rf_media existing) (og_image (sn_seo n)),
                             twitter_image := keep_ref (rf_media existing) (twitter_image (sn_seo n))\<rparr>\<rparr>,
      \<lparr>sk_slug = taken,
       sk_categories = filter (\<lambda>u. u \<notin> set (rf_categories existing)) (opt_list (sn_category n)),
       sk_tags = filter (\<lambda>u. u \<notin> set (rf_tags existing)) (map fst (sn_tags n)),
       sk_media = skipped_media n (rf_media existing)\<rparr>)"

definition restorable :: "post \<Rightarrow> rev_snapshot \<Rightarrow> (rev_snapshot \<times> skips) post_comp" where
  "restorable p n =
     andthen (if sn_slug n = po_slug p then ret False else SlugTaken (sn_slug n) (po_uuid p)) (\<lambda>taken.
     let m = (if taken then n\<lparr>sn_slug := po_slug p\<rparr> else n) in
     andthen (Existing (snapshotRefs m)) (\<lambda>existing.
     ret (dropMissing m existing (if taken then Some (sn_slug n) else None))))"

definition storeRestore ::
  "post_env \<Rightarrow> post \<Rightarrow> rev_snapshot \<Rightarrow> uuid \<Rightarrow> revision \<times> string \<Rightarrow> (post \<times> tag list \<times> revision) post_comp" where
  "storeRestore E p n actor source =
     andthen (po_update p) (\<lambda>q.
     andthen (with_tags (ReplacePostTags (po_uuid q) (map fst (sn_tags n)))) (\<lambda>_.
     andthen (with_tags (tags_of_post (pe_coll E) (po_uuid q))) (\<lambda>ts.
     andthen (if pe_media E then ReplaceAll (po_uuid q) (sn_media n) else ret ()) (\<lambda>_.
     andthen (seo_save (po_uuid q) (sn_seo n)) (\<lambda>_.
     andthen (revise E 1 q RevisionRestore (Some actor) (Some source)) (\<lambda>r.
     ret (q, ts, r)))))))"

definition restored_post :: "post \<Rightarrow> rev_snapshot \<Rightarrow> instant \<Rightarrow> post" where
  "restored_post p n now =
     p\<lparr>po_title := sn_title n, po_slug := sn_slug n, po_excerpt := sn_excerpt n, po_content := sn_content n,
       po_policy := sn_policy n, po_category := sn_category n, po_cover := sn_cover n, po_updated := now,
       po_version := po_version p + 1\<rparr>"

definition RestoreRevision ::
  "post_env \<Rightarrow> uuid \<Rightarrow> revision_ref \<Rightarrow> uuid \<Rightarrow> bool \<Rightarrow> string \<Rightarrow> (post \<times> tag list \<times> revision \<times> skips) post_comp" where
  "RestoreRevision E u ref actor unrestricted note =
     (if length note > 1000 then throw (PoValidation ''restore_note must be at most 1000 characters'')
      else
      andthen (editablePost u actor unrestricted) (\<lambda>p.
      andthen (rv_get u ref) (\<lambda>source.
      andthen (restorable p (rv_snapshot source)) (\<lambda>(n, skipped).
      andthen (post_tx (storeRestore E (restored_post p n (pe_clock E 0)) n actor (source, note))) (\<lambda>(q, ts, r).
      andthen po_invalidate (\<lambda>_.
      ret (q, ts, r, skipped)))))))"

end
