(* ===== verification/Post_Slugs.thy ===== *)
theory Post_Slugs
  imports Post_Service
begin

text \<open>
  The slugs of drafts: a suffixed slug is a slug again and keeps the length limit, the search for a free
  one ends and finds the lowest free suffix.
\<close>

section \<open>Suffixes\<close>

lemma format_int_digits: "0 \<le> n \<Longrightarrow> list_all is_digit (format_int n)"
  using format_nat_digits by (simp add: format_int_def)

lemma format_int_no_dash: "0 \<le> n \<Longrightarrow> dash \<notin> set (format_int n)"
  using format_int_digits [of n] digit_not(1) by (auto simp: list_all_iff dash_def)

lemma length_format_nat: "n < 10 ^ k \<Longrightarrow> 0 < k \<Longrightarrow> length (format_nat n) \<le> k"
proof (induction n arbitrary: k rule: format_nat.induct)
  case (1 n)
  show ?case
  proof (cases "n < 10")
    case False
    obtain j where k: "k = Suc j" using 1(3) by (cases k) auto
    then have "0 < j" using 1(2) False by (cases j) auto
    moreover have "n div 10 < 10 ^ j" using 1(2) k by (simp add: div_less_iff_less_mult mult.commute)
    ultimately show ?thesis using 1(1) False k by (subst format_nat.simps) simp
  qed (use 1(3) in \<open>subst format_nat.simps, simp\<close>)
qed

lemma length_format_int: "0 \<le> n \<Longrightarrow> n < 10 ^ 19 \<Longrightarrow> length (format_int n) \<le> 19"
  using length_format_nat [of "nat n" 19] by (simp add: format_int_def nat_less_iff)

lemma withSuffix_ends: "\<exists>x. withSuffix base n = x @ dash # format_int n"
  by (auto simp: withSuffix_def Let_def)

lemma withSuffix_inj:
  assumes "0 \<le> m" "0 \<le> n" "withSuffix base m = withSuffix base n"
  shows "m = n"
proof -
  obtain x y where "withSuffix base m = x @ dash # format_int m" "withSuffix base n = y @ dash # format_int n"
    using withSuffix_ends by metis
  then show ?thesis using assms split_last_colon [of x dash "format_int m" y "format_int n"] format_int_no_dash
    by (simp add: format_int_inj)
qed

lemma slug_match_append: "slug_match g b \<Longrightarrow> slug_match g (b @ c) = slug_match True c"
  by (induction b arbitrary: g) (auto split: if_splits)

lemma slug_match_digits: "list_all is_digit ds \<Longrightarrow> ds \<noteq> [] \<or> g \<Longrightarrow> slug_match g ds"
proof (induction ds arbitrary: g)
  case (Cons d ds)
  have "slug_char d" using Cons.prems(1) by (simp add: is_digit_def slug_char_def)
  then show ?case using Cons by simp
qed simp

lemma slugPattern_suffix: "slugPattern b \<Longrightarrow> 0 \<le> n \<Longrightarrow> slugPattern (b @ dash # format_int n)"
  using slug_match_digits [OF format_int_digits [of n], of False] format_int_ne [of n]
  by (simp add: slugPattern_def slug_match_append)

lemma has_double_prefix: "has_double s \<Longrightarrow> has_double (s @ t)"
  by (induction s rule: has_double.induct) auto

lemma trim_dashes_split: "\<exists>k. s = trim_dashes s @ replicate k dash"
proof -
  have "rev s = takeWhile (\<lambda>c. c = dash) (rev s) @ dropWhile (\<lambda>c. c = dash) (rev s)" by simp
  moreover have "takeWhile (\<lambda>c. c = dash) (rev s) = replicate (length (takeWhile (\<lambda>c. c = dash) (rev s))) dash"
    by (intro replicate_eqI) (auto dest: set_takeWhileD)
  ultimately have "s = trim_dashes s @ rev (replicate (length (takeWhile (\<lambda>c. c = dash) (rev s))) dash)"
    unfolding trim_dashes_def by (metis rev_append rev_rev_ident)
  then show ?thesis by (metis rev_replicate)
qed

lemma trim_dashes_last: "trim_dashes s \<noteq> [] \<Longrightarrow> last (trim_dashes s) \<noteq> dash"
  using hd_dropWhile [of "\<lambda>c. c = dash" "rev s"] by (auto simp: trim_dashes_def last_rev)

lemma slugPattern_cut:
  assumes "slugPattern b" "0 < k"
  shows "slugPattern (trim_dashes (take k b))"
proof -
  let ?t = "trim_dashes (take k b)"
  obtain j where j: "take k b = ?t @ replicate j dash" using trim_dashes_split by blast
  have b: "slug_or_dash b" "\<not> has_double b" "b \<noteq> []" "hd b \<noteq> dash" using assms(1) by (simp_all add: slugPattern_iff)
  have all: "b = ?t @ (replicate j dash @ drop k b)" using j append_take_drop_id [of k b] by (metis append_assoc)
  have ne: "?t \<noteq> []"
  proof
    assume "?t = []"
    then have "take k b = replicate j dash" using j by simp
    moreover have "take k b \<noteq> []" "hd (take k b) = hd b" using b(3) assms(2) by (auto simp: hd_take)
    ultimately show False using b(4) by (cases j) auto
  qed
  moreover have "\<not> has_double ?t" using b(2) has_double_prefix all by metis
  moreover have "slug_or_dash ?t" using b(1) all by (metis list_all_append slug_or_dash_def)
  moreover have "hd ?t \<noteq> dash" using b(4) ne all by (metis hd_append2)
  ultimately show ?thesis using trim_dashes_last by (simp add: slugPattern_iff)
qed

lemma trim_dashes_length: "length (trim_dashes s) \<le> length s"
  using trim_dashes_split [of s] by (metis le_add1 length_append)

lemma withSuffix_slug:
  assumes "slugPattern b" "0 \<le> n" "n < 10 ^ 19"
  shows "slugPattern (withSuffix b n)" "length (withSuffix b n) \<le> MaxSlugLength"
proof -
  have l: "length (format_int n) \<le> 19" using length_format_int assms(2,3) by blast
  then have "slugPattern (trim_dashes (take (MaxSlugLength - Suc (length (format_int n))) b))"
    by (intro slugPattern_cut assms(1)) (simp add: MaxSlugLength_def)
  then show "slugPattern (withSuffix b n)"
    using slugPattern_suffix assms(1,2) by (simp add: withSuffix_def Let_def)
  have "length (trim_dashes (take (MaxSlugLength - Suc (length (format_int n))) b)) \<le> MaxSlugLength - Suc (length (format_int n))"
    by (rule le_trans [OF trim_dashes_length]) simp
  then show "length (withSuffix b n) \<le> MaxSlugLength"
    using l by (cases "MaxSlugLength < length b + Suc (length (format_int n))") (simp_all add: withSuffix_def Let_def MaxSlugLength_def)
qed

lemma withSuffix_short:
  "length b + 20 \<le> MaxSlugLength \<Longrightarrow> 0 \<le> n \<Longrightarrow> n < 10 ^ 19 \<Longrightarrow> withSuffix b n = b @ dash # format_int n"
  using length_format_int [of n] by (simp add: withSuffix_def Let_def)

section \<open>The search for a free slug\<close>

lemma free_loop_finds:
  "0 \<le> n \<Longrightarrow> card (set taken \<inter> {withSuffix b k |k. n \<le> k}) < fuel \<Longrightarrow>
   \<exists>m. free_loop fuel taken b n = Some (withSuffix b m) \<and> n \<le> m \<and> m < n + int fuel \<and>
       withSuffix b m \<notin> set taken \<and> (\<forall>k. n \<le> k \<longrightarrow> k < m \<longrightarrow> withSuffix b k \<in> set taken)"
proof (induction fuel arbitrary: n)
  case (Suc fuel)
  let ?S = "\<lambda>n. set taken \<inter> {withSuffix b k |k. n \<le> k}"
  show ?case
  proof (cases "withSuffix b n \<in> set taken")
    case True
    have "withSuffix b n \<noteq> withSuffix b k" if "n + 1 \<le> k" for k using withSuffix_inj [of n k b] Suc.prems(1) that by linarith
    then have "withSuffix b n \<notin> ?S (n + 1)" by blast
    moreover have "withSuffix b n \<in> ?S n" "?S (n + 1) \<subseteq> ?S n" using True by auto
    ultimately have "?S (n + 1) \<subset> ?S n" by blast
    then have "card (?S (n + 1)) < card (?S n)" by (intro psubset_card_mono) auto
    then have "card (?S (n + 1)) < fuel" using Suc.prems(2) by linarith
    from Suc.IH [OF _ this] Suc.prems(1) obtain m where
      m: "free_loop fuel taken b (n + 1) = Some (withSuffix b m)" "n + 1 \<le> m" "m < n + 1 + int fuel"
         "withSuffix b m \<notin> set taken" "\<forall>k. n + 1 \<le> k \<longrightarrow> k < m \<longrightarrow> withSuffix b k \<in> set taken" by auto
    have "withSuffix b k \<in> set taken" if "n \<le> k" "k < m" for k
      using m(5) True that by (cases "k = n") auto
    then show ?thesis using m True by (intro exI [of _ m]) auto
  next
    case False
    then show ?thesis by (intro exI [of _ n]) auto
  qed
qed simp

text \<open>The base when it is free, and otherwise the lowest suffix that is.\<close>

definition lowest_free :: "string list \<Rightarrow> string \<Rightarrow> string \<Rightarrow> bool" where
  "lowest_free taken b g \<longleftrightarrow>
     (b \<notin> set taken \<and> g = b) \<or>
     (b \<in> set taken \<and> (\<exists>m. 2 \<le> m \<and> m < 3 + int (length taken) \<and> g = withSuffix b m \<and> g \<notin> set taken \<and>
        (\<forall>k. 2 \<le> k \<longrightarrow> k < m \<longrightarrow> withSuffix b k \<in> set taken)))"

lemma free_loop_lowest:
  "b \<in> set taken \<Longrightarrow> \<exists>g. free_loop (Suc (length taken)) taken b 2 = Some g \<and> lowest_free taken b g"
proof -
  assume b: "b \<in> set taken"
  have "card (set taken \<inter> {withSuffix b k |k. 2 \<le> k}) \<le> length taken"
    by (meson List.finite_set Int_lower1 card_length card_mono le_trans)
  then obtain m where "free_loop (Suc (length taken)) taken b 2 = Some (withSuffix b m)" "2 \<le> m" "m < 3 + int (length taken)"
      "withSuffix b m \<notin> set taken" "\<forall>k. 2 \<le> k \<longrightarrow> k < m \<longrightarrow> withSuffix b k \<in> set taken"
    using free_loop_finds [of 2 taken b "Suc (length taken)"] by auto
  then show ?thesis using b by (auto simp: lowest_free_def)
qed

definition prefixed :: "string \<Rightarrow> post list \<Rightarrow> string list" where
  "prefixed b rows = filter (\<lambda>g. g = b \<or> take (length b + 1) g = b @ [dash]) (map po_slug (filter po_live rows))"

lemma SlugsWithPrefix_prefixed: "SlugsWithPrefix b = db_call (asks (\<lambda>s. prefixed b (ps_posts s)))"
  by (simp only: SlugsWithPrefix_def prefixed_def)

lemma freeSlug_wp:
  assumes "\<And>g. lowest_free (prefixed b (ps_posts s)) b g \<Longrightarrow> Q g (s\<lparr>calls := Suc (calls s)\<rparr>)" "F StoreFail (s\<lparr>calls := Suc (calls s)\<rparr>)"
  shows "wp (freeSlug b) Q F s"
proof (cases "b \<in> set (prefixed b (ps_posts s))")
  case True
  then obtain g where "free_loop (Suc (length (prefixed b (ps_posts s)))) (prefixed b (ps_posts s)) b 2 = Some g"
    "lowest_free (prefixed b (ps_posts s)) b g" using free_loop_lowest by blast
  then show ?thesis using assms True
    by (simp add: freeSlug_def SlugsWithPrefix_prefixed wp_simps del: free_loop.simps)
next
  case False
  then show ?thesis using assms
    by (simp add: freeSlug_def SlugsWithPrefix_prefixed wp_simps lowest_free_def)
qed

lemma lowest_free_slug:
  assumes "lowest_free taken b g" "slugPattern b" "length taken < 2 ^ 63"
  shows "slugPattern g"
proof -
  have "int (length taken) < 2 ^ 63" using assms(3) by (metis of_nat_less_iff of_nat_numeral of_nat_power)
  then have "m < 10 ^ 19" if "m < 3 + int (length taken)" for m using that by simp
  then show ?thesis using assms withSuffix_slug(1) [OF assms(2)] by (auto simp: lowest_free_def)
qed

text \<open>For a base that leaves room for the suffix, the slug is held by no live post at all.\<close>

lemma lowest_free_unheld:
  assumes "lowest_free (prefixed b rows) b g" "length b + 20 \<le> MaxSlugLength" "length (prefixed b rows) < 2 ^ 63"
  shows "\<not> slug_held g u rows"
proof -
  have "g \<notin> set (prefixed b rows)" using assms(1) by (auto simp: lowest_free_def)
  moreover have "g = b \<or> take (length b + 1) g = b @ [dash]"
  proof (cases "g = b")
    case False
    then obtain m where m: "2 \<le> m" "m < 3 + int (length (prefixed b rows))" "g = withSuffix b m"
      using assms(1) by (auto simp: lowest_free_def)
    have "int (length (prefixed b rows)) < 2 ^ 63" using assms(3) by (metis of_nat_less_iff of_nat_numeral of_nat_power)
    then have "m < 10 ^ 19" using m(2) by simp
    then have "g = b @ dash # format_int m" using withSuffix_short [OF assms(2)] m by simp
    then show ?thesis by simp
  qed simp
  ultimately show ?thesis by (auto simp: slug_held_def list_ex_iff prefixed_def)
qed

end
