(* ===== verification/Post_Correct.thy ===== *)
theory Post_Correct
  imports Post_Slugs
begin

text \<open>
  What the post service keeps of its tables, whichever requests run and whichever storage calls fail: slugs
  of live posts are unique, published posts have a publication time and drafts none, and the newest
  revision of every post is its current state.
\<close>

section \<open>The invariant\<close>

definition hist :: "uuid \<Rightarrow> revision list \<Rightarrow> revision list" where
  "hist u revs = filter (\<lambda>r. rv_post r = u) revs"

definition numbers_ok :: "revision list \<Rightarrow> bool" where
  "numbers_ok revs \<longleftrightarrow> (\<forall>u. sorted_wrt (<) (map rv_number (hist u revs)))"

definition post_ok :: "post \<Rightarrow> bool" where
  "post_ok p \<longleftrightarrow> slugPattern (po_slug p) \<and> po_title p \<noteq> [] \<and> policy_Valid (po_policy p) \<and> 1 \<le> po_version p \<and>
     (po_status p = StatusPublished \<longrightarrow> po_published p \<noteq> None) \<and> (po_status p = StatusDraft \<longrightarrow> po_published p = None)"

definition snap_ok :: "rev_snapshot \<Rightarrow> bool" where
  "snap_ok n \<longleftrightarrow> slugPattern (sn_slug n) \<and> sn_title n \<noteq> [] \<and> policy_Valid (sn_policy n)"

text \<open>A revision shows a post when its snapshot has the fields of the post.\<close>

definition mirrors :: "revision \<Rightarrow> post \<Rightarrow> bool" where
  "mirrors r p \<longleftrightarrow> rv_post r = po_uuid p \<and>
     rv_snapshot r = SnapshotOf p (sn_tags (rv_snapshot r)) (sn_media (rv_snapshot r)) (sn_seo (rv_snapshot r))"

definition tracked :: "revision list \<Rightarrow> post \<Rightarrow> bool" where
  "tracked revs p \<longleftrightarrow> hist (po_uuid p) revs \<noteq> [] \<and> mirrors (last (hist (po_uuid p) revs)) p"

definition slug_own :: "post list \<Rightarrow> post \<Rightarrow> bool" where
  "slug_own rows p \<longleftrightarrow> (po_live p \<longrightarrow> \<not> slug_held (po_slug p) (po_uuid p) rows)"

definition posts_inv :: "post list \<Rightarrow> revision list \<Rightarrow> bool" where
  "posts_inv rows revs \<longleftrightarrow>
     length rows \<le> max_rows \<and> distinct (map po_uuid rows) \<and> list_all post_ok rows \<and> list_all (slug_own rows) rows \<and>
     list_all (tracked revs) rows \<and> list_all (\<lambda>r. snap_ok (rv_snapshot r)) revs \<and> numbers_ok revs \<and>
     distinct (map rv_uuid revs)"

definition post_inv :: "post_store \<Rightarrow> bool" where
  "post_inv s \<longleftrightarrow> posts_inv (ps_posts s) (ps_revisions s)"

lemma post_inv_frame [simp]:
  "post_inv (s\<lparr>calls := n\<rparr>) = post_inv s" "post_inv (s\<lparr>ps_invalidated := i\<rparr>) = post_inv s"
  "post_inv (s\<lparr>ps_events := es\<rparr>) = post_inv s" "post_inv (s\<lparr>ps_tag_rows := tr\<rparr>) = post_inv s"
  "post_inv (s\<lparr>ps_tag_links := ls\<rparr>) = post_inv s" "post_inv (s\<lparr>ps_attached := at\<rparr>) = post_inv s"
  "post_inv (s\<lparr>ps_seo := se\<rparr>) = post_inv s" "post_inv (s\<lparr>ps_notices := no\<rparr>) = post_inv s"
  by (simp_all add: post_inv_def)

section \<open>Writing a row and its revision\<close>

definition put_row :: "post \<Rightarrow> post list \<Rightarrow> post list" where
  "put_row q rows = map (\<lambda>r. if po_uuid r = po_uuid q then q else r) rows"

lemma put_row_uuids [simp]: "map po_uuid (put_row q rows) = map po_uuid rows"
  by (induction rows) (auto simp: put_row_def)

lemma length_put_row [simp]: "length (put_row q rows) = length rows"
  by (simp add: put_row_def)

lemma put_row_mem: "r \<in> set (put_row q rows) \<Longrightarrow> r = q \<or> (r \<in> set rows \<and> po_uuid r \<noteq> po_uuid q)"
  by (simp add: put_row_def image_iff) metis

lemma hist_snoc: "hist u (revs @ [r]) = hist u revs @ (if rv_post r = u then [r] else [])"
  by (simp add: hist_def)

lemma numbers_ok_snoc:
  assumes "numbers_ok revs" "\<And>x. x \<in> set (hist (rv_post r) revs) \<Longrightarrow> rv_number x < rv_number r"
  shows "numbers_ok (revs @ [r])"
  using assms by (simp add: numbers_ok_def hist_snoc sorted_wrt_append)

lemma tracked_snoc: "mirrors r q \<Longrightarrow> tracked (revs @ [r]) q"
  by (simp add: tracked_def hist_snoc mirrors_def)

lemma tracked_other: "tracked revs p \<Longrightarrow> rv_post r \<noteq> po_uuid p \<Longrightarrow> tracked (revs @ [r]) p"
  by (simp add: tracked_def hist_snoc)

lemma mirrors_snap: "mirrors r q \<Longrightarrow> post_ok q \<Longrightarrow> snap_ok (rv_snapshot r)"
  unfolding mirrors_def post_ok_def snap_ok_def SnapshotOf_def by (metis rev_snapshot.select_convs(1,2,6))

lemma slug_held_iff: "slug_held g u rows \<longleftrightarrow> (\<exists>r \<in> set rows. po_uuid r \<noteq> u \<and> po_live r \<and> po_slug r = g)"
  by (simp add: slug_held_def list_ex_iff)

lemma slug_own_put:
  assumes "list_all (slug_own rows) rows" "po_live q \<Longrightarrow> \<not> slug_held (po_slug q) (po_uuid q) rows"
  shows "list_all (slug_own (put_row q rows)) (put_row q rows)"
proof -
  have "\<not> slug_held (po_slug x) (po_uuid x) (put_row q rows)" if x: "x \<in> set (put_row q rows)" "po_live x" for x
  proof
    assume "slug_held (po_slug x) (po_uuid x) (put_row q rows)"
    then obtain y where y: "y \<in> set (put_row q rows)" "po_uuid y \<noteq> po_uuid x" "po_live y" "po_slug y = po_slug x"
      unfolding slug_held_iff by blast
    have own: "\<not> slug_held (po_slug z) (po_uuid z) rows" if "z \<in> set rows" "po_live z" for z
      using assms(1) that by (simp add: list_all_iff slug_own_def)
    from put_row_mem [OF x(1)] put_row_mem [OF y(1)] show False
      using x(2) y own assms(2) unfolding slug_held_iff by metis
  qed
  then show ?thesis by (simp add: list_all_iff slug_own_def)
qed

lemma posts_inv_write:
  assumes i: "posts_inv rows revs" and q: "post_ok q" "po_live q \<Longrightarrow> \<not> slug_held (po_slug q) (po_uuid q) rows"
    and r: "mirrors r q" "\<And>x. x \<in> set (hist (po_uuid q) revs) \<Longrightarrow> rv_number x < rv_number r" "rv_uuid r \<notin> rv_uuid ` set revs"
  shows "posts_inv (put_row q rows) (revs @ [r])"
proof -
  have rp: "rv_post r = po_uuid q" using r(1) by (simp add: mirrors_def)
  have "post_ok x \<and> tracked (revs @ [r]) x" if "x \<in> set (put_row q rows)" for x
    using put_row_mem [OF that] q(1) tracked_snoc [OF r(1)] tracked_other [of revs x r] rp i
    unfolding posts_inv_def list_all_iff by metis
  moreover have "list_all (slug_own (put_row q rows)) (put_row q rows)"
    by (rule slug_own_put) (use i q(2) in \<open>simp_all add: posts_inv_def\<close>)
  moreover have "numbers_ok (revs @ [r])" by (rule numbers_ok_snoc) (use i r(2) rp in \<open>simp_all add: posts_inv_def\<close>)
  ultimately show ?thesis using i r(3) mirrors_snap [OF r(1) q(1)] by (simp add: posts_inv_def list_all_iff)
qed

lemma posts_inv_add:
  assumes i: "posts_inv rows revs" and q: "post_ok q" "po_live q" "\<not> slug_held (po_slug q) (po_uuid q) rows"
    "po_uuid q \<notin> po_uuid ` set rows" "length rows < max_rows"
    and r: "mirrors r q" "\<And>x. x \<in> set (hist (po_uuid q) revs) \<Longrightarrow> rv_number x < rv_number r" "rv_uuid r \<notin> rv_uuid ` set revs"
  shows "posts_inv (rows @ [q]) (revs @ [r])"
proof -
  have rp: "rv_post r = po_uuid q" using r(1) by (simp add: mirrors_def)
  have own: "\<not> slug_held (po_slug z) (po_uuid z) rows" if "z \<in> set rows" "po_live z" for z
    using i that by (simp add: posts_inv_def list_all_iff slug_own_def)
  have "post_ok x \<and> tracked (revs @ [r]) x" if "x \<in> set rows" for x
    using that tracked_other [of revs x r] rp i q(4) unfolding posts_inv_def list_all_iff by (metis imageI)
  moreover have "slug_own (rows @ [q]) x" if "x \<in> set rows" for x
    using that own [OF that] q(2-4) unfolding slug_own_def slug_held_iff by (simp add: image_iff) metis
  moreover have "slug_own (rows @ [q]) q" using q(3) by (simp add: slug_own_def slug_held_iff)
  moreover have "numbers_ok (revs @ [r])" by (rule numbers_ok_snoc) (use i r(2) rp in \<open>simp_all add: posts_inv_def\<close>)
  ultimately show ?thesis using i q r(3) mirrors_snap [OF r(1) q(1)] tracked_snoc [OF r(1)]
    by (simp add: posts_inv_def list_all_iff)
qed

section \<open>The steps of a request\<close>

text \<open>The number of storage calls is the outermost update of a state.\<close>

lemma calls_last [simp]:
  "ps_posts_update f1 (calls_update g s) = calls_update g (ps_posts_update f1 s)"
  "ps_tag_rows_update f2 (calls_update g s) = calls_update g (ps_tag_rows_update f2 s)"
  "ps_tag_links_update f3 (calls_update g s) = calls_update g (ps_tag_links_update f3 s)"
  "ps_attached_update f4 (calls_update g s) = calls_update g (ps_attached_update f4 s)"
  "ps_seo_update f5 (calls_update g s) = calls_update g (ps_seo_update f5 s)"
  "ps_revisions_update f6 (calls_update g s) = calls_update g (ps_revisions_update f6 s)"
  "ps_events_update f7 (calls_update g s) = calls_update g (ps_events_update f7 s)"
  "ps_invalidated_update f8 (calls_update g s) = calls_update g (ps_invalidated_update f8 s)"
  "ps_notices_update f9 (calls_update g s) = calls_update g (ps_notices_update f9 s)"
  for s :: post_store
  by (cases s; simp)+

lemma wp_post_tx [wp_simps]:
  "wp (post_tx m) Q F s = wp m Q (\<lambda>e t. F e (s\<lparr>ps_invalidated := ps_invalidated t, calls := calls t\<rparr>)) s"
  by (simp add: wp_def post_tx_def split: prod.split sum.split)

lemma wp_with_tags:
  assumes "\<And>x n tr ls iv. Q x (s\<lparr>ps_tag_rows := tr, ps_tag_links := ls, ps_invalidated := iv, calls := n\<rparr>)"
    "\<And>e n tr ls iv. F e (s\<lparr>ps_tag_rows := tr, ps_tag_links := ls, ps_invalidated := iv, calls := n\<rparr>)"
  shows "wp (with_tags m) Q F s"
  using assms by (simp add: wp_def with_tags_def split: prod.split sum.split)

lemma wp_reads_then:
  assumes "reads m" "\<And>x n. wp (f x) Q F (s\<lparr>calls := n\<rparr>)" "\<And>e n. F e (s\<lparr>calls := n\<rparr>)"
  shows "wp (andthen m f) Q F s"
  unfolding wp_andthen by (rule wp_reads) (fact assms)+

lemma mapPost_valid: "policy_Valid (po_policy p) \<Longrightarrow> mapPost p = p"
  by (auto simp: mapPost_def commentPolicyOrOpen_def policy_Valid_def)

lemma po_one_wp:
  assumes "\<And>p. p \<in> set (ps_posts s) \<Longrightarrow> P p \<Longrightarrow> Q (mapPost p) (s\<lparr>calls := Suc (calls s)\<rparr>)"
    "\<And>e. F e (s\<lparr>calls := Suc (calls s)\<rparr>)"
  shows "wp (po_one P) Q F s"
proof -
  have "p \<in> set (ps_posts s) \<and> P p" if "find P (ps_posts s) = Some p" for p
    using that by (metis find_Some_iff nth_mem)
  then show ?thesis using assms by (simp add: po_one_def wp_simps split: option.split)
qed

lemma reads_po_known [reads_intros]: "reads (po_known known u e)"
  unfolding po_known_def by (intro reads_intros) (simp add: reads_def)

lemma reads_po_ref [reads_intros]: "reads (po_ref known r f)"
  unfolding po_ref_def by (intro reads_intros)

lemma write_is_put:
  assumes "distinct (map po_uuid rows)" "r0 \<in> set rows" "P r0" "\<And>r. P r \<Longrightarrow> po_uuid r = u" "po_uuid (f r0) = u"
  shows "map (\<lambda>r. if P r then f r else r) rows = put_row (f r0) rows"
  unfolding put_row_def
proof (rule map_cong [OF refl])
  fix r assume r: "r \<in> set rows"
  have "r = r0" if "po_uuid r = u" using assms(1-4) r that by (metis inj_onD distinct_map)
  then show "(if P r then f r else r) = (if po_uuid r = po_uuid (f r0) then f r0 else r)"
    using assms(3-5) by (cases "po_uuid r = u") auto
qed

lemma find_put: "po_uuid q \<in> po_uuid ` set rows \<Longrightarrow> po_live q \<Longrightarrow> find (\<lambda>r. po_uuid r = po_uuid q \<and> po_live r) (put_row q rows) = Some q"
  by (induction rows) (auto simp: put_row_def)

lemma po_write_wp:
  assumes d: "distinct (map po_uuid (ps_posts s))" and P: "\<And>r. P r \<Longrightarrow> po_uuid r = u" and f: "\<And>r. po_uuid (f r) = po_uuid r"
    and "\<And>r. r \<in> set (ps_posts s) \<Longrightarrow> P r \<Longrightarrow> \<not> slug_held g u (ps_posts s) \<Longrightarrow>
       Q True (s\<lparr>calls := Suc (calls s), ps_posts := put_row (f r) (ps_posts s)\<rparr>)"
    and "Q False (s\<lparr>calls := Suc (calls s)\<rparr>)" "\<And>e. F e (s\<lparr>calls := Suc (calls s)\<rparr>)"
  shows "wp (po_write P f g u) Q F s"
proof (cases "list_ex P (ps_posts s)")
  case True
  then obtain r where r: "r \<in> set (ps_posts s)" "P r" by (meson list_ex_iff)
  have "map (\<lambda>r. if P r then f r else r) (ps_posts s) = put_row (f r) (ps_posts s)"
    by (rule write_is_put [where u = u]) (use d r P [OF r(2)] P f in simp_all)
  then show ?thesis using assms(4) [OF r] assms(6) True by (simp add: po_write_def wp_simps)
next
  case False
  then show ?thesis using assms(5,6) by (simp add: po_write_def wp_simps)
qed

lemma po_put_simps [simp]:
  "po_uuid (po_put p r) = po_uuid r" "po_deleted (po_put p r) = po_deleted r" "po_live (po_put p r) = po_live r"
  "mapPost (po_put p r) = po_put p r" "po_slug (po_put p r) = po_slug p" "po_author (po_put p r) = po_author r"
  "po_status (po_put p r) = po_status p" "po_version (po_put p r) = po_version p" "po_created (po_put p r) = po_created r"
  by (simp_all add: po_put_def po_live_def mapPost_def commentPolicyOrOpen_def)

text \<open>Reading back a row just written.\<close>

lemma po_get_put_wp:
  assumes "po_uuid q \<in> po_uuid ` set rows" "po_live q" "mapPost q = q" "ps_posts s = put_row q rows"
    "Q q (s\<lparr>calls := Suc (calls s)\<rparr>)" "\<And>e. F e (s\<lparr>calls := Suc (calls s)\<rparr>)"
  shows "wp (po_get (po_uuid q)) Q F s"
  using assms find_put [OF assms(1,2)] by (simp add: po_get_def po_one_def wp_simps)

lemma po_update_wp:
  assumes d: "distinct (map po_uuid (ps_posts s))"
    and Q: "\<And>r n. r \<in> set (ps_posts s) \<Longrightarrow> at_version p r \<Longrightarrow> po_live r \<Longrightarrow> \<not> slug_held (po_slug p) (po_uuid p) (ps_posts s) \<Longrightarrow>
       Q (po_put p r) (s\<lparr>ps_posts := put_row (po_put p r) (ps_posts s), calls := n\<rparr>)"
    and F: "\<And>e n rows. F e (s\<lparr>ps_posts := rows, calls := n\<rparr>)"
  shows "wp (po_update p) Q F s"
proof -
  have F': "F e (s\<lparr>calls := n\<rparr>)" for e n using F [where e = e and n = n and rows = "ps_posts s"] by simp
  have "wp (po_write (\<lambda>r. at_version p r \<and> po_live r) (po_put p) (po_slug p) (po_uuid p))
      (\<lambda>hit. wp (if \<not> hit then andthen (po_get (po_uuid p)) (\<lambda>_. throw PoStaleVersion) else po_get (po_uuid p)) Q F) F (s\<lparr>calls := k\<rparr>)" for k
  proof (rule po_write_wp)
    fix r
    assume r: "r \<in> set (ps_posts (s\<lparr>calls := k\<rparr>))" "at_version p r \<and> po_live r" "\<not> slug_held (po_slug p) (po_uuid p) (ps_posts (s\<lparr>calls := k\<rparr>))"
    have u: "po_uuid p = po_uuid (po_put p r)" using r(2) by (simp add: at_version_def)
    have "wp (po_get (po_uuid (po_put p r))) Q F
       (s\<lparr>calls := Suc k, ps_posts := put_row (po_put p r) (ps_posts s)\<rparr>)"
      by (rule po_get_put_wp) (use r Q F in simp_all)
    then show "wp (if \<not> True then andthen (po_get (po_uuid p)) (\<lambda>_. throw PoStaleVersion) else po_get (po_uuid p)) Q F
        (s\<lparr>calls := k, calls := Suc (calls (s\<lparr>calls := k\<rparr>)), ps_posts := put_row (po_put p r) (ps_posts (s\<lparr>calls := k\<rparr>))\<rparr>)"
      using u by simp
  qed (use d F' in \<open>simp_all add: at_version_def po_get_def wp_simps po_one_wp\<close>)
  then show ?thesis unfolding po_update_def
    by (intro wp_reads_then [OF reads_po_ref]) (simp_all add: wp_andthen F')
qed

section \<open>Revisions\<close>

lemma reads_tag_view:
  assumes "reads m"
  shows "reads (with_tags m)"
  unfolding reads_def
proof
  fix s
  obtain n where "snd (m (tag_view s)) = (tag_view s)\<lparr>calls := n\<rparr>" using assms unfolding reads_def unchanged_def by blast
  then have "snd (with_tags m s) = s\<lparr>calls := n\<rparr>" by (cases "m (tag_view s)") (simp add: with_tags_def tag_view_def)
  then show "unchanged s (snd (with_tags m s))" by simp
qed

definition tags_now :: "post_env \<Rightarrow> post_store \<Rightarrow> uuid \<Rightarrow> tag list" where
  "tags_now E s u = sort_key (\<lambda>t. pe_coll E (tag_name t)) (filter (\<lambda>t. (u, tag_uuid t) \<in> set (ps_tag_links s)) (ps_tag_rows s))"

definition media_now :: "post_env \<Rightarrow> post_store \<Rightarrow> uuid \<Rightarrow> media_item list" where
  "media_now E s u = (if pe_media E then sort_key mi_sort (map snd (filter (\<lambda>(p, m). p = u) (ps_attached s))) else [])"

definition seo_now :: "post_store \<Rightarrow> uuid \<Rightarrow> seo" where
  "seo_now s u = (case map_of (ps_seo s) u of None \<Rightarrow> no_seo | Some e \<Rightarrow> e)"

definition snap_now :: "post_env \<Rightarrow> post_store \<Rightarrow> post \<Rightarrow> rev_snapshot" where
  "snap_now E s p = SnapshotOf p (map (\<lambda>t. (tag_uuid t, tag_name t)) (tags_now E s (po_uuid p))) (media_now E s (po_uuid p)) (seo_now s (po_uuid p))"

lemma now_frame [simp]:
  "snap_now E (s\<lparr>calls := n\<rparr>) p = snap_now E s p" "snap_now E (s\<lparr>ps_posts := rows\<rparr>) p = snap_now E s p"
  by (simp_all add: snap_now_def tags_now_def media_now_def seo_now_def)

lemma wp_tags_of_post:
  assumes "Q (tags_now E s u) (s\<lparr>calls := Suc (calls s)\<rparr>)" "F StoreFail (s\<lparr>calls := Suc (calls s)\<rparr>)"
  shows "wp (with_tags (tags_of_post (pe_coll E) u)) Q F s"
  using assms by (simp add: wp_def with_tags_def tags_of_post_def db_call_def asks_def tag_view_def Let_def tags_now_def)

lemma post_snapshot_wp:
  assumes "\<And>n. Q (snap_now E s p) (s\<lparr>calls := n\<rparr>)" "\<And>e n. F e (s\<lparr>calls := n\<rparr>)"
  shows "wp (post_snapshot E p) Q F s"
  unfolding post_snapshot_def wp_andthen
  by (rule wp_tags_of_post; cases "pe_media E")
    (use assms in \<open>simp_all add: wp_simps media_of_post_def seo_get_def snap_now_def media_now_def seo_now_def\<close>)

definition newest :: "uuid \<Rightarrow> revision list \<Rightarrow> revision option" where
  "newest u revs = (if hist u revs = [] then None else Some (last (hist u revs)))"

lemma latest_opt_wp:
  assumes "numbers_ok (ps_revisions s)" "Q (newest (po_uuid p) (ps_revisions s)) (s\<lparr>calls := Suc (calls s)\<rparr>)"
    "\<And>e. F e (s\<lparr>calls := Suc (calls s)\<rparr>)"
  shows "wp (latest_opt (po_uuid p)) Q F s"
proof -
  let ?h = "hist (po_uuid p) (ps_revisions s)"
  have "sorted (map rv_number ?h)" using assms(1) by (simp add: numbers_ok_def strict_sorted_imp_sorted)
  then have "sort_key rv_number (filter (\<lambda>r. rv_post r = po_uuid p) (ps_revisions s)) = ?h"
    unfolding hist_def by (rule sort_key_id_if_sorted)
  then show ?thesis using assms
    by (cases "rev ?h") (auto simp: wp_def latest_opt_def Latest_def rv_one_def db_call_def Let_def newest_def last_rev [symmetric] hd_rev)
qed

lemma newest_number:
  assumes "numbers_ok revs" "x \<in> set (hist u revs)"
  shows "\<exists>r. newest u revs = Some r \<and> rv_number x \<le> rv_number r"
proof -
  obtain ys r where h: "hist u revs = ys @ [r]" using assms(2) by (cases "hist u revs" rule: rev_cases) auto
  have "sorted_wrt (<) (map rv_number (hist u revs))" using assms(1) by (simp add: numbers_ok_def)
  then have "\<forall>y \<in> set ys. rv_number y < rv_number r" unfolding h by (simp add: sorted_wrt_append)
  moreover have "x = r \<or> x \<in> set ys" using assms(2) unfolding h by simp
  ultimately have "rv_number x \<le> rv_number r" by (meson less_imp_le order_refl)
  then show ?thesis by (simp add: newest_def h)
qed

definition revision_events :: "revision \<Rightarrow> post_event list" where
  "revision_events r = revisionCreatedEvent r # (if rv_from r = None then [] else [revisionRestoredEvent r])"

lemma new_revision_fields [simp]:
  "rv_post (new_revision E k p typ actor source n prev) = po_uuid p"
  "rv_snapshot (new_revision E k p typ actor source n prev) = n"
  "rv_uuid (new_revision E k p typ actor source n prev) = pe_ids E k"
  "rv_type (new_revision E k p typ actor source n prev) = typ"
  "rv_number (new_revision E k p typ actor source n prev) = (case prev of None \<Rightarrow> 1 | Some r \<Rightarrow> rv_number r + 1)"
  "(rv_from (new_revision E k p typ actor source n prev) = None) = (source = None)"
  by (simp_all add: new_revision_def Let_def)

lemma rv_stored_fields [simp]:
  "rv_post (rv_stored s r) = rv_post r" "rv_snapshot (rv_stored s r) = rv_snapshot r" "rv_uuid (rv_stored s r) = rv_uuid r"
  "rv_number (rv_stored s r) = rv_number r" "rv_type (rv_stored s r) = rv_type r" "rv_diff (rv_stored s r) = rv_diff r"
  "rv_stored (s\<lparr>calls := m\<rparr>) r = rv_stored s r" "rv_stored (s\<lparr>ps_posts := rows\<rparr>) r = rv_stored s r"
  "rv_stored (s\<lparr>ps_tag_rows := tr\<rparr>) r = rv_stored s r" "rv_stored (s\<lparr>ps_tag_links := ls\<rparr>) r = rv_stored s r"
  "rv_stored (s\<lparr>ps_invalidated := iv\<rparr>) r = rv_stored s r" "rv_stored (s\<lparr>ps_attached := at\<rparr>) r = rv_stored s r"
  "rv_stored (s\<lparr>ps_seo := se\<rparr>) r = rv_stored s r"
  by (simp_all add: rv_stored_def split: option.split)

lemma revise_wp:
  assumes n: "numbers_ok (ps_revisions s)"
    and Q: "\<And>r n. r = new_revision E k p typ actor source (snap_now E s p) (newest (po_uuid p) (ps_revisions s)) \<Longrightarrow>
       rv_uuid r \<notin> rv_uuid ` set (ps_revisions s) \<Longrightarrow>
       (\<And>x. x \<in> set (hist (po_uuid p) (ps_revisions s)) \<Longrightarrow> rv_number x < rv_number r) \<Longrightarrow>
       Q r (s\<lparr>ps_revisions := ps_revisions s @ [rv_stored s r], ps_events := ps_events s @ revision_events r, calls := n\<rparr>)"
    and F: "\<And>e rs es n. F e (s\<lparr>ps_revisions := rs, ps_events := es, calls := n\<rparr>)"
  shows "wp (revise E k p typ actor source) Q F s"
proof -
  let ?r = "new_revision E k p typ actor source (snap_now E s p) (newest (po_uuid p) (ps_revisions s))"
  have F0: "F e (s\<lparr>calls := n\<rparr>)" for e n using F [where rs = "ps_revisions s" and es = "ps_events s"] by simp
  have F1: "F e (s\<lparr>ps_revisions := rs, calls := n\<rparr>)" for e rs n using F [where es = "ps_events s"] by simp
  have num: "rv_number x < rv_number ?r" if "x \<in> set (hist (po_uuid p) (ps_revisions s))" for x
    using newest_number [OF n that] by auto
  have "wp (rv_create ?r) (\<lambda>r. wp (andthen (po_record (revisionCreatedEvent r)) (\<lambda>_.
      andthen (if source = None then ret () else po_record (revisionRestoredEvent r)) (\<lambda>_. ret r))) Q F) F (s\<lparr>calls := m\<rparr>)" for m
  proof (cases "list_ex (\<lambda>q. rv_uuid q = rv_uuid ?r \<or> rv_post q = rv_post ?r \<and> rv_number q = rv_number ?r) (ps_revisions s)")
    case False
    then have "rv_uuid ?r \<notin> rv_uuid ` set (ps_revisions s)" by (auto simp: list_ex_iff)
    from Q [OF refl this num] False F F0 F1 show ?thesis
      by (cases source) (simp_all add: rv_create_def po_record_def wp_simps revision_events_def post_ids_def)
  qed (simp add: rv_create_def wp_simps F0 post_ids_def)
  then show ?thesis unfolding revise_def wp_andthen
    by (intro post_snapshot_wp latest_opt_wp) (use n F0 in \<open>simp_all add: wp_andthen_fun\<close>)
qed

lemma new_revision_mirrors: "mirrors (rv_stored s (new_revision E k p typ actor source (snap_now E s' p) prev)) p"
  by (simp add: mirrors_def snap_now_def SnapshotOf_def)

end
