(* ===== verification/Post_Requests.thy ===== *)
theory Post_Requests
  imports Post_Correct
begin

text \<open>
  The requests of the post service one by one: what a successful one did to the tables, and that each,
  successful or not, keeps the invariant.
\<close>

section \<open>Effects\<close>

text \<open>A rolled back transaction leaves its storage calls and what it invalidated in the cache.\<close>

definition rolled :: "post_store \<Rightarrow> post_store \<Rightarrow> bool" where
  "rolled s t \<longleftrightarrow> (\<exists>iv n. t = s\<lparr>ps_invalidated := iv, calls := n\<rparr>)"

lemma unrolled [simp]: "rolled s (s\<lparr>ps_invalidated := i, calls := m\<rparr>)" "rolled s (s\<lparr>calls := m\<rparr>)" "rolled s s"
proof -
  have "s = s\<lparr>ps_invalidated := ps_invalidated s, calls := calls s\<rparr>"
    "s\<lparr>calls := m\<rparr> = s\<lparr>ps_invalidated := ps_invalidated s, calls := m\<rparr>" by simp_all
  then show "rolled s (s\<lparr>calls := m\<rparr>)" "rolled s s" unfolding rolled_def by blast+
qed (auto simp: rolled_def)

lemma rolled_calls [simp]: "rolled (s\<lparr>calls := m\<rparr>) t = rolled s t"
  by (simp add: rolled_def)

text \<open>
  One transaction of the service: the post became \<open>q\<close>, its history got one revision that shows it, and the
  events of the revision and \<open>es\<close> were recorded.
\<close>

definition wrote :: "post_store \<Rightarrow> post list \<Rightarrow> post \<Rightarrow> revision_type \<Rightarrow> post_event list \<Rightarrow> post_store \<Rightarrow> bool" where
  "wrote s rows q typ es t \<longleftrightarrow>
     ps_posts t = rows \<and>
     (\<exists>r. ps_revisions t = ps_revisions s @ [rv_stored s r] \<and> mirrors r q \<and> rv_type r = typ \<and>
          rv_number r = (case newest (po_uuid q) (ps_revisions s) of None \<Rightarrow> 1 | Some x \<Rightarrow> rv_number x + 1) \<and>
          rv_uuid r \<notin> rv_uuid ` set (ps_revisions s) \<and>
          (\<forall>x. x \<in> set (hist (po_uuid q) (ps_revisions s)) \<longrightarrow> rv_number x < rv_number r) \<and>
          ps_events t = ps_events s @ revision_events r @ es)"

lemma mirrors_stored [simp]: "mirrors (rv_stored s r) q = mirrors r q"
  by (simp add: mirrors_def)

lemma wrote_inv:
  assumes "post_inv s" "wrote s (put_row q (ps_posts s)) q typ es t" "post_ok q"
    "po_live q \<Longrightarrow> \<not> slug_held (po_slug q) (po_uuid q) (ps_posts s)"
  shows "post_inv t"
  using assms posts_inv_write [of "ps_posts s" "ps_revisions s" q] unfolding post_inv_def wrote_def
  by (metis mirrors_stored rv_stored_fields(3,4))

lemma revise_wrote:
  assumes n: "numbers_ok (ps_revisions s)"
    and Q: "\<And>r t. wrote s (ps_posts s) p typ [] t \<Longrightarrow> ps_events t = ps_events s @ revision_events r \<Longrightarrow>
       (\<exists>rs es n. t = s\<lparr>ps_revisions := rs, ps_events := es, calls := n\<rparr>) \<Longrightarrow> rv_snapshot r = snap_now E s p \<Longrightarrow>
       ps_revisions t = ps_revisions s @ [rv_stored s r] \<Longrightarrow> Q r t"
    and F: "\<And>e rs es n. F e (s\<lparr>ps_revisions := rs, ps_events := es, calls := n\<rparr>)"
  shows "wp (revise E k p typ actor source) Q F s"
proof (rule revise_wp [OF n])
  fix r m
  assume r: "r = new_revision E k p typ actor source (snap_now E s p) (newest (po_uuid p) (ps_revisions s))"
    "rv_uuid r \<notin> rv_uuid ` set (ps_revisions s)" "\<And>x. x \<in> set (hist (po_uuid p) (ps_revisions s)) \<Longrightarrow> rv_number x < rv_number r"
  let ?t = "s\<lparr>ps_revisions := ps_revisions s @ [rv_stored s r], ps_events := ps_events s @ revision_events r, calls := m\<rparr>"
  have "mirrors r p" using new_revision_mirrors [of s] r(1) by simp
  then have "wrote s (ps_posts s) p typ [] ?t"
    unfolding wrote_def using r by (intro conjI exI [of _ r]) simp_all
  then show "Q r ?t" by (rule Q) (simp, blast, simp_all add: r(1))
qed (rule F)

lemma at_version_row:
  assumes "distinct (map po_uuid rows)" "p \<in> set rows" "r \<in> set rows" "at_version p' r" "po_uuid p' = po_uuid p"
  shows "r = p"
  using assms by (metis at_version_def distinct_map inj_onD)

lemma post_inv_rows:
  assumes "post_inv s"
  shows "distinct (map po_uuid (ps_posts s))" "numbers_ok (ps_revisions s)"
    "p \<in> set (ps_posts s) \<Longrightarrow> post_ok p" "p \<in> set (ps_posts s) \<Longrightarrow> mapPost p = p"
    "p \<in> set (ps_posts s) \<Longrightarrow> po_live p \<Longrightarrow> \<not> slug_held (po_slug p) (po_uuid p) (ps_posts s)"
    "r \<in> set (ps_revisions s) \<Longrightarrow> snap_ok (rv_snapshot r)"
proof -
  show "p \<in> set (ps_posts s) \<Longrightarrow> post_ok p" for p using assms by (simp add: post_inv_def posts_inv_def list_all_iff)
  then show "p \<in> set (ps_posts s) \<Longrightarrow> mapPost p = p" for p using mapPost_valid post_ok_def by blast
qed (use assms in \<open>simp_all add: post_inv_def posts_inv_def list_all_iff slug_own_def\<close>)

section \<open>Transitions\<close>

lemma moved_post_fields [simp]:
  "po_uuid (moved_post p st now) = po_uuid p" "po_slug (moved_post p st now) = po_slug p" "po_live (moved_post p st now) = po_live p"
  by (simp_all add: moved_post_def po_live_def)

lemma moved_post_ok: "post_ok p \<Longrightarrow> post_ok (moved_post p st now)"
  by (cases st) (simp_all add: post_ok_def moved_post_def)

lemma moved_post_put: "policy_Valid (po_policy p) \<Longrightarrow> po_put (moved_post p st now) p = moved_post p st now"
  by (auto simp: po_put_def moved_post_def commentPolicyOrOpen_def policy_Valid_def)

lemma update_revise_wp:
  assumes i: "post_inv s" and p: "p \<in> set (ps_posts s)" "po_uuid p1 = po_uuid p" "po_put p1 p = p1" and F: "\<And>e t. F e t"
    and Q: "\<And>r t. \<not> slug_held (po_slug p1) (po_uuid p1) (ps_posts s) \<Longrightarrow> at_version p1 p \<Longrightarrow>
       wrote s (put_row p1 (ps_posts s)) p1 typ [] t \<Longrightarrow> (\<exists>rs es n. t = s\<lparr>ps_posts := put_row p1 (ps_posts s), ps_revisions := rs, ps_events := es, calls := n\<rparr>) \<Longrightarrow>
       Q p1 r t"
  shows "wp (po_update p1) (\<lambda>q. wp (revise E k q typ actor source) (Q q) F) F s"
proof (rule po_update_wp)
  note rows = post_inv_rows [OF i]
  show "distinct (map po_uuid (ps_posts s))" by (rule rows(1))
  fix r n
  assume r: "r \<in> set (ps_posts s)" "at_version p1 r" "\<not> slug_held (po_slug p1) (po_uuid p1) (ps_posts s)"
  have rp: "r = p" by (rule at_version_row [OF rows(1) p(1) r(1,2) p(2)])
  let ?s = "s\<lparr>ps_posts := put_row p1 (ps_posts s), calls := n\<rparr>"
  have "wp (revise E k p1 typ actor source) (Q p1) F ?s"
  proof (rule revise_wrote)
    fix x t
    assume t: "wrote ?s (ps_posts ?s) p1 typ [] t" "\<exists>rs es m. t = ?s\<lparr>ps_revisions := rs, ps_events := es, calls := m\<rparr>"
    have w: "wrote s (put_row p1 (ps_posts s)) p1 typ [] t" using t(1) by (simp add: wrote_def)
    show "Q p1 x t" by (rule Q [OF r(3) _ w]) (use r(2) rp t(2) in auto)
  qed (use rows F in simp_all)
  then show "wp (revise E k (po_put p1 r) typ actor source) (Q (po_put p1 r)) F (s\<lparr>ps_posts := put_row (po_put p1 r) (ps_posts s), calls := n\<rparr>)"
    using rp p(3) by simp
qed (rule F)

definition po_moved :: "post_env \<Rightarrow> uuid \<Rightarrow> transition \<Rightarrow> uuid option \<Rightarrow> post_store \<Rightarrow> post \<Rightarrow> post_store \<Rightarrow> bool" where
  "po_moved E u tr actor s q t \<longleftrightarrow>
     (\<exists>p st. p \<in> set (ps_posts s) \<and> po_uuid p = u \<and> po_live p \<and> Next tr (po_status p) = Inr st \<and>
        q = moved_post p st (pe_clock E 0) \<and>
        wrote s (put_row q (ps_posts s)) q (revisionType tr) [postEvent (transitionEvent st) q actor (pe_clock E 0)] t \<and>
        ps_invalidated t = ps_invalidated s @ [Posts] \<and>
        ps_notices t = ps_notices s @ (if st = StatusPublished then [(u, actor)] else []))"

lemma wrote_more: "wrote s rows q typ [] t \<Longrightarrow> ps_posts u = ps_posts t \<Longrightarrow> ps_revisions u = ps_revisions t \<Longrightarrow>
   ps_events u = ps_events t @ es \<Longrightarrow> wrote s rows q typ es u"
  unfolding wrote_def by (metis append_Nil2 append_assoc)

lemma transition_wp:
  assumes i: "post_inv s"
  shows "wp (po_transition E u tr actor) (po_moved E u tr actor s) (\<lambda>_. rolled s) s"
  unfolding po_transition_def livePost_def po_get_def andthen_assoc wp_andthen
proof (rule po_one_wp, goal_cases)
  case (1 p)
  then have p: "p \<in> set (ps_posts s)" "po_uuid p = u" "po_live p" by simp_all
  have i1: "post_inv (s\<lparr>calls := Suc (calls s)\<rparr>)" using i by simp
  have m: "mapPost p = p" "(if po_deleted p \<noteq> None then throw PoNotFound else ret p) = ret p"
    using post_inv_rows(4) [OF i p(1)] p(3) by (simp_all add: po_live_def)
  show ?case
  proof (cases "Next tr (po_status p)")
    case (Inr st)
    show ?thesis unfolding m wp_const wp_andthen_fun wp_of_result Inr sum.case Let_def wp_post_tx
    proof (rule update_revise_wp [where p = p, OF i1], goal_cases)
      case (5 r t)
      then obtain rs es n where t: "t = s\<lparr>ps_posts := put_row (moved_post p st (pe_clock E 0)) (ps_posts s), ps_revisions := rs, ps_events := es, calls := n\<rparr>"
        by auto
      have w: "wrote s (put_row (moved_post p st (pe_clock E 0)) (ps_posts s)) (moved_post p st (pe_clock E 0)) (revisionType tr) [] t"
        using 5(3) by (simp add: wrote_def)
      have fin: "po_moved E u tr actor s (moved_post p st (pe_clock E 0)) x"
        if "ps_posts x = ps_posts t" "ps_revisions x = ps_revisions t" "ps_invalidated x = ps_invalidated t @ [Posts]"
          "ps_events x = ps_events t @ [postEvent (transitionEvent st) (moved_post p st (pe_clock E 0)) actor (pe_clock E 0)]"
          "ps_notices x = ps_notices t @ (if st = StatusPublished then [(u, actor)] else [])" for x
        unfolding po_moved_def using p Inr that wrote_more [OF w that(1,2,4)] by (intro exI [of _ p] exI [of _ st]) (simp add: t)
      show ?case using p(2) fin
        by (cases "st = StatusPublished") (simp_all add: wp_simps po_record_def po_invalidate_def unrolled)
    qed (use p moved_post_put post_inv_rows(3) [OF i p(1)] in \<open>simp_all add: unrolled moved_post_def post_ok_def\<close>)
  qed (simp add: m wp_simps unrolled)
qed (simp add: unrolled)

lemma moved_inv:
  assumes i: "post_inv s" and m: "po_moved E u tr actor s q t"
  shows "post_inv t"
proof -
  from m obtain p st where p: "p \<in> set (ps_posts s)" "po_live p" "q = moved_post p st (pe_clock E 0)"
    "wrote s (put_row q (ps_posts s)) q (revisionType tr) [postEvent (transitionEvent st) q actor (pe_clock E 0)] t"
    unfolding po_moved_def by blast
  show ?thesis by (rule wrote_inv [OF i p(4)]) (use p post_inv_rows [OF i] moved_post_ok in simp_all)
qed

lemma untouched_inv: "post_inv s \<Longrightarrow> rolled s t \<Longrightarrow> post_inv t"
  by (auto simp: rolled_def)

section \<open>The trash\<close>

lemma po_soft_delete_wp:
  assumes i: "post_inv s" and p: "p \<in> set (ps_posts s)" "po_live p" and F: "\<And>e t. F e t"
    and q: "q = p\<lparr>po_deleted := d, po_updated := now, po_version := po_version p + 1\<rparr>"
    and Q: "\<And>n. Q () (s\<lparr>ps_posts := put_row q (ps_posts s), calls := n\<rparr>)"
  shows "wp (po_soft_delete q) Q F s"
proof -
  let ?f = "\<lambda>r. r\<lparr>po_deleted := po_deleted q, po_updated := po_updated q, po_version := po_version q\<rparr>"
  have f: "?f p = q" using q by simp
  have "map (\<lambda>r. if at_version q r \<and> po_live r then ?f r else r) (ps_posts s) = put_row (?f p) (ps_posts s)"
    by (rule write_is_put [where u = "po_uuid p"]) (use post_inv_rows(1) [OF i] p q in \<open>simp_all add: at_version_def\<close>)
  moreover have "list_ex (\<lambda>r. at_version q r \<and> po_live r) (ps_posts s)" using p q by (auto simp: list_ex_iff at_version_def)
  ultimately show ?thesis using Q F unfolding f by (simp add: po_soft_delete_def wp_simps)
qed

definition trashed :: "post_env \<Rightarrow> uuid \<Rightarrow> post_store \<Rightarrow> post_store \<Rightarrow> bool" where
  "trashed E u s t \<longleftrightarrow>
     (\<exists>p q. p \<in> set (ps_posts s) \<and> po_uuid p = u \<and> po_live p \<and>
        q = p\<lparr>po_deleted := Some (pe_clock E 0), po_updated := pe_clock E 0, po_version := po_version p + 1\<rparr> \<and>
        wrote s (put_row q (ps_posts s)) q RevisionDelete [] t \<and>
        ps_invalidated t = ps_invalidated s @ [Posts] \<and> ps_notices t = ps_notices s)"

lemma Delete_wp:
  assumes i: "post_inv s"
  shows "wp (po_Delete E u) (\<lambda>_. trashed E u s) (\<lambda>_. rolled s) s"
  unfolding po_Delete_def livePost_def po_get_def andthen_assoc wp_andthen
proof (rule po_one_wp, goal_cases)
  case (1 p)
  then have p: "p \<in> set (ps_posts s)" "po_uuid p = u" "po_live p" by simp_all
  have i1: "post_inv (s\<lparr>calls := Suc (calls s)\<rparr>)" using i by simp
  have m: "mapPost p = p" "(if po_deleted p \<noteq> None then throw PoNotFound else ret p) = ret p"
    using post_inv_rows(4) [OF i p(1)] p(3) by (simp_all add: po_live_def)
  let ?q = "p\<lparr>po_deleted := Some (pe_clock E 0), po_updated := pe_clock E 0, po_version := po_version p + 1\<rparr>"
  show ?case unfolding m wp_const wp_andthen_fun Let_def wp_post_tx
  proof (rule po_soft_delete_wp [OF i1 _ p(3) _ refl], goal_cases)
    case (3 n)
    show ?case
    proof (rule revise_wrote, goal_cases)
      case (2 r t)
      then obtain rs es m where t: "t = s\<lparr>ps_posts := put_row ?q (ps_posts s), ps_revisions := rs, ps_events := es, calls := m\<rparr>"
        by auto
      have w: "wrote s (put_row ?q (ps_posts s)) ?q RevisionDelete [] t" using 2(1) by (simp add: wrote_def)
      have "trashed E u s x" if "ps_posts x = ps_posts t" "ps_revisions x = ps_revisions t" "ps_events x = ps_events t @ []"
          "ps_invalidated x = ps_invalidated t @ [Posts]" "ps_notices x = ps_notices t" for x
        unfolding trashed_def using p that wrote_more [OF w that(1-3)] by (intro exI [of _ p] exI [of _ ?q]) (simp add: t)
      then show ?case by (simp add: wp_simps po_invalidate_def)
    qed (use post_inv_rows(2) [OF i] in \<open>simp_all add: unrolled\<close>)
  qed (use p in \<open>simp_all add: unrolled\<close>)
qed (simp add: unrolled)

lemma trashed_inv:
  assumes i: "post_inv s" and m: "trashed E u s t"
  shows "post_inv t"
proof -
  from m obtain p q where p: "p \<in> set (ps_posts s)" "po_live p"
    "q = p\<lparr>po_deleted := Some (pe_clock E 0), po_updated := pe_clock E 0, po_version := po_version p + 1\<rparr>"
    "wrote s (put_row q (ps_posts s)) q RevisionDelete [] t" unfolding trashed_def by blast
  show ?thesis by (rule wrote_inv [OF i p(4)]) (use p post_inv_rows(3) [OF i p(1)] in \<open>simp_all add: post_ok_def po_live_def\<close>)
qed

lemma slug_attempts_wp:
  assumes F: "\<And>e n. F e (s\<lparr>calls := n\<rparr>)"
    and W: "\<And>g m. lowest_free (prefixed b (ps_posts s)) b g \<Longrightarrow> wp (write g) Q (\<lambda>e t. ps_invalidated t = ps_invalidated s) (s\<lparr>calls := m\<rparr>)"
  shows "wp (slug_attempts k e b write) Q F (s\<lparr>calls := m\<rparr>)"
proof (induction k arbitrary: e m)
  case 0
  then show ?case using F by (simp add: wp_simps)
next
  case (Suc k)
  have "wp (\<lambda>s. case post_tx (write g) s of
         (Inl err, t) \<Rightarrow> if isSlugConflict err then slug_attempts k err b write t else (Inl err, t)
       | (Inr p, t) \<Rightarrow> (Inr p, t)) Q F (s\<lparr>calls := j\<rparr>)" if g: "lowest_free (prefixed b (ps_posts s)) b g" for g j
  proof (cases "write g (s\<lparr>calls := j\<rparr>)")
    case (Pair r t)
    show ?thesis
    proof (cases r)
      case (Inl err)
      then have "ps_invalidated t = ps_invalidated s" using W [OF g, of j] Pair by (simp add: wp_def)
      then have "post_tx (write g) (s\<lparr>calls := j\<rparr>) = (Inl err, s\<lparr>calls := calls t\<rparr>)" using Pair Inl by (simp add: post_tx_def)
      then show ?thesis using Suc.IH [of err "calls t"] F by (simp add: wp_def)
    next
      case (Inr p)
      then have "post_tx (write g) (s\<lparr>calls := j\<rparr>) = (Inr p, t)" using Pair by (simp add: post_tx_def)
      then show ?thesis using W [OF g, of j] Pair Inr by (simp add: wp_def)
    qed
  qed
  then show ?case unfolding slug_attempts.simps wp_andthen by (intro freeSlug_wp) (use F in simp_all)
qed

lemma po_restore_wp:
  assumes i: "post_inv s" and p: "p \<in> set (ps_posts s)" "\<not> po_live p"
    and q: "q = p\<lparr>po_deleted := None, po_status := st, po_published := pub, po_updated := now, po_version := po_version p + 1, po_slug := g\<rparr>"
    and F: "\<And>e rows n. F e (s\<lparr>ps_posts := rows, calls := n\<rparr>)"
    and Q: "\<And>n. \<not> slug_held g (po_uuid p) (ps_posts s) \<Longrightarrow> Q q (s\<lparr>ps_posts := put_row q (ps_posts s), calls := n\<rparr>)"
  shows "wp (po_restore q) Q F s"
  unfolding po_restore_def wp_andthen
proof (rule po_write_wp [OF post_inv_rows(1) [OF i]], goal_cases)
  case (3 r)
  have F': "F e (s\<lparr>calls := n\<rparr>)" for e n using F [where rows = "ps_posts s"] by simp
  have r: "r = p" by (rule at_version_row [OF post_inv_rows(1) [OF i] p(1) 3(1), of q]) (use 3(2) q in simp_all)
  let ?f = "r\<lparr>po_deleted := None, po_slug := po_slug q, po_status := po_status q, po_published := po_published q,
     po_updated := po_updated q, po_version := po_version q\<rparr>"
  have f: "?f = q" using r q by simp
  have h: "\<not> slug_held g (po_uuid p) (ps_posts s)" using 3(3) q by simp
  have m: "mapPost q = q" by (rule mapPost_valid) (use post_inv_rows(3) [OF i p(1)] q in \<open>simp add: post_ok_def\<close>)
  have "wp (po_get (po_uuid q)) Q F (s\<lparr>ps_posts := put_row q (ps_posts s), calls := Suc (calls s)\<rparr>)"
    by (rule po_get_put_wp) (use p q m Q [OF h] F in \<open>simp_all add: po_live_def\<close>)
  then show ?case unfolding f by simp
qed (use F [where rows = "ps_posts s"] q in \<open>simp_all add: at_version_def po_get_deleted_def wp_simps po_one_wp\<close>)

definition revived :: "post_env \<Rightarrow> uuid \<Rightarrow> post_store \<Rightarrow> post \<Rightarrow> post_store \<Rightarrow> bool" where
  "revived E u s q t \<longleftrightarrow>
     (\<exists>p g. p \<in> set (ps_posts s) \<and> po_uuid p = u \<and> \<not> po_live p \<and>
        lowest_free (prefixed (po_slug p) (ps_posts s)) (po_slug p) g \<and> \<not> slug_held g u (ps_posts s) \<and>
        q = p\<lparr>po_deleted := None, po_status := StatusDraft, po_published := None, po_updated := pe_clock E 0,
              po_version := po_version p + 1, po_slug := g\<rparr> \<and>
        wrote s (put_row q (ps_posts s)) q RevisionUndelete [] t \<and>
        ps_invalidated t = ps_invalidated s @ [Posts] \<and> ps_notices t = ps_notices s)"

lemma Restore_wp:
  assumes i: "post_inv s"
  shows "wp (po_Restore E u) (revived E u s) (\<lambda>_. rolled s) s"
  unfolding po_Restore_def po_get_deleted_def wp_andthen
proof (rule po_one_wp, goal_cases)
  case (1 p)
  then have p: "p \<in> set (ps_posts s)" "po_uuid p = u" "\<not> po_live p" by simp_all
  have m: "mapPost p = p" using post_inv_rows(4) [OF i p(1)] .
  let ?q = "\<lambda>g. p\<lparr>po_deleted := None, po_status := StatusDraft, po_published := None, po_updated := pe_clock E 0,
              po_version := po_version p + 1, po_slug := g\<rparr>"
  show ?case unfolding m wp_andthen_fun Let_def wp_post_tx withFreeSlug_def
  proof (rule slug_attempts_wp, goal_cases)
    case (2 g n)
    then have g: "lowest_free (prefixed (po_slug p) (ps_posts s)) (po_slug p) g" by simp
    have i1: "post_inv (s\<lparr>calls := n\<rparr>)" using i by simp
    show ?case
    proof (rule po_restore_wp [OF i1 _ p(3) refl], goal_cases)
      case (3 k)
      then have h: "\<not> slug_held g u (ps_posts s)" using p(2) by simp
      show ?case
      proof (rule revise_wrote, goal_cases)
        case (2 r t)
        then obtain rs es m where t: "t = s\<lparr>ps_posts := put_row (?q g) (ps_posts s), ps_revisions := rs, ps_events := es, calls := m\<rparr>"
          by auto
        have w: "wrote s (put_row (?q g) (ps_posts s)) (?q g) RevisionUndelete [] t" using 2(1) by (simp add: wrote_def)
        have "revived E u s (?q g) x" if "ps_posts x = ps_posts t" "ps_revisions x = ps_revisions t" "ps_events x = ps_events t @ []"
            "ps_invalidated x = ps_invalidated t @ [Posts]" "ps_notices x = ps_notices t" for x
          unfolding revived_def using p h g that wrote_more [OF w that(1-3)] by (intro exI [of _ p] exI [of _ g]) (simp add: t)
        then show ?case by (simp add: wp_simps po_invalidate_def)
      qed (use post_inv_rows(2) [OF i] in \<open>simp_all add: unrolled\<close>)
    qed (use p in \<open>simp_all add: unrolled\<close>)
  qed (simp_all add: unrolled)
qed (simp add: unrolled)

lemma prefixed_length: "post_inv s \<Longrightarrow> length (prefixed b (ps_posts s)) < 2 ^ 63"
proof -
  assume "post_inv s"
  then have "length (ps_posts s) \<le> max_rows" by (simp add: post_inv_def posts_inv_def)
  moreover have "length (prefixed b (ps_posts s)) \<le> length (ps_posts s)"
    unfolding prefixed_def by (rule le_trans [OF length_filter_le]) simp
  ultimately show ?thesis by (simp add: max_rows_def)
qed

lemma revived_inv:
  assumes i: "post_inv s" and m: "revived E u s q t"
  shows "post_inv t"
proof -
  from m obtain p g where p: "p \<in> set (ps_posts s)" "po_uuid p = u" "lowest_free (prefixed (po_slug p) (ps_posts s)) (po_slug p) g"
    "\<not> slug_held g u (ps_posts s)" and q: "q = p\<lparr>po_deleted := None, po_status := StatusDraft, po_published := None, po_updated := pe_clock E 0,
      po_version := po_version p + 1, po_slug := g\<rparr>" "wrote s (put_row q (ps_posts s)) q RevisionUndelete [] t"
    unfolding revived_def by blast
  have ok: "post_ok p" by (rule post_inv_rows(3) [OF i p(1)])
  have "slugPattern g" by (rule lowest_free_slug [OF p(3)]) (use ok prefixed_length [OF i] in \<open>simp_all add: post_ok_def\<close>)
  then show ?thesis by (intro wrote_inv [OF i q(2)]) (use p ok q(1) in \<open>simp_all add: post_ok_def\<close>)
qed

section \<open>Drafts\<close>

lemma po_create_wp:
  assumes F: "\<And>e n. F e (s\<lparr>calls := n\<rparr>)"
    and Q: "\<And>n. length (ps_posts s) < max_rows \<Longrightarrow> po_uuid p \<notin> po_uuid ` set (ps_posts s) \<Longrightarrow>
       \<not> slug_held (po_slug p) (po_uuid p) (ps_posts s) \<Longrightarrow>
       Q (mapPost (p\<lparr>po_deleted := None\<rparr>)) (s\<lparr>ps_posts := ps_posts s @ [p\<lparr>po_deleted := None\<rparr>], calls := n\<rparr>)"
  shows "wp (po_create p) Q F s"
proof -
  have "wp (db_call (\<lambda>s.
       if max_rows \<le> length (ps_posts s) then (Inl StoreFail, s)
       else if po_uuid p \<in> set (post_ids s) \<or> slug_held (po_slug p) (po_uuid p) (ps_posts s)
       then (Inl (Err PoConflict), s)
       else let r = p\<lparr>po_deleted := None\<rparr> in (Inr (mapPost r), s\<lparr>ps_posts := ps_posts s @ [r]\<rparr>))) Q F (s\<lparr>calls := n\<rparr>)" for n
    using Q F by (simp add: wp_simps Let_def post_ids_def)
  then show ?thesis unfolding po_create_def
    by (intro wp_reads_then [OF reads_po_ref] wp_reads_then [OF reads_po_known]) (use F in simp_all)
qed

lemma reads_tags_of_post [reads_intros]: "reads (with_tags (tags_of_post coll u))"
  by (rule reads_tag_view) (simp add: tags_of_post_def reads_intros)

text \<open>What the tag operations of a request leave alone.\<close>

definition same_core :: "post_store \<Rightarrow> post_store \<Rightarrow> bool" where
  "same_core s t \<longleftrightarrow> ps_posts t = ps_posts s \<and> ps_revisions t = ps_revisions s \<and> ps_events t = ps_events s \<and>
     ps_users t = ps_users s \<and> ps_notices t = ps_notices s"

lemma same_core_refl [simp]: "same_core s s" "same_core s (s\<lparr>calls := n\<rparr>)" "same_core s (s\<lparr>ps_tag_rows := tr, ps_tag_links := ls, ps_invalidated := iv, calls := n\<rparr>)"
  by (simp_all add: same_core_def)

lemma same_core_trans: "same_core s t \<Longrightarrow> same_core t u \<Longrightarrow> same_core s u"
  by (simp add: same_core_def)

lemma same_core_inv: "same_core s t \<Longrightarrow> post_inv t = post_inv s"
  by (simp add: same_core_def post_inv_def)

lemma same_core_wrote: "same_core s t \<Longrightarrow> wrote t rows q typ es u \<Longrightarrow> wrote s rows q typ es u"
proof -
  assume c: "same_core s t" and w: "wrote t rows q typ es u"
  have "rv_stored t r = rv_stored s r" for r using c by (simp add: rv_stored_def same_core_def split: option.split)
  then show ?thesis using w c unfolding wrote_def same_core_def by simp
qed

lemma with_tags_core: "wp (with_tags m) (\<lambda>_. same_core s) (\<lambda>_. same_core s) s"
  by (rule wp_with_tags) simp_all

end
