(* ===== verification/Post_Writes.thy ===== *)
theory Post_Writes
  imports Post_Requests
begin

text \<open>
  The requests that write the content of posts: drafting, updating, attaching media, restoring and pruning
  revisions.
\<close>

section \<open>Steps around a revision\<close>

lemma core_wp:
  assumes "\<And>s. wp m (\<lambda>_. same_core s) (\<lambda>_ _. True) s" "same_core s0 s" "\<And>x t. same_core s0 t \<Longrightarrow> Q x t" "\<And>e t. F e t"
  shows "wp m Q F s"
  by (rule wp_mono [OF assms(1)]) (use assms(2-4) same_core_trans in blast)+

lemma core_reads: "reads m \<Longrightarrow> wp m (\<lambda>_. same_core s) (\<lambda>_ _. True) s"
  by (rule wp_reads) simp_all

lemma core_tags: "wp (with_tags m) (\<lambda>_. same_core s) (\<lambda>_ _. True) s"
  by (rule wp_mono [OF with_tags_core]) simp_all

lemma core_revise_wp:
  assumes "same_core s0 s" "numbers_ok (ps_revisions s0)" "\<And>e t. F e t"
    "\<And>r t. wrote s0 (ps_posts s0) q typ [] t \<Longrightarrow> ps_notices t = ps_notices s0 \<Longrightarrow> rv_snapshot r = snap_now E s q \<Longrightarrow>
       ps_revisions t = ps_revisions s0 @ [rv_stored s0 r] \<Longrightarrow> Q r t"
  shows "wp (revise E k q typ actor source) Q F s"
proof (rule revise_wrote, goal_cases)
  case 1
  then show ?case using assms(1,2) by (simp add: same_core_def)
next
  case (2 r t)
  have "wrote s0 (ps_posts s) q typ [] t" by (rule same_core_wrote [OF assms(1) 2(1)])
  moreover have "ps_posts s = ps_posts s0" "ps_notices t = ps_notices s0" using assms(1) 2(3) by (auto simp: same_core_def)
  moreover have "rv_stored s r = rv_stored s0 r" using assms(1) by (simp add: rv_stored_def same_core_def split: option.split)
  then have "ps_revisions t = ps_revisions s0 @ [rv_stored s0 r]" using assms(1) 2(5) by (simp add: same_core_def)
  ultimately show ?case using assms(4) 2(4) by simp
qed (rule assms(3))

lemma po_record_wp:
  assumes "wrote s0 rows q typ [] s" "\<And>e t. F e t" "\<And>t. wrote s0 rows q typ [e] t \<Longrightarrow> ps_notices t = ps_notices s \<Longrightarrow> Q () t"
  shows "wp (po_record e) Q F s"
  using assms(2,3) wrote_more [OF assms(1)] by (simp add: po_record_def wp_simps)

lemma wrote_frame:
  "wrote (s\<lparr>calls := n\<rparr>) rows q typ es t = wrote s rows q typ es t"
  "wrote s rows q typ es (t\<lparr>ps_invalidated := iv\<rparr>) = wrote s rows q typ es t"
  by (simp_all add: wrote_def)

lemma wrote_rows:
  "wrote (s\<lparr>ps_posts := rows, calls := n\<rparr>) rows' q typ es t = wrote s rows' q typ es t"
  by (simp add: wrote_def)

section \<open>Drafts\<close>

definition drafted :: "post \<Rightarrow> string \<Rightarrow> post_store \<Rightarrow> post \<Rightarrow> post_store \<Rightarrow> bool" where
  "drafted p base s q t \<longleftrightarrow>
     (\<exists>g. lowest_free (prefixed base (ps_posts s)) base g \<and> q = p\<lparr>po_slug := g\<rparr> \<and> length (ps_posts s) < max_rows \<and>
          po_uuid p \<notin> po_uuid ` set (ps_posts s) \<and> \<not> slug_held g (po_uuid p) (ps_posts s)) \<and>
     wrote s (ps_posts s @ [q]) q RevisionCreate [postEvent ''blog.post.created'' q (Some (po_author q)) (po_created q)] t \<and>
     ps_notices t = ps_notices s"

lemma link_tags_core:
  "wp (case tags of None \<Rightarrow> ret () | Some ids \<Rightarrow> with_tags (ReplacePostTags u ids)) (\<lambda>_. same_core s) (\<lambda>_ _. True) s"
  by (cases tags) (simp_all add: wp_simps core_tags)

lemma storeDraft_wp:
  assumes i: "post_inv s" and p: "po_deleted p = None" "policy_Valid (po_policy p)"
  shows "wp (storeDraft E p base tags) (drafted p base s) (\<lambda>_. rolled s) s"
proof -
  have s: "s\<lparr>calls := calls s\<rparr> = s" by simp
  let ?F = "\<lambda>e t. rolled s (s\<lparr>ps_invalidated := ps_invalidated t, calls := calls t\<rparr>)"
  have "wp (withFreeSlug base (\<lambda>g. po_create (p\<lparr>po_slug := g\<rparr>)))
      (\<lambda>q. wp (case tags of None \<Rightarrow> ret () | Some ids \<Rightarrow> with_tags (ReplacePostTags (po_uuid q) ids))
        (\<lambda>_. wp (revise E 1 q RevisionCreate (Some (po_author q)) None)
          (\<lambda>_. wp (po_record (postEvent ''blog.post.created'' q (Some (po_author q)) (po_created q))) (\<lambda>_. drafted p base s q) ?F) ?F) ?F)
      ?F (s\<lparr>calls := calls s\<rparr>)"
    unfolding withFreeSlug_def
  proof (rule slug_attempts_wp, goal_cases)
    case (2 g m)
    show ?case
    proof (rule po_create_wp, goal_cases)
      case (2 n)
      let ?q = "p\<lparr>po_slug := g\<rparr>" and ?s = "s\<lparr>ps_posts := ps_posts s @ [p\<lparr>po_slug := g\<rparr>], calls := n\<rparr>"
      have q: "p\<lparr>po_slug := g, po_deleted := None\<rparr> = ?q" "mapPost ?q = ?q"
        "s\<lparr>calls := m, ps_posts := ps_posts (s\<lparr>calls := m\<rparr>) @ [?q], calls := n\<rparr> = ?s"
        using p mapPost_valid [of ?q] by simp_all
      have fin: "drafted p base s ?q t"
        if "wrote ?s (ps_posts ?s) ?q RevisionCreate [postEvent ''blog.post.created'' ?q (Some (po_author ?q)) (po_created ?q)] t"
          "ps_notices t = ps_notices s" for t
        using that 2 \<open>lowest_free _ _ _\<close> unfolding drafted_def wrote_rows by auto
      show ?case unfolding q
      proof (rule core_wp [where ?s0.0 = ?s], goal_cases)
        case (3 x t)
        show ?case
        proof (rule core_revise_wp [OF 3], goal_cases)
          case (3 r t')
          then show ?case by (intro po_record_wp [OF 3(1)]) (use 3(2) fin unrolled in auto)
        qed (use post_inv_rows(2) [OF i] unrolled in auto)
      qed (simp_all add: unrolled link_tags_core)
    qed simp
  qed (simp add: unrolled)
  then show ?thesis unfolding storeDraft_def wp_post_tx wp_andthen_fun s by (simp add: wp_const)
qed

lemma drafted_inv:
  assumes i: "post_inv s" and d: "drafted p base s q t" and p: "post_ok (p\<lparr>po_slug := base\<rparr>)" "po_deleted p = None"
  shows "post_inv t"
proof -
  from d obtain g where g: "lowest_free (prefixed base (ps_posts s)) base g" "q = p\<lparr>po_slug := g\<rparr>" "length (ps_posts s) < max_rows"
      "po_uuid p \<notin> po_uuid ` set (ps_posts s)" "\<not> slug_held g (po_uuid p) (ps_posts s)"
    and w: "wrote s (ps_posts s @ [q]) q RevisionCreate [postEvent ''blog.post.created'' q (Some (po_author q)) (po_created q)] t"
    unfolding drafted_def by blast
  have "slugPattern g" by (rule lowest_free_slug [OF g(1)]) (use p prefixed_length [OF i] in \<open>simp_all add: post_ok_def\<close>)
  then have ok: "post_ok q" "po_live q" using p g(2) by (simp_all add: post_ok_def po_live_def)
  from w obtain r where r: "ps_posts t = ps_posts s @ [q]" "ps_revisions t = ps_revisions s @ [rv_stored s r]" "mirrors r q"
      "rv_uuid r \<notin> rv_uuid ` set (ps_revisions s)" "\<And>x. x \<in> set (hist (po_uuid q) (ps_revisions s)) \<Longrightarrow> rv_number x < rv_number r"
    unfolding wrote_def by blast
  have "posts_inv (ps_posts s @ [q]) (ps_revisions s @ [rv_stored s r])"
    by (rule posts_inv_add) (use i ok g r in \<open>simp_all add: post_inv_def\<close>)
  then show ?thesis by (simp add: post_inv_def r)
qed

section \<open>Updates\<close>

text \<open>What an edit keeps of a post.\<close>

definition edits :: "post \<Rightarrow> post \<Rightarrow> bool" where
  "edits p q \<longleftrightarrow> po_uuid q = po_uuid p \<and> po_author q = po_author p \<and> po_created q = po_created p \<and> po_deleted q = po_deleted p \<and>
     po_status q = po_status p \<and> po_published q = po_published p \<and> po_cover q = po_cover p \<and> po_version q = po_version p"

lemma po_put_ok: "post_ok p \<Longrightarrow> post_ok (po_put p r)"
  by (auto simp: post_ok_def po_put_def commentPolicyOrOpen_def policy_Valid_def)

lemma po_put_edit:
  assumes "po_uuid q = po_uuid p" "po_author q = po_author p" "po_created q = po_created p" "po_deleted q = po_deleted p" "policy_Valid (po_policy q)"
  shows "po_put q p = q"
  using assms by (cases p; cases q) (auto simp: po_put_def commentPolicyOrOpen_def policy_Valid_def)

lemma updatedSlug_wp:
  assumes "\<And>g n. slugPattern g \<Longrightarrow> Q g (s\<lparr>calls := n\<rparr>)" "\<And>e n. F e (s\<lparr>calls := n\<rparr>)"
  shows "wp (po_updatedSlug lo p raw) Q F s"
proof -
  have "Q g s" if "slugPattern g" for g using assms(1) [OF that, of "calls s"] by simp
  moreover have "F e s" for e using assms(2) [of e "calls s"] by simp
  ultimately show ?thesis using assms by (simp add: po_updatedSlug_def SlugTaken_def Let_def wp_simps)
qed

lemma title_wp:
  assumes "post_ok p" "\<And>q. post_ok q \<Longrightarrow> edits p q \<Longrightarrow> Q q s" "\<And>e. F e s"
  shows "wp (case title of None \<Rightarrow> ret p
     | Some raw \<Rightarrow> if trim_space raw = [] then throw (PoValidation ''title required'') else ret (p\<lparr>po_title := trim_space raw\<rparr>)) Q F s"
  using assms by (cases title) (simp_all add: wp_simps post_ok_def edits_def)

lemma slug_wp:
  assumes "post_ok p" "\<And>q n. post_ok q \<Longrightarrow> edits p q \<Longrightarrow> Q q (s\<lparr>calls := n\<rparr>)" "\<And>e n. F e (s\<lparr>calls := n\<rparr>)"
  shows "wp (case slug of None \<Rightarrow> ret p | Some raw \<Rightarrow> andthen (po_updatedSlug lo p raw) (\<lambda>g. ret (p\<lparr>po_slug := g\<rparr>))) Q F s"
proof (cases slug)
  case None
  have "Q p s" using assms(2) [of p "calls s"] assms(1) by (simp add: edits_def)
  then show ?thesis using None by (simp add: wp_simps)
next
  case (Some raw)
  have "Q (p\<lparr>po_slug := g\<rparr>) (s\<lparr>calls := n\<rparr>)" if "slugPattern g" for g n
    using assms(1,2) that by (simp add: post_ok_def edits_def)
  then show ?thesis using Some assms(3) by (simp add: wp_andthen wp_simps updatedSlug_wp)
qed

lemma edits_trans: "edits p q \<Longrightarrow> edits q r \<Longrightarrow> edits p r"
  by (simp add: edits_def)

lemma field_edits:
  "post_ok (p\<lparr>po_excerpt := x\<rparr>) = post_ok p" "post_ok (p\<lparr>po_content := x\<rparr>) = post_ok p" "post_ok (p\<lparr>po_category := c\<rparr>) = post_ok p"
  "edits b (p\<lparr>po_excerpt := x\<rparr>) = edits b p" "edits b (p\<lparr>po_content := x\<rparr>) = edits b p" "edits b (p\<lparr>po_category := c\<rparr>) = edits b p"
  "edits b b"
  by (simp_all add: post_ok_def edits_def)

lemma applyUpdate_wp:
  assumes "post_ok p" "\<And>q n. post_ok q \<Longrightarrow> edits p q \<Longrightarrow> Q q (s\<lparr>calls := n\<rparr>)" "\<And>e n. F e (s\<lparr>calls := n\<rparr>)"
  shows "wp (po_applyUpdate lo p i) Q F s"
  unfolding po_applyUpdate_def wp_andthen
proof (rule title_wp [OF assms(1)], goal_cases)
  case (1 a)
  note a = 1
  show ?case unfolding wp_andthen
  proof (rule slug_wp [OF a(1)], goal_cases)
    case (1 b n)
    let ?c = "case ui_excerpt i of None \<Rightarrow> b | Some x \<Rightarrow> b\<lparr>po_excerpt := trim_space x\<rparr>"
    let ?d = "case ui_content i of None \<Rightarrow> ?c | Some x \<Rightarrow> ?c\<lparr>po_content := x\<rparr>"
    let ?e = "case ui_category i of None \<Rightarrow> ?d | Some c \<Rightarrow> ?d\<lparr>po_category := c\<rparr>"
    have c: "post_ok ?c \<and> edits b ?c" using 1(1) by (cases "ui_excerpt i") (simp_all add: field_edits)
    have d: "post_ok ?d \<and> edits b ?d" using c by (cases "ui_content i") (simp_all add: field_edits)
    have "post_ok ?e \<and> edits b ?e" using d by (cases "ui_category i") (simp_all add: field_edits)
    then have e: "post_ok ?e" "edits p ?e" using a 1 edits_trans by blast+
    then have "post_ok (?e\<lparr>po_policy := x\<rparr>)" "edits p (?e\<lparr>po_policy := x\<rparr>)" if "policy_Valid x" for x
      using that by (simp_all add: post_ok_def edits_def)
    then show ?case unfolding Let_def using e assms(2,3) by (cases "ui_policy i") (simp_all add: wp_simps)
  qed (rule assms(3))
next
  case (2 e)
  show ?case using assms(3) [of e "calls s"] by simp
qed

lemma editablePost_wp:
  assumes i: "post_inv s" and "\<And>p. p \<in> set (ps_posts s) \<Longrightarrow> po_uuid p = u \<Longrightarrow> po_live p \<Longrightarrow> unrestricted \<or> po_author p = actor \<Longrightarrow> Q p (s\<lparr>calls := Suc (calls s)\<rparr>)"
    "\<And>e. F e (s\<lparr>calls := Suc (calls s)\<rparr>)"
  shows "wp (editablePost u actor unrestricted) Q F s"
  unfolding editablePost_def po_get_def wp_andthen
proof (rule po_one_wp, goal_cases)
  case (1 p)
  then show ?case using post_inv_rows(4) [OF i 1(1)] assms(2,3) by (simp add: wp_simps po_live_def)
qed (rule assms(3))

lemma resolveTags_core: "wp (resolveTags E names) (\<lambda>_. same_core s) (\<lambda>_. same_core s) s"
  unfolding resolveTags_def by (cases names) (simp_all add: wp_simps with_tags_core)

definition prepared :: "uuid \<Rightarrow> uuid \<Rightarrow> bool \<Rightarrow> post_store \<Rightarrow> post \<Rightarrow> bool" where
  "prepared u actor unrestricted s q \<longleftrightarrow>
     (\<exists>p. p \<in> set (ps_posts s) \<and> po_uuid p = u \<and> po_live p \<and> (unrestricted \<or> po_author p = actor) \<and> post_ok q \<and>
        edits p (q\<lparr>po_version := po_version q - 1\<rparr>))"

lemma update_prepare_wp:
  assumes i: "post_inv s"
  shows "wp (update_prepare E u actor unrestricted x) (\<lambda>r t. prepared u actor unrestricted s (fst r) \<and> same_core s t) (\<lambda>_. same_core s) s"
proof (cases "no_fields x")
  case False
  show ?thesis unfolding update_prepare_def if_not_P [OF False] wp_andthen
  proof (rule editablePost_wp [OF i], goal_cases)
    case (1 p)
    note p = 1
    show ?case unfolding wp_andthen
    proof (rule applyUpdate_wp, goal_cases)
      case (2 q n)
      have "prepared u actor unrestricted s (q\<lparr>po_updated := pe_clock E 0, po_version := po_version q + 1\<rparr>)"
        unfolding prepared_def using p 2 by (intro exI [of _ p]) (simp add: edits_def post_ok_def)
      then show ?case unfolding wp_andthen
        by (intro wp_mono [OF resolveTags_core]) (auto simp: wp_simps intro: same_core_trans [OF same_core_refl(2)])
    qed (use post_inv_rows(3) [OF i p(1)] in simp_all)
  qed simp
qed (simp add: update_prepare_def wp_simps)

definition updated :: "uuid \<Rightarrow> post \<Rightarrow> post_store \<Rightarrow> post \<Rightarrow> post_store \<Rightarrow> bool" where
  "updated actor p1 s q t \<longleftrightarrow>
     (\<exists>r. r \<in> set (ps_posts s) \<and> at_version p1 r \<and> po_live r \<and> q = po_put p1 r) \<and> \<not> slug_held (po_slug p1) (po_uuid p1) (ps_posts s) \<and>
     wrote s (put_row q (ps_posts s)) q RevisionUpdate [postEvent ''blog.post.updated'' q (Some actor) (po_updated q)] t \<and>
     ps_notices t = ps_notices s"

lemma syncTags_core: "wp (syncTags E u ts) (\<lambda>_. same_core s) (\<lambda>_ _. True) s"
  unfolding syncTags_def by (cases ts) (simp_all add: wp_simps core_tags)

lemma storeUpdate_wp:
  assumes i: "post_inv s"
  shows "wp (storeUpdate E p1 actor ts) (\<lambda>r t. updated actor p1 s (fst r) t) (\<lambda>_. rolled s) s"
  unfolding storeUpdate_def wp_post_tx wp_andthen_fun
proof (rule po_update_wp [OF post_inv_rows(1) [OF i]], goal_cases)
  case (1 r n)
  note r = 1
  let ?q = "po_put p1 r" and ?s = "s\<lparr>ps_posts := put_row (po_put p1 r) (ps_posts s), calls := n\<rparr>"
  have fin: "updated actor p1 s ?q t"
    if "wrote ?s (ps_posts ?s) ?q RevisionUpdate [postEvent ''blog.post.updated'' ?q (Some actor) (po_updated ?q)] t"
      "ps_notices t = ps_notices s" for t
    using that r unfolding updated_def wrote_rows by auto
  show ?case
  proof (rule core_wp [where ?s0.0 = ?s], goal_cases)
    case (3 x t)
    show ?case
    proof (rule core_revise_wp [OF 3], goal_cases)
      case (3 y t')
      then show ?case by (intro po_record_wp [OF 3(1)]) (use 3(2) fin unrolled in \<open>auto simp: wp_simps\<close>)
    qed (use post_inv_rows(2) [OF i] unrolled in auto)
  qed (simp_all add: unrolled syncTags_core)
qed (simp add: unrolled)

lemma update_finish_wp:
  assumes i: "post_inv s"
  shows "wp (update_finish E actor x) (\<lambda>r t. updated actor (fst x) s (fst r) t) (\<lambda>_. rolled s) s"
  unfolding update_finish_def wp_andthen
  by (rule wp_mono [OF storeUpdate_wp [OF i]]) (auto simp: wp_simps po_invalidate_def updated_def wrote_def)

lemma updated_inv:
  assumes i: "post_inv s" and u: "updated actor p1 s q t" and p: "post_ok p1"
  shows "post_inv t"
proof -
  from u obtain r where r: "r \<in> set (ps_posts s)" "at_version p1 r" "po_live r" "q = po_put p1 r" "\<not> slug_held (po_slug p1) (po_uuid p1) (ps_posts s)"
    "wrote s (put_row q (ps_posts s)) q RevisionUpdate [postEvent ''blog.post.updated'' q (Some actor) (po_updated q)] t"
    unfolding updated_def by blast
  show ?thesis by (rule wrote_inv [OF i r(6)]) (use r p po_put_ok in \<open>simp_all add: at_version_def\<close>)
qed

end
