(* ===== verification/Post_History.thy ===== *)
theory Post_History
  imports Post_Writes Tag_Correct
begin

text \<open>
  Attaching media, restoring a revision, and pruning the history. What a restore brings back is compared
  with the revision it copies.
\<close>

section \<open>Media\<close>

lemma same_core_attached [simp]: "same_core s (s\<lparr>ps_attached := at, calls := n\<rparr>)" "same_core s (s\<lparr>ps_seo := se, calls := n\<rparr>)"
  by (simp_all add: same_core_def)

lemma reads_assets_known [reads_intros]: "reads (assets_known ms)"
  by (induction ms) (auto intro: reads_intros)

text \<open>The attachments of the post are the given ones.\<close>

definition attached :: "uuid \<Rightarrow> media_item list \<Rightarrow> post_store \<Rightarrow> post_store \<Rightarrow> bool" where
  "attached u ms s t \<longleftrightarrow> (\<exists>n. t = s\<lparr>ps_attached := filter (\<lambda>(p, m). p \<noteq> u) (ps_attached s) @ map (Pair u) ms, calls := n\<rparr>)"

lemma ReplaceAll_wp:
  assumes "\<And>t. attached u ms s t \<Longrightarrow> Q () t" "\<And>e t. F e t"
  shows "wp (ReplaceAll u ms) Q F s"
proof -
  let ?A = "filter (\<lambda>(p, m). p \<noteq> u) (ps_attached s)"
  have Q: "Q () (s\<lparr>ps_attached := ?A @ map (Pair u) ms, calls := n\<rparr>)" for n
    by (rule assms(1)) (auto simp: attached_def)
  have "wp (if ms = [] then ret () else andthen (assets_known ms) (\<lambda>_.
     db_call (\<lambda>s. if distinct (map (\<lambda>m. (mi_asset m, mi_kind m)) ms)
                   then (Inr (), s\<lparr>ps_attached := ps_attached s @ map (Pair u) ms\<rparr>)
                   else (Inl StoreFail, s)))) Q G (s\<lparr>ps_attached := ?A, calls := n\<rparr>)" if "\<And>e t. G e t" for n G
  proof (cases "ms = []")
    case False
    then show ?thesis using Q that unfolding if_not_P [OF False]
      by (intro wp_reads_then [OF reads_assets_known]) (simp_all add: wp_simps)
  qed (use Q [of n] in \<open>simp add: wp_simps\<close>)
  note tail = this
  show ?thesis unfolding ReplaceAll_def wp_post_tx
  proof (rule wp_reads_then [OF reads_po_known], goal_cases)
    case (1 x n)
    show ?case unfolding wp_andthen [where m = "db_call _"] wp_db_call wp_basic(5) using assms(2) tail by simp
  qed (rule assms(2))
qed

lemma SetCoverImage_wp:
  assumes d: "distinct (map po_uuid (ps_posts s))" and p: "p \<in> set (ps_posts s)" "po_uuid p = u" "po_live p" and F: "\<And>e t. F e t"
    and Q: "\<And>n. Q () (s\<lparr>ps_posts := put_row (p\<lparr>po_cover := c, po_updated := now\<rparr>) (ps_posts s), calls := n\<rparr>)"
  shows "wp (SetCoverImage u c now) Q F s"
proof -
  let ?f = "\<lambda>r. r\<lparr>po_cover := c, po_updated := now\<rparr>"
  have "map (\<lambda>r. if po_uuid r = u \<and> po_live r then ?f r else r) (ps_posts s) = put_row (?f p) (ps_posts s)"
    by (rule write_is_put [where u = u]) (use d p in simp_all)
  moreover have "list_ex (\<lambda>r. po_uuid r = u \<and> po_live r) (ps_posts s)" using p by (auto simp: list_ex_iff)
  ultimately show ?thesis using Q F unfolding SetCoverImage_def
    by (intro wp_reads_then [OF reads_po_ref]) (simp_all add: wp_simps)
qed

definition illustrated :: "post_env \<Rightarrow> uuid \<Rightarrow> media_item list \<Rightarrow> post_store \<Rightarrow> post_store \<Rightarrow> bool" where
  "illustrated E u ms s t \<longleftrightarrow>
     (\<exists>p q. p \<in> set (ps_posts s) \<and> po_uuid p = u \<and> po_live p \<and>
        q = p\<lparr>po_cover := (if covers ms = [] then None else Some (last (covers ms))), po_updated := pe_clock E 0\<rparr> \<and>
        wrote s (put_row q (ps_posts s)) q RevisionUpdate [] t \<and> ps_notices t = ps_notices s)"

lemma media_finish_wp:
  assumes i: "post_inv s" and p: "p \<in> set (ps_posts s)" "po_uuid p = u" "po_live p"
  shows "wp (media_finish E u (p, ms)) (\<lambda>x t. x = ms \<and> illustrated E u ms s t) (\<lambda>_. rolled s) s"
  unfolding media_finish_def Let_def prod.case wp_post_tx wp_andthen_fun
proof (rule ReplaceAll_wp, goal_cases)
  case (1 t)
  let ?c = "if covers ms = [] then None else Some (last (covers ms))"
  let ?q = "p\<lparr>po_cover := ?c, po_updated := pe_clock E 0\<rparr>"
  let ?s = "s\<lparr>ps_posts := put_row ?q (ps_posts s), calls := 0\<rparr>"
  have t: "same_core s t" using 1 by (auto simp: attached_def)
  then have rows: "ps_posts t = ps_posts s" by (simp add: same_core_def)
  show ?case
  proof (rule SetCoverImage_wp [of _ p], goal_cases)
    case (6 n)
    have c: "same_core ?s (t\<lparr>ps_posts := put_row ?q (ps_posts t), calls := n\<rparr>)" using t by (simp add: same_core_def)
    have "illustrated E u ms s (x\<lparr>ps_invalidated := iv\<rparr>)"
      if "wrote s (put_row ?q (ps_posts s)) ?q RevisionUpdate [] x" "ps_notices x = ps_notices s" for x iv
      unfolding illustrated_def using p that by (intro exI [of _ p] exI [of _ ?q]) (simp add: wrote_def)
    then show ?case
      by (intro core_revise_wp [OF c]) (use post_inv_rows(2) [OF i] in \<open>simp_all add: unrolled wrote_rows wp_simps po_invalidate_def\<close>)
  qed (use rows p post_inv_rows(1) [OF i] in \<open>simp_all add: unrolled\<close>)
qed (simp add: unrolled)

lemma illustrated_inv:
  assumes i: "post_inv s" and m: "illustrated E u ms s t"
  shows "post_inv t"
proof -
  from m obtain p q where p: "p \<in> set (ps_posts s)" "po_live p"
    "q = p\<lparr>po_cover := (if covers ms = [] then None else Some (last (covers ms))), po_updated := pe_clock E 0\<rparr>"
    "wrote s (put_row q (ps_posts s)) q RevisionUpdate [] t" unfolding illustrated_def by blast
  have "po_slug q = po_slug p" "po_uuid q = po_uuid p" using p(3) by simp_all
  then show ?thesis by (intro wrote_inv [OF i p(4)]) (use p(3) post_inv_rows(3,5) [OF i p(1)] p(2) in \<open>simp_all add: post_ok_def\<close>)
qed

lemma reads_normalize [reads_intros]: "reads (normalize_loop lo k ms out)"
proof (induction ms arbitrary: k out)
  case (Cons m ms)
  have "reads (normalizeMediaItem lo k m)" unfolding normalizeMediaItem_def Let_def
    by (intro reads_intros) (simp add: reads_def split: option.split)
  then show ?case using Cons by (auto intro!: reads_intros)
qed (simp add: reads_intros)

lemma livePost_wp:
  assumes i: "post_inv s" and "\<And>p. p \<in> set (ps_posts s) \<Longrightarrow> po_uuid p = u \<Longrightarrow> po_live p \<Longrightarrow> Q p (s\<lparr>calls := Suc (calls s)\<rparr>)"
    "\<And>e. F e (s\<lparr>calls := Suc (calls s)\<rparr>)"
  shows "wp (livePost u) Q F s"
  unfolding livePost_def po_get_def wp_andthen
proof (rule po_one_wp, goal_cases)
  case (1 p)
  then show ?case using post_inv_rows(4) [OF i 1(1)] assms(2,3) by (simp add: wp_simps po_live_def)
qed (rule assms(3))

lemma ReplaceMedia_wp:
  assumes i: "post_inv s"
  shows "wp (ReplaceMedia E u items) (\<lambda>ms. illustrated E u ms s) (\<lambda>_. rolled s) s"
proof (cases "pe_media E")
  case True
  then have m: "media_prepare E u items = andthen (livePost u) (\<lambda>p. andthen (normalize_loop (pe_lower E) 0 items []) (\<lambda>ms.
      if length (covers ms) > 1 then throw (PoValidation ''at most one cover media item allowed'') else ret (p, ms)))"
    by (simp add: media_prepare_def)
  show ?thesis unfolding ReplaceMedia_def m andthen_assoc wp_andthen [where m = "livePost u"]
  proof (rule livePost_wp [OF i], goal_cases)
    case (1 p)
    note p = 1
    show ?case
    proof (rule wp_reads_then [OF reads_normalize], goal_cases)
      case (1 ms n)
      have "wp (media_finish E u (p, ms)) (\<lambda>x t. x = ms \<and> illustrated E u ms (s\<lparr>calls := n\<rparr>) t)
         (\<lambda>_. rolled (s\<lparr>calls := n\<rparr>)) (s\<lparr>calls := n\<rparr>)"
        by (rule media_finish_wp) (use i p in simp_all)
      then have "wp (media_finish E u (p, ms)) (\<lambda>ms. illustrated E u ms s) (\<lambda>_. rolled s) (s\<lparr>calls := n\<rparr>)"
        by (rule wp_mono) (auto simp: illustrated_def wrote_def)
      then show ?case by (cases "1 < length (covers ms)") (simp_all add: wp_simps unrolled)
    qed (simp add: unrolled)
  qed (simp add: unrolled)
qed (simp add: ReplaceMedia_def media_prepare_def wp_simps unrolled)

section \<open>Restoring a revision\<close>

text \<open>What exists now of the things a snapshot may point at.\<close>

definition present :: "post_store \<Rightarrow> references" where
  "present s = \<lparr>rf_categories = ps_categories s, rf_tags = map tag_uuid (ps_tag_rows s), rf_media = ready_ids s\<rparr>"

lemma present_calls [simp]: "present (s\<lparr>calls := n\<rparr>) = present s"
  by (simp add: present_def ready_ids_def)

lemma keep_ref_filter: "set (opt_list r) \<subseteq> set ids \<Longrightarrow> keep_ref (filter (\<lambda>u. u \<in> set ids) known) r = keep_ref known r"
  by (cases r) (simp_all add: keep_ref_def opt_list_def)

lemma filter_found: "set (map f xs) \<subseteq> set ids \<Longrightarrow> filter (\<lambda>x. f x \<in> set (filter (\<lambda>u. u \<in> set ids) known)) xs = filter (\<lambda>x. f x \<in> set known) xs"
  by (rule filter_cong) auto

lemma filter_lost: "set xs \<subseteq> set ids \<Longrightarrow> filter (\<lambda>u. u \<notin> set (filter (\<lambda>u. u \<in> set ids) known)) xs = filter (\<lambda>u. u \<notin> set known) xs"
  by (rule filter_cong) auto

lemma dropMissing_present:
  assumes "refs = snapshotRefs n"
  shows "dropMissing n \<lparr>rf_categories = filter (\<lambda>u. u \<in> set (rf_categories refs)) C, rf_tags = filter (\<lambda>u. u \<in> set (rf_tags refs)) T,
     rf_media = filter (\<lambda>u. u \<in> set (rf_media refs)) M\<rparr> tk = dropMissing n \<lparr>rf_categories = C, rf_tags = T, rf_media = M\<rparr> tk"
proof -
  have c: "set (opt_list (sn_category n)) \<subseteq> set (rf_categories refs)" "set (map fst (sn_tags n)) \<subseteq> set (rf_tags refs)"
    "set (map mi_asset (sn_media n)) \<subseteq> set (rf_media refs)" "set (opt_list (sn_cover n)) \<subseteq> set (rf_media refs)"
    "set (opt_list (og_image (sn_seo n))) \<subseteq> set (rf_media refs)" "set (opt_list (twitter_image (sn_seo n))) \<subseteq> set (rf_media refs)"
    using assms by (auto simp: snapshotRefs_def)
  show ?thesis unfolding dropMissing_def references.simps skipped_media_def assms [symmetric]
    keep_ref_filter [OF c(1)] keep_ref_filter [OF c(4)] keep_ref_filter [OF c(5)] keep_ref_filter [OF c(6)]
    filter_found [OF c(2)] filter_found [OF c(3)] filter_lost [OF c(1)] filter_lost [OF c(2)] filter_lost [OF order_refl]
    by (rule refl)
qed

lemma lookup_ids_wp:
  assumes "\<And>n. Q (filter (\<lambda>u. u \<in> set ids) (known s)) (s\<lparr>calls := n\<rparr>)" "\<And>e n. F e (s\<lparr>calls := n\<rparr>)" "\<And>n. known (s\<lparr>calls := n\<rparr>) = known s"
  shows "wp (lookup_ids known ids) Q F s"
proof -
  have "Q (filter (\<lambda>u. u \<in> set ids) (known s)) s" using assms(1) [of "calls s"] by simp
  then show ?thesis using assms by (cases "ids = []") (simp_all add: lookup_ids_def wp_simps)
qed

lemma Existing_wp:
  assumes "\<And>n. Q \<lparr>rf_categories = filter (\<lambda>u. u \<in> set (rf_categories refs)) (ps_categories s),
      rf_tags = filter (\<lambda>u. u \<in> set (rf_tags refs)) (map tag_uuid (ps_tag_rows s)),
      rf_media = filter (\<lambda>u. u \<in> set (rf_media refs)) (ready_ids s)\<rparr> (s\<lparr>calls := n\<rparr>)" "\<And>e n. F e (s\<lparr>calls := n\<rparr>)"
  shows "wp (Existing refs) Q F s"
  unfolding Existing_def wp_andthen_fun
  by (intro lookup_ids_wp) (use assms in \<open>simp_all add: wp_simps ready_ids_def\<close>)

definition slug_lost :: "post_store \<Rightarrow> post \<Rightarrow> rev_snapshot \<Rightarrow> bool" where
  "slug_lost s p n \<longleftrightarrow> sn_slug n \<noteq> po_slug p \<and> slug_held (sn_slug n) (po_uuid p) (ps_posts s)"

text \<open>The snapshot a restore stores, and what it skips.\<close>

definition restorable_now :: "post_store \<Rightarrow> post \<Rightarrow> rev_snapshot \<Rightarrow> rev_snapshot \<times> skips" where
  "restorable_now s p n =
     dropMissing (if slug_lost s p n then n\<lparr>sn_slug := po_slug p\<rparr> else n) (present s) (if slug_lost s p n then Some (sn_slug n) else None)"

lemma restorable_wp:
  assumes Q: "\<And>k. Q (restorable_now s p n) (s\<lparr>calls := k\<rparr>)" and F: "\<And>e k. F e (s\<lparr>calls := k\<rparr>)"
  shows "wp (restorable p n) Q F s"
proof -
  let ?m = "if slug_lost s p n then n\<lparr>sn_slug := po_slug p\<rparr> else n" and ?tk = "if slug_lost s p n then Some (sn_slug n) else None"
  have ex: "wp (Existing (snapshotRefs ?m)) (\<lambda>existing. wp (ret (dropMissing ?m existing ?tk)) Q F) F (s\<lparr>calls := k\<rparr>)" for k
    by (rule Existing_wp) (use Q F in \<open>simp_all add: wp_const dropMissing_present [OF refl] restorable_now_def present_def ready_ids_def\<close>)
  have "wp (if sn_slug n = po_slug p then ret False else SlugTaken (sn_slug n) (po_uuid p))
      (\<lambda>taken. wp (Existing (snapshotRefs (if taken then n\<lparr>sn_slug := po_slug p\<rparr> else n)))
        (\<lambda>existing. wp (ret (dropMissing (if taken then n\<lparr>sn_slug := po_slug p\<rparr> else n) existing (if taken then Some (sn_slug n) else None))) Q F) F) F s"
    using ex ex [of "calls s"] F by (cases "sn_slug n = po_slug p") (simp_all add: slug_lost_def SlugTaken_def wp_basic wp_db_call)
  then show ?thesis unfolding restorable_def Let_def wp_andthen_fun .
qed

lemma snapshot_fields_kept:
  assumes "restorable_now s p n = (m, sk)"
  shows "sn_title m = sn_title n" "sn_excerpt m = sn_excerpt n" "sn_content m = sn_content n" "sn_policy m = sn_policy n"
    "sn_slug m = (if slug_lost s p n then po_slug p else sn_slug n)" "set (map fst (sn_tags m)) \<subseteq> set (map tag_uuid (ps_tag_rows s))"
  using assms by (auto simp: restorable_now_def dropMissing_def present_def split: if_splits)

lemma relink_wp:
  assumes i: "tag_inv (tag_view s)" and F: "\<And>e t. F e t"
    and Q: "\<And>ls iv n. {x. (u, x) \<in> set ls} = set ids \<Longrightarrow> Q () (s\<lparr>ps_tag_links := ls, ps_invalidated := iv, calls := n\<rparr>)"
  shows "wp (with_tags (ReplacePostTags u ids)) Q F s"
proof -
  obtain r t where t: "ReplacePostTags u ids (tag_view s) = (r, t)" by (rule prod.exhaust)
  show ?thesis
  proof (cases r)
    case (Inr x)
    have l: "relinked u ids (tag_view s) t" using ReplacePostTags_wp [of u ids "tag_view s"] t Inr by (simp add: wp_def)
    have "{x. (u, x) \<in> set (tag_links t)} = set ids" by (rule relinked_inv(2) [OF i l])
    moreover have "tag_rows t = ps_tag_rows s" using l by (simp add: relinked_def tag_view_def)
    ultimately show ?thesis using t Inr Q by (simp add: wp_def with_tags_def)
  qed (use t F in \<open>simp add: wp_def with_tags_def\<close>)
qed

lemma seo_save_wp:
  assumes "\<And>n. Q () (s\<lparr>ps_seo := (u, e) # filter (\<lambda>(p, x). p \<noteq> u) (ps_seo s), calls := n\<rparr>)" "\<And>e t. F e t"
  shows "wp (seo_save u e) Q F s"
  unfolding seo_save_def
  by (intro wp_reads_then [OF reads_po_known] wp_reads_then [OF reads_po_ref]) (use assms in \<open>simp_all add: wp_simps\<close>)

text \<open>A snapshot that shows a post with the tags, media and SEO of another snapshot.\<close>

definition shows_back :: "post_env \<Rightarrow> rev_snapshot \<Rightarrow> post \<Rightarrow> rev_snapshot \<Rightarrow> bool" where
  "shows_back E n q m \<longleftrightarrow>
     m = SnapshotOf q (sn_tags m) (if pe_media E then sort_key mi_sort (sn_media n) else []) (sn_seo n) \<and>
     set (map fst (sn_tags m)) = set (map fst (sn_tags n))"

lemma snap_shows_back:
  assumes "set (map fst (sn_tags n)) \<subseteq> set (map tag_uuid (ps_tag_rows t))" "{x. (po_uuid q, x) \<in> set (ps_tag_links t)} = set (map fst (sn_tags n))"
    "pe_media E \<Longrightarrow> map snd (filter (\<lambda>(p, m). p = po_uuid q) (ps_attached t)) = sn_media n" "map_of (ps_seo t) (po_uuid q) = Some (sn_seo n)"
  shows "shows_back E n q (snap_now E t q)"
proof -
  have "fst ` set (map (\<lambda>t. (tag_uuid t, tag_name t)) (tags_now E t (po_uuid q))) = set (map fst (sn_tags n))"
    using assms(1,2) by (auto simp: tags_now_def image_iff) force+
  then have "set (map fst (map (\<lambda>t. (tag_uuid t, tag_name t)) (tags_now E t (po_uuid q)))) = set (map fst (sn_tags n))" by (simp add: image_image)
  then show ?thesis using assms(3,4) by (simp add: shows_back_def snap_now_def media_now_def seo_now_def SnapshotOf_def)
qed

lemma tag_view_rows [simp]:
  "tag_view (s\<lparr>ps_posts := put_row q (ps_posts s)\<rparr>) = tag_view s"
  "tag_view (s\<lparr>calls := n\<rparr>) = (tag_view s)\<lparr>calls := n\<rparr>"
  by (simp_all add: tag_view_def)

definition restored_to :: "post_env \<Rightarrow> post \<Rightarrow> rev_snapshot \<Rightarrow> post_store \<Rightarrow> post \<Rightarrow> revision \<Rightarrow> post_store \<Rightarrow> bool" where
  "restored_to E p n s q r t \<longleftrightarrow>
     q = restored_post p n (pe_clock E 0) \<and> \<not> slug_held (sn_slug n) (po_uuid p) (ps_posts s) \<and>
     wrote s (put_row q (ps_posts s)) q RevisionRestore [] t \<and> shows_back E n q (rv_snapshot r) \<and>
     ps_revisions t = ps_revisions s @ [rv_stored s r] \<and> ps_notices t = ps_notices s"

lemma storeRestore_wp:
  assumes i: "post_inv s" "tag_inv (tag_view s)" and p: "p \<in> set (ps_posts s)" "po_live p" and n: "policy_Valid (sn_policy n)"
    "set (map fst (sn_tags n)) \<subseteq> set (map tag_uuid (ps_tag_rows s))" and F: "\<And>e t. F e t"
    and Q: "\<And>q ts r t. restored_to E p n s q r t \<Longrightarrow> Q (q, ts, r) t"
  shows "wp (storeRestore E (restored_post p n (pe_clock E 0)) n actor source) Q F s"
  unfolding storeRestore_def wp_andthen_fun
proof (rule po_update_wp [OF post_inv_rows(1) [OF i(1)]], goal_cases)
  case (1 r0 k)
  let ?p1 = "restored_post p n (pe_clock E 0)"
  let ?s = "s\<lparr>ps_posts := put_row ?p1 (ps_posts s), calls := k\<rparr>"
  have "r0 = p" by (rule at_version_row [OF post_inv_rows(1) [OF i(1)] p(1) 1(1,2)]) (simp add: restored_post_def)
  then have q: "po_put ?p1 r0 = ?p1" using n(1) by (simp add: po_put_edit restored_post_def)
  have u: "po_uuid ?p1 = po_uuid p" by (simp add: restored_post_def)
  have held: "\<not> slug_held (sn_slug n) (po_uuid p) (ps_posts s)" using 1(4) by (simp add: restored_post_def)
  have tv: "tag_inv (tag_view ?s)" using i(2) by simp
  show ?case unfolding q
  proof (rule relink_wp [OF tv], goal_cases)
    case (2 ls iv k2)
    note links = 2
    let ?s2 = "?s\<lparr>ps_tag_links := ls, ps_invalidated := iv, calls := k2\<rparr>"
    have fin: "wp (seo_save (po_uuid ?p1) (sn_seo n)) (\<lambda>_. wp (revise E 1 ?p1 RevisionRestore (Some actor) (Some source)) (\<lambda>r. Q (?p1, ts, r)) F) F t"
      if t: "t = ?s2\<lparr>ps_attached := at, calls := j\<rparr>" "pe_media E \<Longrightarrow> map snd (filter (\<lambda>(p, m). p = po_uuid ?p1) at) = sn_media n" for t ts at j
    proof (rule seo_save_wp, goal_cases)
      case (1 m)
      let ?t = "t\<lparr>ps_seo := (po_uuid ?p1, sn_seo n) # filter (\<lambda>(p, x). p \<noteq> po_uuid ?p1) (ps_seo t), calls := m\<rparr>"
      have c: "same_core ?s ?t" using t(1) by (simp add: same_core_def)
      have sb: "shows_back E n ?p1 (snap_now E ?t ?p1)" by (rule snap_shows_back) (use t n links in simp_all)
      show ?case
      proof (rule core_revise_wp [OF c], goal_cases)
        case (3 r x)
        have "restored_to E p n s ?p1 r x" using 3 sb held by (simp add: restored_to_def wrote_rows)
        then show ?case by (rule Q)
      qed (use post_inv_rows(2) [OF i(1)] F in simp_all)
    qed (rule F)
    have at: "map snd (filter (\<lambda>(p, m). p = u) (filter (\<lambda>(p, m). p \<noteq> u) xs @ map (Pair u) ms)) = ms" for u :: uuid and xs ms
      by (induction xs) (auto simp: filter_map comp_def)
    show ?case
    proof (rule wp_tags_of_post, goal_cases)
      case 1
      show ?case
      proof (cases "pe_media E")
        case True
        show ?thesis unfolding if_P [OF True] wp_andthen
        proof (rule ReplaceAll_wp, goal_cases)
          case (1 t)
          then obtain j where "t = ?s2\<lparr>ps_attached := filter (\<lambda>(p, m). p \<noteq> po_uuid ?p1) (ps_attached s) @ map (Pair (po_uuid ?p1)) (sn_media n), calls := j\<rparr>"
            by (auto simp: attached_def)
          then show ?case unfolding wp_andthen_fun wp_const by (rule fin) (rule at)
        qed (rule F)
      next
        case False
        then show ?thesis using fin [where at = "ps_attached s" and j = "Suc k2"] by (simp add: wp_simps)
      qed
    qed (rule F)
  qed (rule F)
qed (rule F)

end
