(* ===== verification/Post_Invariant.thy ===== *)
theory Post_Invariant
  imports Post_History
begin

text \<open>
  Restoring and pruning revisions, the tags of posts, and the invariant of the post tables under every
  sequence of requests.
\<close>

section \<open>Restoring a revision\<close>

definition meant :: "revision_ref \<Rightarrow> revision \<Rightarrow> bool" where
  "meant ref r \<longleftrightarrow> (case ref of ByUUID x \<Rightarrow> rv_uuid r = x | ByNumber n \<Rightarrow> rv_number r = n)"

lemma rv_get_wp:
  assumes "\<And>r. r \<in> set (ps_revisions s) \<Longrightarrow> rv_post r = u \<Longrightarrow> meant ref r \<Longrightarrow> Q r (s\<lparr>calls := Suc (calls s)\<rparr>)"
    "\<And>e. F e (s\<lparr>calls := Suc (calls s)\<rparr>)"
  shows "wp (rv_get u ref) Q F s"
proof -
  have one: "wp (rv_one P) Q F s" if P: "\<And>r. P r \<Longrightarrow> rv_post r = u \<and> meant ref r" for P
  proof (cases "rev (sort_key rv_number (filter P (ps_revisions s)))")
    case (Cons r rs)
    then have "r \<in> set (filter P (ps_revisions s))" by (metis list.set_intros(1) set_rev set_sort)
    then show ?thesis using assms P Cons by (simp add: wp_def rv_one_def db_call_def Let_def)
  qed (use assms in \<open>simp add: wp_def rv_one_def db_call_def Let_def\<close>)
  show ?thesis unfolding rv_get_def by (cases ref) (auto intro!: one simp: meant_def)
qed

definition restored ::
  "post_env \<Rightarrow> uuid \<Rightarrow> revision_ref \<Rightarrow> uuid \<Rightarrow> bool \<Rightarrow> post_store \<Rightarrow> post \<times> tag list \<times> revision \<times> skips \<Rightarrow> post_store \<Rightarrow> bool" where
  "restored E u ref actor unrestricted s x t \<longleftrightarrow>
     (\<exists>p src n q ts r sk. p \<in> set (ps_posts s) \<and> po_uuid p = u \<and> po_live p \<and> (unrestricted \<or> po_author p = actor) \<and>
        src \<in> set (ps_revisions s) \<and> rv_post src = u \<and> meant ref src \<and>
        restorable_now s p (rv_snapshot src) = (n, sk) \<and> x = (q, ts, r, sk) \<and> restored_to E p n s q r t)"

lemma restored_to_frame:
  "restored_to E p n (s\<lparr>calls := k\<rparr>) q r t = restored_to E p n s q r t"
  "restored_to E p n s q r (t\<lparr>ps_invalidated := iv\<rparr>) = restored_to E p n s q r t"
  unfolding restored_to_def wrote_frame by simp_all

lemma RestoreRevision_wp:
  assumes i: "post_inv s" "tag_inv (tag_view s)"
  shows "wp (RestoreRevision E u ref actor unrestricted note) (restored E u ref actor unrestricted s) (\<lambda>_. rolled s) s"
proof (cases "length note > 1000")
  case False
  show ?thesis unfolding RestoreRevision_def if_not_P [OF False] wp_andthen_fun
  proof (rule editablePost_wp [OF i(1)], goal_cases)
    case (1 p)
    note p = 1
    show ?case
    proof (rule rv_get_wp, goal_cases)
      case (1 src)
      then have src: "src \<in> set (ps_revisions s)" "rv_post src = u" "meant ref src" by simp_all
      let ?c = "s\<lparr>calls := Suc (Suc (calls s))\<rparr>"
      obtain n sk where n: "restorable_now s p (rv_snapshot src) = (n, sk)" by (rule prod.exhaust)
      have nk: "restorable_now (s\<lparr>calls := k\<rparr>) p (rv_snapshot src) = (n, sk)" for k
        using n by (simp add: restorable_now_def slug_lost_def)
      have ok: "policy_Valid (sn_policy n)" "set (map fst (sn_tags n)) \<subseteq> set (map tag_uuid (ps_tag_rows s))"
        using snapshot_fields_kept [OF n] post_inv_rows(6) [OF i(1) src(1)] by (simp_all add: snap_ok_def)
      show ?case
      proof (rule restorable_wp, goal_cases)
        case (1 k)
        have i1: "post_inv (s\<lparr>calls := k\<rparr>)" "tag_inv (tag_view (s\<lparr>calls := k\<rparr>))" using i by simp_all
        have "restored E u ref actor unrestricted s (q, ts, r, sk) (t\<lparr>ps_invalidated := iv\<rparr>)"
          if t: "restored_to E p n (s\<lparr>calls := k\<rparr>) q r t" for q ts r t iv
        proof -
          have "restored_to E p n s q r (t\<lparr>ps_invalidated := iv\<rparr>)" using t by (simp add: restored_to_frame)
          then show ?thesis unfolding restored_def using p src n by blast
        qed
        then have "wp (post_tx (storeRestore E (restored_post p n (pe_clock E 0)) n actor (src, note)))
            (\<lambda>x. wp (case x of (q, ts, r) \<Rightarrow> andthen po_invalidate (\<lambda>_. ret (q, ts, r, sk))) (restored E u ref actor unrestricted s) (\<lambda>_. rolled s))
            (\<lambda>_. rolled s) (s\<lparr>calls := k\<rparr>)"
          unfolding wp_post_tx by (intro storeRestore_wp [OF i1]) (use p ok in \<open>simp_all add: wp_simps po_invalidate_def\<close>)
        then show ?case using nk by (simp add: wp_andthen_fun)
      qed simp
    qed simp
  qed simp
qed (simp add: RestoreRevision_def wp_simps)

lemma restored_inv:
  assumes i: "post_inv s" and r: "restored E u ref actor unrestricted s x t"
  shows "post_inv t"
proof -
  from r obtain p src n sk q r where p: "p \<in> set (ps_posts s)" "src \<in> set (ps_revisions s)"
    "restorable_now s p (rv_snapshot src) = (n, sk)" "restored_to E p n s q r t" unfolding restored_def by blast
  have q: "q = restored_post p n (pe_clock E 0)" "\<not> slug_held (sn_slug n) (po_uuid p) (ps_posts s)"
    "wrote s (put_row q (ps_posts s)) q RevisionRestore [] t" using p(4) unfolding restored_to_def by blast+
  note k = snapshot_fields_kept [OF p(3)]
  have "post_ok q"
    using post_inv_rows(3) [OF i p(1)] post_inv_rows(6) [OF i p(2)] k by (simp add: q(1) post_ok_def snap_ok_def restored_post_def)
  then show ?thesis by (rule wrote_inv [OF i q(3)]) (use q in \<open>simp add: restored_post_def\<close>)
qed

section \<open>Pruning\<close>

text \<open>Revisions a prune keeps are those of a rank up to the given one; the newest of a post has rank 1.\<close>

lemma newest_rank:
  assumes n: "numbers_ok revs" and h: "hist u revs \<noteq> []"
  shows "rv_rank revs (last (hist u revs)) = 1"
proof -
  let ?h = "hist u revs" and ?l = "last (hist u revs)"
  have l: "?l \<in> set ?h" "rv_post ?l = u" using last_in_set [OF h] by (simp_all add: hist_def)
  obtain hs where hs: "?h = hs @ [?l]" using h by (metis append_butlast_last_id)
  have "sorted_wrt (<) (map rv_number (hs @ [?l]))" using n hs by (metis numbers_ok_def)
  then have "\<forall>q \<in> set hs. rv_number q < rv_number ?l" by (simp add: sorted_wrt_append)
  then have "filter (\<lambda>q. rv_number ?l \<le> rv_number q) (hs @ [?l]) = [?l]" by (auto simp: filter_empty_conv)
  moreover have "filter (\<lambda>q. rv_post q = rv_post ?l \<and> rv_number ?l \<le> rv_number q) revs = filter (\<lambda>q. rv_number ?l \<le> rv_number q) ?h"
    unfolding l(2) by (simp add: hist_def conj_commute)
  ultimately show ?thesis using hs by (simp add: rv_rank_def)
qed

text \<open>A prune keeps the order of the revisions and everything of them but a source that is gone.\<close>

definition pruned :: "int \<Rightarrow> revision list \<Rightarrow> revision list \<Rightarrow> bool" where
  "pruned keep revs revs' \<longleftrightarrow> (\<exists>gone. revs' = map (unsourced gone) (filter (\<lambda>r. \<not> int (rv_rank revs r) > keep) revs))"

lemma unsourced_fields [simp]:
  "rv_uuid (unsourced gone r) = rv_uuid r" "rv_post (unsourced gone r) = rv_post r" "rv_number (unsourced gone r) = rv_number r"
  "rv_snapshot (unsourced gone r) = rv_snapshot r" "mirrors (unsourced gone r) p = mirrors r p"
  by (simp_all add: unsourced_def mirrors_def split: option.split)

lemma Prune_wp:
  "wp (rv_Prune keep) (\<lambda>n t. 1 \<le> keep \<and> n + length (ps_revisions t) = length (ps_revisions s) \<and>
       (\<exists>revs k. pruned keep (ps_revisions s) revs \<and> t = s\<lparr>ps_revisions := revs, calls := k\<rparr>)) (\<lambda>_. rolled s) s"
proof (cases "keep < 1")
  case False
  have "length (filter (\<lambda>r. int (rv_rank (ps_revisions s) r) > keep) (ps_revisions s)) +
      length (filter (\<lambda>r. \<not> int (rv_rank (ps_revisions s) r) > keep) (ps_revisions s)) = length (ps_revisions s)"
    by (rule sum_length_filter_compl)
  then show ?thesis using False
    by (simp add: rv_Prune_def wp_db_call Let_def wp_def [of "\<lambda>s. (Inr (_ s), _ s)"] pruned_def) blast
qed (simp add: rv_Prune_def wp_simps)

lemma hist_pruned:
  "hist u (map (unsourced gone) (filter P revs)) = map (unsourced gone) (filter P (hist u revs))"
  by (simp add: hist_def filter_map comp_def conj_commute)

lemma pruned_inv:
  assumes i: "posts_inv rows revs" and k: "1 \<le> keep" "pruned keep revs revs'"
  shows "posts_inv rows revs'"
proof -
  let ?P = "\<lambda>r. \<not> int (rv_rank revs r) > keep"
  obtain gone where r: "revs' = map (unsourced gone) (filter ?P revs)" using k(2) unfolding pruned_def by blast
  have n: "numbers_ok revs" using i by (simp add: posts_inv_def)
  have "sorted_wrt (<) (map rv_number (hist u revs'))" for u
    unfolding r hist_pruned using n by (simp add: numbers_ok_def sorted_wrt_map comp_def sorted_wrt_filter)
  moreover have "tracked revs' x" if x: "tracked revs x" for x
  proof -
    have h: "hist (po_uuid x) revs \<noteq> []" using x by (simp add: tracked_def)
    obtain hs where hs: "hist (po_uuid x) revs = hs @ [last (hist (po_uuid x) revs)]" using h by (metis append_butlast_last_id)
    have "?P (last (hist (po_uuid x) revs))" using newest_rank [OF n h] k(1) by simp
    then have "filter ?P (hist (po_uuid x) revs) = filter ?P hs @ [last (hist (po_uuid x) revs)]"
      by (subst hs) simp
    then show ?thesis using x by (simp add: tracked_def r hist_pruned)
  qed
  ultimately show ?thesis using i
    by (simp add: posts_inv_def numbers_ok_def list_all_iff r distinct_map_filter comp_def)
qed


end
