(* ===== verification/Post_Run.thy ===== *)
theory Post_Run
  imports Post_Invariant
begin

text \<open>
  The requests of the post service as a whole: the tags of posts stay those of the tag service, and every
  request keeps the invariant of the tables.
\<close>

section \<open>The tags of posts\<close>

definition keeps_tags :: "'a post_comp \<Rightarrow> bool" where
  "keeps_tags m \<longleftrightarrow> (\<forall>s. tag_inv (tag_view s) \<longrightarrow> tag_inv (tag_view (snd (m s))))"

named_theorems tag_keeps

lemma keepsD: "keeps_tags m \<Longrightarrow> tag_inv (tag_view s) \<Longrightarrow> tag_inv (tag_view (snd (m s)))"
  by (simp add: keeps_tags_def)

lemma tag_view_frame [simp]:
  "tag_view (s\<lparr>ps_revisions := rs\<rparr>) = tag_view s" "tag_view (s\<lparr>ps_events := es\<rparr>) = tag_view s"
  "tag_view (s\<lparr>ps_attached := at\<rparr>) = tag_view s" "tag_view (s\<lparr>ps_seo := se\<rparr>) = tag_view s"
  "tag_view (s\<lparr>ps_notices := no\<rparr>) = tag_view s" "tag_view (s\<lparr>ps_invalidated := iv\<rparr>) = (tag_view s)\<lparr>tag_invalidated := iv\<rparr>"
  by (simp_all add: tag_view_def)

lemma keeps_reads: "reads m \<Longrightarrow> keeps_tags m"
  unfolding keeps_tags_def reads_def unchanged_def by (metis tag_view_rows(2) tag_inv_calls)

lemma keeps_andthen [tag_keeps]: "keeps_tags m \<Longrightarrow> (\<And>x. keeps_tags (f x)) \<Longrightarrow> keeps_tags (andthen m f)"
  unfolding keeps_tags_def andthen_def by (simp split: prod.split sum.split) (metis snd_conv)

lemma keeps_post_tx [tag_keeps]: "keeps_tags m \<Longrightarrow> keeps_tags (post_tx m)"
  unfolding keeps_tags_def post_tx_def by (simp split: prod.split sum.split) (metis snd_conv)

lemma keeps_if [tag_keeps]: "keeps_tags a \<Longrightarrow> keeps_tags b \<Longrightarrow> keeps_tags (if c then a else b)"
  by simp

lemma keeps_db_call [tag_keeps]: "keeps_tags m \<Longrightarrow> keeps_tags (db_call m)"
  unfolding keeps_tags_def db_call_def Let_def by (simp del: calls_last) 

lemma keeps_fun:
  assumes "\<And>s. tag_inv (tag_view s) \<Longrightarrow> tag_inv (tag_view (snd (m s)))"
  shows "keeps_tags m"
  using assms by (simp add: keeps_tags_def)

lemma keeps_change: "(\<And>s. tag_view (f s) = tag_view s) \<Longrightarrow> keeps_tags (change f)"
  by (simp add: keeps_tags_def change_run)

lemma keeps_with_tags:
  assumes "\<And>s. tag_inv s \<Longrightarrow> wp m (\<lambda>_ t. tag_inv t \<and> tag_posts t = tag_posts s) (\<lambda>_ t. tag_inv t \<and> tag_posts t = tag_posts s) s"
  shows "keeps_tags (with_tags m)"
proof (rule keeps_fun)
  fix s assume i: "tag_inv (tag_view s)"
  obtain r t where t: "m (tag_view s) = (r, t)" by (rule prod.exhaust)
  have "tag_inv t" "tag_posts t = map po_uuid (ps_posts s)"
    using assms [OF i] t by (cases r; simp add: wp_def tag_view_def)+
  then show "tag_inv (tag_view (snd (with_tags m s)))" using t
    by (simp add: with_tags_def tag_view_def tag_inv_def tag_uuids_def)
qed

lemma keeps_ReplacePostTags [tag_keeps]: "keeps_tags (with_tags (ReplacePostTags u ids))"
proof (rule keeps_with_tags)
  fix s assume i: "tag_inv s"
  show "wp (ReplacePostTags u ids) (\<lambda>_ t. tag_inv t \<and> tag_posts t = tag_posts s) (\<lambda>_ t. tag_inv t \<and> tag_posts t = tag_posts s) s"
    by (rule wp_mono [OF ReplacePostTags_wp]) (use i relinked_inv(1) [OF i] in \<open>auto simp: relinked_def unchanged_def\<close>)
qed

lemma keeps_ResolveOrCreate [tag_keeps]: "keeps_tags (with_tags (ResolveOrCreate lo gen clk names))"
  unfolding ResolveOrCreate_def by (rule keeps_with_tags, rule wp_mono [OF resolve_loop_wp]) (auto simp: grown_def)

lemma keeps_rows:
  assumes "\<And>r. po_uuid (f r) = po_uuid r"
  shows "tag_view (s\<lparr>ps_posts := map f (ps_posts s)\<rparr>) = tag_view s"
  using assms by (simp add: tag_view_def comp_def)

lemma keeps_option [tag_keeps]:
  "keeps_tags a \<Longrightarrow> (\<And>x. keeps_tags (f x)) \<Longrightarrow> keeps_tags (case v of None \<Rightarrow> a | Some x \<Rightarrow> f x)"
  by (simp split: option.split)

lemma keeps_basic [tag_keeps]: "keeps_tags (ret x)" "keeps_tags (throw e)" "keeps_tags (raise r)" "keeps_tags (of_result y)"
  by (intro keeps_reads reads_intros)+

lemma keeps_asks [tag_keeps]: "keeps_tags (asks f)"
  by (intro keeps_reads reads_intros)

lemma reads_po_one [reads_intros]: "reads (po_one P)"
  unfolding po_one_def by (intro reads_intros readsI) (simp split: option.split)

lemma reads_latest_opt: "reads (latest_opt u)"
proof -
  have "reads (Latest u)" unfolding Latest_def rv_one_def by (intro reads_intros readsI) (simp split: list.split)
  then show ?thesis unfolding reads_def latest_opt_def by (simp split: prod.split sum.split) (metis snd_conv)
qed

lemmas keeps_read_steps [tag_keeps] =
  reads_po_known [THEN keeps_reads] reads_po_ref [THEN keeps_reads] reads_po_one [THEN keeps_reads]
  reads_assets_known [THEN keeps_reads] reads_latest_opt [THEN keeps_reads] reads_tags_of_post [THEN keeps_reads]
  reads_normalize [THEN keeps_reads]

lemma keeps_po_create [tag_keeps]: "keeps_tags (po_create p)"
proof -
  have "keeps_tags (\<lambda>s. if max_rows \<le> length (ps_posts s) then (Inl StoreFail, s)
       else if po_uuid p \<in> set (post_ids s) \<or> slug_held (po_slug p) (po_uuid p) (ps_posts s)
       then (Inl (Err PoConflict), s)
       else let r = p\<lparr>po_deleted := None\<rparr> in (Inr (mapPost r), s\<lparr>ps_posts := ps_posts s @ [r]\<rparr>))"
    by (rule keeps_fun) (auto simp: Let_def tag_view_def tag_inv_def tag_uuids_def)
  then show ?thesis unfolding po_create_def by (intro tag_keeps)
qed

lemma keeps_po_write:
  assumes "\<And>r. po_uuid (f r) = po_uuid r"
  shows "keeps_tags (po_write P f g u)"
proof -
  have v: "tag_view (s\<lparr>ps_posts := map (\<lambda>r. if P r then f r else r) (ps_posts s)\<rparr>) = tag_view s" for s
    by (rule keeps_rows) (simp add: assms)
  show ?thesis unfolding po_write_def by (intro keeps_db_call keeps_fun) (simp add: v)
qed

lemma keeps_po_ops [tag_keeps]:
  "keeps_tags (po_update p)" "keeps_tags (po_restore p)" "keeps_tags (SetCoverImage u c at)" "keeps_tags (po_soft_delete p)"
proof -
  show "keeps_tags (po_update p)" unfolding po_update_def po_get_def
    by (intro tag_keeps keeps_po_write) (simp add: po_put_def)
  show "keeps_tags (po_restore p)" unfolding po_restore_def po_get_def po_get_deleted_def
    by (intro tag_keeps keeps_po_write) simp
  have v: "tag_view (s\<lparr>ps_posts := map (\<lambda>r. if po_uuid r = u \<and> po_live r then r\<lparr>po_cover := c, po_updated := at\<rparr> else r) (ps_posts s)\<rparr>) = tag_view s" for s
    by (rule keeps_rows) simp
  show "keeps_tags (SetCoverImage u c at)" unfolding SetCoverImage_def
    by (intro tag_keeps keeps_fun) (simp add: v)
  have v: "tag_view (s\<lparr>ps_posts := map (\<lambda>r. if at_version p r \<and> po_live r
      then r\<lparr>po_deleted := po_deleted p, po_updated := po_updated p, po_version := po_version p\<rparr> else r) (ps_posts s)\<rparr>) = tag_view s" for s
    by (rule keeps_rows) simp
  have "keeps_tags (\<lambda>s.
       if \<not> list_ex (\<lambda>r. at_version p r \<and> po_live r) (ps_posts s) then (Inr False, s)
       else (Inr True, s\<lparr>ps_posts := map (\<lambda>r. if at_version p r \<and> po_live r
          then r\<lparr>po_deleted := po_deleted p, po_updated := po_updated p, po_version := po_version p\<rparr> else r) (ps_posts s)\<rparr>))"
    by (rule keeps_fun) (simp add: v)
  then show "keeps_tags (po_soft_delete p)" unfolding po_soft_delete_def po_get_def by (intro tag_keeps)
qed

lemma keeps_records [tag_keeps]: "keeps_tags (po_record e)" "keeps_tags po_invalidate" "keeps_tags (rv_create r)"
  "keeps_tags (seo_save u se)"
  unfolding po_record_def po_invalidate_def rv_create_def seo_save_def
  by (intro tag_keeps keeps_fun, simp add: change_run)+

lemma keeps_Prune [tag_keeps]: "keeps_tags (rv_Prune keep)"
  unfolding rv_Prune_def Let_def by (intro tag_keeps keeps_fun) simp

lemma keeps_ReplaceAll [tag_keeps]: "keeps_tags (ReplaceAll u ms)"
proof -
  have "keeps_tags (\<lambda>s. if distinct (map (\<lambda>m. (mi_asset m, mi_kind m)) ms)
     then (Inr (), s\<lparr>ps_attached := ps_attached s @ map (Pair u) ms\<rparr>) else (Inl StoreFail, s))"
    "keeps_tags (change (\<lambda>s. s\<lparr>ps_attached := filter (\<lambda>(p, m). p \<noteq> u) (ps_attached s)\<rparr>))"
    by (rule keeps_fun, simp add: change_run)+
  then show ?thesis unfolding ReplaceAll_def by (intro tag_keeps)
qed

lemma keeps_revise [tag_keeps]: "keeps_tags (revise E k p typ actor source)"
  unfolding revise_def post_snapshot_def media_of_post_def seo_get_def
  by (intro tag_keeps)

lemma keeps_withFreeSlug [tag_keeps]:
  assumes "\<And>g. keeps_tags (write g)"
  shows "keeps_tags (withFreeSlug base write)"
proof -
  have "reads (freeSlug base)" unfolding freeSlug_def SlugsWithPrefix_def by (intro reads_intros)
  then have f: "keeps_tags (freeSlug base)" by (rule keeps_reads)
  have "keeps_tags (slug_attempts k e base write)" for k e
  proof (induction k arbitrary: e)
    case (Suc k)
    have "keeps_tags (\<lambda>s. case post_tx (write g) s of
         (Inl err, t) \<Rightarrow> if isSlugConflict err then slug_attempts k err base write t else (Inl err, t)
       | (Inr p, t) \<Rightarrow> (Inr p, t))" for g
    proof (rule keeps_fun)
      fix s assume i: "tag_inv (tag_view s)"
      obtain r t where t: "post_tx (write g) s = (r, t)" by (rule prod.exhaust)
      have "tag_inv (tag_view t)" using keepsD [OF keeps_post_tx [OF assms] i, of g] t by simp
      then show "tag_inv (tag_view (snd (case post_tx (write g) s of
         (Inl err, t) \<Rightarrow> if isSlugConflict err then slug_attempts k err base write t else (Inl err, t)
       | (Inr p, t) \<Rightarrow> (Inr p, t))))" using keepsD [OF Suc] t by (cases r) simp_all
    qed
    then show ?case unfolding slug_attempts.simps by (intro keeps_andthen f)
  qed (simp add: tag_keeps)
  then show ?thesis by (simp add: withFreeSlug_def)
qed

section \<open>Requests\<close>

datatype post_op =
    PoDraft post_env uuid string string string string "uuid option" "string list option"
  | PoMove post_env uuid transition "uuid option"
  | PoDelete post_env uuid
  | PoUndelete post_env uuid
  | PoEdit post_env uuid uuid bool update_input
  | PoMedia post_env uuid "media_item list"
  | PoRestore post_env uuid revision_ref uuid bool string
  | PoPrune int

fun post_run :: "post_op \<Rightarrow> unit post_comp" where
  "post_run (PoDraft E author title slug excerpt content category names) =
     drop_result (CreateDraft E author title slug excerpt content category names)"
| "post_run (PoMove E u tr actor) = drop_result (po_transition E u tr actor)"
| "post_run (PoDelete E u) = po_Delete E u"
| "post_run (PoUndelete E u) = drop_result (po_Restore E u)"
| "post_run (PoEdit E u actor unrestricted i) = drop_result (po_Update E u actor unrestricted i)"
| "post_run (PoMedia E u items) = drop_result (ReplaceMedia E u items)"
| "post_run (PoRestore E u ref actor unrestricted note) = drop_result (RestoreRevision E u ref actor unrestricted note)"
| "post_run (PoPrune keep) = drop_result (rv_Prune keep)"

lemma keeps_drop [tag_keeps]: "keeps_tags m \<Longrightarrow> keeps_tags (drop_result m)"
  by (simp add: keeps_tags_def drop_result_state)

lemma keeps_resolveTags [tag_keeps]: "keeps_tags (resolveTags E names)"
  unfolding resolveTags_def by (intro tag_keeps)

lemma keeps_rv_get [tag_keeps]: "keeps_tags (rv_get u ref)"
proof -
  have "reads (rv_one P)" for P unfolding rv_one_def by (intro reads_intros readsI) (simp split: list.split)
  then show ?thesis unfolding rv_get_def by (cases ref) (simp_all add: keeps_reads)
qed

lemma keeps_editing [tag_keeps]: "keeps_tags (livePost u)" "keeps_tags (editablePost u a b)" "keeps_tags (po_applyUpdate lo p i)"
  "keeps_tags (restorable p n)"
  unfolding livePost_def editablePost_def po_applyUpdate_def restorable_def po_get_def po_updatedSlug_def SlugTaken_def Existing_def
    lookup_ids_def Let_def by (intro tag_keeps)+

lemma keeps_post_run: "keeps_tags (post_run x)"
proof (cases x)
  case (PoDraft E author title slug excerpt content category names)
  show ?thesis unfolding PoDraft post_run.simps CreateDraft_def storeDraft_def Let_def
    by (intro tag_keeps)
next
  case (PoRestore E u ref actor unrestricted why)
  show ?thesis unfolding PoRestore post_run.simps RestoreRevision_def storeRestore_def case_prod_unfold
    by (intro tag_keeps)
next
  case (PoMove E u tr actor)
  show ?thesis unfolding PoMove post_run.simps po_transition_def Let_def
    by (intro tag_keeps keeps_change) simp
next
  case (PoEdit E u actor unrestricted i)
  show ?thesis unfolding PoEdit post_run.simps po_Update_def update_prepare_def update_finish_def storeUpdate_def syncTags_def
    by (intro tag_keeps)
next
  case (PoDelete E u)
  show ?thesis unfolding PoDelete post_run.simps po_Delete_def Let_def by (intro tag_keeps)
next
  case (PoUndelete E u)
  show ?thesis unfolding PoUndelete post_run.simps po_Restore_def po_get_deleted_def Let_def by (intro tag_keeps)
next
  case (PoMedia E u items)
  show ?thesis unfolding PoMedia post_run.simps ReplaceMedia_def media_prepare_def media_finish_def Let_def case_prod_unfold by (intro tag_keeps)
qed (simp add: tag_keeps)

section \<open>What every request keeps\<close>

lemma drafted_core:
  assumes c: "same_core s s'" and d: "drafted p base s' q t"
  shows "drafted p base s q t"
proof -
  have "ps_posts s' = ps_posts s" "ps_notices s' = ps_notices s" using c by (simp_all add: same_core_def)
  then show ?thesis using d same_core_wrote [OF c] unfolding drafted_def by simp
qed

lemma rolled_core: "rolled s t \<Longrightarrow> same_core s t"
  by (auto simp: rolled_def same_core_def)

lemma draftSlug_ok: "draftSlug lo title raw = Inr base \<Longrightarrow> slugPattern base \<and> length base \<le> MaxSlugLength"
  by (auto simp: draftSlug_def Let_def split: if_splits)

definition new_draft :: "post_env \<Rightarrow> uuid \<Rightarrow> string \<Rightarrow> string \<Rightarrow> string \<Rightarrow> uuid option \<Rightarrow> post" where
  "new_draft E author title excerpt content category =
     \<lparr>po_uuid = pe_ids E 0, po_author = author, po_category = category, po_title = trim_space title, po_slug = [],
      po_excerpt = trim_space excerpt, po_content = content, po_cover = None, po_status = StatusDraft,
      po_policy = ''open'', po_version = 1, po_published = None, po_created = pe_clock E 0, po_updated = pe_clock E 0,
      po_deleted = None\<rparr>"

definition draft_made ::
  "post_env \<Rightarrow> uuid \<Rightarrow> string \<Rightarrow> string \<Rightarrow> string \<Rightarrow> string \<Rightarrow> uuid option \<Rightarrow> post_store \<Rightarrow> post \<Rightarrow> post_store \<Rightarrow> bool" where
  "draft_made E author title slug excerpt content category s q t \<longleftrightarrow>
     (\<exists>base. draftSlug (pe_lower E) (trim_space title) slug = Inr base \<and> trim_space title \<noteq> [] \<and>
        drafted (new_draft E author title excerpt content category) base s q t)"

text \<open>
  A draft, or nothing of the posts. The read of its tags after the transaction may fail when no tags were given:
  then the draft is there and the request reports an error.
\<close>

lemma CreateDraft_wp:
  fixes category :: "uuid option"
  assumes i: "post_inv s"
  shows "wp (CreateDraft E author title slug excerpt content category names)
     (\<lambda>x. draft_made E author title slug excerpt content category s (fst x))
     (\<lambda>_ t. same_core s t \<or> names = None \<and> (\<exists>q. draft_made E author title slug excerpt content category s q t)) s"
    (is "wp _ (\<lambda>x. ?made s (fst x)) _ _")
proof (cases "trim_space title = []")
  case title: False
  let ?p = "new_draft E author title excerpt content category"
  show ?thesis
  proof (cases "draftSlug (pe_lower E) (trim_space title) slug")
    case (Inr base)
    have made: "?made s q t" if "same_core s s'" "drafted ?p base s' q t" for s' q t
      unfolding draft_made_def using Inr title drafted_core [OF that] by blast
    have store: "wp (storeDraft E ?p base (map_option (map tag_uuid) tags)) (?made s) (\<lambda>_. same_core s) s'"
      if c: "same_core s s'" for s' tags
    proof (rule wp_mono [OF storeDraft_wp])
      show "post_inv s'" using i same_core_inv [OF c] by simp
    qed (use made [OF c] same_core_trans [OF c rolled_core] in \<open>simp_all add: new_draft_def policy_Valid_def\<close>)
    have m: "?made s q (t\<lparr>calls := n\<rparr>)" if "?made s q t" for q t n
      using that unfolding draft_made_def drafted_def wrote_def by simp
    have fin: "wp (case tags of Some ts \<Rightarrow> ret (q, ts)
        | None \<Rightarrow> andthen (with_tags (tags_of_post (pe_coll E) (po_uuid q))) (\<lambda>ts. ret (q, ts)))
        (\<lambda>x. ?made s (fst x)) (\<lambda>_ t. same_core s t \<or> names = None \<and> (\<exists>q. ?made s q t)) t"
      if "tags = None \<longleftrightarrow> names = None" "?made s q t" for tags q t
    proof (cases tags)
      case None
      show ?thesis unfolding None option.case
        by (intro wp_reads_then [OF reads_tags_of_post]) (use that m None in \<open>auto simp: wp_simps\<close>)
    qed (use that in \<open>simp add: wp_simps\<close>)
    have rt: "wp (resolveTags E names) (\<lambda>tags t. (tags = None \<longleftrightarrow> names = None) \<and> same_core s t) (\<lambda>_. same_core s) s"
    proof (cases names)
      case (Some ns)
      show ?thesis unfolding resolveTags_def Some option.case wp_andthen_fun
        by (rule wp_mono [OF with_tags_core]) (simp_all add: wp_simps)
    qed (simp add: resolveTags_def wp_simps)
    show ?thesis unfolding CreateDraft_def Let_def if_not_P [OF title] Inr new_draft_def [symmetric] wp_andthen wp_of_result sum.case
    proof (rule wp_mono [OF rt], goal_cases)
      case (1 tags t)
      show ?case unfolding wp_andthen by (rule wp_mono [OF store]) (use 1 fin in blast)+
    qed blast
  qed (use title in \<open>simp add: CreateDraft_def wp_simps\<close>)
qed (simp add: CreateDraft_def wp_simps)

text \<open>
  How the tables may change: events are only added, no post is lost, its author and creation stay, its version
  does not go down, and while its version stays only the cover and the update time may change.
\<close>

definition succeeds :: "post \<Rightarrow> post \<Rightarrow> bool" where
  "succeeds p q \<longleftrightarrow> po_uuid q = po_uuid p \<and> po_author q = po_author p \<and> po_created q = po_created p \<and>
     (po_version p < po_version q \<or> (\<exists>c at. q = p\<lparr>po_cover := c, po_updated := at\<rparr>))"

definition post_evolves :: "post_store \<Rightarrow> post_store \<Rightarrow> bool" where
  "post_evolves s t \<longleftrightarrow> (\<exists>es. ps_events t = ps_events s @ es) \<and>
     list_all (\<lambda>p. list_ex (succeeds p) (ps_posts t)) (ps_posts s)"

lemma succeeds_refl [simp]: "succeeds p p"
proof -
  have "p = p\<lparr>po_cover := po_cover p, po_updated := po_updated p\<rparr>" by simp
  then show ?thesis unfolding succeeds_def by blast
qed

lemma succeeds_version: "succeeds p q \<Longrightarrow> po_version p \<le> po_version q"
  unfolding succeeds_def by (elim conjE disjE exE) simp_all

lemma succeeds_trans:
  assumes "succeeds p q" "succeeds q r"
  shows "succeeds p r"
proof (cases "po_version p < po_version q \<or> po_version q < po_version r")
  case True
  then have "po_version p < po_version r" using succeeds_version [OF assms(1)] succeeds_version [OF assms(2)] by linarith
  then show ?thesis using assms by (simp add: succeeds_def)
next
  case False
  then obtain c at c' at' where q: "q = p\<lparr>po_cover := c, po_updated := at\<rparr>" and r: "r = q\<lparr>po_cover := c', po_updated := at'\<rparr>"
    using assms unfolding succeeds_def by blast
  have "r = p\<lparr>po_cover := c', po_updated := at'\<rparr>" unfolding r q by simp
  then show ?thesis using assms unfolding succeeds_def by auto
qed

lemma post_evolves_refl: "post_evolves s s"
  unfolding post_evolves_def by (simp add: list_all_iff list_ex_iff) (metis succeeds_refl)

lemma post_evolves_trans: "post_evolves s t \<Longrightarrow> post_evolves t u \<Longrightarrow> post_evolves s u"
  unfolding post_evolves_def list_all_iff list_ex_iff by (metis append_assoc succeeds_trans)

lemma same_core_evolves: "same_core s t \<Longrightarrow> post_evolves s t"
  using post_evolves_refl [of s] by (simp add: post_evolves_def same_core_def)

lemma wrote_evolves:
  assumes "wrote s (put_row q (ps_posts s)) q typ es t" "p \<in> set (ps_posts s)" "distinct (map po_uuid (ps_posts s))" "succeeds p q"
  shows "post_evolves s t"
proof -
  have q: "po_uuid q = po_uuid p" using assms(4) by (simp add: succeeds_def)
  have "list_ex (succeeds r) (put_row q (ps_posts s))" if r: "r \<in> set (ps_posts s)" for r
  proof (cases "po_uuid r = po_uuid q")
    case True
    then have "r = p" using q r assms(2,3) by (metis distinct_map inj_onD)
    then show ?thesis using assms(2,4) q by (auto simp: put_row_def list_ex_iff)
  next
    case False
    then show ?thesis using r by (force simp: put_row_def list_ex_iff)
  qed
  then show ?thesis using assms(1) by (auto simp: post_evolves_def wrote_def list_all_iff)
qed

text \<open>One step of the tables: the invariant holds afterwards and they evolved.\<close>

definition post_step :: "post_store \<Rightarrow> post_store \<Rightarrow> bool" where
  "post_step s t \<longleftrightarrow> post_inv t \<and> post_evolves s t"

lemma core_step: "post_inv s \<Longrightarrow> same_core s t \<Longrightarrow> post_step s t"
  by (simp add: post_step_def same_core_inv same_core_evolves)

lemma rolled_step: "post_inv s \<Longrightarrow> rolled s t \<Longrightarrow> post_step s t"
  by (simp add: core_step rolled_core)

lemma moved_step:
  assumes i: "post_inv s" and m: "po_moved E u tr actor s q t"
  shows "post_step s t"
proof -
  from m obtain p st where p: "p \<in> set (ps_posts s)" "q = moved_post p st (pe_clock E 0)"
    "wrote s (put_row q (ps_posts s)) q (revisionType tr) [postEvent (transitionEvent st) q actor (pe_clock E 0)] t"
    unfolding po_moved_def by blast
  have "succeeds p q" by (simp add: p(2) succeeds_def moved_post_def)
  then show ?thesis unfolding post_step_def
    using moved_inv [OF i m] wrote_evolves [OF p(3,1) post_inv_rows(1) [OF i]] by blast
qed

lemma trashed_step:
  assumes i: "post_inv s" and m: "trashed E u s t"
  shows "post_step s t"
proof -
  from m obtain p q where p: "p \<in> set (ps_posts s)"
    "q = p\<lparr>po_deleted := Some (pe_clock E 0), po_updated := pe_clock E 0, po_version := po_version p + 1\<rparr>"
    "wrote s (put_row q (ps_posts s)) q RevisionDelete [] t" unfolding trashed_def by blast
  have "succeeds p q" by (simp add: p(2) succeeds_def)
  then show ?thesis unfolding post_step_def
    using trashed_inv [OF i m] wrote_evolves [OF p(3,1) post_inv_rows(1) [OF i]] by blast
qed

lemma revived_step:
  assumes i: "post_inv s" and m: "revived E u s q t"
  shows "post_step s t"
proof -
  from m obtain p g where p: "p \<in> set (ps_posts s)"
    "q = p\<lparr>po_deleted := None, po_status := StatusDraft, po_published := None, po_updated := pe_clock E 0,
       po_version := po_version p + 1, po_slug := g\<rparr>" "wrote s (put_row q (ps_posts s)) q RevisionUndelete [] t"
    unfolding revived_def by blast
  have "succeeds p q" by (simp add: p(2) succeeds_def)
  then show ?thesis unfolding post_step_def
    using revived_inv [OF i m] wrote_evolves [OF p(3,1) post_inv_rows(1) [OF i]] by blast
qed

lemma updated_step:
  assumes i: "post_inv s" and m: "updated actor p1 s q t" and ok: "post_ok p1"
  shows "post_step s t"
proof -
  from m obtain r where r: "r \<in> set (ps_posts s)" "at_version p1 r" "q = po_put p1 r"
    "wrote s (put_row q (ps_posts s)) q RevisionUpdate [postEvent ''blog.post.updated'' q (Some actor) (po_updated q)] t"
    unfolding updated_def by blast
  have "succeeds r q" using r(2) by (simp add: r(3) succeeds_def po_put_def at_version_def)
  then show ?thesis unfolding post_step_def
    using updated_inv [OF i m ok] wrote_evolves [OF r(4,1) post_inv_rows(1) [OF i]] by blast
qed

lemma illustrated_step:
  assumes i: "post_inv s" and m: "illustrated E u ms s t"
  shows "post_step s t"
proof -
  from m obtain p q where p: "p \<in> set (ps_posts s)"
    "q = p\<lparr>po_cover := (if covers ms = [] then None else Some (last (covers ms))), po_updated := pe_clock E 0\<rparr>"
    "wrote s (put_row q (ps_posts s)) q RevisionUpdate [] t" unfolding illustrated_def by blast
  have "\<exists>c at. q = p\<lparr>po_cover := c, po_updated := at\<rparr>" "po_uuid q = po_uuid p" "po_author q = po_author p" "po_created q = po_created p"
    using p(2) by (blast, simp_all)
  then have "succeeds p q" unfolding succeeds_def by blast
  then show ?thesis unfolding post_step_def
    using illustrated_inv [OF i m] wrote_evolves [OF p(3,1) post_inv_rows(1) [OF i]] by blast
qed

lemma restored_step:
  assumes i: "post_inv s" and m: "restored E u ref actor unrestricted s x t"
  shows "post_step s t"
proof -
  from m obtain p n q r where p: "p \<in> set (ps_posts s)" "restored_to E p n s q r t" unfolding restored_def by blast
  have q: "q = restored_post p n (pe_clock E 0)" "wrote s (put_row q (ps_posts s)) q RevisionRestore [] t"
    using p(2) unfolding restored_to_def by blast+
  have "succeeds p q" by (simp add: q(1) succeeds_def restored_post_def)
  then show ?thesis unfolding post_step_def
    using restored_inv [OF i m] wrote_evolves [OF q(2) p(1) post_inv_rows(1) [OF i]] by blast
qed

lemma draft_step:
  assumes i: "post_inv s" and m: "draft_made E author title slug excerpt content category s q t"
  shows "post_step s t"
proof -
  let ?p = "new_draft E author title excerpt content category"
  from m obtain base where b: "draftSlug (pe_lower E) (trim_space title) slug = Inr base" "trim_space title \<noteq> []" "drafted ?p base s q t"
    unfolding draft_made_def by blast
  have "post_inv t" by (rule drafted_inv [OF i b(3)])
    (use b(2) draftSlug_ok [OF b(1)] in \<open>simp_all add: new_draft_def post_ok_def policy_Valid_def\<close>)
  moreover have "ps_posts t = ps_posts s @ [q]" "\<exists>es. ps_events t = ps_events s @ es" using b(3) by (auto simp: drafted_def wrote_def)
  then have "post_evolves s t" using post_evolves_refl [of s] by (auto simp: post_evolves_def list_all_iff)
  ultimately show ?thesis by (simp add: post_step_def)
qed

lemmas request_steps = core_step rolled_step moved_step trashed_step revived_step illustrated_step restored_step draft_step

lemma edit_step:
  assumes i: "post_inv s"
  shows "wp (po_Update E u actor unrestricted x) (\<lambda>_. post_step s) (\<lambda>_. post_step s) s"
  unfolding po_Update_def wp_andthen
proof (rule wp_mono [OF update_prepare_wp [OF i]], goal_cases)
  case (1 y t)
  then have i': "post_inv t" "post_ok (fst y)" "post_evolves s t"
    using i same_core_inv [of s t] same_core_evolves by (auto simp: prepared_def)
  have st: "post_step t v \<Longrightarrow> post_step s v" for v using i'(3) post_evolves_trans unfolding post_step_def by blast
  show ?case by (rule wp_mono [OF update_finish_wp [OF i'(1)]]) (use i' st updated_step rolled_step in blast)+
qed (use i core_step in blast)

lemma post_run_step:
  assumes i: "post_inv s" "tag_inv (tag_view s)"
  shows "wp (post_run x) (\<lambda>_. post_step s) (\<lambda>_. post_step s) s"
proof (cases x)
  case (PoDraft E author title slug excerpt content category names)
  show ?thesis unfolding PoDraft post_run.simps wp_drop_result
    by (rule wp_mono [OF CreateDraft_wp [OF i(1)]]) (auto intro: core_step [OF i(1)] draft_step [OF i(1)])
next
  case (PoMove E u tr actor)
  show ?thesis unfolding PoMove post_run.simps wp_drop_result
    by (rule wp_mono [OF transition_wp [OF i(1)]]) (use request_steps [OF i(1)] in blast)+
next
  case (PoDelete E u)
  show ?thesis unfolding PoDelete post_run.simps
    by (rule wp_mono [OF Delete_wp [OF i(1)]]) (use request_steps [OF i(1)] in blast)+
next
  case (PoUndelete E u)
  show ?thesis unfolding PoUndelete post_run.simps wp_drop_result
    by (rule wp_mono [OF Restore_wp [OF i(1)]]) (use request_steps [OF i(1)] in blast)+
next
  case (PoEdit E u actor unrestricted y)
  show ?thesis unfolding PoEdit post_run.simps wp_drop_result by (rule edit_step [OF i(1)])
next
  case (PoMedia E u items)
  show ?thesis unfolding PoMedia post_run.simps wp_drop_result
    by (rule wp_mono [OF ReplaceMedia_wp [OF i(1)]]) (use request_steps [OF i(1)] in blast)+
next
  case (PoRestore E u ref actor unrestricted why)
  show ?thesis unfolding PoRestore post_run.simps wp_drop_result
    by (rule wp_mono [OF RestoreRevision_wp [OF i]]) (erule restored_step [OF i(1)] rolled_step [OF i(1)])+
next
  case (PoPrune keep)
  have "post_step s (s\<lparr>ps_revisions := revs, calls := k\<rparr>)" if "1 \<le> keep" "pruned keep (ps_revisions s) revs" for revs k
    using pruned_inv [OF _ that, of "ps_posts s"] i(1) post_evolves_refl [of s] by (simp add: post_step_def post_inv_def post_evolves_def)
  then show ?thesis unfolding PoPrune post_run.simps wp_drop_result
    by (intro wp_mono [OF Prune_wp]) (use rolled_step [OF i(1)] in blast)+
qed

definition blog_inv :: "post_store \<Rightarrow> bool" where
  "blog_inv s \<longleftrightarrow> post_inv s \<and> tag_inv (tag_view s)"

interpretation posts: evolving_service post_run blog_inv post_evolves
proof unfold_locales
  fix s x assume i: "blog_inv s"
  have "post_step s (snd (post_run x s))" by (rule wp_snd) (rule post_run_step, use i in \<open>simp_all add: blog_inv_def\<close>)
  then show "blog_inv (snd (post_run x s))" "post_evolves s (snd (post_run x s))"
    using keepsD [OF keeps_post_run] i by (simp_all add: post_step_def blog_inv_def)
qed (fact post_evolves_refl post_evolves_trans)+

end
