(* ===== verification/Post_Properties.thy ===== *)
theory Post_Properties
  imports Post_Run "HOL-Library.Code_Target_Nat"
begin

text \<open>The properties of the post service.\<close>

section \<open>The life of a post\<close>

datatype phase = Absent | Drafted | Planned | Public | Shelved | Trashed

definition phase_of_status :: "post_status \<Rightarrow> phase" where
  "phase_of_status st = (case st of StatusDraft \<Rightarrow> Drafted | StatusScheduled \<Rightarrow> Planned | StatusPublished \<Rightarrow> Public | StatusArchived \<Rightarrow> Shelved)"

definition phase_of :: "uuid \<Rightarrow> post_store \<Rightarrow> phase" where
  "phase_of u s = (case find (\<lambda>p. po_uuid p = u) (ps_posts s) of
                     None \<Rightarrow> Absent
                   | Some p \<Rightarrow> if po_live p then phase_of_status (po_status p) else Trashed)"

text \<open>The life of one post as the service promises it, and which request takes it where.\<close>

inductive life :: "uuid \<Rightarrow> post_op \<Rightarrow> phase \<Rightarrow> phase \<Rightarrow> bool" where
  create: "pe_ids E 0 = u \<Longrightarrow> life u (PoDraft E author title slug excerpt content category names) Absent Drafted"
| publish: "a \<in> {Drafted, Planned, Shelved} \<Longrightarrow> life u (PoMove E u TransitionPublish actor) a Public"
| unpublish: "a \<in> {Public, Planned} \<Longrightarrow> life u (PoMove E u TransitionUnpublish actor) a Drafted"
| archive: "a \<in> {Drafted, Planned, Public} \<Longrightarrow> life u (PoMove E u TransitionArchive actor) a Shelved"
| trash: "a \<in> {Drafted, Planned, Public, Shelved} \<Longrightarrow> life u (PoDelete E u) a Trashed"
| untrash: "life u (PoUndelete E u) Trashed Drafted"
| edit: "a \<in> {Drafted, Planned, Public, Shelved} \<Longrightarrow> life u (PoEdit E u actor unrestricted i) a a"
| media: "a \<in> {Drafted, Planned, Public, Shelved} \<Longrightarrow> life u (PoMedia E u items) a a"
| restore: "a \<in> {Drafted, Planned, Public, Shelved} \<Longrightarrow> life u (PoRestore E u ref actor unrestricted why) a a"

text \<open>The post a request is about.\<close>

fun subject_of :: "post_op \<Rightarrow> uuid option" where
  "subject_of (PoDraft E author title slug excerpt content category names) = Some (pe_ids E 0)"
| "subject_of (PoMove E u tr actor) = Some u"
| "subject_of (PoDelete E u) = Some u"
| "subject_of (PoUndelete E u) = Some u"
| "subject_of (PoEdit E u actor unrestricted i) = Some u"
| "subject_of (PoMedia E u items) = Some u"
| "subject_of (PoRestore E u ref actor unrestricted why) = Some u"
| "subject_of (PoPrune keep) = None"

lemma find_put_other: "po_uuid q \<noteq> u \<Longrightarrow> find (\<lambda>p. po_uuid p = u) (put_row q rows) = find (\<lambda>p. po_uuid p = u) rows"
  by (induction rows) (auto simp: put_row_def)

lemma find_put_row: "po_uuid q \<in> po_uuid ` set rows \<Longrightarrow> find (\<lambda>p. po_uuid p = po_uuid q) (put_row q rows) = Some q"
  by (induction rows) (auto simp: put_row_def)

lemma find_row: "distinct (map po_uuid rows) \<Longrightarrow> p \<in> set rows \<Longrightarrow> find (\<lambda>r. po_uuid r = po_uuid p) rows = Some p"
  by (induction rows) (auto simp: image_iff)

definition phase_row :: "post \<Rightarrow> phase" where
  "phase_row p = (if po_live p then phase_of_status (po_status p) else Trashed)"

lemma phase_of_row: "distinct (map po_uuid (ps_posts s)) \<Longrightarrow> p \<in> set (ps_posts s) \<Longrightarrow> phase_of (po_uuid p) s = phase_row p"
  by (simp add: phase_of_def find_row phase_row_def)

text \<open>A written row changes the phase of its post only.\<close>

lemma wrote_phase:
  assumes i: "post_inv s" and p: "p \<in> set (ps_posts s)" "po_uuid q = po_uuid p" and w: "wrote s (put_row q (ps_posts s)) q typ es t"
  shows "phase_of (po_uuid p) s = phase_row p" "phase_of (po_uuid p) t = phase_row q" "u \<noteq> po_uuid p \<Longrightarrow> phase_of u t = phase_of u s"
proof -
  have t: "ps_posts t = put_row q (ps_posts s)" using w by (simp add: wrote_def)
  show "phase_of (po_uuid p) s = phase_row p" by (rule phase_of_row [OF post_inv_rows(1) [OF i] p(1)])
  show "phase_of (po_uuid p) t = phase_row q"
    using find_put_row [of q "ps_posts s"] p by (simp add: phase_of_def t phase_row_def)
  show "u \<noteq> po_uuid p \<Longrightarrow> phase_of u t = phase_of u s" using p(2) by (simp add: phase_of_def t find_put_other)
qed

lemma phase_row_live: "po_live p \<Longrightarrow> phase_row p \<in> {Drafted, Planned, Public, Shelved}"
  by (cases "po_status p") (simp_all add: phase_row_def phase_of_status_def)

text \<open>The step of the abstract life that a request takes: its own post moves, every other stays.\<close>

definition lives :: "post_op \<Rightarrow> post_store \<Rightarrow> post_store \<Rightarrow> bool" where
  "lives x s t \<longleftrightarrow> (\<forall>u. if subject_of x = Some u then life u x (phase_of u s) (phase_of u t) else phase_of u t = phase_of u s)"

lemma livesI:
  assumes "post_inv s" "p \<in> set (ps_posts s)" "po_uuid q = po_uuid p" "wrote s (put_row q (ps_posts s)) q typ es t"
    "subject_of x = Some (po_uuid p)" "life (po_uuid p) x (phase_row p) (phase_row q)"
  shows "lives x s t"
  unfolding lives_def using wrote_phase [OF assms(1-4)] assms(5,6) by auto

lemma moved_lives:
  assumes i: "post_inv s" and m: "po_moved E u tr actor s q t"
  shows "lives (PoMove E u tr actor) s t"
proof -
  from m obtain p st where p: "p \<in> set (ps_posts s)" "po_uuid p = u" "po_live p" "Next tr (po_status p) = Inr st" "q = moved_post p st (pe_clock E 0)"
    "wrote s (put_row q (ps_posts s)) q (revisionType tr) [postEvent (transitionEvent st) q actor (pe_clock E 0)] t"
    unfolding po_moved_def by blast
  have "phase_row q = phase_of_status st" "po_uuid q = po_uuid p" using p(3,5) by (simp_all add: phase_row_def moved_post_def po_live_def)
  moreover have "life u (PoMove E u tr actor) (phase_of_status (po_status p)) (phase_of_status st)"
    using p(4) by (cases tr; cases "po_status p") (auto simp: Next_def post_transitions_def phase_of_status_def intro: life.intros)
  ultimately show ?thesis by (intro livesI [OF i p(1) _ p(6)]) (use p(2,3) in \<open>simp_all add: phase_row_def\<close>)
qed

lemma trashed_lives:
  assumes i: "post_inv s" and m: "trashed E u s t"
  shows "lives (PoDelete E u) s t"
proof -
  from m obtain p q where p: "p \<in> set (ps_posts s)" "po_uuid p = u" "po_live p"
    "q = p\<lparr>po_deleted := Some (pe_clock E 0), po_updated := pe_clock E 0, po_version := po_version p + 1\<rparr>"
    "wrote s (put_row q (ps_posts s)) q RevisionDelete [] t" unfolding trashed_def by blast
  have "phase_row q = Trashed" "po_uuid q = po_uuid p" by (simp_all add: p(4) phase_row_def po_live_def)
  then show ?thesis
    by (intro livesI [OF i p(1) _ p(5)]) (use p(2) trash [OF phase_row_live [OF p(3)]] in simp_all)
qed

lemma revived_lives:
  assumes i: "post_inv s" and m: "revived E u s q t"
  shows "lives (PoUndelete E u) s t"
proof -
  from m obtain p g where p: "p \<in> set (ps_posts s)" "po_uuid p = u" "\<not> po_live p"
    "q = p\<lparr>po_deleted := None, po_status := StatusDraft, po_published := None, po_updated := pe_clock E 0,
       po_version := po_version p + 1, po_slug := g\<rparr>" "wrote s (put_row q (ps_posts s)) q RevisionUndelete [] t"
    unfolding revived_def by blast
  have "phase_row q = Drafted" "po_uuid q = po_uuid p" by (simp_all add: p(4) phase_row_def po_live_def phase_of_status_def)
  then show ?thesis
    by (intro livesI [OF i p(1) _ p(5)]) (use p(2,3) untrash in \<open>simp_all add: phase_row_def\<close>)
qed

lemma illustrated_lives:
  assumes i: "post_inv s" and m: "illustrated E u ms s t"
  shows "lives (PoMedia E u items) s t"
proof -
  from m obtain p q where p: "p \<in> set (ps_posts s)" "po_uuid p = u" "po_live p"
    "q = p\<lparr>po_cover := (if covers ms = [] then None else Some (last (covers ms))), po_updated := pe_clock E 0\<rparr>"
    "wrote s (put_row q (ps_posts s)) q RevisionUpdate [] t" unfolding illustrated_def by blast
  have "phase_row q = phase_row p" "po_uuid q = po_uuid p" by (simp_all add: p(4) phase_row_def po_live_def)
  then show ?thesis
    by (intro livesI [OF i p(1) _ p(5)]) (use p(2) media [OF phase_row_live [OF p(3)]] in simp_all)
qed

lemma restored_lives:
  assumes i: "post_inv s" and m: "restored E u ref actor unrestricted s x t"
  shows "lives (PoRestore E u ref actor unrestricted why) s t"
proof -
  from m obtain p n q r where p: "p \<in> set (ps_posts s)" "po_uuid p = u" "po_live p" "restored_to E p n s q r t" unfolding restored_def by blast
  have q: "q = restored_post p n (pe_clock E 0)" "wrote s (put_row q (ps_posts s)) q RevisionRestore [] t"
    using p(4) unfolding restored_to_def by blast+
  have "phase_row q = phase_row p" "po_uuid q = po_uuid p" by (simp_all add: q(1) restored_post_def phase_row_def po_live_def)
  then show ?thesis
    by (intro livesI [OF i p(1) _ q(2)]) (use p(2) restore [OF phase_row_live [OF p(3)]] in simp_all)
qed

lemma updated_lives:
  assumes i: "post_inv s" and c: "same_core s s'" and p: "prepared u actor unrestricted s p1" and m: "updated actor p1 s' q t"
  shows "lives (PoEdit E u actor unrestricted i) s t"
proof -
  have rows: "ps_posts s' = ps_posts s" using c by (simp add: same_core_def)
  from m obtain r where r: "r \<in> set (ps_posts s)" "at_version p1 r" "q = po_put p1 r"
    and w: "wrote s' (put_row q (ps_posts s')) q RevisionUpdate [postEvent ''blog.post.updated'' q (Some actor) (po_updated q)] t"
    unfolding updated_def rows by blast
  from p obtain p0 where p0: "p0 \<in> set (ps_posts s)" "po_uuid p0 = u" "po_live p0" "edits p0 (p1\<lparr>po_version := po_version p1 - 1\<rparr>)"
    unfolding prepared_def by blast
  have e: "po_uuid p1 = po_uuid p0" "po_status p1 = po_status p0" using p0(4) by (simp_all add: edits_def)
  have "r = p0" by (rule at_version_row [OF post_inv_rows(1) [OF i] p0(1) r(1,2) e(1)])
  then have "phase_row q = phase_row p0" "po_uuid q = po_uuid p0" using e by (simp_all add: r(3) po_put_def phase_row_def po_live_def)
  then show ?thesis
    by (intro livesI [OF i p0(1) _ same_core_wrote [OF c w [unfolded rows]]]) (use p0(2) edit [OF phase_row_live [OF p0(3)]] in simp_all)
qed

lemma draft_lives:
  assumes i: "post_inv s" and m: "draft_made E author title slug excerpt content category s q t"
  shows "lives (PoDraft E author title slug excerpt content category names) s t"
proof -
  from m obtain base where d: "drafted (new_draft E author title excerpt content category) base s q t" unfolding draft_made_def by blast
  then have t: "ps_posts t = ps_posts s @ [q]" "po_uuid q = pe_ids E 0" "po_status q = StatusDraft" "po_live q"
    "pe_ids E 0 \<notin> po_uuid ` set (ps_posts s)" by (auto simp: drafted_def wrote_def new_draft_def po_live_def)
  have n: "find (\<lambda>p. po_uuid p = pe_ids E 0) (ps_posts s) = None" using t(5) unfolding find_None_iff image_iff by metis
  have f: "find P (xs @ [q]) = (case find P xs of None \<Rightarrow> if P q then Some q else None | Some y \<Rightarrow> Some y)" for P xs
    by (induction xs) auto
  have "phase_of (pe_ids E 0) s = Absent" "phase_of (pe_ids E 0) t = Drafted"
    using n t by (simp_all add: phase_of_def f phase_of_status_def)
  moreover have "phase_of u t = phase_of u s" if "u \<noteq> pe_ids E 0" for u
    using that t(2) by (simp add: phase_of_def t(1) f split: option.split)
  ultimately show ?thesis unfolding lives_def by (auto intro: create)
qed

definition same_phases :: "post_store \<Rightarrow> post_store \<Rightarrow> bool" where
  "same_phases s t \<longleftrightarrow> (\<forall>u. phase_of u t = phase_of u s)"

lemma core_phases: "same_core s t \<Longrightarrow> same_phases s t"
  by (simp add: same_phases_def phase_of_def same_core_def)

lemma rolled_phases: "rolled s t \<Longrightarrow> same_phases s t"
  by (simp add: core_phases rolled_core)

lemmas lives_intros = moved_lives trashed_lives revived_lives illustrated_lives restored_lives draft_lives

text \<open>A draft without tags may be stored although the request reports an error.\<close>

definition late_failure :: "post_op \<Rightarrow> bool" where
  "late_failure x \<longleftrightarrow> (case x of PoDraft E author title slug excerpt content category names \<Rightarrow> names = None | _ \<Rightarrow> False)"

lemma edit_lives:
  assumes i: "post_inv s"
  shows "wp (po_Update E u actor unrestricted x) (\<lambda>_. lives (PoEdit E u actor unrestricted x) s) (\<lambda>_. same_phases s) s"
  unfolding po_Update_def wp_andthen
proof (rule wp_mono [OF update_prepare_wp [OF i]], goal_cases)
  case (1 y t)
  then have c: "same_core s t" and p: "prepared u actor unrestricted s (fst y)" by simp_all
  have i': "post_inv t" using i same_core_inv [OF c] by simp
  show ?case
  proof (rule wp_mono [OF update_finish_wp [OF i']], goal_cases)
    case (1 r v)
    then show ?case by (rule updated_lives [OF i c p])
  next
    case (2 e v)
    then show ?case using core_phases [OF same_core_trans [OF c rolled_core]] by simp
  qed
qed (rule core_phases)

lemma post_run_lives:
  assumes i: "post_inv s" "tag_inv (tag_view s)"
  shows "wp (post_run x) (\<lambda>_. lives x s) (\<lambda>_ t. same_phases s t \<or> late_failure x \<and> lives x s t) s"
proof (cases x)
  case (PoDraft E author title slug excerpt content category names)
  show ?thesis unfolding PoDraft post_run.simps wp_drop_result
    by (rule wp_mono [OF CreateDraft_wp [OF i(1)]]) (auto simp: late_failure_def intro: core_phases draft_lives [OF i(1)])
next
  case (PoMove E u tr actor)
  show ?thesis unfolding PoMove post_run.simps wp_drop_result
    by (rule wp_mono [OF transition_wp [OF i(1)]]) (erule lives_intros [OF i(1)], simp add: rolled_phases)
next
  case (PoDelete E u)
  show ?thesis unfolding PoDelete post_run.simps
    by (rule wp_mono [OF Delete_wp [OF i(1)]]) (erule lives_intros [OF i(1)], simp add: rolled_phases)
next
  case (PoUndelete E u)
  show ?thesis unfolding PoUndelete post_run.simps wp_drop_result
    by (rule wp_mono [OF Restore_wp [OF i(1)]]) (erule lives_intros [OF i(1)], simp add: rolled_phases)
next
  case (PoEdit E u actor unrestricted y)
  show ?thesis unfolding PoEdit post_run.simps wp_drop_result
    by (rule wp_mono [OF edit_lives [OF i(1)]]) simp_all
next
  case (PoMedia E u items)
  show ?thesis unfolding PoMedia post_run.simps wp_drop_result
    by (rule wp_mono [OF ReplaceMedia_wp [OF i(1)]]) (erule lives_intros [OF i(1)], simp add: rolled_phases)
next
  case (PoRestore E u ref actor unrestricted why)
  show ?thesis unfolding PoRestore post_run.simps wp_drop_result
    by (rule wp_mono [OF RestoreRevision_wp [OF i]]) (erule restored_lives [OF i(1)], simp add: rolled_phases)
next
  case (PoPrune keep)
  have "lives (PoPrune keep) s (s\<lparr>ps_revisions := revs, calls := k\<rparr>)" for revs k by (simp add: lives_def phase_of_def)
  then show ?thesis unfolding PoPrune post_run.simps wp_drop_result
    by (intro wp_mono [OF Prune_wp]) (use rolled_phases in blast)+
qed

section \<open>Slugs\<close>

definition slug_used :: "string \<Rightarrow> post_store \<Rightarrow> bool" where
  "slug_used g s \<longleftrightarrow> list_ex (\<lambda>r. po_live r \<and> po_slug r = g) (ps_posts s)"

lemma prefixed_used: "g \<in> set (prefixed b (ps_posts s)) \<longleftrightarrow> slug_used g s \<and> (g = b \<or> take (length b + 1) g = b @ [dash])"
  by (auto simp: prefixed_def slug_used_def list_ex_iff)

lemma slug_used_held: "slug_used g s \<Longrightarrow> u \<notin> po_uuid ` set (ps_posts s) \<Longrightarrow> slug_held g u (ps_posts s)"
  unfolding slug_used_def slug_held_def list_ex_iff by (metis imageI)

lemma unheld_used: "(\<And>u. \<not> slug_held g u (ps_posts s)) \<Longrightarrow> \<not> slug_used g s"
  unfolding slug_used_def slug_held_def list_ex_iff by (metis n_not_Suc_n)

lemma lowest_free_used:
  assumes "lowest_free (prefixed b (ps_posts s)) b g"
  shows "\<not> slug_used b s \<and> g = b \<or> slug_used b s \<and> (\<exists>n \<ge> 2. g = withSuffix b n \<and> (\<forall>k. 2 \<le> k \<and> k < n \<longrightarrow> slug_used (withSuffix b k) s))"
  using assms unfolding lowest_free_def prefixed_used by blast

text \<open>A cut slug is none the search sees.\<close>

lemma withSuffix_cut: "253 < length b \<Longrightarrow> take (length b + 1) (withSuffix b 2) \<noteq> b @ [dash]"
proof
  assume l: "253 < length b" and t: "take (length b + 1) (withSuffix b 2) = b @ [dash]"
  have two: "format_int 2 = ''2''" by code_simp
  have w: "withSuffix b 2 = trim_dashes (take 253 b) @ [dash] @ ''2''" using l by (simp add: withSuffix_def Let_def two MaxSlugLength_def)
  have "length (trim_dashes (take 253 b)) \<le> 253" using trim_dashes_length [of "take 253 b"] by simp
  then have n: "length (withSuffix b 2) \<le> length b + 1" using l by (simp add: w)
  then have "withSuffix b 2 = b @ [dash]" using t by simp
  then have "last (withSuffix b 2) = dash" by simp
  then show False by (simp add: w dash_def)
qed

section \<open>Edits with other requests between\<close>

definition version_of :: "uuid \<Rightarrow> post_store \<Rightarrow> int option" where
  "version_of u s = map_option po_version (find (\<lambda>p. po_uuid p = u) (ps_posts s))"

definition cover_of :: "uuid \<Rightarrow> post_store \<Rightarrow> uuid option" where
  "cover_of u s = Option.bind (find (\<lambda>p. po_uuid p = u) (ps_posts s)) po_cover"

lemma keeps_update_prepare: "keeps_tags (update_prepare E u actor unrestricted i)"
  unfolding update_prepare_def by (intro tag_keeps)

lemma prepare_keeps:
  assumes "blog_inv s" "update_prepare E u actor unrestricted i s = (Inr x, s')"
  shows "blog_inv s'" "prepared u actor unrestricted s (fst x)" "ps_posts s' = ps_posts s"
proof -
  have i: "post_inv s" "tag_inv (tag_view s)" using assms(1) by (simp_all add: blog_inv_def)
  have "prepared u actor unrestricted s (fst x) \<and> same_core s s'" by (rule wp_Inr [OF update_prepare_wp [OF i(1)] assms(2)])
  then show "blog_inv s'" "prepared u actor unrestricted s (fst x)" "ps_posts s' = ps_posts s"
    using same_core_inv [of s s'] i keepsD [OF keeps_update_prepare i(2), of E u actor unrestricted i] assms(2)
    by (simp_all add: blog_inv_def same_core_def)
qed

lemma updated_at:
  assumes i: "post_inv s" "post_inv t" and p: "prepared u actor unrestricted s p1" and m: "updated actor p1 t q t'"
  shows "version_of u t = version_of u s" "cover_of u t' = cover_of u s" "version_of u t' = map_option (\<lambda>n. n + 1) (version_of u s)"
proof -
  note d = post_inv_rows(1)
  from p obtain p0 where p0: "p0 \<in> set (ps_posts s)" "po_uuid p0 = u" "edits p0 (p1\<lparr>po_version := po_version p1 - 1\<rparr>)"
    unfolding prepared_def by blast
  have e: "po_uuid p1 = u" "po_cover p1 = po_cover p0" "po_version p1 = po_version p0 + 1" using p0(2,3) by (simp_all add: edits_def)
  from m obtain r where r: "r \<in> set (ps_posts t)" "at_version p1 r" "q = po_put p1 r" "ps_posts t' = put_row q (ps_posts t)"
    unfolding updated_def wrote_def by blast
  have u: "po_uuid r = u" "po_version r = po_version p0" "po_uuid q = u" "po_cover q = po_cover p0" "po_version q = po_version p0 + 1"
    using r(2) e by (simp_all add: at_version_def r(3) po_put_def)
  have "find (\<lambda>p. po_uuid p = u) (ps_posts s) = Some p0" "find (\<lambda>p. po_uuid p = u) (ps_posts t) = Some r"
    using find_row [OF d [OF i(1)] p0(1)] find_row [OF d [OF i(2)] r(1)] p0(2) u(1) by simp_all
  moreover have "find (\<lambda>p. po_uuid p = u) (ps_posts t') = Some q"
    using find_put_row [of q "ps_posts t"] r(1) u(1,3) by (simp add: r(4) rev_image_eqI)
  ultimately show "version_of u t = version_of u s" "cover_of u t' = cover_of u s" "version_of u t' = map_option (\<lambda>n. n + 1) (version_of u s)"
    using u by (simp_all add: version_of_def cover_of_def)
qed

section \<open>Going back to a revision\<close>

definition no_skips :: "skips \<Rightarrow> bool" where
  "no_skips sk \<longleftrightarrow> sk_slug sk = None \<and> sk_categories sk = [] \<and> sk_tags sk = [] \<and> sk_media sk = []"

lemma keep_ref_all: "filter (\<lambda>u. u \<notin> set known) (opt_list r) = [] \<Longrightarrow> keep_ref known r = r"
  by (cases r) (simp_all add: keep_ref_def opt_list_def split: if_splits)

lemma dropMissing_all:
  assumes "dropMissing n known taken = (m, sk)" "no_skips sk"
  shows "m = n"
proof -
  have sk: "sk = snd (dropMissing n known taken)" "m = fst (dropMissing n known taken)" using assms(1) by simp_all
  have e: "filter (\<lambda>u. u \<notin> set (rf_categories known)) (opt_list (sn_category n)) = []"
    "filter (\<lambda>u. u \<notin> set (rf_tags known)) (map fst (sn_tags n)) = []"
    "filter (\<lambda>u. u \<notin> set (rf_media known)) (rf_media (snapshotRefs n)) = []"
    using assms(2) by (simp_all add: sk(1) dropMissing_def no_skips_def skipped_media_def)
  have md: "filter (\<lambda>u. u \<notin> set (rf_media known)) xs = []" if "set xs \<subseteq> set (rf_media (snapshotRefs n))" for xs
    using e(3) that by (auto simp: filter_empty_conv)
  have "keep_ref (rf_categories known) (sn_category n) = sn_category n" by (rule keep_ref_all [OF e(1)])
  moreover have "filter (\<lambda>t. fst t \<in> set (rf_tags known)) (sn_tags n) = sn_tags n" using e(2) by (auto simp: filter_empty_conv intro: filter_True)
  moreover have "filter (\<lambda>m. mi_asset m \<in> set (rf_media known)) (sn_media n) = sn_media n"
    using e(3) by (auto simp: filter_empty_conv snapshotRefs_def intro: filter_True)
  moreover have "keep_ref (rf_media known) (sn_cover n) = sn_cover n" "keep_ref (rf_media known) (og_image (sn_seo n)) = og_image (sn_seo n)"
    "keep_ref (rf_media known) (twitter_image (sn_seo n)) = twitter_image (sn_seo n)"
    by (rule keep_ref_all, rule md, auto simp: snapshotRefs_def)+
  ultimately show ?thesis by (simp add: sk(2) dropMissing_def)
qed

lemma restorable_all:
  assumes "restorable_now s p n = (m, sk)" "no_skips sk"
  shows "m = n" "\<not> slug_lost s p n"
proof -
  have "sk_slug sk = (if slug_lost s p n then Some (sn_slug n) else None)" using assms(1) by (auto simp: restorable_now_def dropMissing_def)
  then show l: "\<not> slug_lost s p n" using assms(2) by (auto simp: no_skips_def)
  show "m = n" using assms(1) l by (intro dropMissing_all [OF _ assms(2)]) (simp add: restorable_now_def)
qed

lemma tagChange_same: "set (map fst xs) = set (map fst ys) \<Longrightarrow> tagChange xs ys = None"
  by (auto simp: tagChange_def Let_def concat_eq_Nil_conv) (metis fst_conv image_eqI)+

lemma shows_back_diff:
  assumes "shows_back E n (restored_post p n now) m" "pe_media E" "sorted (map mi_sort (sn_media n))"
  shows "map fst (DiffSnapshots n m) = (if sn_status n = po_status p then [] else [FieldStatus])"
proof -
  have tags: "tagChange (sn_tags n) (sn_tags m) = None" using assms(1) by (intro tagChange_same) (simp add: shows_back_def)
  have m: "m = SnapshotOf (restored_post p n now) (sn_tags m) (sn_media n) (sn_seo n)"
    using assms sort_key_id_if_sorted [OF assms(3)] unfolding shows_back_def by simp
  have f: "sn_title m = sn_title n" "sn_slug m = sn_slug n" "sn_excerpt m = sn_excerpt n" "sn_content m = sn_content n" "sn_policy m = sn_policy n"
    "sn_category m = sn_category n" "sn_cover m = sn_cover n" "sn_media m = sn_media n" "sn_seo m = sn_seo n" "sn_status m = po_status p"
    by (subst m, simp add: SnapshotOf_def restored_post_def)+
  show ?thesis by (simp add: DiffSnapshots_def Let_def f tags mediaChange_def seoChange_def filter_empty_conv)
qed

section \<open>A blog with one draft\<close>

definition post_demo_env :: "nat \<Rightarrow> post_env" where
  "post_demo_env k = \<lparr>pe_media = True, pe_user = None, pe_request = [], pe_clock = (\<lambda>n. int (100 * k + n)), pe_ids = (\<lambda>n. 10 * k + n),
     pe_tag_clock = (\<lambda>n. int (100 * k + n)), pe_tag_ids = (\<lambda>n. 1000 * k + n), pe_coll = (\<lambda>_. 0), pe_lower = (\<lambda>c. c)\<rparr>"

definition post_demo_row :: post where
  "post_demo_row = \<lparr>po_uuid = 1, po_author = 7, po_category = None, po_title = ''Go'', po_slug = ''go'', po_excerpt = [], po_content = ''text'',
     po_cover = None, po_status = StatusDraft, po_policy = ''open'', po_version = 1, po_published = None, po_created = 0, po_updated = 0, po_deleted = None\<rparr>"

definition post_demo_revision :: revision where
  "post_demo_revision = \<lparr>rv_uuid = 2, rv_post = 1, rv_number = 1, rv_type = RevisionCreate, rv_snapshot = SnapshotOf post_demo_row [] [] no_seo, rv_diff = [],
     rv_changelog = [], rv_note = [], rv_author = Some 7, rv_from = None, rv_request = [], rv_created = 0\<rparr>"

definition post_demo :: post_store where
  "post_demo = \<lparr>calls = 0, fails = (\<lambda>_. False), ps_posts = [post_demo_row], ps_users = [7], ps_categories = [], ps_assets = [],
     ps_tag_rows = [], ps_tag_links = [], ps_attached = [], ps_seo = [], ps_revisions = [post_demo_revision], ps_events = [], ps_invalidated = [], ps_notices = []\<rparr>"

lemma post_demo_inv: "blog_inv post_demo"
  by (simp add: blog_inv_def post_inv_def posts_inv_def post_demo_def post_demo_row_def post_demo_revision_def max_rows_def tag_inv_def tag_view_def
    post_ok_def slug_own_def slug_held_def tracked_def hist_def mirrors_def SnapshotOf_def snap_ok_def numbers_ok_def policy_Valid_def slug_eval po_live_def)

section \<open>Properties\<close>



text \<open>
  C23. The service implements the life of a post: a request that succeeds takes its own post along exactly one
  step of the life (created as a draft; published from draft, scheduled or archived; back to draft; archived;
  trashed; back from the trash as a draft; edited where it is) and leaves every other post where it is. A request
  that fails moves no post, but for a draft without tags whose tags could not be read after it was stored.
\<close>

theorem post_requests_refine_life:
  assumes "blog_inv s"
  shows "wp (post_run x) (\<lambda>_. lives x s) (\<lambda>_ t. same_phases s t \<or> late_failure x \<and> lives x s t) s"
  using post_run_lives assms by (simp add: blog_inv_def)

theorem post_requests_refine_life_witness:
  "lives (PoMove (post_demo_env 2) 1 TransitionPublish (Some 7)) post_demo
     (snd (post_run (PoMove (post_demo_env 2) 1 TransitionPublish (Some 7)) post_demo)) \<and>
   phase_of 1 (snd (post_run (PoMove (post_demo_env 2) 1 TransitionPublish (Some 7)) post_demo)) = Public"
proof
  let ?x = "PoMove (post_demo_env 2) 1 TransitionPublish (Some 7)"
  have "fst (post_run ?x post_demo) = Inr ()" by code_simp
  then have "post_run ?x post_demo = (Inr (), snd (post_run ?x post_demo))" by (metis prod.collapse)
  then show "lives ?x post_demo (snd (post_run ?x post_demo))"
    by (rule wp_Inr [OF post_requests_refine_life [OF post_demo_inv]])
qed code_simp

text \<open>
  C24. The search for the slug of a draft ends, whatever slugs are taken, unless the store fails: it returns the
  wanted slug when no live post uses it, and otherwise the one with the lowest suffix from 2 whose lower ones are
  all in use. The result is a slug again, and of at most 255 bytes when the wanted one is; when the wanted one
  leaves 20 bytes for the suffix, no live post uses the result.
\<close>

theorem freeSlug_lowest:
  assumes "post_inv s" "slugPattern base"
  shows "wp (freeSlug base)
     (\<lambda>g t. unchanged s t \<and> slugPattern g \<and> (length base \<le> MaxSlugLength \<longrightarrow> length g \<le> MaxSlugLength) \<and>
        (length base + 20 \<le> MaxSlugLength \<longrightarrow> \<not> slug_used g s) \<and>
        (\<not> slug_used base s \<and> g = base \<or>
         slug_used base s \<and> (\<exists>n \<ge> 2. g = withSuffix base n \<and> (\<forall>k. 2 \<le> k \<and> k < n \<longrightarrow> slug_used (withSuffix base k) s))))
     (\<lambda>e t. e = StoreFail \<and> unchanged s t) s"
proof (rule freeSlug_wp, goal_cases)
  case (1 g)
  note n = prefixed_length [OF assms(1), of base]
  have "int (length (prefixed base (ps_posts s))) < 2 ^ 63" using n by (metis of_nat_less_iff of_nat_numeral of_nat_power)
  then have "m < 10 ^ 19" if "m < 3 + int (length (prefixed base (ps_posts s)))" for m using that by simp
  then have "length base \<le> MaxSlugLength \<longrightarrow> length g \<le> MaxSlugLength"
    using 1 withSuffix_slug(2) [OF assms(2)] unfolding lowest_free_def by force
  moreover have "length base + 20 \<le> MaxSlugLength \<longrightarrow> \<not> slug_used g s" using lowest_free_unheld [OF 1 _ n] unheld_used by blast
  ultimately show ?case using lowest_free_slug [OF 1 assms(2) n] lowest_free_used [OF 1] unchanged_calls by blast
qed simp

theorem freeSlug_lowest_witness:
  "\<exists>t. freeSlug ''go'' post_demo = (Inr ''go-2'', t) \<and> \<not> slug_used ''go-2'' post_demo"
proof -
  have "fst (freeSlug ''go'' post_demo) = Inr ''go-2''" by code_simp
  then obtain t where t: "freeSlug ''go'' post_demo = (Inr ''go-2'', t)" by (metis prod.collapse)
  have "post_inv post_demo" "slugPattern ''go''" using post_demo_inv by (simp_all add: blog_inv_def slug_eval)
  from wp_Inr [OF freeSlug_lowest [OF this] t] have "\<not> slug_used ''go-2'' post_demo" by (simp add: MaxSlugLength_def)
  then show ?thesis using t by blast
qed

text \<open>
  C25. The search does not see slugs that were cut to make room for a suffix. When a live post uses a slug of 254
  or 255 bytes and another uses its cut variant with the suffix 2, every further draft with that slug is refused,
  whatever its request and however often it is sent; the search never gets to the suffix 3.
\<close>

theorem long_slug_refused:
  assumes "post_inv s" "draftSlug (pe_lower E) (trim_space title) slug = Inr base" "253 < length base"
    "slug_used base s" "slug_used (withSuffix base 2) s" "withSuffix base 2 \<noteq> base"
  shows "\<exists>e t. CreateDraft E author title slug excerpt content category names s = (Inl e, t) \<and> same_core s t"
proof -
  have no: "\<not> draft_made E author title slug excerpt content category s q t" for q t
  proof
    assume "draft_made E author title slug excerpt content category s q t"
    then obtain g where g: "lowest_free (prefixed base (ps_posts s)) base g" "pe_ids E 0 \<notin> po_uuid ` set (ps_posts s)"
        "\<not> slug_held g (pe_ids E 0) (ps_posts s)"
      using assms(2) by (auto simp: draft_made_def drafted_def new_draft_def)
    have "base \<in> set (prefixed base (ps_posts s))" "withSuffix base 2 \<notin> set (prefixed base (ps_posts s))"
      using assms(4,6) withSuffix_cut [OF assms(3)] by (simp_all add: prefixed_used)
    then obtain m where m: "2 \<le> m" "g = withSuffix base m" "\<forall>k. 2 \<le> k \<longrightarrow> k < m \<longrightarrow> withSuffix base k \<in> set (prefixed base (ps_posts s))"
      using g(1) unfolding lowest_free_def by blast
    then have "\<not> 2 < m" using \<open>withSuffix base 2 \<notin> _\<close> by (metis order_refl)
    then have "m = 2" using m(1) by simp
    then show False using slug_used_held [OF _ g(2)] assms(5) g(3) m(2) by simp
  qed
  obtain r t where r: "CreateDraft E author title slug excerpt content category names s = (r, t)" by (rule prod.exhaust)
  show ?thesis
  proof (cases r)
    case (Inr x)
    then show ?thesis using wp_Inr [OF CreateDraft_wp [OF assms(1)]] r no by blast
  qed (use wp_Inl [OF CreateDraft_wp [OF assms(1)]] r no in blast)
qed

text \<open>Two posts: one whose slug is 255 letters, and one with the cut variant.\<close>

definition long_slug :: string where
  "long_slug = replicate 255 (CHR ''a'')"

definition long_demo :: post_store where
  "long_demo = post_demo
     \<lparr>ps_posts := [post_demo_row\<lparr>po_slug := long_slug\<rparr>, post_demo_row\<lparr>po_uuid := 3, po_slug := withSuffix long_slug 2\<rparr>],
      ps_revisions := [post_demo_revision\<lparr>rv_snapshot := SnapshotOf (post_demo_row\<lparr>po_slug := long_slug\<rparr>) [] [] no_seo\<rparr>,
        post_demo_revision\<lparr>rv_uuid := 4, rv_post := 3, rv_snapshot := SnapshotOf (post_demo_row\<lparr>po_slug := withSuffix long_slug 2\<rparr>) [] [] no_seo\<rparr>]\<rparr>"

lemma long_slug_ok: "slugPattern long_slug" "length long_slug = 255" "withSuffix long_slug 2 \<noteq> long_slug"
proof -
  have "slug_match g (replicate n (CHR ''a'')) \<longleftrightarrow> 0 < n \<or> g" for n g
    by (induction n arbitrary: g) (simp_all add: slug_char_def)
  then show "slugPattern long_slug" by (simp add: slugPattern_def long_slug_def)
  obtain x where "withSuffix long_slug 2 = x @ dash # format_int 2" using withSuffix_ends by blast
  then have "dash \<in> set (withSuffix long_slug 2)" by simp
  then show "withSuffix long_slug 2 \<noteq> long_slug" by (auto simp: long_slug_def dash_def)
qed (simp add: long_slug_def)

lemma long_demo_inv: "post_inv long_demo"
proof -
  have "slugPattern (withSuffix long_slug 2)" by (rule withSuffix_slug) (simp_all add: long_slug_ok)
  then show ?thesis using long_slug_ok(1,3)
    by (simp add: post_inv_def posts_inv_def long_demo_def post_demo_row_def post_demo_revision_def max_rows_def post_ok_def slug_own_def
      slug_held_def tracked_def hist_def mirrors_def SnapshotOf_def snap_ok_def numbers_ok_def policy_Valid_def po_live_def)
qed

theorem long_slug_refused_witness:
  "\<exists>e t. CreateDraft (post_demo_env 5) 7 ''Go'' long_slug [] [] None None long_demo = (Inl e, t) \<and> same_core long_demo t"
proof (rule long_slug_refused [OF long_demo_inv])
  show "draftSlug (pe_lower (post_demo_env 5)) (trim_space ''Go'') long_slug = Inr long_slug"
    using long_slug_ok by (simp add: draftSlug_def Let_def trim_space_slug to_lower_slug slugPattern_iff MaxSlugLength_def)
qed (simp_all add: long_slug_ok slug_used_def long_demo_def post_demo_row_def po_live_def)

text \<open>
  C26. An edit is decided on what it read. If other requests changed the version of the post before it writes, it
  is refused and changes no table. If it succeeds, the version was the one it read and is one more now; but it
  also writes back the cover it read: media changes do not raise the version, so the cover a concurrent media
  request chose is lost.
\<close>

theorem edit_after_other_requests:
  assumes "blog_inv s" "update_prepare E u actor unrestricted i s = (Inr x, s')"
  shows "wp (update_finish E actor x)
     (\<lambda>_ t. version_of u (run_all post_run ops s') = version_of u s \<and> version_of u t = map_option (\<lambda>n. n + 1) (version_of u s) \<and>
        cover_of u t = cover_of u s)
     (\<lambda>_. rolled (run_all post_run ops s')) (run_all post_run ops s')"
proof -
  note p = prepare_keeps [OF assms]
  have i: "post_inv s" "post_inv (run_all post_run ops s')" using assms(1) posts.runs_inv [OF p(1)] by (simp_all add: blog_inv_def)
  show ?thesis by (rule wp_mono [OF update_finish_wp [OF i(2)]]) (use updated_at [OF i p(2)] in blast)+
qed

definition cover_demo :: post_store where
  "cover_demo = post_demo\<lparr>ps_assets := [\<lparr>as_uuid = 9, as_status = ''ready'', as_deleted = False\<rparr>]\<rparr>"

definition cover_edit :: update_input where
  "cover_edit = \<lparr>ui_title = None, ui_slug = None, ui_excerpt = None, ui_content = Some ''new'', ui_category = None, ui_tags = None, ui_policy = None\<rparr>"

definition cover_ops :: "post_op list" where
  "cover_ops = [PoMedia (post_demo_env 3) 1 [\<lparr>mi_asset = 9, mi_kind = ''cover'', mi_sort = 0\<rparr>]]"

lemma cover_demo_inv: "blog_inv cover_demo"
  using post_demo_inv by (simp add: blog_inv_def cover_demo_def post_inv_def tag_view_def)

theorem edit_after_other_requests_witness:
  "\<exists>x s' r t. update_prepare (post_demo_env 2) 1 7 False cover_edit cover_demo = (Inr x, s') \<and>
     cover_of 1 (run_all post_run cover_ops s') = Some 9 \<and>
     update_finish (post_demo_env 2) 7 x (run_all post_run cover_ops s') = (Inr r, t) \<and> cover_of 1 t = None"
proof -
  define P where "P = update_prepare (post_demo_env 2) 1 7 False cover_edit cover_demo"
  define x where "x = projr (fst P)"
  define s' where "s' = snd P"
  define R where "R = update_finish (post_demo_env 2) 7 x (run_all post_run cover_ops s')"
  have "isl (fst P) = False" unfolding P_def by code_simp
  then have P: "update_prepare (post_demo_env 2) 1 7 False cover_edit cover_demo = (Inr x, s')"
    unfolding x_def s'_def P_def [symmetric] by (cases "fst P") (simp_all add: prod_eq_iff)
  have c: "cover_of 1 (run_all post_run cover_ops s') = Some 9" unfolding s'_def P_def by code_simp
  have "isl (fst R) = False" unfolding R_def x_def s'_def P_def by code_simp
  then obtain r where "fst R = Inr r" by (cases "fst R") simp_all
  then have R: "update_finish (post_demo_env 2) 7 x (run_all post_run cover_ops s') = (Inr r, snd R)"
    unfolding R_def [symmetric] by (simp add: prod_eq_iff)
  have "cover_of 1 (snd R) = cover_of 1 cover_demo"
    using wp_Inr [OF edit_after_other_requests [OF cover_demo_inv P] R] by blast
  also have "\<dots> = None" by code_simp
  finally show ?thesis using P c R by blast
qed

text \<open>
  C27. Going back to a revision is a round trip. The revision it stores, the newest one, has the title, excerpt,
  content and comment policy of the one it names, its slug unless another live post uses that by now, and the
  status of the post as it is. When nothing was skipped and the media of the source are in order, the difference
  between the two is at most the status. A failed request changes no table.
\<close>

theorem RestoreRevision_round_trip:
  assumes "blog_inv s" "pe_media E"
  shows "wp (RestoreRevision E u ref actor unrestricted why)
     (\<lambda>(q, ts, r, sk) t. \<exists>src \<in> set (ps_revisions s). rv_post src = u \<and> meant ref src \<and>
        ps_revisions t = ps_revisions s @ [rv_stored s r] \<and> mirrors r q \<and> phase_of u t = phase_of u s \<and>
        po_title q = sn_title (rv_snapshot src) \<and> po_excerpt q = sn_excerpt (rv_snapshot src) \<and>
        po_content q = sn_content (rv_snapshot src) \<and> po_policy q = sn_policy (rv_snapshot src) \<and>
        (po_slug q = sn_slug (rv_snapshot src) \<or> sk_slug sk = Some (sn_slug (rv_snapshot src)) \<and> slug_held (sn_slug (rv_snapshot src)) u (ps_posts s)) \<and>
        (no_skips sk \<and> sorted (map mi_sort (sn_media (rv_snapshot src))) \<longrightarrow>
           set (map fst (DiffSnapshots (rv_snapshot src) (rv_snapshot r))) \<subseteq> {FieldStatus}))
     (\<lambda>_. rolled s) s"
proof -
  have i: "post_inv s" "tag_inv (tag_view s)" using assms(1) by (simp_all add: blog_inv_def)
  show ?thesis
  proof (rule wp_mono [OF RestoreRevision_wp [OF i]], goal_cases)
    case (1 x t)
    from 1 obtain p src n q ts r sk where p: "p \<in> set (ps_posts s)" "po_uuid p = u" "po_live p" "src \<in> set (ps_revisions s)" "rv_post src = u" "meant ref src"
      "restorable_now s p (rv_snapshot src) = (n, sk)" "x = (q, ts, r, sk)" "restored_to E p n s q r t" unfolding restored_def by blast
    note k = snapshot_fields_kept [OF p(7)]
    have q: "q = restored_post p n (pe_clock E 0)" "shows_back E n q (rv_snapshot r)" "ps_revisions t = ps_revisions s @ [rv_stored s r]"
      "wrote s (put_row q (ps_posts s)) q RevisionRestore [] t" using p(9) unfolding restored_to_def by blast+
    have "mirrors (rv_stored s r) q" using q(3,4) unfolding wrote_def by (metis butlast_snoc last_snoc mirrors_stored)
    then have mr: "mirrors r q" by simp
    have ph: "phase_of u t = phase_of u s"
      using wrote_phase(1,2) [OF i(1) p(1) _ q(4)] p(2) by (simp add: q(1) restored_post_def phase_row_def po_live_def)
    have sk: "sk_slug sk = (if slug_lost s p (rv_snapshot src) then Some (sn_slug (rv_snapshot src)) else None)"
      using p(7) by (auto simp: restorable_now_def dropMissing_def)
    have df: "set (map fst (DiffSnapshots (rv_snapshot src) (rv_snapshot r))) \<subseteq> {FieldStatus}"
      if "no_skips sk" "sorted (map mi_sort (sn_media (rv_snapshot src)))"
    proof -
      have n: "n = rv_snapshot src" by (rule restorable_all [OF p(7) that(1)])
      show ?thesis using shows_back_diff [of E n p "pe_clock E 0" "rv_snapshot r"] q(1,2) assms(2) that(2) by (simp add: n)
    qed
    show ?case unfolding p(8) prod.case
      by (intro bexI [of _ src] conjI impI)
        (use p mr ph sk k df q(1,3) in \<open>auto simp: restored_post_def slug_lost_def split: if_splits\<close>)
  qed
qed

definition edited_demo :: post_store where
  "edited_demo = run_all post_run [PoEdit (post_demo_env 2) 1 7 False cover_edit] post_demo"

lemma first_text: "list_all (\<lambda>r. rv_number r = 1 \<longrightarrow> sn_content (rv_snapshot r) = ''text'') (ps_revisions edited_demo)"
  by code_simp

theorem RestoreRevision_round_trip_witness:
  "map po_content (ps_posts edited_demo) = [''new''] \<and>
   (\<exists>q ts r sk t. RestoreRevision (post_demo_env 3) 1 (ByNumber 1) 7 False [] edited_demo = (Inr (q, ts, r, sk), t) \<and> po_content q = ''text'')"
proof
  define R where "R = RestoreRevision (post_demo_env 3) 1 (ByNumber 1) 7 False [] edited_demo"
  have "isl (fst R) = False" unfolding R_def by code_simp
  then obtain q ts r sk where "fst R = Inr (q, ts, r, sk)" by (cases "fst R") auto
  then have R: "RestoreRevision (post_demo_env 3) 1 (ByNumber 1) 7 False [] edited_demo = (Inr (q, ts, r, sk), snd R)"
    unfolding R_def [symmetric] by (simp add: prod_eq_iff)
  have i: "blog_inv edited_demo" unfolding edited_demo_def by (rule posts.runs_inv [OF post_demo_inv])
  have m: "pe_media (post_demo_env 3)" by (simp add: post_demo_env_def)
  from wp_Inr [OF RestoreRevision_round_trip [OF i m] R, unfolded prod.case] obtain src
    where "src \<in> set (ps_revisions edited_demo)" "meant (ByNumber 1) src" "po_content q = sn_content (rv_snapshot src)" by blast
  then have "po_content q = ''text''" using first_text by (simp add: meant_def list_all_iff)
  then show "\<exists>q ts r sk t. RestoreRevision (post_demo_env 3) 1 (ByNumber 1) 7 False [] edited_demo = (Inr (q, ts, r, sk), t) \<and> po_content q = ''text''"
    using R by blast
qed code_simp

end
