(* ===== verification/Stepwise.thy ===== *)
theory Stepwise
  imports Prelude
begin

text \<open>
  Computations that look at an error and go on, and what a computation keeps because each of its steps
  does: the proof obligation of a long handler reduces to the writes it makes.
\<close>

section \<open>Errors as values\<close>

text \<open>To look at the error of a call and go on: the failure or the result as a value.\<close>

definition attempt :: "('s, 'e, 'a) comp \<Rightarrow> ('s, 'e, 'e failure + 'a) comp" where
  "attempt m s = (case m s of (r, t) \<Rightarrow> (Inr r, t))"

lemma attempt_state [simp]: "snd (attempt m s) = snd (m s)"
  by (simp add: attempt_def split: prod.split)

lemma wp_attempt [wp_simps]: "wp (attempt m) Q F s = wp m (\<lambda>x. Q (Inr x)) (\<lambda>e. Q (Inl e)) s"
  by (simp add: wp_def attempt_def split: prod.split sum.split)

lemma reads_attempt [reads_intros]: "reads m \<Longrightarrow> reads (attempt m)"
  by (simp add: reads_def)

lemma wp_sum [wp_simps]:
  "wp (case v of Inl e \<Rightarrow> f e | Inr x \<Rightarrow> g x) Q F s = (case v of Inl e \<Rightarrow> wp (f e) Q F s | Inr x \<Rightarrow> wp (g x) Q F s)"
  by (simp split: sum.split)

lemma reads_sum [reads_intros]: "(\<And>e. reads (f e)) \<Longrightarrow> (\<And>x. reads (g x)) \<Longrightarrow> reads (case v of Inl e \<Rightarrow> f e | Inr x \<Rightarrow> g x)"
  by (simp split: sum.split)

lemma reads_prod [reads_intros]: "(\<And>a b. reads (f a b)) \<Longrightarrow> reads (case p of (a, b) \<Rightarrow> f a b)"
  by (simp split: prod.split)

text \<open>A run that does not fail.\<close>

lemma run_result: "\<not> isl (fst (m s)) \<Longrightarrow> m s = (Inr (projr (fst (m s))), snd (m s))"
  by (cases "m s"; cases "fst (m s)") simp_all

section \<open>Steps\<close>

definition steps :: "('s \<Rightarrow> 's \<Rightarrow> bool) \<Rightarrow> ('s, 'e, 'a) comp \<Rightarrow> bool" where
  "steps R m \<longleftrightarrow> (\<forall>s. R s (snd (m s)))"

lemma stepsD: "steps R m \<Longrightarrow> R s (snd (m s))"
  by (simp add: steps_def)

lemma stepsI: "(\<And>s. R s (snd (m s))) \<Longrightarrow> steps R m"
  by (simp add: steps_def)

locale stepwise =
  fixes R :: "'z store_scheme \<Rightarrow> 'z store_scheme \<Rightarrow> bool"
  assumes step_trans: "R s t \<Longrightarrow> R t u \<Longrightarrow> R s u"
    and step_calls: "R s (s\<lparr>calls := n\<rparr>)"
begin

lemma step_refl: "R s s"
  using step_calls [of s "calls s"] by simp

lemma steps_reads: "reads m \<Longrightarrow> steps R m"
  unfolding steps_def reads_def unchanged_def by (metis step_calls)

lemma steps_basic: "steps R (ret x)" "steps R (throw e)" "steps R (raise f)" "steps R (of_result y)" "steps R (asks g)"
  by (intro steps_reads reads_intros)+

lemma steps_andthen: "steps R m \<Longrightarrow> (\<And>x. steps R (f x)) \<Longrightarrow> steps R (andthen m f)"
  unfolding steps_def andthen_def by (simp split: prod.split sum.split) (metis snd_conv step_trans)

lemma steps_attempt: "steps R m \<Longrightarrow> steps R (attempt m)"
  by (simp add: steps_def)

lemma steps_drop: "steps R m \<Longrightarrow> steps R (drop_result m)"
  by (simp add: steps_def drop_result_state)

lemma steps_db_call:
  assumes "steps R m"
  shows "steps R (db_call m)"
proof (rule stepsI)
  fix s
  show "R s (snd (db_call m s))"
    using step_trans [OF step_calls stepsD [OF assms]] step_calls by (simp add: db_call_def Let_def)
qed

lemma steps_tx: "steps R m \<Longrightarrow> steps R (within_tx m)"
  unfolding steps_def within_tx_def by (simp split: prod.split sum.split) (metis snd_conv step_calls)

lemma steps_if: "steps R a \<Longrightarrow> steps R b \<Longrightarrow> steps R (if c then a else b)"
  by simp

lemma steps_option: "steps R a \<Longrightarrow> (\<And>x. steps R (f x)) \<Longrightarrow> steps R (case v of None \<Rightarrow> a | Some x \<Rightarrow> f x)"
  by (simp split: option.split)

lemma steps_sum: "(\<And>e. steps R (f e)) \<Longrightarrow> (\<And>x. steps R (g x)) \<Longrightarrow> steps R (case v of Inl e \<Rightarrow> f e | Inr x \<Rightarrow> g x)"
  by (simp split: sum.split)

lemma steps_prod: "(\<And>a b. steps R (f a b)) \<Longrightarrow> steps R (case p of (a, b) \<Rightarrow> f a b)"
  by (simp split: prod.split)

lemma steps_change: "(\<And>s. R s (f s)) \<Longrightarrow> steps R (change f)"
  by (simp add: steps_def change_run)

lemmas steps_intros =
  steps_basic steps_andthen steps_attempt steps_drop steps_db_call steps_tx steps_if steps_option steps_sum steps_prod

end

end
