(* ===== verification/Auth_Store.thy ===== *)
theory Auth_Store
  imports Go_Strings Read_Cache Stepwise
begin

text \<open>
  The state of the authentication service and what it is stored in: accounts and refresh sessions
  (\<^verbatim>\<open>persistence/user_repository.go\<close>), single-use tokens (\<^verbatim>\<open>reset_token_repository.go\<close>), sign-ups
  (\<^verbatim>\<open>registration_repository.go\<close>), two-factor enrollments (\<^verbatim>\<open>two_factor_repository.go\<close>), linked identities
  (\<^verbatim>\<open>oauth_identity_repository.go\<close>), and in Redis the pending logins (\<^verbatim>\<open>adapters/outbound/challenge\<close>) and the
  lockout (\<^verbatim>\<open>adapters/outbound/ratelimit/lockout.go\<close>). Instants and durations are in nanoseconds. A row is
  live for GORM while \<^verbatim>\<open>deleted_at\<close> is NULL.
\<close>

section \<open>Rows\<close>

datatype user_status = UsPending | UsActive | UsSuspended | UsDeleted

record au_user =
  us_uuid :: uuid
  us_email :: string
  us_username :: string
  us_fullname :: string
  us_password :: string
  us_status :: user_status
  us_verified :: "instant option"
  us_pw_changed :: "instant option"
  us_last_login :: "instant option"
  us_logins :: int
  us_created :: instant
  us_updated :: instant
  us_deleted :: "instant option"

record au_session =
  rs_uuid :: uuid
  rs_user :: uuid
  rs_family :: uuid
  rs_hash :: string
  rs_expires :: instant
  rs_revoked :: "instant option"
  rs_replaced :: "uuid option"
  rs_agent :: string
  rs_ip :: string
  rs_created :: instant

datatype purpose = PurposePasswordReset | PurposeEmailChange

record reset_token =
  rt_uuid :: uuid
  rt_user :: uuid
  rt_jti :: string
  rt_hash :: string
  rt_purpose :: purpose
  rt_email :: string
  rt_expires :: instant
  rt_used :: "instant option"
  rt_created :: instant

record registration =
  rg_uuid :: uuid
  rg_email :: string
  rg_username :: string
  rg_fullname :: string
  rg_password :: string
  rg_hash :: string
  rg_expires :: instant
  rg_created :: instant

record tf_method =
  tf_user :: uuid
  tf_secret :: string
  tf_confirmed :: "instant option"
  tf_step :: int

record backup_code =
  bc_user :: uuid
  bc_hash :: string
  bc_used :: "instant option"

record oauth_link =
  ol_user :: uuid
  ol_provider :: string
  ol_subject :: string
  ol_email :: string
  ol_used :: instant

record pending_login =
  pl_user :: uuid
  pl_remember :: bool
  pl_agent :: string
  pl_ip :: string

record oauth_state =
  os_provider :: string
  os_redirect :: string
  os_verifier :: string

datatype auth_event =
    UserCreated uuid string user_status "string list" instant
  | UserPasswordResetRequested uuid instant instant

text \<open>Messages handed to the notifiers, with the raw token they carry.\<close>

datatype auth_mail =
    MailPasswordReset uuid string instant
  | MailPasswordChanged uuid
  | MailEmailChangeRequested uuid string string instant
  | MailEmailChanged uuid string string
  | MailAccountVerify string string
  | MailAccountExists uuid

datatype auth_error =
    AuInvalidCredentials | AuUserInactive | AuInvalidToken | AuTokenExpired | AuTokenRevoked | AuSessionExpired
  | AuTokenUsed | AuValidation string | AuPasswordStrength | AuPasswordMismatch | AuCurrentPassword | AuEmailTaken
  | AuUsernameTaken | AuUserNotFound | AuLocked int | AuTargetInactive
  | RegClosed | RegTokenInvalid | RegTokenExpired
  | TfUnavailable | TfNotEnrolled | TfAlreadyEnabled | TfPending | TfInvalidCode | ChallengeInvalid
  | OAuthProviderUnknown | OAuthRedirectURI | OAuthStateInvalid | OAuthExchange | OAuthNoAccount | OAuthLinkConflict
  | EmailTokenInvalid | EmailTokenUsed | EmailTokenExpired
  | AuRoleNotFound | AuUnknownReference

text \<open>\<open>au_pg\<close> is the database's \<^verbatim>\<open>lower\<close>; \<open>au_time n\<close> is the time in Redis when the n-th call is made.\<close>

record auth_store = store +
  au_users :: "au_user list"
  au_sessions :: "au_session list"
  au_resets :: "reset_token list"
  au_registrations :: "registration list"
  au_methods :: "tf_method list"
  au_codes :: "backup_code list"
  au_links :: "oauth_link list"
  au_challenges :: "string \<Rightarrow> (pending_login \<times> int \<times> instant) option"
  au_states :: "string \<Rightarrow> (oauth_state \<times> instant) option"
  au_fails :: "string \<Rightarrow> (int \<times> instant) option"
  au_locks :: "string \<Rightarrow> instant option"
  au_time :: "nat \<Rightarrow> instant"
  au_pg :: "string \<Rightarrow> string"
  au_grants :: "(uuid \<times> string list) list"
  au_events :: "auth_event list"
  au_mails :: "auth_mail list"
  au_invalidated :: "family list"

type_synonym 'a auth_comp = "(auth_store, auth_error, 'a) comp"

text \<open>A call that may fail, of a random source, a cipher or a signer.\<close>

definition au_ext :: "'a \<Rightarrow> 'a auth_comp" where
  "au_ext x = db_call (ret x)"

section \<open>Accounts\<close>

definition us_live :: "au_user \<Rightarrow> bool" where
  "us_live u \<longleftrightarrow> us_deleted u = None"

definition IsActive :: "au_user \<Rightarrow> bool" where
  "IsActive u \<longleftrightarrow> us_status u = UsActive \<and> us_deleted u = None"

definition us_findOne :: "((string \<Rightarrow> string) \<Rightarrow> au_user \<Rightarrow> bool) \<Rightarrow> au_user auth_comp" where
  "us_findOne P = db_call (\<lambda>s. case find (\<lambda>u. us_live u \<and> P (au_pg s) u) (au_users s) of
                                 None \<Rightarrow> (Inl (Err AuUserNotFound), s)
                               | Some u \<Rightarrow> (Inr u, s))"

definition FindByID :: "uuid \<Rightarrow> au_user auth_comp" where
  "FindByID u = us_findOne (\<lambda>pg r. us_uuid r = u)"

text \<open>\<open>lo\<close> is Go's lower case of runes outside ASCII.\<close>

definition FindByEmail :: "(nat \<Rightarrow> nat) \<Rightarrow> string \<Rightarrow> au_user auth_comp" where
  "FindByEmail lo email = us_findOne (\<lambda>pg r. pg (us_email r) = to_lower lo email)"

definition FindByUsernameOrEmail :: "(nat \<Rightarrow> nat) \<Rightarrow> string \<Rightarrow> au_user auth_comp" where
  "FindByUsernameOrEmail lo identity =
     (let i = to_lower lo (trim_space identity) in us_findOne (\<lambda>pg r. pg (us_email r) = i \<or> pg (us_username r) = i))"

definition us_write :: "uuid \<Rightarrow> (au_user \<Rightarrow> au_user) \<Rightarrow> auth_store \<Rightarrow> auth_store" where
  "us_write u f s = s\<lparr>au_users := map (\<lambda>r. if us_live r \<and> us_uuid r = u then f r else r) (au_users s)\<rparr>"

definition RecordLogin :: "uuid \<Rightarrow> instant \<Rightarrow> unit auth_comp" where
  "RecordLogin u at = db_call (change (us_write u (\<lambda>r.
     r\<lparr>us_last_login := Some at, us_logins := us_logins r + 1, us_updated := at\<rparr>)))"

definition us_Create :: "au_user \<Rightarrow> au_user auth_comp" where
  "us_Create u = db_call (\<lambda>s.
     if us_uuid u \<in> us_uuid ` set (au_users s) then (Inl StoreFail, s)
     else if list_ex (\<lambda>r. us_live r \<and> au_pg s (us_email r) = au_pg s (us_email u)) (au_users s) then (Inl (Err AuEmailTaken), s)
     else if list_ex (\<lambda>r. us_live r \<and> au_pg s (us_username r) = au_pg s (us_username u)) (au_users s) then (Inl (Err AuUsernameTaken), s)
     else (Inr u, s\<lparr>au_users := au_users s @ [u]\<rparr>))"

definition UpdatePassword :: "uuid \<Rightarrow> string \<Rightarrow> instant \<Rightarrow> unit auth_comp" where
  "UpdatePassword u h at = db_call (change (us_write u (\<lambda>r.
     r\<lparr>us_password := h, us_pw_changed := Some at, us_updated := at\<rparr>)))"

definition UpdateEmail :: "uuid \<Rightarrow> string \<Rightarrow> instant \<Rightarrow> unit auth_comp" where
  "UpdateEmail u email at = db_call (\<lambda>s.
     if list_ex (\<lambda>r. us_live r \<and> us_uuid r = u) (au_users s) \<and>
        list_ex (\<lambda>r. us_live r \<and> us_uuid r \<noteq> u \<and> au_pg s (us_email r) = au_pg s email) (au_users s)
     then (Inl (Err AuEmailTaken), s)
     else (Inr (), us_write u (\<lambda>r. r\<lparr>us_email := email, us_verified := Some at, us_updated := at\<rparr>) s))"

definition au_known :: "uuid \<Rightarrow> unit auth_comp" where
  "au_known u = db_call (\<lambda>s. if u \<in> us_uuid ` set (au_users s) then (Inr (), s) else (Inl (Err AuUnknownReference), s))"

section \<open>Refresh sessions\<close>

definition rs_Active :: "au_session \<Rightarrow> instant \<Rightarrow> bool" where
  "rs_Active r now \<longleftrightarrow> rs_revoked r = None \<and> now < rs_expires r"

definition ss_Create :: "au_session \<Rightarrow> au_session auth_comp" where
  "ss_Create r =
     andthen (au_known (rs_user r)) (\<lambda>_.
     db_call (\<lambda>s.
       if rs_uuid r \<in> rs_uuid ` set (au_sessions s) \<or> rs_hash r \<in> rs_hash ` set (au_sessions s) then (Inl StoreFail, s)
       else (Inr r, s\<lparr>au_sessions := au_sessions s @ [r\<lparr>rs_revoked := None, rs_replaced := None\<rparr>]\<rparr>)))"

definition ss_find :: "string \<Rightarrow> au_session auth_comp" where
  "ss_find h = db_call (\<lambda>s. case find (\<lambda>r. rs_hash r = h) (au_sessions s) of
                              None \<Rightarrow> (Inl (Err AuInvalidToken), s)
                            | Some r \<Rightarrow> (Inr r, s))"

definition ss_write :: "(au_session \<Rightarrow> bool) \<Rightarrow> (au_session \<Rightarrow> au_session) \<Rightarrow> unit auth_comp" where
  "ss_write P f = db_call (change (\<lambda>s. s\<lparr>au_sessions := map (\<lambda>r. if P r then f r else r) (au_sessions s)\<rparr>))"

definition ss_Revoke :: "uuid \<Rightarrow> instant \<Rightarrow> unit auth_comp" where
  "ss_Revoke u at = ss_write (\<lambda>r. rs_uuid r = u) (\<lambda>r. r\<lparr>rs_revoked := Some at\<rparr>)"

definition RevokeFamily :: "uuid \<Rightarrow> uuid \<Rightarrow> instant \<Rightarrow> unit auth_comp" where
  "RevokeFamily u fam at =
     ss_write (\<lambda>r. rs_user r = u \<and> rs_family r = fam \<and> rs_revoked r = None) (\<lambda>r. r\<lparr>rs_revoked := Some at\<rparr>)"

definition RevokeAllForUser :: "uuid \<Rightarrow> instant \<Rightarrow> unit auth_comp" where
  "RevokeAllForUser u at = ss_write (\<lambda>r. rs_user r = u \<and> rs_revoked r = None) (\<lambda>r. r\<lparr>rs_revoked := Some at\<rparr>)"

definition ss_Replace :: "uuid \<Rightarrow> uuid \<Rightarrow> instant \<Rightarrow> unit auth_comp" where
  "ss_Replace old new at = db_call (change (\<lambda>s.
     let link = (if new \<in> rs_uuid ` set (au_sessions s) then Some new else None) in
     s\<lparr>au_sessions := map (\<lambda>r. if rs_uuid r = old then r\<lparr>rs_revoked := Some at, rs_replaced := link\<rparr> else r) (au_sessions s)\<rparr>))"

definition ss_Prune :: "instant \<Rightarrow> nat auth_comp" where
  "ss_Prune cutoff = db_call (\<lambda>s.
     let gone = filter (\<lambda>r. rs_expires r < cutoff) (au_sessions s);
         kept = filter (\<lambda>r. \<not> rs_expires r < cutoff) (au_sessions s) in
     (Inr (length gone),
      s\<lparr>au_sessions := map (\<lambda>r. if rs_replaced r \<in> (\<lambda>g. Some (rs_uuid g)) ` set gone then r\<lparr>rs_replaced := None\<rparr> else r) kept\<rparr>))"

section \<open>Single-use tokens\<close>

definition rt_Create :: "reset_token \<Rightarrow> unit auth_comp" where
  "rt_Create t =
     andthen (au_known (rt_user t)) (\<lambda>_.
     db_call (\<lambda>s.
       if list_ex (\<lambda>r. rt_uuid r = rt_uuid t \<or> rt_jti r = rt_jti t \<or> rt_hash r = rt_hash t) (au_resets s) then (Inl StoreFail, s)
       else (Inr (), s\<lparr>au_resets := au_resets s @ [t\<lparr>rt_used := None\<rparr>]\<rparr>)))"

definition rt_find :: "string \<Rightarrow> reset_token auth_comp" where
  "rt_find h = db_call (\<lambda>s. case find (\<lambda>r. rt_hash r = h) (au_resets s) of
                              None \<Rightarrow> (Inl (Err AuInvalidToken), s)
                            | Some r \<Rightarrow> (Inr r, s))"

definition rt_write :: "(reset_token \<Rightarrow> bool) \<Rightarrow> instant \<Rightarrow> unit auth_comp" where
  "rt_write P at = db_call (change (\<lambda>s.
     s\<lparr>au_resets := map (\<lambda>r. if P r \<and> rt_used r = None then r\<lparr>rt_used := Some at\<rparr> else r) (au_resets s)\<rparr>))"

definition MarkUsed :: "uuid \<Rightarrow> instant \<Rightarrow> unit auth_comp" where
  "MarkUsed u at = rt_write (\<lambda>r. rt_uuid r = u) at"

definition RevokePending :: "uuid \<Rightarrow> purpose \<Rightarrow> instant \<Rightarrow> unit auth_comp" where
  "RevokePending u p at = rt_write (\<lambda>r. rt_user r = u \<and> rt_purpose r = p) at"

definition rt_Prune :: "instant \<Rightarrow> nat auth_comp" where
  "rt_Prune cutoff = db_call (\<lambda>s.
     (Inr (length (filter (\<lambda>r. rt_expires r < cutoff) (au_resets s))),
      s\<lparr>au_resets := filter (\<lambda>r. \<not> rt_expires r < cutoff) (au_resets s)\<rparr>))"

section \<open>Sign-ups\<close>

definition rg_Create :: "registration \<Rightarrow> nat \<Rightarrow> bool auth_comp" where
  "rg_Create g maxLive = db_call (\<lambda>s.
     if length (filter (\<lambda>r. au_pg s (rg_email r) = au_pg s (rg_email g) \<and> rg_created g < rg_expires r) (au_registrations s)) < maxLive
     then if list_ex (\<lambda>r. rg_uuid r = rg_uuid g \<or> rg_hash r = rg_hash g) (au_registrations s) then (Inl StoreFail, s)
          else (Inr True, s\<lparr>au_registrations := au_registrations s @ [g]\<rparr>)
     else (Inr False, s))"

definition rg_find :: "string \<Rightarrow> registration auth_comp" where
  "rg_find h = db_call (\<lambda>s. case find (\<lambda>r. rg_hash r = h) (au_registrations s) of
                              None \<Rightarrow> (Inl (Err RegTokenInvalid), s)
                            | Some r \<Rightarrow> (Inr r, s))"

definition rg_Consume :: "string \<Rightarrow> bool auth_comp" where
  "rg_Consume h = db_call (\<lambda>s.
     let hit = filter (\<lambda>r. rg_hash r = h) (au_registrations s) in
     (Inr (length hit = 1),
      s\<lparr>au_registrations := filter (\<lambda>r. rg_hash r \<noteq> h \<and> au_pg s (rg_email r) \<notin> (\<lambda>q. au_pg s (rg_email q)) ` set hit) (au_registrations s)\<rparr>))"

definition rg_Prune :: "instant \<Rightarrow> nat auth_comp" where
  "rg_Prune now = db_call (\<lambda>s.
     (Inr (length (filter (\<lambda>r. rg_expires r \<le> now) (au_registrations s))),
      s\<lparr>au_registrations := filter (\<lambda>r. \<not> rg_expires r \<le> now) (au_registrations s)\<rparr>))"

section \<open>Two-factor enrollments\<close>

definition Enabled :: "tf_method \<Rightarrow> bool" where
  "Enabled m \<longleftrightarrow> tf_confirmed m \<noteq> None"

text \<open>The enrollment and the number of unused backup codes.\<close>

definition tf_Find :: "uuid \<Rightarrow> (tf_method \<times> nat) auth_comp" where
  "tf_Find u =
     andthen (db_call (\<lambda>s. case find (\<lambda>m. tf_user m = u) (au_methods s) of
                             None \<Rightarrow> (Inl (Err TfNotEnrolled), s)
                           | Some m \<Rightarrow> (Inr m, s))) (\<lambda>m.
     andthen (db_call (asks (\<lambda>s. length (filter (\<lambda>c. bc_user c = u \<and> bc_used c = None) (au_codes s))))) (\<lambda>n.
     ret (m, n)))"

definition drop_codes :: "uuid \<Rightarrow> unit auth_comp" where
  "drop_codes u = db_call (change (\<lambda>s. s\<lparr>au_codes := filter (\<lambda>c. bc_user c \<noteq> u) (au_codes s)\<rparr>))"

definition SavePending :: "uuid \<Rightarrow> string \<Rightarrow> unit auth_comp" where
  "SavePending u secret = within_tx (
     andthen (au_known u) (\<lambda>_.
     andthen (db_call (\<lambda>s.
       case find (\<lambda>m. tf_user m = u) (au_methods s) of
         None \<Rightarrow> (Inr True, s\<lparr>au_methods := au_methods s @ [\<lparr>tf_user = u, tf_secret = secret, tf_confirmed = None, tf_step = 0\<rparr>]\<rparr>)
       | Some m \<Rightarrow> if tf_confirmed m = None
                   then (Inr True, s\<lparr>au_methods := map (\<lambda>m. if tf_user m = u then m\<lparr>tf_secret := secret, tf_step := 0\<rparr> else m) (au_methods s)\<rparr>)
                   else (Inr False, s))) (\<lambda>hit.
     if \<not> hit then throw TfAlreadyEnabled else drop_codes u)))"

definition insertBackupCodes :: "uuid \<Rightarrow> string list \<Rightarrow> unit auth_comp" where
  "insertBackupCodes u hashes =
     (if hashes = [] then ret ()
      else db_call (\<lambda>s.
        if distinct hashes \<and> (\<forall>c \<in> set (au_codes s). bc_user c = u \<longrightarrow> bc_hash c \<notin> set hashes)
        then (Inr (), s\<lparr>au_codes := au_codes s @ map (\<lambda>h. \<lparr>bc_user = u, bc_hash = h, bc_used = None\<rparr>) hashes\<rparr>)
        else (Inl StoreFail, s)))"

definition tf_Confirm :: "uuid \<Rightarrow> int \<Rightarrow> string list \<Rightarrow> instant \<Rightarrow> unit auth_comp" where
  "tf_Confirm u step hashes at = within_tx (
     andthen (au_known u) (\<lambda>_.
     andthen (db_call (\<lambda>s.
       let P = (\<lambda>m. tf_user m = u \<and> tf_confirmed m = None \<and> tf_step m < step) in
       (Inr (list_ex P (au_methods s)),
        s\<lparr>au_methods := map (\<lambda>m. if P m then m\<lparr>tf_confirmed := Some at, tf_step := step\<rparr> else m) (au_methods s)\<rparr>))) (\<lambda>hit.
     if \<not> hit then throw TfInvalidCode else insertBackupCodes u hashes)))"

definition UseStep :: "uuid \<Rightarrow> int \<Rightarrow> bool auth_comp" where
  "UseStep u step = db_call (\<lambda>s.
     let P = (\<lambda>m. tf_user m = u \<and> tf_step m < step) in
     (Inr (length (filter P (au_methods s)) = 1),
      s\<lparr>au_methods := map (\<lambda>m. if P m then m\<lparr>tf_step := step\<rparr> else m) (au_methods s)\<rparr>))"

definition UseBackupCode :: "uuid \<Rightarrow> string \<Rightarrow> instant \<Rightarrow> bool auth_comp" where
  "UseBackupCode u h at = db_call (\<lambda>s.
     let P = (\<lambda>c. bc_user c = u \<and> bc_hash c = h \<and> bc_used c = None) in
     (Inr (length (filter P (au_codes s)) = 1),
      s\<lparr>au_codes := map (\<lambda>c. if P c then c\<lparr>bc_used := Some at\<rparr> else c) (au_codes s)\<rparr>))"

definition ReplaceBackupCodes :: "uuid \<Rightarrow> string list \<Rightarrow> unit auth_comp" where
  "ReplaceBackupCodes u hashes = within_tx (
     andthen (au_known u) (\<lambda>_.
     andthen (drop_codes u) (\<lambda>_.
     insertBackupCodes u hashes)))"

definition tf_Delete :: "uuid \<Rightarrow> unit auth_comp" where
  "tf_Delete u = within_tx (
     andthen (au_known u) (\<lambda>_.
     andthen (drop_codes u) (\<lambda>_.
     db_call (change (\<lambda>s. s\<lparr>au_methods := filter (\<lambda>m. tf_user m \<noteq> u) (au_methods s)\<rparr>)))))"

section \<open>Linked identities\<close>

definition oi_FindUser :: "string \<Rightarrow> string \<Rightarrow> uuid auth_comp" where
  "oi_FindUser provider subject = db_call (\<lambda>s.
     case filter (\<lambda>l. ol_provider l = provider \<and> ol_subject l = subject \<and>
                      list_ex (\<lambda>u. us_uuid u = ol_user l \<and> us_live u) (au_users s)) (au_links s) of
       [] \<Rightarrow> (Inl (Err OAuthNoAccount), s)
     | l # _ \<Rightarrow> (Inr (ol_user l), s))"

definition oi_Link :: "uuid \<Rightarrow> oauth_link \<Rightarrow> unit auth_comp" where
  "oi_Link u l =
     andthen (attempt (au_known u)) (\<lambda>k.
     case k of
       Inl e \<Rightarrow> raise (if e = Err AuUnknownReference then Err OAuthNoAccount else e)
     | Inr _ \<Rightarrow> db_call (\<lambda>s.
         if list_ex (\<lambda>q. ol_provider q = ol_provider l \<and> (ol_subject q = ol_subject l \<or> ol_user q = u)) (au_links s)
         then (Inl (Err OAuthLinkConflict), s)
         else (Inr (), s\<lparr>au_links := au_links s @ [l\<lparr>ol_user := u\<rparr>]\<rparr>)))"

definition oi_Touch :: "string \<Rightarrow> string \<Rightarrow> instant \<Rightarrow> unit auth_comp" where
  "oi_Touch provider subject at = db_call (change (\<lambda>s.
     s\<lparr>au_links := map (\<lambda>l. if ol_provider l = provider \<and> ol_subject l = subject then l\<lparr>ol_used := at\<rparr> else l) (au_links s)\<rparr>))"

section \<open>Redis: pending logins, states, lockout\<close>

text \<open>A call to Redis, at the time it is made. An entry is there until it expires.\<close>

definition redis_call :: "(instant \<Rightarrow> 'a auth_comp) \<Rightarrow> 'a auth_comp" where
  "redis_call f s = db_call (f (au_time s (calls s))) s"

definition ch_live :: "instant \<Rightarrow> string \<Rightarrow> auth_store \<Rightarrow> (pending_login \<times> int \<times> instant) option" where
  "ch_live now h s = (case au_challenges s h of
                        None \<Rightarrow> None
                      | Some (l, n, until) \<Rightarrow> if now < until then Some (l, n, until) else None)"

definition ch_Save :: "string \<Rightarrow> pending_login \<Rightarrow> int \<Rightarrow> unit auth_comp" where
  "ch_Save h l ttl = redis_call (\<lambda>now. change (\<lambda>s. s\<lparr>au_challenges := (au_challenges s)(h := Some (l, 0, now + ttl))\<rparr>))"

definition ch_Get :: "string \<Rightarrow> pending_login auth_comp" where
  "ch_Get h = redis_call (\<lambda>now s. case ch_live now h s of
                                     None \<Rightarrow> (Inl (Err ChallengeInvalid), s)
                                   | Some (l, n, until) \<Rightarrow> (Inr l, s))"

definition ch_Attempt :: "string \<Rightarrow> int auth_comp" where
  "ch_Attempt h = redis_call (\<lambda>now s. case ch_live now h s of
                                         None \<Rightarrow> (Inl (Err ChallengeInvalid), s)
                                       | Some (l, n, until) \<Rightarrow>
                                           (Inr (n + 1), s\<lparr>au_challenges := (au_challenges s)(h := Some (l, n + 1, until))\<rparr>))"

definition ch_Consume :: "string \<Rightarrow> bool auth_comp" where
  "ch_Consume h = redis_call (\<lambda>now s. (Inr (ch_live now h s \<noteq> None), s\<lparr>au_challenges := (au_challenges s)(h := None)\<rparr>))"

definition st_Save :: "string \<Rightarrow> oauth_state \<Rightarrow> int \<Rightarrow> unit auth_comp" where
  "st_Save h v ttl = redis_call (\<lambda>now. change (\<lambda>s. s\<lparr>au_states := (au_states s)(h := Some (v, now + ttl))\<rparr>))"

definition st_Consume :: "string \<Rightarrow> oauth_state auth_comp" where
  "st_Consume h = redis_call (\<lambda>now s. case au_states s h of
                                         None \<Rightarrow> (Inl (Err OAuthStateInvalid), s)
                                       | Some (v, until) \<Rightarrow>
                                           if now < until then (Inr v, s\<lparr>au_states := (au_states s)(h := None)\<rparr>)
                                           else (Inl (Err OAuthStateInvalid), s))"

definition lk_Locked :: "string \<Rightarrow> int auth_comp" where
  "lk_Locked key = redis_call (\<lambda>now s. case au_locks s key of
                                          None \<Rightarrow> (Inr 0, s)
                                        | Some until \<Rightarrow> (Inr (if now < until then until - now else 0), s))"

text \<open>The first pipeline counts, the second locks and forgets the count.\<close>

definition lk_Fail :: "int \<Rightarrow> int \<Rightarrow> string \<Rightarrow> int auth_comp" where
  "lk_Fail maxFailures lockFor key =
     andthen (redis_call (\<lambda>now s.
       case au_fails s key of
         Some (n, until) \<Rightarrow> if now < until then (Inr (n + 1), s\<lparr>au_fails := (au_fails s)(key := Some (n + 1, until))\<rparr>)
                            else (Inr 1, s\<lparr>au_fails := (au_fails s)(key := Some (1, now + lockFor))\<rparr>)
       | None \<Rightarrow> (Inr 1, s\<lparr>au_fails := (au_fails s)(key := Some (1, now + lockFor))\<rparr>))) (\<lambda>n.
     if n < maxFailures then ret 0
     else
     andthen (redis_call (\<lambda>now. change (\<lambda>s.
       s\<lparr>au_locks := (au_locks s)(key := Some (now + lockFor)), au_fails := (au_fails s)(key := None)\<rparr>))) (\<lambda>_.
     ret lockFor))"

definition lk_Reset :: "string \<Rightarrow> unit auth_comp" where
  "lk_Reset key = redis_call (\<lambda>now. change (\<lambda>s. s\<lparr>au_fails := (au_fails s)(key := None)\<rparr>))"

end
