(* ===== verification/Auth_Service.thy ===== *)
theory Auth_Service
  imports Auth_Store
begin

text \<open>
  The authentication service (\<^verbatim>\<open>internal/core/auth/service\<close>): login and lockout, refresh-token rotation,
  password reset and change, two-factor enrollment and challenge, sign-up, email change, administrator
  operations and social login, as \<^verbatim>\<open>internal/bootstrap/app.go\<close> wires them.
\<close>

section \<open>What a request brings along\<close>

text \<open>
  Clock readings, fresh ids and random texts in the order they are drawn; lifetimes; the lockout (failures
  and duration) when it is on, and whether there is an encryption key. Hashes, ciphers and the signing
  of tokens are functions of cryptographic libraries, the address parser one of \<^verbatim>\<open>net/mail\<close>; the permission
  check, the role catalogue, the sign-up policy and the providers are other services.
\<close>

datatype rune_class = RuneUpper | RuneLower | RuneDigit | RuneOther

record oauth_identity =
  oa_provider :: string
  oa_subject :: string
  oa_email :: string
  oa_verified :: bool

record auth_env =
  ae_clock :: "nat \<Rightarrow> instant"
  ae_ids :: "nat \<Rightarrow> uuid"
  ae_random :: "nat \<Rightarrow> string"
  ae_AccessTTL :: int
  ae_RefreshTTL :: int
  ae_ResetTokenTTL :: int
  ae_EmailChangeTTL :: int
  ae_RegistrationTTL :: int
  ae_lockout :: "(int \<times> int) option"
  ae_box :: bool
  ae_HashRefresh :: "string \<Rightarrow> string"
  ae_HashResetToken :: "string \<Rightarrow> string"
  ae_sha256 :: "string \<Rightarrow> string"
  ae_MAC :: "string \<Rightarrow> string"
  ae_Encrypt :: "string \<Rightarrow> string"
  ae_Decrypt :: "string \<Rightarrow> string option"
  ae_Hash :: "string \<Rightarrow> string"
  ae_Compare :: "string \<Rightarrow> string \<Rightarrow> bool"
  ae_Code :: "string \<Rightarrow> int \<Rightarrow> string"
  ae_lower :: "nat \<Rightarrow> nat"
  ae_fold :: "nat \<Rightarrow> nat"
  ae_class :: "nat \<Rightarrow> rune_class"
  ae_ParseAddress :: "string \<Rightarrow> string option"
  ae_Enforce :: "uuid \<Rightarrow> string \<Rightarrow> bool"
  ae_roles :: "string list \<Rightarrow> bool"
  ae_open :: bool
  ae_Exchange :: "string \<Rightarrow> (string \<Rightarrow> string \<Rightarrow> string \<Rightarrow> oauth_identity option) option"
  ae_redirects :: "string list"

definition hours :: "int \<Rightarrow> int" where
  "hours n = n * 3600000000000"

definition minutes :: "int \<Rightarrow> int" where
  "minutes n = n * 60000000000"

text \<open>The lifetimes \<open>New\<close> sets when the configuration has none.\<close>

definition auth_New :: "auth_env \<Rightarrow> auth_env" where
  "auth_New E =
     E\<lparr>ae_AccessTTL := (if ae_AccessTTL E \<le> 0 then minutes 15 else ae_AccessTTL E),
       ae_RefreshTTL := (if ae_RefreshTTL E \<le> 0 then hours (30 * 24) else ae_RefreshTTL E),
       ae_ResetTokenTTL := (if ae_ResetTokenTTL E \<le> 0 then hours 1 else ae_ResetTokenTTL E),
       ae_EmailChangeTTL := (if ae_EmailChangeTTL E \<le> 0 then hours 1 else ae_EmailChangeTTL E),
       ae_RegistrationTTL := (if ae_RegistrationTTL E \<le> 0 then hours 24 else ae_RegistrationTTL E)\<rparr>"

definition shortSessionTTL :: int where "shortSessionTTL = hours (7 * 24)"

definition challengeTTL :: int where "challengeTTL = minutes 5"

definition maxChallengeAttempts :: int where "maxChallengeAttempts = 5"

definition backupCodeCount :: nat where "backupCodeCount = 10"

definition maxLiveRegistrations :: nat where "maxLiveRegistrations = 3"

definition maxEmailBytes :: nat where "maxEmailBytes = 254"

definition oauthStateTTL :: int where "oauthStateTTL = minutes 10"

definition AdminAccessPermission :: string where "AdminAccessPermission = ''admin.access''"

definition backupCodeAlphabet :: string where "backupCodeAlphabet = ''abcdefghjkmnpqrstuvwxyz23456789''"

definition au_record :: "auth_event \<Rightarrow> unit auth_comp" where
  "au_record e = db_call (change (\<lambda>s. s\<lparr>au_events := au_events s @ [e]\<rparr>))"

definition au_mail :: "auth_mail \<Rightarrow> unit auth_comp" where
  "au_mail m = change (\<lambda>s. s\<lparr>au_mails := au_mails s @ [m]\<rparr>)"

definition au_invalidate :: "unit auth_comp" where
  "au_invalidate = change (\<lambda>s. s\<lparr>au_invalidated := au_invalidated s @ [Users]\<rparr>)"

section \<open>Accounts and passwords\<close>

definition activeUser :: "uuid \<Rightarrow> au_user auth_comp" where
  "activeUser u =
     andthen (attempt (FindByID u)) (\<lambda>r.
     case r of
       Inl e \<Rightarrow> raise (if e = Err AuUserNotFound then Err AuUserInactive else e)
     | Inr x \<Rightarrow> if IsActive x then ret x else throw AuUserInactive)"

definition class_of :: "auth_env \<Rightarrow> nat \<Rightarrow> rune_class" where
  "class_of E r =
     (if 65 \<le> r \<and> r \<le> 90 then RuneUpper else if 97 \<le> r \<and> r \<le> 122 then RuneLower
      else if 48 \<le> r \<and> r \<le> 57 then RuneDigit else if r < 128 then RuneOther else ae_class E r)"

definition validatePasswordStrength :: "auth_env \<Rightarrow> string \<Rightarrow> unit auth_comp" where
  "validatePasswordStrength E p =
     (if length p < 12 \<or> length p > 128 then throw AuPasswordStrength
      else if {RuneUpper, RuneLower, RuneDigit} \<subseteq> class_of E ` set (runes p) then ret ()
      else throw AuPasswordStrength)"

definition checkPassword :: "auth_env \<Rightarrow> uuid \<Rightarrow> string \<Rightarrow> unit auth_comp" where
  "checkPassword E u p =
     andthen (activeUser u) (\<lambda>x.
     if us_password x = [] \<or> \<not> ae_Compare E (us_password x) p then throw AuCurrentPassword else ret ())"

definition VerifyPassword :: "auth_env \<Rightarrow> uuid \<Rightarrow> string \<Rightarrow> bool auth_comp" where
  "VerifyPassword E u p = andthen (activeUser u) (\<lambda>x. ret (us_password x \<noteq> [] \<and> ae_Compare E (us_password x) p))"

section \<open>Tokens and sessions\<close>

text \<open>The claims of an access token and the refresh token beside it.\<close>

record token_pair =
  tp_subject :: uuid
  tp_email :: string
  tp_username :: string
  tp_issued :: instant
  tp_expires :: instant
  tp_id :: uuid
  tp_family :: uuid
  tp_refresh :: string

definition IssueRefresh :: "auth_env \<Rightarrow> nat \<Rightarrow> (string \<times> string) auth_comp" where
  "IssueRefresh E k = au_ext (ae_random E k, ae_HashRefresh E (ae_random E k))"

definition IssueResetToken :: "auth_env \<Rightarrow> nat \<Rightarrow> (string \<times> string \<times> string) auth_comp" where
  "IssueResetToken E k = au_ext (ae_random E k, ae_HashResetToken E (ae_random E k), ae_random E (Suc k))"

definition IssueAccess :: "auth_env \<Rightarrow> au_user \<Rightarrow> instant \<Rightarrow> uuid \<Rightarrow> uuid \<Rightarrow> string \<Rightarrow> token_pair auth_comp" where
  "IssueAccess E u now i fam raw = au_ext
     \<lparr>tp_subject = us_uuid u, tp_email = us_email u, tp_username = us_username u, tp_issued = now,
      tp_expires = now + ae_AccessTTL E, tp_id = i, tp_family = fam, tp_refresh = raw\<rparr>"

definition issuePair :: "auth_env \<Rightarrow> nat \<Rightarrow> au_user \<Rightarrow> string \<Rightarrow> string \<Rightarrow> int \<Rightarrow> token_pair auth_comp" where
  "issuePair E k u agent ip ttl =
     (let now = ae_clock E k in
      andthen (IssueRefresh E k) (\<lambda>(raw, h).
      andthen (ss_Create \<lparr>rs_uuid = ae_ids E k, rs_user = us_uuid u, rs_family = ae_ids E (k + 1), rs_hash = h,
                 rs_expires = now + ttl, rs_revoked = None, rs_replaced = None, rs_agent = agent, rs_ip = ip, rs_created = now\<rparr>) (\<lambda>_.
      IssueAccess E u now (ae_ids E (k + 2)) (ae_ids E (k + 1)) raw)))"

definition completeLogin :: "auth_env \<Rightarrow> nat \<Rightarrow> au_user \<Rightarrow> string \<Rightarrow> string \<Rightarrow> bool \<Rightarrow> token_pair auth_comp" where
  "completeLogin E k u agent ip remember =
     andthen (RecordLogin (us_uuid u) (ae_clock E k)) (\<lambda>_.
     issuePair E (Suc k) u agent ip (if remember then ae_RefreshTTL E else min shortSessionTTL (ae_RefreshTTL E)))"

definition sessionLifetime :: "au_session \<Rightarrow> int \<Rightarrow> int" where
  "sessionLifetime r ttl =
     (let lifetime = rs_expires r - rs_created r in if lifetime \<le> 0 \<or> lifetime > ttl then ttl else lifetime)"

text \<open>\<open>Refresh\<close> up to its first write, and the rotation: another request may come between.\<close>

definition refresh_prepare :: "auth_env \<Rightarrow> string \<Rightarrow> (au_session \<times> au_user \<times> instant \<times> string \<times> string) auth_comp" where
  "refresh_prepare E token0 =
     (let token = trim_space token0 in
      if token = [] then throw AuInvalidToken
      else
      andthen (ss_find (ae_HashRefresh E token)) (\<lambda>r.
      let now = ae_clock E 0 in
      if rs_revoked r \<noteq> None
      then andthen (RevokeFamily (rs_user r) (rs_family r) now) (\<lambda>_. throw AuTokenRevoked)
      else if \<not> now < rs_expires r then throw AuSessionExpired
      else
      andthen (activeUser (rs_user r)) (\<lambda>u.
      andthen (IssueRefresh E 0) (\<lambda>(raw, h).
      ret (r, u, now, raw, h)))))"

definition refresh_rotate ::
  "auth_env \<Rightarrow> string \<Rightarrow> string \<Rightarrow> au_session \<times> au_user \<times> instant \<times> string \<times> string \<Rightarrow> token_pair auth_comp" where
  "refresh_rotate E agent ip x =
     (case x of (r, u, now, raw, h) \<Rightarrow>
      andthen (ss_Create \<lparr>rs_uuid = ae_ids E 0, rs_user = us_uuid u, rs_family = rs_family r, rs_hash = h,
                 rs_expires = now + sessionLifetime r (ae_RefreshTTL E), rs_revoked = None, rs_replaced = None,
                 rs_agent = agent, rs_ip = ip, rs_created = now\<rparr>) (\<lambda>_.
      andthen (ss_Replace (rs_uuid r) (ae_ids E 0) now) (\<lambda>_.
      IssueAccess E u now (ae_ids E 1) (rs_family r) raw)))"

definition Refresh :: "auth_env \<Rightarrow> string \<Rightarrow> string \<Rightarrow> string \<Rightarrow> token_pair auth_comp" where
  "Refresh E token agent ip = andthen (refresh_prepare E token) (refresh_rotate E agent ip)"

definition Logout :: "auth_env \<Rightarrow> uuid \<Rightarrow> string \<Rightarrow> unit auth_comp" where
  "Logout E u token0 =
     (let token = trim_space token0 in
      if token = [] then ret ()
      else
      andthen (attempt (ss_find (ae_HashRefresh E token))) (\<lambda>r.
      case r of
        Inl e \<Rightarrow> if e = Err AuInvalidToken then ret () else raise e
      | Inr x \<Rightarrow> if rs_user x \<noteq> u then throw AuInvalidToken else ss_Revoke (rs_uuid x) (ae_clock E 0)))"

section \<open>Two-factor codes\<close>

text \<open>The step of a time; Go divides towards zero.\<close>

definition totp_Step :: "instant \<Rightarrow> int" where
  "totp_Step t = (let sec = t div 1000000000 in sgn sec * (abs sec div 30))"

definition totp_Validate :: "auth_env \<Rightarrow> string \<Rightarrow> string \<Rightarrow> instant \<Rightarrow> int \<Rightarrow> int option" where
  "totp_Validate E secret code0 t skew =
     (let code = trim_space code0 in
      if length code \<noteq> 6 then None
      else find (\<lambda>step. ae_Code E secret step = code) (map (\<lambda>d. totp_Step t + d) [- skew..skew]))"

definition twoFactorReady :: "auth_env \<Rightarrow> unit auth_comp" where
  "twoFactorReady E = (if ae_box E then ret () else throw TfUnavailable)"

definition enabledEnrollment :: "uuid \<Rightarrow> tf_method auth_comp" where
  "enabledEnrollment u =
     andthen (tf_Find u) (\<lambda>(m, n). if Enabled m then ret m else throw TfNotEnrolled)"

definition checkTOTP :: "auth_env \<Rightarrow> nat \<Rightarrow> tf_method \<Rightarrow> string \<Rightarrow> int auth_comp" where
  "checkTOTP E k m code =
     (case ae_Decrypt E (tf_secret m) of
        None \<Rightarrow> raise StoreFail
      | Some secret \<Rightarrow>
          (case totp_Validate E secret code (ae_clock E k) 1 of
             None \<Rightarrow> throw TfInvalidCode
           | Some step \<Rightarrow> if step \<le> tf_step m then throw TfInvalidCode else ret step))"

definition useTOTP :: "auth_env \<Rightarrow> nat \<Rightarrow> tf_method \<Rightarrow> string \<Rightarrow> unit auth_comp" where
  "useTOTP E k m code =
     andthen (checkTOTP E k m code) (\<lambda>step.
     andthen (UseStep (tf_user m) step) (\<lambda>fresh.
     if fresh then ret () else throw TfInvalidCode))"

definition isNumeric :: "string \<Rightarrow> bool" where
  "isNumeric s \<longleftrightarrow> s \<noteq> [] \<and> list_all (\<lambda>c. of_char c \<ge> (48::nat) \<and> of_char c \<le> (57::nat)) s"

definition normalizeBackupCode :: "auth_env \<Rightarrow> string \<Rightarrow> string" where
  "normalizeBackupCode E code0 =
     (let code = to_lower (ae_lower E) (filter (\<lambda>c. c \<noteq> CHR ''-'' \<and> c \<noteq> CHR '' '') code0) in
      if length code = 10 \<and> list_all (\<lambda>c. c \<in> set backupCodeAlphabet) code then code else [])"

definition verifyCode :: "auth_env \<Rightarrow> nat \<Rightarrow> uuid \<Rightarrow> string \<Rightarrow> unit auth_comp" where
  "verifyCode E k u code0 =
     andthen (enabledEnrollment u) (\<lambda>m.
     let code = trim_space code0 in
     if isNumeric code then useTOTP E k m code
     else let normalized = normalizeBackupCode E code in
     if normalized = [] then throw TfInvalidCode
     else
     andthen (UseBackupCode u (ae_MAC E normalized) (ae_clock E k)) (\<lambda>used.
     if used then ret () else throw TfInvalidCode))"

text \<open>The n-th backup code of a set, as a random text of ten characters of the alphabet.\<close>

definition newBackupCodes :: "auth_env \<Rightarrow> (string list \<times> string list) auth_comp" where
  "newBackupCodes E =
     (let raws = map (ae_random E) [0..<backupCodeCount] in
      au_ext (map (\<lambda>r. take 5 r @ ''-'' @ drop 5 r) raws, map (ae_MAC E) raws))"

section \<open>Login\<close>

definition loginAttemptKey :: "string \<Rightarrow> string" where
  "loginAttemptKey email = ''email:'' @ email"

definition checkLocked :: "auth_env \<Rightarrow> string \<Rightarrow> unit auth_comp" where
  "checkLocked E email =
     (case ae_lockout E of
        None \<Rightarrow> ret ()
      | Some _ \<Rightarrow>
          andthen (attempt (lk_Locked (loginAttemptKey email))) (\<lambda>r.
          case r of
            Inl e \<Rightarrow> ret ()
          | Inr d \<Rightarrow> if d \<le> 0 then ret () else throw (AuLocked d)))"

definition loginFailed :: "auth_env \<Rightarrow> string \<Rightarrow> 'a auth_comp" where
  "loginFailed E email =
     (case ae_lockout E of
        None \<Rightarrow> throw AuInvalidCredentials
      | Some (maxFailures, lockFor) \<Rightarrow>
          andthen (attempt (lk_Fail maxFailures lockFor (loginAttemptKey email))) (\<lambda>r.
          case r of
            Inl e \<Rightarrow> throw AuInvalidCredentials
          | Inr d \<Rightarrow> if d > 0 then throw (AuLocked d) else throw AuInvalidCredentials))"

definition authenticate :: "auth_env \<Rightarrow> string \<Rightarrow> string \<Rightarrow> au_user auth_comp" where
  "authenticate E email password =
     (if email = [] \<or> password = [] then throw (AuValidation ''email and password required'')
      else
      andthen (checkLocked E email) (\<lambda>_.
      andthen (attempt (FindByEmail (ae_lower E) email)) (\<lambda>r.
      case r of
        Inl e \<Rightarrow> if e = Err AuUserNotFound then loginFailed E email else raise e
      | Inr u \<Rightarrow>
          if us_password u = [] then loginFailed E email
          else if \<not> ae_Compare E (us_password u) password then loginFailed E email
          else if \<not> IsActive u then throw AuUserInactive
          else ret u)))"

definition requireAdminAccess :: "auth_env \<Rightarrow> au_user \<Rightarrow> unit auth_comp" where
  "requireAdminAccess E u =
     andthen (au_ext (ae_Enforce E (us_uuid u) AdminAccessPermission)) (\<lambda>ok.
     if ok then ret () else throw AuInvalidCredentials)"

text \<open>A challenge is its token and when it ends; a login gives tokens or a challenge.\<close>

definition startTwoFactor :: "auth_env \<Rightarrow> nat \<Rightarrow> pending_login \<Rightarrow> (string \<times> instant) option auth_comp" where
  "startTwoFactor E k l =
     andthen (attempt (tf_Find (pl_user l))) (\<lambda>r.
     case r of
       Inl e \<Rightarrow> if e = Err TfNotEnrolled then ret None else raise e
     | Inr (m, n) \<Rightarrow>
         if \<not> Enabled m then ret None
         else if \<not> ae_box E then throw TfUnavailable
         else
         andthen (au_ext (ae_random E 0)) (\<lambda>raw.
         andthen (ch_Save (ae_sha256 E raw) l challengeTTL) (\<lambda>_.
         ret (Some (raw, ae_clock E k + challengeTTL)))))"

definition finish_login :: "auth_env \<Rightarrow> nat \<Rightarrow> au_user \<Rightarrow> pending_login \<Rightarrow> ((string \<times> instant) + token_pair) auth_comp" where
  "finish_login E k u l =
     andthen (startTwoFactor E k l) (\<lambda>c.
     case c of
       Some x \<Rightarrow> ret (Inl x)
     | None \<Rightarrow> andthen (completeLogin E k u (pl_agent l) (pl_ip l) (pl_remember l)) (\<lambda>p. ret (Inr p)))"

definition login ::
  "auth_env \<Rightarrow> bool \<Rightarrow> string \<Rightarrow> string \<Rightarrow> string \<Rightarrow> string \<Rightarrow> bool \<Rightarrow> ((string \<times> instant) + token_pair) auth_comp" where
  "login E admin email0 password agent ip remember =
     (let email = trim_space (to_lower (ae_lower E) email0) in
      andthen (authenticate E email password) (\<lambda>u.
      andthen (if admin then requireAdminAccess E u else ret ()) (\<lambda>_.
      andthen (if ae_lockout E = None then ret ()
               else andthen (attempt (lk_Reset (loginAttemptKey email))) (\<lambda>_. ret ())) (\<lambda>_.
      finish_login E 0 u \<lparr>pl_user = us_uuid u, pl_remember = remember, pl_agent = agent, pl_ip = ip\<rparr>))))"

definition Login :: "auth_env \<Rightarrow> string \<Rightarrow> string \<Rightarrow> string \<Rightarrow> string \<Rightarrow> bool \<Rightarrow> ((string \<times> instant) + token_pair) auth_comp" where
  "Login E = login E False"

definition AdminLogin :: "auth_env \<Rightarrow> string \<Rightarrow> string \<Rightarrow> string \<Rightarrow> string \<Rightarrow> bool \<Rightarrow> ((string \<times> instant) + token_pair) auth_comp" where
  "AdminLogin E = login E True"

definition challenge_failed :: "string \<Rightarrow> int \<Rightarrow> auth_error failure \<Rightarrow> unit auth_comp" where
  "challenge_failed h attempts e =
     (if e = Err TfNotEnrolled then andthen (attempt (ch_Consume h)) (\<lambda>_. throw ChallengeInvalid)
      else if e = Err TfInvalidCode \<and> attempts \<ge> maxChallengeAttempts
      then andthen (attempt (ch_Consume h)) (\<lambda>_. raise e)
      else raise e)"

definition CompleteTwoFactor :: "auth_env \<Rightarrow> string \<Rightarrow> string \<Rightarrow> token_pair auth_comp" where
  "CompleteTwoFactor E token code =
     andthen (twoFactorReady E) (\<lambda>_.
     let h = ae_sha256 E (trim_space token) in
     andthen (ch_Get h) (\<lambda>l.
     andthen (ch_Attempt h) (\<lambda>n.
     if n > maxChallengeAttempts then andthen (attempt (ch_Consume h)) (\<lambda>_. throw ChallengeInvalid)
     else
     andthen (attempt (verifyCode E 0 (pl_user l) code)) (\<lambda>r.
     andthen (case r of Inl e \<Rightarrow> challenge_failed h n e | Inr _ \<Rightarrow> ret ()) (\<lambda>_.
     andthen (ch_Consume h) (\<lambda>consumed.
     if \<not> consumed then throw ChallengeInvalid
     else
     andthen (activeUser (pl_user l)) (\<lambda>u.
     completeLogin E 1 u (pl_agent l) (pl_ip l) (pl_remember l))))))))"

end
