(* ===== verification/Auth_Accounts.thy ===== *)
theory Auth_Accounts
  imports Auth_Service
begin

text \<open>
  The rest of the authentication service: enrollment (\<^verbatim>\<open>twofactor.go\<close>, \<^verbatim>\<open>stepup.go\<close>), passwords (\<^verbatim>\<open>service.go\<close>), email change
  (\<^verbatim>\<open>email_change.go\<close>), administrator operations (\<^verbatim>\<open>admin.go\<close>), sign-up (\<^verbatim>\<open>register.go\<close>) and social login (\<^verbatim>\<open>oauth.go\<close>).
\<close>

section \<open>Enrollment\<close>

text \<open>Whether two-factor is enabled, and whether it is pending, since when, and the unused codes.\<close>

definition TwoFactorStatus :: "uuid \<Rightarrow> (bool \<times> bool \<times> instant option \<times> nat) auth_comp" where
  "TwoFactorStatus u =
     andthen (attempt (tf_Find u)) (\<lambda>r.
     case r of
       Inl e \<Rightarrow> if e = Err TfNotEnrolled then ret (False, False, None, 0) else raise e
     | Inr (m, n) \<Rightarrow> ret (Enabled m, \<not> Enabled m, tf_confirmed m, n))"

text \<open>The new secret is returned in place of its base32 form and the provisioning URL.\<close>

definition SetupTwoFactor :: "auth_env \<Rightarrow> uuid \<Rightarrow> string auth_comp" where
  "SetupTwoFactor E u =
     andthen (twoFactorReady E) (\<lambda>_.
     andthen (activeUser u) (\<lambda>x.
     andthen (attempt (tf_Find u)) (\<lambda>r.
     andthen (case r of
                Inr (m, n) \<Rightarrow> if Enabled m then throw TfAlreadyEnabled else ret ()
              | Inl e \<Rightarrow> if e = Err TfNotEnrolled then ret () else raise e) (\<lambda>_.
     andthen (au_ext (ae_random E 0)) (\<lambda>secret.
     andthen (au_ext (ae_Encrypt E secret)) (\<lambda>c.
     andthen (SavePending u c) (\<lambda>_.
     ret secret)))))))"

definition ConfirmTwoFactor :: "auth_env \<Rightarrow> uuid \<Rightarrow> string \<Rightarrow> string list auth_comp" where
  "ConfirmTwoFactor E u code =
     andthen (twoFactorReady E) (\<lambda>_.
     andthen (attempt (tf_Find u)) (\<lambda>r.
     case r of
       Inl e \<Rightarrow> raise (if e = Err TfNotEnrolled then Err TfPending else e)
     | Inr (m, n) \<Rightarrow>
         if Enabled m then throw TfAlreadyEnabled
         else
         andthen (checkTOTP E 0 m code) (\<lambda>step.
         andthen (newBackupCodes E) (\<lambda>(codes, hashes).
         andthen (tf_Confirm u step hashes (ae_clock E 1)) (\<lambda>_.
         ret codes)))))"

definition DisableTwoFactor :: "auth_env \<Rightarrow> uuid \<Rightarrow> string \<Rightarrow> string \<Rightarrow> unit auth_comp" where
  "DisableTwoFactor E u password code =
     andthen (twoFactorReady E) (\<lambda>_.
     andthen (checkPassword E u password) (\<lambda>_.
     andthen (verifyCode E 0 u code) (\<lambda>_.
     tf_Delete u)))"

definition RegenerateBackupCodes :: "auth_env \<Rightarrow> uuid \<Rightarrow> string \<Rightarrow> string list auth_comp" where
  "RegenerateBackupCodes E u code =
     andthen (twoFactorReady E) (\<lambda>_.
     andthen (enabledEnrollment u) (\<lambda>m.
     andthen (useTOTP E 0 m code) (\<lambda>_.
     andthen (newBackupCodes E) (\<lambda>(codes, hashes).
     andthen (ReplaceBackupCodes u hashes) (\<lambda>_.
     ret codes)))))"

definition VerifyStepUp :: "auth_env \<Rightarrow> uuid \<Rightarrow> string \<Rightarrow> string \<Rightarrow> bool auth_comp" where
  "VerifyStepUp E u password code =
     andthen (attempt (checkPassword E u password)) (\<lambda>r.
     case r of
       Inl e \<Rightarrow> if e = Err AuCurrentPassword \<or> e = Err AuUserInactive then ret False else raise e
     | Inr _ \<Rightarrow>
         andthen (attempt (enabledEnrollment u)) (\<lambda>q.
         case q of
           Inl e \<Rightarrow> if e = Err TfNotEnrolled then ret True else raise e
         | Inr m \<Rightarrow>
             if \<not> ae_box E \<or> trim_space code = [] then ret False
             else
             andthen (attempt (verifyCode E 0 u code)) (\<lambda>v.
             case v of
               Inl e \<Rightarrow> if e = Err TfInvalidCode then ret False else raise e
             | Inr _ \<Rightarrow> ret True)))"

section \<open>Passwords\<close>

definition new_reset :: "auth_env \<Rightarrow> uuid \<Rightarrow> purpose \<Rightarrow> string \<Rightarrow> string \<Rightarrow> string \<Rightarrow> instant \<Rightarrow> int \<Rightarrow> reset_token" where
  "new_reset E u p email h jti now ttl =
     \<lparr>rt_uuid = ae_ids E 0, rt_user = u, rt_jti = jti, rt_hash = h, rt_purpose = p, rt_email = email,
      rt_expires = now + ttl, rt_used = None, rt_created = now\<rparr>"

definition issuePasswordReset :: "auth_env \<Rightarrow> au_user \<Rightarrow> instant auth_comp" where
  "issuePasswordReset E u =
     andthen (IssueResetToken E 0) (\<lambda>(raw, h, jti).
     let now = ae_clock E 0;
         t = new_reset E (us_uuid u) PurposePasswordReset [] h jti now (ae_ResetTokenTTL E) in
     andthen (within_tx (
       andthen (RevokePending (us_uuid u) PurposePasswordReset now) (\<lambda>_.
       andthen (rt_Create t) (\<lambda>_.
       au_record (UserPasswordResetRequested (us_uuid u) (rt_expires t) now))))) (\<lambda>_.
     andthen (au_mail (MailPasswordReset (us_uuid u) raw (rt_expires t))) (\<lambda>_.
     ret (rt_expires t))))"

definition ForgotPassword :: "auth_env \<Rightarrow> string \<Rightarrow> unit auth_comp" where
  "ForgotPassword E identity0 =
     (let identity = trim_space identity0 in
      if length identity < 3 then throw (AuValidation ''email_or_username required'')
      else
      andthen (attempt (FindByUsernameOrEmail (ae_lower E) identity)) (\<lambda>r.
      case r of
        Inl e \<Rightarrow> if e = Err AuUserNotFound then ret () else raise e
      | Inr u \<Rightarrow> if \<not> IsActive u then ret () else andthen (issuePasswordReset E u) (\<lambda>_. ret ())))"

definition passwordResetToken :: "auth_env \<Rightarrow> string \<Rightarrow> reset_token auth_comp" where
  "passwordResetToken E raw =
     andthen (rt_find (ae_HashResetToken E raw)) (\<lambda>t.
     if rt_purpose t \<noteq> PurposePasswordReset then throw AuInvalidToken else ret t)"

text \<open>Whether the token is valid, and when it expires.\<close>

definition CheckResetToken :: "auth_env \<Rightarrow> string \<Rightarrow> (bool \<times> instant option) auth_comp" where
  "CheckResetToken E raw0 =
     (let raw = trim_space raw0 in
      if raw = [] then throw (AuValidation ''token required'')
      else
      andthen (attempt (passwordResetToken E raw)) (\<lambda>r.
      case r of
        Inl e \<Rightarrow> if e = Err AuInvalidToken then ret (False, None) else raise e
      | Inr t \<Rightarrow> ret (rt_used t = None \<and> ae_clock E 0 < rt_expires t, Some (rt_expires t))))"

text \<open>\<open>ResetPassword\<close> up to its first write, and its writes.\<close>

definition reset_prepare :: "auth_env \<Rightarrow> string \<Rightarrow> string \<Rightarrow> string \<Rightarrow> (reset_token \<times> string \<times> instant) auth_comp" where
  "reset_prepare E raw password confirm =
     (if password \<noteq> confirm then throw AuPasswordMismatch
      else
      andthen (validatePasswordStrength E password) (\<lambda>_.
      andthen (passwordResetToken E (trim_space raw)) (\<lambda>t.
      let now = ae_clock E 0 in
      if rt_used t \<noteq> None then throw AuTokenUsed
      else if \<not> now < rt_expires t then throw AuTokenExpired
      else
      andthen (au_ext (ae_Hash E password)) (\<lambda>h.
      ret (t, h, now)))))"

definition reset_finish :: "reset_token \<times> string \<times> instant \<Rightarrow> unit auth_comp" where
  "reset_finish x =
     (case x of (t, h, now) \<Rightarrow>
      andthen (UpdatePassword (rt_user t) h now) (\<lambda>_.
      andthen (RevokePending (rt_user t) PurposePasswordReset now) (\<lambda>_.
      RevokeAllForUser (rt_user t) now)))"

definition ResetPassword :: "auth_env \<Rightarrow> string \<Rightarrow> string \<Rightarrow> string \<Rightarrow> unit auth_comp" where
  "ResetPassword E raw password confirm = andthen (reset_prepare E raw password confirm) reset_finish"

definition ChangePassword :: "auth_env \<Rightarrow> uuid \<Rightarrow> string \<Rightarrow> string \<Rightarrow> string \<Rightarrow> bool \<Rightarrow> (instant \<times> bool) auth_comp" where
  "ChangePassword E u current password confirm revokeAll =
     (if password \<noteq> confirm then throw AuPasswordMismatch
      else
      andthen (validatePasswordStrength E password) (\<lambda>_.
      andthen (attempt (FindByID u)) (\<lambda>r.
      case r of
        Inl e \<Rightarrow> raise (if e = Err AuUserNotFound then Err AuUserInactive else e)
      | Inr x \<Rightarrow>
          if \<not> ae_Compare E (us_password x) current then throw AuCurrentPassword
          else
          andthen (au_ext (ae_Hash E password)) (\<lambda>h.
          let now = ae_clock E 0 in
          andthen (UpdatePassword u h now) (\<lambda>_.
          andthen (if revokeAll then RevokeAllForUser u now else ret ()) (\<lambda>_.
          andthen (au_mail (MailPasswordChanged u)) (\<lambda>_.
          ret (now, revokeAll))))))))"

section \<open>Email change\<close>

definition equal_fold :: "auth_env \<Rightarrow> string \<Rightarrow> string \<Rightarrow> bool" where
  "equal_fold E a b \<longleftrightarrow>
     (let f = (\<lambda>r. if r < 128 then lower_ascii r else ae_fold E r) in map f (runes a) = map f (runes b))"

definition emailAvailable :: "auth_env \<Rightarrow> string \<Rightarrow> uuid \<Rightarrow> unit auth_comp" where
  "emailAvailable E email u =
     andthen (attempt (FindByEmail (ae_lower E) email)) (\<lambda>r.
     case r of
       Inl e \<Rightarrow> if e = Err AuUserNotFound then ret () else raise e
     | Inr x \<Rightarrow> if us_uuid x \<noteq> u then throw AuEmailTaken else ret ())"

text \<open>The text after the last at sign; the whole text when there is none.\<close>

definition after_at :: "string \<Rightarrow> string" where
  "after_at s = rev (takeWhile (\<lambda>c. c \<noteq> CHR ''@'') (rev s))"

definition normalizeEmail :: "auth_env \<Rightarrow> string \<Rightarrow> auth_error + string" where
  "normalizeEmail E raw =
     (let email = to_lower (ae_lower E) (trim_space raw) in
      if ae_ParseAddress E email \<noteq> Some email \<or> length email > maxEmailBytes \<or> CHR ''.'' \<notin> set (after_at email)
      then Inl (AuValidation ''new_email must be a valid email address'')
      else Inr email)"

definition RequestEmailChange :: "auth_env \<Rightarrow> uuid \<Rightarrow> string \<Rightarrow> string \<Rightarrow> (string \<times> instant) auth_comp" where
  "RequestEmailChange E u newEmail password =
     andthen (of_result (normalizeEmail E newEmail)) (\<lambda>email.
     andthen (activeUser u) (\<lambda>x.
     if us_password x = [] \<or> \<not> ae_Compare E (us_password x) password then throw AuCurrentPassword
     else if equal_fold E (us_email x) email then throw (AuValidation ''new_email must differ from the current email'')
     else
     andthen (emailAvailable E email u) (\<lambda>_.
     andthen (IssueResetToken E 0) (\<lambda>(raw, h, jti).
     let now = ae_clock E 0 in
     andthen (RevokePending u PurposeEmailChange now) (\<lambda>_.
     andthen (rt_Create (new_reset E u PurposeEmailChange email h jti now (ae_EmailChangeTTL E))) (\<lambda>_.
     andthen (au_mail (MailEmailChangeRequested u email raw (now + ae_EmailChangeTTL E))) (\<lambda>_.
     ret (email, now + ae_EmailChangeTTL E))))))))"

definition emailChangeToken :: "auth_env \<Rightarrow> uuid \<Rightarrow> string \<Rightarrow> reset_token auth_comp" where
  "emailChangeToken E u raw =
     andthen (attempt (rt_find (ae_HashResetToken E raw))) (\<lambda>r.
     case r of
       Inl e \<Rightarrow> raise (if e = Err AuInvalidToken then Err EmailTokenInvalid else e)
     | Inr t \<Rightarrow>
         if rt_purpose t \<noteq> PurposeEmailChange \<or> rt_user t \<noteq> u \<or> rt_email t = [] then throw EmailTokenInvalid
         else if rt_used t \<noteq> None then throw EmailTokenUsed
         else if \<not> ae_clock E 0 < rt_expires t then throw EmailTokenExpired
         else ret t)"

definition ConfirmEmailChange :: "auth_env \<Rightarrow> uuid \<Rightarrow> string \<Rightarrow> au_user auth_comp" where
  "ConfirmEmailChange E u raw0 =
     (let raw = trim_space raw0 in
      if raw = [] then throw (AuValidation ''token required'')
      else
      andthen (emailChangeToken E u raw) (\<lambda>t.
      andthen (activeUser u) (\<lambda>x.
      andthen (emailAvailable E (rt_email t) u) (\<lambda>_.
      let now = ae_clock E 1 in
      andthen (UpdateEmail u (rt_email t) now) (\<lambda>_.
      andthen (MarkUsed (rt_uuid t) now) (\<lambda>_.
      andthen (RevokeAllForUser u now) (\<lambda>_.
      andthen au_invalidate (\<lambda>_.
      andthen (au_mail (MailEmailChanged u (us_email x) (rt_email t))) (\<lambda>_.
      FindByID u)))))))))"

section \<open>Administrator operations\<close>

record new_user =
  nu_email :: string
  nu_username :: string
  nu_fullname :: string
  nu_password :: string
  nu_roles :: "string list"

definition usernamePattern :: "string \<Rightarrow> bool" where
  "usernamePattern s \<longleftrightarrow> 3 \<le> length s \<and> length s \<le> 32 \<and>
     list_all (\<lambda>c. let n = of_char c :: nat in
       (65 \<le> n \<and> n \<le> 90) \<or> (97 \<le> n \<and> n \<le> 122) \<or> (48 \<le> n \<and> n \<le> 57) \<or> c \<in> {CHR ''_'', CHR ''.'', CHR ''-''}) s"

definition validateNewUser :: "auth_env \<Rightarrow> new_user \<Rightarrow> unit auth_comp" where
  "validateNewUser E i =
     (if ae_ParseAddress E (nu_email i) \<noteq> Some (nu_email i) then throw (AuValidation ''email is invalid'')
      else if \<not> usernamePattern (nu_username i)
      then throw (AuValidation (''username must be 3-32 letters, digits, '.', '_' or '-'' @ [CHR 0x27]))
      else if nu_fullname i = [] \<or> length (nu_fullname i) > 120 then throw (AuValidation ''full_name must be 1-120 characters'')
      else validatePasswordStrength E (nu_password i))"

definition usernameFree :: "auth_env \<Rightarrow> string \<Rightarrow> unit auth_comp" where
  "usernameFree E name =
     andthen (attempt (FindByUsernameOrEmail (ae_lower E) name)) (\<lambda>r.
     case r of
       Inl e \<Rightarrow> if e = Err AuUserNotFound then ret () else raise e
     | Inr x \<Rightarrow> if equal_fold E (us_username x) name then throw AuUsernameTaken else ret ())"

definition ensureIdentityFree :: "auth_env \<Rightarrow> string \<Rightarrow> string \<Rightarrow> unit auth_comp" where
  "ensureIdentityFree E email name =
     andthen (attempt (FindByEmail (ae_lower E) email)) (\<lambda>r.
     case r of
       Inr x \<Rightarrow> throw AuEmailTaken
     | Inl e \<Rightarrow> if e = Err AuUserNotFound then usernameFree E name else raise e)"

definition trimmed_user :: "auth_env \<Rightarrow> new_user \<Rightarrow> new_user" where
  "trimmed_user E i =
     i\<lparr>nu_email := to_lower (ae_lower E) (trim_space (nu_email i)), nu_username := trim_space (nu_username i),
       nu_fullname := trim_space (nu_fullname i)\<rparr>"

definition fresh_user :: "uuid \<Rightarrow> string \<Rightarrow> string \<Rightarrow> string \<Rightarrow> string \<Rightarrow> instant option \<Rightarrow> instant \<Rightarrow> au_user" where
  "fresh_user u email name full h verified now =
     \<lparr>us_uuid = u, us_email = email, us_username = name, us_fullname = full, us_password = h, us_status = UsActive,
      us_verified = verified, us_pw_changed = None, us_last_login = None, us_logins = 0, us_created = now,
      us_updated = now, us_deleted = None\<rparr>"

definition userCreatedEvent :: "au_user \<Rightarrow> string list \<Rightarrow> auth_event" where
  "userCreatedEvent u roles = UserCreated (us_uuid u) (us_username u) (us_status u) roles (us_created u)"

definition AdminCreateUser :: "auth_env \<Rightarrow> new_user \<Rightarrow> au_user auth_comp" where
  "AdminCreateUser E i0 =
     (let i = trimmed_user E i0 in
      andthen (validateNewUser E i) (\<lambda>_.
      andthen (if nu_roles i = [] then ret ()
               else andthen (au_ext (ae_roles E (nu_roles i))) (\<lambda>ok. if ok then ret () else throw AuRoleNotFound)) (\<lambda>_.
      andthen (ensureIdentityFree E (nu_email i) (nu_username i)) (\<lambda>_.
      andthen (au_ext (ae_Hash E (nu_password i))) (\<lambda>h.
      andthen (within_tx (
        andthen (us_Create
          (fresh_user (ae_ids E 0) (nu_email i) (nu_username i) (nu_fullname i) h None (ae_clock E 0))) (\<lambda>u.
        andthen (au_record (userCreatedEvent u (nu_roles i))) (\<lambda>_.
        ret u)))) (\<lambda>u.
      andthen (if nu_roles i = [] then ret ()
               else db_call (change (\<lambda>s. s\<lparr>au_grants := au_grants s @ [(us_uuid u, nu_roles i)]\<rparr>))) (\<lambda>_.
      andthen au_invalidate (\<lambda>_.
      ret u))))))))"

definition AdminResetPassword :: "auth_env \<Rightarrow> uuid \<Rightarrow> bool \<Rightarrow> (instant \<times> bool) auth_comp" where
  "AdminResetPassword E u revokeSessions =
     andthen (FindByID u) (\<lambda>x.
     if \<not> IsActive x then throw AuTargetInactive
     else
     andthen (issuePasswordReset E x) (\<lambda>expires.
     andthen (if revokeSessions then RevokeAllForUser (us_uuid x) (ae_clock E 1) else ret ()) (\<lambda>_.
     ret (expires, revokeSessions))))"

section \<open>Sign-up\<close>

definition registrationOpen :: "auth_env \<Rightarrow> unit auth_comp" where
  "registrationOpen E = andthen (au_ext (ae_open E)) (\<lambda>ok. if ok then ret () else throw RegClosed)"

definition startRegistration :: "auth_env \<Rightarrow> new_user \<Rightarrow> string \<Rightarrow> unit auth_comp" where
  "startRegistration E i pw =
     andthen (IssueResetToken E 0) (\<lambda>(raw, h, jti).
     let now = ae_clock E 0;
         g = \<lparr>rg_uuid = ae_ids E 0, rg_email = nu_email i, rg_username = nu_username i, rg_fullname = nu_fullname i,
              rg_password = pw, rg_hash = h, rg_expires = now + ae_RegistrationTTL E, rg_created = now\<rparr> in
     andthen (rg_Create g maxLiveRegistrations) (\<lambda>stored.
     if \<not> stored then ret () else au_mail (MailAccountVerify (rg_email g) raw)))"

definition Register :: "auth_env \<Rightarrow> new_user \<Rightarrow> unit auth_comp" where
  "Register E i0 =
     andthen (registrationOpen E) (\<lambda>_.
     let i = trimmed_user E i0 in
     andthen (validateNewUser E i) (\<lambda>_.
     andthen (usernameFree E (nu_username i)) (\<lambda>_.
     andthen (au_ext (ae_Hash E (nu_password i))) (\<lambda>h.
     andthen (attempt (FindByEmail (ae_lower E) (nu_email i))) (\<lambda>r.
     case r of
       Inr x \<Rightarrow> au_mail (MailAccountExists (us_uuid x))
     | Inl e \<Rightarrow> if e = Err AuUserNotFound then startRegistration E i h else raise e)))))"

definition createRegisteredUser :: "auth_env \<Rightarrow> registration \<Rightarrow> au_user auth_comp" where
  "createRegisteredUser E g =
     within_tx (
       andthen (rg_Consume (rg_hash g)) (\<lambda>consumed.
       if \<not> consumed then throw RegTokenInvalid
       else
       let now = ae_clock E 1 in
       andthen (us_Create
         (fresh_user (ae_ids E 0) (rg_email g) (rg_username g) (rg_fullname g) (rg_password g) (Some now) now)) (\<lambda>u.
       andthen (au_record (userCreatedEvent u [])) (\<lambda>_.
       ret u))))"

definition VerifyEmail :: "auth_env \<Rightarrow> string \<Rightarrow> string \<Rightarrow> string \<Rightarrow> string \<Rightarrow> token_pair auth_comp" where
  "VerifyEmail E raw0 password agent ip =
     andthen (registrationOpen E) (\<lambda>_.
     let raw = trim_space raw0 in
     if raw = [] \<or> password = [] then throw (AuValidation ''token and password required'')
     else
     andthen (rg_find (ae_HashResetToken E raw)) (\<lambda>g.
     if \<not> ae_clock E 0 < rg_expires g then throw RegTokenExpired
     else
     andthen (checkLocked E (rg_email g)) (\<lambda>_.
     if \<not> ae_Compare E (rg_password g) password then loginFailed E (rg_email g)
     else
     andthen (createRegisteredUser E g) (\<lambda>u.
     andthen au_invalidate (\<lambda>_.
     completeLogin E 2 u agent ip False)))))"

section \<open>Social login\<close>

definition OAuthStart :: "auth_env \<Rightarrow> string \<Rightarrow> string \<Rightarrow> (string \<times> string) auth_comp" where
  "OAuthStart E provider redirect =
     (if ae_Exchange E provider = None then throw OAuthProviderUnknown
      else if redirect \<notin> set (ae_redirects E) then throw OAuthRedirectURI
      else
      andthen (au_ext (ae_random E 0)) (\<lambda>state.
      andthen (au_ext (ae_random E 1)) (\<lambda>verifier.
      andthen (st_Save (ae_sha256 E state) \<lparr>os_provider = provider, os_redirect = redirect, os_verifier = verifier\<rparr> oauthStateTTL) (\<lambda>_.
      ret (state, ae_sha256 E verifier)))))"

definition linkByEmail :: "auth_env \<Rightarrow> oauth_identity \<Rightarrow> instant \<Rightarrow> uuid auth_comp" where
  "linkByEmail E i now =
     (let email = trim_space (to_lower (ae_lower E) (oa_email i)) in
      if \<not> oa_verified i \<or> email = [] then throw OAuthNoAccount
      else
      andthen (attempt (FindByEmail (ae_lower E) email)) (\<lambda>r.
      case r of
        Inl e \<Rightarrow> raise (if e = Err AuUserNotFound then Err OAuthNoAccount else e)
      | Inr u \<Rightarrow>
          andthen (oi_Link (us_uuid u) \<lparr>ol_user = us_uuid u, ol_provider = oa_provider i, ol_subject = oa_subject i,
                                        ol_email = oa_email i, ol_used = now\<rparr>) (\<lambda>_.
          ret (us_uuid u))))"

definition oauthUser :: "auth_env \<Rightarrow> oauth_identity \<Rightarrow> au_user auth_comp" where
  "oauthUser E i =
     (let now = ae_clock E 0 in
      andthen (attempt (oi_FindUser (oa_provider i) (oa_subject i))) (\<lambda>r.
      andthen (case r of
                 Inr u \<Rightarrow> andthen (oi_Touch (oa_provider i) (oa_subject i) now) (\<lambda>_. ret u)
               | Inl e \<Rightarrow> if e = Err OAuthNoAccount then linkByEmail E i now else raise e) (\<lambda>u.
      andthen (attempt (FindByID u)) (\<lambda>q.
      case q of
        Inl e \<Rightarrow> raise (if e = Err AuUserNotFound then Err OAuthNoAccount else e)
      | Inr x \<Rightarrow> if IsActive x then ret x else throw AuUserInactive))))"

definition OAuthCallback ::
  "auth_env \<Rightarrow> string \<Rightarrow> string \<Rightarrow> string \<Rightarrow> string \<Rightarrow> string \<Rightarrow> ((string \<times> instant) + token_pair) auth_comp" where
  "OAuthCallback E provider code state agent ip =
     (case ae_Exchange E provider of
        None \<Rightarrow> throw OAuthProviderUnknown
      | Some exchange \<Rightarrow>
          if trim_space state = [] then throw OAuthStateInvalid
          else
          andthen (st_Consume (ae_sha256 E (trim_space state))) (\<lambda>v.
          if os_provider v \<noteq> provider then throw OAuthStateInvalid
          else
          andthen (au_ext (exchange (trim_space code) (os_verifier v) (os_redirect v))) (\<lambda>r.
          case r of
            None \<Rightarrow> throw OAuthExchange
          | Some i \<Rightarrow>
              andthen (oauthUser E (i\<lparr>oa_provider := provider\<rparr>)) (\<lambda>u.
              finish_login E 1 u \<lparr>pl_user = us_uuid u, pl_remember = False, pl_agent = agent, pl_ip = ip\<rparr>))))"

end
