(* ===== verification/Auth_Correct.thy ===== *)
theory Auth_Correct
  imports Auth_Accounts
begin

text \<open>
  What every request of the authentication service keeps: the keys of its tables, and that sessions stay
  revoked, tokens stay used and accounts stay there.
\<close>

section \<open>Tables that only grow\<close>

text \<open>The rows of the first table are still there, in their order, each one related to what it was.\<close>

definition grows :: "('a \<Rightarrow> 'a \<Rightarrow> bool) \<Rightarrow> 'a list \<Rightarrow> 'a list \<Rightarrow> bool" where
  "grows le xs ys \<longleftrightarrow> length xs \<le> length ys \<and> list_all2 le xs (take (length xs) ys)"

lemma grows_nth: "grows le xs ys \<longleftrightarrow> length xs \<le> length ys \<and> (\<forall>i < length xs. le (xs ! i) (ys ! i))"
  by (auto simp: grows_def list_all2_conv_all_nth)

lemma grows_refl: "(\<And>x. le x x) \<Longrightarrow> grows le xs xs"
  by (simp add: grows_nth)

lemma grows_trans:
  assumes "\<And>x y z. le x y \<Longrightarrow> le y z \<Longrightarrow> le x z" "grows le xs ys" "grows le ys zs"
  shows "grows le xs zs"
proof -
  have "le (xs ! i) (zs ! i)" if "i < length xs" for i
    by (rule assms(1) [of _ "ys ! i"]) (use assms(2,3) that in \<open>simp_all add: grows_nth\<close>)
  then show ?thesis using assms(2,3) by (simp add: grows_nth)
qed

lemma grows_map: "(\<And>x. le x (f x)) \<Longrightarrow> grows le xs (map f xs)"
  by (simp add: grows_nth)

lemma grows_append: "(\<And>x. le x x) \<Longrightarrow> grows le xs (xs @ ys)"
  by (simp add: grows_nth nth_append)

lemma grows_mem:
  assumes "grows le xs ys" "x \<in> set xs"
  obtains y where "y \<in> set ys" "le x y"
proof -
  obtain i where i: "i < length xs" "xs ! i = x" using assms(2) by (auto simp: in_set_conv_nth)
  then have "ys ! i \<in> set ys" "le x (ys ! i)" using assms(1) by (auto simp: grows_nth)
  then show ?thesis by (rule that)
qed

text \<open>The row of a unique key.\<close>

lemma find_keyed:
  assumes "distinct (map k xs)"
  shows "find (\<lambda>x. k x = a) xs = Some x \<longleftrightarrow> x \<in> set xs \<and> k x = a"
  using assms by (induction xs) auto

lemma filter_keyed:
  assumes "distinct (map k xs)" "x \<in> set xs"
  shows "filter (\<lambda>y. k y = k x) xs = [x]"
  using assms by (induction xs) (auto simp: filter_empty_conv, metis image_eqI)

section \<open>The invariant and the evolution\<close>

definition users_inv :: "(string \<Rightarrow> string) \<Rightarrow> au_user list \<Rightarrow> bool" where
  "users_inv pg us \<longleftrightarrow>
     distinct (map us_uuid us) \<and>
     distinct (map (\<lambda>u. pg (us_email u)) (filter us_live us)) \<and>
     distinct (map (\<lambda>u. pg (us_username u)) (filter us_live us))"

definition owned :: "auth_store \<Rightarrow> ('a \<Rightarrow> uuid) \<Rightarrow> 'a list \<Rightarrow> bool" where
  "owned s owner xs \<longleftrightarrow> owner ` set xs \<subseteq> us_uuid ` set (au_users s)"

definition sessions_inv :: "auth_store \<Rightarrow> bool" where
  "sessions_inv s \<longleftrightarrow>
     distinct (map rs_uuid (au_sessions s)) \<and> distinct (map rs_hash (au_sessions s)) \<and> owned s rs_user (au_sessions s)"

definition resets_inv :: "auth_store \<Rightarrow> bool" where
  "resets_inv s \<longleftrightarrow>
     distinct (map rt_uuid (au_resets s)) \<and> distinct (map rt_jti (au_resets s)) \<and> distinct (map rt_hash (au_resets s)) \<and>
     owned s rt_user (au_resets s)"

definition enrollments_inv :: "auth_store \<Rightarrow> bool" where
  "enrollments_inv s \<longleftrightarrow>
     distinct (map tf_user (au_methods s)) \<and> owned s tf_user (au_methods s) \<and>
     distinct (map (\<lambda>c. (bc_user c, bc_hash c)) (au_codes s)) \<and> owned s bc_user (au_codes s)"

definition links_inv :: "auth_store \<Rightarrow> bool" where
  "links_inv s \<longleftrightarrow>
     distinct (map (\<lambda>l. (ol_provider l, ol_subject l)) (au_links s)) \<and>
     distinct (map (\<lambda>l. (ol_provider l, ol_user l)) (au_links s)) \<and> owned s ol_user (au_links s)"

definition auth_inv :: "auth_store \<Rightarrow> bool" where
  "auth_inv s \<longleftrightarrow>
     users_inv (au_pg s) (au_users s) \<and> sessions_inv s \<and> resets_inv s \<and> enrollments_inv s \<and> links_inv s \<and>
     distinct (map rg_uuid (au_registrations s)) \<and> distinct (map rg_hash (au_registrations s))"

text \<open>A request changes an account's password, email and login figures only; the rest is as it was created.\<close>

definition user_le :: "au_user \<Rightarrow> au_user \<Rightarrow> bool" where
  "user_le u v \<longleftrightarrow>
     us_uuid v = us_uuid u \<and> us_username v = us_username u \<and> us_fullname v = us_fullname u \<and> us_status v = us_status u \<and>
     us_created v = us_created u \<and> us_deleted v = us_deleted u \<and> us_logins u \<le> us_logins v"

definition session_le :: "au_session \<Rightarrow> au_session \<Rightarrow> bool" where
  "session_le q r \<longleftrightarrow>
     rs_uuid r = rs_uuid q \<and> rs_user r = rs_user q \<and> rs_family r = rs_family q \<and> rs_hash r = rs_hash q \<and>
     rs_expires r = rs_expires q \<and> rs_created r = rs_created q \<and> (rs_revoked q \<noteq> None \<longrightarrow> rs_revoked r \<noteq> None)"

definition token_le :: "reset_token \<Rightarrow> reset_token \<Rightarrow> bool" where
  "token_le q r \<longleftrightarrow> r = q \<or> (rt_used q = None \<and> (\<exists>w. r = q\<lparr>rt_used := Some w\<rparr>))"

definition auth_evolves :: "auth_store \<Rightarrow> auth_store \<Rightarrow> bool" where
  "auth_evolves s t \<longleftrightarrow>
     fails t = fails s \<and> au_time t = au_time s \<and> au_pg t = au_pg s \<and> grows user_le (au_users s) (au_users t) \<and> grows session_le (au_sessions s) (au_sessions t) \<and>
     grows token_le (au_resets s) (au_resets t) \<and> grows (=) (au_events s) (au_events t) \<and> grows (=) (au_mails s) (au_mails t)"

definition auth_step :: "auth_store \<Rightarrow> auth_store \<Rightarrow> bool" where
  "auth_step s t \<longleftrightarrow> (auth_inv s \<longrightarrow> auth_inv t \<and> auth_evolves s t)"

lemma row_refl [simp]: "user_le u u" "session_le r r" "token_le q q"
  by (simp_all add: user_le_def session_le_def token_le_def)

lemma user_trans: "user_le u v \<Longrightarrow> user_le v w \<Longrightarrow> user_le u w"
  by (simp add: user_le_def)

lemma session_trans: "session_le u v \<Longrightarrow> session_le v w \<Longrightarrow> session_le u w"
  by (simp add: session_le_def)

lemma token_trans: "token_le u v \<Longrightarrow> token_le v w \<Longrightarrow> token_le u w"
  by (auto simp: token_le_def)

lemma auth_evolves_refl [simp]: "auth_evolves s s"
  by (simp add: auth_evolves_def grows_refl)

lemma auth_evolves_trans:
  assumes "auth_evolves s t" "auth_evolves t u"
  shows "auth_evolves s u"
proof -
  have "grows user_le (au_users s) (au_users u)"
    by (rule grows_trans [where ys = "au_users t"]) (use assms user_trans in \<open>auto simp: auth_evolves_def\<close>)
  moreover have "grows session_le (au_sessions s) (au_sessions u)"
    by (rule grows_trans [where ys = "au_sessions t"]) (use assms session_trans in \<open>auto simp: auth_evolves_def\<close>)
  moreover have "grows token_le (au_resets s) (au_resets u)"
    by (rule grows_trans [where ys = "au_resets t"]) (use assms token_trans in \<open>auto simp: auth_evolves_def\<close>)
  moreover have "grows (=) (au_events s) (au_events u)"
    by (rule grows_trans [where ys = "au_events t"]) (use assms in \<open>auto simp: auth_evolves_def\<close>)
  moreover have "grows (=) (au_mails s) (au_mails u)"
    by (rule grows_trans [where ys = "au_mails t"]) (use assms in \<open>auto simp: auth_evolves_def\<close>)
  ultimately show ?thesis using assms by (simp add: auth_evolves_def)
qed

lemma auth_inv_calls [simp]: "auth_inv (s\<lparr>calls := n\<rparr>) = auth_inv s"
  by (simp add: auth_inv_def sessions_inv_def resets_inv_def enrollments_inv_def links_inv_def owned_def)

lemma auth_evolves_calls [simp]: "auth_evolves s (t\<lparr>calls := n\<rparr>) = auth_evolves s t"
  by (simp add: auth_evolves_def)

interpretation auth_steps: stepwise auth_step
proof
  show "auth_step s u" if "auth_step s t" "auth_step t u" for s t u
    using that auth_evolves_trans unfolding auth_step_def by blast
qed (simp add: auth_step_def)

section \<open>The writes\<close>

text \<open>A write of one table leaves the others as they are.\<close>

lemmas auth_inv_defs = auth_inv_def sessions_inv_def resets_inv_def enrollments_inv_def links_inv_def owned_def

lemma step_users:
  assumes "auth_inv s \<Longrightarrow> users_inv (au_pg s) us" "grows user_le (au_users s) us"
  shows "auth_step s (s\<lparr>au_users := us\<rparr>)"
proof -
  have "us_uuid ` set (au_users s) \<subseteq> us_uuid ` set us"
  proof
    fix x assume "x \<in> us_uuid ` set (au_users s)"
    then obtain u where u: "u \<in> set (au_users s)" "x = us_uuid u" by blast
    obtain v where "v \<in> set us" "user_le u v" by (rule grows_mem [OF assms(2) u(1)])
    then show "x \<in> us_uuid ` set us" using u(2) by (simp add: user_le_def) (metis image_eqI)
  qed
  moreover have "auth_evolves s (s\<lparr>au_users := us\<rparr>)"
    using assms(2) by (simp add: auth_evolves_def grows_refl)
  ultimately show ?thesis using assms(1) unfolding auth_step_def auth_inv_defs
    by (simp (no_asm_simp) add: subset_trans) (meson subset_trans)
qed

lemma step_sessions:
  assumes "auth_inv s \<Longrightarrow> sessions_inv (s\<lparr>au_sessions := rs\<rparr>)" "grows session_le (au_sessions s) rs"
  shows "auth_step s (s\<lparr>au_sessions := rs\<rparr>)"
  using assms by (simp add: auth_step_def auth_inv_defs auth_evolves_def grows_refl)

lemma step_resets:
  assumes "auth_inv s \<Longrightarrow> resets_inv (s\<lparr>au_resets := rs\<rparr>)" "grows token_le (au_resets s) rs"
  shows "auth_step s (s\<lparr>au_resets := rs\<rparr>)"
  using assms by (simp add: auth_step_def auth_inv_defs auth_evolves_def grows_refl)

lemma step_registrations:
  assumes "auth_inv s \<Longrightarrow> distinct (map rg_uuid rs) \<and> distinct (map rg_hash rs)"
  shows "auth_step s (s\<lparr>au_registrations := rs\<rparr>)"
  using assms by (simp add: auth_step_def auth_inv_defs auth_evolves_def grows_refl)

lemma step_methods:
  assumes "auth_inv s \<Longrightarrow> enrollments_inv (s\<lparr>au_methods := ms\<rparr>)"
  shows "auth_step s (s\<lparr>au_methods := ms\<rparr>)"
  using assms by (simp add: auth_step_def auth_inv_defs auth_evolves_def grows_refl)

lemma step_codes:
  assumes "auth_inv s \<Longrightarrow> enrollments_inv (s\<lparr>au_codes := cs\<rparr>)"
  shows "auth_step s (s\<lparr>au_codes := cs\<rparr>)"
  using assms by (simp add: auth_step_def auth_inv_defs auth_evolves_def grows_refl)

lemma step_links:
  assumes "auth_inv s \<Longrightarrow> links_inv (s\<lparr>au_links := ls\<rparr>)"
  shows "auth_step s (s\<lparr>au_links := ls\<rparr>)"
  using assms by (simp add: auth_step_def auth_inv_defs auth_evolves_def grows_refl)

lemma step_frame:
  "auth_step s (s\<lparr>au_challenges := a\<rparr>)" "auth_step s (s\<lparr>au_states := b\<rparr>)" "auth_step s (s\<lparr>au_fails := c\<rparr>)"
  "auth_step s (s\<lparr>au_locks := d\<rparr>)" "auth_step s (s\<lparr>au_grants := g\<rparr>)" "auth_step s (s\<lparr>au_invalidated := h\<rparr>)"
  "auth_step s (s\<lparr>au_events := au_events s @ es\<rparr>)" "auth_step s (s\<lparr>au_mails := au_mails s @ ms\<rparr>)"
  by (simp_all add: auth_step_def auth_inv_defs auth_evolves_def grows_refl grows_append)


named_theorems auth_keeps \<open>computations whose every step keeps the invariant\<close>

lemmas auth_basic_keeps [auth_keeps] = auth_steps.steps_intros

lemma users_inv_write:
  assumes "users_inv pg us" "\<And>r. us_uuid (f r) = us_uuid r" "\<And>r. us_live (f r) = us_live r"
    "\<And>r. us_username (f r) = us_username r" "\<And>r. us_email (f r) = us_email r"
  shows "users_inv pg (map f us)"
  using assms by (simp add: users_inv_def comp_def filter_map)

lemma keeps_us_write:
  assumes "\<And>r. user_le r (f r)" "\<And>r. us_email (f r) = us_email r"
  shows "auth_step s (us_write u f s)"
  unfolding us_write_def
proof (rule step_users)
  show "users_inv (au_pg s) (map (\<lambda>r. if us_live r \<and> us_uuid r = u then f r else r) (au_users s))" if "auth_inv s"
  proof (rule users_inv_write)
    show "users_inv (au_pg s) (au_users s)" using that by (simp add: auth_inv_def)
  qed (use assms in \<open>auto simp: user_le_def us_live_def\<close>)
qed (rule grows_map, simp add: assms(1))

lemma keeps_user_writes [auth_keeps]:
  "steps auth_step (RecordLogin u w)" "steps auth_step (UpdatePassword u h w)"
  unfolding RecordLogin_def UpdatePassword_def
  by (intro auth_keeps auth_steps.steps_change keeps_us_write; simp add: user_le_def)+

lemma users_inv_append:
  assumes "users_inv pg us" "us_uuid u \<notin> us_uuid ` set us"
    "\<not> list_ex (\<lambda>r. us_live r \<and> pg (us_email r) = pg (us_email u)) us"
    "\<not> list_ex (\<lambda>r. us_live r \<and> pg (us_username r) = pg (us_username u)) us"
  shows "users_inv pg (us @ [u])"
  using assms by (auto simp: users_inv_def list_ex_iff)

lemma keeps_us_Create [auth_keeps]: "steps auth_step (us_Create u)"
  unfolding us_Create_def
proof (intro auth_steps.steps_db_call stepsI)
  fix s
  have "auth_step s (s\<lparr>au_users := au_users s @ [u]\<rparr>)"
    if "us_uuid u \<notin> us_uuid ` set (au_users s)"
      "\<not> list_ex (\<lambda>r. us_live r \<and> au_pg s (us_email r) = au_pg s (us_email u)) (au_users s)"
      "\<not> list_ex (\<lambda>r. us_live r \<and> au_pg s (us_username r) = au_pg s (us_username u)) (au_users s)"
    by (intro step_users users_inv_append grows_append) (use that in \<open>simp_all add: auth_inv_def\<close>)
  then show "auth_step s (snd (if us_uuid u \<in> us_uuid ` set (au_users s) then (Inl StoreFail, s)
     else if list_ex (\<lambda>r. us_live r \<and> au_pg s (us_email r) = au_pg s (us_email u)) (au_users s) then (Inl (Err AuEmailTaken), s)
     else if list_ex (\<lambda>r. us_live r \<and> au_pg s (us_username r) = au_pg s (us_username u)) (au_users s) then (Inl (Err AuUsernameTaken), s)
     else (Inr u, s\<lparr>au_users := au_users s @ [u]\<rparr>)))"
    using auth_steps.step_refl by simp
qed

text \<open>An account's new address is no other live account's.\<close>

lemma distinct_map_change:
  assumes "distinct (map f xs)" "distinct (map k xs)"
    "\<And>x. x \<in> set xs \<Longrightarrow> k x = a \<Longrightarrow> g x = b" "\<And>x. x \<in> set xs \<Longrightarrow> k x \<noteq> a \<Longrightarrow> g x = f x \<and> f x \<noteq> b"
  shows "distinct (map g xs)"
proof -
  have "inj_on f (set xs)" "inj_on k (set xs)" "distinct xs" using assms(1,2) by (simp_all add: distinct_map)
  moreover have "inj_on g (set xs)"
  proof (rule inj_onI)
    fix x y assume xy: "x \<in> set xs" "y \<in> set xs" "g x = g y"
    consider "k x = a" "k y = a" | "k x \<noteq> a" "k y \<noteq> a" | "k x = a" "k y \<noteq> a" | "k x \<noteq> a" "k y = a" by blast
    then show "x = y"
    proof cases
      case 1
      then show ?thesis using xy \<open>inj_on k (set xs)\<close> by (simp add: inj_on_def)
    next
      case 2
      then show ?thesis using xy assms(4) \<open>inj_on f (set xs)\<close> by (simp add: inj_on_def)
    qed (use xy assms(3) [of x] assms(3) [of y] assms(4) [of x] assms(4) [of y] in auto)
  qed
  ultimately show ?thesis by (simp add: distinct_map)
qed

lemma live_emails_change:
  assumes i: "users_inv pg us" and "list_all (\<lambda>r. us_live r \<and> us_uuid r \<noteq> u \<longrightarrow> pg (us_email r) \<noteq> pg e) us"
    and f: "\<And>r. us_email (f r) = e" "\<And>r. user_le r (f r)"
  shows "users_inv pg (map (\<lambda>r. if us_live r \<and> us_uuid r = u then f r else r) us)"
proof -
  let ?f = "\<lambda>r. if us_live r \<and> us_uuid r = u then f r else r"
  have k: "us_live (?f r) = us_live r" "us_uuid (?f r) = us_uuid r" "us_username (?f r) = us_username r" for r
    using f(2) [of r] by (auto simp: user_le_def us_live_def)
  have l: "filter us_live (map ?f us) = map ?f (filter us_live us)" by (simp add: filter_map comp_def k)
  have "distinct (map (\<lambda>r. pg (us_email (?f r))) (filter us_live us))"
    by (rule distinct_map_change [where f = "\<lambda>r. pg (us_email r)" and k = us_uuid and a = u and b = "pg e"])
       (use assms in \<open>auto simp: users_inv_def distinct_map list_all_iff intro: inj_on_subset\<close>)
  then show ?thesis using i unfolding users_inv_def l by (simp add: comp_def k)
qed

lemma keeps_UpdateEmail [auth_keeps]: "steps auth_step (UpdateEmail u email w)"
  unfolding UpdateEmail_def
proof (intro auth_steps.steps_db_call stepsI)
  fix s :: auth_store
  let ?has = "list_ex (\<lambda>r. us_live r \<and> us_uuid r = u) (au_users s)"
  let ?taken = "list_ex (\<lambda>r. us_live r \<and> us_uuid r \<noteq> u \<and> au_pg s (us_email r) = au_pg s email) (au_users s)"
  let ?f = "\<lambda>r. r\<lparr>us_email := email, us_verified := Some w, us_updated := w\<rparr>"
  have "auth_step s (us_write u ?f s)" if "\<not> ?has"
  proof -
    have "map (\<lambda>r. if us_live r \<and> us_uuid r = u then ?f r else r) (au_users s) = au_users s"
      by (rule map_idI) (use that in \<open>auto simp: list_ex_iff\<close>)
    then show ?thesis by (simp add: us_write_def auth_steps.step_refl)
  qed
  moreover have "auth_step s (us_write u ?f s)" if "\<not> ?taken"
    unfolding us_write_def
    by (intro step_users live_emails_change [where e = email] grows_map)
       (use that in \<open>auto simp: auth_inv_def list_ex_iff list_all_iff user_le_def\<close>)
  ultimately show "auth_step s (snd (if ?has \<and> ?taken then (Inl (Err AuEmailTaken), s) else (Inr (), us_write u ?f s)))"
    using auth_steps.step_refl by (cases "?has \<and> ?taken") (simp_all, blast)
qed

lemma reads_lookups [reads_intros]:
  "reads (us_findOne P)" "reads (au_known u)" "reads (ss_find h)" "reads (rt_find h)" "reads (rg_find h)"
  "reads (oi_FindUser a b)" "reads (au_ext x)" "reads (tf_Find u)"
  unfolding us_findOne_def au_known_def ss_find_def rt_find_def rg_find_def oi_FindUser_def au_ext_def tf_Find_def
  by ((intro reads_intros readsI | rule reads_andthen); simp split: option.split list.split)+


lemmas auth_read_keeps [auth_keeps] = reads_lookups [THEN auth_steps.steps_reads]

section \<open>Sessions and tokens\<close>

text \<open>After a call that has found the account, it is there for the calls that follow.\<close>

definition owner_step :: "uuid \<Rightarrow> auth_store \<Rightarrow> auth_store \<Rightarrow> bool" where
  "owner_step u s t \<longleftrightarrow> (u \<in> us_uuid ` set (au_users s) \<longrightarrow> auth_step s t)"

lemma user_stays: "auth_evolves s t \<Longrightarrow> u \<in> us_uuid ` set (au_users s) \<Longrightarrow> u \<in> us_uuid ` set (au_users t)"
proof -
  assume e: "auth_evolves s t" and "u \<in> us_uuid ` set (au_users s)"
  then obtain x where x: "x \<in> set (au_users s)" "us_uuid x = u" by blast
  have "grows user_le (au_users s) (au_users t)" using e by (simp add: auth_evolves_def)
  then obtain y where "y \<in> set (au_users t)" "user_le x y" using x(1) by (rule grows_mem)
  then show "u \<in> us_uuid ` set (au_users t)" using x(2) unfolding user_le_def by (metis image_eqI)
qed

interpretation owner_steps: stepwise "owner_step u" for u
proof
  show "owner_step u s v" if "owner_step u s t" "owner_step u t v" for s t v
    using that user_stays auth_evolves_trans unfolding owner_step_def auth_step_def by blast
qed (simp add: owner_step_def auth_steps.step_calls)

lemma steps_owner: "steps auth_step m \<Longrightarrow> steps (owner_step u) m"
  by (simp add: steps_def owner_step_def)

lemma keeps_known:
  assumes "steps (owner_step u) m"
  shows "steps auth_step (andthen (au_known u) (\<lambda>_. m))"
proof (rule stepsI)
  fix s :: auth_store
  have c: "auth_step s (s\<lparr>calls := n\<rparr>)" for n by (rule auth_steps.step_calls)
  have "auth_step s (snd (m (s\<lparr>calls := n\<rparr>)))" if "u \<in> us_uuid ` set (au_users s)" for n
    using stepsD [OF assms, of "s\<lparr>calls := n\<rparr>"] that auth_steps.step_trans [OF c] by (simp add: owner_step_def)
  then show "auth_step s (snd (andthen (au_known u) (\<lambda>_. m) s))"
    using c by (simp add: andthen_def au_known_def db_call_def Let_def)
qed

lemma keeps_after_known:
  assumes "\<And>s. u \<in> us_uuid ` set (au_users s) \<Longrightarrow> auth_step s (snd (m s))"
  shows "steps auth_step (andthen (au_known u) (\<lambda>_. db_call m))"
  by (intro keeps_known owner_steps.steps_db_call stepsI) (simp add: owner_step_def assms)

lemma keeps_ss_Create [auth_keeps]: "steps auth_step (ss_Create r)"
  unfolding ss_Create_def
proof (rule keeps_after_known)
  fix s :: auth_store assume u: "rs_user r \<in> us_uuid ` set (au_users s)"
  have "auth_step s (s\<lparr>au_sessions := au_sessions s @ [r\<lparr>rs_revoked := None, rs_replaced := None\<rparr>]\<rparr>)"
    if "rs_uuid r \<notin> rs_uuid ` set (au_sessions s)" "rs_hash r \<notin> rs_hash ` set (au_sessions s)"
    by (intro step_sessions grows_append) (use u that in \<open>auto simp: auth_inv_def sessions_inv_def owned_def\<close>)
  then show "auth_step s (snd (if rs_uuid r \<in> rs_uuid ` set (au_sessions s) \<or> rs_hash r \<in> rs_hash ` set (au_sessions s) then (Inl StoreFail, s)
       else (Inr r, s\<lparr>au_sessions := au_sessions s @ [r\<lparr>rs_revoked := None, rs_replaced := None\<rparr>]\<rparr>)))"
    using auth_steps.step_refl by simp
qed

lemma session_keys_map:
  assumes "\<And>r. session_le r (f r)"
  shows "map rs_uuid (map f rs) = map rs_uuid rs" "map rs_hash (map f rs) = map rs_hash rs" "rs_user ` set (map f rs) = rs_user ` set rs"
proof -
  have "rs_uuid (f r) = rs_uuid r" "rs_hash (f r) = rs_hash r" "rs_user (f r) = rs_user r" for r
    using assms [of r] by (simp_all add: session_le_def)
  then show "map rs_uuid (map f rs) = map rs_uuid rs" "map rs_hash (map f rs) = map rs_hash rs" "rs_user ` set (map f rs) = rs_user ` set rs"
    by (simp_all add: comp_def image_image)
qed

lemma step_session_map:
  assumes "\<And>r. session_le r (f r)"
  shows "auth_step s (s\<lparr>au_sessions := map f (au_sessions s)\<rparr>)"
proof (intro step_sessions grows_map assms)
  assume "auth_inv s"
  then show "sessions_inv (s\<lparr>au_sessions := map f (au_sessions s)\<rparr>)"
    unfolding auth_inv_def sessions_inv_def owned_def using session_keys_map [OF assms] by (simp del: map_map)
qed

lemma keeps_session_writes [auth_keeps]:
  "steps auth_step (ss_Revoke u w)" "steps auth_step (RevokeFamily u fam w)" "steps auth_step (RevokeAllForUser u w)"
  "steps auth_step (ss_Replace old new w)"
  unfolding ss_Revoke_def RevokeFamily_def RevokeAllForUser_def ss_Replace_def ss_write_def Let_def
  by (intro auth_keeps auth_steps.steps_change step_session_map; simp add: session_le_def)+

lemma keeps_rt_Create [auth_keeps]: "steps auth_step (rt_Create q)"
  unfolding rt_Create_def
proof (rule keeps_after_known)
  fix s :: auth_store assume u: "rt_user q \<in> us_uuid ` set (au_users s)"
  have "auth_step s (s\<lparr>au_resets := au_resets s @ [q\<lparr>rt_used := None\<rparr>]\<rparr>)"
    if "\<not> list_ex (\<lambda>r. rt_uuid r = rt_uuid q \<or> rt_jti r = rt_jti q \<or> rt_hash r = rt_hash q) (au_resets s)"
    by (intro step_resets grows_append) (use u that in \<open>auto simp: auth_inv_def resets_inv_def owned_def list_ex_iff\<close>)
  then show "auth_step s (snd (if list_ex (\<lambda>r. rt_uuid r = rt_uuid q \<or> rt_jti r = rt_jti q \<or> rt_hash r = rt_hash q) (au_resets s) then (Inl StoreFail, s)
       else (Inr (), s\<lparr>au_resets := au_resets s @ [q\<lparr>rt_used := None\<rparr>]\<rparr>)))"
    using auth_steps.step_refl by simp
qed

lemma keeps_rt_write: "steps auth_step (rt_write P w)"
  unfolding rt_write_def
proof (intro auth_keeps auth_steps.steps_change step_resets grows_map)
  fix s assume "auth_inv s"
  moreover have "map g (map (\<lambda>r. if P r \<and> rt_used r = None then r\<lparr>rt_used := Some w\<rparr> else r) rs) = map g rs"
    if "\<And>r. g (r\<lparr>rt_used := Some w\<rparr>) = g r" for g :: "reset_token \<Rightarrow> 'x" and rs
    using that by simp
  ultimately show "resets_inv (s\<lparr>au_resets := map (\<lambda>r. if P r \<and> rt_used r = None then r\<lparr>rt_used := Some w\<rparr> else r) (au_resets s)\<rparr>)"
    by (simp add: auth_inv_def resets_inv_def owned_def comp_def image_image if_distrib cong: if_cong) auto
qed (auto simp: token_le_def)

lemma keeps_token_writes [auth_keeps]: "steps auth_step (MarkUsed u w)" "steps auth_step (RevokePending u p w)"
  unfolding MarkUsed_def RevokePending_def by (rule keeps_rt_write)+

lemma distinct_map_filtered: "distinct (map f xs) \<Longrightarrow> distinct (map f (filter P xs))"
  by (simp add: distinct_map inj_on_def)

lemma keeps_registrations [auth_keeps]: "steps auth_step (rg_Create g n)" "steps auth_step (rg_Consume h)"
proof -
  have "auth_step s (s\<lparr>au_registrations := au_registrations s @ [g]\<rparr>)"
    if "\<not> list_ex (\<lambda>r. rg_uuid r = rg_uuid g \<or> rg_hash r = rg_hash g) (au_registrations s)" for s
    by (rule step_registrations) (use that in \<open>auto simp: auth_inv_def list_ex_iff\<close>)
  then show "steps auth_step (rg_Create g n)" unfolding rg_Create_def
    by (intro auth_steps.steps_db_call stepsI) (simp add: auth_steps.step_refl)
  show "steps auth_step (rg_Consume h)" unfolding rg_Consume_def Let_def
    by (intro auth_steps.steps_db_call stepsI) (simp, rule step_registrations, simp add: distinct_map_filtered auth_inv_def)
qed


section \<open>Enrollments and identities\<close>

lemma step_method_map:
  assumes "\<And>m. tf_user (f m) = tf_user m"
  shows "auth_step s (s\<lparr>au_methods := map f (au_methods s)\<rparr>)"
  by (rule step_methods) (simp add: auth_inv_def enrollments_inv_def owned_def comp_def assms image_image)

lemma step_code_map:
  assumes "\<And>m. bc_user (f m) = bc_user m" "\<And>m. bc_hash (f m) = bc_hash m"
  shows "auth_step s (s\<lparr>au_codes := map f (au_codes s)\<rparr>)"
  by (rule step_codes) (simp add: auth_inv_def enrollments_inv_def owned_def comp_def assms image_image)

lemma step_codes_filter: "auth_step s (s\<lparr>au_codes := filter P (au_codes s)\<rparr>)"
  by (rule step_codes) (auto simp: auth_inv_def enrollments_inv_def owned_def distinct_map_filtered)

lemma step_methods_filter: "auth_step s (s\<lparr>au_methods := filter P (au_methods s)\<rparr>)"
  by (rule step_methods) (auto simp: auth_inv_def enrollments_inv_def owned_def distinct_map_filtered)

lemma keeps_drop_codes [auth_keeps]: "steps auth_step (drop_codes u)"
  unfolding drop_codes_def by (intro auth_keeps auth_steps.steps_change step_codes_filter)

lemma keeps_UseStep [auth_keeps]: "steps auth_step (UseStep u n)"
  unfolding UseStep_def Let_def by (intro auth_keeps stepsI) (simp add: step_method_map)

lemma keeps_UseBackupCode [auth_keeps]: "steps auth_step (UseBackupCode u h w)"
  unfolding UseBackupCode_def Let_def by (intro auth_keeps stepsI) (simp add: step_code_map)

lemma insert_keeps: "steps (owner_step u) (insertBackupCodes u hashes)"
proof -
  have "owner_step u s (s\<lparr>au_codes := au_codes s @ map (\<lambda>h. \<lparr>bc_user = u, bc_hash = h, bc_used = None\<rparr>) hashes\<rparr>)"
    if "distinct hashes" "\<forall>c \<in> set (au_codes s). bc_user c = u \<longrightarrow> bc_hash c \<notin> set hashes" for s
    unfolding owner_step_def
  proof (intro impI step_codes)
    assume "u \<in> us_uuid ` set (au_users s)" "auth_inv s"
    then show "enrollments_inv (s\<lparr>au_codes := au_codes s @ map (\<lambda>h. \<lparr>bc_user = u, bc_hash = h, bc_used = None\<rparr>) hashes\<rparr>)"
      using that by (auto simp: auth_inv_def enrollments_inv_def owned_def comp_def distinct_map inj_on_def)
  qed
  then show ?thesis unfolding insertBackupCodes_def
    by (intro owner_steps.steps_intros stepsI) (simp add: owner_steps.step_refl)
qed

lemma keeps_enrollment [auth_keeps]:
  "steps auth_step (SavePending u x)" "steps auth_step (tf_Confirm u n hs w)" "steps auth_step (ReplaceBackupCodes u hs)"
  "steps auth_step (tf_Delete u)"
proof -
  have new: "owner_step u s (s\<lparr>au_methods := au_methods s @ [\<lparr>tf_user = u, tf_secret = x, tf_confirmed = None, tf_step = 0\<rparr>]\<rparr>)"
    if "find (\<lambda>m. tf_user m = u) (au_methods s) = None" for s
    unfolding owner_step_def
    by (intro impI step_methods) (use that in \<open>auto simp: auth_inv_def enrollments_inv_def owned_def find_None_iff\<close>)
  have map: "owner_step u s (s\<lparr>au_methods := map f (au_methods s)\<rparr>)" if "\<And>m. tf_user (f m) = tf_user m" for f s
    using step_method_map that by (simp add: owner_step_def)
  have d: "steps (owner_step v) (drop_codes v)" for v by (intro steps_owner keeps_drop_codes)
  show "steps auth_step (SavePending u x)" unfolding SavePending_def
    by (intro auth_steps.steps_tx keeps_known owner_steps.steps_intros stepsI d)
       (simp add: new map owner_steps.step_refl split: option.split)
  show "steps auth_step (tf_Confirm u n hs w)" unfolding tf_Confirm_def Let_def
    by (intro auth_steps.steps_tx keeps_known owner_steps.steps_intros stepsI insert_keeps) (simp add: map)
  show "steps auth_step (ReplaceBackupCodes u hs)" unfolding ReplaceBackupCodes_def
    by (intro auth_steps.steps_tx keeps_known owner_steps.steps_intros d insert_keeps)
  show "steps auth_step (tf_Delete u)" unfolding tf_Delete_def
    by (intro auth_keeps auth_steps.steps_change step_methods_filter)
qed

lemma step_link_map:
  assumes "\<And>l. ol_user (f l) = ol_user l" "\<And>l. ol_provider (f l) = ol_provider l" "\<And>l. ol_subject (f l) = ol_subject l"
  shows "auth_step s (s\<lparr>au_links := map f (au_links s)\<rparr>)"
  by (rule step_links) (simp add: auth_inv_def links_inv_def owned_def comp_def assms image_image)

lemma keeps_links [auth_keeps]: "steps auth_step (oi_Link u l)" "steps auth_step (oi_Touch a b w)"
proof -
  have "owner_step u s (s\<lparr>au_links := au_links s @ [l\<lparr>ol_user := u\<rparr>]\<rparr>)"
    if "\<not> list_ex (\<lambda>q. ol_provider q = ol_provider l \<and> (ol_subject q = ol_subject l \<or> ol_user q = u)) (au_links s)" for s
    unfolding owner_step_def
    by (intro impI step_links) (use that in \<open>auto simp: auth_inv_def links_inv_def owned_def list_ex_iff\<close>)
  then have "steps (owner_step u) (db_call (\<lambda>s.
         if list_ex (\<lambda>q. ol_provider q = ol_provider l \<and> (ol_subject q = ol_subject l \<or> ol_user q = u)) (au_links s)
         then (Inl (Err OAuthLinkConflict), s)
         else (Inr (), s\<lparr>au_links := au_links s @ [l\<lparr>ol_user := u\<rparr>]\<rparr>)))" (is "steps _ ?m")
    by (intro owner_steps.steps_db_call stepsI) (simp add: owner_steps.step_refl)
  then have "steps auth_step (andthen (au_known u) (\<lambda>_. ?m))" by (rule keeps_known)
  then have "auth_step s (snd (andthen (au_known u) (\<lambda>_. ?m) s))" for s by (rule stepsD)
  moreover have "snd (oi_Link u l s) = snd (andthen (au_known u) (\<lambda>_. ?m) s)" for s
    by (simp add: oi_Link_def andthen_def attempt_def raise_def split: prod.split sum.split)
  ultimately show "steps auth_step (oi_Link u l)" by (simp add: steps_def)
  show "steps auth_step (oi_Touch a b w)" unfolding oi_Touch_def
    by (intro auth_keeps auth_steps.steps_change step_link_map) simp_all
qed

end
