(* ===== verification/Auth_Requests.thy ===== *)
theory Auth_Requests
  imports Auth_Correct
begin

text \<open>
  The requests of the authentication service: each keeps the invariant of the tables and lets them evolve.
\<close>

section \<open>Redis and the outbound ports\<close>

lemma keeps_redis [auth_keeps]: "(\<And>now. steps auth_step (f now)) \<Longrightarrow> steps auth_step (redis_call f)"
  using auth_steps.steps_db_call unfolding redis_call_def steps_def by blast

lemma keeps_pending [auth_keeps]: "steps auth_step (ch_Save h l ttl)" "steps auth_step (ch_Get h)" "steps auth_step (ch_Attempt h)"
  "steps auth_step (ch_Consume h)" "steps auth_step (st_Save h v ttl)" "steps auth_step (st_Consume h)"
  unfolding ch_Save_def ch_Get_def ch_Attempt_def ch_Consume_def st_Save_def st_Consume_def
  by (intro keeps_redis stepsI; simp add: step_frame auth_steps.step_refl change_run split: option.split)+

lemma keeps_lockout [auth_keeps]: "steps auth_step (lk_Locked key)" "steps auth_step (lk_Fail n d key)" "steps auth_step (lk_Reset key)"
proof -
  have f: "steps auth_step (redis_call (\<lambda>now s.
       case au_fails s key of
         Some (n, until) \<Rightarrow> if now < until then (Inr (n + 1), s\<lparr>au_fails := (au_fails s)(key := Some (n + 1, until))\<rparr>)
                            else (Inr 1, s\<lparr>au_fails := (au_fails s)(key := Some (1, now + d))\<rparr>)
       | None \<Rightarrow> (Inr 1, s\<lparr>au_fails := (au_fails s)(key := Some (1, now + d))\<rparr>)))"
    by (intro keeps_redis stepsI) (simp add: step_frame split: option.split prod.split)
  have "auth_step s (s\<lparr>au_locks := a, au_fails := b\<rparr>)" for s a b
    using auth_steps.step_trans [OF step_frame(4) [of s a] step_frame(3) [of "s\<lparr>au_locks := a\<rparr>" b]] by simp
  then have l: "steps auth_step (redis_call (\<lambda>now. change (\<lambda>s.
       s\<lparr>au_locks := (au_locks s)(key := Some (now + d)), au_fails := (au_fails s)(key := None)\<rparr>)))"
    by (intro keeps_redis auth_steps.steps_change)
  show "steps auth_step (lk_Fail n d key)" unfolding lk_Fail_def by (intro auth_steps.steps_intros f l)
  show "steps auth_step (lk_Locked key)" "steps auth_step (lk_Reset key)" unfolding lk_Locked_def lk_Reset_def
    by (intro keeps_redis stepsI; simp add: step_frame auth_steps.step_refl change_run split: option.split)+
qed

lemma keeps_ports [auth_keeps]: "steps auth_step (au_record e)" "steps auth_step (au_mail m)" "steps auth_step au_invalidate"
  unfolding au_record_def au_mail_def au_invalidate_def
  by (intro auth_keeps auth_steps.steps_change step_frame)+

section \<open>Requests\<close>

datatype auth_op =
    AuLogin auth_env bool string string string string bool
  | AuTwoFactor auth_env string string
  | AuRefresh auth_env string string string
  | AuLogout auth_env uuid string
  | AuForgot auth_env string
  | AuReset auth_env string string string
  | AuChangePassword auth_env uuid string string string bool
  | AuSetup auth_env uuid
  | AuConfirm auth_env uuid string
  | AuDisable auth_env uuid string string
  | AuRegenerate auth_env uuid string
  | AuStepUp auth_env uuid string string
  | AuEmailRequest auth_env uuid string string
  | AuEmailConfirm auth_env uuid string
  | AuAdminCreate auth_env new_user
  | AuAdminReset auth_env uuid bool
  | AuRegister auth_env new_user
  | AuVerify auth_env string string string string
  | AuOAuthStart auth_env string string
  | AuOAuthCallback auth_env string string string string string

fun auth_run :: "auth_op \<Rightarrow> unit auth_comp" where
  "auth_run (AuLogin E admin email password agent ip remember) = drop_result (login E admin email password agent ip remember)"
| "auth_run (AuTwoFactor E token code) = drop_result (CompleteTwoFactor E token code)"
| "auth_run (AuRefresh E token agent ip) = drop_result (Refresh E token agent ip)"
| "auth_run (AuLogout E u token) = Logout E u token"
| "auth_run (AuForgot E identity) = ForgotPassword E identity"
| "auth_run (AuReset E raw password confirm) = ResetPassword E raw password confirm"
| "auth_run (AuChangePassword E u current password confirm revokeAll) =
     drop_result (ChangePassword E u current password confirm revokeAll)"
| "auth_run (AuSetup E u) = drop_result (SetupTwoFactor E u)"
| "auth_run (AuConfirm E u code) = drop_result (ConfirmTwoFactor E u code)"
| "auth_run (AuDisable E u password code) = DisableTwoFactor E u password code"
| "auth_run (AuRegenerate E u code) = drop_result (RegenerateBackupCodes E u code)"
| "auth_run (AuStepUp E u password code) = drop_result (VerifyStepUp E u password code)"
| "auth_run (AuEmailRequest E u email password) = drop_result (RequestEmailChange E u email password)"
| "auth_run (AuEmailConfirm E u raw) = drop_result (ConfirmEmailChange E u raw)"
| "auth_run (AuAdminCreate E i) = drop_result (AdminCreateUser E i)"
| "auth_run (AuAdminReset E u revoke) = drop_result (AdminResetPassword E u revoke)"
| "auth_run (AuRegister E i) = Register E i"
| "auth_run (AuVerify E raw password agent ip) = drop_result (VerifyEmail E raw password agent ip)"
| "auth_run (AuOAuthStart E provider redirect) = drop_result (OAuthStart E provider redirect)"
| "auth_run (AuOAuthCallback E provider code state agent ip) = drop_result (OAuthCallback E provider code state agent ip)"

text \<open>
  Which challenges a request may open or try and whose enrollment it may remove: a login opens the challenge of
  the text it draws, a second factor tries the one of its token.
\<close>

fun op_within :: "(string \<Rightarrow> bool) \<Rightarrow> (string \<Rightarrow> bool) \<Rightarrow> (uuid \<Rightarrow> bool) \<Rightarrow> auth_op \<Rightarrow> bool" where
  "op_within saves tries drops (AuLogin E admin email password agent ip remember) = saves (ae_sha256 E (ae_random E 0))"
| "op_within saves tries drops (AuOAuthCallback E provider code state agent ip) = saves (ae_sha256 E (ae_random E 0))"
| "op_within saves tries drops (AuTwoFactor E token code) = tries (ae_sha256 E (trim_space token))"
| "op_within saves tries drops (AuDisable E u password code) = drops u"
| "op_within saves tries drops x = True"

section \<open>What the writes of a request keep\<close>

text \<open>
  A relation on states that every write of the service keeps: then every request keeps it. Challenges are opened
  and tried, and enrollments removed, only where the relation allows it.
\<close>

locale auth_frame = stepwise R
  for R :: "auth_store \<Rightarrow> auth_store \<Rightarrow> bool" +
  fixes saves tries :: "string \<Rightarrow> bool" and drops :: "uuid \<Rightarrow> bool"
  assumes user_writes: "steps R (RecordLogin u w)" "steps R (UpdatePassword u h w)" "steps R (us_Create x)" "steps R (UpdateEmail u e w)"
    and session_writes: "steps R (ss_Create r)" "steps R (ss_Revoke u w)" "steps R (RevokeFamily u fam w)"
      "steps R (RevokeAllForUser u w)" "steps R (ss_Replace old new w)"
    and token_writes: "steps R (rt_Create q)" "steps R (MarkUsed u w)" "steps R (RevokePending u p w)"
      "steps R (rg_Create g n)" "steps R (rg_Consume h)"
    and enrollment_writes: "steps R (SavePending u y)" "steps R (tf_Confirm u j hs w)" "steps R (UseStep u j)"
      "steps R (UseBackupCode u h w)" "steps R (ReplaceBackupCodes u hs)"
    and delete_write: "drops u \<Longrightarrow> steps R (tf_Delete u)"
    and link_writes: "steps R (oi_Link u l)" "steps R (oi_Touch a b w)"
    and challenge_writes: "saves h \<Longrightarrow> steps R (ch_Save h l2 d)" "steps R (ch_Get h)"
      "tries h \<Longrightarrow> steps R (ch_Attempt h)" "tries h \<Longrightarrow> steps R (ch_Consume h)"
    and state_writes: "steps R (st_Save h v d)" "steps R (st_Consume h)"
    and lock_writes: "steps R (lk_Locked key)" "steps R (lk_Fail c d key)" "steps R (lk_Reset key)"
    and port_writes: "steps R (au_record ev)" "steps R (au_mail m)" "steps R au_invalidate"
    and grant_write: "R s (s\<lparr>au_grants := gs\<rparr>)"
begin

lemmas writes =
  steps_intros reads_lookups [THEN steps_reads] user_writes session_writes token_writes enrollment_writes link_writes
  challenge_writes(2) state_writes lock_writes port_writes

text \<open>A drawn text goes on as it was drawn.\<close>

lemma steps_ext:
  assumes "steps R (f x)"
  shows "steps R (andthen (au_ext x) f)"
proof (rule stepsI)
  fix s
  have "R s (snd (f x (s\<lparr>calls := n\<rparr>)))" for n by (rule step_trans [OF step_calls stepsD [OF assms]])
  then show "R s (snd (andthen (au_ext x) f s))" using step_calls by (simp add: au_ext_def andthen_def db_call_def ret_def Let_def)
qed

lemma keeps_accounts: "steps R (FindByID u)" "steps R (FindByEmail lo e)" "steps R (FindByUsernameOrEmail lo e)"
  "steps R (activeUser u)" "steps R (validatePasswordStrength E p)"
  unfolding FindByID_def FindByEmail_def FindByUsernameOrEmail_def activeUser_def validatePasswordStrength_def Let_def
  by (intro writes)+

lemma keeps_tokens: "steps R (IssueRefresh E k)" "steps R (IssueResetToken E k)" "steps R (IssueAccess E x now i fam raw)"
  unfolding IssueRefresh_def IssueResetToken_def IssueAccess_def by (intro writes)+

lemma keeps_login_parts: "steps R (completeLogin E k x agent ip r)" "steps R (checkPassword E u p)"
  "steps R (checkLocked E email)" "steps R (loginFailed E email)"
  unfolding completeLogin_def issuePair_def checkPassword_def checkLocked_def loginFailed_def Let_def
  by (intro writes keeps_accounts keeps_tokens)+

lemma keeps_codes: "steps R (twoFactorReady E)" "steps R (enabledEnrollment u)" "steps R (newBackupCodes E)" "steps R (useTOTP E k m code)"
  "steps R (verifyCode E k u code)" "steps R (checkTOTP E k m code)"
  unfolding twoFactorReady_def enabledEnrollment_def newBackupCodes_def verifyCode_def useTOTP_def checkTOTP_def Let_def
  by (intro writes)+

lemma keeps_startTwoFactor: "saves (ae_sha256 E (ae_random E 0)) \<Longrightarrow> steps R (startTwoFactor E k l)"
  unfolding startTwoFactor_def
  by (intro steps_andthen [OF steps_attempt] steps_ext steps_sum steps_prod steps_if) (intro writes challenge_writes, simp?)+

lemmas parts = writes keeps_accounts keeps_tokens keeps_login_parts keeps_codes

lemma keeps_finish_login: "saves (ae_sha256 E (ae_random E 0)) \<Longrightarrow> steps R (finish_login E k x l)"
  unfolding finish_login_def by (intro parts keeps_startTwoFactor)

lemma keeps_issuePasswordReset: "steps R (issuePasswordReset E x)"
  unfolding issuePasswordReset_def Let_def by (intro parts)

lemma keeps_identity: "steps R (emailAvailable E email u)" "steps R (usernameFree E name)" "steps R (validateNewUser E i)"
  "steps R (registrationOpen E)" "steps R (passwordResetToken E raw)"
  unfolding emailAvailable_def usernameFree_def validateNewUser_def registrationOpen_def passwordResetToken_def
  by (intro parts)+

lemma keeps_session_ops: "saves (ae_sha256 E (ae_random E 0)) \<Longrightarrow> steps R (login E admin email password agent ip remember)"
  "steps R (Refresh E token agent ip)" "steps R (Logout E u token)"
  unfolding login_def authenticate_def requireAdminAccess_def Refresh_def refresh_prepare_def refresh_rotate_def Logout_def Let_def
  by (intro parts keeps_finish_login | assumption)+

lemma keeps_CompleteTwoFactor: "tries (ae_sha256 E (trim_space token)) \<Longrightarrow> steps R (CompleteTwoFactor E token code)"
  unfolding CompleteTwoFactor_def challenge_failed_def Let_def
  by (intro parts challenge_writes | assumption)+

lemma keeps_password_ops: "steps R (ForgotPassword E identity)" "steps R (ResetPassword E raw password confirm)"
  "steps R (ChangePassword E u current password confirm revokeAll)" "steps R (AdminResetPassword E u revoke)"
  unfolding ForgotPassword_def ResetPassword_def reset_prepare_def reset_finish_def ChangePassword_def AdminResetPassword_def Let_def
  by (intro parts keeps_issuePasswordReset keeps_identity)+

lemma keeps_enrollment_ops: "steps R (SetupTwoFactor E u)" "steps R (ConfirmTwoFactor E u code)"
  "drops u \<Longrightarrow> steps R (DisableTwoFactor E u password code)" "steps R (RegenerateBackupCodes E u code)"
  "steps R (VerifyStepUp E u password code)"
  unfolding SetupTwoFactor_def ConfirmTwoFactor_def DisableTwoFactor_def RegenerateBackupCodes_def VerifyStepUp_def Let_def
  by (intro parts delete_write | assumption)+

lemma keeps_account_ops: "steps R (RequestEmailChange E u email password)" "steps R (ConfirmEmailChange E u raw)"
  "steps R (AdminCreateUser E i)" "steps R (Register E i)" "steps R (VerifyEmail E raw password agent ip)"
  unfolding RequestEmailChange_def ConfirmEmailChange_def emailChangeToken_def AdminCreateUser_def ensureIdentityFree_def Register_def
    startRegistration_def VerifyEmail_def createRegisteredUser_def Let_def
  by (intro parts keeps_identity steps_change grant_write)+

lemma keeps_oauth_ops: "steps R (OAuthStart E provider redirect)"
  "saves (ae_sha256 E (ae_random E 0)) \<Longrightarrow> steps R (OAuthCallback E provider code state agent ip)"
  unfolding OAuthStart_def OAuthCallback_def oauthUser_def linkByEmail_def Let_def
  by (intro parts keeps_finish_login | assumption)+

lemma keeps_op: "op_within saves tries drops x \<Longrightarrow> steps R (auth_run x)"
  by (cases x) (simp_all only: auth_run.simps op_within.simps, (intro steps_drop keeps_session_ops keeps_CompleteTwoFactor keeps_password_ops
        keeps_enrollment_ops keeps_account_ops keeps_oauth_ops | assumption)+)

lemma keeps_ops:
  assumes "list_all (op_within saves tries drops) xs"
  shows "R s (run_all auth_run xs s)"
  using assms
proof (induction xs arbitrary: s)
  case (Cons x xs)
  then have "R s (snd (auth_run x s))" "R (snd (auth_run x s)) (run_all auth_run xs (snd (auth_run x s)))"
    using stepsD [OF keeps_op] by simp_all
  then have "R s (run_all auth_run xs (snd (auth_run x s)))" by (rule step_trans)
  then show ?case by (simp add: run_all_def)
qed (simp add: run_all_def step_refl)

end

section \<open>The invariant under every request\<close>

interpretation auth_writes: auth_frame auth_step "\<lambda>h. True" "\<lambda>h. True" "\<lambda>u. True"
  by unfold_locales (rule auth_keeps step_frame)+

lemma keeps_auth_run: "steps auth_step (auth_run x)"
  by (rule auth_writes.keeps_op) (cases x; simp)

interpretation auth: evolving_service auth_run auth_inv auth_evolves
proof
  show "auth_inv (snd (auth_run x s))" if "auth_inv s" for x s
    using stepsD [OF keeps_auth_run, of s x] that by (simp add: auth_step_def)
  show "auth_evolves s (snd (auth_run x s))" if "auth_inv s" for x s
    using stepsD [OF keeps_auth_run, of s x] that by (simp add: auth_step_def)
qed (simp, rule auth_evolves_trans)

end
