(* ===== verification/Auth_Sessions.thy ===== *)
theory Auth_Sessions
  imports Auth_Requests
begin

text \<open>
  Refresh sessions: what a rotation and the reuse of a rotated token do.
\<close>

section \<open>The calls that succeed\<close>

named_theorems auth_ok \<open>what a call did when it returned\<close>

lemma ss_find_ok [auth_ok]:
  "ss_find h s = (Inr r, t) \<longleftrightarrow>
     \<not> fails s (calls s) \<and> find (\<lambda>r. rs_hash r = h) (au_sessions s) = Some r \<and> t = s\<lparr>calls := Suc (calls s)\<rparr>"
  by (auto simp: ss_find_def db_call_Inr_iff split: option.splits)

lemma us_findOne_ok [auth_ok]:
  "us_findOne P s = (Inr x, t) \<longleftrightarrow>
     \<not> fails s (calls s) \<and> find (\<lambda>u. us_live u \<and> P (au_pg s) u) (au_users s) = Some x \<and> t = s\<lparr>calls := Suc (calls s)\<rparr>"
  by (auto simp: us_findOne_def db_call_Inr_iff split: option.splits)

lemma attempt_ok: "attempt m s = (Inr v, t) \<longleftrightarrow> m s = (v, t)" "attempt m s \<noteq> (Inl e, t)"
  by (auto simp: attempt_def split: prod.splits)

lemma activeUser_ok [auth_ok]:
  "activeUser u s = (Inr x, t) \<longleftrightarrow> FindByID u s = (Inr x, t) \<and> IsActive x"
  by (cases "FindByID u s"; cases "fst (FindByID u s)") (auto simp: activeUser_def andthen_def attempt_def ret_def throw_def raise_def)

lemma activeUser_found:
  "activeUser u s = (Inr x, t) \<Longrightarrow>
     x \<in> set (au_users s) \<and> us_uuid x = u \<and> IsActive x \<and> \<not> fails s (calls s) \<and> t = s\<lparr>calls := Suc (calls s)\<rparr>"
  by (auto simp: auth_ok FindByID_def find_Some_iff)

lemma au_known_ok [auth_ok]:
  "au_known u s = (Inr v, t) \<longleftrightarrow> \<not> fails s (calls s) \<and> u \<in> us_uuid ` set (au_users s) \<and> t = s\<lparr>calls := Suc (calls s)\<rparr>"
  by (auto simp: au_known_def db_call_Inr_iff split: if_splits)

lemma au_ext_ok [auth_ok]: "au_ext x s = (Inr y, t) \<longleftrightarrow> \<not> fails s (calls s) \<and> y = x \<and> t = s\<lparr>calls := Suc (calls s)\<rparr>"
  by (auto simp: au_ext_def db_call_Inr_iff result_iffs)

lemma ss_Create_found:
  assumes "ss_Create r s = (Inr x, t)"
  shows "rs_user r \<in> us_uuid ` set (au_users s) \<and> rs_uuid r \<notin> rs_uuid ` set (au_sessions s) \<and> rs_hash r \<notin> rs_hash ` set (au_sessions s) \<and>
     (\<exists>n. t = s\<lparr>calls := n, au_sessions := au_sessions s @ [r\<lparr>rs_revoked := None, rs_replaced := None\<rparr>]\<rparr>)"
  using assms by (auto simp: ss_Create_def auth_ok andthen_Inr_iff db_call_Inr_iff split: if_splits)

section \<open>Rotation\<close>

text \<open>The session a rotation opens in place of \<open>r\<close>, and what it leaves of \<open>r\<close>.\<close>

definition next_session :: "auth_env \<Rightarrow> au_session \<Rightarrow> string \<Rightarrow> string \<Rightarrow> instant \<Rightarrow> string \<Rightarrow> au_session" where
  "next_session E r agent ip now h =
     \<lparr>rs_uuid = ae_ids E 0, rs_user = rs_user r, rs_family = rs_family r, rs_hash = h,
      rs_expires = now + sessionLifetime r (ae_RefreshTTL E), rs_revoked = None, rs_replaced = None,
      rs_agent = agent, rs_ip = ip, rs_created = now\<rparr>"

definition rotated_out :: "auth_env \<Rightarrow> instant \<Rightarrow> au_session \<Rightarrow> au_session" where
  "rotated_out E now r = r\<lparr>rs_revoked := Some now, rs_replaced := Some (ae_ids E 0)\<rparr>"

lemma refresh_prepare_found:
  assumes "refresh_prepare E token s = (Inr (r, u, now, raw, h), t)"
  shows "find (\<lambda>r. rs_hash r = ae_HashRefresh E (trim_space token)) (au_sessions s) = Some r \<and> rs_revoked r = None \<and>
     now = ae_clock E 0 \<and> now < rs_expires r \<and> u \<in> set (au_users s) \<and> us_uuid u = rs_user r \<and> IsActive u \<and>
     raw = ae_random E 0 \<and> h = ae_HashRefresh E raw \<and> unchanged s t"
  using assms
  by (auto simp: refresh_prepare_def Let_def andthen_Inr_iff ss_find_ok IssueRefresh_def au_ext_ok result_iffs
        split: if_splits dest!: activeUser_found)

lemma refresh_rotate_found:
  assumes "refresh_rotate E agent ip (r, u, now, raw, h) s = (Inr p, t)" "us_uuid u = rs_user r"
  shows "ae_ids E 0 \<notin> rs_uuid ` set (au_sessions s) \<and> h \<notin> rs_hash ` set (au_sessions s) \<and>
     p = \<lparr>tp_subject = us_uuid u, tp_email = us_email u, tp_username = us_username u, tp_issued = now,
          tp_expires = now + ae_AccessTTL E, tp_id = ae_ids E 1, tp_family = rs_family r, tp_refresh = raw\<rparr> \<and>
     t = s\<lparr>calls := calls t, au_sessions := map (\<lambda>q. if rs_uuid q = rs_uuid r then rotated_out E now q else q)
             (au_sessions s @ [next_session E r agent ip now h])\<rparr>"
proof -
  let ?n = "next_session E r agent ip now h"
  obtain x s1 s2 where c: "ss_Create ?n s = (Inr x, s1)" and e: "ss_Replace (rs_uuid r) (ae_ids E 0) now s1 = (Inr (), s2)"
      and a: "IssueAccess E u now (ae_ids E 1) (rs_family r) raw s2 = (Inr p, t)"
    using assms by (auto simp: refresh_rotate_def andthen_Inr_iff next_session_def)
  obtain n where k: "ae_ids E 0 \<notin> rs_uuid ` set (au_sessions s)" "h \<notin> rs_hash ` set (au_sessions s)"
    "s1 = s\<lparr>calls := n, au_sessions := au_sessions s @ [?n]\<rparr>"
    using ss_Create_found [OF c] by (auto simp: next_session_def)
  have "ae_ids E 0 \<in> rs_uuid ` set (au_sessions s1)" by (simp add: k(3) next_session_def)
  then have "s2 = s1\<lparr>calls := Suc (calls s1), au_sessions := map (\<lambda>q. if rs_uuid q = rs_uuid r then rotated_out E now q else q) (au_sessions s1)\<rparr>"
    using e by (simp add: ss_Replace_def db_call_Inr_iff result_iffs Let_def rotated_out_def cong: if_cong)
  then show ?thesis using k a by (simp add: IssueAccess_def au_ext_ok)
qed


section \<open>Sessions over a run\<close>

text \<open>The session a token names is found by its hash, which is its own.\<close>

lemma find_session:
  assumes "auth_inv s"
  shows "find (\<lambda>r. rs_hash r = h) (au_sessions s) = Some r \<longleftrightarrow> r \<in> set (au_sessions s) \<and> rs_hash r = h"
  by (rule find_keyed) (use assms in \<open>simp add: auth_inv_def sessions_inv_def\<close>)

lemma session_uuid_own: "auth_inv s \<Longrightarrow> r \<in> set (au_sessions s) \<Longrightarrow> q \<in> set (au_sessions s) \<Longrightarrow> rs_uuid q = rs_uuid r \<longleftrightarrow> q = r"
proof -
  assume i: "auth_inv s" and m: "r \<in> set (au_sessions s)" "q \<in> set (au_sessions s)"
  have "inj_on rs_uuid (set (au_sessions s))" using i by (simp add: auth_inv_def sessions_inv_def distinct_map)
  from inj_on_eq_iff [OF this m(2,1)] show "rs_uuid q = rs_uuid r \<longleftrightarrow> q = r" .
qed

lemma session_later:
  assumes "auth_evolves s t" "r \<in> set (au_sessions s)"
  obtains q where "q \<in> set (au_sessions t)" "session_le r q"
proof -
  have "grows session_le (au_sessions s) (au_sessions t)" using assms(1) by (simp add: auth_evolves_def)
  then show ?thesis using assms(2) by (rule grows_mem) (rule that)
qed

lemma reuse_found:
  assumes "auth_inv s" "r \<in> set (au_sessions s)" "rs_hash r = ae_HashRefresh E (trim_space token)" "trim_space token \<noteq> []"
    "rs_revoked r \<noteq> None" "\<And>n. \<not> fails s n"
  shows "\<exists>n. Refresh E token agent ip s = (Inl (Err AuTokenRevoked), s\<lparr>calls := n, au_sessions :=
     map (\<lambda>q. if rs_user q = rs_user r \<and> rs_family q = rs_family r \<and> rs_revoked q = None
              then q\<lparr>rs_revoked := Some (ae_clock E 0)\<rparr> else q) (au_sessions s)\<rparr>)"
proof -
  have "find (\<lambda>r. rs_hash r = ae_HashRefresh E (trim_space token)) (au_sessions s) = Some r"
    using find_session [OF assms(1)] assms(2,3) by blast
  then show ?thesis using assms(4-6)
    by (simp add: Refresh_def refresh_prepare_def Let_def andthen_def ss_find_def db_call_def RevokeFamily_def ss_write_def change_def
          throw_def) blast
qed

end
