(* ===== verification/Auth_Tokens.thy ===== *)
theory Auth_Tokens
  imports Auth_Sessions
begin

text \<open>
  Single-use tokens, two-factor codes and challenges, sign-up and the lockout: what the calls did when they
  returned.
\<close>

section \<open>Password reset\<close>

lemma rt_find_ok [auth_ok]:
  "rt_find h s = (Inr r, t) \<longleftrightarrow>
     \<not> fails s (calls s) \<and> find (\<lambda>r. rt_hash r = h) (au_resets s) = Some r \<and> t = s\<lparr>calls := Suc (calls s)\<rparr>"
  by (auto simp: rt_find_def db_call_Inr_iff split: option.splits)

lemma reset_prepare_found:
  assumes "reset_prepare E raw password confirm s = (Inr (q, h, now), t)"
  shows "find (\<lambda>r. rt_hash r = ae_HashResetToken E (trim_space raw)) (au_resets s) = Some q \<and> rt_purpose q = PurposePasswordReset \<and>
     rt_used q = None \<and> now = ae_clock E 0 \<and> now < rt_expires q \<and> h = ae_Hash E password \<and> unchanged s t"
  using assms
  by (auto simp: reset_prepare_def passwordResetToken_def validatePasswordStrength_def Let_def andthen_Inr_iff rt_find_ok au_ext_ok
        result_iffs split: if_splits)

definition reset_done :: "uuid \<Rightarrow> string \<Rightarrow> instant \<Rightarrow> auth_store \<Rightarrow> auth_store" where
  "reset_done u h now s =
     s\<lparr>au_users := map (\<lambda>x. if us_live x \<and> us_uuid x = u
                            then x\<lparr>us_password := h, us_pw_changed := Some now, us_updated := now\<rparr> else x) (au_users s),
       au_resets := map (\<lambda>r. if (rt_user r = u \<and> rt_purpose r = PurposePasswordReset) \<and> rt_used r = None
                             then r\<lparr>rt_used := Some now\<rparr> else r) (au_resets s),
       au_sessions := map (\<lambda>r. if rs_user r = u \<and> rs_revoked r = None then r\<lparr>rs_revoked := Some now\<rparr> else r) (au_sessions s)\<rparr>"

lemma reset_done_password:
  assumes "u \<in> set (au_users (reset_done v k w z))" "us_live u \<and> us_uuid u = v"
  shows "us_password u = k"
proof -
  let ?f = "\<lambda>x. if us_live x \<and> us_uuid x = v then x\<lparr>us_password := k, us_pw_changed := Some w, us_updated := w\<rparr> else x"
  have "au_users (reset_done v k w z) = map ?f (au_users z)" by (simp add: reset_done_def)
  then have "u \<in> ?f ` set (au_users z)" using assms(1) by simp
  then obtain x where x: "u = ?f x" by (rule imageE)
  then show ?thesis using assms(2) by (cases "us_live x \<and> us_uuid x = v") simp_all
qed

lemma reset_finish_ok:
  "reset_finish (q, h, now) s = (Inr v, t) \<Longrightarrow> t = (reset_done (rt_user q) h now s)\<lparr>calls := calls t\<rparr>"
  by (auto simp: reset_finish_def andthen_Inr_iff UpdatePassword_def RevokePending_def RevokeAllForUser_def rt_write_def ss_write_def
        db_call_Inr_iff result_iffs us_write_def reset_done_def)

lemma reset_finish_returns: "(\<And>n. \<not> fails s n) \<Longrightarrow> \<exists>t. reset_finish x s = (Inr (), t)"
  by (cases x) (simp add: reset_finish_def UpdatePassword_def RevokePending_def RevokeAllForUser_def rt_write_def ss_write_def
        us_write_def andthen_def db_call_def change_def)

lemma find_reset:
  assumes "auth_inv s"
  shows "find (\<lambda>r. rt_hash r = h) (au_resets s) = Some r \<longleftrightarrow> r \<in> set (au_resets s) \<and> rt_hash r = h"
  by (rule find_keyed) (use assms in \<open>simp add: auth_inv_def resets_inv_def\<close>)

lemma used_token_refused:
  assumes "auth_inv s" "q \<in> set (au_resets s)" "rt_hash q = ae_HashResetToken E (trim_space raw)" "rt_used q \<noteq> None"
  shows "isl (fst (ResetPassword E raw password confirm s))"
proof (rule ccontr)
  assume "\<not> isl (fst (ResetPassword E raw password confirm s))"
  then obtain v t where "ResetPassword E raw password confirm s = (Inr v, t)"
    by (cases "ResetPassword E raw password confirm s"; cases "fst (ResetPassword E raw password confirm s)") auto
  then obtain q' h now u where "reset_prepare E raw password confirm s = (Inr (q', h, now), u)"
    by (auto simp: ResetPassword_def andthen_Inr_iff)
  then have "find (\<lambda>r. rt_hash r = ae_HashResetToken E (trim_space raw)) (au_resets s) = Some q'" "rt_used q' = None"
    using reset_prepare_found [of E raw password confirm s q' h now u] by blast+
  moreover have "find (\<lambda>r. rt_hash r = ae_HashResetToken E (trim_space raw)) (au_resets s) = Some q"
    using find_reset [OF assms(1)] assms(2,3) by blast
  ultimately show False using assms(4) by simp
qed

lemma token_later:
  assumes "auth_evolves s t" "q \<in> set (au_resets s)"
  obtains r where "r \<in> set (au_resets t)" "token_le q r"
proof -
  have "grows token_le (au_resets s) (au_resets t)" using assms(1) by (simp add: auth_evolves_def)
  then show ?thesis using assms(2) by (rule grows_mem) (rule that)
qed

section \<open>What requests leave of enrollments and challenges\<close>

lemma steps_mono: "(\<And>s t. R s t \<Longrightarrow> R' s t) \<Longrightarrow> steps R m \<Longrightarrow> steps R' m"
  by (simp add: steps_def)

text \<open>Writes of the other tables.\<close>

definition aside :: "auth_store \<Rightarrow> auth_store \<Rightarrow> bool" where
  "aside s t \<longleftrightarrow> au_methods t = au_methods s \<and> au_challenges t = au_challenges s"

interpretation aside_steps: stepwise aside
  by unfold_locales (simp_all add: aside_def)

named_theorems aside_writes

lemma aside_redis: "(\<And>now. steps aside (f now)) \<Longrightarrow> steps aside (redis_call f)"
  using aside_steps.steps_db_call unfolding redis_call_def steps_def by blast

lemma aside_user_writes [aside_writes]: "steps aside (RecordLogin u w)" "steps aside (UpdatePassword u h w)" "steps aside (us_Create x)"
  "steps aside (UpdateEmail u e w)"
  unfolding RecordLogin_def UpdatePassword_def us_Create_def UpdateEmail_def us_write_def
  by (intro aside_steps.steps_db_call stepsI; simp add: aside_def change_run)+

lemma aside_session_writes [aside_writes]: "steps aside (ss_Create r)" "steps aside (ss_Revoke u w)" "steps aside (RevokeFamily u fam w)"
  "steps aside (RevokeAllForUser u w)" "steps aside (ss_Replace old new w)"
  unfolding ss_Create_def ss_Revoke_def RevokeFamily_def RevokeAllForUser_def ss_Replace_def ss_write_def Let_def
  by (intro aside_steps.steps_intros reads_lookups [THEN aside_steps.steps_reads] stepsI; simp add: aside_def change_run)+

lemma aside_token_writes [aside_writes]: "steps aside (rt_Create q)" "steps aside (MarkUsed u w)" "steps aside (RevokePending u p w)"
  "steps aside (rg_Create g n)" "steps aside (rg_Consume h)"
  unfolding rt_Create_def MarkUsed_def RevokePending_def rt_write_def rg_Create_def rg_Consume_def Let_def
  by (intro aside_steps.steps_intros reads_lookups [THEN aside_steps.steps_reads] stepsI; simp add: aside_def change_run)+

lemma aside_code_writes [aside_writes]: "steps aside (UseBackupCode u h w)" "steps aside (drop_codes u)" "steps aside (insertBackupCodes u hs)"
  unfolding UseBackupCode_def drop_codes_def insertBackupCodes_def Let_def
  by (intro aside_steps.steps_intros stepsI; simp add: aside_def change_run)+

lemma aside_ReplaceBackupCodes [aside_writes]: "steps aside (ReplaceBackupCodes u hs)"
  unfolding ReplaceBackupCodes_def by (intro aside_steps.steps_intros reads_lookups [THEN aside_steps.steps_reads] aside_code_writes)

lemma aside_link_writes [aside_writes]: "steps aside (oi_Link u l)" "steps aside (oi_Touch a b w)"
  unfolding oi_Link_def oi_Touch_def
  by (intro aside_steps.steps_intros reads_lookups [THEN aside_steps.steps_reads] stepsI; simp add: aside_def change_run)+

lemma aside_redis_writes [aside_writes]: "steps aside (ch_Get h)" "steps aside (st_Save h v d)" "steps aside (st_Consume h)"
  "steps aside (lk_Locked key)" "steps aside (lk_Reset key)"
  unfolding ch_Get_def st_Save_def st_Consume_def lk_Locked_def lk_Reset_def
  by (intro aside_redis stepsI; simp add: aside_def change_run split: option.split)+

lemma aside_Fail [aside_writes]: "steps aside (lk_Fail c d key)"
  unfolding lk_Fail_def
  by (intro aside_steps.steps_intros aside_redis stepsI; simp add: aside_def change_run split: option.split prod.split)+

lemma aside_port_writes [aside_writes]: "steps aside (au_record ev)" "steps aside (au_mail m)" "steps aside au_invalidate"
  unfolding au_record_def au_mail_def au_invalidate_def
  by (intro aside_steps.steps_intros stepsI; simp add: aside_def change_run)+

section \<open>Two-factor codes\<close>

lemma find_method:
  assumes "auth_inv s" "m \<in> set (au_methods s)"
  shows "filter (\<lambda>x. tf_user x = tf_user m) (au_methods s) = [m]"
  by (rule filter_keyed) (use assms in \<open>simp_all add: auth_inv_def enrollments_inv_def\<close>)

text \<open>The account is enrolled and every step up to \<open>n\<close> is spent.\<close>

definition spent :: "uuid \<Rightarrow> int \<Rightarrow> auth_store \<Rightarrow> bool" where
  "spent u n s \<longleftrightarrow> (\<exists>m \<in> set (au_methods s). tf_user m = u \<and> Enabled m \<and> n \<le> tf_step m)"

definition one_each :: "auth_store \<Rightarrow> bool" where
  "one_each s \<longleftrightarrow> distinct (map tf_user (au_methods s))"

definition spent_step :: "uuid \<Rightarrow> int \<Rightarrow> auth_store \<Rightarrow> auth_store \<Rightarrow> bool" where
  "spent_step u n s t \<longleftrightarrow> (one_each s \<longrightarrow> one_each t \<and> (spent u n s \<longrightarrow> spent u n t))"

interpretation spent_steps: stepwise "spent_step u n" for u n
  by unfold_locales (simp_all add: spent_step_def spent_def one_each_def)

lemma spent_aside: "steps aside m \<Longrightarrow> steps (spent_step u n) m"
  by (simp add: steps_def aside_def spent_step_def spent_def one_each_def)

lemma spent_map:
  assumes "\<And>m. tf_user (f m) = tf_user m"
    "\<And>m. one_each s \<Longrightarrow> m \<in> set (au_methods s) \<Longrightarrow> Enabled m \<Longrightarrow> tf_user m = u \<Longrightarrow> Enabled (f m) \<and> tf_step m \<le> tf_step (f m)"
  shows "spent_step u n s (s\<lparr>au_methods := map f (au_methods s)\<rparr>)"
proof -
  have "spent u n (s\<lparr>au_methods := map f (au_methods s)\<rparr>)" if "one_each s" "spent u n s"
  proof -
    obtain m where m: "m \<in> set (au_methods s)" "tf_user m = u" "Enabled m" "n \<le> tf_step m" using \<open>spent u n s\<close> by (auto simp: spent_def)
    then have "f m \<in> set (map f (au_methods s))" "tf_user (f m) = u" "Enabled (f m)" "n \<le> tf_step (f m)"
      using assms(1) assms(2) [OF that(1) m(1,3,2)] by auto
    then show ?thesis unfolding spent_def by auto
  qed
  then show ?thesis using assms(1) by (simp add: spent_step_def one_each_def comp_def)
qed

lemma spent_SavePending: "steps (spent_step u n) (SavePending v y)"
proof -
  have new: "spent_step u n s (s\<lparr>au_methods := au_methods s @ [\<lparr>tf_user = v, tf_secret = y, tf_confirmed = None, tf_step = 0\<rparr>]\<rparr>)"
    if "find (\<lambda>m. tf_user m = v) (au_methods s) = None" for s
    using that by (auto simp: spent_step_def spent_def one_each_def find_None_iff)
  have old: "spent_step u n s (s\<lparr>au_methods := map (\<lambda>m. if tf_user m = v then m\<lparr>tf_secret := y, tf_step := 0\<rparr> else m) (au_methods s)\<rparr>)"
    if f: "find (\<lambda>m. tf_user m = v) (au_methods s) = Some x" and "tf_confirmed x = None" for s x
  proof (rule spent_map)
    fix m assume m: "one_each s" "m \<in> set (au_methods s)" "Enabled m" "tf_user m = u"
    have "m = x" if "tf_user m = v"
    proof -
      have "find (\<lambda>m. tf_user m = v) (au_methods s) = Some m" using iffD2 [OF find_keyed [OF m(1) [unfolded one_each_def]] conjI [OF m(2) that]] .
      then show ?thesis using f by simp
    qed
    then show "Enabled (if tf_user m = v then m\<lparr>tf_secret := y, tf_step := 0\<rparr> else m) \<and>
        tf_step m \<le> tf_step (if tf_user m = v then m\<lparr>tf_secret := y, tf_step := 0\<rparr> else m)"
      using \<open>tf_confirmed x = None\<close> m(3) by (auto simp: Enabled_def)
  qed simp
  show ?thesis unfolding SavePending_def
    by (intro spent_steps.steps_intros reads_lookups [THEN spent_steps.steps_reads] spent_aside [OF aside_code_writes(2)] stepsI)
       (simp add: new old spent_steps.step_refl split: option.split)
qed

lemma spent_enrollment: "steps (spent_step u n) (tf_Confirm v j hs w)" "steps (spent_step u n) (UseStep v j)"
  "v \<noteq> u \<Longrightarrow> steps (spent_step u n) (tf_Delete v)"
proof -
  have "spent_step u n s (s\<lparr>au_methods := map (\<lambda>m. if tf_user m = v \<and> tf_confirmed m = None \<and> tf_step m < j
      then m\<lparr>tf_confirmed := Some w, tf_step := j\<rparr> else m) (au_methods s)\<rparr>)" for s
    by (rule spent_map) (auto simp: Enabled_def)
  then show "steps (spent_step u n) (tf_Confirm v j hs w)" unfolding tf_Confirm_def Let_def
    by (intro spent_steps.steps_intros reads_lookups [THEN spent_steps.steps_reads] spent_aside [OF aside_code_writes(3)] stepsI) simp
  have "spent_step u n s (s\<lparr>au_methods := map (\<lambda>m. if tf_user m = v \<and> tf_step m < j then m\<lparr>tf_step := j\<rparr> else m) (au_methods s)\<rparr>)" for s
    by (rule spent_map) (auto simp: Enabled_def)
  then show "steps (spent_step u n) (UseStep v j)" unfolding UseStep_def Let_def by (intro spent_steps.steps_intros stepsI) simp
  have "spent_step u n s (s\<lparr>au_methods := filter (\<lambda>m. tf_user m \<noteq> v) (au_methods s)\<rparr>)" if "v \<noteq> u" for s
    using that by (auto simp: spent_step_def spent_def one_each_def distinct_map_filtered)
  then show "v \<noteq> u \<Longrightarrow> steps (spent_step u n) (tf_Delete v)" unfolding tf_Delete_def
    by (intro spent_steps.steps_intros reads_lookups [THEN spent_steps.steps_reads] spent_aside [OF aside_code_writes(2)]
          spent_steps.steps_change)
qed

lemma spent_challenges: "steps (spent_step u n) (ch_Save h l d)" "steps (spent_step u n) (ch_Attempt h)" "steps (spent_step u n) (ch_Consume h)"
proof -
  have r: "(\<And>now. steps (spent_step u n) (f now)) \<Longrightarrow> steps (spent_step u n) (redis_call f)" for f :: "instant \<Rightarrow> 'x auth_comp"
    using spent_steps.steps_db_call unfolding redis_call_def steps_def by blast
  show "steps (spent_step u n) (ch_Save h l d)" "steps (spent_step u n) (ch_Attempt h)" "steps (spent_step u n) (ch_Consume h)"
    unfolding ch_Save_def ch_Attempt_def ch_Consume_def
    by (intro r stepsI; simp add: spent_step_def spent_def one_each_def change_run split: option.split)+
qed

lemma spent_grants: "spent_step u n s (s\<lparr>au_grants := gs\<rparr>)"
  by (simp add: spent_step_def spent_def one_each_def)

interpretation spent_writes: auth_frame "spent_step u n" "\<lambda>h. True" "\<lambda>h. True" "\<lambda>v. v \<noteq> u" for u n
  by unfold_locales (rule aside_writes [THEN spent_aside] spent_SavePending spent_enrollment spent_challenges spent_grants | assumption)+


text \<open>The step a code stands for at the time of the request, if any.\<close>

definition totp_step :: "auth_env \<Rightarrow> nat \<Rightarrow> tf_method \<Rightarrow> string \<Rightarrow> int option" where
  "totp_step E k m code = (case ae_Decrypt E (tf_secret m) of
     None \<Rightarrow> None | Some secret \<Rightarrow> totp_Validate E secret code (ae_clock E k) 1)"

lemma checkTOTP_ok: "checkTOTP E k m code s = (Inr n, t) \<longleftrightarrow> totp_step E k m code = Some n \<and> tf_step m < n \<and> t = s"
  by (auto simp: checkTOTP_def totp_step_def result_iffs split: option.splits)

lemma useTOTP_found:
  assumes "useTOTP E k m code s = (Inr v, t)"
  shows "\<exists>n. totp_step E k m code = Some n \<and> length (filter (\<lambda>x. tf_user x = tf_user m \<and> tf_step x < n) (au_methods s)) = 1 \<and>
     t = s\<lparr>calls := Suc (calls s), au_methods := map (\<lambda>x. if tf_user x = tf_user m \<and> tf_step x < n then x\<lparr>tf_step := n\<rparr> else x) (au_methods s)\<rparr>"
  using assms by (auto simp: useTOTP_def andthen_Inr_iff checkTOTP_ok UseStep_def db_call_Inr_iff Let_def result_iffs split: if_splits)

lemma spent_row: "one_each s \<Longrightarrow> spent u n s \<Longrightarrow> filter (\<lambda>x. tf_user x = u \<and> tf_step x < j) (au_methods s) = [] \<or> n < j"
proof -
  assume o: "one_each s" and "spent u n s"
  then obtain m where m: "m \<in> set (au_methods s)" "tf_user m = u" "n \<le> tf_step m" by (auto simp: spent_def)
  have "filter (\<lambda>x. tf_user x = u) (au_methods s) = [m]"
    using filter_keyed [OF o [unfolded one_each_def] m(1)] m(2) by simp
  then have "filter (\<lambda>x. tf_step x < j) [m] = filter (\<lambda>x. tf_user x = u \<and> tf_step x < j) (au_methods s)"
    by (metis filter_filter)
  then show ?thesis using m(3) by (auto split: if_splits)
qed

lemma spent_refused:
  assumes "one_each s" "spent (tf_user m) n s" "totp_step E k m code = Some j" "j \<le> n"
  shows "isl (fst (useTOTP E k m code s))"
proof (rule ccontr)
  assume "\<not> isl (fst (useTOTP E k m code s))"
  then obtain v t where "useTOTP E k m code s = (Inr v, t)"
    by (cases "useTOTP E k m code s"; cases "fst (useTOTP E k m code s)") auto
  then show False using useTOTP_found [of E k m code s v t] spent_row [OF assms(1,2), of j] assms(3,4) by auto
qed

section \<open>Challenges\<close>

text \<open>The challenge \<open>h\<close> is as it was, or gone.\<close>

definition fades :: "string \<Rightarrow> auth_store \<Rightarrow> auth_store \<Rightarrow> bool" where
  "fades h s t \<longleftrightarrow> au_challenges t h = au_challenges s h \<or> au_challenges t h = None"

interpretation fade_steps: stepwise "fades h" for h
  by unfold_locales (auto simp: fades_def)

lemma fades_aside: "steps aside m \<Longrightarrow> steps (fades h) m"
  by (simp add: steps_def aside_def fades_def)

lemma fades_redis: "(\<And>now. steps (fades h) (f now)) \<Longrightarrow> steps (fades h) (redis_call f)"
  using fade_steps.steps_db_call unfolding redis_call_def steps_def by blast

lemma fades_enrollment: "steps (fades h) (SavePending u y)" "steps (fades h) (tf_Confirm u j hs w)" "steps (fades h) (UseStep u j)"
  "steps (fades h) (tf_Delete u)"
  unfolding SavePending_def tf_Confirm_def UseStep_def tf_Delete_def Let_def
  by (intro fade_steps.steps_intros reads_lookups [THEN fade_steps.steps_reads] aside_code_writes [THEN fades_aside] stepsI;
      simp add: fades_def change_run split: option.split)+

lemma fades_challenges: "h' \<noteq> h \<Longrightarrow> steps (fades h) (ch_Save h' l d)" "h' \<noteq> h \<Longrightarrow> steps (fades h) (ch_Attempt h')"
  "steps (fades h) (ch_Consume h')"
  unfolding ch_Save_def ch_Attempt_def ch_Consume_def
  by (intro fades_redis stepsI; simp add: fades_def change_run split: option.split prod.split)+

lemma fades_grants: "fades h s (s\<lparr>au_grants := gs\<rparr>)"
  by (simp add: fades_def)

interpretation fade_writes: auth_frame "fades h" "\<lambda>h'. h' \<noteq> h" "\<lambda>h'. h' \<noteq> h" "\<lambda>u. True" for h
  by unfold_locales (rule aside_writes [THEN fades_aside] fades_enrollment fades_challenges fades_grants | assumption)+


definition second_factor :: "auth_env \<Rightarrow> string \<Rightarrow> pending_login \<Rightarrow> int \<Rightarrow> string \<Rightarrow> token_pair auth_comp" where
  "second_factor E h l n code =
     andthen (attempt (verifyCode E 0 (pl_user l) code)) (\<lambda>r.
     andthen (case r of Inl e \<Rightarrow> challenge_failed h n e | Inr _ \<Rightarrow> ret ()) (\<lambda>_.
     andthen (ch_Consume h) (\<lambda>consumed.
     if \<not> consumed then throw ChallengeInvalid
     else
     andthen (activeUser (pl_user l)) (\<lambda>u.
     completeLogin E 1 u (pl_agent l) (pl_ip l) (pl_remember l)))))"

lemma CompleteTwoFactor_parts:
  "CompleteTwoFactor E token code =
     andthen (twoFactorReady E) (\<lambda>_. andthen (ch_Get (ae_sha256 E (trim_space token))) (\<lambda>l.
     andthen (ch_Attempt (ae_sha256 E (trim_space token))) (\<lambda>n.
     if n > maxChallengeAttempts then andthen (attempt (ch_Consume (ae_sha256 E (trim_space token)))) (\<lambda>_. throw ChallengeInvalid)
     else second_factor E (ae_sha256 E (trim_space token)) l n code)))"
  unfolding CompleteTwoFactor_def second_factor_def Let_def by (rule refl)

lemma fades_second_factor: "steps (fades h) (second_factor E h l n code)"
  unfolding second_factor_def challenge_failed_def by (intro fade_writes.parts fades_challenges)

lemma ch_Get_cases: "ch_Get h s = (v, t) \<Longrightarrow> au_challenges t = au_challenges s \<and> v \<noteq> Inl (Err TfInvalidCode)"
  by (auto simp: ch_Get_def redis_call_def db_call_def Let_def split: option.splits prod.splits if_splits)

lemma ch_Attempt_cases:
  assumes "ch_Attempt h s = (v, t)"
  obtains e where "v = Inl e" "e \<noteq> Err TfInvalidCode" "au_challenges t = au_challenges s"
  | l n until where "v = Inr (n + 1)" "au_challenges s h = Some (l, n, until)" "au_challenges t h = Some (l, n + 1, until)"
  using assms
  by (auto simp: ch_Attempt_def redis_call_def db_call_def Let_def ch_live_def split: option.splits prod.splits if_splits)

lemma ch_Attempt_Inr:
  assumes "ch_Attempt h s = (Inr k, t)"
  shows "\<exists>l n until. k = n + 1 \<and> au_challenges s h = Some (l, n, until) \<and> au_challenges t h = Some (l, n + 1, until)"
  using assms by (cases rule: ch_Attempt_cases) auto

text \<open>How many more codes the challenge lets one try.\<close>

definition tries_left :: "string \<Rightarrow> auth_store \<Rightarrow> nat" where
  "tries_left h s = (case au_challenges s h of None \<Rightarrow> 0 | Some (l, n, until) \<Rightarrow> nat (maxChallengeAttempts - n))"

text \<open>The request told whether its code was right.\<close>

definition answered :: "auth_error failure + 'a \<Rightarrow> bool" where
  "answered r \<longleftrightarrow> \<not> isl r \<or> r = Inl (Err TfInvalidCode)"

lemma tries_fade: "fades h s t \<Longrightarrow> tries_left h t \<le> tries_left h s"
  by (auto simp: fades_def tries_left_def)

lemma tries_same: "au_challenges t = au_challenges s \<Longrightarrow> tries_left h t = tries_left h s"
  by (simp add: tries_left_def)

lemma second_factor_closes:
  assumes "second_factor E h l n code s = (Inr p, t)"
  shows "au_challenges t h = None"
proof -
  let ?rest = "\<lambda>_. andthen (activeUser (pl_user l)) (\<lambda>u. completeLogin E 1 u (pl_agent l) (pl_ip l) (pl_remember l))"
  obtain s1 s2 where c: "ch_Consume h s1 = (Inr True, s2)" and r: "?rest () s2 = (Inr p, t)"
    using assms by (auto simp: second_factor_def andthen_Inr_iff result_iffs split: if_splits)
  have "au_challenges s2 h = None" using c by (auto simp: ch_Consume_def redis_call_def db_call_Inr_iff)
  moreover have "steps (fades h) (?rest ())" by (intro fade_writes.parts)
  ultimately show ?thesis using stepsD [of "fades h" "?rest ()" s2] r by (auto simp: fades_def)
qed

lemma guess_closes:
  assumes "CompleteTwoFactor E token code s = (Inr p, t)"
  shows "au_challenges t (ae_sha256 E (trim_space token)) = None"
  using assms second_factor_closes unfolding CompleteTwoFactor_parts
  by (auto simp: andthen_Inr_iff result_iffs split: if_splits)

lemma guess_cases:
  assumes "CompleteTwoFactor E token code s = (r, t)"
  obtains "\<not> answered r" "au_challenges t = au_challenges s"
  | l n s1 s2 where "au_challenges s1 = au_challenges s" "ch_Attempt (ae_sha256 E (trim_space token)) s1 = (Inr n, s2)"
      "(if n > maxChallengeAttempts then andthen (attempt (ch_Consume (ae_sha256 E (trim_space token)))) (\<lambda>_. throw ChallengeInvalid)
        else second_factor E (ae_sha256 E (trim_space token)) l n code) s2 = (r, t)"
proof -
  let ?h = "ae_sha256 E (trim_space token)"
  let ?f = "\<lambda>l n. if n > maxChallengeAttempts then andthen (attempt (ch_Consume ?h)) (\<lambda>_. throw ChallengeInvalid) else second_factor E ?h l n code"
  consider "r = Inl (Err TfUnavailable)" "t = s" | v s1 where "ch_Get ?h s = (v, s1)" "(case v of Inl e \<Rightarrow> (Inl e, s1) | Inr l \<Rightarrow> andthen (ch_Attempt ?h) (?f l) s1) = (r, t)"
    using assms unfolding CompleteTwoFactor_parts
    by (cases "ch_Get ?h s"; cases "ae_box E"; cases "fst (ch_Get ?h s)") (auto simp: twoFactorReady_def andthen_def ret_def throw_def)
  then show ?thesis
  proof cases
    case 1
    then show ?thesis using that(1) by (simp add: answered_def)
  next
    case 2
    note g = ch_Get_cases [OF 2(1)]
    show ?thesis
    proof (cases v)
      case (Inl e)
      then show ?thesis using 2(2) g that(1) by (auto simp: answered_def)
    next
      case (Inr l)
      obtain w s2 where w: "ch_Attempt ?h s1 = (w, s2)" by (rule prod.exhaust)
      show ?thesis
      proof (cases w)
        case (Inl e)
        have "e \<noteq> Err TfInvalidCode" "au_challenges s2 = au_challenges s1" using ch_Attempt_cases [OF w] Inl by blast+
        then show ?thesis using 2(2) Inr Inl w g that(1) by (auto simp: answered_def andthen_def)
      next
        case (Inr n)
        then show ?thesis using 2(2) \<open>v = Inr l\<close> w g that(2) [of s1 n s2 l] by (simp add: andthen_def)
      qed
    qed
  qed
qed

lemma guess_budget:
  assumes "CompleteTwoFactor E token code s = (r, t)"
  shows "tries_left (ae_sha256 E (trim_space token)) t + (if answered r then 1 else 0) \<le> tries_left (ae_sha256 E (trim_space token)) s"
  using assms
proof (cases rule: guess_cases)
  case 1
  then show ?thesis using tries_same [OF 1(2), of "ae_sha256 E (trim_space token)"] by simp
next
  case (2 l n s1 s2)
  let ?h = "ae_sha256 E (trim_space token)"
  obtain l' m until where m: "n = m + 1" "au_challenges s1 ?h = Some (l', m, until)" "au_challenges s2 ?h = Some (l', m + 1, until)"
    using ch_Attempt_Inr [OF 2(2)] by blast
  then have left: "tries_left ?h s = nat (maxChallengeAttempts - m)" "tries_left ?h s2 = nat (maxChallengeAttempts - n)"
    using 2(1) by (simp_all add: tries_left_def)
  show ?thesis
  proof (cases "n > maxChallengeAttempts")
    case True
    have "steps (fades ?h) (andthen (attempt (ch_Consume ?h)) (\<lambda>_. throw ChallengeInvalid :: token_pair auth_comp))"
      by (intro fade_writes.parts fades_challenges)
    from stepsD [OF this, of s2] have "fades ?h s2 t" using 2(3) True by simp
    then have "tries_left ?h t \<le> tries_left ?h s2" by (rule tries_fade)
    moreover have "\<not> answered r" using 2(3) True by (auto simp: answered_def andthen_def attempt_def throw_def split: prod.splits)
    ultimately show ?thesis using left m(1) by simp
  next
    case False
    then have "fades ?h s2 t" using stepsD [OF fades_second_factor [of ?h E l n code], of s2] 2(3) by simp
    then have "tries_left ?h t \<le> tries_left ?h s2" by (rule tries_fade)
    then show ?thesis using left m(1) False by (simp, linarith)
  qed
qed


text \<open>The requests of a run that try a code for the challenge \<open>h\<close> and are told whether it is right.\<close>

fun guesses :: "string \<Rightarrow> auth_op \<Rightarrow> bool" where
  "guesses h (AuTwoFactor E token code) = (ae_sha256 E (trim_space token) = h)"
| "guesses h x = False"

primrec answers :: "string \<Rightarrow> auth_op list \<Rightarrow> auth_store \<Rightarrow> nat" where
  "answers h [] s = 0"
| "answers h (x # xs) s =
     (if guesses h x \<and> answered (fst (auth_run x s)) then 1 else 0) + answers h xs (snd (auth_run x s))"

lemma drop_run: "drop_result m s = (case m s of (Inl e, t) \<Rightarrow> (Inl e, t) | (Inr x, t) \<Rightarrow> (Inr (), t))"
  by (simp add: drop_result_def andthen_def ret_def split: prod.split sum.split)

lemma step_budget:
  assumes "op_within (\<lambda>h'. h' \<noteq> h) (\<lambda>h'. True) (\<lambda>u. True) x"
  shows "tries_left h (snd (auth_run x s)) + (if guesses h x \<and> answered (fst (auth_run x s)) then 1 else 0) \<le> tries_left h s"
proof (cases "guesses h x")
  case True
  then obtain E token code where x: "x = AuTwoFactor E token code" "ae_sha256 E (trim_space token) = h" by (cases x) auto
  obtain r t where r: "CompleteTwoFactor E token code s = (r, t)" by (rule prod.exhaust)
  show ?thesis using guess_budget [OF r] x by (cases r) (simp_all add: drop_run r answered_def)
next
  case False
  then have "op_within (\<lambda>h'. h' \<noteq> h) (\<lambda>h'. h' \<noteq> h) (\<lambda>u. True) x" using assms by (cases x) auto
  from stepsD [OF fade_writes.keeps_op [OF this]] have "fades h s (snd (auth_run x s))" .
  then have "tries_left h (snd (auth_run x s)) \<le> tries_left h s" by (rule tries_fade)
  then show ?thesis using False by simp
qed

lemma run_budget:
  "list_all (op_within (\<lambda>h'. h' \<noteq> h) (\<lambda>h'. True) (\<lambda>u. True)) xs \<Longrightarrow> answers h xs s \<le> tries_left h s"
proof (induction xs arbitrary: s)
  case (Cons x xs)
  then have "answers h xs (snd (auth_run x s)) \<le> tries_left h (snd (auth_run x s))" by simp
  moreover have "op_within (\<lambda>h'. h' \<noteq> h) (\<lambda>h'. True) (\<lambda>u. True) x" using Cons.prems by simp
  ultimately show ?case using step_budget [of h x s] by simp
qed simp

lemma right_code_closes:
  assumes "guesses h x" "\<not> isl (fst (auth_run x s))"
  shows "tries_left h (snd (auth_run x s)) = 0"
proof -
  obtain E token code where x: "x = AuTwoFactor E token code" "ae_sha256 E (trim_space token) = h" using assms(1) by (cases x) auto
  obtain r t where r: "CompleteTwoFactor E token code s = (r, t)" by (rule prod.exhaust)
  then obtain p where "r = Inr p" using assms(2) x by (cases r) (simp_all add: drop_run)
  then show ?thesis using guess_closes [of E token code s p t] r x by (simp add: drop_run tries_left_def)
qed


section \<open>Sign-up\<close>

lemma rg_find_ok [auth_ok]:
  "rg_find h s = (Inr r, t) \<longleftrightarrow>
     \<not> fails s (calls s) \<and> find (\<lambda>r. rg_hash r = h) (au_registrations s) = Some r \<and> t = s\<lparr>calls := Suc (calls s)\<rparr>"
  by (auto simp: rg_find_def db_call_Inr_iff split: option.splits)

lemma reads_redis: "(\<And>now. reads (f now)) \<Longrightarrow> reads (redis_call f)"
  using reads_db_call unfolding redis_call_def reads_def by blast

lemma reads_checkLocked [reads_intros]: "reads (checkLocked E email)"
  unfolding checkLocked_def lk_Locked_def by (intro reads_intros reads_redis readsI) (simp split: option.split)

text \<open>The account of a sign-up, once it has signed in.\<close>

definition signed_up :: "auth_env \<Rightarrow> registration \<Rightarrow> au_user" where
  "signed_up E g = (fresh_user (ae_ids E 0) (rg_email g) (rg_username g) (rg_fullname g) (rg_password g) (Some (ae_clock E 1)) (ae_clock E 1))
     \<lparr>us_last_login := Some (ae_clock E 2), us_logins := 1, us_updated := ae_clock E 2\<rparr>"

lemma us_Create_ok:
  "us_Create u s = (Inr x, t) \<longleftrightarrow> \<not> fails s (calls s) \<and> x = u \<and> us_uuid u \<notin> us_uuid ` set (au_users s) \<and>
     \<not> list_ex (\<lambda>r. us_live r \<and> au_pg s (us_email r) = au_pg s (us_email u)) (au_users s) \<and>
     \<not> list_ex (\<lambda>r. us_live r \<and> au_pg s (us_username r) = au_pg s (us_username u)) (au_users s) \<and>
     t = s\<lparr>calls := Suc (calls s), au_users := au_users s @ [u]\<rparr>"
  by (auto simp: us_Create_def db_call_Inr_iff split: if_splits)

lemma createRegisteredUser_found:
  assumes "auth_inv s" "g \<in> set (au_registrations s)" "createRegisteredUser E g s = (Inr u, t)"
  shows "u = fresh_user (ae_ids E 0) (rg_email g) (rg_username g) (rg_fullname g) (rg_password g) (Some (ae_clock E 1)) (ae_clock E 1) \<and>
     ae_ids E 0 \<notin> us_uuid ` set (au_users s) \<and>
     \<not> list_ex (\<lambda>r. us_live r \<and> au_pg s (us_email r) = au_pg s (rg_email g)) (au_users s) \<and>
     (\<exists>n. t = s\<lparr>calls := n, au_users := au_users s @ [u],
           au_registrations := filter (\<lambda>r. au_pg s (rg_email r) \<noteq> au_pg s (rg_email g)) (au_registrations s),
           au_events := au_events s @ [userCreatedEvent u []]\<rparr>)"
proof -
  have "distinct (map rg_hash (au_registrations s))" using assms(1) by (simp add: auth_inv_def)
  then have one: "filter (\<lambda>r. rg_hash r = rg_hash g) (au_registrations s) = [g]" using assms(2) by (rule filter_keyed)
  have "filter (\<lambda>r. rg_hash r \<noteq> rg_hash g \<and> au_pg s (rg_email r) \<notin> (\<lambda>q. au_pg s (rg_email q)) ` set [g]) (au_registrations s) =
      filter (\<lambda>r. au_pg s (rg_email r) \<noteq> au_pg s (rg_email g)) (au_registrations s)"
  proof (rule filter_cong)
    fix r assume r: "r \<in> set (au_registrations s)"
    have "r = g" if "rg_hash r = rg_hash g"
    proof -
      have "r \<in> set (filter (\<lambda>r. rg_hash r = rg_hash g) (au_registrations s))" using r that by simp
      then show ?thesis unfolding one by simp
    qed
    then show "(rg_hash r \<noteq> rg_hash g \<and> au_pg s (rg_email r) \<notin> (\<lambda>q. au_pg s (rg_email q)) ` set [g]) =
        (au_pg s (rg_email r) \<noteq> au_pg s (rg_email g))" by auto
  qed simp
  then have c: "rg_Consume (rg_hash g) s = (Inr True, s\<lparr>calls := Suc (calls s),
      au_registrations := filter (\<lambda>r. au_pg s (rg_email r) \<noteq> au_pg s (rg_email g)) (au_registrations s)\<rparr>)"
    if "\<not> fails s (calls s)" using one that by (simp add: rg_Consume_def db_call_def Let_def del: set_filter)
  have "\<not> fails s (calls s)"
    using assms(3) by (auto simp: createRegisteredUser_def within_tx_Inr_iff andthen_Inr_iff rg_Consume_def db_call_Inr_iff)
  then have "u = fresh_user (ae_ids E 0) (rg_email g) (rg_username g) (rg_fullname g) (rg_password g) (Some (ae_clock E 1)) (ae_clock E 1) \<and>
     ae_ids E 0 \<notin> us_uuid ` set (au_users s) \<and>
     \<not> list_ex (\<lambda>r. us_live r \<and> au_pg s (us_email r) = au_pg s (rg_email g)) (au_users s) \<and>
     t = s\<lparr>calls := calls t, au_users := au_users s @ [u],
           au_registrations := filter (\<lambda>r. au_pg s (rg_email r) \<noteq> au_pg s (rg_email g)) (au_registrations s),
           au_events := au_events s @ [userCreatedEvent u []]\<rparr>" using assms(3)
    by (auto simp: createRegisteredUser_def within_tx_Inr_iff andthen_Inr_iff c us_Create_ok au_record_def db_call_Inr_iff result_iffs Let_def
          fresh_user_def)
  then show ?thesis by blast
qed

definition first_session :: "auth_env \<Rightarrow> nat \<Rightarrow> au_user \<Rightarrow> string \<Rightarrow> string \<Rightarrow> int \<Rightarrow> au_session" where
  "first_session E k u agent ip ttl =
     \<lparr>rs_uuid = ae_ids E k, rs_user = us_uuid u, rs_family = ae_ids E (k + 1), rs_hash = ae_HashRefresh E (ae_random E k),
      rs_expires = ae_clock E k + ttl, rs_revoked = None, rs_replaced = None, rs_agent = agent, rs_ip = ip, rs_created = ae_clock E k\<rparr>"

lemma issuePair_found:
  assumes "issuePair E k u agent ip ttl s = (Inr p, t)"
  shows "tp_subject p = us_uuid u \<and> tp_refresh p = ae_random E k \<and>
     (\<exists>n. t = s\<lparr>calls := n, au_sessions := au_sessions s @ [first_session E k u agent ip ttl]\<rparr>)"
proof -
  let ?r = "first_session E k u agent ip ttl"
  obtain x s2 where c: "ss_Create ?r (s\<lparr>calls := Suc (calls s)\<rparr>) = (Inr x, s2)"
    and a: "IssueAccess E u (ae_clock E k) (ae_ids E (k + 2)) (ae_ids E (k + 1)) (ae_random E k) s2 = (Inr p, t)"
    using assms unfolding issuePair_def Let_def andthen_Inr_iff IssueRefresh_def au_ext_ok first_session_def
    by (auto simp: andthen_Inr_iff)
  have "?r\<lparr>rs_revoked := None, rs_replaced := None\<rparr> = ?r" by (simp add: first_session_def)
  then obtain n where "s2 = s\<lparr>calls := n, au_sessions := au_sessions s @ [?r]\<rparr>" using ss_Create_found [OF c] by auto
  then have "t = s\<lparr>calls := calls t, au_sessions := au_sessions s @ [?r]\<rparr>" using a by (auto simp: IssueAccess_def au_ext_ok)
  moreover have "tp_subject p = us_uuid u" "tp_refresh p = ae_random E k" using a by (simp_all add: IssueAccess_def au_ext_ok)
  ultimately show ?thesis by blast
qed

lemma completeLogin_new:
  assumes "completeLogin E k u agent ip remember s = (Inr p, t)" "au_users s = us @ [u]" "us_uuid u \<notin> us_uuid ` set us" "us_live u"
  shows "\<exists>n ttl. tp_subject p = us_uuid u \<and> tp_refresh p = ae_random E (Suc k) \<and>
     t = s\<lparr>calls := n, au_users := us @ [u\<lparr>us_last_login := Some (ae_clock E k), us_logins := us_logins u + 1, us_updated := ae_clock E k\<rparr>],
           au_sessions := au_sessions s @ [first_session E (Suc k) u agent ip ttl]\<rparr>"
proof -
  let ?u = "u\<lparr>us_last_login := Some (ae_clock E k), us_logins := us_logins u + 1, us_updated := ae_clock E k\<rparr>"
  let ?f = "\<lambda>r. if us_live r \<and> us_uuid r = us_uuid u
     then r\<lparr>us_last_login := Some (ae_clock E k), us_logins := us_logins r + 1, us_updated := ae_clock E k\<rparr> else r"
  obtain s1 where s1: "RecordLogin (us_uuid u) (ae_clock E k) s = (Inr (), s1)"
    and i: "issuePair E (Suc k) u agent ip (if remember then ae_RefreshTTL E else min shortSessionTTL (ae_RefreshTTL E)) s1 = (Inr p, t)"
    using assms(1) by (auto simp: completeLogin_def andthen_Inr_iff)
  have "us_uuid x \<noteq> us_uuid u" if "x \<in> set us" for x using assms(3) that by (metis image_eqI)
  then have "map ?f us = us" by (intro map_idI) simp
  then have "map ?f (au_users s) = us @ [?u]" using assms(2,4) by simp
  then have "s1 = s\<lparr>calls := Suc (calls s), au_users := us @ [?u]\<rparr>"
    using s1 by (simp add: RecordLogin_def db_call_Inr_iff result_iffs us_write_def)
  moreover obtain n where "t = s1\<lparr>calls := n, au_sessions := au_sessions s1 @ [first_session E (Suc k) u agent ip
      (if remember then ae_RefreshTTL E else min shortSessionTTL (ae_RefreshTTL E))]\<rparr>" using issuePair_found [OF i] by blast
  ultimately have "t = s\<lparr>calls := n, au_users := us @ [?u], au_sessions := au_sessions s @ [first_session E (Suc k) u agent ip
      (if remember then ae_RefreshTTL E else min shortSessionTTL (ae_RefreshTTL E))]\<rparr>" by simp
  then show ?thesis using issuePair_found [OF i] by blast
qed

lemma loginFailed_never: "loginFailed E email s \<noteq> (Inr x, t)"
  by (auto simp: loginFailed_def andthen_Inr_iff result_iffs split: option.splits sum.splits if_splits)

lemma registrationOpen_ok: "registrationOpen E s = (Inr v, t) \<Longrightarrow> ae_open E \<and> unchanged s t"
  by (auto simp: registrationOpen_def andthen_Inr_iff au_ext_ok result_iffs split: if_splits)

end
