(* ===== verification/Auth_Properties.thy ===== *)
theory Auth_Properties
  imports Auth_Tokens "HOL-Library.Code_Target_Nat"
begin

text \<open>
  Properties of the authentication service: its tables over any run, refresh tokens, single-use tokens, two-factor
  codes and sign-up, each with a run that shows its hypotheses can hold.
\<close>

section \<open>A small installation\<close>

text \<open>Hashes that only tag their text, two lower-case letters for digests, and counters for clocks and ids.\<close>

definition demo_auth :: "nat \<Rightarrow> instant \<Rightarrow> auth_env" where
  "demo_auth k now =
     \<lparr>ae_clock = (\<lambda>n. now + int n), ae_ids = (\<lambda>n. k * 10 + n), ae_random = (\<lambda>n. replicate (k * 10 + n) CHR ''r''),
      ae_AccessTTL = 900, ae_RefreshTTL = 5000, ae_ResetTokenTTL = 1000, ae_EmailChangeTTL = 1000, ae_RegistrationTTL = 2000,
      ae_lockout = Some (2, 100), ae_box = True,
      ae_HashRefresh = (@) ''f:'', ae_HashResetToken = (@) ''t:'', ae_sha256 = (@) ''s:'', ae_MAC = (@) ''m:'',
      ae_Encrypt = (@) ''e:'', ae_Decrypt = (\<lambda>c. Some (drop 2 c)), ae_Hash = (@) ''p:'', ae_Compare = (\<lambda>h p. h = ''p:'' @ p),
      ae_Code = (\<lambda>secret n. if n = 1 then ''123456'' else ''000000''), ae_lower = (\<lambda>r. r), ae_fold = (\<lambda>r. r), ae_class = (\<lambda>r. RuneOther),
      ae_ParseAddress = Some, ae_Enforce = (\<lambda>u p. True), ae_roles = (\<lambda>rs. True), ae_open = True,
      ae_Exchange = (\<lambda>p. None), ae_redirects = []\<rparr>"

definition demo_user :: au_user where
  "demo_user =
     \<lparr>us_uuid = 1, us_email = ''ann@x.org'', us_username = ''ann'', us_fullname = ''Ann'', us_password = ''p:old'', us_status = UsActive,
      us_verified = Some 0, us_pw_changed = None, us_last_login = None, us_logins = 0, us_created = 0, us_updated = 0, us_deleted = None\<rparr>"

definition demo_session :: au_session where
  "demo_session =
     \<lparr>rs_uuid = 100, rs_user = 1, rs_family = 101, rs_hash = ''f:abc'', rs_expires = 3000, rs_revoked = None, rs_replaced = None,
      rs_agent = ''web'', rs_ip = ''::1'', rs_created = 0\<rparr>"

definition demo_reset :: reset_token where
  "demo_reset =
     \<lparr>rt_uuid = 110, rt_user = 1, rt_jti = ''j'', rt_hash = ''t:abc'', rt_purpose = PurposePasswordReset, rt_email = [], rt_expires = 1000,
      rt_used = None, rt_created = 0\<rparr>"

definition demo_method :: tf_method where
  "demo_method = \<lparr>tf_user = 1, tf_secret = ''e:k'', tf_confirmed = Some 0, tf_step = 0\<rparr>"

definition demo_auth_store :: auth_store where
  "demo_auth_store =
     \<lparr>calls = 0, fails = (\<lambda>n. False), au_users = [demo_user], au_sessions = [demo_session], au_resets = [demo_reset],
      au_registrations = [], au_methods = [], au_codes = [], au_links = [], au_challenges = (\<lambda>h. None), au_states = (\<lambda>h. None),
      au_fails = (\<lambda>k. None), au_locks = (\<lambda>k. None), au_time = (\<lambda>n. int n), au_pg = (\<lambda>x. x), au_grants = [], au_events = [], au_mails = [],
      au_invalidated = []\<rparr>"

lemma demo_auth_inv: "auth_inv demo_auth_store"
  by (simp add: auth_inv_defs users_inv_def demo_auth_store_def demo_session_def demo_reset_def demo_user_def)

definition new_password :: string where "new_password = ''Correct-Horse-7''"

section \<open>Every request\<close>

text \<open>
  C28. Any sequence of requests of the authentication service, with any storage failures and any Redis state, keeps
  the keys of its tables: account ids and the addresses and names of live accounts, session ids and token
  hashes, reset tokens, sign-ups, one enrollment per account and its backup codes, one identity per provider and
  account, and every row belongs to an account. No request loses an account or a session or changes whose it is; a
  revoked session stays revoked, a used token stays as it was used, and events and messages are only added.
\<close>

theorem auth_requests_keep_invariant:
  assumes "auth_inv s"
  shows "auth_inv (run_all auth_run ops s) \<and> auth_evolves s (run_all auth_run ops s)"
  using auth.runs_inv [OF assms] auth.runs_rel [OF assms] by blast

definition auth_demo_ops :: "auth_op list" where
  "auth_demo_ops =
     [AuRefresh (demo_auth 2 10) ''abc'' ''web'' ''::1'', AuReset (demo_auth 3 20) '' abc'' new_password new_password,
      AuLogin (demo_auth 4 30) False ''Ann@x.org '' new_password ''web'' ''::1'' True, AuReset (demo_auth 5 40) ''abc'' new_password new_password]"

theorem auth_requests_keep_invariant_witness:
  "auth_inv (run_all auth_run auth_demo_ops demo_auth_store) \<and>
   map (\<lambda>r. (rs_uuid r, rs_family r, rs_revoked r)) (au_sessions (run_all auth_run auth_demo_ops demo_auth_store)) =
     [(100, 101, Some 10), (20, 101, Some 20), (41, 42, None)]"
proof
  show "auth_inv (run_all auth_run auth_demo_ops demo_auth_store)"
    using auth_requests_keep_invariant [OF demo_auth_inv] by blast
qed code_simp


section \<open>Refresh tokens\<close>

lemma Refresh_found:
  assumes "auth_inv s" "Refresh E token agent ip s = (Inr p, t)"
  shows "\<exists>r u. r \<in> set (au_sessions s) \<and> rs_hash r = ae_HashRefresh E (trim_space token) \<and> rs_revoked r = None \<and>
     ae_clock E 0 < rs_expires r \<and> u \<in> set (au_users s) \<and> us_uuid u = rs_user r \<and> IsActive u \<and>
     t = s\<lparr>calls := calls t, au_sessions := map (\<lambda>q. if q = r then rotated_out E (ae_clock E 0) q else q) (au_sessions s) @
             [next_session E r agent ip (ae_clock E 0) (ae_HashRefresh E (tp_refresh p))]\<rparr> \<and>
     tp_subject p = rs_user r \<and> tp_family p = rs_family r \<and> tp_expires p = ae_clock E 0 + ae_AccessTTL E"
proof -
  obtain x s1 where p: "refresh_prepare E token s = (Inr x, s1)" and q: "refresh_rotate E agent ip x s1 = (Inr p, t)"
    using assms(2) by (auto simp: Refresh_def andthen_Inr_iff)
  obtain r u now raw h where x: "x = (r, u, now, raw, h)" by (cases x)
  note f = refresh_prepare_found [OF p [unfolded x]]
  obtain n where s1: "s1 = s\<lparr>calls := n\<rparr>" using f by (auto simp: unchanged_def)
  have r: "r \<in> set (au_sessions s)" "rs_hash r = ae_HashRefresh E (trim_space token)" using f find_session [OF assms(1)] by auto
  have u: "us_uuid u = rs_user r" using f by blast
  note g = refresh_rotate_found [OF q [unfolded x] u]
  have "rs_uuid (next_session E r agent ip now h) \<noteq> rs_uuid r"
    using g r(1) by (auto simp: s1 next_session_def)
  moreover have "map (\<lambda>q. if rs_uuid q = rs_uuid r then rotated_out E now q else q) (au_sessions s) =
      map (\<lambda>q. if q = r then rotated_out E now q else q) (au_sessions s)"
    using session_uuid_own [OF assms(1) r(1)] by simp
  ultimately have t: "t = s\<lparr>calls := calls t, au_sessions := map (\<lambda>q. if q = r then rotated_out E now q else q) (au_sessions s) @
      [next_session E r agent ip now h]\<rparr>" using g by (simp add: s1 del: map_eq_conv)
  have "tp_refresh p = raw" "tp_subject p = rs_user r" "tp_family p = rs_family r" "tp_expires p = now + ae_AccessTTL E"
    using g u by simp_all
  moreover have "now = ae_clock E 0" "h = ae_HashRefresh E raw" using f by blast+
  ultimately show ?thesis using f r u t by blast
qed

text \<open>
  A refresh succeeds only with the token of a session that is neither revoked nor expired, for an active
  account. It revokes exactly that session, links it to one new session of the same family and lifetime, and
  changes nothing else; the access token is for the same account and family.
\<close>

theorem Refresh_rotates:
  assumes "auth_inv s" "Refresh E token agent ip s = (Inr p, t)"
  shows "\<exists>r u. r \<in> set (au_sessions s) \<and> rs_hash r = ae_HashRefresh E (trim_space token) \<and> rs_revoked r = None \<and>
     ae_clock E 0 < rs_expires r \<and> u \<in> set (au_users s) \<and> us_uuid u = rs_user r \<and> IsActive u \<and>
     t = s\<lparr>calls := calls t, au_sessions := map (\<lambda>q. if q = r then rotated_out E (ae_clock E 0) q else q) (au_sessions s) @
             [next_session E r agent ip (ae_clock E 0) (ae_HashRefresh E (tp_refresh p))]\<rparr> \<and>
     tp_subject p = rs_user r \<and> tp_family p = rs_family r \<and> tp_expires p = ae_clock E 0 + ae_AccessTTL E"
  by (rule Refresh_found [OF assms])

theorem Refresh_rotates_witness:
  "\<exists>p t. Refresh (demo_auth 2 10) '' abc '' ''web'' ''::1'' demo_auth_store = (Inr p, t) \<and>
     length (au_sessions t) = 2 \<and> tp_family p = 101"
proof -
  let ?R = "Refresh (demo_auth 2 10) '' abc '' ''web'' ''::1'' demo_auth_store"
  have "isl (fst ?R) = False" by code_simp
  then have r: "?R = (Inr (projr (fst ?R)), snd ?R)" by (intro run_result) simp
  have "length (au_sessions (snd ?R)) = 2" "tp_family (projr (fst ?R)) = 101" by code_simp+
  then show ?thesis using Refresh_rotates [OF demo_auth_inv r] r by blast
qed









section \<open>Password reset tokens\<close>

lemma ResetPassword_found:
  assumes "auth_inv s" "ResetPassword E raw password confirm s = (Inr v, t)"
  shows "\<exists>q \<in> set (au_resets s). rt_hash q = ae_HashResetToken E (trim_space raw) \<and> rt_purpose q = PurposePasswordReset \<and>
     rt_used q = None \<and> ae_clock E 0 < rt_expires q \<and>
     t = (reset_done (rt_user q) (ae_Hash E password) (ae_clock E 0) s)\<lparr>calls := calls t\<rparr>"
proof -
  obtain q h now u where p: "reset_prepare E raw password confirm s = (Inr (q, h, now), u)" and f: "reset_finish (q, h, now) u = (Inr v, t)"
    using assms(2) by (auto simp: ResetPassword_def andthen_Inr_iff)
  note g = reset_prepare_found [OF p]
  obtain n where u: "u = s\<lparr>calls := n\<rparr>" using g by (auto simp: unchanged_def)
  have "t = (reset_done (rt_user q) h now s)\<lparr>calls := calls t\<rparr>" using reset_finish_ok [OF f] by (simp add: u reset_done_def)
  then show ?thesis using g find_reset [OF assms(1)] by (intro bexI [of _ q]) auto
qed

text \<open>
  C31. A password reset succeeds only with an unused, unexpired reset token. It sets the password of that
  token's account, marks all its pending reset tokens used and revokes all its sessions, and nothing else changes; and
  whatever requests follow, the token is never accepted again.
\<close>

theorem ResetPassword_spends_token:
  assumes "auth_inv s" "ResetPassword E raw password confirm s = (Inr v, t)"
  shows "(\<exists>q \<in> set (au_resets s). rt_hash q = ae_HashResetToken E (trim_space raw) \<and> rt_purpose q = PurposePasswordReset \<and>
       rt_used q = None \<and> ae_clock E 0 < rt_expires q \<and>
       t = (reset_done (rt_user q) (ae_Hash E password) (ae_clock E 0) s)\<lparr>calls := calls t\<rparr>) \<and>
     (\<forall>ops E' password' confirm'. ae_HashResetToken E' = ae_HashResetToken E \<longrightarrow>
       isl (fst (ResetPassword E' raw password' confirm' (run_all auth_run ops t))))"
proof -
  obtain q where q: "q \<in> set (au_resets s)" "rt_hash q = ae_HashResetToken E (trim_space raw)" "rt_purpose q = PurposePasswordReset"
      "rt_used q = None" "t = (reset_done (rt_user q) (ae_Hash E password) (ae_clock E 0) s)\<lparr>calls := calls t\<rparr>"
    using ResetPassword_found [OF assms] by blast
  have inv: "auth_inv t" using stepsD [OF auth_writes.keeps_password_ops(2), of s E raw password confirm] assms by (simp add: auth_step_def)
  have "q\<lparr>rt_used := Some (ae_clock E 0)\<rparr> \<in> set (au_resets t)"
    using q(1,3,4) by (subst q(5)) (force simp: reset_done_def)
  then have "isl (fst (ResetPassword E' raw password' confirm' (run_all auth_run ops t)))"
    if "ae_HashResetToken E' = ae_HashResetToken E" for ops E' password' confirm'
  proof -
    obtain r where r: "r \<in> set (au_resets (run_all auth_run ops t))" "token_le (q\<lparr>rt_used := Some (ae_clock E 0)\<rparr>) r"
      using token_later [OF auth.runs_rel [OF inv]] \<open>q\<lparr>rt_used := Some (ae_clock E 0)\<rparr> \<in> set (au_resets t)\<close> by blast
    show ?thesis
      by (rule used_token_refused [OF auth.runs_inv [OF inv] r(1)]) (use r(2) q(2) that in \<open>auto simp: token_le_def\<close>)
  qed
  then show ?thesis using ResetPassword_found [OF assms] by blast
qed

theorem ResetPassword_spends_token_witness:
  "\<exists>t. ResetPassword (demo_auth 3 20) ''abc'' new_password new_password demo_auth_store = (Inr (), t) \<and>
     isl (fst (ResetPassword (demo_auth 5 40) ''abc'' new_password new_password (run_all auth_run auth_demo_ops t)))"
proof -
  let ?R = "ResetPassword (demo_auth 3 20) ''abc'' new_password new_password demo_auth_store"
  have "isl (fst ?R) = False" by code_simp
  then have r: "?R = (Inr (projr (fst ?R)), snd ?R)" by (intro run_result) simp
  have "ae_HashResetToken (demo_auth 5 40) = ae_HashResetToken (demo_auth 3 20)" by (simp add: demo_auth_def)
  then show ?thesis using ResetPassword_spends_token [OF demo_auth_inv r] r by auto
qed

text \<open>
  Two resets with the same token that both read it before either writes both succeed, and the second
  password stays: reading the token and spending it are not one step.
\<close>

theorem reset_token_spent_twice:
  assumes "\<And>n. \<not> fails s n" "reset_prepare E raw p1 p1 s = (Inr x, s1)" "reset_prepare E' raw p2 p2 s1 = (Inr y, s2)"
    "ae_HashResetToken E' = ae_HashResetToken E"
  shows "\<exists>s3 s4. reset_finish x s2 = (Inr (), s3) \<and> reset_finish y s3 = (Inr (), s4) \<and>
     (\<forall>u \<in> set (au_users s3). us_live u \<and> us_uuid u = rt_user (fst x) \<longrightarrow> us_password u = ae_Hash E p1) \<and>
     (\<forall>u \<in> set (au_users s4). us_live u \<and> us_uuid u = rt_user (fst x) \<longrightarrow> us_password u = ae_Hash E' p2)"
proof -
  obtain q h now where x: "x = (q, h, now)" by (cases x)
  obtain q' h' now' where y: "y = (q', h', now')" by (cases y)
  note f = reset_prepare_found [OF assms(2) [unfolded x]]
  note g = reset_prepare_found [OF assms(3) [unfolded y]]
  obtain n where s1: "s1 = s\<lparr>calls := n\<rparr>" using f by (auto simp: unchanged_def)
  obtain m where s2: "s2 = s\<lparr>calls := m\<rparr>" using g by (auto simp: unchanged_def s1)
  have same: "q' = q" using f g assms(4) by (simp add: s1)
  obtain s3 where s3: "reset_finish x s2 = (Inr (), s3)" using reset_finish_returns [of s2 x] assms(1) by (auto simp: s2)
  have t3: "s3 = (reset_done (rt_user q) h now s2)\<lparr>calls := calls s3\<rparr>" using reset_finish_ok s3 x by blast
  have "fails s3 = fails s" by (subst t3) (simp add: reset_done_def s2)
  then obtain s4 where s4: "reset_finish y s3 = (Inr (), s4)" using reset_finish_returns [of s3 y] assms(1) by auto
  have t4: "s4 = (reset_done (rt_user q) h' now' s3)\<lparr>calls := calls s4\<rparr>" using reset_finish_ok s4 y same by blast
  have d: "us_password u = k" if "u \<in> set (au_users ((reset_done v k w z)\<lparr>calls := c\<rparr>))" "us_live u \<and> us_uuid u = v" for u v k w z c
    by (rule reset_done_password [of u v k w z]) (use that in simp_all)
  have "\<forall>u \<in> set (au_users s3). us_live u \<and> us_uuid u = rt_user q \<longrightarrow> us_password u = ae_Hash E p1"
    using f by (subst t3) (blast intro: d)
  moreover have "\<forall>u \<in> set (au_users s4). us_live u \<and> us_uuid u = rt_user q \<longrightarrow> us_password u = ae_Hash E' p2"
    using g by (subst t4) (blast intro: d)
  ultimately show ?thesis using s3 s4 x by auto
qed


theorem reset_token_spent_twice_witness:
  "\<exists>x s1 y s2 s3 s4. reset_prepare (demo_auth 3 20) ''abc'' new_password new_password demo_auth_store = (Inr x, s1) \<and>
     reset_prepare (demo_auth 4 25) ''abc'' (new_password @ ''!'') (new_password @ ''!'') s1 = (Inr y, s2) \<and>
     reset_finish x s2 = (Inr (), s3) \<and> reset_finish y s3 = (Inr (), s4)"
proof -
  let ?X = "reset_prepare (demo_auth 3 20) ''abc'' new_password new_password demo_auth_store"
  let ?Y = "reset_prepare (demo_auth 4 25) ''abc'' (new_password @ ''!'') (new_password @ ''!'') (snd ?X)"
  have "isl (fst ?X) = False" "isl (fst ?Y) = False" by code_simp+
  then have x: "?X = (Inr (projr (fst ?X)), snd ?X)" and y: "?Y = (Inr (projr (fst ?Y)), snd ?Y)" by (intro run_result, simp)+
  have "ae_HashResetToken (demo_auth 4 25) = ae_HashResetToken (demo_auth 3 20)" by (simp add: demo_auth_def)
  moreover have "\<not> fails demo_auth_store n" for n by (simp add: demo_auth_store_def)
  ultimately show ?thesis using reset_token_spent_twice [OF _ x y] x y by blast
qed

section \<open>Two-factor codes\<close>

text \<open>
  C32. A time-based code is accepted for a step within one of the current one that is later than every step
  accepted before, and uses that step up: whatever requests follow, as long as the account does not switch
  two-factor off, no code of this or an earlier step is accepted again, also by a request that had read the
  enrollment earlier.
\<close>

theorem totp_code_once:
  assumes "auth_inv s" "useTOTP E k m code s = (Inr v, t)" "r \<in> set (au_methods s)" "tf_user r = tf_user m" "Enabled r"
  shows "\<exists>n. totp_step E k m code = Some n \<and> \<bar>n - totp_Step (ae_clock E k)\<bar> \<le> 1 \<and> tf_step r < n \<and>
     au_methods t = map (\<lambda>x. if tf_user x = tf_user m then x\<lparr>tf_step := n\<rparr> else x) (au_methods s) \<and>
     (\<forall>ops E' k' m' code' j. list_all (op_within (\<lambda>h. True) (\<lambda>h. True) (\<lambda>u. u \<noteq> tf_user m)) ops \<and> tf_user m' = tf_user m \<and>
        totp_step E' k' m' code' = Some j \<and> j \<le> n \<longrightarrow> isl (fst (useTOTP E' k' m' code' (run_all auth_run ops t))))"
proof -
  let ?P = "\<lambda>n x. tf_user x = tf_user m \<and> tf_step x < n"
  obtain n where n: "totp_step E k m code = Some n" "length (filter (?P n) (au_methods s)) = 1"
      "t = s\<lparr>calls := Suc (calls s), au_methods := map (\<lambda>x. if ?P n x then x\<lparr>tf_step := n\<rparr> else x) (au_methods s)\<rparr>"
    using useTOTP_found [OF assms(2)] by blast
  have one: "filter (\<lambda>x. tf_user x = tf_user m) (au_methods s) = [r]" using find_method [OF assms(1,3)] assms(4) by simp
  then have "filter (?P n) (au_methods s) = filter (\<lambda>x. tf_step x < n) [r]" by (metis filter_filter)
  then have r: "tf_step r < n" using n(2) by (simp split: if_splits)
  have "x = r" if "x \<in> set (au_methods s)" "tf_user x = tf_user m" for x
  proof -
    have "x \<in> set (filter (\<lambda>x. tf_user x = tf_user m) (au_methods s))" using that by simp
    then show ?thesis unfolding one by simp
  qed
  then have mt: "au_methods t = map (\<lambda>x. if tf_user x = tf_user m then x\<lparr>tf_step := n\<rparr> else x) (au_methods s)"
    using n(3) r by auto
  have "\<bar>n - totp_Step (ae_clock E k)\<bar> \<le> 1"
    using n(1) by (auto simp: totp_step_def totp_Validate_def Let_def find_Some_iff split: option.splits if_splits)
  moreover have "spent (tf_user m) n t"
    using assms(3-5) unfolding spent_def mt by (intro bexI [of _ "r\<lparr>tf_step := n\<rparr>"]) (auto simp: Enabled_def)
  moreover have "one_each t"
    using assms(1) mt by (simp add: one_each_def auth_inv_def enrollments_inv_def comp_def if_distrib cong: if_cong)
  ultimately show ?thesis
    using n(1) r mt spent_writes.keeps_ops [of "tf_user m" _ n t] spent_refused unfolding spent_step_def by (metis (no_types, lifting))
qed


definition enrolled_demo :: auth_store where
  "enrolled_demo = demo_auth_store\<lparr>au_methods := [demo_method]\<rparr>"

lemma enrolled_demo_inv: "auth_inv enrolled_demo"
  using demo_auth_inv by (simp add: enrolled_demo_def auth_inv_defs demo_auth_store_def demo_method_def demo_user_def)

theorem totp_code_once_witness:
  "\<exists>t. useTOTP (demo_auth 2 (30 * 10 ^ 9)) 0 demo_method ''123456'' enrolled_demo = (Inr (), t) \<and>
     isl (fst (useTOTP (demo_auth 3 (31 * 10 ^ 9)) 0 demo_method ''123456'' (run_all auth_run auth_demo_ops t)))"
proof -
  let ?R = "useTOTP (demo_auth 2 (30 * 10 ^ 9)) 0 demo_method ''123456'' enrolled_demo"
  have "isl (fst ?R) = False" by code_simp
  then have r: "?R = (Inr (projr (fst ?R)), snd ?R)" by (intro run_result) simp
  have m: "demo_method \<in> set (au_methods enrolled_demo)" "Enabled demo_method"
    by (simp_all add: enrolled_demo_def demo_method_def Enabled_def)
  have "totp_step (demo_auth 2 (30 * 10 ^ 9)) 0 demo_method ''123456'' = Some 1"
    "totp_step (demo_auth 3 (31 * 10 ^ 9)) 0 demo_method ''123456'' = Some 1" by code_simp+
  moreover have "list_all (op_within (\<lambda>h. True) (\<lambda>h. True) (\<lambda>u. u \<noteq> tf_user demo_method)) auth_demo_ops"
    by (simp add: auth_demo_ops_def)
  ultimately show ?thesis using totp_code_once [OF enrolled_demo_inv r m(1) refl m(2)] r by auto
qed





section \<open>Sign-up\<close>

text \<open>
  C34. Verifying an address creates an account only while sign-up is open, for a stored sign-up that has not expired
  and with the password it was made with, and only when no live account has the address. It adds exactly that
  account, verified and signed in with one new session, records its creation and removes every pending sign-up of the address.
\<close>

theorem VerifyEmail_creates_account:
  assumes "auth_inv s" "VerifyEmail E raw password agent ip s = (Inr p, t)"
  shows "\<exists>g \<in> set (au_registrations s). ae_open E \<and> rg_hash g = ae_HashResetToken E (trim_space raw) \<and> ae_clock E 0 < rg_expires g \<and>
     ae_Compare E (rg_password g) password \<and> ae_ids E 0 \<notin> us_uuid ` set (au_users s) \<and>
     \<not> list_ex (\<lambda>r. us_live r \<and> au_pg s (us_email r) = au_pg s (rg_email g)) (au_users s) \<and>
     au_users t = au_users s @ [signed_up E g] \<and>
     au_registrations t = filter (\<lambda>r. au_pg s (rg_email r) \<noteq> au_pg s (rg_email g)) (au_registrations s) \<and>
     (\<exists>r. au_sessions t = au_sessions s @ [r] \<and> rs_user r = ae_ids E 0 \<and> rs_hash r = ae_HashRefresh E (tp_refresh p)) \<and>
     au_events t = au_events s @ [UserCreated (ae_ids E 0) (rg_username g) UsActive [] (ae_clock E 1)] \<and> tp_subject p = ae_ids E 0"
proof -
  obtain v s1 g s2 w s3 u s4 s5 where o: "registrationOpen E s = (Inr v, s1)" and f: "rg_find (ae_HashResetToken E (trim_space raw)) s1 = (Inr g, s2)"
      and e: "ae_clock E 0 < rg_expires g" "ae_Compare E (rg_password g) password"
      and k: "checkLocked E (rg_email g) s2 = (Inr w, s3)" and c: "createRegisteredUser E g s3 = (Inr u, s4)"
      and i: "au_invalidate s4 = (Inr (), s5)" and l: "completeLogin E 2 u agent ip False s5 = (Inr p, t)"
    using assms(2) unfolding VerifyEmail_def Let_def andthen_Inr_iff
    by (auto simp: andthen_Inr_iff result_iffs loginFailed_never split: if_splits)
  have "unchanged s s1" "unchanged s1 s2" "unchanged s2 s3"
    using registrationOpen_ok [OF o] f readsD [OF reads_checkLocked k] by (simp_all add: rg_find_ok)
  then have "unchanged s s3" using unchanged_trans by blast
  then obtain n where s3: "s3 = s\<lparr>calls := n\<rparr>" by (auto simp: unchanged_def)
  have g: "g \<in> set (au_registrations s)" "rg_hash g = ae_HashResetToken E (trim_space raw)"
    using f registrationOpen_ok [OF o] by (auto simp: rg_find_ok find_Some_iff unchanged_def)
  have "auth_inv s3" "g \<in> set (au_registrations s3)" using assms(1) g(1) by (simp_all add: s3)
  note m = createRegisteredUser_found [OF this c]
  have u: "us_uuid u = ae_ids E 0" "us_live u" using m by (simp_all add: fresh_user_def us_live_def)
  obtain n' where "s4 = s3\<lparr>calls := n', au_users := au_users s3 @ [u],
      au_registrations := filter (\<lambda>r. au_pg s3 (rg_email r) \<noteq> au_pg s3 (rg_email g)) (au_registrations s3),
      au_events := au_events s3 @ [userCreatedEvent u []]\<rparr>" using m by blast
  then have s5: "s5 = s\<lparr>calls := n', au_users := au_users s @ [u],
      au_registrations := filter (\<lambda>r. au_pg s (rg_email r) \<noteq> au_pg s (rg_email g)) (au_registrations s),
      au_events := au_events s @ [userCreatedEvent u []], au_invalidated := au_invalidated s @ [Users]\<rparr>"
    using i by (simp add: au_invalidate_def result_iffs s3)
  have fresh: "us_uuid u \<notin> us_uuid ` set (au_users s)" using m u by (simp add: s3)
  have "au_users s5 = au_users s @ [u]" by (simp add: s5)
  from completeLogin_new [OF l this fresh u(2)] obtain n2 ttl where p: "tp_subject p = us_uuid u" "tp_refresh p = ae_random E 3" and
    t: "t = s5\<lparr>calls := n2, au_users := au_users s @ [u\<lparr>us_last_login := Some (ae_clock E 2), us_logins := us_logins u + 1, us_updated := ae_clock E 2\<rparr>],
           au_sessions := au_sessions s5 @ [first_session E 3 u agent ip ttl]\<rparr>" by (auto simp: eval_nat_numeral)
  have "u\<lparr>us_last_login := Some (ae_clock E 2), us_logins := us_logins u + 1, us_updated := ae_clock E 2\<rparr> = signed_up E g"
    using m by (simp add: signed_up_def fresh_user_def)
  then have "au_users t = au_users s @ [signed_up E g]" by (simp add: t)
  moreover have "au_events t = au_events s @ [UserCreated (ae_ids E 0) (rg_username g) UsActive [] (ae_clock E 1)]"
    using m by (simp add: t s5 userCreatedEvent_def fresh_user_def)
  moreover have "au_registrations t = filter (\<lambda>r. au_pg s (rg_email r) \<noteq> au_pg s (rg_email g)) (au_registrations s)" by (simp add: t s5)
  moreover have "au_sessions t = au_sessions s @ [first_session E 3 u agent ip ttl]" by (simp add: t s5)
  moreover have "rs_user (first_session E 3 u agent ip ttl) = ae_ids E 0"
    "rs_hash (first_session E 3 u agent ip ttl) = ae_HashRefresh E (tp_refresh p)" using u p by (simp_all add: first_session_def)
  moreover have "\<not> list_ex (\<lambda>r. us_live r \<and> au_pg s (us_email r) = au_pg s (rg_email g)) (au_users s)" using m by (simp add: s3)
  ultimately show ?thesis using g e u(1) fresh p(1) registrationOpen_ok [OF o] by (intro bexI [of _ g] conjI exI) simp_all
qed

definition signup_demo :: auth_store where
  "signup_demo = demo_auth_store\<lparr>au_registrations := [\<lparr>rg_uuid = 120, rg_email = ''bob@x.org'', rg_username = ''bob'', rg_fullname = ''Bob'',
     rg_password = ''p:secret'', rg_hash = ''t:abc'', rg_expires = 1000, rg_created = 0\<rparr>]\<rparr>"

lemma signup_demo_inv: "auth_inv signup_demo"
  using demo_auth_inv by (simp add: signup_demo_def auth_inv_defs demo_auth_store_def)

theorem VerifyEmail_creates_account_witness:
  "\<exists>p t. VerifyEmail (demo_auth 2 10) ''abc'' ''secret'' ''web'' ''::1'' signup_demo = (Inr p, t) \<and>
     map us_email (au_users t) = [''ann@x.org'', ''bob@x.org''] \<and> au_registrations t = [] \<and> tp_subject p = 20"
proof -
  let ?R = "VerifyEmail (demo_auth 2 10) ''abc'' ''secret'' ''web'' ''::1'' signup_demo"
  have "isl (fst ?R) = False" by code_simp
  then have r: "?R = (Inr (projr (fst ?R)), snd ?R)" by (intro run_result) simp
  have i: "ae_ids (demo_auth 2 10) 0 = 20" by (simp add: demo_auth_def)
  have "map us_email (au_users (snd ?R)) = [''ann@x.org'', ''bob@x.org'']" "length (au_registrations (snd ?R)) = 0" by code_simp+
  moreover have "tp_subject (projr (fst ?R)) = ae_ids (demo_auth 2 10) 0" using VerifyEmail_creates_account [OF signup_demo_inv r] by blast
  ultimately show ?thesis using r i by (metis length_0_conv)
qed

end
