(* ===== verification/Newsletter_Domain.thy ===== *)
theory Newsletter_Domain
  imports Slug Go_Strings Stepwise "HOL-Library.Product_Lexorder"
begin

text \<open>
  The newsletter's data and the rules on them alone (\<^verbatim>\<open>core/newsletter/domain\<close>): lists, subscribers and their
  memberships, the consent history, tokens, issues and deliveries, settings. Instants and durations are in
  nanoseconds. A membership, a token and a delivery are named by their unique columns: the subscriber and the list's slug, the
  hash, the issue and the subscriber.
\<close>

section \<open>Errors\<close>

datatype nl_error =
    NlValidation string | NlNotFound | NlTokenInvalid | NlTokenExpired | NlTokenUsed | NlCaptcha | NlConflict
  | NlNotConfigured | NlSignature | NlDeliveriesPending nat | NlUnknownAccount

section \<open>Subscribers\<close>

datatype nl_status = NlPending | NlActive | NlUnsubscribed | NlBounced | NlComplained | NlErased

datatype nl_format = FormatHTML | FormatPlaintext

definition ParseFormat :: "string \<Rightarrow> nl_error + nl_format" where
  "ParseFormat v =
     (if v = [] \<or> v = ''html'' then Inr FormatHTML
      else if v = ''plaintext'' then Inr FormatPlaintext
      else Inl (NlValidation ''format must be html or plaintext''))"

datatype nl_source = SourcePublic | SourceAccount | SourceAdmin | SourceToken | SourceProvider | SourcePrivacy

datatype member_state = MemberPending | MemberActive | MemberLeft

record membership =
  ms_list :: string
  ms_state :: member_state
  ms_joined :: "instant option"
  ms_left :: "instant option"

text \<open>The columns of a subscriber; the address is gone once it is erased.\<close>

record nl_row =
  sb_uuid :: uuid
  sb_email :: "string option"
  sb_name :: string
  sb_user :: "uuid option"
  sb_status :: nl_status
  sb_format :: nl_format
  sb_source :: nl_source
  sb_ip :: string
  sb_agent :: string
  sb_sends :: int
  sb_window :: "instant option"
  sb_opted :: "instant option"
  sb_unsubscribed :: "instant option"
  sb_bounced :: "instant option"
  sb_complained :: "instant option"
  sb_erased :: "instant option"
  sb_created :: instant
  sb_updated :: instant

text \<open>A subscriber as it is loaded, with its memberships and whether they were changed since.\<close>

record subscriber = nl_row +
  sb_members :: "membership list"
  sb_modified :: bool

definition nl_Membership :: "subscriber \<Rightarrow> string \<Rightarrow> membership option" where
  "nl_Membership s slug = find (\<lambda>m. ms_list m = slug) (sb_members s)"

definition stamp :: "member_state \<Rightarrow> instant \<Rightarrow> membership \<Rightarrow> membership" where
  "stamp st at m =
     (case st of
        MemberActive \<Rightarrow> m\<lparr>ms_joined := Some at, ms_left := None\<rparr>
      | MemberLeft \<Rightarrow> m\<lparr>ms_left := Some at\<rparr>
      | MemberPending \<Rightarrow> m\<lparr>ms_left := None\<rparr>)"

text \<open>The first membership of the list gets the state; it is added when there is none.\<close>

fun set_state :: "string \<Rightarrow> member_state \<Rightarrow> instant \<Rightarrow> membership list \<Rightarrow> membership list" where
  "set_state slug st at [] = [stamp st at \<lparr>ms_list = slug, ms_state = st, ms_joined = None, ms_left = None\<rparr>]"
| "set_state slug st at (m # ms) =
     (if ms_list m = slug
      then (if ms_state m = st then m else stamp st at (m\<lparr>ms_state := st\<rparr>)) # ms
      else m # set_state slug st at ms)"

definition in_state :: "subscriber \<Rightarrow> string \<Rightarrow> member_state \<Rightarrow> bool" where
  "in_state s slug st \<longleftrightarrow> (case nl_Membership s slug of None \<Rightarrow> False | Some m \<Rightarrow> ms_state m = st)"

definition SetMembership :: "string \<Rightarrow> member_state \<Rightarrow> instant \<Rightarrow> subscriber \<Rightarrow> subscriber" where
  "SetMembership slug st at s =
     s\<lparr>sb_members := set_state slug st at (sb_members s), sb_modified := sb_modified s \<or> \<not> in_state s slug st\<rparr>"

definition lists_in :: "member_state \<Rightarrow> subscriber \<Rightarrow> string list" where
  "lists_in st s = map ms_list (filter (\<lambda>m. ms_state m = st) (sb_members s))"

definition ActiveLists :: "subscriber \<Rightarrow> string list" where
  "ActiveLists = lists_in MemberActive"

definition Suppressed :: "subscriber \<Rightarrow> bool" where
  "Suppressed s \<longleftrightarrow> sb_status s = NlBounced \<or> sb_status s = NlComplained \<or> sb_status s = NlErased"

text \<open>\<open>lo\<close> is Go's lower case of runes outside ASCII, \<open>parse\<close> the address parser of \<^verbatim>\<open>net/mail\<close>.\<close>

definition nl_NormalizeEmail :: "(nat \<Rightarrow> nat) \<Rightarrow> (string \<Rightarrow> string option) \<Rightarrow> string \<Rightarrow> nl_error + string" where
  "nl_NormalizeEmail lo parse raw =
     (let email = to_lower lo (trim_space raw) in
      if email = [] \<or> length email > 254 \<or> CHR 0x0D \<in> set email \<or> CHR 0x0A \<in> set email
      then Inl (NlValidation ''a valid email address is required'')
      else if parse email \<noteq> Some email then Inl (NlValidation ''a valid email address is required'')
      else Inr email)"

section \<open>Consent, tokens, issues\<close>

datatype consent_kind =
    ConsentConfirmSent | ConsentConfirmed | ConsentSubscribed | ConsentListJoined | ConsentListLeft | ConsentUnsubscribed
  | ConsentResubscribed | ConsentFormatChanged | ConsentBounced | ConsentSoftBounce | ConsentComplained | ConsentErased

record consent_event =
  ce_sub :: uuid
  ce_kind :: consent_kind
  ce_list :: string
  ce_source :: nl_source
  ce_reason :: string
  ce_feedback :: string
  ce_ip :: string
  ce_at :: instant

definition ReasonCodes :: "string list" where
  "ReasonCodes = [''too_frequent'', ''not_relevant'', ''never_signed_up'', ''other'']"

definition ValidateFeedback :: "string \<Rightarrow> string \<Rightarrow> nl_error + unit" where
  "ValidateFeedback reason feedback =
     (if reason \<noteq> [] \<and> reason \<notin> set ReasonCodes
      then Inl (NlValidation ''reason_code must be one of too_frequent, not_relevant, never_signed_up, other'')
      else if rune_count feedback > 1000 then Inl (NlValidation ''feedback must be at most 1000 characters'')
      else Inr ())"

datatype token_purpose = PurposeConfirm | PurposeUnsubscribe | PurposePreferences

record nl_token =
  tk_sub :: uuid
  tk_purpose :: token_purpose
  tk_hash :: string
  tk_issue :: "uuid option"
  tk_expires :: instant
  tk_used :: "instant option"
  tk_created :: instant

record nl_list =
  ls_slug :: string
  ls_name :: string
  ls_description :: string
  ls_default :: bool
  ls_position :: nat
  ls_archived :: "instant option"

record list_input =
  li_slug :: string
  li_name :: string
  li_description :: string
  li_default :: bool

definition MaxLists :: nat where "MaxLists = 20"

text \<open>The messages name the list; here they are the rule that is broken.\<close>

fun check_lists :: "string list \<Rightarrow> list_input list \<Rightarrow> nl_error + unit" where
  "check_lists seen [] = Inr ()"
| "check_lists seen (l # ls) =
     (if \<not> slugPattern (li_slug l) \<or> length (li_slug l) > 64
      then Inl (NlValidation ''list slug must be lowercase letters, digits, and dashes'')
      else if li_slug l \<in> set seen then Inl (NlValidation ''list slug is repeated'')
      else if rune_count (trim_space (li_name l)) = 0 \<or> rune_count (trim_space (li_name l)) > 100
      then Inl (NlValidation ''list needs a name of at most 100 characters'')
      else if rune_count (li_description l) > 500 then Inl (NlValidation ''list description is longer than 500 characters'')
      else check_lists (li_slug l # seen) ls)"

definition ValidateLists :: "list_input list \<Rightarrow> nl_error + unit" where
  "ValidateLists ls =
     (if ls = [] \<or> length ls > MaxLists then Inl (NlValidation ''lists must have between 1 and 20 entries'')
      else case check_lists [] ls of
        Inl e \<Rightarrow> Inl e
      | Inr _ \<Rightarrow> if list_ex li_default ls then Inr () else Inl (NlValidation ''at least one list must be a default list''))"

record nl_config =
  cf_from_name :: string
  cf_from_email :: string
  cf_reply_to :: string
  cf_postal :: string
  cf_ConfirmTTL :: int
  cf_double :: bool
  cf_updated :: "instant option"
  cf_by :: "uuid option"

definition nl_second :: int where "nl_second = 1000000000"

definition DefaultConfirmTTL :: int where "DefaultConfirmTTL = 48 * 3600 * nl_second"

definition MinConfirmTTL :: int where "MinConfirmTTL = 3600 * nl_second"

definition MaxConfirmTTL :: int where "MaxConfirmTTL = 7 * 24 * 3600 * nl_second"

definition DefaultConfig :: nl_config where
  "DefaultConfig =
     \<lparr>cf_from_name = [], cf_from_email = [], cf_reply_to = [], cf_postal = [], cf_ConfirmTTL = DefaultConfirmTTL,
      cf_double = True, cf_updated = None, cf_by = None\<rparr>"

text \<open>Go ranges over the two addresses in any order; the error names one that is not valid.\<close>

definition cf_Validate :: "(nat \<Rightarrow> nat) \<Rightarrow> (string \<Rightarrow> string option) \<Rightarrow> nl_config \<Rightarrow> nl_error + unit" where
  "cf_Validate lo parse c =
     (if rune_count (cf_from_name c) > 100 \<or> \<not> set (cf_from_name c) \<inter> {CHR 0x0D, CHR 0x0A, CHR 0x22, CHR ''<'', CHR ''>''} = {}
      then Inl (NlValidation ''from_name must be at most 100 characters without quotes, angle brackets, or line breaks'')
      else if list_ex (\<lambda>v. v \<noteq> [] \<and> isl (nl_NormalizeEmail lo parse v)) [cf_from_email c, cf_reply_to c]
      then Inl (NlValidation ''must be a valid email address'')
      else if rune_count (cf_postal c) > 500 then Inl (NlValidation ''postal_address must be at most 500 characters'')
      else if cf_ConfirmTTL c < MinConfirmTTL \<or> cf_ConfirmTTL c > MaxConfirmTTL
      then Inl (NlValidation ''confirm_ttl_hours must be between 1 and 168'')
      else Inr ())"

definition ReadyToSend :: "nl_config \<Rightarrow> nl_error + unit" where
  "ReadyToSend c = (if trim_space (cf_postal c) = [] then Inl NlNotConfigured else Inr ())"

datatype issue_status = IssueDraft | IssueScheduled | IssueQueued | IssueSending | IssueSent | IssueCancelled

fun issue_transitions :: "issue_status \<Rightarrow> issue_status list" where
  "issue_transitions IssueDraft = [IssueScheduled, IssueQueued, IssueCancelled]"
| "issue_transitions IssueScheduled = [IssueDraft, IssueScheduled, IssueQueued, IssueCancelled]"
| "issue_transitions IssueQueued = [IssueCancelled]"
| "issue_transitions IssueSending = [IssueQueued, IssueCancelled]"
| "issue_transitions _ = []"

definition CanMove :: "issue_status \<Rightarrow> issue_status \<Rightarrow> bool" where
  "CanMove a b \<longleftrightarrow> b \<in> set (issue_transitions a)"

definition Editable :: "issue_status \<Rightarrow> bool" where
  "Editable st \<longleftrightarrow> st = IssueDraft \<or> st = IssueScheduled"

record nl_issue =
  is_uuid :: uuid
  is_subject :: string
  is_preheader :: string
  is_body :: string
  is_lists :: "string list"
  is_status :: issue_status
  is_send_at :: "instant option"
  is_queued :: "instant option"
  is_started :: "instant option"
  is_completed :: "instant option"
  is_sent :: nat
  is_failed :: nat
  is_created_by :: "uuid option"
  is_updated_by :: "uuid option"
  is_created :: instant
  is_updated :: instant

definition MaxSubjectLength :: nat where "MaxSubjectLength = 200"

definition MaxBodyLength :: nat where "MaxBodyLength = 200000"

definition one_line :: "string \<Rightarrow> bool" where
  "one_line s \<longleftrightarrow> CHR 0x0D \<notin> set s \<and> CHR 0x0A \<notin> set s"

definition is_Validate :: "nl_issue \<Rightarrow> nl_error + unit" where
  "is_Validate i =
     (if rune_count (trim_space (is_subject i)) = 0 \<or> rune_count (trim_space (is_subject i)) > MaxSubjectLength \<or> \<not> one_line (is_subject i)
      then Inl (NlValidation ''subject must be 1-200 characters on one line'')
      else if rune_count (is_preheader i) > MaxSubjectLength \<or> \<not> one_line (is_preheader i)
      then Inl (NlValidation ''preheader must be at most 200 characters on one line'')
      else if rune_count (trim_space (is_body i)) = 0 \<or> rune_count (trim_space (is_body i)) > MaxBodyLength
      then Inl (NlValidation ''body_markdown must be 1-200000 characters'')
      else if is_lists i = [] \<or> length (is_lists i) > MaxLists
      then Inl (NlValidation ''lists must name between 1 and 20 lists'')
      else Inr ())"

datatype delivery_status = DeliverySending | DeliverySent | DeliveryFailed

record nl_delivery =
  dl_issue :: uuid
  dl_sub :: uuid
  dl_status :: delivery_status
  dl_permanent :: bool
  dl_attempts :: nat
  dl_error :: string
  dl_sent :: "instant option"
  dl_updated :: instant

record nl_claim =
  cl_Limit :: nat
  cl_MaxAttempts :: nat
  cl_Now :: instant
  cl_StaleBefore :: instant
  cl_RetryBefore :: instant

record recipient =
  rc_issue :: uuid
  rc_sub :: uuid
  rc_email :: string
  rc_name :: string
  rc_format :: nl_format
  rc_attempts :: nat

record delivery_result =
  dr_issue :: uuid
  dr_sub :: uuid
  dr_sent :: bool
  dr_permanent :: bool
  dr_error :: string
  dr_at :: instant

record delivery_counts =
  dc_sent :: nat
  dc_failed :: nat
  dc_retryable :: nat

datatype bounce_kind = BounceHard | BounceSoft | Complaint

record provider_feedback =
  fb_kind :: "bounce_kind option"
  fb_email :: string

end
