(* ===== verification/Newsletter_Store.thy ===== *)
theory Newsletter_Store
  imports Newsletter_Domain
begin

text \<open>
  The newsletter's tables (\<^verbatim>\<open>persistence/newsletter_repository.go\<close>, \<^verbatim>\<open>newsletter_issue_repository.go\<close>, with the
  constraints of \<^verbatim>\<open>migrations/sql/00030_newsletter.sql\<close>). Clock readings, new ids and random texts are those of the
  moment: the n-th step of a run reads the n-th of each.
\<close>

section \<open>State\<close>

record nl_member =
  mb_sub :: uuid
  mb_list :: string
  mb_state :: member_state
  mb_joined :: "instant option"
  mb_left :: "instant option"

datatype nl_event =
    SubscriberChanged uuid nl_status string "uuid option" instant
  | IssueSendRequested uuid "uuid option" instant

datatype nl_mail =
    ConfirmMail string string string instant "string list"
  | WelcomeMail string string string "string list"

text \<open>
  \<open>nl_rank\<close> is the place of a slug in the database's collation. \<open>nl_provider n\<close> is the provider's answer to the
  n-th mail handed to it: accepted, or an error with its text and whether it is permanent. \<open>nl_locked n\<close> tells which
  subscriber rows another transaction holds when the n-th step is taken. \<open>nl_posted\<close> lists the mails handed over.
\<close>

record nl_store = store +
  nl_users :: "uuid list"
  nl_lists :: "nl_list list"
  nl_config :: "nl_config option"
  nl_subs :: "nl_row list"
  nl_members :: "nl_member list"
  nl_tokens :: "nl_token list"
  nl_consents :: "consent_event list"
  nl_issues :: "nl_issue list"
  nl_deliveries :: "nl_delivery list"
  nl_events :: "nl_event list"
  nl_mails :: "nl_mail list"
  nl_posted :: "(uuid \<times> uuid \<times> string) list"
  nl_rank :: "string \<Rightarrow> nat"
  nl_clock :: "nat \<Rightarrow> instant"
  nl_ids :: "nat \<Rightarrow> uuid"
  nl_random :: "nat \<Rightarrow> string"
  nl_provider :: "nat \<Rightarrow> (bool \<times> string) option"
  nl_locked :: "nat \<Rightarrow> uuid \<Rightarrow> bool"

type_synonym 'a nl_comp = "(nl_store, nl_error, 'a) comp"

text \<open>Reading the clock or drawing an id is a step of its own, which never fails; drawing a random text may.\<close>

definition draw :: "(nl_store \<Rightarrow> nat \<Rightarrow> 'a) \<Rightarrow> 'a nl_comp" where
  "draw f s = (Inr (f s (calls s)), s\<lparr>calls := Suc (calls s)\<rparr>)"

definition nl_Now :: "instant nl_comp" where
  "nl_Now = draw nl_clock"

definition nl_New :: "uuid nl_comp" where
  "nl_New = draw nl_ids"

definition nl_ext :: "'a \<Rightarrow> 'a nl_comp" where
  "nl_ext x = db_call (ret x)"

text \<open>\<open>idOf("users")\<close>: NULL for an account that is not there.\<close>

definition user_ref :: "nl_store \<Rightarrow> uuid option \<Rightarrow> uuid option" where
  "user_ref s u = (case u of Some x \<Rightarrow> if x \<in> set (nl_users s) then Some x else None | None \<Rightarrow> None)"

definition sub_known :: "nl_store \<Rightarrow> uuid \<Rightarrow> bool" where
  "sub_known s u \<longleftrightarrow> u \<in> sb_uuid ` set (nl_subs s)"

section \<open>Lists and settings\<close>

definition list_order :: "nl_store \<Rightarrow> nl_list \<Rightarrow> (nat \<times> int) \<times> nat \<times> nat" where
  "list_order s l = ((case ls_archived l of None \<Rightarrow> (0, 0) | Some t \<Rightarrow> (1, t)), ls_position l, nl_rank s (ls_slug l))"

definition Lists :: "bool \<Rightarrow> nl_list list nl_comp" where
  "Lists includeArchived = db_call (asks (\<lambda>s.
     sort_key (list_order s) (filter (\<lambda>l. includeArchived \<or> ls_archived l = None) (nl_lists s))))"

definition put_list :: "nat \<Rightarrow> list_input \<Rightarrow> nl_list list \<Rightarrow> nl_list list" where
  "put_list i l ls =
     (let new = \<lparr>ls_slug = li_slug l, ls_name = trim_space (li_name l), ls_description = li_description l, ls_default = li_default l,
                 ls_position = i, ls_archived = None\<rparr> in
      if li_slug l \<in> ls_slug ` set ls then map (\<lambda>x. if ls_slug x = li_slug l then new else x) ls else ls @ [new])"

fun save_lists :: "nat \<Rightarrow> list_input list \<Rightarrow> unit nl_comp" where
  "save_lists i [] = ret ()"
| "save_lists i (l # ls) =
     andthen (db_call (change (\<lambda>s. s\<lparr>nl_lists := put_list i l (nl_lists s)\<rparr>))) (\<lambda>_. save_lists (Suc i) ls)"

definition SaveLists :: "list_input list \<Rightarrow> instant \<Rightarrow> unit nl_comp" where
  "SaveLists ls at =
     andthen (save_lists 0 ls) (\<lambda>_.
     db_call (change (\<lambda>s. s\<lparr>nl_lists := map (\<lambda>x.
       if ls_archived x = None \<and> ls_slug x \<notin> li_slug ` set ls then x\<lparr>ls_archived := Some at, ls_default := False\<rparr> else x) (nl_lists s)\<rparr>)))"

definition nl_Config :: "nl_config nl_comp" where
  "nl_Config = db_call (asks (\<lambda>s. case nl_config s of None \<Rightarrow> DefaultConfig | Some c \<Rightarrow> c))"

text \<open>The lifetime is stored in whole seconds.\<close>

definition SaveConfig :: "nl_config \<Rightarrow> unit nl_comp" where
  "SaveConfig c = db_call (change (\<lambda>s.
     s\<lparr>nl_config := Some (c\<lparr>cf_ConfirmTTL := (cf_ConfirmTTL c div nl_second) * nl_second, cf_by := user_ref s (cf_by c)\<rparr>)\<rparr>))"

section \<open>Subscribers\<close>

definition list_place :: "nl_store \<Rightarrow> string \<Rightarrow> nat \<times> nat" where
  "list_place s slug = (case find (\<lambda>l. ls_slug l = slug) (nl_lists s) of None \<Rightarrow> (0, 0) | Some l \<Rightarrow> (ls_position l, nl_rank s slug))"

definition memberships :: "nl_store \<Rightarrow> uuid \<Rightarrow> membership list" where
  "memberships s u =
     map (\<lambda>m. \<lparr>ms_list = mb_list m, ms_state = mb_state m, ms_joined = mb_joined m, ms_left = mb_left m\<rparr>)
       (sort_key (\<lambda>m. list_place s (mb_list m)) (filter (\<lambda>m. mb_sub m = u) (nl_members s)))"

definition load :: "nl_store \<Rightarrow> nl_row \<Rightarrow> subscriber" where
  "load s r = nl_row.extend r \<lparr>sb_members = memberships s (sb_uuid r), sb_modified = False\<rparr>"

text \<open>The row and its memberships are two statements.\<close>

definition oneSubscriber :: "(nl_row \<Rightarrow> bool) \<Rightarrow> subscriber nl_comp" where
  "oneSubscriber P =
     andthen (db_call (\<lambda>s. case find P (nl_subs s) of None \<Rightarrow> (Inl (Err NlNotFound), s) | Some r \<Rightarrow> (Inr r, s))) (\<lambda>r.
     db_call (asks (\<lambda>s. load s r)))"

definition nl_Subscriber :: "uuid \<Rightarrow> subscriber nl_comp" where
  "nl_Subscriber u = oneSubscriber (\<lambda>r. sb_uuid r = u)"

definition SubscriberByEmail :: "string \<Rightarrow> subscriber nl_comp" where
  "SubscriberByEmail e = oneSubscriber (\<lambda>r. sb_email r = Some e)"

definition SubscriberByUser :: "uuid \<Rightarrow> subscriber nl_comp" where
  "SubscriberByUser u = oneSubscriber (\<lambda>r. sb_user r = Some u)"

definition put_member :: "uuid \<Rightarrow> membership \<Rightarrow> nl_store \<Rightarrow> nl_store" where
  "put_member u m s =
     (if \<not> sub_known s u \<or> ms_list m \<notin> ls_slug ` set (nl_lists s) then s
      else let new = \<lparr>mb_sub = u, mb_list = ms_list m, mb_state = ms_state m, mb_joined = ms_joined m, mb_left = ms_left m\<rparr> in
      if \<exists>x \<in> set (nl_members s). mb_sub x = u \<and> mb_list x = ms_list m
      then s\<lparr>nl_members := map (\<lambda>x. if mb_sub x = u \<and> mb_list x = ms_list m then new else x) (nl_members s)\<rparr>
      else s\<lparr>nl_members := nl_members s @ [new]\<rparr>)"

fun saveMemberships :: "uuid \<Rightarrow> membership list \<Rightarrow> unit nl_comp" where
  "saveMemberships u [] = ret ()"
| "saveMemberships u (m # ms) = andthen (db_call (change (put_member u m))) (\<lambda>_. saveMemberships u ms)"

definition row_conflict :: "nl_store \<Rightarrow> nl_row \<Rightarrow> bool" where
  "row_conflict s r \<longleftrightarrow>
     list_ex (\<lambda>q. sb_uuid q = sb_uuid r \<or> (sb_email r \<noteq> None \<and> sb_email q = sb_email r) \<or>
                  (sb_user r \<noteq> None \<and> sb_user q = sb_user r)) (nl_subs s)"

text \<open>
  A row is erased exactly when it has no address: the table checks it. The insert leaves the times of
  unsubscribing, bouncing, complaining and erasing empty.
\<close>

definition nl_row_of :: "nl_store \<Rightarrow> subscriber \<Rightarrow> nl_row" where
  "nl_row_of s x = nl_row.truncate x\<lparr>sb_user := user_ref s (sb_user x)\<rparr>"

definition CreateSubscriber :: "subscriber \<Rightarrow> unit nl_comp" where
  "CreateSubscriber x = within_tx (
     andthen (db_call (\<lambda>s.
       let r = (nl_row_of s x)\<lparr>sb_unsubscribed := None, sb_bounced := None, sb_complained := None, sb_erased := None\<rparr> in
       if row_conflict s r then (Inl (Err NlConflict), s)
       else if (sb_status r = NlErased) \<noteq> (sb_email r = None) then (Inl StoreFail, s)
       else (Inr (), s\<lparr>nl_subs := nl_subs s @ [r]\<rparr>))) (\<lambda>_.
     saveMemberships (sb_uuid x) (sb_members x)))"

definition put_sub :: "nl_row \<Rightarrow> nl_row \<Rightarrow> nl_row" where
  "put_sub x r =
     r\<lparr>sb_name := sb_name x, sb_user := sb_user x, sb_status := sb_status x, sb_format := sb_format x, sb_sends := sb_sends x,
       sb_window := sb_window x, sb_opted := sb_opted x, sb_unsubscribed := sb_unsubscribed x, sb_bounced := sb_bounced x,
       sb_complained := sb_complained x, sb_updated := sb_updated x\<rparr>"

definition UpdateSubscriber :: "subscriber \<Rightarrow> unit nl_comp" where
  "UpdateSubscriber x =
     andthen (db_call (\<lambda>s.
       let new = map (\<lambda>r. if sb_uuid r = sb_uuid x then put_sub (nl_row_of s x) r else r) (nl_subs s) in
       if list_ex (\<lambda>r. sb_uuid r \<noteq> sb_uuid x \<and> sb_user r \<noteq> None \<and> sb_user r = user_ref s (sb_user x)) (nl_subs s) \<and> sub_known s (sb_uuid x)
       then (Inl StoreFail, s)
       else if list_ex (\<lambda>r. sb_uuid r = sb_uuid x \<and> (sb_status x = NlErased) \<noteq> (sb_email r = None)) (nl_subs s)
       then (Inl StoreFail, s)
       else (Inr (), s\<lparr>nl_subs := new\<rparr>))) (\<lambda>_.
     if sb_modified x then saveMemberships (sb_uuid x) (sb_members x) else ret ())"

text \<open>Four statements: the row, the memberships, the history and the tokens.\<close>

definition EraseSubscriber :: "uuid \<Rightarrow> instant \<Rightarrow> unit nl_comp" where
  "EraseSubscriber u at =
     andthen (db_call (change (\<lambda>s. s\<lparr>nl_subs := map (\<lambda>r. if sb_uuid r = u
       then r\<lparr>sb_email := None, sb_name := [], sb_user := None, sb_ip := [], sb_agent := [], sb_status := NlErased,
              sb_erased := Some at, sb_updated := at\<rparr> else r) (nl_subs s)\<rparr>))) (\<lambda>_.
     andthen (db_call (change (\<lambda>s. s\<lparr>nl_members := map (\<lambda>m. if mb_sub m = u \<and> mb_state m \<noteq> MemberLeft
       then m\<lparr>mb_state := MemberLeft, mb_left := (case mb_left m of None \<Rightarrow> Some at | Some t \<Rightarrow> Some t)\<rparr> else m) (nl_members s)\<rparr>))) (\<lambda>_.
     andthen (db_call (change (\<lambda>s. s\<lparr>nl_consents := map (\<lambda>e. if ce_sub e = u then e\<lparr>ce_feedback := [], ce_ip := []\<rparr> else e) (nl_consents s)\<rparr>))) (\<lambda>_.
     db_call (change (\<lambda>s. s\<lparr>nl_tokens := filter (\<lambda>t. tk_sub t \<noteq> u) (nl_tokens s)\<rparr>)))))"

section \<open>Tokens and consent\<close>

definition CreateToken :: "nl_token \<Rightarrow> unit nl_comp" where
  "CreateToken t = db_call (\<lambda>s.
     if \<not> sub_known s (tk_sub t) \<or> tk_hash t \<in> tk_hash ` set (nl_tokens s) then (Inl StoreFail, s)
     else (Inr (), s\<lparr>nl_tokens := nl_tokens s @ [t\<lparr>tk_used := None,
             tk_issue := (case tk_issue t of Some i \<Rightarrow> if i \<in> is_uuid ` set (nl_issues s) then Some i else None | None \<Rightarrow> None)\<rparr>]\<rparr>))"

definition nl_Token :: "string \<Rightarrow> nl_token nl_comp" where
  "nl_Token h = db_call (\<lambda>s. case find (\<lambda>t. tk_hash t = h) (nl_tokens s) of
                               None \<Rightarrow> (Inl (Err NlNotFound), s)
                             | Some t \<Rightarrow> (Inr t, s))"

definition UseToken :: "string \<Rightarrow> instant \<Rightarrow> bool nl_comp" where
  "UseToken h at = db_call (\<lambda>s.
     (Inr (list_ex (\<lambda>t. tk_hash t = h \<and> tk_used t = None) (nl_tokens s)),
      s\<lparr>nl_tokens := map (\<lambda>t. if tk_hash t = h \<and> tk_used t = None then t\<lparr>tk_used := Some at\<rparr> else t) (nl_tokens s)\<rparr>))"

definition RevokeTokens :: "uuid \<Rightarrow> token_purpose \<Rightarrow> unit nl_comp" where
  "RevokeTokens u p = db_call (change (\<lambda>s. s\<lparr>nl_tokens := filter (\<lambda>t. \<not> (tk_sub t = u \<and> tk_purpose t = p)) (nl_tokens s)\<rparr>))"

definition nl_PruneTokens :: "instant \<Rightarrow> nat nl_comp" where
  "nl_PruneTokens before = db_call (\<lambda>s.
     (Inr (length (filter (\<lambda>t. tk_expires t < before) (nl_tokens s))),
      s\<lparr>nl_tokens := filter (\<lambda>t. \<not> tk_expires t < before) (nl_tokens s)\<rparr>))"

fun AppendConsent :: "consent_event list \<Rightarrow> unit nl_comp" where
  "AppendConsent [] = ret ()"
| "AppendConsent (e # es) =
     andthen (db_call (\<lambda>s. if sub_known s (ce_sub e) then (Inr (), s\<lparr>nl_consents := nl_consents s @ [e]\<rparr>) else (Inl StoreFail, s))) (\<lambda>_.
     AppendConsent es)"

definition ConsentHistory :: "uuid \<Rightarrow> nat \<Rightarrow> consent_event list nl_comp" where
  "ConsentHistory u limit = db_call (asks (\<lambda>s.
     take limit (rev (sort_key ce_at (filter (\<lambda>e. ce_sub e = u) (nl_consents s))))))"

section \<open>Issues and deliveries\<close>

text \<open>Of the requested lists those that are there; reading puts them in display order.\<close>

definition stored_lists :: "nl_store \<Rightarrow> string list \<Rightarrow> string list" where
  "stored_lists s slugs = filter (\<lambda>x. x \<in> set slugs) (map ls_slug (nl_lists s))"

text \<open>The insert sets neither counts nor the times of starting and completing.\<close>

definition nl_CreateIssue :: "nl_issue \<Rightarrow> unit nl_comp" where
  "nl_CreateIssue i = within_tx (
     andthen (db_call (\<lambda>s.
       if is_uuid i \<in> is_uuid ` set (nl_issues s) \<or> (is_status i = IssueScheduled \<and> is_send_at i = None) then (Inl StoreFail, s)
       else (Inr (), s\<lparr>nl_issues := nl_issues s @ [i\<lparr>is_lists := [], is_started := None, is_completed := None, is_sent := 0, is_failed := 0,
               is_created_by := user_ref s (is_created_by i), is_updated_by := user_ref s (is_updated_by i)\<rparr>]\<rparr>))) (\<lambda>_.
     andthen (db_call (ret ())) (\<lambda>_.
     db_call (change (\<lambda>s. s\<lparr>nl_issues := map (\<lambda>x. if is_uuid x = is_uuid i then x\<lparr>is_lists := stored_lists s (is_lists i)\<rparr> else x) (nl_issues s)\<rparr>)))))"

definition nl_UpdateIssue :: "nl_issue \<Rightarrow> issue_status \<Rightarrow> bool nl_comp" where
  "nl_UpdateIssue i expected = within_tx (
     andthen (db_call (\<lambda>s.
       let hit = (\<lambda>x. is_uuid x = is_uuid i \<and> is_status x = expected) in
       if list_ex hit (nl_issues s) \<and> is_status i = IssueScheduled \<and> is_send_at i = None then (Inl StoreFail, s)
       else (Inr (list_ex hit (nl_issues s)),
         s\<lparr>nl_issues := map (\<lambda>x. if hit x
             then x\<lparr>is_subject := is_subject i, is_preheader := is_preheader i, is_body := is_body i, is_status := is_status i,
                    is_send_at := is_send_at i, is_queued := is_queued i, is_updated_by := user_ref s (is_updated_by i),
                    is_updated := is_updated i\<rparr> else x) (nl_issues s)\<rparr>))) (\<lambda>saved.
     if \<not> saved then ret False
     else
     andthen (db_call (change (\<lambda>s. s\<lparr>nl_issues := map (\<lambda>x. if is_uuid x = is_uuid i then x\<lparr>is_lists := []\<rparr> else x) (nl_issues s)\<rparr>))) (\<lambda>_.
     andthen (db_call (change (\<lambda>s. s\<lparr>nl_issues := map (\<lambda>x. if is_uuid x = is_uuid i then x\<lparr>is_lists := stored_lists s (is_lists i)\<rparr> else x) (nl_issues s)\<rparr>))) (\<lambda>_.
     ret True))))"

definition read_issue :: "nl_store \<Rightarrow> nl_issue \<Rightarrow> nl_issue" where
  "read_issue s i = i\<lparr>is_lists := sort_key (list_place s) (is_lists i)\<rparr>"

text \<open>The rows and their lists are two statements.\<close>

definition Issue :: "uuid \<Rightarrow> nl_issue nl_comp" where
  "Issue u =
     andthen (db_call (\<lambda>s. case find (\<lambda>i. is_uuid i = u) (nl_issues s) of None \<Rightarrow> (Inl (Err NlNotFound), s) | Some i \<Rightarrow> (Inr i, s))) (\<lambda>i.
     db_call (asks (\<lambda>s. read_issue s i)))"

definition due_at :: "nl_issue \<Rightarrow> instant" where
  "due_at i = (case is_send_at i of None \<Rightarrow> 0 | Some t \<Rightarrow> t)"

definition DueIssues :: "instant \<Rightarrow> nat \<Rightarrow> nl_issue list nl_comp" where
  "DueIssues now limit =
     andthen (db_call (asks (\<lambda>s. take limit (sort_key due_at
       (filter (\<lambda>i. is_status i = IssueScheduled \<and> is_send_at i \<noteq> None \<and> due_at i \<le> now) (nl_issues s)))))) (\<lambda>is.
     if is = [] then ret [] else db_call (asks (\<lambda>s. map (read_issue s) is)))"

definition MoveIssue :: "uuid \<Rightarrow> issue_status list \<Rightarrow> issue_status \<Rightarrow> instant \<Rightarrow> bool nl_comp" where
  "MoveIssue u froms to at = db_call (\<lambda>s.
     let hit = (\<lambda>x. is_uuid x = u \<and> is_status x \<in> set froms) in
     if to = IssueScheduled \<and> list_ex (\<lambda>x. hit x \<and> is_send_at x = None) (nl_issues s) then (Inl StoreFail, s)
     else (Inr (list_ex hit (nl_issues s)),
       s\<lparr>nl_issues := map (\<lambda>x. if hit x
           then x\<lparr>is_status := to, is_updated := at, is_queued := (if to = IssueQueued then Some at else is_queued x),
                  is_started := (if to = IssueSending then (case is_started x of None \<Rightarrow> Some at | Some t \<Rightarrow> Some t) else is_started x)\<rparr>
           else x) (nl_issues s)\<rparr>))"

definition FinishIssue :: "uuid \<Rightarrow> delivery_counts \<Rightarrow> instant \<Rightarrow> bool nl_comp" where
  "FinishIssue u c at = db_call (\<lambda>s.
     let hit = (\<lambda>x. is_uuid x = u \<and> is_status x = IssueSending) in
     (Inr (list_ex hit (nl_issues s)),
      s\<lparr>nl_issues := map (\<lambda>x. if hit x then x\<lparr>is_status := IssueSent, is_sent := dc_sent c, is_failed := dc_failed c, is_completed := Some at,
           is_updated := at\<rparr> else x) (nl_issues s)\<rparr>))"

text \<open>An active subscriber with an active membership of one of the issue's lists.\<close>

definition lists_of :: "nl_store \<Rightarrow> uuid \<Rightarrow> string list" where
  "lists_of s u = concat (map is_lists (filter (\<lambda>i. is_uuid i = u) (nl_issues s)))"

definition reachable_sub :: "nl_store \<Rightarrow> uuid \<Rightarrow> nl_row \<Rightarrow> bool" where
  "reachable_sub s u r \<longleftrightarrow> sb_status r = NlActive \<and>
     list_ex (\<lambda>m. mb_sub m = sb_uuid r \<and> mb_state m = MemberActive \<and> mb_list m \<in> set (lists_of s u)) (nl_members s)"

definition held_back :: "nl_claim \<Rightarrow> nl_delivery \<Rightarrow> bool" where
  "held_back c d \<longleftrightarrow> dl_status d = DeliverySent \<or> dl_permanent d \<or> cl_MaxAttempts c \<le> dl_attempts d \<or>
     (dl_status d = DeliverySending \<and> cl_StaleBefore c \<le> dl_updated d) \<or>
     (dl_status d = DeliveryFailed \<and> cl_RetryBefore c \<le> dl_updated d)"

definition is_delivery :: "uuid \<Rightarrow> uuid \<Rightarrow> nl_delivery \<Rightarrow> bool" where
  "is_delivery i u d \<longleftrightarrow> dl_issue d = i \<and> dl_sub d = u"

definition candidates :: "nl_store \<Rightarrow> uuid \<Rightarrow> nl_claim \<Rightarrow> nl_row list" where
  "candidates s i c = take (cl_Limit c) (filter (\<lambda>r. reachable_sub s i r \<and> \<not> nl_locked s (calls s) (sb_uuid r) \<and>
     \<not> list_ex (\<lambda>d. is_delivery i (sb_uuid r) d \<and> held_back c d) (nl_deliveries s)) (nl_subs s))"

text \<open>The upsert of one candidate; the guard of its update holds for every candidate that is not locked.\<close>

definition claim_row :: "uuid \<Rightarrow> nl_claim \<Rightarrow> nl_delivery \<Rightarrow> nl_delivery" where
  "claim_row i c d = d\<lparr>dl_status := DeliverySending, dl_attempts := Suc (dl_attempts d), dl_error := [], dl_updated := cl_Now c\<rparr>"

definition claimable :: "nl_claim \<Rightarrow> nl_delivery \<Rightarrow> bool" where
  "claimable c d \<longleftrightarrow> dl_status d \<noteq> DeliverySent \<and> \<not> dl_permanent d \<and> dl_attempts d < cl_MaxAttempts c \<and>
     (dl_status d = DeliveryFailed \<or> dl_updated d < cl_StaleBefore c)"

definition new_delivery :: "uuid \<Rightarrow> nl_claim \<Rightarrow> uuid \<Rightarrow> nl_delivery" where
  "new_delivery i c u =
     \<lparr>dl_issue = i, dl_sub = u, dl_status = DeliverySending, dl_permanent = False, dl_attempts = 1, dl_error = [], dl_sent = None,
      dl_updated = cl_Now c\<rparr>"

definition claimed :: "nl_store \<Rightarrow> uuid \<Rightarrow> nl_claim \<Rightarrow> nl_delivery list" where
  "claimed s i c =
     (let us = map sb_uuid (candidates s i c) in
      map (\<lambda>d. if dl_issue d = i \<and> dl_sub d \<in> set us \<and> claimable c d then claim_row i c d else d) (nl_deliveries s) @
      map (new_delivery i c) (filter (\<lambda>u. \<not> list_ex (is_delivery i u) (nl_deliveries s)) us))"

text \<open>The claim returns the rows it wrote; a second statement reads the subscribers.\<close>

definition claim_hit :: "nl_store \<Rightarrow> uuid \<Rightarrow> nl_claim \<Rightarrow> nl_row \<Rightarrow> bool" where
  "claim_hit s i c r \<longleftrightarrow>
     (case find (is_delivery i (sb_uuid r)) (nl_deliveries s) of None \<Rightarrow> i \<in> is_uuid ` set (nl_issues s) | Some d \<Rightarrow> claimable c d)"

definition attempts_of :: "nl_delivery list \<Rightarrow> uuid \<Rightarrow> uuid \<Rightarrow> nat" where
  "attempts_of ds i u = (case find (is_delivery i u) ds of None \<Rightarrow> 0 | Some d \<Rightarrow> dl_attempts d)"

fun recipient_of :: "nl_store \<Rightarrow> uuid \<Rightarrow> uuid \<times> nat \<Rightarrow> recipient list" where
  "recipient_of s i (u, n) =
     (case find (\<lambda>r. sb_uuid r = u) (nl_subs s) of
        None \<Rightarrow> []
      | Some r \<Rightarrow> [\<lparr>rc_issue = i, rc_sub = u, rc_email = (case sb_email r of None \<Rightarrow> [] | Some e \<Rightarrow> e), rc_name = sb_name r,
                    rc_format = sb_format r, rc_attempts = n\<rparr>])"

definition read_recipients :: "uuid \<Rightarrow> (uuid \<times> nat) list \<Rightarrow> recipient list nl_comp" where
  "read_recipients i hits = (if hits = [] then ret [] else db_call (asks (\<lambda>s. concat (map (recipient_of s i) hits))))"

definition ClaimRecipients :: "uuid \<Rightarrow> nl_claim \<Rightarrow> recipient list nl_comp" where
  "ClaimRecipients i c =
     andthen (db_call (\<lambda>s.
       let hits = filter (claim_hit s i c) (candidates s i c) in
       (Inr (map (\<lambda>r. (sb_uuid r, attempts_of (claimed s i c) i (sb_uuid r))) hits), s\<lparr>nl_deliveries := claimed s i c\<rparr>))) (\<lambda>hits.
     read_recipients i hits)"

definition put_result :: "delivery_result \<Rightarrow> nl_delivery \<Rightarrow> nl_delivery" where
  "put_result x d =
     d\<lparr>dl_status := (if dr_sent x then DeliverySent else DeliveryFailed), dl_permanent := dr_permanent x, dl_error := dr_error x,
       dl_sent := (if dr_sent x then Some (dr_at x) else None), dl_updated := dr_at x\<rparr>"

definition RecordDelivery :: "delivery_result \<Rightarrow> unit nl_comp" where
  "RecordDelivery x = db_call (change (\<lambda>s.
     s\<lparr>nl_deliveries := map (\<lambda>d. if is_delivery (dr_issue x) (dr_sub x) d then put_result x d else d) (nl_deliveries s)\<rparr>))"

definition sub_reachable :: "nl_store \<Rightarrow> uuid \<Rightarrow> uuid \<Rightarrow> bool" where
  "sub_reachable s i u \<longleftrightarrow> list_ex (\<lambda>r. sb_uuid r = u \<and> reachable_sub s i r) (nl_subs s)"

definition DeliveryCounts :: "uuid \<Rightarrow> nat \<Rightarrow> delivery_counts nl_comp" where
  "DeliveryCounts i maxAttempts = db_call (asks (\<lambda>s.
     let ds = filter (\<lambda>d. dl_issue d = i) (nl_deliveries s);
         lost = (\<lambda>d. dl_permanent d \<or> maxAttempts \<le> dl_attempts d \<or> \<not> sub_reachable s i (dl_sub d)) in
     \<lparr>dc_sent = length (filter (\<lambda>d. dl_status d = DeliverySent) ds),
      dc_failed = length (filter (\<lambda>d. dl_status d \<noteq> DeliverySent \<and> lost d) ds),
      dc_retryable = length (filter (\<lambda>d. dl_status d \<noteq> DeliverySent \<and> \<not> lost d) ds)\<rparr>))"

end
