(* ===== verification/Newsletter_Service.thy ===== *)
theory Newsletter_Service
  imports Newsletter_Store
begin

text \<open>
  Subscriptions (\<^verbatim>\<open>core/newsletter/service/service.go\<close>, \<^verbatim>\<open>account.go\<close>): the public double opt-in, the links of
  the mails, and the subscription of a signed-in account, as \<^verbatim>\<open>internal/bootstrap/newsletter.go\<close> wires them. A
  handler that fills a subscriber in place takes it as an argument and returns it, or saves it.
\<close>

section \<open>What the service is given\<close>

text \<open>
  Hashes, the address parser, the captcha, the accounts, the webhook's signature check and the JSON decoder are other
  code; \<open>ne_text\<close> is the text of an error.
\<close>

record nl_account =
  na_Email :: string
  na_Name :: string
  na_Verified :: bool

record nl_env =
  ne_lower :: "nat \<Rightarrow> nat"
  ne_Parse :: "string \<Rightarrow> string option"
  ne_hashToken :: "string \<Rightarrow> string"
  ne_MAC :: "string \<Rightarrow> string"
  ne_Mailer :: bool
  ne_Sender :: bool
  ne_Captcha :: "(string \<Rightarrow> string \<Rightarrow> bool) option"
  ne_Accounts :: "(uuid \<Rightarrow> nl_account option) option"
  ne_Webhooks :: "(string \<Rightarrow> string \<Rightarrow> string \<Rightarrow> bool) option"
  ne_decode :: "string \<Rightarrow> (string \<times> string) list option"
  ne_text :: "nl_error failure \<Rightarrow> string"
  ne_BatchSize :: int
  ne_MaxAttempts :: int
  ne_ClaimTimeout :: int
  ne_LinkTTL :: int

definition DefaultBatchSize :: int where "DefaultBatchSize = 50"

definition DefaultMaxAttempts :: int where "DefaultMaxAttempts = 3"

definition DefaultClaimTimeout :: int where "DefaultClaimTimeout = 600 * nl_second"

definition DefaultLinkTTL :: int where "DefaultLinkTTL = 37 * 24 * 3600 * nl_second"

definition confirmWindow :: int where "confirmWindow = 1800 * nl_second"

definition confirmPerWindow :: int where "confirmPerWindow = 3"

definition maxTokenLength :: nat where "maxTokenLength = 128"

definition nl_maxNameLength :: nat where "nl_maxNameLength = 100"

definition newsletter_New :: "nl_env \<Rightarrow> nl_env" where
  "newsletter_New E =
     E\<lparr>ne_BatchSize := (if ne_BatchSize E \<le> 0 then DefaultBatchSize else ne_BatchSize E),
       ne_MaxAttempts := (if ne_MaxAttempts E \<le> 0 then DefaultMaxAttempts else ne_MaxAttempts E),
       ne_ClaimTimeout := (if ne_ClaimTimeout E \<le> 0 then DefaultClaimTimeout else ne_ClaimTimeout E),
       ne_LinkTTL := (if ne_LinkTTL E \<le> 0 then DefaultLinkTTL else ne_LinkTTL E)\<rparr>"

text \<open>\<open>Events.Record\<close> writes the outbox in the running transaction.\<close>

definition nl_record :: "nl_event \<Rightarrow> unit nl_comp" where
  "nl_record e = db_call (change (\<lambda>s. s\<lparr>nl_events := nl_events s @ [e]\<rparr>))"

definition subscriberEvent :: "subscriber \<Rightarrow> string \<Rightarrow> uuid option \<Rightarrow> instant \<Rightarrow> nl_event" where
  "subscriberEvent x what actor now = SubscriberChanged (sb_uuid x) (sb_status x) what actor now"

definition nl_NormalizeE :: "nl_env \<Rightarrow> string \<Rightarrow> string nl_comp" where
  "nl_NormalizeE E raw = of_result (nl_NormalizeEmail (ne_lower E) (ne_Parse E) raw)"

section \<open>Helpers\<close>

definition nl_hashIdentity :: "nl_env \<Rightarrow> string \<Rightarrow> string" where
  "nl_hashIdentity E v = (if v = [] then [] else ne_MAC E v)"

definition cleanName :: "string \<Rightarrow> nl_error + string" where
  "cleanName raw =
     (let name = trim_space raw in
      if rune_count name > nl_maxNameLength \<or> \<not> set name \<inter> {CHR 0x0D, CHR 0x0A, CHR ''<'', CHR ''>''} = {}
      then Inl (NlValidation ''name must be at most 100 characters without angle brackets or line breaks'')
      else Inr name)"

fun rune_cut :: "string \<Rightarrow> nat \<Rightarrow> nat" where
  "rune_cut v 0 = 0"
| "rune_cut v (Suc n) = (if is_cont (v ! Suc n) then rune_cut v n else Suc n)"

definition nl_truncate :: "string \<Rightarrow> nat \<Rightarrow> string" where
  "nl_truncate v n = (if length v \<le> n then v else take (rune_cut v n) v)"

definition nl_consent :: "subscriber \<Rightarrow> consent_kind \<Rightarrow> string \<Rightarrow> nl_source \<Rightarrow> string \<Rightarrow> instant \<Rightarrow> consent_event" where
  "nl_consent x k l src ip now =
     \<lparr>ce_sub = sb_uuid x, ce_kind = k, ce_list = l, ce_source = src, ce_reason = [], ce_feedback = [], ce_ip = ip, ce_at = now\<rparr>"

definition listEvents :: "subscriber \<Rightarrow> consent_kind \<Rightarrow> string list \<Rightarrow> nl_source \<Rightarrow> instant \<Rightarrow> consent_event list" where
  "listEvents x k ls src now = map (\<lambda>l. nl_consent x k l src [] now) ls"

definition nl_activate :: "instant \<Rightarrow> subscriber \<Rightarrow> subscriber" where
  "nl_activate now x = x\<lparr>sb_status := NlActive, sb_opted := Some now, sb_unsubscribed := None\<rparr>"

definition pendingLists :: "subscriber \<Rightarrow> string list" where
  "pendingLists = lists_in MemberPending"

definition allowConfirm :: "subscriber \<Rightarrow> instant \<Rightarrow> bool \<times> subscriber" where
  "allowConfirm x now =
     (let y = (case sb_window x of
                 None \<Rightarrow> x\<lparr>sb_window := Some now, sb_sends := 0\<rparr>
               | Some t \<Rightarrow> if now - t \<ge> confirmWindow then x\<lparr>sb_window := Some now, sb_sends := 0\<rparr> else x) in
      if sb_sends y \<ge> confirmPerWindow then (False, y) else (True, y\<lparr>sb_sends := sb_sends y + 1\<rparr>))"

definition newSubscriber ::
  "string \<Rightarrow> string \<Rightarrow> nl_format \<Rightarrow> nl_source \<Rightarrow> string \<Rightarrow> string \<Rightarrow> subscriber nl_comp" where
  "newSubscriber email name fmt src ip agent =
     andthen nl_Now (\<lambda>now. andthen nl_New (\<lambda>u. ret
       \<lparr>sb_uuid = u, sb_email = Some email, sb_name = name, sb_user = None, sb_status = NlPending, sb_format = fmt,
        sb_source = src, sb_ip = ip, sb_agent = nl_truncate agent 512, sb_sends = 0, sb_window = None, sb_opted = None,
        sb_unsubscribed = None, sb_bounced = None, sb_complained = None, sb_erased = None, sb_created = now, sb_updated = now,
        sb_members = [], sb_modified = False\<rparr>))"

definition byEmail :: "string \<Rightarrow> subscriber option nl_comp" where
  "byEmail e =
     andthen (attempt (SubscriberByEmail e)) (\<lambda>r.
     case r of
       Inl f \<Rightarrow> if f = Err NlNotFound then ret None else raise f
     | Inr x \<Rightarrow> ret (Some x))"

fun pick :: "nl_list list \<Rightarrow> string list \<Rightarrow> nl_list list \<Rightarrow> nl_error + nl_list list" where
  "pick all [] out = Inr out"
| "pick all (x # xs) out =
     (case find (\<lambda>l. ls_slug l = x) all of
        None \<Rightarrow> Inl (NlValidation ''unknown list'')
      | Some l \<Rightarrow> pick all xs (if list_ex (\<lambda>o'. ls_slug o' = x) out then out else out @ [l]))"

definition pickLists :: "nl_list list \<Rightarrow> string list \<Rightarrow> nl_error + nl_list list" where
  "pickLists all slugs =
     (if length slugs > MaxLists then Inl (NlValidation ''at most 20 lists'') else pick all slugs [])"

definition resolveLists :: "string list \<Rightarrow> nl_list list nl_comp" where
  "resolveLists slugs =
     andthen (Lists False) (\<lambda>all.
     if slugs = []
     then (let defaults = filter ls_default all in if defaults = [] then throw NlNotConfigured else ret defaults)
     else of_result (pickLists all slugs))"

definition resolveExact :: "string list \<Rightarrow> string list nl_comp" where
  "resolveExact slugs =
     andthen (Lists False) (\<lambda>all.
     andthen (of_result (pickLists all slugs)) (\<lambda>picked. ret (map ls_slug picked)))"

text \<open>
  A list that cannot be read is named by its slug. The callers run in a transaction, which a statement that fails
  brings to an end, so there the failure is the handler's.
\<close>

definition listNames :: "string list \<Rightarrow> string list nl_comp" where
  "listNames slugs =
     andthen (Lists True) (\<lambda>all. ret (map (\<lambda>x. case find (\<lambda>l. ls_slug l = x) all of None \<Rightarrow> x | Some l \<Rightarrow> ls_name l) slugs))"

definition issueToken :: "nl_env \<Rightarrow> uuid \<Rightarrow> token_purpose \<Rightarrow> uuid option \<Rightarrow> instant \<Rightarrow> string nl_comp" where
  "issueToken E u p iss expires =
     andthen (db_call (asks (\<lambda>s. nl_random s (calls s)))) (\<lambda>raw.
     andthen nl_Now (\<lambda>now.
     andthen (CreateToken \<lparr>tk_sub = u, tk_purpose = p, tk_hash = ne_hashToken E raw, tk_issue = iss, tk_expires = expires,
                           tk_used = None, tk_created = now\<rparr>) (\<lambda>_.
     ret raw)))"

definition lookupToken :: "nl_env \<Rightarrow> string \<Rightarrow> token_purpose \<Rightarrow> nl_token nl_comp" where
  "lookupToken E raw p =
     (let v = trim_space raw in
      if v = [] \<or> length v > maxTokenLength then throw NlTokenInvalid
      else
      andthen (attempt (nl_Token (ne_hashToken E v))) (\<lambda>r.
      case r of
        Inl f \<Rightarrow> if f = Err NlNotFound then throw NlTokenInvalid else raise f
      | Inr t \<Rightarrow> if tk_purpose t \<noteq> p then throw NlTokenInvalid
                else andthen nl_Now (\<lambda>now. if now < tk_expires t then ret t else throw NlTokenExpired)))"

definition verifyCaptcha :: "nl_env \<Rightarrow> string \<Rightarrow> string \<Rightarrow> unit nl_comp" where
  "verifyCaptcha E tok ip =
     (case ne_Captcha E of
        None \<Rightarrow> ret ()
      | Some verify \<Rightarrow> andthen (nl_ext (verify tok ip)) (\<lambda>ok. if ok then ret () else throw NlCaptcha))"

text \<open>A mail that cannot be sent is only logged.\<close>

definition nl_post :: "nl_env \<Rightarrow> nl_mail option \<Rightarrow> unit nl_comp" where
  "nl_post E mail =
     (case mail of
        None \<Rightarrow> ret ()
      | Some x \<Rightarrow> if ne_Mailer E then andthen (attempt (db_call (change (\<lambda>s. s\<lparr>nl_mails := nl_mails s @ [x]\<rparr>)))) (\<lambda>_. ret ()) else ret ())"

definition address :: "subscriber \<Rightarrow> string" where
  "address x = (case sb_email x of None \<Rightarrow> [] | Some e \<Rightarrow> e)"

section \<open>Double opt-in\<close>

definition set_pending :: "instant \<Rightarrow> nl_list list \<Rightarrow> subscriber \<Rightarrow> subscriber" where
  "set_pending now ls x =
     foldl (\<lambda>y l. if in_state y (ls_slug l) MemberActive then y else SetMembership (ls_slug l) MemberPending now y) x ls"

definition requestConfirmation ::
  "nl_env \<Rightarrow> subscriber \<Rightarrow> nl_list list \<Rightarrow> nl_config \<Rightarrow> bool \<Rightarrow> string \<Rightarrow> nl_source \<Rightarrow> nl_mail option nl_comp" where
  "requestConfirmation E sub ls cfg create ip src =
     andthen nl_Now (\<lambda>now.
     let x = set_pending now ls sub;
         pending = pendingLists x;
         (send, y) = (if pending = [] then (False, x) else allowConfirm x now);
         z = y\<lparr>sb_updated := now\<rparr> in
     andthen (if create then attempt (CreateSubscriber z) else andthen (UpdateSubscriber z) (\<lambda>_. ret (Inr ()))) (\<lambda>r.
     case r of
       Inl f \<Rightarrow> if f = Err NlConflict then ret None else raise f
     | Inr _ \<Rightarrow>
         if \<not> send then ret None
         else
         andthen (RevokeTokens (sb_uuid z) PurposeConfirm) (\<lambda>_.
         andthen (issueToken E (sb_uuid z) PurposeConfirm None (now + cf_ConfirmTTL cfg)) (\<lambda>raw.
         andthen (AppendConsent [nl_consent z ConsentConfirmSent [] src ip now]) (\<lambda>_.
         andthen (listNames pending) (\<lambda>names.
         ret (Some (ConfirmMail (address z) (sb_name z) raw (now + cf_ConfirmTTL cfg) names))))))))"

record subscribe_input =
  su_Email :: string
  su_Name :: string
  su_Lists :: "string list"
  su_Format :: string
  su_Honeypot :: string
  su_Captcha :: string
  su_IP :: string
  su_UserAgent :: string

definition Subscribe :: "nl_env \<Rightarrow> subscribe_input \<Rightarrow> unit nl_comp" where
  "Subscribe E i =
     (if su_Honeypot i \<noteq> [] then ret ()
      else
      andthen (nl_NormalizeE E (su_Email i)) (\<lambda>email.
      andthen (of_result (cleanName (su_Name i))) (\<lambda>name.
      andthen (of_result (ParseFormat (su_Format i))) (\<lambda>fmt.
      andthen (verifyCaptcha E (su_Captcha i) (su_IP i)) (\<lambda>_.
      andthen (resolveLists (su_Lists i)) (\<lambda>ls.
      andthen nl_Config (\<lambda>cfg.
      andthen (within_tx (
        andthen (byEmail email) (\<lambda>found.
        andthen (case found of
                   None \<Rightarrow> newSubscriber email name fmt SourcePublic (nl_hashIdentity E (su_IP i)) (su_UserAgent i)
                 | Some x \<Rightarrow> ret x) (\<lambda>sub.
        if Suppressed sub then ret None
        else requestConfirmation E sub ls cfg (found = None) (nl_hashIdentity E (su_IP i)) SourcePublic)))) (\<lambda>confirm.
      nl_post E confirm))))))))"

definition ResendConfirm :: "nl_env \<Rightarrow> string \<Rightarrow> string \<Rightarrow> unit nl_comp" where
  "ResendConfirm E rawEmail ip =
     andthen (nl_NormalizeE E rawEmail) (\<lambda>email.
     andthen nl_Config (\<lambda>cfg.
     andthen (within_tx (
       andthen (byEmail email) (\<lambda>found.
       case found of
         None \<Rightarrow> ret None
       | Some sub \<Rightarrow>
           if Suppressed sub \<or> pendingLists sub = [] then ret None
           else requestConfirmation E sub [] cfg False (nl_hashIdentity E ip) SourcePublic))) (\<lambda>confirm.
     nl_post E confirm)))"

text \<open>The change of a subscriber with its history and its event; a confirmation prepares the welcome mail.\<close>

definition saveChange ::
  "nl_env \<Rightarrow> subscriber \<Rightarrow> string \<Rightarrow> consent_event list \<Rightarrow> instant \<Rightarrow> nl_mail option nl_comp" where
  "saveChange E sub what events now =
     (let x = sub\<lparr>sb_updated := now\<rparr> in
      andthen (UpdateSubscriber x) (\<lambda>_.
      andthen (AppendConsent events) (\<lambda>_.
      andthen (nl_record (subscriberEvent x what None now)) (\<lambda>_.
      if what \<noteq> ''confirmed'' then ret None
      else
      andthen (issueToken E (sb_uuid x) PurposePreferences None (now + ne_LinkTTL E)) (\<lambda>raw.
      andthen (listNames (ActiveLists x)) (\<lambda>names.
      ret (Some (WelcomeMail (address x) (sb_name x) raw names))))))))"

definition join_lists :: "instant \<Rightarrow> string list \<Rightarrow> subscriber \<Rightarrow> subscriber" where
  "join_lists now ls x = foldl (\<lambda>y l. SetMembership l MemberActive now y) x ls"

definition Confirm :: "nl_env \<Rightarrow> string \<Rightarrow> string \<Rightarrow> subscriber nl_comp" where
  "Confirm E raw ip =
     andthen (lookupToken E raw PurposeConfirm) (\<lambda>tok.
     if tk_used tok \<noteq> None then throw NlTokenUsed
     else
     andthen (within_tx (
       andthen nl_Now (\<lambda>now.
       andthen (UseToken (tk_hash tok) now) (\<lambda>used.
       if \<not> used then throw NlTokenUsed
       else
       andthen (nl_Subscriber (tk_sub tok)) (\<lambda>sub.
       if sb_status sub = NlErased then throw NlTokenInvalid
       else
       let joined = pendingLists sub;
           x = join_lists now joined sub;
           events = nl_consent x ConsentConfirmed [] SourceToken (nl_hashIdentity E ip) now # listEvents x ConsentListJoined joined SourceToken now;
           y = (if sb_status x \<noteq> NlActive then nl_activate now x else x) in
       andthen (saveChange E y ''confirmed'' events now) (\<lambda>welcome.
       ret (y\<lparr>sb_updated := now\<rparr>, welcome))))))) (\<lambda>(sub, welcome).
     andthen (nl_post E welcome) (\<lambda>_. ret sub)))"

section \<open>Leaving and choosing\<close>

definition leave_all :: "instant \<Rightarrow> subscriber \<Rightarrow> subscriber" where
  "leave_all now x =
     foldl (\<lambda>y m. if ms_state m \<noteq> MemberLeft then SetMembership (ms_list m) MemberLeft now y else y) x (sb_members x)"

definition unsubscribeAll ::
  "subscriber \<Rightarrow> nl_source \<Rightarrow> string \<Rightarrow> string \<Rightarrow> string \<Rightarrow> uuid option \<Rightarrow> unit nl_comp" where
  "unsubscribeAll sub src reason feedback ip actor =
     andthen nl_Now (\<lambda>now.
     let x = leave_all now sub;
         changed = (sb_status x = NlActive \<or> sb_status x = NlPending);
         y = (if changed then x\<lparr>sb_status := NlUnsubscribed, sb_unsubscribed := Some now\<rparr> else x);
         z = y\<lparr>sb_updated := now\<rparr> in
     if \<not> changed \<and> \<not> sb_modified y \<and> reason = [] \<and> feedback = [] then ret ()
     else
     andthen (UpdateSubscriber z) (\<lambda>_.
     andthen (RevokeTokens (sb_uuid z) PurposeConfirm) (\<lambda>_.
     andthen (AppendConsent [(nl_consent z ConsentUnsubscribed [] src ip now)\<lparr>ce_reason := reason, ce_feedback := feedback\<rparr>]) (\<lambda>_.
     nl_record (subscriberEvent z ''unsubscribed'' actor now)))))"

definition Unsubscribe :: "nl_env \<Rightarrow> string \<Rightarrow> string \<Rightarrow> string \<Rightarrow> string \<Rightarrow> unit nl_comp" where
  "Unsubscribe E raw reason feedback ip =
     andthen (of_result (ValidateFeedback reason feedback)) (\<lambda>_.
     andthen (lookupToken E raw PurposeUnsubscribe) (\<lambda>tok.
     within_tx (
       andthen (nl_Subscriber (tk_sub tok)) (\<lambda>sub.
       if sb_status sub = NlErased then throw NlTokenInvalid
       else unsubscribeAll sub SourceToken reason feedback (nl_hashIdentity E ip) None))))"

definition preferences :: "uuid \<Rightarrow> (subscriber \<times> nl_list list) nl_comp" where
  "preferences u =
     andthen (nl_Subscriber u) (\<lambda>sub.
     if sb_status sub = NlErased then throw NlTokenInvalid
     else andthen (Lists False) (\<lambda>ls. ret (sub, ls)))"

definition Preferences :: "nl_env \<Rightarrow> string \<Rightarrow> (subscriber \<times> nl_list list) nl_comp" where
  "Preferences E raw = andthen (lookupToken E raw PurposePreferences) (\<lambda>tok. preferences (tk_sub tok))"

definition join_wanted :: "instant \<Rightarrow> string list \<Rightarrow> subscriber \<Rightarrow> subscriber \<times> string list" where
  "join_wanted now wanted x =
     foldl (\<lambda>(y, joined) l. if in_state y l MemberActive then (y, joined) else (SetMembership l MemberActive now y, joined @ [l])) (x, []) wanted"

definition setLists :: "instant \<Rightarrow> string list \<Rightarrow> subscriber \<Rightarrow> subscriber \<times> string list \<times> string list" where
  "setLists now wanted x =
     (let (y, joined) = join_wanted now wanted x;
          leaving = filter (\<lambda>m. ms_state m \<noteq> MemberLeft \<and> ms_list m \<notin> set wanted) (sb_members y) in
      (foldl (\<lambda>z m. SetMembership (ms_list m) MemberLeft now z) y leaving, joined,
       map ms_list (filter (\<lambda>m. ms_state m = MemberActive) leaving)))"

text \<open>The subscriber with the choices made, the history they leave and the name of the change.\<close>

definition choose_format ::
  "nl_format option \<Rightarrow> nl_source \<Rightarrow> string \<Rightarrow> instant \<Rightarrow> subscriber \<Rightarrow> subscriber \<times> consent_event list" where
  "choose_format fmt src ip now x =
     (case fmt of
        None \<Rightarrow> (x, [])
      | Some f \<Rightarrow> if f = sb_format x then (x, []) else
          let y = x\<lparr>sb_format := f\<rparr> in (y, [nl_consent y ConsentFormatChanged [] src ip now]))"

definition choose_lists ::
  "string list option \<Rightarrow> nl_source \<Rightarrow> string \<Rightarrow> instant \<Rightarrow> subscriber \<Rightarrow> subscriber \<times> consent_event list \<times> string" where
  "choose_lists ls src ip now x =
     (case ls of
        None \<Rightarrow> (x, [], ''preferences_updated'')
      | Some wanted \<Rightarrow>
          let (y, joined, left) = setLists now wanted x;
              events = listEvents y ConsentListJoined joined src now @ listEvents y ConsentListLeft left src now in
          if wanted \<noteq> [] \<and> sb_status y \<noteq> NlActive
          then (nl_activate now y, events @ [nl_consent y ConsentResubscribed [] src ip now], ''resubscribed'')
          else if wanted = [] \<and> sb_status y = NlActive
          then (y\<lparr>sb_status := NlUnsubscribed, sb_unsubscribed := Some now\<rparr>,
                events @ [nl_consent y ConsentUnsubscribed [] src ip now], ''unsubscribed'')
          else (y, events, ''preferences_updated''))"

definition applyChoices ::
  "subscriber \<Rightarrow> string option \<Rightarrow> string list option \<Rightarrow> nl_source \<Rightarrow> string \<Rightarrow> uuid option \<Rightarrow> unit nl_comp" where
  "applyChoices sub format ls src ip actor =
     andthen nl_Now (\<lambda>now.
     andthen (case format of None \<Rightarrow> ret None | Some v \<Rightarrow> andthen (of_result (ParseFormat v)) (\<lambda>f. ret (Some f))) (\<lambda>fmt.
     andthen (case ls of None \<Rightarrow> ret None | Some ls \<Rightarrow> andthen (resolveExact ls) (\<lambda>w. ret (Some w))) (\<lambda>wanted.
     let (x, es) = choose_format fmt src ip now sub;
         (y, es', what) = choose_lists wanted src ip now x;
         z = y\<lparr>sb_updated := now\<rparr> in
     if es @ es' = [] then ret ()
     else
     andthen (UpdateSubscriber z) (\<lambda>_.
     andthen (AppendConsent (es @ es')) (\<lambda>_.
     nl_record (subscriberEvent z what actor now))))))"

record preferences_input =
  pi_Format :: "string option"
  pi_Lists :: "string list option"
  pi_All :: bool
  pi_IP :: string

definition UpdatePreferences :: "nl_env \<Rightarrow> string \<Rightarrow> preferences_input \<Rightarrow> (subscriber \<times> nl_list list) nl_comp" where
  "UpdatePreferences E raw i =
     andthen (lookupToken E raw PurposePreferences) (\<lambda>tok.
     andthen (within_tx (
       andthen (nl_Subscriber (tk_sub tok)) (\<lambda>sub.
       if sb_status sub = NlErased then throw NlTokenInvalid
       else if pi_All i then unsubscribeAll sub SourceToken [] [] (nl_hashIdentity E (pi_IP i)) None
       else applyChoices sub (pi_Format i) (pi_Lists i) SourceToken (nl_hashIdentity E (pi_IP i)) None))) (\<lambda>_.
     preferences (tk_sub tok)))"

section \<open>The account's subscription\<close>

definition nl_Account :: "nl_env \<Rightarrow> (uuid \<Rightarrow> nl_account option) \<Rightarrow> uuid \<Rightarrow> nl_account nl_comp" where
  "nl_Account E accounts u =
     andthen (nl_ext (accounts u)) (\<lambda>a. case a of None \<Rightarrow> throw NlUnknownAccount | Some x \<Rightarrow> ret x)"

definition forAccount :: "nl_env \<Rightarrow> uuid \<Rightarrow> subscriber option nl_comp" where
  "forAccount E u =
     andthen (attempt (SubscriberByUser u)) (\<lambda>r.
     case r of
       Inr x \<Rightarrow> ret (Some x)
     | Inl f \<Rightarrow>
         if f \<noteq> Err NlNotFound then raise f
         else (case ne_Accounts E of
           None \<Rightarrow> ret None
         | Some accounts \<Rightarrow>
             andthen (nl_Account E accounts u) (\<lambda>a.
             case nl_NormalizeEmail (ne_lower E) (ne_Parse E) (na_Email a) of
               Inl _ \<Rightarrow> ret None
             | Inr email \<Rightarrow> byEmail email)))"

definition MySubscription :: "nl_env \<Rightarrow> uuid \<Rightarrow> (subscriber option \<times> nl_list list) nl_comp" where
  "MySubscription E u = andthen (Lists False) (\<lambda>ls. andthen (forAccount E u) (\<lambda>x. ret (x, ls)))"

definition joinNow :: "subscriber \<Rightarrow> nl_list list \<Rightarrow> bool \<Rightarrow> string \<Rightarrow> unit nl_comp" where
  "joinNow sub ls create ip =
     andthen nl_Now (\<lambda>now.
     let (x, joined) = join_wanted now (map ls_slug ls) sub;
         joins = listEvents x ConsentListJoined joined SourceAccount now;
         kind = (if create \<or> sb_status x = NlPending then ConsentSubscribed else ConsentResubscribed);
         (y, events, what) =
           (if sb_status x \<noteq> NlActive
            then (nl_activate now x, joins @ [nl_consent x kind [] SourceAccount ip now], ''confirmed'')
            else (x, joins, ''lists_changed'')) in
     andthen (if create then CreateSubscriber (y\<lparr>sb_updated := now\<rparr>) else UpdateSubscriber y) (\<lambda>_.
     if events = [] then ret ()
     else
     andthen (AppendConsent events) (\<lambda>_.
     nl_record (subscriberEvent y what None now))))"

record my_subscribe_input =
  my_UserID :: uuid
  my_Lists :: "string list"
  my_Format :: string
  my_IP :: string
  my_UserAgent :: string

definition MySubscribe :: "nl_env \<Rightarrow> my_subscribe_input \<Rightarrow> (subscriber \<times> nl_list list) nl_comp" where
  "MySubscribe E i =
     (case ne_Accounts E of
        None \<Rightarrow> throw NlNotConfigured
      | Some accounts \<Rightarrow>
     andthen (nl_Account E accounts (my_UserID i)) (\<lambda>account.
     andthen (nl_NormalizeE E (na_Email account)) (\<lambda>email.
     andthen (resolveLists (my_Lists i)) (\<lambda>ls.
     andthen nl_Config (\<lambda>cfg.
     andthen (within_tx (
       andthen (forAccount E (my_UserID i)) (\<lambda>found.
       andthen (case found of
                  None \<Rightarrow> newSubscriber email (case cleanName (na_Name account) of Inl _ \<Rightarrow> [] | Inr n \<Rightarrow> n) FormatHTML SourceAccount
                            (nl_hashIdentity E (my_IP i)) (my_UserAgent i)
                | Some x \<Rightarrow> ret x) (\<lambda>sub.
       andthen (if my_Format i = [] then ret (sb_format sub) else of_result (ParseFormat (my_Format i))) (\<lambda>fmt.
       let x = sub\<lparr>sb_user := Some (my_UserID i), sb_format := fmt\<rparr> in
       if na_Verified account \<and> \<not> cf_double cfg
       then andthen (joinNow x ls (found = None) (nl_hashIdentity E (my_IP i))) (\<lambda>_. ret (sb_uuid x, None))
       else andthen (requestConfirmation E x ls cfg (found = None) (nl_hashIdentity E (my_IP i)) SourceAccount) (\<lambda>confirm.
            ret (sb_uuid x, confirm))))))) (\<lambda>(u, confirm).
     andthen (nl_post E confirm) (\<lambda>_.
     preferences u)))))))"

definition MyUnsubscribe ::
  "nl_env \<Rightarrow> uuid \<Rightarrow> string list \<Rightarrow> string \<Rightarrow> string \<Rightarrow> string \<Rightarrow> (subscriber \<times> nl_list list) nl_comp" where
  "MyUnsubscribe E u ls reason feedback ip =
     andthen (of_result (ValidateFeedback reason feedback)) (\<lambda>_.
     andthen (within_tx (
       andthen (forAccount E u) (\<lambda>found.
       case found of
         None \<Rightarrow> throw NlNotFound
       | Some sub \<Rightarrow>
           if ls = []
           then andthen (unsubscribeAll sub SourceAccount reason feedback (nl_hashIdentity E ip) None) (\<lambda>_. ret (sb_uuid sub))
           else
           andthen (resolveExact ls) (\<lambda>leaving.
           andthen (applyChoices sub None (Some (filter (\<lambda>l. l \<notin> set leaving) (ActiveLists sub))) SourceAccount (nl_hashIdentity E ip) None) (\<lambda>_.
           ret (sb_uuid sub)))))) (\<lambda>u'.
     preferences u'))"

end
