(* ===== verification/Newsletter_Issues.thy ===== *)
theory Newsletter_Issues
  imports Newsletter_Service
begin

text \<open>
  The newsletter's administration (\<^verbatim>\<open>core/newsletter/service/admin.go\<close>) and dispatch (\<^verbatim>\<open>dispatch.go\<close>): settings, erasure, issues and
  their schedule, the loop that mails an issue, and the provider's feedback. The audit log and the logger are left out, and so is
  the text of the mail.
\<close>

section \<open>Settings and subscribers\<close>

definition ProviderConfig :: "(nl_config \<times> nl_list list) nl_comp" where
  "ProviderConfig = andthen nl_Config (\<lambda>cfg. andthen (Lists True) (\<lambda>ls. ret (cfg, ls)))"

definition SaveProviderConfig ::
  "nl_env \<Rightarrow> uuid \<Rightarrow> nl_config \<Rightarrow> list_input list \<Rightarrow> (nl_config \<times> nl_list list) nl_comp" where
  "SaveProviderConfig E actor cfg ls =
     andthen (of_result (cf_Validate (ne_lower E) (ne_Parse E) cfg)) (\<lambda>_.
     andthen (of_result (ValidateLists ls)) (\<lambda>_.
     andthen nl_Config (\<lambda>before.
     andthen nl_Now (\<lambda>now.
     andthen (within_tx (
       andthen (SaveConfig (cfg\<lparr>cf_updated := Some now, cf_by := Some actor\<rparr>)) (\<lambda>_.
       SaveLists ls now))) (\<lambda>_.
     ProviderConfig)))))"

definition historyLimit :: nat where "historyLimit = 100"

definition subscriber_detail :: "uuid \<Rightarrow> (subscriber \<times> consent_event list) nl_comp" where
  "subscriber_detail u =
     andthen (nl_Subscriber u) (\<lambda>sub. andthen (ConsentHistory u historyLimit) (\<lambda>history. ret (sub, history)))"

text \<open>\<open>erase\<close> clears the personal data and records the erasure.\<close>

definition nl_erase :: "subscriber \<Rightarrow> nl_source \<Rightarrow> uuid option \<Rightarrow> instant \<Rightarrow> unit nl_comp" where
  "nl_erase sub src actor at =
     andthen (EraseSubscriber (sb_uuid sub) at) (\<lambda>_.
     andthen (AppendConsent [nl_consent sub ConsentErased [] src [] at]) (\<lambda>_.
     nl_record (subscriberEvent (sub\<lparr>sb_status := NlErased\<rparr>) ''erased'' actor at)))"

definition DeleteUnsubscribe :: string where "DeleteUnsubscribe = ''unsubscribe''"

definition DeleteHard :: string where "DeleteHard = ''hard_delete''"

definition DeleteSubscriber :: "uuid \<Rightarrow> uuid \<Rightarrow> string \<Rightarrow> (subscriber \<times> consent_event list) nl_comp" where
  "DeleteSubscriber actor u raw =
     (let mode = (if raw = [] then DeleteUnsubscribe else raw) in
      if mode \<noteq> DeleteUnsubscribe \<and> mode \<noteq> DeleteHard then throw (NlValidation ''mode must be unsubscribe or hard_delete'')
      else
      andthen (within_tx (
        andthen (nl_Subscriber u) (\<lambda>sub.
        if sb_status sub = NlErased then ret ()
        else if mode = DeleteUnsubscribe then unsubscribeAll sub SourceAdmin [] [] [] (Some actor)
        else andthen nl_Now (\<lambda>now. nl_erase sub SourceAdmin (Some actor) now)))) (\<lambda>_.
      subscriber_detail u))"

definition EraseUser :: "uuid \<Rightarrow> instant \<Rightarrow> unit nl_comp" where
  "EraseUser u at = within_tx (
     andthen (attempt (SubscriberByUser u)) (\<lambda>r.
     case r of
       Inl f \<Rightarrow> if f = Err NlNotFound then ret () else raise f
     | Inr sub \<Rightarrow> if sb_status sub = NlErased then ret () else nl_erase sub SourcePrivacy None at))"

section \<open>Issues\<close>

text \<open>The request for sending that an issue leaves when it becomes queued.\<close>

definition queued :: "nl_issue \<Rightarrow> uuid option \<Rightarrow> instant \<Rightarrow> unit nl_comp" where
  "queued i actor now =
     (if is_status i \<noteq> IssueQueued then ret () else nl_record (IssueSendRequested (is_uuid i) actor now))"

definition ready_for :: "issue_status \<Rightarrow> unit nl_comp" where
  "ready_for st =
     (if st = IssueScheduled \<or> st = IssueQueued then andthen nl_Config (\<lambda>cfg. of_result (ReadyToSend cfg)) else ret ())"

definition prepareMove :: "nl_issue \<Rightarrow> issue_status \<Rightarrow> instant option \<Rightarrow> instant \<Rightarrow> nl_issue nl_comp" where
  "prepareMove i st send_at now =
     (let at = (case send_at of None \<Rightarrow> is_send_at i | Some t \<Rightarrow> Some t) in
      if st = IssueScheduled \<and> (case at of None \<Rightarrow> True | Some t \<Rightarrow> \<not> t > now)
      then throw (NlValidation ''send_at must be in the future to schedule an issue'')
      else
      let j = (case st of
                 IssueScheduled \<Rightarrow> i\<lparr>is_send_at := at\<rparr>
               | IssueQueued \<Rightarrow> i\<lparr>is_queued := Some now\<rparr>
               | IssueDraft \<Rightarrow> i\<lparr>is_send_at := None\<rparr>
               | _ \<Rightarrow> i) in
      andthen (ready_for st) (\<lambda>_. ret (j\<lparr>is_status := st\<rparr>)))"

record issue_input =
  ii_Subject :: string
  ii_Preheader :: string
  ii_Body :: string
  ii_Lists :: "string list"
  ii_Status :: "issue_status option"
  ii_SendAt :: "instant option"

definition CreateIssue :: "uuid \<Rightarrow> issue_input \<Rightarrow> nl_issue nl_comp" where
  "CreateIssue actor x =
     andthen nl_Now (\<lambda>now.
     andthen nl_New (\<lambda>u.
     let st = (case ii_Status x of None \<Rightarrow> IssueDraft | Some v \<Rightarrow> v) in
     if st \<noteq> IssueDraft \<and> \<not> CanMove IssueDraft st then throw (NlValidation ''status must be draft, scheduled, or queued'')
     else
     andthen (resolveExact (ii_Lists x)) (\<lambda>ls.
     let i = \<lparr>is_uuid = u, is_subject = ii_Subject x, is_preheader = ii_Preheader x, is_body = ii_Body x, is_lists = ls,
              is_status = IssueDraft, is_send_at = None, is_queued = None, is_started = None, is_completed = None, is_sent = 0,
              is_failed = 0, is_created_by = Some actor, is_updated_by = Some actor, is_created = now, is_updated = now\<rparr> in
     andthen (of_result (is_Validate i)) (\<lambda>_.
     andthen (prepareMove i st (ii_SendAt x) now) (\<lambda>j.
     andthen (within_tx (andthen (nl_CreateIssue j) (\<lambda>_. queued j (Some actor) now))) (\<lambda>_.
     ret j))))))"

record issue_patch =
  ip_Subject :: "string option"
  ip_Preheader :: "string option"
  ip_Body :: "string option"
  ip_Lists :: "string list option"
  ip_SendAt :: "instant option"
  ip_Status :: "issue_status option"

definition or_old :: "'a option \<Rightarrow> 'a \<Rightarrow> 'a" where
  "or_old v old = (case v of None \<Rightarrow> old | Some x \<Rightarrow> x)"

definition applyContent :: "nl_issue \<Rightarrow> issue_patch \<Rightarrow> nl_issue nl_comp" where
  "applyContent i p =
     (if ip_Subject p = None \<and> ip_Preheader p = None \<and> ip_Body p = None \<and> ip_Lists p = None then ret i
      else if \<not> Editable (is_status i) then throw NlConflict
      else
      andthen (case ip_Lists p of None \<Rightarrow> ret (is_lists i) | Some ls \<Rightarrow> resolveExact ls) (\<lambda>ls.
      let j = i\<lparr>is_subject := or_old (ip_Subject p) (is_subject i), is_preheader := or_old (ip_Preheader p) (is_preheader i),
                is_body := or_old (ip_Body p) (is_body i), is_lists := ls\<rparr> in
      andthen (of_result (is_Validate j)) (\<lambda>_. ret j)))"

definition saveIssue :: "nl_issue \<Rightarrow> issue_status \<Rightarrow> uuid \<Rightarrow> instant \<Rightarrow> unit nl_comp" where
  "saveIssue i current actor now =
     andthen (if Editable current then nl_UpdateIssue i current else MoveIssue (is_uuid i) [current] (is_status i) now) (\<lambda>saved.
     if \<not> saved then throw NlConflict
     else if is_status i = current then ret ()
     else queued i (Some actor) now)"

definition UpdateIssue :: "uuid \<Rightarrow> uuid \<Rightarrow> issue_patch \<Rightarrow> nl_issue nl_comp" where
  "UpdateIssue actor u p =
     andthen (Issue u) (\<lambda>i.
     andthen nl_Now (\<lambda>now.
     andthen (applyContent i p) (\<lambda>j.
     let current = is_status i; target = or_old (ip_Status p) current in
     if ip_SendAt p \<noteq> None \<and> target \<noteq> IssueScheduled then throw (NlValidation ''send_at applies only to scheduled issues'')
     else
     andthen (if target \<noteq> current \<or> ip_SendAt p \<noteq> None
              then (if CanMove current target then prepareMove j target (ip_SendAt p) now else throw NlConflict)
              else ret j) (\<lambda>k.
     andthen (within_tx (saveIssue (k\<lparr>is_updated_by := Some actor, is_updated := now\<rparr>) current actor now)) (\<lambda>_.
     Issue u)))))"

section \<open>Dispatch\<close>

text \<open>Each due issue is queued in a transaction of its own. The count that comes with an error is left out.\<close>

fun release_all :: "instant \<Rightarrow> nl_issue list \<Rightarrow> nat nl_comp" where
  "release_all now [] = ret 0"
| "release_all now (i # is) =
     andthen (within_tx (
       andthen (MoveIssue (is_uuid i) [IssueScheduled] IssueQueued now) (\<lambda>moved.
       if \<not> moved then ret (0::nat)
       else andthen (queued (i\<lparr>is_status := IssueQueued\<rparr>) None now) (\<lambda>_. ret 1)))) (\<lambda>n.
     andthen (release_all now is) (\<lambda>m. ret (n + m)))"

definition ReleaseDue :: "nat \<Rightarrow> nat nl_comp" where
  "ReleaseDue limit = andthen nl_Now (\<lambda>now. andthen (DueIssues now limit) (\<lambda>due. release_all now due))"

definition nl_begin :: "nl_issue \<Rightarrow> instant \<Rightarrow> bool nl_comp" where
  "nl_begin i now =
     (case is_status i of
        IssueQueued \<Rightarrow> MoveIssue (is_uuid i) [IssueQueued] IssueSending now
      | IssueSending \<Rightarrow> ret True
      | _ \<Rightarrow> ret False)"

definition maxErrorLength :: nat where "maxErrorLength = 500"

text \<open>The mail goes to the provider, which accepts it or answers with an error.\<close>

definition nl_Send :: "uuid \<Rightarrow> recipient \<Rightarrow> (bool \<times> string) option nl_comp" where
  "nl_Send i r s =
     (Inr (nl_provider s (length (nl_posted s))),
      s\<lparr>calls := Suc (calls s), nl_posted := nl_posted s @ [(i, rc_sub r, rc_email r)]\<rparr>)"

definition fresh_links :: "nl_env \<Rightarrow> uuid \<Rightarrow> recipient \<Rightarrow> instant \<Rightarrow> unit nl_comp" where
  "fresh_links E i r expires =
     andthen (issueToken E (rc_sub r) PurposeUnsubscribe (Some i) expires) (\<lambda>_.
     andthen (issueToken E (rc_sub r) PurposePreferences (Some i) expires) (\<lambda>_.
     ret ()))"

definition deliver :: "nl_env \<Rightarrow> uuid \<Rightarrow> recipient \<Rightarrow> delivery_result nl_comp" where
  "deliver E i r =
     andthen nl_Now (\<lambda>now.
     let failed = (\<lambda>perm err. \<lparr>dr_issue = rc_issue r, dr_sub = rc_sub r, dr_sent = False, dr_permanent = perm,
                              dr_error = nl_truncate err maxErrorLength, dr_at = now\<rparr>) in
     andthen (attempt (fresh_links E i r (now + ne_LinkTTL E))) (\<lambda>links.
     case links of
       Inl f \<Rightarrow> ret (failed False (ne_text E f))
     | Inr _ \<Rightarrow>
         andthen (nl_Send i r) (\<lambda>answer.
         case answer of
           Some (perm, err) \<Rightarrow> ret (failed perm err)
         | None \<Rightarrow> ret \<lparr>dr_issue = rc_issue r, dr_sub = rc_sub r, dr_sent = True, dr_permanent = False, dr_error = [], dr_at = now\<rparr>)))"

fun send_batch :: "nl_env \<Rightarrow> uuid \<Rightarrow> recipient list \<Rightarrow> unit nl_comp" where
  "send_batch E i [] = ret ()"
| "send_batch E i (r # rs) =
     andthen (deliver E i r) (\<lambda>x. andthen (RecordDelivery x) (\<lambda>_. send_batch E i rs))"

definition the_claim :: "nl_env \<Rightarrow> instant \<Rightarrow> instant \<Rightarrow> nl_claim" where
  "the_claim E runStart now =
     \<lparr>cl_Limit = nat (ne_BatchSize E), cl_MaxAttempts = nat (ne_MaxAttempts E), cl_Now = now, cl_StaleBefore = now - ne_ClaimTimeout E,
      cl_RetryBefore = runStart\<rparr>"

text \<open>
  The loop over the batches, for at most \<open>n\<close> rounds: running out of them is \<open>NoReturn\<close>. \<open>sendAll\<close> takes as many as a claim of
  one recipient per round could ever need.
\<close>

fun send_rounds :: "nat \<Rightarrow> nl_env \<Rightarrow> uuid \<Rightarrow> instant \<Rightarrow> bool nl_comp" where
  "send_rounds 0 E u runStart = raise NoReturn"
| "send_rounds (Suc n) E u runStart =
     andthen (Issue u) (\<lambda>current.
     if is_status current \<noteq> IssueSending then ret False
     else
     andthen nl_Now (\<lambda>now.
     andthen (ClaimRecipients u (the_claim E runStart now)) (\<lambda>rs.
     if rs = [] then ret True
     else andthen (send_batch E u rs) (\<lambda>_. send_rounds n E u runStart))))"

definition max_rounds :: "nl_env \<Rightarrow> nl_store \<Rightarrow> nat" where
  "max_rounds E s = Suc (nat (ne_MaxAttempts E) * length (nl_subs s))"

definition sendAll :: "nl_env \<Rightarrow> uuid \<Rightarrow> instant \<Rightarrow> bool nl_comp" where
  "sendAll E u runStart s = send_rounds (max_rounds E s) E u runStart s"

definition nl_finish :: "nl_env \<Rightarrow> uuid \<Rightarrow> unit nl_comp" where
  "nl_finish E u =
     andthen (DeliveryCounts u (nat (ne_MaxAttempts E))) (\<lambda>counts.
     if dc_retryable counts > 0 then throw (NlDeliveriesPending (dc_retryable counts))
     else andthen nl_Now (\<lambda>now. andthen (FinishIssue u counts now) (\<lambda>_. ret ())))"

definition Dispatch :: "nl_env \<Rightarrow> uuid \<Rightarrow> unit nl_comp" where
  "Dispatch E u =
     (if \<not> ne_Sender E then throw NlNotConfigured
      else
      andthen (attempt (Issue u)) (\<lambda>r.
      case r of
        Inl f \<Rightarrow> if f = Err NlNotFound then ret () else raise f
      | Inr i \<Rightarrow>
          andthen nl_Now (\<lambda>runStart.
          andthen (nl_begin i runStart) (\<lambda>run.
          if \<not> run then ret ()
          else
          andthen nl_Config (\<lambda>cfg.
          andthen (sendAll E u runStart) (\<lambda>done'.
          if \<not> done' then ret () else nl_finish E u))))))"

section \<open>Feedback\<close>

definition nl_suppress :: "nl_env \<Rightarrow> subscriber \<Rightarrow> consent_kind \<Rightarrow> string \<Rightarrow> instant \<Rightarrow> unit nl_comp" where
  "nl_suppress E sub kind what now =
     andthen (RevokeTokens (sb_uuid sub) PurposeConfirm) (\<lambda>_.
     andthen (saveChange E sub what [nl_consent sub kind [] SourceProvider [] now] now) (\<lambda>_.
     ret ()))"

definition HandleFeedback :: "nl_env \<Rightarrow> provider_feedback \<Rightarrow> unit nl_comp" where
  "HandleFeedback E fb =
     andthen (nl_NormalizeE E (fb_email fb)) (\<lambda>email.
     case fb_kind fb of
       None \<Rightarrow> throw (NlValidation ''type must be hard_bounce, soft_bounce, or complaint'')
     | Some kind \<Rightarrow> within_tx (
         andthen (byEmail email) (\<lambda>found.
         case found of
           None \<Rightarrow> ret ()
         | Some sub \<Rightarrow>
             andthen nl_Now (\<lambda>now.
             case kind of
               BounceSoft \<Rightarrow> AppendConsent [nl_consent sub ConsentSoftBounce [] SourceProvider [] now]
             | BounceHard \<Rightarrow> nl_suppress E (sub\<lparr>sb_status := NlBounced, sb_bounced := Some now\<rparr>) ConsentBounced ''bounced'' now
             | Complaint \<Rightarrow> nl_suppress E (sub\<lparr>sb_status := NlComplained, sb_complained := Some now\<rparr>) ConsentComplained ''complained'' now))))"

definition bounce_of :: "string \<Rightarrow> bounce_kind option" where
  "bounce_of v =
     (if v = ''hard_bounce'' then Some BounceHard else if v = ''soft_bounce'' then Some BounceSoft
      else if v = ''complaint'' then Some Complaint else None)"

definition maxWebhookEvents :: nat where "maxWebhookEvents = 100"

fun check_events :: "nl_env \<Rightarrow> (string \<times> string) list \<Rightarrow> nl_error + provider_feedback list" where
  "check_events E [] = Inr []"
| "check_events E ((kind, email) # es) =
     (if bounce_of kind = None then Inl (NlValidation ''type must be hard_bounce, soft_bounce, or complaint'')
      else case nl_NormalizeEmail (ne_lower E) (ne_Parse E) email of
        Inl _ \<Rightarrow> Inl (NlValidation ''email is not a valid address'')
      | Inr _ \<Rightarrow> (case check_events E es of Inl e \<Rightarrow> Inl e | Inr fs \<Rightarrow> Inr (\<lparr>fb_kind = bounce_of kind, fb_email = email\<rparr> # fs)))"

fun handle_all :: "nl_env \<Rightarrow> provider_feedback list \<Rightarrow> unit nl_comp" where
  "handle_all E [] = ret ()"
| "handle_all E (f # fs) = andthen (HandleFeedback E f) (\<lambda>_. handle_all E fs)"

text \<open>The number of events applied before an error is left out.\<close>

definition ProviderWebhook :: "nl_env \<Rightarrow> string \<Rightarrow> string \<Rightarrow> string \<Rightarrow> nat nl_comp" where
  "ProviderWebhook E timestamp signature body =
     (case ne_Webhooks E of
        None \<Rightarrow> throw NlNotConfigured
      | Some verify \<Rightarrow>
          if \<not> verify timestamp signature body then throw NlSignature
          else (case ne_decode E body of
            None \<Rightarrow> throw (NlValidation ''body must be JSON with an events array'')
          | Some es \<Rightarrow>
              if es = [] \<or> length es > maxWebhookEvents then throw (NlValidation ''events must have between 1 and 100 entries'')
              else
              andthen (of_result (check_events E es)) (\<lambda>fs.
              andthen (handle_all E fs) (\<lambda>_. ret (length fs)))))"

definition PruneTokens :: "int \<Rightarrow> nat nl_comp" where
  "PruneTokens retention = andthen nl_Now (\<lambda>now. nl_PruneTokens (now - retention))"

definition clampPage :: "int \<Rightarrow> int \<Rightarrow> int \<times> int" where
  "clampPage page perPage =
     ((if page < 1 then 1 else page), min (if perPage < 1 then 20 else perPage) 100)"

end
