(* ===== verification/Newsletter_Trail.thy ===== *)
theory Newsletter_Trail
  imports Newsletter_Issues
begin

text \<open>
  The consent history as the specification of a subscription: replaying it gives the subscriber's status and the lists it
  receives. Here are the replay, the invariant of the tables, and what the edits of a loaded subscriber do to the lists it
  receives.
\<close>

section \<open>The replay of the history\<close>

fun consent_after :: "consent_event \<Rightarrow> nl_status \<times> string set \<Rightarrow> nl_status \<times> string set" where
  "consent_after e (st, ls) =
     (case ce_kind e of
        ConsentConfirmed \<Rightarrow> (NlActive, ls)
      | ConsentSubscribed \<Rightarrow> (NlActive, ls)
      | ConsentResubscribed \<Rightarrow> (NlActive, ls)
      | ConsentListJoined \<Rightarrow> (st, insert (ce_list e) ls)
      | ConsentListLeft \<Rightarrow> (st, ls - {ce_list e})
      | ConsentUnsubscribed \<Rightarrow> (if st = NlActive \<or> st = NlPending then NlUnsubscribed else st, {})
      | ConsentBounced \<Rightarrow> (NlBounced, ls)
      | ConsentComplained \<Rightarrow> (NlComplained, ls)
      | ConsentErased \<Rightarrow> (NlErased, {})
      | ConsentConfirmSent \<Rightarrow> (st, ls)
      | ConsentFormatChanged \<Rightarrow> (st, ls)
      | ConsentSoftBounce \<Rightarrow> (st, ls))"

definition replay :: "consent_event list \<Rightarrow> nl_status \<times> string set" where
  "replay es = fold consent_after es (NlPending, {})"

definition history :: "consent_event list \<Rightarrow> uuid \<Rightarrow> consent_event list" where
  "history H u = filter (\<lambda>e. ce_sub e = u) H"

text \<open>The lists a membership table says a subscriber receives.\<close>

definition receives :: "nl_member list \<Rightarrow> uuid \<Rightarrow> string set" where
  "receives M u = mb_list ` set (filter (\<lambda>m. mb_sub m = u \<and> mb_state m = MemberActive) M)"

definition actives :: "membership list \<Rightarrow> string set" where
  "actives ms = ms_list ` set (filter (\<lambda>m. ms_state m = MemberActive) ms)"

definition mb_key :: "nl_member \<Rightarrow> uuid \<times> string" where
  "mb_key m = (mb_sub m, mb_list m)"

definition nl_ok :: "string set \<Rightarrow> nl_row list \<Rightarrow> nl_member list \<Rightarrow> consent_event list \<Rightarrow> bool" where
  "nl_ok L R M H \<longleftrightarrow>
     distinct (map sb_uuid R) \<and> distinct (map mb_key M) \<and>
     (\<forall>m \<in> set M. mb_sub m \<in> sb_uuid ` set R \<and> mb_list m \<in> L) \<and>
     (\<forall>e \<in> set H. ce_sub e \<in> sb_uuid ` set R) \<and>
     (\<forall>r \<in> set R. (sb_status r = NlErased) = (sb_email r = None)) \<and>
     (\<forall>r \<in> set R. replay (history H (sb_uuid r)) = (sb_status r, receives M (sb_uuid r)))"

definition nl_slugs :: "nl_store \<Rightarrow> string set" where
  "nl_slugs s = ls_slug ` set (nl_lists s)"

definition nl_inv :: "nl_store \<Rightarrow> bool" where
  "nl_inv s \<longleftrightarrow> nl_ok (nl_slugs s) (nl_subs s) (nl_members s) (nl_consents s)"

lemma nl_ok_mono: "nl_ok L R M H \<Longrightarrow> L \<subseteq> L' \<Longrightarrow> nl_ok L' R M H"
  unfolding nl_ok_def by blast

lemma consent_after_id: "ce_kind e \<in> {ConsentConfirmSent, ConsentFormatChanged, ConsentSoftBounce} \<Longrightarrow> consent_after e p = p"
  by (cases p) auto

lemma history_append [simp]: "history (H @ K) u = history H u @ history K u"
  by (simp add: history_def)

lemma history_all: "\<forall>e \<in> set es. ce_sub e = u \<Longrightarrow> history es u = es"
  by (simp add: history_def)

lemma history_none: "\<forall>e \<in> set es. ce_sub e \<noteq> u \<Longrightarrow> history es u = []"
  by (simp add: history_def)

lemma replay_append: "replay (es @ fs) = fold consent_after fs (replay es)"
  by (simp add: replay_def)

lemma listEvents_sub: "\<forall>e \<in> set (listEvents x k ls src now). ce_sub e = sb_uuid x"
  by (simp add: listEvents_def nl_consent_def)

lemma nl_consent_sel [simp]: "ce_sub (nl_consent x k l src ip now) = sb_uuid x" "ce_kind (nl_consent x k l src ip now) = k"
  "ce_list (nl_consent x k l src ip now) = l"
  by (simp_all add: nl_consent_def)

lemma fold_joined: "fold consent_after (listEvents x ConsentListJoined ls src now) (st, A) = (st, A \<union> set ls)"
  by (induction ls arbitrary: A) (auto simp: listEvents_def)

lemma fold_left: "fold consent_after (listEvents x ConsentListLeft ls src now) (st, A) = (st, A - set ls)"
  by (induction ls arbitrary: A) (auto simp: listEvents_def)

section \<open>Edits of a subscriber\<close>

text \<open>
  The memberships of an edited subscriber name each list once, known ones only, and all those it was loaded with; when nothing
  is marked as modified they are those it was loaded with.
\<close>

definition shape :: "string set \<Rightarrow> membership list \<Rightarrow> subscriber \<Rightarrow> bool" where
  "shape L ms0 y \<longleftrightarrow>
     distinct (map ms_list (sb_members y)) \<and> ms_list ` set (sb_members y) \<subseteq> L \<and> ms_list ` set ms0 \<subseteq> ms_list ` set (sb_members y) \<and>
     (sb_modified y \<or> sb_members y = ms0)"

lemma shape_frame: "sb_members y = sb_members x \<Longrightarrow> sb_modified y = sb_modified x \<Longrightarrow> shape L ms0 y = shape L ms0 x"
  by (simp add: shape_def)

lemma stamp_list [simp]: "ms_list (stamp st at m) = ms_list m" "ms_state (stamp st at m) = ms_state m"
  by (simp_all add: stamp_def split: member_state.split)

lemma set_state_lists: "ms_list ` set (set_state l st at ms) = insert l (ms_list ` set ms)"
  by (induction ms) auto

lemma set_state_distinct: "distinct (map ms_list ms) \<Longrightarrow> distinct (map ms_list (set_state l st at ms))"
proof (induction ms)
  case (Cons m ms)
  have "ms_list m \<notin> ms_list ` set (set_state l st at ms)" if "ms_list m \<noteq> l"
    using Cons.prems that by (simp add: set_state_lists)
  then show ?case using Cons by auto
qed simp

lemma actives_Cons: "actives (m # ms) = (if ms_state m = MemberActive then insert (ms_list m) (actives ms) else actives ms)"
  by (simp add: actives_def)

lemma actives_sub: "actives ms \<subseteq> ms_list ` set ms"
  by (auto simp: actives_def)

lemma actives_set_state:
  "distinct (map ms_list ms) \<Longrightarrow>
   actives (set_state l st at ms) = (if st = MemberActive then insert l (actives ms) else actives ms - {l})"
proof (induction ms)
  case Nil
  then show ?case by (simp add: actives_def)
next
  case (Cons m ms)
  then have "ms_list m \<notin> actives ms" using actives_sub by fastforce
  then show ?case using Cons by (auto simp: actives_Cons)
qed

lemma in_state_iff: "distinct (map ms_list (sb_members y)) \<Longrightarrow> in_state y l st \<longleftrightarrow> (\<exists>m \<in> set (sb_members y). ms_list m = l \<and> ms_state m = st)"
proof -
  assume d: "distinct (map ms_list (sb_members y))"
  have "(case find (\<lambda>m. ms_list m = l) ms of None \<Rightarrow> False | Some m \<Rightarrow> ms_state m = st) \<longleftrightarrow> (\<exists>m \<in> set ms. ms_list m = l \<and> ms_state m = st)"
    if "distinct (map ms_list ms)" for ms
    using that by (induction ms) (auto simp: image_iff)
  from this [OF d] show ?thesis by (simp add: in_state_def nl_Membership_def)
qed

lemma in_state_active: "distinct (map ms_list (sb_members y)) \<Longrightarrow> in_state y l MemberActive \<longleftrightarrow> l \<in> actives (sb_members y)"
  unfolding in_state_iff by (auto simp: actives_def)

lemma set_state_id: "in_state y l st \<Longrightarrow> set_state l st at (sb_members y) = sb_members y"
proof -
  have "set_state l st at ms = ms" if "(case find (\<lambda>m. ms_list m = l) ms of None \<Rightarrow> False | Some m \<Rightarrow> ms_state m = st)" for ms
    using that by (induction ms) (auto split: if_splits)
  then show "in_state y l st \<Longrightarrow> ?thesis" by (simp add: in_state_def nl_Membership_def)
qed

lemma SetMembership_frame [simp]:
  "sb_uuid (SetMembership l st at y) = sb_uuid y" "sb_status (SetMembership l st at y) = sb_status y"
  "sb_members (SetMembership l st at y) = set_state l st at (sb_members y)"
  by (simp_all add: SetMembership_def)

lemma SetMembership_shape:
  assumes "shape L ms0 y" "l \<in> L"
  shows "shape L ms0 (SetMembership l st at y)"
  using assms set_state_distinct [of "sb_members y" l st at] set_state_id [of y l st at]
  by (auto simp: shape_def SetMembership_def set_state_lists)

text \<open>What an edit of the memberships does: it keeps the subscriber and its status, and leaves the lists \<open>A\<close> active.\<close>

definition member_edits :: "string set \<Rightarrow> membership list \<Rightarrow> subscriber \<Rightarrow> string set \<Rightarrow> subscriber \<Rightarrow> bool" where
  "member_edits L ms0 x A y \<longleftrightarrow> shape L ms0 y \<and> sb_uuid y = sb_uuid x \<and> sb_status y = sb_status x \<and> actives (sb_members y) = A"

lemma member_edits_refl: "shape L ms0 x \<Longrightarrow> member_edits L ms0 x (actives (sb_members x)) x"
  by (simp add: member_edits_def)

lemma member_edits_set:
  assumes "member_edits L ms0 x A y" "l \<in> L"
  shows "member_edits L ms0 x (if st = MemberActive then insert l A else A - {l}) (SetMembership l st at y)"
  using assms SetMembership_shape [of L ms0 y l st at] by (simp add: member_edits_def actives_set_state shape_def)

lemma member_edits_distinct: "member_edits L ms0 x A y \<Longrightarrow> distinct (map ms_list (sb_members y))"
  by (simp add: member_edits_def shape_def)

lemma member_edits_set_pending:
  assumes "member_edits L ms0 x A y" "ls_slug ` set ls \<subseteq> L"
  shows "member_edits L ms0 x A (set_pending now ls y)"
  using assms
proof (induction ls arbitrary: y)
  case (Cons l ls)
  have a: "in_state y (ls_slug l) MemberActive \<longleftrightarrow> ls_slug l \<in> A"
    using in_state_active [OF member_edits_distinct [OF Cons.prems(1)]] Cons.prems(1) by (simp add: member_edits_def)
  have "member_edits L ms0 x A (if in_state y (ls_slug l) MemberActive then y else SetMembership (ls_slug l) MemberPending now y)"
    using member_edits_set [OF Cons.prems(1), of "ls_slug l" MemberPending now] Cons.prems a by auto
  from Cons.IH [OF this] Cons.prems show ?case by (simp add: set_pending_def)
qed (simp add: set_pending_def)

lemma member_edits_join_lists:
  assumes "member_edits L ms0 x A y" "set ls \<subseteq> L"
  shows "member_edits L ms0 x (A \<union> set ls) (join_lists now ls y)"
  using assms
proof (induction ls arbitrary: A y)
  case (Cons l ls)
  then have "member_edits L ms0 x (insert l A) (SetMembership l MemberActive now y)" using member_edits_set [of L ms0 x A y l MemberActive now] by simp
  from Cons.IH [OF this] Cons.prems show ?case by (simp add: join_lists_def)
qed (simp add: join_lists_def)

lemma member_edits_leave:
  assumes "member_edits L ms0 x A y" "ms_list ` set ms \<subseteq> L"
  shows "member_edits L ms0 x (A - ms_list ` set (filter P ms))
    (foldl (\<lambda>z m. if P m then SetMembership (ms_list m) MemberLeft now z else z) y ms)"
  using assms
proof (induction ms arbitrary: A y)
  case (Cons m ms)
  have "member_edits L ms0 x (if P m then A - {ms_list m} else A) (if P m then SetMembership (ms_list m) MemberLeft now y else y)"
    using Cons.prems member_edits_set [of L ms0 x A y "ms_list m" MemberLeft now] by simp
  from Cons.IH [OF this] Cons.prems(2)
  have "member_edits L ms0 x ((if P m then A - {ms_list m} else A) - ms_list ` set (filter P ms))
    (foldl (\<lambda>z m. if P m then SetMembership (ms_list m) MemberLeft now z else z) y (m # ms))" by simp
  moreover have "(if P m then A - {ms_list m} else A) - ms_list ` set (filter P ms) = A - ms_list ` set (filter P (m # ms))"
    by auto
  ultimately show ?case by (simp only:)
qed simp

lemma shape_lists: "shape L ms0 x \<Longrightarrow> ms_list ` set (sb_members x) \<subseteq> L"
  by (simp add: shape_def)

lemma member_edits_leave_all:
  assumes "shape L ms0 x"
  shows "member_edits L ms0 x {} (leave_all now x)"
proof -
  have "actives (sb_members x) - ms_list ` set (filter (\<lambda>m. ms_state m \<noteq> MemberLeft) (sb_members x)) = {}"
    by (auto simp: actives_def)
  then show ?thesis
    using member_edits_leave [OF member_edits_refl [OF assms] shape_lists [OF assms], of "\<lambda>m. ms_state m \<noteq> MemberLeft" now]
    unfolding leave_all_def by (simp only:)
qed

lemma member_edits_join_step:
  assumes "member_edits L ms0 x A y" "set ls \<subseteq> L" "A = A0 \<union> set js"
  shows "case foldl (\<lambda>(y, joined) l. if in_state y l MemberActive then (y, joined) else (SetMembership l MemberActive now y, joined @ [l])) (y, js) ls
    of (z, joined) \<Rightarrow> member_edits L ms0 x (A \<union> set ls) z \<and> A0 \<union> set joined = A \<union> set ls"
  using assms
proof (induction ls arbitrary: A y js)
  case (Cons l ls)
  have a: "in_state y l MemberActive \<longleftrightarrow> l \<in> A"
    using in_state_active [OF member_edits_distinct [OF Cons.prems(1)]] Cons.prems(1) by (simp add: member_edits_def)
  show ?case
  proof (cases "l \<in> A")
    case True
    then have "A \<union> set (l # ls) = A \<union> set ls" by auto
    then show ?thesis using Cons.IH [of A y js] Cons.prems a True by (auto split: prod.splits)
  next
    case False
    have e: "member_edits L ms0 x (insert l A) (SetMembership l MemberActive now y)"
      using member_edits_set [OF Cons.prems(1), of l MemberActive now] Cons.prems(2) by simp
    have "insert l A = A0 \<union> set (js @ [l])" using Cons.prems(3) by simp
    from Cons.IH [OF e _ this] show ?thesis using Cons.prems(2) a False by simp
  qed
qed simp

lemma member_edits_join_wanted:
  assumes "shape L ms0 x" "set ls \<subseteq> L" "join_wanted now ls x = (y, joined)"
  shows "member_edits L ms0 x (actives (sb_members x) \<union> set ls) y \<and> actives (sb_members x) \<union> set joined = actives (sb_members x) \<union> set ls"
  using member_edits_join_step [OF member_edits_refl [OF assms(1)] assms(2), of "actives (sb_members x)" "[]" now] assms(3)
  by (simp add: join_wanted_def)

lemma member_edits_trans: "member_edits L ms0 x A y \<Longrightarrow> member_edits L ms0 y B z \<Longrightarrow> member_edits L ms0 x B z"
  by (simp add: member_edits_def)

text \<open>The lists chosen are the lists received; the lists joined and left lead from the old ones to them.\<close>

lemma member_edits_setLists:
  assumes s: "shape L ms0 x" and w: "set wanted \<subseteq> L" and r: "setLists now wanted x = (z, joined, left)"
  shows "member_edits L ms0 x (set wanted) z \<and> actives (sb_members x) \<union> set joined - set left = set wanted"
proof -
  obtain y where y: "join_wanted now wanted x = (y, joined)" using r by (auto simp: setLists_def split: prod.splits)
  define P :: "membership \<Rightarrow> bool" where "P m \<longleftrightarrow> ms_state m \<noteq> MemberLeft \<and> ms_list m \<notin> set wanted" for m
  let ?A = "actives (sb_members x) \<union> set wanted"
  have j: "member_edits L ms0 x ?A y" "actives (sb_members x) \<union> set joined = ?A" using member_edits_join_wanted [OF s w y] by simp_all
  then have ys: "shape L ms0 y" and ya: "actives (sb_members y) = ?A" by (simp_all add: member_edits_def)
  have z: "z = foldl (\<lambda>z m. SetMembership (ms_list m) MemberLeft now z) y (filter P (sb_members y))"
    and l: "left = map ms_list (filter (\<lambda>m. ms_state m = MemberActive) (filter P (sb_members y)))"
    using r y unfolding setLists_def P_def by (simp_all add: Let_def)
  have zz: "z = foldl (\<lambda>z m. if True then SetMembership (ms_list m) MemberLeft now z else z) y (filter P (sb_members y))" using z by simp
  have sub: "ms_list ` set (filter P (sb_members y)) \<subseteq> L" using shape_lists [OF ys] by auto
  have left: "set left = ?A - set wanted" unfolding l ya [symmetric] by (auto simp: actives_def P_def)
  have keep: "?A - ms_list ` set (filter (\<lambda>_. True) (filter P (sb_members y))) = set wanted"
    using ya by (fastforce simp: actives_def P_def)
  have "member_edits L ms0 y (set wanted) z"
    using member_edits_leave [OF member_edits_refl [OF ys] sub, of "\<lambda>_. True" now] keep unfolding zz ya by (simp only:)
  then show ?thesis using member_edits_trans [OF j(1)] j(2) left by auto
qed

section \<open>Saving\<close>

definition new_member :: "uuid \<Rightarrow> membership \<Rightarrow> nl_member" where
  "new_member u m = \<lparr>mb_sub = u, mb_list = ms_list m, mb_state = ms_state m, mb_joined = ms_joined m, mb_left = ms_left m\<rparr>"

definition put_mem :: "uuid \<Rightarrow> membership \<Rightarrow> nl_member list \<Rightarrow> nl_member list" where
  "put_mem u m M =
     (if \<exists>x \<in> set M. mb_key x = (u, ms_list m) then map (\<lambda>x. if mb_key x = (u, ms_list m) then new_member u m else x) M
      else M @ [new_member u m])"

lemma new_member_sel [simp]: "mb_key (new_member u m) = (u, ms_list m)" "mb_state (new_member u m) = ms_state m"
  by (simp_all add: new_member_def mb_key_def)

lemma put_mem_set: "set (put_mem u m M) = insert (new_member u m) {x \<in> set M. mb_key x \<noteq> (u, ms_list m)}"
proof (cases "\<exists>x \<in> set M. mb_key x = (u, ms_list m)")
  case True
  then show ?thesis by (auto simp: put_mem_def)
next
  case False
  then show ?thesis by (auto simp: put_mem_def)
qed

lemma put_mem_keys: "mb_key ` set (put_mem u m M) = insert (u, ms_list m) (mb_key ` set M)"
  unfolding put_mem_set by auto

lemma put_mem_distinct:
  assumes "distinct (map mb_key M)"
  shows "distinct (map mb_key (put_mem u m M))"
proof (cases "\<exists>x \<in> set M. mb_key x = (u, ms_list m)")
  case True
  have "mb_key (if mb_key x = (u, ms_list m) then new_member u m else x) = mb_key x" for x by simp
  then have "map mb_key (put_mem u m M) = map mb_key M" using True by (simp add: put_mem_def)
  then show ?thesis using assms by simp
next
  case False
  then show ?thesis using assms by (auto simp: put_mem_def)
qed

lemma receives_iff: "l \<in> receives M v \<longleftrightarrow> (\<exists>x \<in> set M. mb_key x = (v, l) \<and> mb_state x = MemberActive)"
  by (auto simp: receives_def mb_key_def)

lemma receives_put_mem:
  "receives (put_mem u m M) v =
     (if v \<noteq> u then receives M v else if ms_state m = MemberActive then insert (ms_list m) (receives M u) else receives M u - {ms_list m})"
  by (rule set_eqI) (auto simp: receives_iff put_mem_set)

lemma put_mems:
  assumes "distinct (map mb_key M)" "distinct (map ms_list ms)"
  shows "distinct (map mb_key (fold (put_mem u) ms M)) \<and>
    mb_key ` set (fold (put_mem u) ms M) = mb_key ` set M \<union> (\<lambda>m. (u, ms_list m)) ` set ms \<and>
    (\<forall>v. v \<noteq> u \<longrightarrow> receives (fold (put_mem u) ms M) v = receives M v) \<and>
    receives (fold (put_mem u) ms M) u = (receives M u - ms_list ` set ms) \<union> actives ms"
  using assms
proof (induction ms arbitrary: M)
  case Nil
  then show ?case by (simp add: actives_def)
next
  case (Cons m ms)
  have IH: "distinct (map mb_key (fold (put_mem u) ms (put_mem u m M)))"
    "mb_key ` set (fold (put_mem u) ms (put_mem u m M)) = mb_key ` set (put_mem u m M) \<union> (\<lambda>m. (u, ms_list m)) ` set ms"
    "v \<noteq> u \<Longrightarrow> receives (fold (put_mem u) ms (put_mem u m M)) v = receives (put_mem u m M) v"
    "receives (fold (put_mem u) ms (put_mem u m M)) u = (receives (put_mem u m M) u - ms_list ` set ms) \<union> actives ms" for v
    using Cons.IH [OF put_mem_distinct [OF Cons.prems(1)], of u m] Cons.prems(2) by auto
  have "ms_list m \<notin> ms_list ` set ms" using Cons.prems(2) by simp
  then have "(receives (put_mem u m M) u - ms_list ` set ms) \<union> actives ms = (receives M u - ms_list ` set (m # ms)) \<union> actives (m # ms)"
    by (auto simp: receives_put_mem actives_Cons)
  then show ?case using IH by (simp add: put_mem_keys receives_put_mem)
qed

lemma put_member_pure:
  "sub_known s u \<Longrightarrow> ms_list m \<in> nl_slugs s \<Longrightarrow> put_member u m s = s\<lparr>nl_members := put_mem u m (nl_members s)\<rparr>"
  by (simp add: put_member_def put_mem_def nl_slugs_def new_member_def mb_key_def Let_def)

text \<open>The memberships a subscriber is loaded with.\<close>

lemma memberships_facts:
  "actives (memberships s u) = receives (nl_members s) u"
  "ms_list ` set (memberships s u) = {l. (u, l) \<in> mb_key ` set (nl_members s)}"
  by (force simp: actives_def memberships_def receives_def mb_key_def)+

lemma memberships_distinct:
  assumes "distinct (map mb_key (nl_members s))"
  shows "distinct (map ms_list (memberships s u))"
proof -
  have "distinct (map mb_list (filter (\<lambda>m. mb_sub m = u) M))" if "distinct (map mb_key M)" for M
    using that by (induction M) (auto simp: mb_key_def image_iff)
  from this [OF assms] have "distinct (map mb_list (sort_key (\<lambda>m. list_place s (mb_list m)) (filter (\<lambda>m. mb_sub m = u) (nl_members s))))"
    by (simp add: distinct_map)
  then show ?thesis by (simp add: memberships_def o_def)
qed

lemma shape_load:
  assumes "nl_inv s"
  shows "shape (nl_slugs s) (memberships s (sb_uuid r)) (load s r)"
proof -
  have d: "distinct (map mb_key (nl_members s))" and l: "\<forall>m \<in> set (nl_members s). mb_list m \<in> nl_slugs s"
    using assms by (simp_all add: nl_inv_def nl_ok_def)
  have "ms_list ` set (memberships s (sb_uuid r)) \<subseteq> nl_slugs s" using l unfolding memberships_facts(2) mb_key_def by auto
  then show ?thesis using memberships_distinct [OF d] by (simp add: shape_def load_def nl_row.extend_def)
qed

section \<open>The tables after a change\<close>

text \<open>A subscriber is saved with the history of the edit.\<close>

lemma nl_ok_update:
  assumes ok: "nl_ok L R M H" and r: "r \<in> set R"
    and R': "map sb_uuid R' = map sb_uuid R"
      "\<And>q. q \<in> set R' \<Longrightarrow> q \<in> set R \<and> sb_uuid q \<noteq> sb_uuid r \<or>
        sb_uuid q = sb_uuid r \<and> sb_status q = st \<and> (st = NlErased) = (sb_email q = None)"
    and M': "distinct (map mb_key M')" "\<forall>m \<in> set M'. mb_sub m \<in> sb_uuid ` set R \<and> mb_list m \<in> L"
      "\<And>v. v \<noteq> sb_uuid r \<Longrightarrow> receives M' v = receives M v"
    and es: "\<forall>e \<in> set es. ce_sub e = sb_uuid r"
      "fold consent_after es (sb_status r, receives M (sb_uuid r)) = (st, receives M' (sb_uuid r))"
  shows "nl_ok L R' M' (H @ es)"
proof -
  have u: "sb_uuid ` set R' = sb_uuid ` set R" using R'(1) by (metis list.set_map)
  have rep: "replay (history (H @ es) (sb_uuid q)) = (sb_status q, receives M' (sb_uuid q))" if q: "q \<in> set R'" for q
    using R'(2) [OF q]
  proof
    assume a: "q \<in> set R \<and> sb_uuid q \<noteq> sb_uuid r"
    then have "history es (sb_uuid q) = []" using es(1) by (intro history_none) auto
    then show ?thesis using a ok M'(3) by (simp add: nl_ok_def)
  next
    assume a: "sb_uuid q = sb_uuid r \<and> sb_status q = st \<and> (st = NlErased) = (sb_email q = None)"
    have "replay (history H (sb_uuid r)) = (sb_status r, receives M (sb_uuid r))" using ok r by (simp add: nl_ok_def)
    then show ?thesis using a es history_all [OF es(1)] by (simp add: replay_append)
  qed
  have er: "(sb_status q = NlErased) = (sb_email q = None)" if q: "q \<in> set R'" for q
    using R'(2) [OF q] ok by (auto simp: nl_ok_def)
  have "distinct (map sb_uuid R')" using R'(1) ok by (simp add: nl_ok_def)
  moreover have "\<forall>e \<in> set (H @ es). ce_sub e \<in> sb_uuid ` set R'" using ok es(1) r unfolding u nl_ok_def by auto
  ultimately show ?thesis using M'(1,2) rep er unfolding nl_ok_def u by blast
qed

text \<open>What an erasure takes out of the history does not matter to the replay.\<close>

lemma nl_ok_scrub:
  assumes ok: "nl_ok L R M H" and f: "\<And>e. ce_sub (f e) = ce_sub e" "\<And>e. ce_kind (f e) = ce_kind e" "\<And>e. ce_list (f e) = ce_list e"
  shows "nl_ok L R M (map f H)"
proof -
  have "consent_after (f e) p = consent_after e p" for e p
    by (cases p) (simp only: consent_after.simps f)
  then have c: "consent_after (f e) = consent_after e" for e by (rule ext)
  have "history (map f H) u = map f (history H u)" for u by (simp add: history_def filter_map o_def f)
  moreover have "replay (map f es) = replay es" for es by (simp add: replay_def fold_map o_def c)
  ultimately show ?thesis using ok by (auto simp: nl_ok_def f)
qed

text \<open>A new subscriber comes in with the history of its creation.\<close>

lemma nl_ok_create:
  assumes ok: "nl_ok L R M H" and r: "sb_uuid r \<notin> sb_uuid ` set R" "(sb_status r = NlErased) = (sb_email r = None)"
    and M': "distinct (map mb_key M')" "\<forall>m \<in> set M'. mb_sub m \<in> insert (sb_uuid r) (sb_uuid ` set R) \<and> mb_list m \<in> L"
      "\<And>v. v \<noteq> sb_uuid r \<Longrightarrow> receives M' v = receives M v"
    and es: "\<forall>e \<in> set es. ce_sub e = sb_uuid r"
      "fold consent_after es (NlPending, {}) = (sb_status r, receives M' (sb_uuid r))"
  shows "nl_ok L (R @ [r]) M' (H @ es)"
proof -
  have "\<forall>e \<in> set H. ce_sub e \<in> sb_uuid ` set R" using ok by (simp add: nl_ok_def)
  then have none: "history H (sb_uuid r) = []" using r(1) by (intro history_none ballI) metis
  have rep: "replay (history (H @ es) (sb_uuid q)) = (sb_status q, receives M' (sb_uuid q))" if q: "q \<in> set (R @ [r])" for q
  proof (cases "q = r")
    case True
    then show ?thesis using none history_all [OF es(1)] es(2) by (simp add: replay_def)
  next
    case False
    then have "q \<in> set R" "sb_uuid q \<noteq> sb_uuid r" using q r(1) by (auto simp: image_iff)
    moreover from this have "history es (sb_uuid q) = []" using es(1) by (intro history_none) auto
    ultimately show ?thesis using ok M'(3) by (simp add: nl_ok_def)
  qed
  have "distinct (map sb_uuid (R @ [r]))" "\<forall>e \<in> set (H @ es). ce_sub e \<in> sb_uuid ` set (R @ [r])"
    "\<forall>q \<in> set (R @ [r]). (sb_status q = NlErased) = (sb_email q = None)"
    using ok r es(1) by (auto simp: nl_ok_def)
  moreover have "sb_uuid ` set (R @ [r]) = insert (sb_uuid r) (sb_uuid ` set R)" by simp
  ultimately show ?thesis using M'(1,2) rep unfolding nl_ok_def by (simp only: Ball_def) blast
qed

end
