(* ===== verification/Newsletter_Correct.thy ===== *)
theory Newsletter_Correct
  imports Newsletter_Trail
begin

text \<open>
  Every change of a subscriber leaves tables that agree with the consent history. A handler reads, edits the subscriber it has
  loaded, saves it and then appends the history of the edit; between the last two the tables wait for that history.
\<close>

section \<open>The part of the state the history speaks of\<close>

type_synonym nl_core = "string set \<times> nl_row list \<times> nl_member list \<times> consent_event list"

definition subs_core :: "nl_store \<Rightarrow> nl_core" where
  "subs_core s = (nl_slugs s, nl_subs s, nl_members s, nl_consents s)"

fun core_ok :: "nl_core \<Rightarrow> bool" where
  "core_ok (L, R, M, H) = nl_ok L R M H"

fun core_append :: "consent_event list \<Rightarrow> nl_core \<Rightarrow> nl_core" where
  "core_append es (L, R, M, H) = (L, R, M, H @ es)"

lemma nl_inv_core: "nl_inv s = core_ok (subs_core s)"
  by (simp add: nl_inv_def subs_core_def)

definition same_subs :: "nl_store \<Rightarrow> nl_store \<Rightarrow> bool" where
  "same_subs s t \<longleftrightarrow> subs_core t = subs_core s"

interpretation same: stepwise same_subs
  by unfold_locales (simp_all add: same_subs_def subs_core_def nl_slugs_def)

lemma same_core_frame:
  "same_subs s (s\<lparr>nl_tokens := a\<rparr>)" "same_subs s (s\<lparr>nl_issues := b\<rparr>)" "same_subs s (s\<lparr>nl_deliveries := c\<rparr>)"
  "same_subs s (s\<lparr>nl_events := d\<rparr>)" "same_subs s (s\<lparr>nl_mails := e\<rparr>)" "same_subs s (s\<lparr>nl_config := f\<rparr>)"
  "same_subs s (s\<lparr>calls := n, nl_posted := g\<rparr>)" "same_subs s s"
  by (simp_all add: same_subs_def subs_core_def nl_slugs_def)

named_theorems core_keeps \<open>computations that leave the subscriptions alone\<close>

lemmas [core_keeps] = same.steps_intros

lemma reads_draw [reads_intros]: "reads (draw f)"
  unfolding reads_def draw_def by simp

lemma reads_queries [reads_intros]:
  "reads nl_Now" "reads nl_New" "reads (nl_ext x)" "reads (Lists b)" "reads nl_Config" "reads (oneSubscriber P)" "reads (nl_Subscriber u)"
  "reads (SubscriberByEmail e)" "reads (SubscriberByUser u)" "reads (nl_Token h)" "reads (ConsentHistory u n)" "reads (Issue u)"
  "reads (DueIssues now n)" "reads (DeliveryCounts u n)"
proof -
  have f: "reads (\<lambda>s. case g s of None \<Rightarrow> (Inl e, s) | Some x \<Rightarrow> (Inr x, s))" for g :: "nl_store \<Rightarrow> 'x option" and e :: "nl_error failure"
    unfolding reads_def by (simp split: option.split)
  have o: "reads (oneSubscriber P)" for P unfolding oneSubscriber_def by (intro reads_intros f)
  show "reads (oneSubscriber P)" "reads (nl_Subscriber u)" "reads (SubscriberByEmail e)" "reads (SubscriberByUser u)"
    unfolding nl_Subscriber_def SubscriberByEmail_def SubscriberByUser_def by (rule o)+
  show "reads nl_Now" "reads nl_New" "reads (nl_ext x)" "reads (Lists b)" "reads nl_Config" "reads (nl_Token h)" "reads (ConsentHistory u n)"
    "reads (Issue u)" "reads (DueIssues now n)" "reads (DeliveryCounts u n)"
    unfolding nl_Now_def nl_New_def nl_ext_def Lists_def nl_Config_def nl_Token_def ConsentHistory_def Issue_def DueIssues_def DeliveryCounts_def
    by (intro reads_intros f)+
qed

lemma reads_helpers [reads_intros]:
  "reads (nl_NormalizeE E v)" "reads (newSubscriber a b f src ip ua)" "reads (byEmail e)" "reads (resolveLists ls)" "reads (resolveExact ls)"
  "reads (listNames ls)" "reads (lookupToken E v p)" "reads (verifyCaptcha E tok ip)" "reads (preferences u)" "reads (nl_Account E acc u)"
  "reads (forAccount E u)" "reads (subscriber_detail u)" "reads ProviderConfig" "reads (ready_for st)" "reads (prepareMove i st w now)"
  "reads (applyContent i pt)"
proof -
  show b: "reads (byEmail e)" for e unfolding byEmail_def by (intro reads_intros)
  show a: "reads (nl_Account E acc u)" for acc unfolding nl_Account_def by (intro reads_intros)
  show x: "reads (resolveExact ls)" for ls unfolding resolveExact_def by (intro reads_intros)
  show r: "reads (ready_for st)" unfolding ready_for_def by (intro reads_intros)
  show "reads (nl_NormalizeE E v)" "reads (newSubscriber a b f src ip ua)" "reads (resolveLists ls)"
    "reads (listNames ls)" "reads (lookupToken E v p)" "reads (verifyCaptcha E tok ip)" "reads (preferences u)" "reads (subscriber_detail u)"
    "reads ProviderConfig"
    unfolding nl_NormalizeE_def newSubscriber_def resolveLists_def listNames_def lookupToken_def verifyCaptcha_def preferences_def
      subscriber_detail_def ProviderConfig_def Let_def
    by (intro reads_intros)+
  show "reads (forAccount E u)" unfolding forAccount_def by (intro reads_intros a b)
  show "reads (prepareMove i st w now)" "reads (applyContent i pt)" unfolding prepareMove_def applyContent_def Let_def by (intro reads_intros r x)+
qed

lemmas [core_keeps] = reads_queries [THEN same.steps_reads] reads_helpers [THEN same.steps_reads]

lemma core_tokens [core_keeps]:
  "steps same_subs (CreateToken t)" "steps same_subs (UseToken h at)" "steps same_subs (RevokeTokens u p)" "steps same_subs (nl_PruneTokens at)"
  "steps same_subs (issueToken E u p iss x)"
proof -
  show c: "steps same_subs (CreateToken t)" for t
    unfolding CreateToken_def by (intro same.steps_db_call stepsI) (simp add: same_core_frame)
  show "steps same_subs (UseToken h at)" "steps same_subs (RevokeTokens u p)" "steps same_subs (nl_PruneTokens at)"
    unfolding UseToken_def RevokeTokens_def nl_PruneTokens_def
    by (intro same.steps_db_call stepsI; simp add: same_core_frame change_run)+
  have "reads (db_call (asks (\<lambda>s. nl_random s (calls s))))" by (intro reads_intros)
  then show "steps same_subs (issueToken E u p iss x)" unfolding issueToken_def
    by (intro core_keeps c same.steps_reads [OF \<open>reads (db_call _)\<close>])
qed

lemma core_ports [core_keeps]: "steps same_subs (nl_record e)" "steps same_subs (nl_post E m)" "steps same_subs (SaveConfig c)"
  unfolding nl_record_def nl_post_def SaveConfig_def by (intro core_keeps same.steps_change same_core_frame)+

lemma core_issues [core_keeps]:
  "steps same_subs (nl_CreateIssue i)" "steps same_subs (nl_UpdateIssue i st)" "steps same_subs (MoveIssue u fs st at)"
  "steps same_subs (FinishIssue u c at)" "steps same_subs (queued i a now)" "steps same_subs (saveIssue i st ac now)"
proof -
  have d: "steps same_subs (db_call (\<lambda>s. (Inr (f s), s\<lparr>nl_issues := g s\<rparr>)))"
    "steps same_subs (db_call (\<lambda>s. if b s then (Inl StoreFail, s) else (Inr (f s), s\<lparr>nl_issues := g s\<rparr>)))" for f :: "nl_store \<Rightarrow> 'x" and g b
    by (intro same.steps_db_call stepsI; simp add: same_core_frame)+
  show "steps same_subs (nl_CreateIssue i)" unfolding nl_CreateIssue_def
    by (intro core_keeps same.steps_change same_core_frame d)
  show u: "steps same_subs (nl_UpdateIssue i st)" unfolding nl_UpdateIssue_def Let_def
    by (intro core_keeps same.steps_change same_core_frame d)
  show m: "steps same_subs (MoveIssue u fs st at)" for u fs st at unfolding MoveIssue_def Let_def by (rule d)
  show "steps same_subs (FinishIssue u c at)" unfolding FinishIssue_def Let_def by (rule d)
  show q: "steps same_subs (queued i a now)" for i a now unfolding queued_def by (intro core_keeps)
  show "steps same_subs (saveIssue i st ac now)" unfolding saveIssue_def by (intro core_keeps u m q)
qed

lemma core_deliveries [core_keeps]:
  "steps same_subs (ClaimRecipients u c)" "steps same_subs (RecordDelivery x)" "steps same_subs (deliver E u r)" "steps same_subs (send_batch E u rs)"
proof -
  show c: "steps same_subs (ClaimRecipients u c)" unfolding ClaimRecipients_def read_recipients_def Let_def
    by (intro core_keeps stepsI) (simp_all add: same_core_frame asks_run)
  show r: "steps same_subs (RecordDelivery x)" for x unfolding RecordDelivery_def by (intro core_keeps same.steps_change same_core_frame)
  have s: "steps same_subs (nl_Send u r)" for r by (rule stepsI) (simp add: nl_Send_def same_core_frame)
  show d: "steps same_subs (deliver E u r)" for r unfolding deliver_def fresh_links_def Let_def by (intro core_keeps s)
  show "steps same_subs (send_batch E u rs)" by (induction rs) (simp_all, intro core_keeps, intro core_keeps d r)
qed

lemma core_rounds: "steps same_subs (send_rounds n E u w)"
  by (induction n) (simp_all, intro core_keeps, intro core_keeps)

lemma core_dispatch [core_keeps]: "steps same_subs (Dispatch E u)"
proof -
  have "steps same_subs (sendAll E u w)" for w using core_rounds unfolding sendAll_def steps_def by blast
  then show ?thesis unfolding Dispatch_def nl_begin_def nl_finish_def by (intro core_keeps; simp add: core_keeps split: issue_status.split)
qed

section \<open>Proof rules\<close>

text \<open>What holds when a computation succeeds; inside a transaction nothing else matters.\<close>

definition hoare :: "('s \<Rightarrow> bool) \<Rightarrow> ('s, 'e, 'a) comp \<Rightarrow> ('a \<Rightarrow> 's \<Rightarrow> bool) \<Rightarrow> bool" where
  "hoare P m Q \<longleftrightarrow> (\<forall>s x t. P s \<longrightarrow> m s = (Inr x, t) \<longrightarrow> Q x t)"

lemma hoareI: "(\<And>s x t. P s \<Longrightarrow> m s = (Inr x, t) \<Longrightarrow> Q x t) \<Longrightarrow> hoare P m Q"
  by (simp add: hoare_def)

lemma hoare_then: "hoare P m R \<Longrightarrow> (\<And>x. hoare (R x) (f x) Q) \<Longrightarrow> hoare P (andthen m f) Q"
  unfolding hoare_def andthen_Inr_iff by blast

lemma hoare_ret: "(\<And>s. P s \<Longrightarrow> Q x s) \<Longrightarrow> hoare P (ret x) Q"
  by (simp add: hoare_def result_iffs)

lemma hoare_fail [simp]: "hoare P (throw e) Q" "hoare P (raise f) Q"
  by (simp_all add: hoare_def result_iffs)

lemma hoare_if: "(c \<Longrightarrow> hoare P a Q) \<Longrightarrow> (\<not> c \<Longrightarrow> hoare P b Q) \<Longrightarrow> hoare P (if c then a else b) Q"
  by simp

lemma hoare_post: "hoare P m Q \<Longrightarrow> (\<And>x s. Q x s \<Longrightarrow> Q' x s) \<Longrightarrow> hoare P m Q'"
  unfolding hoare_def by blast

lemma hoare_keeps: "steps same_subs m \<Longrightarrow> hoare (\<lambda>s. P (subs_core s)) m (\<lambda>_ s. P (subs_core s))"
proof (rule hoareI)
  fix s x t
  assume k: "steps same_subs m" and p: "P (subs_core s)" and m: "m s = (Inr x, t)"
  from stepsD [OF k, of s] p show "P (subs_core t)" by (simp add: m same_subs_def)
qed

text \<open>A read brings a fact on what it returns.\<close>

definition yields :: "nl_core \<Rightarrow> 'a nl_comp \<Rightarrow> ('a \<Rightarrow> bool) \<Rightarrow> bool" where
  "yields C m P \<longleftrightarrow> steps same_subs m \<and> (\<forall>s x t. subs_core s = C \<longrightarrow> m s = (Inr x, t) \<longrightarrow> P x)"

lemma yieldsI: "steps same_subs m \<Longrightarrow> (\<And>s x t. subs_core s = C \<Longrightarrow> m s = (Inr x, t) \<Longrightarrow> P x) \<Longrightarrow> yields C m P"
  by (simp add: yields_def)

lemma yields_True: "steps same_subs m \<Longrightarrow> yields C m (\<lambda>_. True)"
  by (simp add: yields_def)

lemma yields_core: "yields C m P \<Longrightarrow> subs_core s = C \<Longrightarrow> m s = (r, t) \<Longrightarrow> subs_core t = C"
  using stepsD [of same_subs m s] by (simp add: yields_def same_subs_def)

lemma yields_then: "yields C m P \<Longrightarrow> (\<And>x. P x \<Longrightarrow> yields C (f x) Q) \<Longrightarrow> steps same_subs (andthen m f) \<Longrightarrow> yields C (andthen m f) Q"
  using yields_core unfolding yields_def andthen_Inr_iff by metis

lemma hoare_read: "yields C m P \<Longrightarrow> (\<And>x. P x \<Longrightarrow> hoare (\<lambda>s. subs_core s = C) (f x) Q) \<Longrightarrow> hoare (\<lambda>s. subs_core s = C) (andthen m f) Q"
  using yields_core unfolding hoare_def andthen_Inr_iff yields_def by metis

text \<open>Started on tables that agree, a request leaves tables that agree, whether it succeeds or fails.\<close>

definition settled :: "nl_core \<Rightarrow> 'a nl_comp \<Rightarrow> bool" where
  "settled C m \<longleftrightarrow> (\<forall>s. subs_core s = C \<longrightarrow> nl_inv (snd (m s)))"

lemma settled_keeps: "core_ok C \<Longrightarrow> steps same_subs m \<Longrightarrow> settled C m"
  by (simp add: settled_def nl_inv_core steps_def same_subs_def)

lemma settled_read:
  assumes "core_ok C" "yields C m P" "\<And>x. P x \<Longrightarrow> settled C (f x)"
  shows "settled C (andthen m f)"
  unfolding settled_def
proof (intro allI impI)
  fix s
  assume s: "subs_core s = C"
  obtain r t where m: "m s = (r, t)" by fastforce
  have t: "subs_core t = C" by (rule yields_core [OF assms(2) s m])
  show "nl_inv (snd (andthen m f s))"
  proof (cases r)
    case (Inl e)
    then show ?thesis using m t assms(1) by (simp add: andthen_def nl_inv_core)
  next
    case (Inr x)
    then have "P x" using assms(2) s m by (simp add: yields_def)
    then show ?thesis using assms(3) t m Inr by (simp add: andthen_def settled_def)
  qed
qed

lemma settled_tx:
  assumes "core_ok C" "hoare (\<lambda>s. subs_core s = C) m (\<lambda>_. nl_inv)"
  shows "settled C (within_tx m)"
  unfolding settled_def
proof (intro allI impI)
  fix s
  assume s: "subs_core s = C"
  obtain r t where m: "m s = (r, t)" by fastforce
  have "subs_core (s\<lparr>calls := n\<rparr>) = subs_core s" for n by (simp add: subs_core_def nl_slugs_def)
  then show "nl_inv (snd (within_tx m s))"
    using m s assms by (cases r) (simp_all add: within_tx_def nl_inv_core hoare_def)
qed

lemma settled_then: "settled C m \<Longrightarrow> (\<And>x. steps same_subs (f x)) \<Longrightarrow> settled C (andthen m f)"
  unfolding settled_def steps_def same_subs_def nl_inv_core andthen_def by (simp split: prod.split sum.split) (metis snd_conv)

lemma settled_if: "(c \<Longrightarrow> settled C a) \<Longrightarrow> (\<not> c \<Longrightarrow> settled C b) \<Longrightarrow> settled C (if c then a else b)"
  by simp

lemma settledD: "(\<And>C. core_ok C \<Longrightarrow> settled C m) \<Longrightarrow> nl_inv s \<Longrightarrow> nl_inv (snd (m s))"
  by (simp add: settled_def nl_inv_core)

section \<open>Subscribers in hand\<close>

text \<open>
  A subscriber that is to be saved: \<open>new\<close> tells whether it is created, \<open>p\<close> is the status and the lists received that the
  tables hold for it.
\<close>

definition draft :: "nl_core \<Rightarrow> nl_status \<times> string set \<Rightarrow> bool \<Rightarrow> subscriber \<Rightarrow> bool" where
  "draft C p new x \<longleftrightarrow>
     (case C of (L, R, M, H) \<Rightarrow>
        if new then p = (NlPending, {}) \<and> shape L [] x
        else \<exists>r ms0. r \<in> set R \<and> sb_uuid x = sb_uuid r \<and> p = (sb_status r, receives M (sb_uuid r)) \<and> shape L ms0 x \<and>
               actives ms0 = receives M (sb_uuid r) \<and> ms_list ` set ms0 = {l. (sb_uuid r, l) \<in> mb_key ` set M})"

definition in_hand :: "nl_core \<Rightarrow> bool \<Rightarrow> subscriber \<Rightarrow> bool" where
  "in_hand C new x \<longleftrightarrow> draft C (sb_status x, actives (sb_members x)) new x"

lemma draft_frame:
  "draft C p new x \<Longrightarrow> sb_uuid y = sb_uuid x \<Longrightarrow> sb_members y = sb_members x \<Longrightarrow> sb_modified y = sb_modified x \<Longrightarrow> draft C p new y"
  by (auto simp: draft_def shape_def split: prod.splits if_splits)

lemma draft_shape: "draft (L, R, M, H) p new x \<Longrightarrow> \<exists>ms0. shape L ms0 x"
  by (auto simp: draft_def split: if_splits)

lemma draft_edits:
  assumes "draft (L, R, M, H) p new x" "\<And>ms0. shape L ms0 x \<Longrightarrow> member_edits L ms0 x A y"
  shows "draft (L, R, M, H) p new y \<and> sb_uuid y = sb_uuid x \<and> sb_status y = sb_status x \<and> actives (sb_members y) = A"
proof -
  have "sb_uuid y = sb_uuid x \<and> sb_status y = sb_status x \<and> actives (sb_members y) = A"
    using draft_shape [OF assms(1)] assms(2) by (auto simp: member_edits_def)
  moreover have "shape L ms0 x \<Longrightarrow> shape L ms0 y" for ms0 using assms(2) by (simp add: member_edits_def)
  ultimately show ?thesis using assms(1) by (auto simp: draft_def split: if_splits)
qed

text \<open>The tables once it is saved: a history that leads from \<open>p\<close> to its state makes them agree again.\<close>

definition awaits :: "nl_status \<times> string set \<Rightarrow> subscriber \<Rightarrow> nl_core \<Rightarrow> bool" where
  "awaits p x C \<longleftrightarrow>
     (\<forall>es. (\<forall>e \<in> set es. ce_sub e = sb_uuid x) \<longrightarrow> fold consent_after es p = (sb_status x, actives (sb_members x)) \<longrightarrow>
        core_ok (core_append es C))"

lemma awaitsD:
  "awaits p x C \<Longrightarrow> \<forall>e \<in> set es. ce_sub e = sb_uuid x \<Longrightarrow> fold consent_after es p = (sb_status x, actives (sb_members x)) \<Longrightarrow>
   core_ok (core_append es C)"
  by (simp add: awaits_def)

lemma awaits_done: "awaits (sb_status x, actives (sb_members x)) x (subs_core s) \<Longrightarrow> nl_inv s"
  using awaitsD [of _ x "subs_core s" "[]"] by (cases "subs_core s") (simp add: nl_inv_core)

lemma AppendConsent_run: "AppendConsent es s = (Inr x, t) \<Longrightarrow> subs_core t = core_append es (subs_core s)"
proof (induction es arbitrary: s)
  case Nil
  then show ?case by (simp add: result_iffs subs_core_def)
next
  case (Cons e es)
  from Cons.prems obtain n where a: "AppendConsent es (s\<lparr>calls := n, nl_consents := nl_consents s @ [e]\<rparr>) = (Inr x, t)"
    by (auto simp: andthen_Inr_iff db_call_Inr_iff split: if_splits)
  from Cons.IH [OF a] show ?case by (simp add: subs_core_def nl_slugs_def)
qed

lemma hoare_append:
  assumes "\<forall>e \<in> set es. ce_sub e = sb_uuid x" "fold consent_after es p = (sb_status x, actives (sb_members x))"
  shows "hoare (\<lambda>s. awaits p x (subs_core s)) (AppendConsent es) (\<lambda>_. nl_inv)"
  by (rule hoareI) (simp add: nl_inv_core AppendConsent_run awaitsD [OF _ assms])

lemma saveMemberships_run:
  assumes "saveMemberships u ms s = (Inr x, t)" "sub_known s u" "ms_list ` set ms \<subseteq> nl_slugs s"
  shows "\<exists>n. t = s\<lparr>calls := n, nl_members := fold (put_mem u) ms (nl_members s)\<rparr>"
  using assms
proof (induction ms arbitrary: s)
  case Nil
  then show ?case by (auto simp: result_iffs intro: exI [of _ "calls s"])
next
  case (Cons m ms)
  let ?s = "s\<lparr>calls := Suc (calls s), nl_members := put_mem u m (nl_members s)\<rparr>"
  have k: "sub_known (s\<lparr>calls := n\<rparr>) u" "nl_slugs (s\<lparr>calls := n\<rparr>) = nl_slugs s" for n
    using Cons.prems(2) by (simp_all add: sub_known_def nl_slugs_def)
  have p: "put_member u m (s\<lparr>calls := Suc (calls s)\<rparr>) = ?s"
    using put_member_pure [of "s\<lparr>calls := Suc (calls s)\<rparr>" u m] k Cons.prems(3) by simp
  from Cons.prems(1) have "saveMemberships u ms ?s = (Inr x, t)"
    by (simp add: andthen_Inr_iff db_call_Inr_iff result_iffs p)
  from Cons.IH [OF this] Cons.prems(2,3) obtain n where "t = ?s\<lparr>calls := n, nl_members := fold (put_mem u) ms (nl_members ?s)\<rparr>"
    by (auto simp: sub_known_def nl_slugs_def)
  then show ?case by (intro exI [of _ n]) simp
qed

text \<open>The membership table after the save.\<close>

lemma put_mems_shape:
  assumes "distinct (map mb_key M)" "shape L ms0 x" "ms_list ` set ms0 = {l. (u, l) \<in> mb_key ` set M}" "actives ms0 = receives M u"
    and M: "\<forall>m \<in> set M. mb_sub m \<in> U \<and> mb_list m \<in> L" and u: "u \<in> U"
    and M': "M' = (if sb_modified x then fold (put_mem u) (sb_members x) M else M)"
  shows "distinct (map mb_key M') \<and> (\<forall>m \<in> set M'. mb_sub m \<in> U \<and> mb_list m \<in> L) \<and> (\<forall>v. v \<noteq> u \<longrightarrow> receives M' v = receives M v) \<and>
    receives M' u = actives (sb_members x)"
proof (cases "sb_modified x")
  case True
  note f = put_mems [OF assms(1), of "sb_members x" u]
  have d: "distinct (map ms_list (sb_members x))" and l: "ms_list ` set (sb_members x) \<subseteq> L"
    and c: "ms_list ` set ms0 \<subseteq> ms_list ` set (sb_members x)" using assms(2) by (simp_all add: shape_def)
  have "mb_key m \<in> mb_key ` set M \<union> (\<lambda>m. (u, ms_list m)) ` set (sb_members x)" if "m \<in> set M'" for m
    using f [OF d] that True M' by (simp only: if_True) blast
  then have "\<forall>m \<in> set M'. mb_sub m \<in> U \<and> mb_list m \<in> L" using M u l by (fastforce simp: mb_key_def)
  moreover have "receives M u \<subseteq> ms_list ` set (sb_members x)" using c actives_sub [of ms0] assms(4) by simp
  ultimately show ?thesis using f [OF d] True M' by auto
next
  case False
  then have "sb_members x = ms0" using assms(2) by (simp add: shape_def)
  then show ?thesis using False assms by simp
qed

lemma user_ref_calls [simp]: "user_ref (s\<lparr>calls := n\<rparr>) u = user_ref s u"
  by (simp add: user_ref_def split: option.split)

lemma nl_row_of_calls [simp]: "nl_row_of (s\<lparr>calls := n\<rparr>) x = nl_row_of s x"
  by (simp add: nl_row_of_def)

lemma hoare_update:
  assumes ok: "core_ok C" and d: "draft C p False x"
  shows "hoare (\<lambda>s. subs_core s = C) (UpdateSubscriber x) (\<lambda>_ s. awaits p x (subs_core s))"
proof (rule hoareI)
  fix s v t
  assume s: "subs_core s = C" and run: "UpdateSubscriber x s = (Inr v, t)"
  obtain L R M H where C: "C = (L, R, M, H)" by (cases C)
  then have st: "nl_slugs s = L" "nl_subs s = R" "nl_members s = M" "nl_consents s = H" using s by (simp_all add: subs_core_def)
  obtain r ms0 where r: "r \<in> set R" "sb_uuid x = sb_uuid r" "p = (sb_status r, receives M (sb_uuid r))"
    and m: "shape L ms0 x" "actives ms0 = receives M (sb_uuid r)" "ms_list ` set ms0 = {l. (sb_uuid r, l) \<in> mb_key ` set M}"
    using d unfolding C draft_def by auto
  define R' where "R' = map (\<lambda>q. if sb_uuid q = sb_uuid x then put_sub (nl_row_of s x) q else q) R"
  define M' where "M' = (if sb_modified x then fold (put_mem (sb_uuid r)) (sb_members x) M else M)"
  let ?s = "s\<lparr>calls := Suc (calls s), nl_subs := R'\<rparr>"
  have chk: "\<forall>q \<in> set R. sb_uuid q = sb_uuid x \<longrightarrow> (sb_status x = NlErased) = (sb_email q = None)"
    and rest: "(if sb_modified x then saveMemberships (sb_uuid x) (sb_members x) else ret ()) ?s = (Inr v, t)"
    using run st unfolding UpdateSubscriber_def Let_def R'_def
    by (auto simp: andthen_Inr_iff db_call_Inr_iff list_ex_iff split: if_splits cong: if_cong)
  have um: "map sb_uuid R' = map sb_uuid R" unfolding R'_def by (simp add: put_sub_def)
  then have u: "sb_uuid ` set R' = sb_uuid ` set R" by (metis list.set_map)
  have "sub_known ?s (sb_uuid x)" using u r(1,2) by (simp add: sub_known_def)
  moreover have "ms_list ` set (sb_members x) \<subseteq> nl_slugs ?s" using shape_lists [OF m(1)] st(1) by (simp add: nl_slugs_def)
  ultimately have "\<exists>n. t = ?s\<lparr>calls := n, nl_members := M'\<rparr>"
    using rest saveMemberships_run [of "sb_uuid x" "sb_members x" ?s v t] st(3) r(2) unfolding M'_def
    by (auto simp: result_iffs split: if_splits intro: exI [of _ "Suc (calls s)"])
  then have t: "subs_core t = (L, R', M', H)" using st by (auto simp: subs_core_def nl_slugs_def)
  have ok': "nl_ok L R M H" using ok C by simp
  have ms: "distinct (map mb_key M') \<and> (\<forall>m \<in> set M'. mb_sub m \<in> sb_uuid ` set R \<and> mb_list m \<in> L) \<and>
    (\<forall>v. v \<noteq> sb_uuid r \<longrightarrow> receives M' v = receives M v) \<and> receives M' (sb_uuid r) = actives (sb_members x)"
    using ok' r(1) by (intro put_mems_shape [OF _ m(1) m(3) m(2) _ _ M'_def]) (simp_all add: nl_ok_def)
  have er: "(sb_status x = NlErased) = (sb_email r = None)" using chk r(1,2) by simp
  have "distinct (map sb_uuid R)" using ok' by (simp add: nl_ok_def)
  then have one: "q = r" if "q \<in> set R" "sb_uuid q = sb_uuid r" for q using that r(1) by (simp add: distinct_map inj_on_def)
  have rows: "q \<in> set R \<and> sb_uuid q \<noteq> sb_uuid r \<or> sb_uuid q = sb_uuid r \<and> sb_status q = sb_status x \<and> (sb_status x = NlErased) = (sb_email q = None)"
    if "q \<in> set R'" for q
    using that r(2) er unfolding R'_def by (auto simp: put_sub_def nl_row_of_def nl_row.truncate_def dest: one)
  show "awaits p x (subs_core t)"
    unfolding awaits_def t
  proof (intro allI impI)
    fix es
    assume e: "\<forall>e \<in> set es. ce_sub e = sb_uuid x" "fold consent_after es p = (sb_status x, actives (sb_members x))"
    have "nl_ok L R' M' (H @ es)"
      using e r(2,3) ms by (intro nl_ok_update [OF ok' r(1) um rows]) auto
    then show "core_ok (core_append es (L, R', M', H))" by simp
  qed
qed

lemma hoare_create:
  assumes ok: "core_ok C" and d: "draft C p True x"
  shows "hoare (\<lambda>s. subs_core s = C) (CreateSubscriber x) (\<lambda>_ s. awaits p x (subs_core s))"
proof (rule hoareI)
  fix s v t
  assume s: "subs_core s = C" and run: "CreateSubscriber x s = (Inr v, t)"
  obtain L R M H where C: "C = (L, R, M, H)" by (cases C)
  then have st: "nl_slugs s = L" "nl_subs s = R" "nl_members s = M" "nl_consents s = H" using s by (simp_all add: subs_core_def)
  have p: "p = (NlPending, {})" and m: "shape L [] x" using d unfolding C draft_def by simp_all
  define q where "q = (nl_row_of s x)\<lparr>sb_unsubscribed := None, sb_bounced := None, sb_complained := None, sb_erased := None\<rparr>"
  define M' where "M' = fold (put_mem (sb_uuid x)) (sb_members x) M"
  let ?s = "s\<lparr>calls := Suc (calls s), nl_subs := R @ [q]\<rparr>"
  have q: "sb_uuid q = sb_uuid x" "sb_status q = sb_status x"
    by (simp_all add: q_def nl_row_of_def nl_row.truncate_def)
  have new: "\<not> row_conflict s q" and er: "(sb_status q = NlErased) = (sb_email q = None)"
    and rest: "saveMemberships (sb_uuid x) (sb_members x) ?s = (Inr v, t)"
    using run st unfolding CreateSubscriber_def Let_def q_def
    by (auto simp: within_tx_Inr_iff andthen_Inr_iff db_call_Inr_iff nl_row_of_calls row_conflict_def split: if_splits)
  have fresh: "sb_uuid q \<notin> sb_uuid ` set R" using new st(2) by (force simp: row_conflict_def list_ex_iff)
  have ok': "nl_ok L R M H" using ok C by simp
  have known: "\<forall>m \<in> set M. mb_sub m \<in> sb_uuid ` set R \<and> mb_list m \<in> L" using ok' by (simp add: nl_ok_def)
  have "sub_known ?s (sb_uuid x)" using q(1) by (simp add: sub_known_def)
  moreover have "ms_list ` set (sb_members x) \<subseteq> nl_slugs ?s" using shape_lists [OF m] st(1) by (simp add: nl_slugs_def)
  ultimately obtain n where "t = ?s\<lparr>calls := n, nl_members := M'\<rparr>"
    using saveMemberships_run [OF rest] st(3) unfolding M'_def by auto
  then have t: "subs_core t = (L, R @ [q], M', H)" using st by (simp add: subs_core_def nl_slugs_def)
  have none: "ms_list ` set [] = {l. (sb_uuid x, l) \<in> mb_key ` set M}" "actives [] = receives M (sb_uuid x)"
    using known fresh unfolding q(1) by (force simp: mb_key_def actives_def receives_def)+
  have m': "M' = (if sb_modified x then fold (put_mem (sb_uuid x)) (sb_members x) M else M)"
    using m unfolding M'_def shape_def by auto
  have ms: "distinct (map mb_key M') \<and> (\<forall>m \<in> set M'. mb_sub m \<in> insert (sb_uuid q) (sb_uuid ` set R) \<and> mb_list m \<in> L) \<and>
    (\<forall>v. v \<noteq> sb_uuid x \<longrightarrow> receives M' v = receives M v) \<and> receives M' (sb_uuid x) = actives (sb_members x)"
    using ok' known q(1) by (intro put_mems_shape [OF _ m none _ _ m']) (simp_all add: nl_ok_def)
  show "awaits p x (subs_core t)"
    unfolding awaits_def t
  proof (intro allI impI)
    fix es
    assume e: "\<forall>e \<in> set es. ce_sub e = sb_uuid x" "fold consent_after es p = (sb_status x, actives (sb_members x))"
    have "nl_ok L (R @ [q]) M' (H @ es)"
      using e q p ms by (intro nl_ok_create [OF ok' fresh er]) auto
    then show "core_ok (core_append es (L, R @ [q], M', H))" by simp
  qed
qed

end
