(* ===== verification/Newsletter_Requests.thy ===== *)
theory Newsletter_Requests
  imports Newsletter_Correct
begin

text \<open>
  The requests of the newsletter: each leaves tables that agree with the consent history, and the history only grows.
\<close>

section \<open>What the reads return\<close>

lemma yields_ret: "P x \<Longrightarrow> yields C (ret x) P"
  by (rule yieldsI) (simp_all add: same.steps_basic result_iffs)

lemma yields_fail: "yields C (throw e) P" "yields C (raise f) P"
  by (rule yieldsI; simp add: same.steps_basic result_iffs)+

lemma yields_if: "(c \<Longrightarrow> yields C a P) \<Longrightarrow> (\<not> c \<Longrightarrow> yields C b P) \<Longrightarrow> yields C (if c then a else b) P"
  by simp

lemma yields_bind: "yields C m P \<Longrightarrow> (\<And>x. P x \<Longrightarrow> yields C (f x) Q) \<Longrightarrow> (\<And>x. steps same_subs (f x)) \<Longrightarrow> yields C (andthen m f) Q"
  by (rule yields_then) (auto simp: yields_def intro: same.steps_andthen)

lemma yields_attempt: "yields C m P \<Longrightarrow> yields C (attempt m) (\<lambda>r. \<forall>x. r = Inr x \<longrightarrow> P x)"
  unfolding yields_def by (auto simp: attempt_def same.steps_attempt split: prod.splits)

lemma memberships_calls [simp]: "memberships (s\<lparr>calls := n\<rparr>) u = memberships s u"
  by (simp add: memberships_def list_place_def cong: option.case_cong)

lemma in_hand_load:
  assumes "core_ok C" "subs_core s = C" "r \<in> set (nl_subs s)"
  shows "in_hand C False (load s r)"
proof -
  have i: "nl_inv s" using assms by (simp add: nl_inv_core)
  have l: "sb_uuid (load s r) = sb_uuid r" "sb_status (load s r) = sb_status r" "sb_members (load s r) = memberships s (sb_uuid r)"
    by (simp_all add: load_def nl_row.extend_def)
  show ?thesis unfolding in_hand_def draft_def
    using assms(2,3) shape_load [OF i, of r] memberships_facts [of s "sb_uuid r"]
    by (auto simp: subs_core_def l intro!: exI [of _ r] exI [of _ "memberships s (sb_uuid r)"])
qed

lemma yields_one:
  assumes "core_ok C"
  shows "yields C (oneSubscriber P) (in_hand C False)"
proof (rule yieldsI)
  show "steps same_subs (oneSubscriber P)" by (intro core_keeps)
  fix s x t
  assume c: "subs_core s = C" and run: "oneSubscriber P s = (Inr x, t)"
  obtain r n where r: "find P (nl_subs s) = Some r" and x: "x = load (s\<lparr>calls := n\<rparr>) r"
    using run unfolding oneSubscriber_def by (auto simp: andthen_Inr_iff db_call_Inr_iff asks_run split: option.splits)
  have "r \<in> set (nl_subs (s\<lparr>calls := n\<rparr>))" using r by (auto simp: find_Some_iff)
  moreover have "subs_core (s\<lparr>calls := n\<rparr>) = C" using c by (simp add: subs_core_def nl_slugs_def)
  ultimately show "in_hand C False x" unfolding x using in_hand_load [OF assms] by blast
qed

lemma yields_subscriber:
  assumes "core_ok C"
  shows "yields C (nl_Subscriber u) (in_hand C False)" "yields C (SubscriberByUser v) (in_hand C False)"
    "yields C (byEmail e) (\<lambda>f. \<forall>x. f = Some x \<longrightarrow> in_hand C False x)"
proof -
  show "yields C (nl_Subscriber u) (in_hand C False)" "yields C (SubscriberByUser v) (in_hand C False)"
    unfolding nl_Subscriber_def SubscriberByUser_def by (rule yields_one [OF assms])+
  show "yields C (byEmail e) (\<lambda>f. \<forall>x. f = Some x \<longrightarrow> in_hand C False x)"
    unfolding byEmail_def SubscriberByEmail_def
    by (rule yields_bind [OF yields_attempt [OF yields_one [OF assms]]])
      (auto intro: yields_ret yields_fail core_keeps split: sum.split)
qed

lemma yields_account:
  assumes "core_ok C"
  shows "yields C (forAccount E u) (\<lambda>f. \<forall>x. f = Some x \<longrightarrow> in_hand C False x)"
proof -
  have k: "steps same_subs (forAccount E u)" by (intro core_keeps)
  show ?thesis
    unfolding forAccount_def
  proof (rule yields_then [OF yields_attempt [OF yields_subscriber(2) [OF assms]]])
    show "steps same_subs (andthen (attempt (SubscriberByUser u)) (\<lambda>r. case r of
        Inl f \<Rightarrow> if f \<noteq> Err NlNotFound then raise f else (case ne_Accounts E of None \<Rightarrow> ret None
          | Some accounts \<Rightarrow> andthen (nl_Account E accounts u) (\<lambda>a.
             case nl_NormalizeEmail (ne_lower E) (ne_Parse E) (na_Email a) of Inl _ \<Rightarrow> ret None | Inr email \<Rightarrow> byEmail email))
      | Inr x \<Rightarrow> ret (Some x)))" using k by (simp add: forAccount_def)
    fix r :: "nl_error failure + subscriber"
    assume r: "\<forall>x. r = Inr x \<longrightarrow> in_hand C False x"
    have a: "yields C (andthen (nl_Account E accounts u) (\<lambda>a. case nl_NormalizeEmail (ne_lower E) (ne_Parse E) (na_Email a) of
        Inl _ \<Rightarrow> ret None | Inr email \<Rightarrow> byEmail email)) (\<lambda>f. \<forall>x. f = Some x \<longrightarrow> in_hand C False x)" for accounts
      by (rule yields_bind [OF yields_True]) (auto intro: core_keeps yields_ret yields_subscriber(3) [OF assms] split: sum.split)
    show "yields C (case r of Inl f \<Rightarrow> if f \<noteq> Err NlNotFound then raise f else (case ne_Accounts E of None \<Rightarrow> ret None
          | Some accounts \<Rightarrow> andthen (nl_Account E accounts u) (\<lambda>a.
             case nl_NormalizeEmail (ne_lower E) (ne_Parse E) (na_Email a) of Inl _ \<Rightarrow> ret None | Inr email \<Rightarrow> byEmail email))
      | Inr x \<Rightarrow> ret (Some x)) (\<lambda>f. \<forall>x. f = Some x \<longrightarrow> in_hand C False x)"
      using r a by (auto intro: yields_ret yields_fail split: sum.split option.split)
  qed
qed

lemma yields_new: "yields C (newSubscriber a b f src ip ua) (in_hand C True)"
proof -
  obtain L R M H where C: "C = (L, R, M, H)" by (cases C)
  show ?thesis unfolding newSubscriber_def
    by (intro yields_bind [OF yields_True] yields_ret core_keeps) (simp add: in_hand_def draft_def shape_def actives_def C)
qed

lemma yields_lists: "yields C (Lists b) (\<lambda>r. ls_slug ` set r \<subseteq> fst C)"
  by (rule yieldsI) (auto simp: core_keeps Lists_def db_call_Inr_iff asks_run subs_core_def nl_slugs_def)

lemma pick_slugs: "pick all xs out = Inr r \<Longrightarrow> set r \<subseteq> set out \<union> set all"
proof (induction xs arbitrary: out)
  case (Cons x xs)
  then obtain l where l: "find (\<lambda>l. ls_slug l = x) all = Some l" by (auto split: option.splits)
  then have "l \<in> set all" by (auto simp: find_Some_iff)
  then show ?case using Cons l by (fastforce split: if_splits)
qed simp

lemma pickLists_slugs: "pickLists all xs = Inr r \<Longrightarrow> ls_slug ` set r \<subseteq> ls_slug ` set all"
  using pick_slugs [of all xs "[]" r] by (auto simp: pickLists_def split: if_splits)

lemma yields_pick: "ls_slug ` set all \<subseteq> L \<Longrightarrow> yields C (of_result (pickLists all xs)) (\<lambda>r. ls_slug ` set r \<subseteq> L)"
  by (rule yieldsI) (simp_all add: same.steps_basic result_iffs subset_trans [OF pickLists_slugs])

lemma yields_resolve: "yields C (resolveLists xs) (\<lambda>r. ls_slug ` set r \<subseteq> fst C)" "yields C (resolveExact xs) (\<lambda>r. set r \<subseteq> fst C)"
proof -
  show "yields C (resolveLists xs) (\<lambda>r. ls_slug ` set r \<subseteq> fst C)" unfolding resolveLists_def Let_def
    by (rule yields_bind [OF yields_lists]) (auto intro!: yields_ret yields_fail yields_pick core_keeps)
  show "yields C (resolveExact xs) (\<lambda>r. set r \<subseteq> fst C)" unfolding resolveExact_def
    by (rule yields_bind [OF yields_lists], rule yields_bind [OF yields_pick]) (auto intro!: yields_ret core_keeps)
qed

section \<open>Bodies of the transactions\<close>

lemma hoare_end: "steps same_subs m \<Longrightarrow> hoare nl_inv m (\<lambda>_. nl_inv)"
  using hoare_keeps [of m core_ok] by (simp add: nl_inv_core hoare_def)

lemma hoare_done: "core_ok C \<Longrightarrow> hoare (\<lambda>s. subs_core s = C) (ret x) (\<lambda>_. nl_inv)"
  by (rule hoare_ret) (simp add: nl_inv_core)

lemma hoare_stay: "steps same_subs m \<Longrightarrow> hoare (\<lambda>s. awaits p x (subs_core s)) m (\<lambda>_ s. awaits p x (subs_core s))"
  by (rule hoare_keeps)

lemma hoare_let: "(\<And>x. x = v \<Longrightarrow> hoare P (f x) Q) \<Longrightarrow> hoare P (let x = v in f x) Q"
  by simp

lemma hoare_now: "(\<And>now. hoare (\<lambda>s. subs_core s = C) (f now) Q) \<Longrightarrow> hoare (\<lambda>s. subs_core s = C) (andthen nl_Now f) Q"
  by (rule hoare_read [OF yields_True]) (simp_all add: core_keeps)

text \<open>The save of an edit: the subscriber, then its history, with writes elsewhere before and after.\<close>

lemma hoare_save:
  assumes "core_ok C" "draft C p False x" "\<forall>e \<in> set es. ce_sub e = sb_uuid x"
    "fold consent_after es p = (sb_status x, actives (sb_members x))" "\<And>y. steps same_subs (f y)"
  shows "hoare (\<lambda>s. subs_core s = C) (andthen (UpdateSubscriber x) (\<lambda>_. andthen (AppendConsent es) f)) (\<lambda>_. nl_inv)"
  by (rule hoare_then [OF hoare_update [OF assms(1,2)]], rule hoare_then [OF hoare_append [OF assms(3,4)]], rule hoare_end [OF assms(5)])

lemma unsubscribeAll_inv:
  assumes ok: "core_ok C" and x: "in_hand C False x"
  shows "hoare (\<lambda>s. subs_core s = C) (unsubscribeAll x src reason feedback ip actor) (\<lambda>_. nl_inv)"
proof -
  obtain L R M H where C: "C = (L, R, M, H)" by (cases C)
  show ?thesis unfolding unsubscribeAll_def Let_def
  proof (intro hoare_now hoare_if)
    fix now
    show "hoare (\<lambda>s. subs_core s = C) (ret ()) (\<lambda>_. nl_inv)" by (rule hoare_done [OF ok])
    let ?x = "leave_all now x"
    let ?y = "if sb_status ?x = NlActive \<or> sb_status ?x = NlPending then ?x\<lparr>sb_status := NlUnsubscribed, sb_unsubscribed := Some now\<rparr> else ?x"
    let ?z = "?y\<lparr>sb_updated := now\<rparr>"
    let ?e = "(nl_consent ?z ConsentUnsubscribed [] src ip now)\<lparr>ce_reason := reason, ce_feedback := feedback\<rparr>"
    have d: "draft C (sb_status x, actives (sb_members x)) False ?x" "sb_uuid ?x = sb_uuid x" "sb_status ?x = sb_status x"
      "actives (sb_members ?x) = {}"
      using draft_edits [OF x [unfolded in_hand_def C], of "{}" ?x] member_edits_leave_all unfolding C by blast+
    have z: "draft C (sb_status x, actives (sb_members x)) False ?z" by (rule draft_frame [OF d(1)]) simp_all
    have e: "\<forall>e \<in> set [?e]. ce_sub e = sb_uuid ?z" by simp
    have f: "fold consent_after [?e] (sb_status x, actives (sb_members x)) = (sb_status ?z, actives (sb_members ?z))" using d by simp
    show "hoare (\<lambda>s. subs_core s = C) (andthen (UpdateSubscriber ?z) (\<lambda>_. andthen (RevokeTokens (sb_uuid ?z) PurposeConfirm) (\<lambda>_.
        andthen (AppendConsent [?e]) (\<lambda>_. nl_record (subscriberEvent ?z ''unsubscribed'' actor now))))) (\<lambda>_. nl_inv)"
      by (rule hoare_then [OF hoare_update [OF ok z]], rule hoare_then [OF hoare_stay [OF core_tokens(3)]],
          rule hoare_then [OF hoare_append [OF e f]], rule hoare_end, intro core_keeps)
  qed
qed

lemma choose_format_facts:
  assumes "choose_format fmt src ip now x = (y, es)" "draft C p new x"
  shows "draft C p new y \<and> sb_uuid y = sb_uuid x \<and> sb_status y = sb_status x \<and> sb_members y = sb_members x \<and>
    (\<forall>e \<in> set es. ce_sub e = sb_uuid x) \<and> fold consent_after es q = q"
proof -
  have f: "draft C p new (x\<lparr>sb_format := g\<rparr>)" for g by (rule draft_frame [OF assms(2)]) simp_all
  show ?thesis using assms f by (auto simp: choose_format_def Let_def consent_after_id split: option.splits if_splits)
qed

lemma choose_lists_facts:
  assumes c: "choose_lists wanted src ip now x = (y, es, what)" and d: "draft C p new x"
    and w: "\<And>ls. wanted = Some ls \<Longrightarrow> set ls \<subseteq> fst C"
  shows "draft C p new y \<and> sb_uuid y = sb_uuid x \<and> (\<forall>e \<in> set es. ce_sub e = sb_uuid x) \<and>
    fold consent_after es (sb_status x, actives (sb_members x)) = (sb_status y, actives (sb_members y))"
proof (cases wanted)
  case None
  then show ?thesis using c d by (simp add: choose_lists_def)
next
  case (Some ls)
  obtain L R M H where C: "C = (L, R, M, H)" by (cases C)
  obtain z joined left where z: "setLists now ls x = (z, joined, left)" by (metis prod_cases3)
  have L: "set ls \<subseteq> L" using w [OF Some] C by simp
  have zd: "draft C p new z" "sb_uuid z = sb_uuid x" "sb_status z = sb_status x" "actives (sb_members z) = set ls"
    using draft_edits [OF d [unfolded C], of "set ls" z] member_edits_setLists [OF _ L z] unfolding C by blast+
  have sets: "actives (sb_members x) \<union> set joined - set left = set ls"
    using draft_shape [OF d [unfolded C]] member_edits_setLists [OF _ L z] by blast
  define ev where "ev = listEvents z ConsentListJoined joined src now @ listEvents z ConsentListLeft left src now"
  have f: "fold consent_after ev (st, actives (sb_members x)) = (st, set ls)" for st
    using sets unfolding ev_def by (simp add: fold_joined fold_left)
  have s: "\<forall>e \<in> set ev. ce_sub e = sb_uuid x" using listEvents_sub [of z] zd(2) unfolding ev_def by auto
  have fr: "draft C p new (z\<lparr>sb_status := a, sb_opted := b, sb_unsubscribed := u\<rparr>)" "draft C p new (z\<lparr>sb_status := a, sb_unsubscribed := u\<rparr>)" for a b u
    by (rule draft_frame [OF zd(1)]; simp)+
  have c': "(y, es, what) =
      (if ls \<noteq> [] \<and> sb_status z \<noteq> NlActive then (nl_activate now z, ev @ [nl_consent z ConsentResubscribed [] src ip now], ''resubscribed'')
       else if ls = [] \<and> sb_status z = NlActive
       then (z\<lparr>sb_status := NlUnsubscribed, sb_unsubscribed := Some now\<rparr>, ev @ [nl_consent z ConsentUnsubscribed [] src ip now], ''unsubscribed'')
       else (z, ev, ''preferences_updated''))"
    using c unfolding Some choose_lists_def option.case z prod.case Let_def ev_def by (rule sym)
  show ?thesis
  proof (cases "ls \<noteq> [] \<and> sb_status z \<noteq> NlActive")
    case True
    with c' have e: "y = nl_activate now z" "es = ev @ [nl_consent z ConsentResubscribed [] src ip now]" by simp_all
    show ?thesis unfolding e nl_activate_def fold_append o_apply f using fr(1) zd s by simp
  next
    case join: False
    show ?thesis
    proof (cases "ls = [] \<and> sb_status z = NlActive")
      case True
      with c' have e: "y = z\<lparr>sb_status := NlUnsubscribed, sb_unsubscribed := Some now\<rparr>"
        "es = ev @ [nl_consent z ConsentUnsubscribed [] src ip now]" by simp_all
      show ?thesis unfolding e fold_append o_apply f using fr(2) zd s True by simp
    next
      case False
      with join c' have e: "y = z" "es = ev" by auto
      show ?thesis unfolding e f using zd s by simp
    qed
  qed
qed

lemma yields_format: "yields C (case v of None \<Rightarrow> ret None | Some w \<Rightarrow> andthen (of_result (ParseFormat w)) (\<lambda>f. ret (Some f))) (\<lambda>_. True)"
  by (rule yields_True) (intro core_keeps)

lemma yields_wanted:
  "yields C (case v of None \<Rightarrow> ret None | Some w \<Rightarrow> andthen (resolveExact w) (\<lambda>f. ret (Some f))) (\<lambda>r. \<forall>ls. r = Some ls \<longrightarrow> set ls \<subseteq> fst C)"
  by (auto intro!: yields_ret yields_bind [OF yields_resolve(2)] core_keeps split: option.split)

lemma applyChoices_inv:
  assumes ok: "core_ok C" and x: "in_hand C False x"
  shows "hoare (\<lambda>s. subs_core s = C) (applyChoices x fmt ls src ip actor) (\<lambda>_. nl_inv)"
  unfolding applyChoices_def
proof (intro hoare_now, rule hoare_read [OF yields_format], rule hoare_read [OF yields_wanted])
  fix now f wanted
  assume w: "\<forall>ls. wanted = Some ls \<longrightarrow> set ls \<subseteq> fst C"
  obtain y es where y: "choose_format f src ip now x = (y, es)" by fastforce
  obtain z es' what where z: "choose_lists wanted src ip now y = (z, es', what)" by (metis prod_cases3)
  let ?p = "(sb_status x, actives (sb_members x))"
  have fy: "draft C ?p False y" "sb_uuid y = sb_uuid x" "sb_status y = sb_status x" "sb_members y = sb_members x"
    "\<forall>e \<in> set es. ce_sub e = sb_uuid x" "fold consent_after es ?p = ?p"
    using choose_format_facts [OF y x [unfolded in_hand_def]] by simp_all
  have fz: "draft C ?p False z" "sb_uuid z = sb_uuid y" "\<forall>e \<in> set es'. ce_sub e = sb_uuid y"
    "fold consent_after es' (sb_status y, actives (sb_members y)) = (sb_status z, actives (sb_members z))"
    using choose_lists_facts [OF z fy(1)] w by simp_all
  have d: "draft C ?p False (z\<lparr>sb_updated := now\<rparr>)" by (rule draft_frame [OF fz(1)]) simp_all
  have s: "\<forall>e \<in> set (es @ es'). ce_sub e = sb_uuid (z\<lparr>sb_updated := now\<rparr>)" using fy fz by auto
  have h: "fold consent_after (es @ es') ?p = (sb_status (z\<lparr>sb_updated := now\<rparr>), actives (sb_members (z\<lparr>sb_updated := now\<rparr>)))"
    using fy fz by simp
  show "hoare (\<lambda>s. subs_core s = C) (let (x, es) = choose_format f src ip now x; (y, es', what) = choose_lists wanted src ip now x;
      z = y\<lparr>sb_updated := now\<rparr> in if es @ es' = [] then ret () else andthen (UpdateSubscriber z) (\<lambda>_. andthen (AppendConsent (es @ es')) (\<lambda>_.
      nl_record (subscriberEvent z what actor now)))) (\<lambda>_. nl_inv)"
    unfolding y z Let_def prod.case by (rule hoare_if, rule hoare_done [OF ok], rule hoare_save [OF ok d s h], intro core_keeps)
qed

lemma saveChange_inv:
  assumes "core_ok C" "draft C p False x" "\<forall>e \<in> set es. ce_sub e = sb_uuid x"
    "fold consent_after es p = (sb_status x, actives (sb_members x))"
  shows "hoare (\<lambda>s. subs_core s = C) (saveChange E x what es now) (\<lambda>_. nl_inv)"
proof -
  have d: "draft C p False (x\<lparr>sb_updated := now\<rparr>)" by (rule draft_frame [OF assms(2)]) simp_all
  show ?thesis unfolding saveChange_def Let_def
  proof (rule hoare_save [OF assms(1) d])
    show "\<forall>e \<in> set es. ce_sub e = sb_uuid (x\<lparr>sb_updated := now\<rparr>)" using assms(3) by simp
    show "fold consent_after es p = (sb_status (x\<lparr>sb_updated := now\<rparr>), actives (sb_members (x\<lparr>sb_updated := now\<rparr>)))" using assms(4) by simp
  qed (intro core_keeps)
qed

lemma hoare_attempt_create:
  assumes ok: "core_ok C" and d: "draft C p True x"
  shows "hoare (\<lambda>s. subs_core s = C) (attempt (CreateSubscriber x)) (\<lambda>r s. case r of Inl _ \<Rightarrow> subs_core s = C | Inr _ \<Rightarrow> awaits p x (subs_core s))"
proof (rule hoareI)
  fix s r t
  assume s: "subs_core s = C" and run: "attempt (CreateSubscriber x) s = (Inr r, t)"
  then have c: "CreateSubscriber x s = (r, t)" by (auto simp: attempt_def split: prod.splits)
  show "case r of Inl _ \<Rightarrow> subs_core t = C | Inr _ \<Rightarrow> awaits p x (subs_core t)"
  proof (cases r)
    case (Inl e)
    then have "\<exists>n. t = s\<lparr>calls := n\<rparr>" using c unfolding CreateSubscriber_def by (auto simp: within_tx_Inl_iff)
    then show ?thesis using Inl s by (auto simp: subs_core_def nl_slugs_def)
  next
    case (Inr v)
    then show ?thesis using hoare_create [OF ok d] s c by (simp add: hoare_def)
  qed
qed

lemma hoare_put:
  assumes ok: "core_ok C" and d: "draft C p new x"
  shows "hoare (\<lambda>s. subs_core s = C) (if new then attempt (CreateSubscriber x) else andthen (UpdateSubscriber x) (\<lambda>_. ret (Inr ())))
    (\<lambda>r s. case r of Inl _ \<Rightarrow> subs_core s = C | Inr _ \<Rightarrow> awaits p x (subs_core s))"
proof (cases new)
  case True
  then show ?thesis using hoare_attempt_create [OF ok] d by simp
next
  case False
  then show ?thesis using hoare_update [OF ok] d by (simp, intro hoare_then [OF hoare_update [OF ok]] hoare_ret) simp_all
qed

lemma allowConfirm_frame:
  assumes "allowConfirm x now = (send, y)"
  shows "sb_uuid y = sb_uuid x \<and> sb_status y = sb_status x \<and> sb_members y = sb_members x \<and> sb_modified y = sb_modified x"
  using assms by (auto simp: allowConfirm_def Let_def split: option.splits if_splits)

lemma requestConfirmation_inv:
  assumes ok: "core_ok C" and x: "in_hand C new x" and ls: "ls_slug ` set ls \<subseteq> fst C"
  shows "hoare (\<lambda>s. subs_core s = C) (requestConfirmation E x ls cfg new ip src) (\<lambda>_. nl_inv)"
  unfolding requestConfirmation_def
proof (rule hoare_now)
  fix now
  obtain L R M H where C: "C = (L, R, M, H)" by (cases C)
  let ?p = "(sb_status x, actives (sb_members x))"
  define w where "w = set_pending now ls x"
  obtain send y where y: "(if pendingLists w = [] then (False, w) else allowConfirm w now) = (send, y)" by fastforce
  define z where "z = y\<lparr>sb_updated := now\<rparr>"
  have ed: "member_edits L ms0 x (actives (sb_members x)) w" if "shape L ms0 x" for ms0
    unfolding w_def using member_edits_set_pending [OF member_edits_refl [OF that]] ls C by simp
  have w: "draft C ?p new w" "sb_uuid w = sb_uuid x" "sb_status w = sb_status x" "actives (sb_members w) = actives (sb_members x)"
    using draft_edits [OF x [unfolded in_hand_def C] ed] unfolding C by blast+
  have fr: "sb_uuid z = sb_uuid w" "sb_status z = sb_status w" "sb_members z = sb_members w" "sb_modified z = sb_modified w"
    using y allowConfirm_frame [of w now send y] unfolding z_def by (auto split: if_splits)
  have d: "draft C ?p new z" by (rule draft_frame [OF w(1) fr(1,3,4)])
  have p: "?p = (sb_status z, actives (sb_members z))" using w fr by simp
  let ?e = "nl_consent z ConsentConfirmSent [] src ip now"
  have e: "\<forall>e \<in> set [?e]. ce_sub e = sb_uuid z" "fold consent_after [?e] ?p = (sb_status z, actives (sb_members z))"
    using p by (simp_all add: consent_after_id)
  have tail: "hoare (\<lambda>s. awaits ?p z (subs_core s)) (if \<not> send then ret None else
      andthen (RevokeTokens (sb_uuid z) PurposeConfirm) (\<lambda>_.
      andthen (issueToken E (sb_uuid z) PurposeConfirm None (now + cf_ConfirmTTL cfg)) (\<lambda>raw.
      andthen (AppendConsent [?e]) (\<lambda>_. andthen (listNames (pendingLists w)) (\<lambda>names.
      ret (Some (ConfirmMail (address z) (sb_name z) raw (now + cf_ConfirmTTL cfg) names))))))) (\<lambda>_. nl_inv)"
    by (rule hoare_if, rule hoare_ret, rule awaits_done [of z, folded p], assumption,
        rule hoare_then [OF hoare_stay [OF core_tokens(3)]], rule hoare_then [OF hoare_stay [OF core_tokens(5)]],
        rule hoare_then [OF hoare_append [OF e]], rule hoare_end, intro core_keeps)
  have cont: "hoare (\<lambda>s. case r of Inl _ \<Rightarrow> subs_core s = C | Inr _ \<Rightarrow> awaits ?p z (subs_core s))
      (case r of Inl f \<Rightarrow> if f = Err NlConflict then ret None else raise f | Inr _ \<Rightarrow> if \<not> send then ret None else
      andthen (RevokeTokens (sb_uuid z) PurposeConfirm) (\<lambda>_.
      andthen (issueToken E (sb_uuid z) PurposeConfirm None (now + cf_ConfirmTTL cfg)) (\<lambda>raw.
      andthen (AppendConsent [?e]) (\<lambda>_. andthen (listNames (pendingLists w)) (\<lambda>names.
      ret (Some (ConfirmMail (address z) (sb_name z) raw (now + cf_ConfirmTTL cfg) names))))))) (\<lambda>_. nl_inv)"
    for r :: "nl_error failure + unit"
    by (cases r; hypsubst; unfold sum.case; (rule tail)?) (rule hoare_if, rule hoare_done [OF ok], rule hoare_fail(2))
  show "hoare (\<lambda>s. subs_core s = C) (let x = set_pending now ls x; pending = pendingLists x;
      (send, y) = if pending = [] then (False, x) else allowConfirm x now; z = y\<lparr>sb_updated := now\<rparr> in
      andthen (if new then attempt (CreateSubscriber z) else andthen (UpdateSubscriber z) (\<lambda>_. ret (Inr ()))) (\<lambda>r.
      case r of Inl f \<Rightarrow> if f = Err NlConflict then ret None else raise f | Inr _ \<Rightarrow> if \<not> send then ret None else
      andthen (RevokeTokens (sb_uuid z) PurposeConfirm) (\<lambda>_.
      andthen (issueToken E (sb_uuid z) PurposeConfirm None (now + cf_ConfirmTTL cfg)) (\<lambda>raw.
      andthen (AppendConsent [nl_consent z ConsentConfirmSent [] src ip now]) (\<lambda>_. andthen (listNames pending) (\<lambda>names.
      ret (Some (ConfirmMail (address z) (sb_name z) raw (now + cf_ConfirmTTL cfg) names)))))))) (\<lambda>_. nl_inv)"
    unfolding Let_def w_def [symmetric] y prod.case z_def [symmetric] by (rule hoare_then [OF hoare_put [OF ok d] cont])
qed

lemma joinNow_inv:
  assumes ok: "core_ok C" and x: "in_hand C new x" and ls: "ls_slug ` set ls \<subseteq> fst C"
  shows "hoare (\<lambda>s. subs_core s = C) (joinNow x ls new ip) (\<lambda>_. nl_inv)"
  unfolding joinNow_def
proof (rule hoare_now)
  fix now
  obtain L R M H where C: "C = (L, R, M, H)" by (cases C)
  let ?p = "(sb_status x, actives (sb_members x))"
  obtain w joined where j: "join_wanted now (map ls_slug ls) x = (w, joined)" by fastforce
  have sub: "set (map ls_slug ls) \<subseteq> L" using ls C by simp
  let ?A = "actives (sb_members x) \<union> set (map ls_slug ls)"
  have w: "draft C ?p new w" "sb_uuid w = sb_uuid x" "sb_status w = sb_status x" "actives (sb_members w) = ?A"
    using draft_edits [OF x [unfolded in_hand_def C], of ?A w] member_edits_join_wanted [OF _ sub j] unfolding C by blast+
  have A: "actives (sb_members x) \<union> set joined = ?A"
    using draft_shape [OF x [unfolded in_hand_def C]] member_edits_join_wanted [OF _ sub j] by blast
  define kind where "kind = (if new \<or> sb_status w = NlPending then ConsentSubscribed else ConsentResubscribed)"
  define joins where "joins = listEvents w ConsentListJoined joined SourceAccount now"
  obtain y es what where y: "(if sb_status w \<noteq> NlActive
      then (nl_activate now w, joins @ [nl_consent w kind [] SourceAccount ip now], ''confirmed'') else (w, joins, ''lists_changed'')) = (y, es, what)"
    by (metis prod_cases3)
  have f: "fold consent_after joins ?p = (sb_status x, ?A)" unfolding joins_def fold_joined A ..
  have s: "\<forall>e \<in> set joins. ce_sub e = sb_uuid w" unfolding joins_def by (rule listEvents_sub)
  have k: "consent_after (nl_consent w kind [] SourceAccount ip now) (st, B) = (NlActive, B)" for st B by (simp add: kind_def)
  have fy: "sb_uuid y = sb_uuid w" "sb_members y = sb_members w" "sb_modified y = sb_modified w" "\<forall>e \<in> set es. ce_sub e = sb_uuid y"
    "fold consent_after es ?p = (sb_status y, actives (sb_members y))"
    using y s w f k by (auto simp: nl_activate_def split: if_splits)
  have d: "draft C ?p new y" by (rule draft_frame [OF w(1) fy(1-3)])
  have d': "draft C ?p new (y\<lparr>sb_updated := now\<rparr>)" by (rule draft_frame [OF d]) simp_all
  have put: "hoare (\<lambda>s. subs_core s = C) (if new then CreateSubscriber (y\<lparr>sb_updated := now\<rparr>) else UpdateSubscriber y) (\<lambda>_ s. awaits ?p y (subs_core s))"
    using hoare_create [OF ok, of ?p "y\<lparr>sb_updated := now\<rparr>"] hoare_update [OF ok, of ?p y] d d' by (cases new) (simp_all add: awaits_def)
  have nil: "nl_inv s" if "es = []" "awaits ?p y (subs_core s)" for s using that fy(5) awaits_done [of y s] by simp
  have rest: "hoare (\<lambda>s. awaits ?p y (subs_core s)) (if es = [] then ret () else andthen (AppendConsent es) (\<lambda>_.
      nl_record (subscriberEvent y what None now))) (\<lambda>_. nl_inv)"
    by (rule hoare_if, rule hoare_ret, erule (1) nil, rule hoare_then [OF hoare_append [OF fy(4,5)]], rule hoare_end, intro core_keeps)
  show "hoare (\<lambda>s. subs_core s = C) (let (x, joined) = join_wanted now (map ls_slug ls) x; joins = listEvents x ConsentListJoined joined SourceAccount now;
      kind = if new \<or> sb_status x = NlPending then ConsentSubscribed else ConsentResubscribed;
      (y, events, what) = if sb_status x \<noteq> NlActive
         then (nl_activate now x, joins @ [nl_consent x kind [] SourceAccount ip now], ''confirmed'') else (x, joins, ''lists_changed'') in
      andthen (if new then CreateSubscriber (y\<lparr>sb_updated := now\<rparr>) else UpdateSubscriber y) (\<lambda>_.
      if events = [] then ret () else andthen (AppendConsent events) (\<lambda>_. nl_record (subscriberEvent y what None now)))) (\<lambda>_. nl_inv)"
    unfolding j Let_def prod.case kind_def [symmetric] joins_def [symmetric] y by (rule hoare_then [OF put rest])
qed

lemma pendingLists_sub: "draft C p new x \<Longrightarrow> set (pendingLists x) \<subseteq> fst C"
  by (cases C) (force simp: pendingLists_def lists_in_def draft_def shape_def split: if_splits)

lemma confirm_facts:
  assumes x: "in_hand C False x" and j: "joined = pendingLists x" and w: "w = join_lists now joined x"
    and y: "y = (if sb_status w \<noteq> NlActive then nl_activate now w else w)"
    and es: "es = nl_consent w ConsentConfirmed [] SourceToken ip now # listEvents w ConsentListJoined joined SourceToken now"
  shows "draft C (sb_status x, actives (sb_members x)) False y \<and> (\<forall>e \<in> set es. ce_sub e = sb_uuid y) \<and>
    fold consent_after es (sb_status x, actives (sb_members x)) = (sb_status y, actives (sb_members y))"
proof -
  obtain L R M H where C: "C = (L, R, M, H)" by (cases C)
  let ?p = "(sb_status x, actives (sb_members x))" and ?A = "actives (sb_members x) \<union> set joined"
  have L: "set joined \<subseteq> L" using pendingLists_sub x unfolding j in_hand_def C by fastforce
  have w': "draft C ?p False w" "sb_uuid w = sb_uuid x" "sb_status w = sb_status x" "actives (sb_members w) = ?A"
    using draft_edits [OF x [unfolded in_hand_def C], of ?A w] member_edits_join_lists [OF member_edits_refl L] unfolding w C by blast+
  have fr: "sb_uuid y = sb_uuid w" "sb_members y = sb_members w" "sb_modified y = sb_modified w" "sb_status y = NlActive"
    unfolding y by (simp_all add: nl_activate_def)
  have "draft C ?p False y" by (rule draft_frame [OF w'(1) fr(1-3)])
  moreover have "\<forall>e \<in> set es. ce_sub e = sb_uuid y" unfolding es fr(1) using listEvents_sub [of w] by simp
  moreover have "fold consent_after es ?p = (sb_status y, actives (sb_members y))"
    unfolding es fr(2,4) w'(4) by (simp add: fold_joined)
  ultimately show ?thesis by blast
qed

text \<open>Erasing.\<close>

definition erased_row :: "uuid \<Rightarrow> instant \<Rightarrow> nl_row \<Rightarrow> nl_row" where
  "erased_row u at r = (if sb_uuid r = u
       then r\<lparr>sb_email := None, sb_name := [], sb_user := None, sb_ip := [], sb_agent := [], sb_status := NlErased,
              sb_erased := Some at, sb_updated := at\<rparr> else r)"

definition left_member :: "uuid \<Rightarrow> instant \<Rightarrow> nl_member \<Rightarrow> nl_member" where
  "left_member u at m = (if mb_sub m = u \<and> mb_state m \<noteq> MemberLeft
       then m\<lparr>mb_state := MemberLeft, mb_left := (case mb_left m of None \<Rightarrow> Some at | Some t \<Rightarrow> Some t)\<rparr> else m)"

definition scrubbed :: "uuid \<Rightarrow> consent_event \<Rightarrow> consent_event" where
  "scrubbed u e = (if ce_sub e = u then e\<lparr>ce_feedback := [], ce_ip := []\<rparr> else e)"

lemma EraseSubscriber_run:
  assumes "EraseSubscriber u at s = (Inr v, t)"
  shows "subs_core t = (nl_slugs s, map (erased_row u at) (nl_subs s), map (left_member u at) (nl_members s), map (scrubbed u) (nl_consents s))"
  using assms unfolding EraseSubscriber_def erased_row_def left_member_def scrubbed_def
  by (auto simp: andthen_Inr_iff db_call_Inr_iff result_iffs subs_core_def nl_slugs_def)

lemma erase_ok:
  assumes ok: "nl_ok L R M H" and r: "r \<in> set R" and e: "ce_sub e = sb_uuid r" "ce_kind e = ConsentErased"
  shows "nl_ok L (map (erased_row (sb_uuid r) at) R) (map (left_member (sb_uuid r) at) M) (map (scrubbed (sb_uuid r)) H @ [e])"
proof (rule nl_ok_update [where st = NlErased, OF _ r])
  show "nl_ok L R M (map (scrubbed (sb_uuid r)) H)" by (rule nl_ok_scrub [OF ok]) (simp_all add: scrubbed_def)
  have row: "sb_uuid (erased_row u at q) = sb_uuid q" for u q by (simp add: erased_row_def)
  show "map sb_uuid (map (erased_row (sb_uuid r) at) R) = map sb_uuid R" by (simp add: row)
  show "q \<in> set R \<and> sb_uuid q \<noteq> sb_uuid r \<or> sb_uuid q = sb_uuid r \<and> sb_status q = NlErased \<and> (NlErased = NlErased) = (sb_email q = None)"
    if "q \<in> set (map (erased_row (sb_uuid r) at) R)" for q
    using that by (auto simp: erased_row_def)
  have key: "mb_key (left_member u at m) = mb_key m" "mb_sub (left_member u at m) = mb_sub m" "mb_list (left_member u at m) = mb_list m" for u m
    by (simp_all add: left_member_def mb_key_def)
  show "distinct (map mb_key (map (left_member (sb_uuid r) at) M))"
    "\<forall>m \<in> set (map (left_member (sb_uuid r) at) M). mb_sub m \<in> sb_uuid ` set R \<and> mb_list m \<in> L"
    using ok by (simp_all add: nl_ok_def o_def key)
  have st: "mb_state (left_member u at m) = (if mb_sub m = u then MemberLeft else mb_state m)" for u m by (simp add: left_member_def)
  show "receives (map (left_member (sb_uuid r) at) M) v = receives M v" if "v \<noteq> sb_uuid r" for v
  proof -
    have "(mb_sub m = v \<and> mb_state (left_member (sb_uuid r) at m) = MemberActive) = (mb_sub m = v \<and> mb_state m = MemberActive)" for m
      using that st by auto
    then have "filter (\<lambda>m. mb_sub m = v \<and> mb_state m = MemberActive) (map (left_member (sb_uuid r) at) M) =
      map (left_member (sb_uuid r) at) (filter (\<lambda>m. mb_sub m = v \<and> mb_state m = MemberActive) M)"
      by (simp add: filter_map o_def key)
    then show ?thesis unfolding receives_def by (simp add: image_image key)
  qed
  have none: "receives (map (left_member (sb_uuid r) at) M) (sb_uuid r) = {}" by (auto simp: receives_def key st)
  show "\<forall>e \<in> set [e]. ce_sub e = sb_uuid r" using e by simp
  show "fold consent_after [e] (sb_status r, receives M (sb_uuid r)) = (NlErased, receives (map (left_member (sb_uuid r) at) M) (sb_uuid r))"
    using e by (simp add: none)
qed

lemma erase_inv:
  assumes ok: "core_ok C" and x: "in_hand C False x"
  shows "hoare (\<lambda>s. subs_core s = C) (nl_erase x src actor at) (\<lambda>_. nl_inv)"
proof -
  obtain L R M H where C: "C = (L, R, M, H)" by (cases C)
  obtain r where r: "r \<in> set R" "sb_uuid x = sb_uuid r" using x unfolding in_hand_def draft_def C by auto
  let ?e = "nl_consent x ConsentErased [] src [] at"
  let ?C = "(L, map (erased_row (sb_uuid r) at) R, map (left_member (sb_uuid r) at) M, map (scrubbed (sb_uuid r)) H)"
  have one: "hoare (\<lambda>s. subs_core s = C) (EraseSubscriber (sb_uuid x) at) (\<lambda>_ s. subs_core s = ?C)"
    by (rule hoareI) (drule EraseSubscriber_run, simp add: r(2) subs_core_def C)
  have "nl_ok L R M H" using ok C by simp
  then have "core_ok (core_append [?e] ?C)" using erase_ok [OF _ r(1), of L M H ?e at] r(2) by simp
  then have two: "hoare (\<lambda>s. subs_core s = ?C) (AppendConsent [?e]) (\<lambda>_. nl_inv)"
    unfolding hoare_def nl_inv_core using AppendConsent_run [of "[?e]"] by metis
  show ?thesis unfolding nl_erase_def
    by (rule hoare_then [OF one], rule hoare_then [OF two], rule hoare_end, intro core_keeps)
qed

section \<open>Requests\<close>

lemma settled_ok: "core_ok C \<Longrightarrow> steps same_subs m \<Longrightarrow> (\<And>x. settled C (f x)) \<Longrightarrow> settled C (andthen m f)"
  using settled_read [OF _ yields_True] by blast

lemma hoare_ok:
  fixes m :: "'a nl_comp"
  shows "steps same_subs m \<Longrightarrow> (\<And>x. hoare (\<lambda>s. subs_core s = C) (f x) Q) \<Longrightarrow> hoare (\<lambda>s. subs_core s = C) (andthen m f) Q"
  using hoare_read [OF yields_True] by blast

lemma yields_found:
  assumes "\<forall>x. found = Some x \<longrightarrow> in_hand C False x"
  shows "yields C (case found of None \<Rightarrow> newSubscriber a b f src ip ua | Some x \<Rightarrow> ret x) (in_hand C (found = None))"
  by (cases found) (use assms in \<open>auto intro: yields_ret yields_new\<close>)

lemma in_hand_frame:
  "in_hand C new x \<Longrightarrow> sb_uuid y = sb_uuid x \<Longrightarrow> sb_members y = sb_members x \<Longrightarrow> sb_modified y = sb_modified x \<Longrightarrow>
   sb_status y = sb_status x \<Longrightarrow> in_hand C new y"
  unfolding in_hand_def using draft_frame by metis

lemma settled_Subscribe:
  assumes ok: "core_ok C"
  shows "settled C (Subscribe E i)"
proof -
  have tx: "settled C (within_tx (
        andthen (byEmail email) (\<lambda>found.
        andthen (case found of
                   None \<Rightarrow> newSubscriber email name fmt SourcePublic (nl_hashIdentity E (su_IP i)) (su_UserAgent i)
                 | Some x \<Rightarrow> ret x) (\<lambda>sub.
        if Suppressed sub then ret None
        else requestConfirmation E sub ls cfg (found = None) (nl_hashIdentity E (su_IP i)) SourcePublic))))"
    if "ls_slug ` set ls \<subseteq> fst C" for email name fmt ls cfg
    by (rule settled_tx [OF ok], rule hoare_read [OF yields_subscriber(3) [OF ok]], rule hoare_read [OF yields_found], assumption,
        rule hoare_if, rule hoare_done [OF ok], rule requestConfirmation_inv [OF ok _ that])
  show ?thesis unfolding Subscribe_def
    by (rule settled_if, intro settled_keeps [OF ok] core_keeps, rule settled_ok [OF ok], intro core_keeps, rule settled_ok [OF ok], intro core_keeps,
        rule settled_ok [OF ok], intro core_keeps, rule settled_ok [OF ok], intro core_keeps, rule settled_read [OF ok yields_resolve(1)],
        rule settled_ok [OF ok], intro core_keeps, rule settled_then [OF tx], assumption, intro core_keeps)
qed

lemma settled_ResendConfirm:
  assumes ok: "core_ok C"
  shows "settled C (ResendConfirm E raw ip)"
proof -
  have body: "hoare (\<lambda>s. subs_core s = C) (case found of
         None \<Rightarrow> ret None
       | Some sub \<Rightarrow>
           if Suppressed sub \<or> pendingLists sub = [] then ret None
           else requestConfirmation E sub [] cfg False (nl_hashIdentity E ip) SourcePublic) (\<lambda>_. nl_inv)"
    if "\<forall>x. found = Some x \<longrightarrow> in_hand C False x" for found cfg
    by (cases found) (use that hoare_done [OF ok] in \<open>auto intro!: requestConfirmation_inv [OF ok]\<close>)
  show ?thesis unfolding ResendConfirm_def
    by (rule settled_ok [OF ok], intro core_keeps, rule settled_ok [OF ok], intro core_keeps, rule settled_then [OF settled_tx [OF ok]],
        rule hoare_read [OF yields_subscriber(3) [OF ok]], erule body, intro core_keeps)
qed

lemma settled_Confirm:
  assumes ok: "core_ok C"
  shows "settled C (Confirm E raw ip)"
proof -
  have body: "hoare (\<lambda>s. subs_core s = C) (let joined = pendingLists sub;
           x = join_lists now joined sub;
           events = nl_consent x ConsentConfirmed [] SourceToken (nl_hashIdentity E ip) now # listEvents x ConsentListJoined joined SourceToken now;
           y = (if sb_status x \<noteq> NlActive then nl_activate now x else x) in
       andthen (saveChange E y ''confirmed'' events now) (\<lambda>welcome.
       ret (y\<lparr>sb_updated := now\<rparr>, welcome))) (\<lambda>_. nl_inv)" if x: "in_hand C False sub" for sub now
    unfolding Let_def
    using confirm_facts [OF x refl refl refl refl] by (intro hoare_then [OF saveChange_inv [OF ok]] hoare_ret) blast+
  show ?thesis unfolding Confirm_def
    by (rule settled_ok [OF ok], intro core_keeps, rule settled_if, intro settled_keeps [OF ok] core_keeps,
        rule settled_then [OF settled_tx [OF ok]], rule hoare_now, rule hoare_ok, intro core_keeps, rule hoare_if, rule hoare_fail(1),
        rule hoare_read [OF yields_subscriber(1) [OF ok]], rule hoare_if, rule hoare_fail(1), erule body, intro core_keeps)
qed

lemma settled_Unsubscribe:
  assumes ok: "core_ok C"
  shows "settled C (Unsubscribe E raw reason feedback ip)"
  unfolding Unsubscribe_def
  by (rule settled_ok [OF ok], intro core_keeps, rule settled_ok [OF ok], intro core_keeps, rule settled_tx [OF ok],
      rule hoare_read [OF yields_subscriber(1) [OF ok]], rule hoare_if, rule hoare_fail(1), erule unsubscribeAll_inv [OF ok])

lemma settled_UpdatePreferences:
  assumes ok: "core_ok C"
  shows "settled C (UpdatePreferences E raw i)"
  unfolding UpdatePreferences_def
  by (rule settled_ok [OF ok], intro core_keeps, rule settled_then [OF settled_tx [OF ok]],
      rule hoare_read [OF yields_subscriber(1) [OF ok]], rule hoare_if, rule hoare_fail(1), rule hoare_if,
      erule unsubscribeAll_inv [OF ok], erule applyChoices_inv [OF ok], intro core_keeps)

lemma settled_MySubscribe:
  assumes ok: "core_ok C"
  shows "settled C (MySubscribe E i)"
proof (cases "ne_Accounts E")
  case None
  then show ?thesis unfolding MySubscribe_def by (simp, intro settled_keeps [OF ok] core_keeps)
next
  case (Some accounts)
  have body: "hoare (\<lambda>s. subs_core s = C) (let x = sub\<lparr>sb_user := Some (my_UserID i), sb_format := fmt\<rparr> in
       if na_Verified account \<and> \<not> cf_double cfg
       then andthen (joinNow x ls (found = None) (nl_hashIdentity E (my_IP i))) (\<lambda>_. ret (sb_uuid x, None))
       else andthen (requestConfirmation E x ls cfg (found = None) (nl_hashIdentity E (my_IP i)) SourceAccount) (\<lambda>confirm.
            ret (sb_uuid x, confirm))) (\<lambda>_. nl_inv)"
    if x: "in_hand C (found = None) sub" and ls: "ls_slug ` set ls \<subseteq> fst C" for sub fmt account cfg ls and found :: "subscriber option"
  proof -
    have h: "in_hand C (found = None) (sub\<lparr>sb_user := Some (my_UserID i), sb_format := fmt\<rparr>)" by (rule in_hand_frame [OF x]) simp_all
    show ?thesis unfolding Let_def
      by (rule hoare_if, rule hoare_then [OF joinNow_inv [OF ok h ls]], rule hoare_ret, assumption,
          rule hoare_then [OF requestConfirmation_inv [OF ok h ls]], rule hoare_ret, assumption)
  qed
  show ?thesis unfolding MySubscribe_def Some option.case
    by (rule settled_ok [OF ok], intro core_keeps, rule settled_ok [OF ok], intro core_keeps, rule settled_read [OF ok yields_resolve(1)],
        rule settled_ok [OF ok], intro core_keeps, rule settled_then [OF settled_tx [OF ok]], rule hoare_read [OF yields_account [OF ok]],
        rule hoare_read [OF yields_found], assumption, rule hoare_ok, intro core_keeps, erule (1) body, intro core_keeps)
qed

lemma settled_MyUnsubscribe:
  assumes ok: "core_ok C"
  shows "settled C (MyUnsubscribe E u ls reason feedback ip)"
proof -
  have body: "hoare (\<lambda>s. subs_core s = C) (case found of
         None \<Rightarrow> throw NlNotFound
       | Some sub \<Rightarrow>
           if ls = []
           then andthen (unsubscribeAll sub SourceAccount reason feedback (nl_hashIdentity E ip) None) (\<lambda>_. ret (sb_uuid sub))
           else
           andthen (resolveExact ls) (\<lambda>leaving.
           andthen (applyChoices sub None (Some (filter (\<lambda>l. l \<notin> set leaving) (ActiveLists sub))) SourceAccount (nl_hashIdentity E ip) None) (\<lambda>_.
           ret (sb_uuid sub)))) (\<lambda>_. nl_inv)"
    if f: "\<forall>x. found = Some x \<longrightarrow> in_hand C False x" for found
  proof (cases found)
    case None
    then show ?thesis by simp
  next
    case (Some sub)
    then have x: "in_hand C False sub" using f by simp
    show ?thesis unfolding Some option.case
      by (rule hoare_if, rule hoare_then [OF unsubscribeAll_inv [OF ok x]], rule hoare_ret, assumption, rule hoare_ok, intro core_keeps,
          rule hoare_then [OF applyChoices_inv [OF ok x]], rule hoare_ret, assumption)
  qed
  show ?thesis unfolding MyUnsubscribe_def
    by (rule settled_ok [OF ok], intro core_keeps, rule settled_then [OF settled_tx [OF ok]], rule hoare_read [OF yields_account [OF ok]],
        erule body, intro core_keeps)
qed

lemma settled_DeleteSubscriber:
  assumes ok: "core_ok C"
  shows "settled C (DeleteSubscriber actor u mode)"
  unfolding DeleteSubscriber_def Let_def
  by (rule settled_if, intro settled_keeps [OF ok] core_keeps, rule settled_then [OF settled_tx [OF ok]],
      rule hoare_read [OF yields_subscriber(1) [OF ok]], rule hoare_if, rule hoare_done [OF ok], rule hoare_if,
      erule unsubscribeAll_inv [OF ok], rule hoare_now, erule erase_inv [OF ok], intro core_keeps)

lemma settled_EraseUser:
  assumes ok: "core_ok C"
  shows "settled C (EraseUser u at)"
proof -
  have body: "hoare (\<lambda>s. subs_core s = C) (case r of Inl f \<Rightarrow> if f = Err NlNotFound then ret () else raise f
     | Inr sub \<Rightarrow> if sb_status sub = NlErased then ret () else nl_erase sub SourcePrivacy None at) (\<lambda>_. nl_inv)"
    if "\<forall>x. r = Inr x \<longrightarrow> in_hand C False x" for r :: "nl_error failure + subscriber"
    by (cases r) (use that hoare_done [OF ok] in \<open>auto intro!: erase_inv [OF ok]\<close>)
  show ?thesis unfolding EraseUser_def
    by (rule settled_tx [OF ok], rule hoare_read [OF yields_attempt [OF yields_subscriber(2) [OF ok]]], erule body)
qed

lemma settled_HandleFeedback:
  assumes ok: "core_ok C"
  shows "settled C (HandleFeedback E fb)"
proof (cases "fb_kind fb")
  case None
  then show ?thesis unfolding HandleFeedback_def by (simp, intro settled_keeps [OF ok] core_keeps)
next
  case (Some kind)
  have sup: "hoare (\<lambda>s. subs_core s = C) (nl_suppress E y k what now) (\<lambda>_. nl_inv)"
    if x: "in_hand C False x" and y: "sb_uuid y = sb_uuid x" "sb_members y = sb_members x" "sb_modified y = sb_modified x"
      and k: "k = ConsentBounced \<and> sb_status y = NlBounced \<or> k = ConsentComplained \<and> sb_status y = NlComplained" for x y k what now
  proof -
    have d: "draft C (sb_status x, actives (sb_members x)) False y" using draft_frame x y unfolding in_hand_def by blast
    let ?es = "[nl_consent y k [] SourceProvider [] now]"
    have e: "\<forall>e \<in> set ?es. ce_sub e = sb_uuid y" by simp
    have f: "fold consent_after ?es (sb_status x, actives (sb_members x)) = (sb_status y, actives (sb_members y))" using k y(2) by auto
    show ?thesis unfolding nl_suppress_def
      by (rule hoare_ok, intro core_keeps, rule hoare_then [OF saveChange_inv [OF ok d e f]], rule hoare_ret, assumption)
  qed
  have soft: "hoare (\<lambda>s. subs_core s = C) (AppendConsent [nl_consent x ConsentSoftBounce [] SourceProvider [] now]) (\<lambda>_. nl_inv)"
    if x: "in_hand C False x" for x now
  proof -
    obtain L R M H where C: "C = (L, R, M, H)" by (cases C)
    obtain r where r: "r \<in> set R" "sb_uuid x = sb_uuid r" using x unfolding in_hand_def draft_def C by auto
    have o: "nl_ok L R M H" using ok C by simp
    then have one: "(q \<in> set R \<and> sb_uuid q \<noteq> sb_uuid r \<or> sb_uuid q = sb_uuid r \<and> sb_status q = sb_status r \<and>
        (sb_status r = NlErased) = (sb_email q = None))" if "q \<in> set R" for q
      using that r(1) by (cases "q = r") (auto simp: nl_ok_def distinct_map inj_on_def)
    have "nl_ok L R M (H @ [nl_consent x ConsentSoftBounce [] SourceProvider [] now])"
      using o r by (intro nl_ok_update [OF o r(1) refl one]) (simp_all add: nl_ok_def consent_after_id)
    then show ?thesis unfolding hoare_def nl_inv_core using AppendConsent_run C core_append.simps core_ok.simps by metis
  qed
  have body: "hoare (\<lambda>s. subs_core s = C) (case kind of
               BounceSoft \<Rightarrow> AppendConsent [nl_consent sub ConsentSoftBounce [] SourceProvider [] now]
             | BounceHard \<Rightarrow> nl_suppress E (sub\<lparr>sb_status := NlBounced, sb_bounced := Some now\<rparr>) ConsentBounced ''bounced'' now
             | Complaint \<Rightarrow> nl_suppress E (sub\<lparr>sb_status := NlComplained, sb_complained := Some now\<rparr>) ConsentComplained ''complained'' now)
      (\<lambda>_. nl_inv)" if x: "in_hand C False sub" for sub now
  proof (cases kind)
    case BounceSoft
    show ?thesis unfolding BounceSoft bounce_kind.case by (rule soft [OF x])
  next
    case BounceHard
    show ?thesis unfolding BounceHard bounce_kind.case by (rule sup [OF x]) simp_all
  next
    case Complaint
    show ?thesis unfolding Complaint bounce_kind.case by (rule sup [OF x]) simp_all
  qed
  have found: "hoare (\<lambda>s. subs_core s = C) (case found of None \<Rightarrow> ret () | Some sub \<Rightarrow> andthen nl_Now (\<lambda>now. case kind of
               BounceSoft \<Rightarrow> AppendConsent [nl_consent sub ConsentSoftBounce [] SourceProvider [] now]
             | BounceHard \<Rightarrow> nl_suppress E (sub\<lparr>sb_status := NlBounced, sb_bounced := Some now\<rparr>) ConsentBounced ''bounced'' now
             | Complaint \<Rightarrow> nl_suppress E (sub\<lparr>sb_status := NlComplained, sb_complained := Some now\<rparr>) ConsentComplained ''complained'' now))
      (\<lambda>_. nl_inv)" if "\<forall>x. found = Some x \<longrightarrow> in_hand C False x" for found
  proof (cases found)
    case None
    show ?thesis unfolding None option.case by (rule hoare_done [OF ok])
  next
    case (Some sub)
    then show ?thesis using that body by (simp add: hoare_now)
  qed
  show ?thesis unfolding HandleFeedback_def Some option.case
    by (rule settled_ok [OF ok], intro core_keeps, rule settled_tx [OF ok], rule hoare_read [OF yields_subscriber(3) [OF ok]], erule found)
qed

section \<open>The lists and the growth of the history\<close>

definition lists_grow :: "nl_store \<Rightarrow> nl_store \<Rightarrow> bool" where
  "lists_grow s t \<longleftrightarrow> nl_slugs s \<subseteq> nl_slugs t \<and> nl_subs t = nl_subs s \<and> nl_members t = nl_members s \<and> nl_consents t = nl_consents s"

interpretation grow: stepwise lists_grow
  by unfold_locales (auto simp: lists_grow_def nl_slugs_def)

lemma lists_grow_inv: "lists_grow s t \<Longrightarrow> nl_inv s \<Longrightarrow> nl_inv t"
  using nl_ok_mono by (simp add: lists_grow_def nl_inv_def)

lemma map_slugs: "(\<And>x. ls_slug (g x) = ls_slug x) \<Longrightarrow> ls_slug ` set (map g ls) = ls_slug ` set ls"
  by (simp add: image_image)

lemma put_list_slugs: "ls_slug ` set ls \<subseteq> ls_slug ` set (put_list i l ls)"
  unfolding put_list_def Let_def
  by (cases "li_slug l \<in> ls_slug ` set ls") (simp only: if_True, subst map_slugs, auto)

lemma grow_SaveLists: "steps lists_grow (SaveLists ls at)"
proof -
  have p: "steps lists_grow (db_call (change (\<lambda>s. s\<lparr>nl_lists := put_list i l (nl_lists s)\<rparr>)))" for i l
    by (intro grow.steps_db_call grow.steps_change) (use put_list_slugs in \<open>auto simp: lists_grow_def nl_slugs_def\<close>)
  have "steps lists_grow (save_lists i xs)" for i xs by (induction xs arbitrary: i) (auto intro!: grow.steps_intros p)
  moreover have "lists_grow s (s\<lparr>nl_lists := map (\<lambda>x. if b x then x\<lparr>ls_archived := Some at, ls_default := False\<rparr> else x) (nl_lists s)\<rparr>)" for s b
    using map_slugs [of "\<lambda>x. if b x then x\<lparr>ls_archived := Some at, ls_default := False\<rparr> else x" "nl_lists s"]
    by (simp add: lists_grow_def nl_slugs_def)
  ultimately show ?thesis unfolding SaveLists_def by (intro grow.steps_intros grow.steps_change)
qed

lemma same_core_grow: "steps same_subs m \<Longrightarrow> steps lists_grow m"
  by (simp add: steps_def same_subs_def lists_grow_def subs_core_def)

text \<open>An event of the history, without what an erasure takes out of it.\<close>

definition event_of :: "consent_event \<Rightarrow> uuid \<times> consent_kind \<times> string \<times> nl_source \<times> instant" where
  "event_of e = (ce_sub e, ce_kind e, ce_list e, ce_source e, ce_at e)"

definition trail_grows :: "nl_store \<Rightarrow> nl_store \<Rightarrow> bool" where
  "trail_grows s t \<longleftrightarrow> (\<exists>es. map event_of (nl_consents t) = map event_of (nl_consents s) @ es)"

interpretation trail: stepwise trail_grows
  by unfold_locales (auto simp: trail_grows_def)

named_theorems trail_keeps \<open>computations that only extend the history\<close>

lemmas [trail_keeps] = trail.steps_intros

lemma trail_same: "nl_consents t = nl_consents s \<Longrightarrow> trail_grows s t"
  by (simp add: trail_grows_def)

lemma same_core_trail: "steps same_subs m \<Longrightarrow> steps trail_grows m"
  by (simp add: steps_def same_subs_def subs_core_def trail_same)

lemmas [trail_keeps] =
  reads_queries [THEN same.steps_reads, THEN same_core_trail] reads_helpers [THEN same.steps_reads, THEN same_core_trail]
  core_tokens [THEN same_core_trail] core_ports [THEN same_core_trail] core_issues [THEN same_core_trail]
  core_deliveries [THEN same_core_trail] core_dispatch [THEN same_core_trail]

lemma trail_writes [trail_keeps]:
  "steps trail_grows (UpdateSubscriber x)" "steps trail_grows (CreateSubscriber x)" "steps trail_grows (EraseSubscriber u at)"
  "steps trail_grows (AppendConsent es)" "steps trail_grows (SaveLists ls at)"
proof -
  have m: "steps trail_grows (saveMemberships u ms)" for u ms
  proof (induction ms)
    case (Cons m ms)
    have "steps trail_grows (change (put_member u m) :: unit nl_comp)"
      by (rule trail.steps_change) (simp add: put_member_def trail_same trail.step_refl Let_def)
    then show ?case using Cons by (simp, intro trail.steps_intros)
  qed (simp add: trail.steps_basic)
  show "steps trail_grows (UpdateSubscriber x)" "steps trail_grows (CreateSubscriber x)"
    unfolding UpdateSubscriber_def CreateSubscriber_def Let_def by (intro trail_keeps m stepsI; simp add: trail_same trail.step_refl)+
  have "event_of (if ce_sub e = u then e\<lparr>ce_feedback := [], ce_ip := []\<rparr> else e) = event_of e" for e by (simp add: event_of_def)
  then have "trail_grows s (s\<lparr>nl_consents := map (\<lambda>e. if ce_sub e = u then e\<lparr>ce_feedback := [], ce_ip := []\<rparr> else e) (nl_consents s)\<rparr>)" for s
    by (simp add: trail_grows_def o_def)
  then show "steps trail_grows (EraseSubscriber u at)"
    unfolding EraseSubscriber_def by (intro trail_keeps trail.steps_change) (simp_all add: trail_same)
  show "steps trail_grows (AppendConsent es)"
  proof (induction es)
    case (Cons e es)
    have "steps trail_grows (db_call (\<lambda>s. if sub_known s (ce_sub e) then (Inr (), s\<lparr>nl_consents := nl_consents s @ [e]\<rparr>) else (Inl StoreFail, s))
        :: unit nl_comp)"
      by (intro trail.steps_db_call stepsI) (simp add: trail_grows_def)
    then show ?case using Cons by (simp add: trail.steps_andthen)
  qed (simp add: trail.steps_basic)
  show "steps trail_grows (SaveLists ls at)" using grow_SaveLists by (simp add: steps_def lists_grow_def trail_same)
qed

end
