(* ===== verification/Newsletter_Runs.thy ===== *)
theory Newsletter_Runs
  imports Newsletter_Requests
begin

text \<open>
  Any sequence of the newsletter's requests, with any failures on the way: the tables agree with the consent history throughout,
  and the history only grows.
\<close>

datatype nl_op =
    OpSubscribe nl_env subscribe_input
  | OpResend nl_env string string
  | OpConfirm nl_env string string
  | OpUnsubscribe nl_env string string string string
  | OpPreferences nl_env string preferences_input
  | OpMySubscribe nl_env my_subscribe_input
  | OpMyUnsubscribe nl_env uuid "string list" string string string
  | OpConfigure nl_env uuid nl_config "list_input list"
  | OpDelete uuid uuid string
  | OpErase uuid instant
  | OpCreateIssue uuid issue_input
  | OpUpdateIssue uuid uuid issue_patch
  | OpRelease nat
  | OpDispatch nl_env uuid
  | OpFeedback nl_env provider_feedback
  | OpWebhook nl_env string string string
  | OpPrune int

fun nl_run :: "nl_op \<Rightarrow> unit nl_comp" where
  "nl_run (OpSubscribe E i) = Subscribe E i"
| "nl_run (OpResend E email ip) = ResendConfirm E email ip"
| "nl_run (OpConfirm E raw ip) = drop_result (Confirm E raw ip)"
| "nl_run (OpUnsubscribe E raw reason feedback ip) = Unsubscribe E raw reason feedback ip"
| "nl_run (OpPreferences E raw i) = drop_result (UpdatePreferences E raw i)"
| "nl_run (OpMySubscribe E i) = drop_result (MySubscribe E i)"
| "nl_run (OpMyUnsubscribe E u ls reason feedback ip) = drop_result (MyUnsubscribe E u ls reason feedback ip)"
| "nl_run (OpConfigure E actor cfg ls) = drop_result (SaveProviderConfig E actor cfg ls)"
| "nl_run (OpDelete actor u mode) = drop_result (DeleteSubscriber actor u mode)"
| "nl_run (OpErase u at) = EraseUser u at"
| "nl_run (OpCreateIssue actor i) = drop_result (CreateIssue actor i)"
| "nl_run (OpUpdateIssue actor u p) = drop_result (UpdateIssue actor u p)"
| "nl_run (OpRelease n) = drop_result (ReleaseDue n)"
| "nl_run (OpDispatch E u) = Dispatch E u"
| "nl_run (OpFeedback E fb) = HandleFeedback E fb"
| "nl_run (OpWebhook E t sig body) = drop_result (ProviderWebhook E t sig body)"
| "nl_run (OpPrune retention) = drop_result (PruneTokens retention)"

section \<open>Requests that leave the subscriptions alone\<close>

lemma core_release: "steps same_subs (release_all now is)"
  by (induction "is") (simp_all, intro core_keeps, intro core_keeps)

lemma core_issue_requests [core_keeps]: "steps same_subs (CreateIssue actor i)" "steps same_subs (UpdateIssue actor u p)"
  "steps same_subs (ReleaseDue n)" "steps same_subs (PruneTokens retention)"
  unfolding CreateIssue_def UpdateIssue_def ReleaseDue_def PruneTokens_def Let_def by (intro core_keeps core_release)+

section \<open>The invariant\<close>

definition keeps_inv :: "'a nl_comp \<Rightarrow> bool" where
  "keeps_inv m \<longleftrightarrow> (\<forall>s. nl_inv s \<longrightarrow> nl_inv (snd (m s)))"

lemma keeps_invD: "keeps_inv m \<Longrightarrow> nl_inv s \<Longrightarrow> nl_inv (snd (m s))"
  by (simp add: keeps_inv_def)

lemma keeps_inv_settled: "(\<And>C. core_ok C \<Longrightarrow> settled C m) \<Longrightarrow> keeps_inv m"
  using settledD unfolding keeps_inv_def by blast

lemma keeps_inv_same: "steps same_subs m \<Longrightarrow> keeps_inv m"
  by (rule keeps_inv_settled) (rule settled_keeps)

lemma keeps_inv_then: "keeps_inv m \<Longrightarrow> (\<And>x. keeps_inv (f x)) \<Longrightarrow> keeps_inv (andthen m f)"
  unfolding keeps_inv_def andthen_def by (simp split: prod.split sum.split) (metis snd_conv)

lemma keeps_inv_drop: "keeps_inv m \<Longrightarrow> keeps_inv (drop_result m)"
  by (simp add: keeps_inv_def drop_result_state)

lemma keeps_inv_grow: "steps lists_grow m \<Longrightarrow> keeps_inv m"
  unfolding keeps_inv_def steps_def using lists_grow_inv by blast

lemma keeps_inv_requests:
  "keeps_inv (Subscribe E i)" "keeps_inv (ResendConfirm E email ip)" "keeps_inv (Confirm E raw ip)" "keeps_inv (Unsubscribe E raw reason feedback ip)"
  "keeps_inv (UpdatePreferences E raw p)" "keeps_inv (MySubscribe E j)" "keeps_inv (MyUnsubscribe E u ls reason feedback ip)"
  "keeps_inv (DeleteSubscriber actor u mode)" "keeps_inv (EraseUser u at)" "keeps_inv (HandleFeedback E fb)"
  by (intro keeps_inv_settled settled_Subscribe settled_ResendConfirm settled_Confirm settled_Unsubscribe settled_UpdatePreferences
      settled_MySubscribe settled_MyUnsubscribe settled_DeleteSubscriber settled_EraseUser settled_HandleFeedback; assumption)+

lemma keeps_inv_handle_all: "keeps_inv (handle_all E fs)"
  by (induction fs) (simp_all add: keeps_inv_then keeps_inv_requests keeps_inv_same [OF same.steps_basic(1)])

lemma keeps_inv_webhook: "keeps_inv (ProviderWebhook E t sig body)"
proof -
  have "keeps_inv (andthen (of_result r) (\<lambda>fs. andthen (handle_all E fs) (\<lambda>_. ret (length fs))))" for r
    by (intro keeps_inv_then keeps_inv_handle_all keeps_inv_same core_keeps)
  then show ?thesis unfolding ProviderWebhook_def
    by (simp add: keeps_inv_same core_keeps split: option.split)
qed

lemma keeps_inv_configure: "keeps_inv (SaveProviderConfig E actor cfg ls)"
proof -
  have "steps lists_grow (SaveProviderConfig E actor cfg ls)" unfolding SaveProviderConfig_def
    by (intro grow.steps_andthen grow.steps_tx grow_SaveLists same_core_grow core_keeps)
  then show ?thesis by (rule keeps_inv_grow)
qed

lemma nl_run_inv: "keeps_inv (nl_run x)"
  by (cases x) (simp_all add: keeps_inv_drop keeps_inv_requests keeps_inv_webhook keeps_inv_configure keeps_inv_same [OF core_dispatch]
      core_issue_requests [THEN keeps_inv_same])

section \<open>What the writes of a request keep\<close>

text \<open>
  A relation on states that every write keeps, those of a dispatch apart: then every request keeps it, a dispatch apart.
\<close>

locale nl_frame = stepwise R
  for R :: "nl_store \<Rightarrow> nl_store \<Rightarrow> bool" +
  assumes subscriber_writes: "steps R (UpdateSubscriber x)" "steps R (CreateSubscriber x)" "steps R (EraseSubscriber u at)"
      "steps R (AppendConsent es)"
    and list_writes: "steps R (SaveLists li at)" "steps R (SaveConfig c)"
    and token_writes: "steps R (CreateToken k)" "steps R (UseToken h at)" "steps R (RevokeTokens u p)" "steps R (nl_PruneTokens at)"
    and issue_writes: "steps R (nl_CreateIssue i)" "steps R (nl_UpdateIssue i st)" "steps R (MoveIssue u fs st at)"
    and port_writes: "R s (s\<lparr>nl_events := ev\<rparr>)" "R s (s\<lparr>nl_mails := ml\<rparr>)"
begin

lemma record_write: "steps R (nl_record e)" "steps R (nl_post E m)"
  unfolding nl_record_def nl_post_def by (intro steps_intros steps_change port_writes)+

lemma token_issue: "steps R (issueToken E u p iss x)"
proof -
  have "reads (db_call (asks (\<lambda>s. nl_random s (calls s))))" by (intro reads_intros)
  from steps_reads [OF this] show ?thesis unfolding issueToken_def by (intro steps_intros token_writes reads_queries(1) [THEN steps_reads])
qed

lemmas writes =
  steps_intros reads_queries [THEN steps_reads] reads_helpers [THEN steps_reads] subscriber_writes list_writes token_writes issue_writes
  record_write token_issue

lemma keeps_save: "steps R (saveChange E x what es now)"
  unfolding saveChange_def Let_def by (intro writes)

lemma keeps_bodies: "steps R (unsubscribeAll x src reason feedback ip actor)" "steps R (applyChoices x fmt wanted src ip actor)"
  "steps R (requestConfirmation E x ls cfg new ip src)" "steps R (joinNow x ls new ip)" "steps R (nl_erase x src actor at)"
  "steps R (nl_suppress E x k what now)"
  unfolding unsubscribeAll_def applyChoices_def requestConfirmation_def joinNow_def nl_erase_def nl_suppress_def Let_def
  by (intro writes keeps_save)+

lemma keeps_feedback: "steps R (HandleFeedback E fb)"
proof -
  have "steps R (case k of
               BounceSoft \<Rightarrow> AppendConsent [nl_consent sub ConsentSoftBounce [] SourceProvider [] now]
             | BounceHard \<Rightarrow> nl_suppress E (sub\<lparr>sb_status := NlBounced, sb_bounced := Some now\<rparr>) ConsentBounced ''bounced'' now
             | Complaint \<Rightarrow> nl_suppress E (sub\<lparr>sb_status := NlComplained, sb_complained := Some now\<rparr>) ConsentComplained ''complained'' now)"
    for k sub now by (cases k) (simp_all only: bounce_kind.case subscriber_writes keeps_bodies)
  then show ?thesis unfolding HandleFeedback_def by (intro writes)
qed

lemma keeps_handle_all: "steps R (handle_all E fs)"
  by (induction fs) (simp_all add: steps_andthen keeps_feedback steps_basic)

lemma keeps_queued: "steps R (queued i a now)"
  unfolding queued_def by (intro writes)

lemma keeps_release: "steps R (release_all now is)"
proof (induction "is")
  case (Cons i "is")
  show ?case unfolding release_all.simps by (intro writes keeps_queued Cons)
qed (simp add: steps_basic)

lemma keeps_issue_requests: "steps R (CreateIssue actor i)" "steps R (UpdateIssue actor u p)" "steps R (ReleaseDue n)" "steps R (PruneTokens d)"
  unfolding CreateIssue_def UpdateIssue_def saveIssue_def ReleaseDue_def PruneTokens_def Let_def by (intro writes keeps_queued keeps_release)+

lemma keeps_requests:
  "steps R (Subscribe E i)" "steps R (ResendConfirm E email ip)" "steps R (Confirm E raw ip)" "steps R (Unsubscribe E raw reason feedback ip)"
  "steps R (UpdatePreferences E raw p)" "steps R (MySubscribe E j)" "steps R (MyUnsubscribe E u wanted reason feedback ip)"
  "steps R (DeleteSubscriber actor u mode)" "steps R (EraseUser u at)" "steps R (SaveProviderConfig E actor cfg li)" "steps R (ProviderWebhook E t sig body)"
  unfolding Subscribe_def ResendConfirm_def Confirm_def Unsubscribe_def UpdatePreferences_def MySubscribe_def MyUnsubscribe_def
    DeleteSubscriber_def EraseUser_def SaveProviderConfig_def ProviderWebhook_def Let_def
  by (intro writes keeps_bodies keeps_save keeps_handle_all)+

lemma run_keeps:
  assumes "\<And>E u. x = OpDispatch E u \<Longrightarrow> steps R (Dispatch E u)"
  shows "steps R (nl_run x)"
  using assms by (cases x) (simp_all add: steps_drop keeps_requests keeps_issue_requests keeps_feedback)

end

section \<open>The history\<close>

interpretation trail: nl_frame trail_grows
proof unfold_locales
  show "trail_grows s (s\<lparr>nl_events := ev\<rparr>)" "trail_grows s (s\<lparr>nl_mails := ml\<rparr>)" for s ev ml by (simp_all add: trail_same)
qed (rule trail_keeps)+

lemma nl_run_trail: "steps trail_grows (nl_run x)"
  by (rule trail.run_keeps) (rule core_dispatch [THEN same_core_trail])

interpretation newsletter: evolving_service nl_run nl_inv trail_grows
  by unfold_locales (rule keeps_invD [OF nl_run_inv], assumption, rule trail.step_refl, erule (1) trail.step_trans, rule stepsD [OF nl_run_trail])

end
