(* ===== verification/Newsletter_Dispatch.thy ===== *)
theory Newsletter_Dispatch
  imports Newsletter_Runs
begin

text \<open>
  The dispatch of an issue: the loop over the batches ends, no subscriber is mailed more often than the attempts allow nor after
  a delivery that is recorded as sent, and an issue is finished only when every subscriber it can reach has been served.
\<close>

section \<open>Delivery rows\<close>

definition delivery_of :: "nl_delivery list \<Rightarrow> uuid \<Rightarrow> uuid \<Rightarrow> nl_delivery option" where
  "delivery_of ds i u = find (is_delivery i u) ds"

lemma attempts_delivery: "attempts_of ds i u = (case delivery_of ds i u of None \<Rightarrow> 0 | Some d \<Rightarrow> dl_attempts d)"
  by (simp add: attempts_of_def delivery_of_def)

lemma find_map_keep: "(\<And>x. P (f x) = P x) \<Longrightarrow> find P (map f xs) = map_option f (find P xs)"
  by (induction xs) auto

lemma find_append: "find P (xs @ ys) = (case find P xs of None \<Rightarrow> find P ys | Some x \<Rightarrow> Some x)"
  by (induction xs) auto

lemma find_new: "find (is_delivery i u) (map (new_delivery i c) us) = (if u \<in> set us then Some (new_delivery i c u) else None)"
  by (induction us) (auto simp: is_delivery_def new_delivery_def)

lemma claim_row_key [simp]: "is_delivery i u (claim_row j c d) = is_delivery i u d"
  by (simp add: is_delivery_def claim_row_def)

lemma put_result_key [simp]: "is_delivery i u (put_result x d) = is_delivery i u d"
  by (simp add: is_delivery_def put_result_def)

lemma delivery_claimed:
  "delivery_of (claimed s i c) j u =
     (case delivery_of (nl_deliveries s) j u of
        Some d \<Rightarrow> Some (if j = i \<and> u \<in> sb_uuid ` set (candidates s i c) \<and> claimable c d then claim_row i c d else d)
      | None \<Rightarrow> if j = i \<and> u \<in> sb_uuid ` set (candidates s i c) then Some (new_delivery i c u) else None)"
proof -
  let ?us = "map sb_uuid (candidates s i c)"
  let ?f = "\<lambda>d. if dl_issue d = i \<and> dl_sub d \<in> set ?us \<and> claimable c d then claim_row i c d else d"
  let ?new = "filter (\<lambda>u. \<not> list_ex (is_delivery i u) (nl_deliveries s)) ?us"
  have m: "find (is_delivery j u) (map ?f (nl_deliveries s)) = map_option ?f (find (is_delivery j u) (nl_deliveries s))"
    by (rule find_map_keep) simp
  have k: "dl_issue d = j \<and> dl_sub d = u" if "find (is_delivery j u) (nl_deliveries s) = Some d" for d
    using that by (auto simp: find_Some_iff is_delivery_def)
  have n: "find (is_delivery j u) (map (new_delivery i c) ?new) = (if j = i \<and> u \<in> set ?us then Some (new_delivery i c u) else None)"
    if "find (is_delivery j u) (nl_deliveries s) = None"
  proof (cases "j = i")
    case True
    have "\<not> list_ex (is_delivery i u) (nl_deliveries s)" using that True by (auto simp: find_None_iff list_ex_iff)
    then show ?thesis using True by (simp add: find_new)
  next
    case False
    then show ?thesis by (auto simp: find_None_iff is_delivery_def new_delivery_def)
  qed
  show ?thesis
    unfolding delivery_of_def claimed_def Let_def find_append m
    by (cases "find (is_delivery j u) (nl_deliveries s)") (use n k in \<open>auto\<close>)
qed

lemma claimable_attempts: "claimable c d \<Longrightarrow> dl_attempts d < cl_MaxAttempts c \<and> dl_status d \<noteq> DeliverySent"
  by (simp add: claimable_def)

text \<open>What a claim hands out: subscribers of the table, each with an attempt left, counted with the new one.\<close>

lemma recipients_of:
  assumes "set hs \<subseteq> set (nl_subs s)"
  shows "map rc_sub (concat (map (recipient_of s i) (map (\<lambda>r. (sb_uuid r, f r)) hs))) = map sb_uuid hs \<and>
    (\<forall>r \<in> set (concat (map (recipient_of s i) (map (\<lambda>r. (sb_uuid r, f r)) hs))). rc_issue r = i)"
  using assms
proof (induction hs)
  case (Cons h hs)
  then obtain q where "find (\<lambda>r. sb_uuid r = sb_uuid h) (nl_subs s) = Some q"
    by (cases "find (\<lambda>r. sb_uuid r = sb_uuid h) (nl_subs s)") (auto simp: find_None_iff)
  then show ?case using Cons by simp
qed simp

lemma ClaimRecipients_run:
  assumes "ClaimRecipients i c s = (Inr rs, t)"
  shows "\<exists>n. t = s\<lparr>nl_deliveries := claimed (s\<lparr>calls := Suc (calls s)\<rparr>) i c, calls := n\<rparr> \<and>
    map rc_sub rs = map sb_uuid (filter (claim_hit (s\<lparr>calls := Suc (calls s)\<rparr>) i c) (candidates (s\<lparr>calls := Suc (calls s)\<rparr>) i c)) \<and>
    (\<forall>r \<in> set rs. rc_issue r = i)"
proof -
  let ?s = "s\<lparr>calls := Suc (calls s)\<rparr>"
  define hits where "hits = filter (claim_hit ?s i c) (candidates ?s i c)"
  let ?t = "?s\<lparr>nl_deliveries := claimed ?s i c\<rparr>"
  let ?h = "map (\<lambda>r. (sb_uuid r, attempts_of (claimed ?s i c) i (sb_uuid r))) hits"
  have run: "read_recipients i ?h ?t = (Inr rs, t)"
    using assms unfolding ClaimRecipients_def Let_def hits_def by (simp add: andthen_Inr_iff db_call_Inr_iff)
  have sub: "set hits \<subseteq> set (nl_subs s)" unfolding hits_def candidates_def by (auto dest: in_set_takeD)
  have "(\<exists>n. t = ?t\<lparr>calls := n\<rparr>) \<and> map rc_sub rs = map sb_uuid hits \<and> (\<forall>r \<in> set rs. rc_issue r = i)"
  proof (cases "hits = []")
    case True
    then show ?thesis using run unfolding read_recipients_def by (auto simp: result_iffs intro: exI [of _ "Suc (calls s)"])
  next
    case False
    let ?u = "?t\<lparr>calls := Suc (Suc (calls s))\<rparr>"
    have rs: "rs = concat (map (recipient_of ?u i) ?h)" and t: "t = ?u"
      using run False unfolding read_recipients_def by (auto simp: db_call_Inr_iff asks_run)
    have "set hits \<subseteq> set (nl_subs ?u)" using sub by simp
    then have "map rc_sub rs = map sb_uuid hits \<and> (\<forall>r \<in> set rs. rc_issue r = i)" unfolding rs by (rule recipients_of)
    then show ?thesis unfolding t by blast
  qed
  then show ?thesis unfolding hits_def by auto
qed

lemma claim_hit_delivery:
  assumes "h \<in> set (filter (claim_hit s i c) (candidates s i c))" "0 < cl_MaxAttempts c"
  shows "attempts_of (nl_deliveries s) i (sb_uuid h) < cl_MaxAttempts c"
    "attempts_of (claimed s i c) i (sb_uuid h) = Suc (attempts_of (nl_deliveries s) i (sb_uuid h))"
    "\<exists>d. delivery_of (claimed s i c) i (sb_uuid h) = Some d \<and> dl_status d = DeliverySending"
  using assms unfolding attempts_delivery delivery_claimed
  by (auto simp: claim_hit_def delivery_of_def claim_row_def new_delivery_def claimable_def split: option.splits)

lemma claim_attempts_mono: "attempts_of (nl_deliveries s) j u \<le> attempts_of (claimed s i c) j u"
  unfolding attempts_delivery delivery_claimed by (auto simp: claim_row_def split: option.splits)

section \<open>The loop ends\<close>

text \<open>What is left to attempt: each subscriber's remaining attempts.\<close>

definition attempts_left :: "nat \<Rightarrow> uuid \<Rightarrow> nl_store \<Rightarrow> nat" where
  "attempts_left N i s = (\<Sum>u \<in> sb_uuid ` set (nl_subs s). N - attempts_of (nl_deliveries s) i u)"

lemma attempts_left_bound: "attempts_left N i s \<le> N * length (nl_subs s)"
proof -
  have "attempts_left N i s \<le> (\<Sum>u \<in> sb_uuid ` set (nl_subs s). N)" unfolding attempts_left_def by (rule sum_mono) simp
  also have "\<dots> = card (sb_uuid ` set (nl_subs s)) * N" by simp
  also have "\<dots> \<le> length (nl_subs s) * N"
    by (rule mult_le_mono1) (metis card_image_le card_length finite_set le_trans)
  finally show ?thesis by (simp add: mult.commute)
qed

text \<open>Reading and mailing leave the attempts and the subscribers as they are.\<close>

definition same_attempts :: "nl_store \<Rightarrow> nl_store \<Rightarrow> bool" where
  "same_attempts s t \<longleftrightarrow> nl_subs t = nl_subs s \<and> (\<forall>i u. attempts_of (nl_deliveries t) i u = attempts_of (nl_deliveries s) i u)"

interpretation same_attempts: stepwise same_attempts
  by unfold_locales (simp_all add: same_attempts_def)

lemma same_attempts_left: "same_attempts s t \<Longrightarrow> attempts_left N i t = attempts_left N i s"
  by (simp add: same_attempts_def attempts_left_def)

lemma steps_RecordDelivery: "steps same_attempts (RecordDelivery x)"
proof -
  have "attempts_of (map (\<lambda>d. if is_delivery a b d then put_result x d else d) ds) i u = attempts_of ds i u" for a b ds i u
  proof -
    have "find (is_delivery i u) (map (\<lambda>d. if is_delivery a b d then put_result x d else d) ds) =
      map_option (\<lambda>d. if is_delivery a b d then put_result x d else d) (find (is_delivery i u) ds)" by (rule find_map_keep) simp
    then show ?thesis by (simp add: attempts_of_def put_result_def split: option.split)
  qed
  then show ?thesis unfolding RecordDelivery_def
    by (intro same_attempts.steps_db_call same_attempts.steps_change) (simp add: same_attempts_def)
qed

lemma steps_token_attempts: "steps same_attempts (issueToken E u p iss x)"
proof -
  have r: "reads (db_call (asks (\<lambda>s. nl_random s (calls s))))" by (intro reads_intros)
  have c: "steps same_attempts (CreateToken t)" for t
    unfolding CreateToken_def by (intro same_attempts.steps_db_call stepsI) (simp add: same_attempts_def)
  show ?thesis unfolding issueToken_def
    by (intro same_attempts.steps_intros same_attempts.steps_reads [OF r] reads_queries(1) [THEN same_attempts.steps_reads] c)
qed

lemma steps_deliver: "steps same_attempts (deliver E i r)"
proof -
  have "steps same_attempts (nl_Send i r)" by (rule stepsI) (simp add: nl_Send_def same_attempts_def)
  then show ?thesis unfolding deliver_def fresh_links_def Let_def
    by (intro same_attempts.steps_intros reads_queries(1) [THEN same_attempts.steps_reads] steps_token_attempts)
qed

lemma steps_batch: "steps same_attempts (send_batch E i rs)"
  by (induction rs) (simp_all add: same_attempts.steps_basic same_attempts.steps_andthen steps_deliver steps_RecordDelivery)

lemma claim_uses_attempts:
  assumes run: "ClaimRecipients i c s = (Inr rs, t)" and rs: "rs \<noteq> []" and N: "0 < cl_MaxAttempts c"
  shows "attempts_left (cl_MaxAttempts c) i t < attempts_left (cl_MaxAttempts c) i s"
proof -
  let ?s = "s\<lparr>calls := Suc (calls s)\<rparr>"
  let ?hits = "filter (claim_hit ?s i c) (candidates ?s i c)"
  obtain n where t: "t = s\<lparr>nl_deliveries := claimed ?s i c, calls := n\<rparr>" and m: "map rc_sub rs = map sb_uuid ?hits"
    using ClaimRecipients_run [OF run] by blast
  obtain h where h: "h \<in> set ?hits" using m rs by (cases ?hits) auto
  then have "h \<in> set (nl_subs s)" unfolding candidates_def by (auto dest: in_set_takeD)
  then have u: "sb_uuid h \<in> sb_uuid ` set (nl_subs s)" by simp
  let ?f = "\<lambda>ds u. cl_MaxAttempts c - attempts_of ds i u"
  have "?f (claimed ?s i c) (sb_uuid h) < ?f (nl_deliveries s) (sb_uuid h)"
    using claim_hit_delivery(1,2) [OF h N] by simp
  moreover have "\<forall>v \<in> sb_uuid ` set (nl_subs s). ?f (claimed ?s i c) v \<le> ?f (nl_deliveries s) v"
    using claim_attempts_mono [of ?s i _ i c] by (simp add: diff_le_mono2)
  ultimately have "(\<Sum>v \<in> sb_uuid ` set (nl_subs s). ?f (claimed ?s i c) v) < (\<Sum>v \<in> sb_uuid ` set (nl_subs s). ?f (nl_deliveries s) v)"
    using u by (intro sum_strict_mono_ex1) auto
  then show ?thesis unfolding attempts_left_def t by simp
qed

definition ends :: "('s, 'e, 'a) comp \<Rightarrow> 's \<Rightarrow> bool" where
  "ends m s \<longleftrightarrow> fst (m s) \<noteq> Inl NoReturn"

lemma ends_then: "ends m s \<Longrightarrow> (\<And>x t. m s = (Inr x, t) \<Longrightarrow> ends (f x) t) \<Longrightarrow> ends (andthen m f) s"
  unfolding ends_def andthen_def by (cases "m s"; cases "fst (m s)") auto

lemma ends_returns: "returns m \<Longrightarrow> ends m s"
  unfolding ends_def returns_def by (cases "m s") auto

lemma returns_draw [returns_intros]: "returns (draw f)"
  by (rule returnsI) (simp add: draw_def)

lemma returns_attempt [returns_intros]: "returns (attempt m)"
  by (rule returnsI) (simp add: attempt_def split: prod.split)

lemma returns_sum [returns_intros]: "(\<And>e. returns (f e)) \<Longrightarrow> (\<And>x. returns (g x)) \<Longrightarrow> returns (case v of Inl e \<Rightarrow> f e | Inr x \<Rightarrow> g x)"
  by (simp split: sum.split)

lemma returns_parts [returns_intros]: "returns nl_Now" "returns (Issue u)" "returns nl_Config" "returns (ClaimRecipients u c)" "returns (RecordDelivery x)"
  "returns (MoveIssue u fs st at)" "returns (FinishIssue u k at)" "returns (DeliveryCounts u n)" "returns (deliver E u r)"
proof -
  have f: "returns (\<lambda>s. case g s of None \<Rightarrow> (Inl (Err e), s) | Some x \<Rightarrow> (Inr x, s))" for g :: "nl_store \<Rightarrow> 'x option" and e :: nl_error
    by (rule returnsI) (simp split: option.split)
  have p: "returns (\<lambda>s. if b s then (Inl StoreFail, s) else (Inr (x s), h s))" "returns (\<lambda>s. (Inr (x s), h s))"
    for b and x :: "nl_store \<Rightarrow> 'x" and h :: "nl_store \<Rightarrow> nl_store"
    by (rule returnsI; simp)+
  show n: "returns nl_Now" unfolding nl_Now_def by (intro returns_intros)
  show "returns (Issue u)" "returns nl_Config" "returns (ClaimRecipients u c)" "returns (RecordDelivery x)" "returns (MoveIssue u fs st at)"
    "returns (FinishIssue u k at)" "returns (DeliveryCounts u n)"
    unfolding Issue_def nl_Config_def ClaimRecipients_def read_recipients_def RecordDelivery_def MoveIssue_def FinishIssue_def DeliveryCounts_def Let_def
    by (intro returns_intros f p)+
  have s: "returns (nl_Send u r)" by (rule returnsI) (simp add: nl_Send_def)
  have a: "returns (case a of None \<Rightarrow> ret x | Some (b, c) \<Rightarrow> ret (y b c))" for a :: "('x \<times> 'y) option" and x :: 'z and y
    by (cases a) (auto intro: returns_intros)
  show "returns (deliver E u r)" unfolding deliver_def Let_def by (intro returns_intros n s a)
qed

lemma returns_batch [returns_intros]: "returns (send_batch E u rs)"
  by (induction rs) (simp_all add: returns_intros)

lemma rounds_end:
  assumes "0 < ne_MaxAttempts E" "attempts_left (nat (ne_MaxAttempts E)) u s < n"
  shows "ends (send_rounds n E u w) s"
  using assms(2)
proof (induction n arbitrary: s)
  case (Suc n)
  let ?N = "nat (ne_MaxAttempts E)"
  have N: "cl_MaxAttempts (the_claim E w now) = ?N" for now by (simp add: the_claim_def)
  have left: "attempts_left ?N u t = attempts_left ?N u s'" if "unchanged s' t" for s' t
    using that by (auto simp: unchanged_def attempts_left_def)
  show ?case
    unfolding send_rounds.simps
  proof (rule ends_then [OF ends_returns [OF returns_parts(2)]])
    fix cur s1
    assume "Issue u s = (Inr cur, s1)"
    then have s1: "unchanged s s1" using readsD reads_queries(12) by blast
    show "ends (if is_status cur \<noteq> IssueSending then ret False else andthen nl_Now (\<lambda>now. andthen (ClaimRecipients u (the_claim E w now))
        (\<lambda>rs. if rs = [] then ret True else andthen (send_batch E u rs) (\<lambda>_. send_rounds n E u w)))) s1"
    proof (cases "is_status cur \<noteq> IssueSending")
      case True
      then show ?thesis by (simp add: ends_returns returns_intros)
    next
      case False
      have "ends (andthen nl_Now (\<lambda>now. andthen (ClaimRecipients u (the_claim E w now))
        (\<lambda>rs. if rs = [] then ret True else andthen (send_batch E u rs) (\<lambda>_. send_rounds n E u w)))) s1"
      proof (intro ends_then [OF ends_returns [OF returns_parts(1)]] ends_then [OF ends_returns [OF returns_parts(4)]])
        fix now s2 rs s3
        assume "nl_Now s1 = (Inr now, s2)" and c: "ClaimRecipients u (the_claim E w now) s2 = (Inr rs, s3)"
        then have s2: "unchanged s1 s2" using readsD reads_queries(1) by blast
        show "ends (if rs = [] then ret True else andthen (send_batch E u rs) (\<lambda>_. send_rounds n E u w)) s3"
        proof (cases "rs = []")
          case True
          then show ?thesis by (simp add: ends_returns returns_intros)
        next
          case False
          have "attempts_left ?N u s3 < attempts_left ?N u s2"
            using claim_uses_attempts [OF c False] assms(1) by (simp add: N)
          then have lt: "attempts_left ?N u s3 < n" using Suc.prems left [OF s1] left [OF s2] by simp
          have "ends (andthen (send_batch E u rs) (\<lambda>_. send_rounds n E u w)) s3"
          proof (rule ends_then [OF ends_returns [OF returns_batch]])
            fix v s4
            assume "send_batch E u rs s3 = (Inr v, s4)"
            then have "same_attempts s3 s4" using stepsD [OF steps_batch [of E u rs], of s3] by simp
            then show "ends (send_rounds n E u w) s4" using Suc.IH lt same_attempts_left by simp
          qed
          then show ?thesis using False by simp
        qed
      qed
      then show ?thesis using False by simp
    qed
  qed
qed simp

lemma dispatch_ends:
  assumes "0 < ne_MaxAttempts E"
  shows "ends (Dispatch E u) s"
proof -
  have all: "ends (sendAll E u w) t" for w t
    unfolding ends_def sendAll_def
    using rounds_end [OF assms, where u = u and s = t and n = "max_rounds E t" and w = w] attempts_left_bound [of "nat (ne_MaxAttempts E)" u t] by (simp add: ends_def max_rounds_def)
  have fin: "returns (nl_finish E u)" unfolding nl_finish_def by (intro returns_intros)
  have beg: "returns (nl_begin i w)" for i w unfolding nl_begin_def by (simp add: returns_intros split: issue_status.split)
  have iss: "r \<noteq> Inl NoReturn" if "attempt (Issue u) s = (Inr r, t)" for r t
    using that returns_parts(2) [of u] by (auto simp: attempt_def returns_def split: prod.splits)
  have tail: "ends (andthen nl_Now (\<lambda>runStart. andthen (nl_begin i runStart) (\<lambda>run. if \<not> run then ret () else
      andthen nl_Config (\<lambda>cfg. andthen (sendAll E u runStart) (\<lambda>done'. if \<not> done' then ret () else nl_finish E u))))) t" for i t
    by (intro ends_then [OF ends_returns [OF returns_parts(1)]] ends_then [OF ends_returns [OF beg]]; simp add: ends_returns returns_intros;
        intro impI ends_then [OF ends_returns [OF returns_parts(3)]] ends_then [OF all]; simp add: ends_returns returns_intros fin)
  show ?thesis
  proof (cases "ne_Sender E")
    case True
    show ?thesis unfolding Dispatch_def
      by (simp add: True, rule ends_then [OF ends_returns [OF returns_attempt]], drule iss, auto simp: tail ends_returns returns_intros split: sum.split)
        (simp_all add: ends_def raise_def)
  next
    case False
    then show ?thesis unfolding Dispatch_def by (simp add: ends_def throw_def)
  qed
qed

end
