(* ===== verification/Newsletter_Mails.thy ===== *)
theory Newsletter_Mails
  imports Newsletter_Dispatch
begin

text \<open>
  How often a subscriber is mailed: for each issue and subscriber the mails handed to the provider are covered by the attempts of
  the delivery row, and a row that says the mail was sent ends them.
\<close>

section \<open>Counting mails\<close>

definition mails_to :: "nl_store \<Rightarrow> uuid \<Rightarrow> uuid \<Rightarrow> nat" where
  "mails_to s i u = length (filter (\<lambda>(j, v, a). j = i \<and> v = u) (nl_posted s))"

definition was_sent :: "nl_store \<Rightarrow> uuid \<Rightarrow> uuid \<Rightarrow> bool" where
  "was_sent s i u \<longleftrightarrow> (case delivery_of (nl_deliveries s) i u of None \<Rightarrow> False | Some d \<Rightarrow> dl_status d = DeliverySent)"

definition mails_ok :: "nat \<Rightarrow> nl_store \<Rightarrow> bool" where
  "mails_ok N s \<longleftrightarrow> (\<forall>i u. mails_to s i u \<le> attempts_of (nl_deliveries s) i u \<and> attempts_of (nl_deliveries s) i u \<le> N)"

text \<open>A batch in hand: each recipient once, none of them sent, and an attempt counted for each.\<close>

definition batch_ok :: "nat \<Rightarrow> uuid \<Rightarrow> recipient list \<Rightarrow> nl_store \<Rightarrow> bool" where
  "batch_ok N i rs s \<longleftrightarrow>
     distinct (map rc_sub rs) \<and> (\<forall>r \<in> set rs. rc_issue r = i \<and> \<not> was_sent s i (rc_sub r)) \<and>
     (\<forall>j u. mails_to s j u + (if j = i \<and> u \<in> rc_sub ` set rs then 1 else 0) \<le> attempts_of (nl_deliveries s) j u \<and>
            attempts_of (nl_deliveries s) j u \<le> N)"

definition no_resend :: "nl_store \<Rightarrow> nl_store \<Rightarrow> bool" where
  "no_resend s t \<longleftrightarrow> (\<forall>i u. was_sent s i u \<longrightarrow> was_sent t i u \<and> mails_to t i u = mails_to s i u)"

lemma no_resend_refl: "no_resend s s"
  by (simp add: no_resend_def)

lemma no_resend_trans: "no_resend s t \<Longrightarrow> no_resend t u \<Longrightarrow> no_resend s u"
  by (simp add: no_resend_def)

lemma batch_ok_mails: "batch_ok N i rs s \<Longrightarrow> mails_ok N s"
  unfolding batch_ok_def mails_ok_def by (metis add_leE)

definition mails_same :: "nl_store \<Rightarrow> nl_store \<Rightarrow> bool" where
  "mails_same s t \<longleftrightarrow> nl_deliveries t = nl_deliveries s \<and> nl_posted t = nl_posted s \<and> nl_subs t = nl_subs s"

interpretation mails: stepwise mails_same
  by unfold_locales (simp_all add: mails_same_def)

lemma mails_same_facts:
  assumes "nl_deliveries t = nl_deliveries s" "nl_posted t = nl_posted s"
  shows "was_sent t = was_sent s" "mails_to t = mails_to s" "mails_ok N t = mails_ok N s" "no_resend s t"
    "batch_ok N i rs t = batch_ok N i rs s"
  using assms by (simp_all add: was_sent_def mails_to_def mails_ok_def no_resend_def batch_ok_def fun_eq_iff)

section \<open>One mail\<close>

lemma mails_tokens: "steps mails_same (issueToken E u p iss x)"
proof -
  have r: "reads (db_call (asks (\<lambda>s. nl_random s (calls s))))" by (intro reads_intros)
  have c: "steps mails_same (CreateToken t)" for t
    unfolding CreateToken_def by (intro mails.steps_db_call stepsI) (simp add: mails_same_def)
  show ?thesis unfolding issueToken_def
    by (intro mails.steps_intros mails.steps_reads [OF r] reads_queries(1) [THEN mails.steps_reads] c)
qed

lemma deliver_run:
  assumes "deliver E i r s = (v, t)"
  shows "\<exists>x. v = Inr x \<and> dr_issue x = rc_issue r \<and> dr_sub x = rc_sub r \<and> nl_deliveries t = nl_deliveries s \<and> nl_subs t = nl_subs s \<and>
    (nl_posted t = nl_posted s \<or> nl_posted t = nl_posted s @ [(i, rc_sub r, rc_email r)])"
proof -
  let ?now = "nl_clock s (calls s)" and ?s = "s\<lparr>calls := Suc (calls s)\<rparr>"
  obtain l s2 where l: "fresh_links E i r (?now + ne_LinkTTL E) ?s = (l, s2)" by fastforce
  have "steps mails_same (fresh_links E i r w)" for w unfolding fresh_links_def by (intro mails.steps_intros mails_tokens)
  from stepsD [OF this, of ?s "?now + ne_LinkTTL E"] l
  have s2: "nl_deliveries s2 = nl_deliveries s" "nl_posted s2 = nl_posted s" "nl_subs s2 = nl_subs s" by (simp_all add: mails_same_def)
  let ?failed = "\<lambda>perm err. \<lparr>dr_issue = rc_issue r, dr_sub = rc_sub r, dr_sent = False, dr_permanent = perm,
    dr_error = nl_truncate err maxErrorLength, dr_at = ?now\<rparr>"
  let ?answer = "nl_provider s2 (length (nl_posted s2))"
  let ?t = "s2\<lparr>calls := Suc (calls s2), nl_posted := nl_posted s2 @ [(i, rc_sub r, rc_email r)]\<rparr>"
  show ?thesis
  proof (cases l)
    case (Inl f)
    then have "deliver E i r s = (Inr (?failed False (ne_text E f)), s2)"
      using l by (simp add: deliver_def Let_def andthen_def nl_Now_def draw_def attempt_def ret_def)
    then show ?thesis using assms s2 by simp
  next
    case (Inr u)
    then have run: "deliver E i r s = (Inr (case ?answer of Some (perm, err) \<Rightarrow> ?failed perm err
        | None \<Rightarrow> \<lparr>dr_issue = rc_issue r, dr_sub = rc_sub r, dr_sent = True, dr_permanent = False, dr_error = [], dr_at = ?now\<rparr>), ?t)"
      using l by (simp add: deliver_def Let_def andthen_def nl_Now_def draw_def attempt_def ret_def nl_Send_def split: option.split prod.split)
    show ?thesis using assms s2 unfolding run by (auto split: option.split)
  qed
qed

lemma RecordDelivery_run:
  assumes "RecordDelivery x s = (v, t)"
  shows "nl_posted t = nl_posted s \<and> nl_subs t = nl_subs s \<and>
    (\<forall>i u. (i, u) \<noteq> (dr_issue x, dr_sub x) \<longrightarrow> delivery_of (nl_deliveries t) i u = delivery_of (nl_deliveries s) i u) \<and>
    (\<forall>i u. attempts_of (nl_deliveries t) i u = attempts_of (nl_deliveries s) i u)"
proof -
  let ?f = "\<lambda>d. if is_delivery (dr_issue x) (dr_sub x) d then put_result x d else d"
  have m: "find (is_delivery i u) (map ?f ds) = map_option ?f (find (is_delivery i u) ds)" for i u ds by (rule find_map_keep) simp
  have o: "map_option ?f (find (is_delivery i u) ds) = find (is_delivery i u) ds" if "(i, u) \<noteq> (dr_issue x, dr_sub x)" for i u ds
  proof -
    have "is_delivery i u d" if "find (is_delivery i u) ds = Some d" for d using that by (auto simp: find_Some_iff)
    then show ?thesis using that by (cases "find (is_delivery i u) ds") (auto simp: is_delivery_def)
  qed
  have d: "nl_deliveries t = nl_deliveries s \<or> nl_deliveries t = map ?f (nl_deliveries s)" and p: "nl_posted t = nl_posted s" "nl_subs t = nl_subs s"
    using assms unfolding RecordDelivery_def by (auto simp: db_call_def change_run Let_def split: if_splits)
  have "same_attempts s t" using stepsD [OF steps_RecordDelivery [of x], of s] assms by simp
  then show ?thesis using d p m o by (auto simp: delivery_of_def same_attempts_def)
qed

lemma mails_to_append: "mails_to (s\<lparr>nl_posted := nl_posted s @ [(i, v, a)]\<rparr>) j u = mails_to s j u + (if j = i \<and> u = v then 1 else 0)"
  by (simp add: mails_to_def)

text \<open>One recipient of a batch: mailed or not, and its result recorded or not.\<close>

lemma send_one:
  assumes b: "batch_ok N i (r # rs) s" and d: "deliver E i r s = (Inr x, s1)" and rec: "RecordDelivery x s1 = (v, t)"
  shows "batch_ok N i rs t \<and> no_resend s t \<and> nl_subs t = nl_subs s"
proof -
  have r: "rc_issue r = i" "\<not> was_sent s i (rc_sub r)" "rc_sub r \<notin> rc_sub ` set rs" using b by (simp_all add: batch_ok_def)
  have d1: "dr_issue x = i" "dr_sub x = rc_sub r" "nl_deliveries s1 = nl_deliveries s" "nl_subs s1 = nl_subs s"
    and p1: "nl_posted s1 = nl_posted s \<or> nl_posted s1 = nl_posted s @ [(i, rc_sub r, rc_email r)]"
    using deliver_run [OF d] r(1) by auto
  have t: "nl_posted t = nl_posted s1" "nl_subs t = nl_subs s1" "(j, u) \<noteq> (i, rc_sub r) \<Longrightarrow> delivery_of (nl_deliveries t) j u = delivery_of (nl_deliveries s) j u"
    "attempts_of (nl_deliveries t) j u = attempts_of (nl_deliveries s) j u" for j u
    using RecordDelivery_run [OF rec] d1 by auto
  have m: "mails_to t j u \<le> mails_to s j u + (if j = i \<and> u = rc_sub r then 1 else 0)"
    "(j, u) \<noteq> (i, rc_sub r) \<Longrightarrow> mails_to t j u = mails_to s j u" for j u
    using p1 t(1) by (auto simp: mails_to_def)
  have se: "(j, u) \<noteq> (i, rc_sub r) \<Longrightarrow> was_sent t j u = was_sent s j u" for j u using t(3) by (simp add: was_sent_def)
  have "no_resend s t" unfolding no_resend_def using m(2) se r(2) by (metis prod.inject)
  moreover have "batch_ok N i rs t" unfolding batch_ok_def
  proof (intro conjI allI ballI)
    show "distinct (map rc_sub rs)" using b by (simp add: batch_ok_def)
    fix q assume q: "q \<in> set rs"
    then have "rc_sub q \<noteq> rc_sub r" using r(3) by (metis image_eqI)
    then show "\<not> was_sent t i (rc_sub q)" "rc_issue q = i" using b q se by (simp_all add: batch_ok_def)
  next
    fix j u
    have s: "mails_to s j u + (if j = i \<and> u \<in> rc_sub ` set (r # rs) then 1 else 0) \<le> attempts_of (nl_deliveries s) j u"
      "attempts_of (nl_deliveries s) j u \<le> N" using b by (simp_all add: batch_ok_def)
    show "mails_to t j u + (if j = i \<and> u \<in> rc_sub ` set rs then 1 else 0) \<le> attempts_of (nl_deliveries t) j u"
      unfolding t(4) using s(1) m(1) [of j u] r(3) by (auto split: if_splits)
    show "attempts_of (nl_deliveries t) j u \<le> N" using s(2) t(4) by simp
  qed
  ultimately show ?thesis using t(2) d1(4) by simp
qed

lemma send_batch_ok:
  assumes "batch_ok N i rs s" "send_batch E i rs s = (v, t)"
  shows "mails_ok N t \<and> no_resend s t \<and> nl_subs t = nl_subs s"
  using assms
proof (induction rs arbitrary: s)
  case Nil
  then show ?case using batch_ok_mails by (simp add: ret_def no_resend_refl)
next
  case (Cons r rs)
  obtain w s1 where d0: "deliver E i r s = (w, s1)" by fastforce
  then obtain x where d: "deliver E i r s = (Inr x, s1)" using deliver_run [OF d0] by auto
  obtain y s2 where rec: "RecordDelivery x s1 = (y, s2)" by fastforce
  have one: "batch_ok N i rs s2" "no_resend s s2" "nl_subs s2 = nl_subs s" using send_one [OF Cons.prems(1) d rec] by simp_all
  show ?case
  proof (cases y)
    case (Inl e)
    then have "t = s2" using Cons.prems(2) d rec by (simp add: andthen_def)
    then show ?thesis using one batch_ok_mails by blast
  next
    case (Inr z)
    then have "send_batch E i rs s2 = (v, t)" using Cons.prems(2) d rec by (simp add: andthen_def)
    from Cons.IH [OF one(1) this] one show ?thesis using no_resend_trans by simp
  qed
qed

section \<open>A claim and the rounds\<close>

lemma claim_keeps_mails:
  assumes ok: "mails_ok N s" and N: "0 < cl_MaxAttempts c" "cl_MaxAttempts c \<le> N" and s': "nl_deliveries s' = nl_deliveries s"
    and t: "nl_deliveries t = claimed s' i c" "nl_posted t = nl_posted s"
  shows "mails_ok N t \<and> no_resend s t"
proof -
  have m: "mails_to t = mails_to s" using t(2) by (simp add: mails_to_def fun_eq_iff)
  have up: "attempts_of (nl_deliveries s) j u \<le> attempts_of (nl_deliveries t) j u" for j u
    using claim_attempts_mono [of s' j u i c] s' t(1) by simp
  have lim: "attempts_of (nl_deliveries t) j u \<le> N" if "attempts_of (nl_deliveries s) j u \<le> N" for j u
    using that N unfolding t(1) attempts_delivery delivery_claimed s' by (auto simp: claim_row_def new_delivery_def claimable_def split: option.splits)
  have se: "was_sent t j u" if "was_sent s j u" for j u
    using that unfolding was_sent_def t(1) delivery_claimed s' by (auto simp: claimable_def split: option.splits)
  have "mails_to t j u \<le> attempts_of (nl_deliveries t) j u" for j u
    unfolding m using ok up [of j u] by (simp add: mails_ok_def) (meson le_trans)
  then show ?thesis unfolding mails_ok_def no_resend_def using ok lim se m by (simp add: mails_ok_def)
qed

lemma claim_batch:
  assumes ok: "mails_ok N s" and d: "distinct (map sb_uuid (nl_subs s))" and N: "0 < cl_MaxAttempts c" "cl_MaxAttempts c \<le> N"
    and run: "ClaimRecipients i c s = (Inr rs, t)"
  shows "batch_ok N i rs t \<and> no_resend s t \<and> nl_subs t = nl_subs s"
proof -
  let ?s = "s\<lparr>calls := Suc (calls s)\<rparr>"
  let ?hits = "filter (claim_hit ?s i c) (candidates ?s i c)"
  obtain n where t: "t = s\<lparr>nl_deliveries := claimed ?s i c, calls := n\<rparr>" and m: "map rc_sub rs = map sb_uuid ?hits"
    and i: "\<forall>r \<in> set rs. rc_issue r = i" using ClaimRecipients_run [OF run] by blast
  have mk: "mails_ok N t \<and> no_resend s t" by (rule claim_keeps_mails [OF ok N, of ?s _ i]) (simp_all add: t)
  have "distinct (map sb_uuid ?hits)" unfolding candidates_def using d
    by (intro distinct_map_filter) (simp add: take_map [symmetric] distinct_map_filter)
  then have dr: "distinct (map rc_sub rs)" using m by simp
  have h: "\<exists>h \<in> set ?hits. sb_uuid h = u" if "u \<in> rc_sub ` set rs" for u
  proof -
    have "u \<in> set (map rc_sub rs)" using that by simp
    then show ?thesis unfolding m by auto
  qed
  have one: "attempts_of (nl_deliveries t) i u = Suc (attempts_of (nl_deliveries s) i u) \<and> \<not> was_sent t i u" if u: "u \<in> rc_sub ` set rs" for u
  proof -
    obtain k where k: "k \<in> set ?hits" "sb_uuid k = u" using h [OF u] by blast
    show ?thesis using claim_hit_delivery(2,3) [OF k(1) N(1)] k(2) unfolding t was_sent_def by auto
  qed
  have mt: "mails_to t = mails_to s" by (simp add: mails_to_def t fun_eq_iff)
  have "batch_ok N i rs t" unfolding batch_ok_def
  proof (intro conjI allI ballI)
    show "distinct (map rc_sub rs)" by (rule dr)
    show "rc_issue r = i" "\<not> was_sent t i (rc_sub r)" if "r \<in> set rs" for r using that i one by auto
    fix j u
    show "attempts_of (nl_deliveries t) j u \<le> N" using mk by (simp add: mails_ok_def)
    show "mails_to t j u + (if j = i \<and> u \<in> rc_sub ` set rs then 1 else 0) \<le> attempts_of (nl_deliveries t) j u"
    proof (cases "j = i \<and> u \<in> rc_sub ` set rs")
      case True
      have "mails_to s i u \<le> attempts_of (nl_deliveries s) i u" using ok by (simp add: mails_ok_def)
      then show ?thesis using True one mt by simp
    next
      case False
      have "mails_to t j u \<le> attempts_of (nl_deliveries t) j u" using mk by (simp add: mails_ok_def)
      then show ?thesis using False by auto
    qed
  qed
  then show ?thesis using mk t by simp
qed

lemma claim_fails:
  assumes run: "ClaimRecipients i c s = (Inl e, t)"
  shows "\<exists>n. t = s\<lparr>calls := n\<rparr> \<or> t = s\<lparr>nl_deliveries := claimed (s\<lparr>calls := Suc (calls s)\<rparr>) i c, calls := n\<rparr>"
proof (cases "fails s (calls s)")
  case True
  then show ?thesis using run unfolding ClaimRecipients_def by (auto simp: andthen_def db_call_def Let_def)
next
  case False
  let ?s = "s\<lparr>calls := Suc (calls s)\<rparr>"
  have "\<exists>hits. read_recipients i hits (?s\<lparr>nl_deliveries := claimed ?s i c\<rparr>) = (Inl e, t)"
    using run False unfolding ClaimRecipients_def by (auto simp: andthen_def db_call_def Let_def)
  moreover have "reads (read_recipients i hits)" for hits unfolding read_recipients_def by (intro reads_intros)
  ultimately have "unchanged (?s\<lparr>nl_deliveries := claimed ?s i c\<rparr>) t" using readsD by blast
  then show ?thesis by (auto simp: unchanged_def)
qed

text \<open>What a dispatch keeps.\<close>

definition mails_step :: "nat \<Rightarrow> nl_store \<Rightarrow> nl_store \<Rightarrow> bool" where
  "mails_step N s t \<longleftrightarrow>
     (mails_ok N s \<longrightarrow> distinct (map sb_uuid (nl_subs s)) \<longrightarrow> mails_ok N t \<and> no_resend s t \<and> nl_subs t = nl_subs s)"

interpretation mails_step: stepwise "mails_step N" for N
proof unfold_locales
  show "mails_step N s u" if "mails_step N s t" "mails_step N t u" for s t u
    unfolding mails_step_def
  proof (intro impI)
    assume o: "mails_ok N s" "distinct (map sb_uuid (nl_subs s))"
    have t: "mails_ok N t" "no_resend s t" "nl_subs t = nl_subs s" using that(1) o by (simp_all add: mails_step_def)
    have u: "mails_ok N u" "no_resend t u" "nl_subs u = nl_subs t" using that(2) o t by (simp_all add: mails_step_def)
    show "mails_ok N u \<and> no_resend s u \<and> nl_subs u = nl_subs s" using t u no_resend_trans [OF t(2) u(2)] by simp
  qed
  show "mails_step N s (s\<lparr>calls := n\<rparr>)" for s n
    using mails_same_facts(3,4) [of "s\<lparr>calls := n\<rparr>" s] by (simp add: mails_step_def)
qed

lemma mails_step_of_same: "mails_same s t \<Longrightarrow> mails_step N s t"
  using mails_same_facts(3,4) [of t s] by (simp add: mails_same_def mails_step_def)

lemma mails_step_same: "steps mails_same m \<Longrightarrow> steps (mails_step N) m"
  unfolding steps_def using mails_step_of_same by blast

lemma mails_step_claim:
  assumes N: "0 < cl_MaxAttempts c" "cl_MaxAttempts c \<le> N" and k: "steps (mails_step N) k"
  shows "steps (mails_step N) (andthen (ClaimRecipients i c) (\<lambda>rs. if rs = [] then ret x else andthen (send_batch E i rs) (\<lambda>_. k)))"
proof (rule stepsI, unfold mails_step_def, intro impI)
  fix s
  assume ok: "mails_ok N s" and d: "distinct (map sb_uuid (nl_subs s))"
  let ?m = "andthen (ClaimRecipients i c) (\<lambda>rs. if rs = [] then ret x else andthen (send_batch E i rs) (\<lambda>_. k))"
  obtain r s1 where c: "ClaimRecipients i c s = (r, s1)" by fastforce
  show "mails_ok N (snd (?m s)) \<and> no_resend s (snd (?m s)) \<and> nl_subs (snd (?m s)) = nl_subs s"
  proof (cases r)
    case (Inl e)
    then obtain n where s1: "s1 = s\<lparr>calls := n\<rparr> \<or> s1 = s\<lparr>nl_deliveries := claimed (s\<lparr>calls := Suc (calls s)\<rparr>) i c, calls := n\<rparr>"
      using claim_fails c by blast
    have "mails_ok N s1 \<and> no_resend s s1 \<and> nl_subs s1 = nl_subs s"
      using s1
    proof
      assume a: "s1 = s\<lparr>calls := n\<rparr>"
      show ?thesis using ok mails_same_facts(3,4) [of s1 s] by (simp add: a)
    next
      assume a: "s1 = s\<lparr>nl_deliveries := claimed (s\<lparr>calls := Suc (calls s)\<rparr>) i c, calls := n\<rparr>"
      show ?thesis using claim_keeps_mails [OF ok N, of "s\<lparr>calls := Suc (calls s)\<rparr>" s1 i] by (simp add: a)
    qed
    then show ?thesis using Inl c by (simp add: andthen_def)
  next
    case (Inr rs)
    have b: "batch_ok N i rs s1" "no_resend s s1" "nl_subs s1 = nl_subs s" using claim_batch [OF ok d N] c Inr by blast+
    obtain v s2 where sb: "send_batch E i rs s1 = (v, s2)" by fastforce
    have s2: "mails_ok N s2" "no_resend s1 s2" "nl_subs s2 = nl_subs s1" using send_batch_ok [OF b(1) sb] by simp_all
    have k2: "mails_ok N (snd (k s2)) \<and> no_resend s2 (snd (k s2)) \<and> nl_subs (snd (k s2)) = nl_subs s2"
      using stepsD [OF k, of s2] s2 b(3) d by (simp add: mails_step_def)
    show ?thesis
    proof (cases "rs = []")
      case True
      then show ?thesis using Inr c b batch_ok_mails by (simp add: andthen_def ret_def)
    next
      case False
      have n: "no_resend s s2" "no_resend s (snd (k s2))" using no_resend_trans b(2) s2(2) k2 by blast+
      show ?thesis using False Inr c sb b s2 k2 n by (cases v) (simp_all add: andthen_def)
    qed
  qed
qed

lemma mails_step_rounds:
  assumes "0 < ne_MaxAttempts E" "nat (ne_MaxAttempts E) \<le> N"
  shows "steps (mails_step N) (send_rounds n E u w)"
proof (induction n)
  case (Suc n)
  show ?case unfolding send_rounds.simps
    by (intro mails_step.steps_intros reads_queries [THEN mails_step.steps_reads] mails_step_claim Suc) (use assms in \<open>simp_all add: the_claim_def\<close>)
qed (simp add: mails_step.steps_basic)

lemma mails_step_Dispatch:
  assumes "0 < ne_MaxAttempts E" "nat (ne_MaxAttempts E) \<le> N"
  shows "steps (mails_step N) (Dispatch E u)"
proof -
  have a: "steps (mails_step N) (sendAll E u w)" for w
    using mails_step_rounds [OF assms] unfolding sendAll_def steps_def by blast
  have i: "steps mails_same (MoveIssue v fs st at)" "steps mails_same (FinishIssue v k at)" for v fs st at k
    unfolding MoveIssue_def FinishIssue_def Let_def by (intro mails.steps_db_call stepsI; simp add: mails_same_def)+
  have b: "steps (mails_step N) (nl_begin x w)" for x w
    unfolding nl_begin_def by (simp add: mails_step_same [OF i(1)] mails_step.steps_basic split: issue_status.split)
  show ?thesis unfolding Dispatch_def nl_finish_def
    by (intro mails_step.steps_intros reads_queries [THEN mails_step.steps_reads] a b mails_step_same [OF i(2)])
qed

section \<open>All requests\<close>

definition deliveries_same :: "nl_store \<Rightarrow> nl_store \<Rightarrow> bool" where
  "deliveries_same s t \<longleftrightarrow> nl_deliveries t = nl_deliveries s \<and> nl_posted t = nl_posted s"

interpretation deliveries: stepwise deliveries_same
  by unfold_locales (simp_all add: deliveries_same_def)

lemma deliveries_subscriber_writes: "steps deliveries_same (UpdateSubscriber x)" "steps deliveries_same (CreateSubscriber x)"
  "steps deliveries_same (EraseSubscriber u at)" "steps deliveries_same (AppendConsent es)"
proof -
  have m: "steps deliveries_same (saveMemberships u ms)" for u ms
  proof (induction ms)
    case (Cons m ms)
    have "steps deliveries_same (change (put_member u m) :: unit nl_comp)"
      by (rule deliveries.steps_change) (simp add: put_member_def deliveries_same_def Let_def)
    then show ?case using Cons by (simp add: deliveries.steps_andthen deliveries.steps_db_call)
  qed (simp add: deliveries.steps_basic)
  show "steps deliveries_same (UpdateSubscriber x)" "steps deliveries_same (CreateSubscriber x)"
    unfolding UpdateSubscriber_def CreateSubscriber_def Let_def by (intro deliveries.steps_intros m stepsI; simp add: deliveries_same_def)+
  show "steps deliveries_same (EraseSubscriber u at)"
    unfolding EraseSubscriber_def by (intro deliveries.steps_intros deliveries.steps_change) (simp_all add: deliveries_same_def)
  show "steps deliveries_same (AppendConsent es)"
  proof (induction es)
    case (Cons e es)
    have "steps deliveries_same (db_call (\<lambda>s. if sub_known s (ce_sub e) then (Inr (), s\<lparr>nl_consents := nl_consents s @ [e]\<rparr>) else (Inl StoreFail, s))
        :: unit nl_comp)"
      by (intro deliveries.steps_db_call stepsI) (simp add: deliveries_same_def)
    then show ?case using Cons by (simp add: deliveries.steps_andthen)
  qed (simp add: deliveries.steps_basic)
qed

lemma deliveries_list_writes: "steps deliveries_same (SaveLists li at)" "steps deliveries_same (SaveConfig c)"
proof -
  have "steps deliveries_same (save_lists i xs)" for i xs
    by (induction xs arbitrary: i)
      (simp_all add: deliveries.steps_basic deliveries.steps_andthen deliveries.steps_db_call deliveries.steps_change deliveries_same_def)
  then show "steps deliveries_same (SaveLists li at)" "steps deliveries_same (SaveConfig c)" unfolding SaveLists_def SaveConfig_def
    by (intro deliveries.steps_intros deliveries.steps_change; simp add: deliveries_same_def)+
qed

lemma deliveries_other_writes: "steps deliveries_same (CreateToken k)" "steps deliveries_same (UseToken h at)" "steps deliveries_same (RevokeTokens u p)"
  "steps deliveries_same (nl_PruneTokens at)" "steps deliveries_same (nl_CreateIssue i)" "steps deliveries_same (nl_UpdateIssue i st)"
  "steps deliveries_same (MoveIssue u fs st at)"
proof -
  have d: "steps deliveries_same (db_call (\<lambda>s. (Inr (f s), s\<lparr>nl_issues := g s\<rparr>)))"
    "steps deliveries_same (db_call (\<lambda>s. if b s then (Inl StoreFail, s) else (Inr (f s), s\<lparr>nl_issues := g s\<rparr>)))" for f :: "nl_store \<Rightarrow> 'x" and g b
    by (intro deliveries.steps_db_call stepsI; simp add: deliveries_same_def)+
  have c: "deliveries_same s (s\<lparr>nl_issues := g\<rparr>)" for s g by (simp add: deliveries_same_def)
  show "steps deliveries_same (CreateToken k)" "steps deliveries_same (UseToken h at)" "steps deliveries_same (RevokeTokens u p)"
    "steps deliveries_same (nl_PruneTokens at)"
    unfolding CreateToken_def UseToken_def RevokeTokens_def nl_PruneTokens_def
    by (intro deliveries.steps_db_call stepsI; simp add: deliveries_same_def change_run)+
  show "steps deliveries_same (nl_CreateIssue i)" "steps deliveries_same (nl_UpdateIssue i st)" "steps deliveries_same (MoveIssue u fs st at)"
    unfolding nl_CreateIssue_def nl_UpdateIssue_def MoveIssue_def Let_def by (intro deliveries.steps_intros deliveries.steps_change c d)+
qed

interpretation deliveries: nl_frame deliveries_same
proof unfold_locales
  show "deliveries_same s (s\<lparr>nl_events := ev\<rparr>)" "deliveries_same s (s\<lparr>nl_mails := ml\<rparr>)" for s ev ml by (simp_all add: deliveries_same_def)
qed (rule deliveries_subscriber_writes deliveries_list_writes deliveries_other_writes)+

text \<open>The attempts a request may make.\<close>

fun op_attempts :: "nat \<Rightarrow> nl_op \<Rightarrow> bool" where
  "op_attempts N (OpDispatch E u) \<longleftrightarrow> 0 < ne_MaxAttempts E \<and> nat (ne_MaxAttempts E) \<le> N"
| "op_attempts N x \<longleftrightarrow> True"

lemma nl_run_mails:
  assumes "op_attempts N x" "nl_inv s" "mails_ok N s"
  shows "mails_ok N (snd (nl_run x s)) \<and> no_resend s (snd (nl_run x s))"
proof (cases "\<exists>E u. x = OpDispatch E u")
  case True
  then obtain E u where x: "x = OpDispatch E u" by blast
  have d: "distinct (map sb_uuid (nl_subs s))" using assms(2) by (simp add: nl_inv_def nl_ok_def)
  have "steps (mails_step N) (Dispatch E u)" using assms(1) unfolding x by (intro mails_step_Dispatch) simp_all
  from stepsD [OF this, of s] have "mails_step N s (snd (nl_run x s))" unfolding x nl_run.simps .
  then show ?thesis using d assms(3) unfolding mails_step_def by (elim impE) simp_all
next
  case False
  then have "steps deliveries_same (nl_run x)" by (intro deliveries.run_keeps) blast
  then have "nl_deliveries (snd (nl_run x s)) = nl_deliveries s" "nl_posted (snd (nl_run x s)) = nl_posted s"
    using stepsD [of deliveries_same "nl_run x" s] by (simp_all add: deliveries_same_def)
  from mails_same_facts(3,4) [OF this] assms(3) show ?thesis by simp
qed

lemma nl_runs_mails:
  assumes "list_all (op_attempts N) ops" "nl_inv s" "mails_ok N s"
  shows "mails_ok N (run_all nl_run ops s) \<and> no_resend s (run_all nl_run ops s)"
  using assms
proof (induction ops arbitrary: s)
  case (Cons x ops)
  let ?t = "snd (nl_run x s)"
  have "mails_ok N ?t \<and> no_resend s ?t" by (rule nl_run_mails) (use Cons.prems in simp_all)
  then have t: "mails_ok N ?t" "no_resend s ?t" by simp_all
  have "nl_inv ?t" by (rule newsletter.step_inv [OF Cons.prems(2)])
  from Cons.IH [OF _ this t(1)] Cons.prems(1) t(2) show ?case using no_resend_trans by (simp add: run_all_def)
qed (simp add: run_all_def no_resend_refl)

section \<open>Everyone is served\<close>

definition unsent :: "uuid \<Rightarrow> nl_store \<Rightarrow> bool" where
  "unsent u s \<longleftrightarrow> (\<forall>i \<in> set (nl_issues s). is_uuid i = u \<longrightarrow> is_status i \<noteq> IssueSent)"

text \<open>Up to its end a dispatch leaves the subscribers, their memberships and other transactions' locks alone, and the issue unsent.\<close>

definition quiet :: "uuid \<Rightarrow> nl_store \<Rightarrow> nl_store \<Rightarrow> bool" where
  "quiet u s t \<longleftrightarrow> nl_subs t = nl_subs s \<and> nl_members t = nl_members s \<and> nl_locked t = nl_locked s \<and> (unsent u s \<longrightarrow> unsent u t)"

interpretation quiet: stepwise "quiet u" for u
  by unfold_locales (auto simp: quiet_def unsent_def)

lemma quiet_frame: "quiet u s (s\<lparr>nl_tokens := a\<rparr>)" "quiet u s (s\<lparr>nl_deliveries := b\<rparr>)" "quiet u s (s\<lparr>calls := n, nl_posted := g\<rparr>)" "quiet u s s"
  by (simp_all add: quiet_def unsent_def)

lemma quiet_Move: "steps (quiet u) (MoveIssue v [IssueQueued] IssueSending at)"
  unfolding MoveIssue_def Let_def by (intro quiet.steps_db_call stepsI) (auto simp: quiet_def unsent_def)

lemma quiet_batch: "steps (quiet u) (send_batch E v rs)"
proof -
  have c: "steps (quiet u) (CreateToken k)" for k
    unfolding CreateToken_def by (intro quiet.steps_db_call stepsI) (simp add: quiet_frame)
  have r: "reads (db_call (asks (\<lambda>s. nl_random s (calls s))))" by (intro reads_intros)
  have t: "steps (quiet u) (issueToken E x p iss y)" for x p iss y unfolding issueToken_def
    by (intro quiet.steps_intros quiet.steps_reads [OF r] reads_queries(1) [THEN quiet.steps_reads] c)
  have s: "steps (quiet u) (nl_Send v q)" for q by (rule stepsI) (simp add: nl_Send_def quiet_frame)
  have d: "steps (quiet u) (deliver E v q)" for q unfolding deliver_def fresh_links_def Let_def
    by (intro quiet.steps_intros reads_queries(1) [THEN quiet.steps_reads] t s)
  have rd: "steps (quiet u) (RecordDelivery x)" for x unfolding RecordDelivery_def by (intro quiet.steps_intros quiet.steps_change quiet_frame)
  show ?thesis by (induction rs) (simp_all add: quiet.steps_basic quiet.steps_andthen d rd)
qed

lemma quiet_rounds: "steps (quiet u) (send_rounds n E v w)"
proof -
  have rr: "reads (read_recipients v hits)" for hits unfolding read_recipients_def by (intro reads_intros)
  have cl: "steps (quiet u) (ClaimRecipients v c)" for c unfolding ClaimRecipients_def Let_def
    by (intro quiet.steps_andthen quiet.steps_db_call stepsI) (simp_all add: quiet_frame rr [THEN quiet.steps_reads, THEN stepsD])
  show ?thesis
  proof (induction n)
    case (Suc n)
    show ?case unfolding send_rounds.simps by (intro quiet.steps_intros reads_queries [THEN quiet.steps_reads] cl quiet_batch Suc)
  qed (simp add: quiet.steps_basic)
qed

lemma rounds_done:
  assumes "send_rounds n E u w s = (Inr True, t)"
  shows "\<exists>s0 now. ClaimRecipients u (the_claim E w now) s0 = (Inr [], t) \<and> nl_locked s0 = nl_locked s \<and> u \<in> is_uuid ` set (nl_issues s0)"
  using assms
proof (induction n arbitrary: s)
  case 0
  then show ?case by (simp add: raise_def)
next
  case (Suc n)
  from Suc.prems obtain cur s1 now s2 rs s3 where i: "Issue u s = (Inr cur, s1)" and "nl_Now s1 = (Inr now, s2)"
    and c: "ClaimRecipients u (the_claim E w now) s2 = (Inr rs, s3)"
    and k: "(if rs = [] then ret True else andthen (send_batch E u rs) (\<lambda>_. send_rounds n E u w)) s3 = (Inr True, t)"
    unfolding send_rounds.simps by (auto simp: andthen_Inr_iff result_iffs split: if_splits)
  then have s2: "unchanged s s2" using readsD reads_queries(1,12) unchanged_trans by metis
  have iss: "u \<in> is_uuid ` set (nl_issues s)" using i unfolding Issue_def
    by (auto simp: andthen_Inr_iff db_call_Inr_iff find_Some_iff split: option.splits)
  show ?case
  proof (cases "rs = []")
    case True
    then have "t = s3" using k by (simp add: ret_def)
    then show ?thesis using c True s2 iss by (intro exI [of _ s2] exI [of _ now]) (auto simp: unchanged_def)
  next
    case False
    from k False obtain v s4 where b: "send_batch E u rs s3 = (Inr v, s4)" and r: "send_rounds n E u w s4 = (Inr True, t)"
      by (auto simp: andthen_Inr_iff)
    have "quiet u s s4"
    proof -
      have "send_rounds (Suc 0) E u w s = (Inl NoReturn, s4)"
        using Suc.prems False c b i \<open>nl_Now s1 = (Inr now, s2)\<close> unfolding send_rounds.simps
        by (auto simp: andthen_def raise_def ret_def split: if_splits)
      then show ?thesis using stepsD [OF quiet_rounds [of u "Suc 0" E u w], of s] by simp
    qed
    then show ?thesis using Suc.IH [OF r] by (simp add: quiet_def)
  qed
qed

lemma candidate_hit: "r \<in> set (candidates s i c) \<Longrightarrow> i \<in> is_uuid ` set (nl_issues s) \<Longrightarrow> claim_hit s i c r"
proof -
  assume r: "r \<in> set (candidates s i c)" and i: "i \<in> is_uuid ` set (nl_issues s)"
  have no: "\<not> list_ex (\<lambda>d. is_delivery i (sb_uuid r) d \<and> held_back c d) (nl_deliveries s)"
    using r unfolding candidates_def by (auto dest: in_set_takeD)
  show ?thesis
  proof (cases "find (is_delivery i (sb_uuid r)) (nl_deliveries s)")
    case None
    then show ?thesis using i by (simp add: claim_hit_def)
  next
    case (Some d)
    then have "d \<in> set (nl_deliveries s)" "is_delivery i (sb_uuid r) d" by (auto simp: find_Some_iff)
    then have "\<not> held_back c d" using no by (auto simp: list_ex_iff)
    then show ?thesis using Some by (cases "dl_status d") (auto simp: claim_hit_def held_back_def claimable_def)
  qed
qed

text \<open>When nothing is left to claim and no row is locked, every subscriber in reach has a delivery that holds it back.\<close>

lemma nothing_to_claim:
  assumes run: "ClaimRecipients i c s = (Inr [], t)" and i: "i \<in> is_uuid ` set (nl_issues s)" and lim: "0 < cl_Limit c"
    and free: "\<And>n v. \<not> nl_locked s n v"
  shows "nl_deliveries t = nl_deliveries s \<and> (\<forall>r \<in> set (nl_subs s). reachable_sub s i r \<longrightarrow> (\<exists>d \<in> set (nl_deliveries s). is_delivery i (sb_uuid r) d))"
proof -
  let ?s = "s\<lparr>calls := Suc (calls s)\<rparr>"
  obtain n where t: "t = s\<lparr>nl_deliveries := claimed ?s i c, calls := n\<rparr>"
    and none: "filter (claim_hit ?s i c) (candidates ?s i c) = []" using ClaimRecipients_run [OF run] by auto
  have "i \<in> is_uuid ` set (nl_issues ?s)" using i by simp
  then have c: "candidates ?s i c = []"
    using none candidate_hit [of _ ?s i c] by (metis filter_empty_conv list.set_intros(1) neq_Nil_conv)
  then have "claimed ?s i c = nl_deliveries s" by (simp add: claimed_def)
  moreover have "\<exists>d \<in> set (nl_deliveries s). is_delivery i (sb_uuid r) d" if r: "r \<in> set (nl_subs s)" "reachable_sub s i r" for r
  proof -
    have "reachable_sub ?s i r" using r(2) by (simp add: reachable_sub_def lists_of_def)
    then have "list_ex (\<lambda>d. is_delivery i (sb_uuid r) d \<and> held_back c d) (nl_deliveries s)"
      using c lim r(1) free unfolding candidates_def by (auto simp: filter_empty_conv)
    then show ?thesis by (auto simp: list_ex_iff)
  qed
  ultimately show ?thesis using t by simp
qed

definition finish_row :: "uuid \<Rightarrow> delivery_counts \<Rightarrow> instant \<Rightarrow> nl_issue \<Rightarrow> nl_issue" where
  "finish_row u c at x = (if is_uuid x = u \<and> is_status x = IssueSending
     then x\<lparr>is_status := IssueSent, is_sent := dc_sent c, is_failed := dc_failed c, is_completed := Some at, is_updated := at\<rparr> else x)"

lemma finish_run:
  assumes "nl_finish E u s = (Inr v, t)"
  shows "\<exists>c at n. t = s\<lparr>nl_issues := map (finish_row u c at) (nl_issues s), calls := n\<rparr> \<and>
    (\<forall>d \<in> set (nl_deliveries s). dl_issue d = u \<longrightarrow> sub_reachable s u (dl_sub d) \<longrightarrow>
       dl_status d = DeliverySent \<or> dl_permanent d \<or> nat (ne_MaxAttempts E) \<le> dl_attempts d)"
proof -
  from assms obtain c s1 at s2 where c: "DeliveryCounts u (nat (ne_MaxAttempts E)) s = (Inr c, s1)" and z: "dc_retryable c = 0"
    and n: "nl_Now s1 = (Inr at, s2)" and f: "\<exists>b. FinishIssue u c at s2 = (Inr b, t)"
    unfolding nl_finish_def by (auto simp: andthen_Inr_iff result_iffs split: if_splits)
  have "unchanged s s2" using c n readsD reads_queries(1,14) unchanged_trans by metis
  then obtain k where s2: "s2 = s\<lparr>calls := k\<rparr>" by (auto simp: unchanged_def)
  have t: "t = s\<lparr>nl_issues := map (finish_row u c at) (nl_issues s), calls := Suc k\<rparr>"
    using f unfolding FinishIssue_def Let_def s2 finish_row_def [abs_def] by (auto simp: db_call_Inr_iff)
  have r: "sub_reachable (s\<lparr>calls := m\<rparr>) u w = sub_reachable s u w" for m w
    by (simp add: sub_reachable_def reachable_sub_def [abs_def] lists_of_def)
  have "filter (\<lambda>d. dl_status d \<noteq> DeliverySent \<and> \<not> (dl_permanent d \<or> nat (ne_MaxAttempts E) \<le> dl_attempts d \<or> \<not> sub_reachable s u (dl_sub d)))
      (filter (\<lambda>d. dl_issue d = u) (nl_deliveries s)) = []"
    using c z unfolding DeliveryCounts_def Let_def by (auto simp: db_call_Inr_iff asks_run r)
  then have "\<forall>d \<in> set (nl_deliveries s). dl_issue d = u \<longrightarrow> sub_reachable s u (dl_sub d) \<longrightarrow>
      dl_status d = DeliverySent \<or> dl_permanent d \<or> nat (ne_MaxAttempts E) \<le> dl_attempts d"
    by (auto simp: filter_empty_conv)
  then show ?thesis using t by blast
qed

lemma finish_row_keys: "is_uuid (finish_row u c at x) = is_uuid x" "is_lists (finish_row u c at x) = is_lists x"
  by (simp_all add: finish_row_def)

lemma finish_reach: "reachable_sub (s\<lparr>nl_issues := map (finish_row u c at) (nl_issues s), calls := n\<rparr>) v r = reachable_sub s v r"
proof -
  have "map is_lists (filter (\<lambda>i. is_uuid i = v) (map (finish_row u c at) is')) = map is_lists (filter (\<lambda>i. is_uuid i = v) is')" for is'
    by (induction is') (simp_all add: finish_row_keys)
  then show ?thesis by (simp add: reachable_sub_def lists_of_def)
qed

text \<open>A dispatch that finishes its issue went through all of its parts.\<close>

lemma dispatch_finished:
  assumes run: "Dispatch E u s = (Inr v, t)" and s: "unsent u s" and t: "\<not> unsent u t"
  shows "\<exists>s1 s2 w. quiet u s s1 \<and> sendAll E u w s1 = (Inr True, s2) \<and> nl_finish E u s2 = (Inr (), t)"
proof -
  have keep: "unsent u y" if "quiet u s y" for y using that s by (simp add: quiet_def)
  have i: "unchanged x y \<Longrightarrow> quiet u x y" for x y using quiet.step_calls by (auto simp: unchanged_def)
  have snd_sender: "ne_Sender E" using run by (auto simp: Dispatch_def result_iffs split: if_splits)
  from run obtain r s1 where a: "attempt (Issue u) s = (Inr r, s1)"
    and k: "(case r of Inl f \<Rightarrow> if f = Err NlNotFound then ret () else raise f
      | Inr i \<Rightarrow> andthen nl_Now (\<lambda>runStart. andthen (nl_begin i runStart) (\<lambda>run. if \<not> run then ret () else
          andthen nl_Config (\<lambda>cfg. andthen (sendAll E u runStart) (\<lambda>done'. if \<not> done' then ret () else nl_finish E u))))) s1 = (Inr v, t)"
    unfolding Dispatch_def using snd_sender by (auto simp: andthen_Inr_iff)
  have s1: "quiet u s s1" using i readsD [OF reads_attempt [OF reads_queries(12)] a] .
  obtain iss where r: "r = Inr iss"
  proof (cases r)
    case (Inl f)
    then have "t = s1" using k by (auto simp: result_iffs split: if_splits)
    then show ?thesis using keep s1 t by blast
  qed blast
  from k r obtain w s2 b s3 where n: "nl_Now s1 = (Inr w, s2)" and m: "nl_begin iss w s2 = (Inr b, s3)"
    and k3: "(if \<not> b then ret () else andthen nl_Config (\<lambda>cfg. andthen (sendAll E u w) (\<lambda>done'. if \<not> done' then ret () else nl_finish E u))) s3 = (Inr v, t)"
    by (auto simp: andthen_Inr_iff)
  have "steps (quiet u) (nl_begin iss w)" unfolding nl_begin_def by (simp add: quiet_Move quiet.steps_basic split: issue_status.split)
  from stepsD [OF this, of s2] m have q3: "quiet u s s3"
    using quiet.step_trans [OF quiet.step_trans [OF s1 i [OF readsD [OF reads_queries(1) n]]]] by simp
  have b: b using k3 q3 keep t by (auto simp: result_iffs split: if_splits)
  from k3 b obtain cfg s4 d s5 where c: "nl_Config s3 = (Inr cfg, s4)" and a5: "sendAll E u w s4 = (Inr d, s5)"
    and k5: "(if \<not> d then ret () else nl_finish E u) s5 = (Inr v, t)" by (auto simp: andthen_Inr_iff)
  have q4: "quiet u s s4" by (rule quiet.step_trans [OF q3 i [OF readsD [OF reads_queries(5) c]]])
  have "quiet u s4 s5" using stepsD [OF quiet_rounds [of u "max_rounds E s4" E u w], of s4] a5 by (simp add: sendAll_def)
  then have q5: "quiet u s s5" by (rule quiet.step_trans [OF q4])
  have d: d using k5 q5 keep t by (auto simp: result_iffs split: if_splits)
  show ?thesis using q4 a5 k5 d by auto
qed

section \<open>A locked subscriber\<close>

text \<open>A claim skips the rows another transaction holds: such a subscriber gets neither a mail nor a delivery row.\<close>

definition passed_over :: "uuid \<Rightarrow> uuid \<Rightarrow> nl_store \<Rightarrow> nl_store \<Rightarrow> bool" where
  "passed_over u v s t \<longleftrightarrow> nl_locked t = nl_locked s \<and>
     ((\<forall>n. nl_locked s n v) \<longrightarrow> delivery_of (nl_deliveries t) u v = delivery_of (nl_deliveries s) u v \<and> mails_to t u v = mails_to s u v)"

interpretation passed: stepwise "passed_over u v" for u v
  by unfold_locales (simp_all add: passed_over_def mails_to_def)

lemma passed_same: "nl_locked t = nl_locked s \<Longrightarrow> nl_deliveries t = nl_deliveries s \<Longrightarrow> nl_posted t = nl_posted s \<Longrightarrow> passed_over u v s t"
  by (simp add: passed_over_def mails_to_def)

lemma batch_passes:
  assumes "v \<notin> rc_sub ` set rs" "\<forall>r \<in> set rs. rc_issue r = u" "send_batch E u rs s = (x, t)"
  shows "delivery_of (nl_deliveries t) u v = delivery_of (nl_deliveries s) u v \<and> mails_to t u v = mails_to s u v"
  using assms
proof (induction rs arbitrary: s)
  case Nil
  then show ?case by (simp add: ret_def)
next
  case (Cons r rs)
  obtain w s1 where d0: "deliver E u r s = (w, s1)" by fastforce
  then obtain y where d: "deliver E u r s = (Inr y, s1)" "dr_sub y = rc_sub r" "nl_deliveries s1 = nl_deliveries s"
    "nl_posted s1 = nl_posted s \<or> nl_posted s1 = nl_posted s @ [(u, rc_sub r, rc_email r)]" using deliver_run [OF d0] by auto
  obtain z s2 where rec: "RecordDelivery y s1 = (z, s2)" by fastforce
  have v: "v \<noteq> rc_sub r" using Cons.prems(1) by auto
  have "delivery_of (nl_deliveries s2) u v = delivery_of (nl_deliveries s1) u v" "nl_posted s2 = nl_posted s1"
    using RecordDelivery_run [OF rec] v d(2) by simp_all
  then have one: "delivery_of (nl_deliveries s2) u v = delivery_of (nl_deliveries s) u v" "mails_to s2 u v = mails_to s u v"
    using d(3,4) v by (auto simp: mails_to_def)
  show ?case
  proof (cases z)
    case (Inl e)
    then show ?thesis using Cons.prems(3) d(1) rec one by (simp add: andthen_def)
  next
    case (Inr q)
    then have "send_batch E u rs s2 = (x, t)" using Cons.prems(3) d(1) rec by (simp add: andthen_def)
    from Cons.IH [OF _ _ this] Cons.prems(1,2) one show ?thesis by simp
  qed
qed

lemma claim_passes:
  assumes "nl_locked s (Suc (calls s)) v"
  shows "delivery_of (claimed (s\<lparr>calls := Suc (calls s)\<rparr>) u c) u v = delivery_of (nl_deliveries s) u v \<and>
    v \<notin> sb_uuid ` set (candidates (s\<lparr>calls := Suc (calls s)\<rparr>) u c)"
proof -
  have "v \<notin> sb_uuid ` set (candidates (s\<lparr>calls := Suc (calls s)\<rparr>) u c)"
    using assms unfolding candidates_def by (auto dest: in_set_takeD)
  then show ?thesis unfolding delivery_claimed by (simp split: option.split)
qed

lemma passed_claim:
  assumes k: "steps (passed_over u v) k"
  shows "steps (passed_over u v) (andthen (ClaimRecipients u c) (\<lambda>rs. if rs = [] then ret x else andthen (send_batch E u rs) (\<lambda>_. k)))"
proof (rule stepsI)
  fix s
  obtain r s1 where c: "ClaimRecipients u c s = (r, s1)" by fastforce
  let ?m = "andthen (ClaimRecipients u c) (\<lambda>rs. if rs = [] then ret x else andthen (send_batch E u rs) (\<lambda>_. k))"
  show "passed_over u v s (snd (?m s))"
  proof (cases r)
    case (Inl e)
    then obtain n where s1: "s1 = s\<lparr>calls := n\<rparr> \<or> s1 = s\<lparr>nl_deliveries := claimed (s\<lparr>calls := Suc (calls s)\<rparr>) u c, calls := n\<rparr>"
      using claim_fails c by blast
    have "passed_over u v s s1" using s1 claim_passes [of s v u c] by (auto simp: passed_over_def mails_to_def)
    then show ?thesis using Inl c by (simp add: andthen_def)
  next
    case (Inr rs)
    obtain n where s1: "s1 = s\<lparr>nl_deliveries := claimed (s\<lparr>calls := Suc (calls s)\<rparr>) u c, calls := n\<rparr>"
      and m: "map rc_sub rs = map sb_uuid (filter (claim_hit (s\<lparr>calls := Suc (calls s)\<rparr>) u c) (candidates (s\<lparr>calls := Suc (calls s)\<rparr>) u c))"
      and i: "\<forall>r \<in> set rs. rc_issue r = u" using ClaimRecipients_run c Inr by blast
    have p1: "passed_over u v s s1" using claim_passes [of s v u c] by (simp add: s1 passed_over_def mails_to_def)
    obtain w s2 where b: "send_batch E u rs s1 = (w, s2)" by fastforce
    have "steps (quiet u) (send_batch E u rs)" by (rule quiet_batch)
    from stepsD [OF this, of s1] b have lk: "nl_locked s2 = nl_locked s1" by (simp add: quiet_def)
    have "rc_sub ` set rs \<subseteq> sb_uuid ` set (candidates (s\<lparr>calls := Suc (calls s)\<rparr>) u c)" using arg_cong [OF m, of set] by auto
    then have "v \<notin> rc_sub ` set rs" if "\<forall>n. nl_locked s n v" using claim_passes [of s v u c] that by blast
    then have "passed_over u v s1 s2" using batch_passes [OF _ i b] lk by (simp add: passed_over_def s1)
    then have p2: "passed_over u v s s2" by (rule passed.step_trans [OF p1])
    have p3: "passed_over u v s (snd (k s2))" by (rule passed.step_trans [OF p2 stepsD [OF k]])
    show ?thesis using Inr c b p1 p2 p3 by (cases w) (simp_all add: andthen_def ret_def)
  qed
qed

lemma passed_Dispatch: "steps (passed_over u v) (Dispatch E u)"
proof -
  have r: "steps (passed_over u v) (send_rounds n E u w)" for n w
  proof (induction n)
    case (Suc n)
    show ?case unfolding send_rounds.simps
      by (intro passed.steps_intros reads_queries [THEN passed.steps_reads] passed_claim Suc)
  qed (simp add: passed.steps_basic)
  have a: "steps (passed_over u v) (sendAll E u w)" for w using r unfolding sendAll_def steps_def by blast
  have i: "steps (passed_over u v) (MoveIssue y fs st at)" "steps (passed_over u v) (FinishIssue y k at)" for y fs st at k
    unfolding MoveIssue_def FinishIssue_def Let_def by (intro passed.steps_db_call stepsI; simp add: passed_same)+
  have b: "steps (passed_over u v) (nl_begin y w)" for y w
    unfolding nl_begin_def by (simp add: i passed.steps_basic split: issue_status.split)
  show ?thesis unfolding Dispatch_def nl_finish_def
    by (intro passed.steps_intros reads_queries [THEN passed.steps_reads] a b i)
qed

end
