(* ===== verification/Newsletter_Properties.thy ===== *)
theory Newsletter_Properties
  imports Newsletter_Mails "HOL-Library.Code_Target_Nat"
begin

text \<open>The properties of the newsletter, with a small store on which they are tried.\<close>

section \<open>A store\<close>

definition nl_demo_env :: nl_env where
  "nl_demo_env =
     \<lparr>ne_lower = id, ne_Parse = Some, ne_hashToken = id, ne_MAC = id, ne_Mailer = True, ne_Sender = True, ne_Captcha = None,
      ne_Accounts = Some (\<lambda>u. Some \<lparr>na_Email = ''a@x.org'', na_Name = ''A'', na_Verified = True\<rparr>), ne_Webhooks = None, ne_decode = (\<lambda>_. None),
      ne_text = (\<lambda>_. []), ne_BatchSize = 1, ne_MaxAttempts = 3, ne_ClaimTimeout = 10, ne_LinkTTL = 100\<rparr>"

definition nl_demo_row :: "uuid \<Rightarrow> string \<Rightarrow> uuid \<Rightarrow> nl_row" where
  "nl_demo_row u email user =
     \<lparr>sb_uuid = u, sb_email = Some email, sb_name = [], sb_user = Some user, sb_status = NlActive, sb_format = FormatHTML, sb_source = SourcePublic,
      sb_ip = [], sb_agent = [], sb_sends = 0, sb_window = None, sb_opted = Some 1, sb_unsubscribed = None, sb_bounced = None,
      sb_complained = None, sb_erased = None, sb_created = 0, sb_updated = 1\<rparr>"

definition nl_demo_list :: "string \<Rightarrow> instant option \<Rightarrow> nl_list" where
  "nl_demo_list l archived =
     \<lparr>ls_slug = l, ls_name = l, ls_description = [], ls_default = (archived = None), ls_position = 0, ls_archived = archived\<rparr>"

definition nl_demo_event :: "uuid \<Rightarrow> consent_kind \<Rightarrow> string \<Rightarrow> consent_event" where
  "nl_demo_event u k l =
     \<lparr>ce_sub = u, ce_kind = k, ce_list = l, ce_source = SourcePublic, ce_reason = [], ce_feedback = [], ce_ip = [], ce_at = 1\<rparr>"

definition nl_demo_member :: "uuid \<Rightarrow> string \<Rightarrow> nl_member" where
  "nl_demo_member u l = \<lparr>mb_sub = u, mb_list = l, mb_state = MemberActive, mb_joined = Some 1, mb_left = None\<rparr>"

definition nl_demo_issue :: nl_issue where
  "nl_demo_issue =
     \<lparr>is_uuid = 5, is_subject = ''S'', is_preheader = [], is_body = ''B'', is_lists = [''weekly''], is_status = IssueQueued, is_send_at = None,
      is_queued = Some 1, is_started = None, is_completed = None, is_sent = 0, is_failed = 0, is_created_by = None, is_updated_by = None,
      is_created = 0, is_updated = 1\<rparr>"

text \<open>
  Two subscribers of the list \<open>weekly\<close>; the first receives the archived list \<open>old\<close> as well. The provider accepts every mail, and
  \<open>locked\<close> says which subscriber rows another transaction holds.
\<close>

definition nl_demo_store :: "(uuid \<Rightarrow> bool) \<Rightarrow> nl_store" where
  "nl_demo_store locked =
     \<lparr>calls = 0, fails = (\<lambda>_. False), nl_users = [1, 2],
      nl_lists = [nl_demo_list ''weekly'' None, nl_demo_list ''old'' (Some 3)], nl_config = None,
      nl_subs = [nl_demo_row 7 ''a@x.org'' 1, nl_demo_row 8 ''b@x.org'' 2],
      nl_members = [nl_demo_member 7 ''weekly'', nl_demo_member 7 ''old'', nl_demo_member 8 ''weekly''], nl_tokens = [],
      nl_consents = [nl_demo_event 7 ConsentListJoined ''weekly'', nl_demo_event 7 ConsentListJoined ''old'', nl_demo_event 7 ConsentSubscribed [],
                     nl_demo_event 8 ConsentListJoined ''weekly'', nl_demo_event 8 ConsentSubscribed []],
      nl_issues = [nl_demo_issue], nl_deliveries = [], nl_events = [], nl_mails = [], nl_posted = [], nl_rank = length,
      nl_clock = int, nl_ids = (\<lambda>n. 1000 + n), nl_random = (\<lambda>n. replicate n (CHR ''x'')), nl_provider = (\<lambda>_. None),
      nl_locked = (\<lambda>_. locked)\<rparr>"

lemma nl_demo_inv: "nl_inv (nl_demo_store locked)"
  by (simp add: nl_inv_def nl_ok_def nl_slugs_def nl_demo_store_def nl_demo_row_def nl_demo_list_def nl_demo_event_def nl_demo_member_def
      mb_key_def replay_def history_def receives_def insert_commute)

lemma nl_demo_mails: "mails_ok N (nl_demo_store locked)"
  by (simp add: mails_ok_def mails_to_def attempts_of_def nl_demo_store_def)

section \<open>Subscriptions\<close>

text \<open>
  C35. The consent history decides the subscriptions. Whatever requests are made and whatever storage calls fail on the way,
  replaying a subscriber's history gives its status and exactly the lists it receives, and the history only grows: an erasure takes
  the feedback and the address hash out of an event, never the event itself.
\<close>

theorem newsletter_follows_consent:
  assumes "nl_inv s" and t_def: "t = run_all nl_run ops s"
  shows "nl_inv t \<and> trail_grows s t \<and>
    (\<forall>r \<in> set (nl_subs t). replay (history (nl_consents t) (sb_uuid r)) = (sb_status r, receives (nl_members t) (sb_uuid r)))"
proof -
  have "nl_inv t" unfolding t_def by (rule newsletter.runs_inv [OF assms(1)])
  then show ?thesis using newsletter.runs_rel [OF assms(1), of ops] unfolding t_def by (simp add: nl_inv_def nl_ok_def)
qed

theorem newsletter_follows_consent_witness:
  "nl_inv (nl_demo_store (\<lambda>_. False)) \<and>
   trail_grows (nl_demo_store (\<lambda>_. False)) (run_all nl_run [OpDelete 1 7 ''unsubscribe'', OpErase 2 9] (nl_demo_store (\<lambda>_. False)))"
  using newsletter_follows_consent [OF nl_demo_inv refl, of "[OpDelete 1 7 ''unsubscribe'', OpErase 2 9]" "\<lambda>_. False"] nl_demo_inv by blast

section \<open>Leaving a list\<close>

lemma resolveExact_open:
  assumes "resolveExact xs s = (Inr ys, t)"
  shows "set ys \<subseteq> ls_slug ` {l \<in> set (nl_lists s). ls_archived l = None} \<and> set xs \<subseteq> set ys"
proof -
  have out: "set out \<subseteq> set r" if "pick all zs out = Inr r" for all zs out r
    using that by (induction zs arbitrary: out) (fastforce split: option.splits if_splits)+
  have sub: "set zs \<subseteq> ls_slug ` set r" if "pick all zs out = Inr r" for all zs out r
    using that
  proof (induction zs arbitrary: out)
    case (Cons z zs)
    then obtain l where l: "find (\<lambda>l. ls_slug l = z) all = Some l" by (auto split: option.splits)
    then have z: "ls_slug l = z" by (auto simp: find_Some_iff)
    let ?out = "if list_ex (\<lambda>o'. ls_slug o' = z) out then out else out @ [l]"
    have p: "pick all zs ?out = Inr r" using Cons.prems l by simp
    have "z \<in> ls_slug ` set ?out" using z by (auto simp: list_ex_iff intro: rev_image_eqI)
    then show ?case using out [OF p] Cons.IH [OF p] by auto
  qed simp
  from assms obtain all r where r: "pickLists all xs = Inr r" and y: "ys = map ls_slug r"
    and a: "set all = {l \<in> set (nl_lists s). ls_archived l = None}"
    unfolding resolveExact_def Lists_def by (auto simp: andthen_Inr_iff db_call_Inr_iff result_iffs)
  have p: "pick all xs [] = Inr r" using r by (auto simp: pickLists_def split: if_splits)
  show ?thesis using pick_slugs [OF p] sub [OF p] a y by auto
qed

text \<open>
  C40. Leaving some lists is closed to a subscriber who still receives a list that has been archived. The request keeps the other
  active lists by naming them, and an archived list cannot be named: whatever lists are to be left, it fails.
\<close>

theorem archived_list_blocks_leaving:
  assumes x: "find (\<lambda>r. sb_user r = Some u) (nl_subs s) = Some r" and l: "l \<in> receives (nl_members s) (sb_uuid r)"
    and a: "\<And>k. k \<in> set (nl_lists s) \<Longrightarrow> ls_slug k = l \<Longrightarrow> ls_archived k \<noteq> None" and ls: "ls \<noteq> []"
  shows "isl (fst (MyUnsubscribe E u ls reason feedback ip s))"
proof (rule ccontr)
  assume "\<not> isl (fst (MyUnsubscribe E u ls reason feedback ip s))"
  then obtain v t where run: "MyUnsubscribe E u ls reason feedback ip s = (Inr v, t)"
    by (metis isl_def prod.collapse sum.exhaust_sel)
  then obtain found s1 w s2 where f: "forAccount E u s = (Inr found, s1)" and k: "(case found of
         None \<Rightarrow> throw NlNotFound
       | Some sub \<Rightarrow>
           if ls = []
           then andthen (unsubscribeAll sub SourceAccount reason feedback (nl_hashIdentity E ip) None) (\<lambda>_. ret (sb_uuid sub))
           else
           andthen (resolveExact ls) (\<lambda>leaving.
           andthen (applyChoices sub None (Some (filter (\<lambda>l. l \<notin> set leaving) (ActiveLists sub))) SourceAccount (nl_hashIdentity E ip) None) (\<lambda>_.
           ret (sb_uuid sub)))) s1 = (Inr w, s2)"
    unfolding MyUnsubscribe_def by (auto simp: andthen_Inr_iff within_tx_Inr_iff result_iffs)
  have s1: "unchanged s s1" using f readsD reads_helpers(11) by blast
  obtain y n where found: "found = Some y" and y: "y = load (s\<lparr>calls := n\<rparr>) r"
    using f x unfolding forAccount_def SubscriberByUser_def oneSubscriber_def
    by (auto simp: andthen_def attempt_def db_call_def Let_def ret_def raise_def asks_def split: if_splits)
  have "l \<in> set (ActiveLists y)"
    using l memberships_facts(1) [of s "sb_uuid r"] unfolding y ActiveLists_def lists_in_def actives_def by (simp add: load_def nl_row.extend_def)
  moreover from k found ls obtain leaving s3 z s4 where e: "resolveExact ls s1 = (Inr leaving, s3)"
    and c: "applyChoices y None (Some (filter (\<lambda>l. l \<notin> set leaving) (ActiveLists y))) SourceAccount (nl_hashIdentity E ip) None s3 = (Inr z, s4)"
    by (auto simp: andthen_Inr_iff)
  have s3: "unchanged s s3" using s1 e readsD reads_helpers(5) unchanged_trans by metis
  have open': "l \<notin> ls_slug ` {k \<in> set (nl_lists s). ls_archived k = None}" using a by blast
  have "l \<notin> set leaving" using resolveExact_open [OF e] s1 open' by (auto simp: unchanged_def)
  ultimately have keep: "l \<in> set (filter (\<lambda>l. l \<notin> set leaving) (ActiveLists y))" by simp
  from c obtain now s5 ys s6 where n5: "nl_Now s3 = (Inr now, s5)" and e6: "resolveExact (filter (\<lambda>l. l \<notin> set leaving) (ActiveLists y)) s5 = (Inr ys, s6)"
    unfolding applyChoices_def by (auto simp: andthen_Inr_iff result_iffs)
  have "unchanged s s5" using s3 n5 readsD reads_queries(1) unchanged_trans by metis
  then show False using resolveExact_open [OF e6] keep open' by (auto simp: unchanged_def)
qed

theorem archived_list_blocks_leaving_witness:
  "isl (fst (MyUnsubscribe nl_demo_env 1 [''weekly''] [] [] [] (nl_demo_store (\<lambda>_. False))))"
  by (rule archived_list_blocks_leaving [of 1 _ "nl_demo_row 7 ''a@x.org'' 1" "''old''"])
    (auto simp: nl_demo_store_def nl_demo_row_def nl_demo_list_def nl_demo_member_def receives_def)

section \<open>Dispatch\<close>

text \<open>
  C38. A dispatch ends. The loop over the batches runs until a claim finds nobody, with no bound of its own; each round uses up an
  attempt of at least one subscriber, so whatever the clock and the provider do it is over after as many rounds as there are
  subscribers times attempts, and one more.
\<close>

theorem Dispatch_returns: "fst (Dispatch (newsletter_New E) u s) \<noteq> Inl NoReturn"
  using dispatch_ends [of "newsletter_New E" u s] by (simp add: ends_def newsletter_New_def DefaultMaxAttempts_def)

text \<open>
  C37. An issue is finished only when everyone has been served: when a dispatch marks it as sent and no subscriber row was locked by
  another transaction, each subscriber it can reach has a delivery that was sent, that the provider refused for good, or that used up
  its attempts.
\<close>

theorem Dispatch_serves_all:
  assumes run: "Dispatch (newsletter_New E) u s = (Inr v, t)" and start: "unsent u s"
    and sent: "i \<in> set (nl_issues t)" "is_uuid i = u" "is_status i = IssueSent"
    and free: "\<And>n w. \<not> nl_locked s n w" and r: "r \<in> set (nl_subs t)" "reachable_sub t u r"
  shows "\<exists>d \<in> set (nl_deliveries t). is_delivery u (sb_uuid r) d \<and>
    (dl_status d = DeliverySent \<or> dl_permanent d \<or> nat (ne_MaxAttempts (newsletter_New E)) \<le> dl_attempts d)"
proof -
  let ?E = "newsletter_New E"
  have "\<not> unsent u t" using sent by (auto simp: unsent_def)
  then obtain s1 s2 w where q: "quiet u s s1" and a: "sendAll ?E u w s1 = (Inr True, s2)" and f: "nl_finish ?E u s2 = (Inr (), t)"
    using dispatch_finished [OF run start] by blast
  obtain s0 now where c: "ClaimRecipients u (the_claim ?E w now) s0 = (Inr [], s2)" and l: "nl_locked s0 = nl_locked s1"
    and i: "u \<in> is_uuid ` set (nl_issues s0)" using rounds_done a unfolding sendAll_def by blast
  have lim: "0 < cl_Limit (the_claim ?E w now)" by (simp add: the_claim_def newsletter_New_def DefaultBatchSize_def)
  have fr: "\<not> nl_locked s0 n x" for n x using l q free by (simp add: quiet_def)
  have s2: "nl_deliveries s2 = nl_deliveries s0"
    "\<And>r. r \<in> set (nl_subs s0) \<Longrightarrow> reachable_sub s0 u r \<Longrightarrow> \<exists>d \<in> set (nl_deliveries s0). is_delivery u (sb_uuid r) d"
    using nothing_to_claim [OF c i lim fr] by blast+
  obtain n where s20: "s2 = s0\<lparr>nl_deliveries := claimed (s0\<lparr>calls := Suc (calls s0)\<rparr>) u (the_claim ?E w now), calls := n\<rparr>"
    using ClaimRecipients_run [OF c] by blast
  obtain k at m where t: "t = s2\<lparr>nl_issues := map (finish_row u k at) (nl_issues s2), calls := m\<rparr>"
    and done': "\<forall>d \<in> set (nl_deliveries s2). dl_issue d = u \<longrightarrow> sub_reachable s2 u (dl_sub d) \<longrightarrow>
       dl_status d = DeliverySent \<or> dl_permanent d \<or> nat (ne_MaxAttempts ?E) \<le> dl_attempts d" using finish_run [OF f] by blast
  have r2: "r \<in> set (nl_subs s2)" "reachable_sub s2 u r" using r unfolding t finish_reach by simp_all
  then have "r \<in> set (nl_subs s0)" "reachable_sub s0 u r" unfolding s20 by (simp_all add: reachable_sub_def lists_of_def)
  then obtain d where d: "d \<in> set (nl_deliveries s2)" "is_delivery u (sb_uuid r) d" using s2 by metis
  have "sub_reachable s2 u (dl_sub d)" using r2 d(2) by (auto simp: sub_reachable_def list_ex_iff is_delivery_def)
  then have "dl_status d = DeliverySent \<or> dl_permanent d \<or> nat (ne_MaxAttempts ?E) \<le> dl_attempts d"
    using done' d by (simp add: is_delivery_def)
  moreover have "d \<in> set (nl_deliveries t)" using d(1) by (simp add: t)
  ultimately show ?thesis using d(2) by blast
qed

theorem Dispatch_serves_all_witness:
  "\<exists>d \<in> set (nl_deliveries (snd (Dispatch (newsletter_New nl_demo_env) 5 (nl_demo_store (\<lambda>_. False))))). is_delivery 5 7 d \<and>
    (dl_status d = DeliverySent \<or> dl_permanent d \<or> nat (ne_MaxAttempts (newsletter_New nl_demo_env)) \<le> dl_attempts d)"
proof -
  let ?s = "nl_demo_store (\<lambda>_. False)"
  let ?R = "Dispatch (newsletter_New nl_demo_env) 5 ?s"
  have "isl (fst ?R) = False" by code_simp
  then have r: "?R = (Inr (projr (fst ?R)), snd ?R)" by (intro run_result) simp
  let ?i = "hd (nl_issues (snd ?R))" and ?r = "hd (nl_subs (snd ?R))"
  have i: "nl_issues (snd ?R) \<noteq> []" "is_uuid ?i = 5" "is_status ?i = IssueSent" by code_simp+
  have q: "nl_subs (snd ?R) \<noteq> []" "reachable_sub (snd ?R) 5 ?r" "sb_uuid ?r = 7" by code_simp+
  have u: "unsent 5 ?s" by code_simp
  have f: "\<not> nl_locked ?s n w" for n w by (simp add: nl_demo_store_def)
  show ?thesis using Dispatch_serves_all [OF r u hd_in_set [OF i(1)] i(2,3) f hd_in_set [OF q(1)] q(2)] q(3) by simp
qed

text \<open>
  C39. Without that condition it is not so. A subscriber whose row another transaction holds whenever a batch is claimed is passed
  over: the dispatch hands over no mail for it and leaves no delivery row, which alone the end of the dispatch counts. In the example
  the issue is finished as sent although the subscriber is in its reach.
\<close>

theorem locked_subscriber_passed_over:
  assumes "\<And>n. nl_locked s n v" "t = snd (Dispatch E u s)"
  shows "mails_to t u v = mails_to s u v \<and> delivery_of (nl_deliveries t) u v = delivery_of (nl_deliveries s) u v"
  using stepsD [OF passed_Dispatch [of u v E], of s] assms by (simp add: passed_over_def)

theorem locked_subscriber_passed_over_witness:
  "let t = snd (Dispatch nl_demo_env 5 (nl_demo_store (\<lambda>v. v = 8))) in
   map is_status (nl_issues t) = [IssueSent] \<and> map (reachable_sub t 5) (nl_subs t) = [True, True] \<and> mails_to t 5 8 = 0 \<and>
   delivery_of (nl_deliveries t) 5 8 = None"
proof -
  define t where "t = snd (Dispatch nl_demo_env 5 (nl_demo_store (\<lambda>v. v = 8)))"
  let ?s = "nl_demo_store (\<lambda>v. v = 8)"
  have "nl_locked ?s n 8" for n by (simp add: nl_demo_store_def)
  from locked_subscriber_passed_over [OF this t_def]
  have "mails_to t 5 8 = mails_to ?s 5 8" "delivery_of (nl_deliveries t) 5 8 = delivery_of (nl_deliveries ?s) 5 8" by simp_all
  moreover have "mails_to ?s 5 8 = 0" "delivery_of (nl_deliveries ?s) 5 8 = None" by code_simp+
  moreover have "map is_status (nl_issues t) = [IssueSent]" "map (reachable_sub t 5) (nl_subs t) = [True, True]" unfolding t_def by code_simp+
  ultimately show ?thesis unfolding t_def Let_def by simp
qed

text \<open>
  C36. No subscriber is mailed more often than the attempts allow, and none is mailed again. Over any requests and failures, with
  at most \<open>N\<close> attempts per dispatch, at most \<open>N\<close> mails of an issue go to a subscriber; and once its delivery is recorded as sent no
  further one does.
\<close>

theorem mails_bounded:
  assumes "list_all (op_attempts N) ops" "nl_inv s" "mails_ok N s" and t_def: "t = run_all nl_run ops s"
  shows "mails_to t i u \<le> N \<and> (was_sent s i u \<longrightarrow> was_sent t i u \<and> mails_to t i u = mails_to s i u)"
proof -
  have "mails_ok N t" "no_resend s t" using nl_runs_mails [OF assms(1-3)] unfolding t_def by simp_all
  then have "mails_to t i u \<le> attempts_of (nl_deliveries t) i u" "attempts_of (nl_deliveries t) i u \<le> N" by (simp_all add: mails_ok_def)
  then show ?thesis using \<open>no_resend s t\<close> by (simp add: no_resend_def)
qed

theorem mails_bounded_witness:
  "mails_to (run_all nl_run [OpDispatch nl_demo_env 5, OpDispatch nl_demo_env 5] (nl_demo_store (\<lambda>_. False))) 5 7 \<le> 3"
  using mails_bounded [of 3 "[OpDispatch nl_demo_env 5, OpDispatch nl_demo_env 5]", OF _ nl_demo_inv nl_demo_mails refl, of "\<lambda>_. False" 5 7]
  by (simp add: nl_demo_env_def)

end
