(* ===== verification/Spec2Isabelle.thy ===== *)
theory Spec2Isabelle
  imports Category_Properties Tag_Correct Impersonation_Correct Comment_Lists Cache_Redis Outbox Post_Properties Auth_Properties
    Newsletter_Properties
begin

text \<open>
  Verification of the blog platform REST API.

  \<^bold>\<open>The program.\<close> A Go server in the ports-and-adapters style. The services of
  \<^verbatim>\<open>src/internal/core/*/service\<close> hold the rules; they reach PostgreSQL through the repositories of
  \<^verbatim>\<open>src/internal/adapters/outbound/persistence\<close>, cache public reads in Redis
  (\<^verbatim>\<open>core/readcache\<close>, \<^verbatim>\<open>adapters/outbound/cache\<close>), and tell the rest of the system what happened by
  events they write to an outbox table in the same transaction; a relay hands these to the message broker
  (\<^verbatim>\<open>adapters/outbound/outbox\<close>). HTTP handlers and command-line tools call the services.

  \<^bold>\<open>How it is modelled.\<close> A method that may fail and change state is a computation of type
  \<open>('s, 'e, 'a) comp\<close> (theory Prelude): it takes the state of its component, a record of the tables it
  reads and writes, and returns an error or a value and the new state. \<open>andthen\<close> is the early return on
  an error, \<open>db_call\<close> one statement sent to the store, \<open>within_tx\<close> a transaction
  (\<^verbatim>\<open>persistence/tx.go\<close>, \<open>InTx\<close>), which puts every table back when its body fails. The record \<open>store\<close>
  carries the function \<open>fails\<close>: the n-th call of a run fails whenever \<open>fails n\<close> holds, so a theorem over all
  states covers every pattern of storage failures; a commit that fails is covered by the failure of the
  last call before it (in the outbox, where messages are already sent by then, it is a call of its own).
  SQL statements are functions on lists of rows in id order. UUIDs and instants are numbers; strings are
  byte strings with Go's UTF-8 decoding (theory Go_Strings), and Go's \<open>int\<close> wraps at 64 bits where a
  result can leave that range (\<open>int64\<close>). Clocks, fresh UUIDs, the Markdown renderer, JSON encoders, the
  database's collation and the broker are arguments or part of the state.

  \<^bold>\<open>The library.\<close> Prelude has the computations with their weakest-precondition calculus \<open>wp\<close>, the
  locales \<open>invariant_service\<close>, \<open>evolving_service\<close>, \<open>atomic_service\<close> and \<open>step_invariant\<close> for what a sequence of requests or
  of interleaved steps keeps, each interpreted on the components below. Go_Strings, Slug and Decimal
  model the string functions of the standard library and the slug rules; Read_Cache the cache port, its
  families and keys.

  \<^bold>\<open>Categories\<close> (\<^verbatim>\<open>core/category\<close>, \<^verbatim>\<open>persistence/category_repository.go\<close>). Category_Tree: the record,
  sibling order, \<open>rebuildBounds\<close>, \<open>isDescendant\<close>, \<open>applyBefore\<close>, and the forest and nested set as
  definitions. Category_Bounds: rebuilding gives a nested set of the forest. Category_Order: the list
  edits and the descendant test. Category_Service: repository and service. Category_Correct,
  Category_Requests, Category_Properties: what every request keeps and does. The recursion of \<open>rebuildBounds\<close> has the number of
  categories as fuel, which the depth of a node never reaches in a forest; the loop of \<open>isDescendant\<close>
  one more. That they end is part of the theorems.

  \<^bold>\<open>Tags\<close> (\<^verbatim>\<open>core/tag\<close>, \<^verbatim>\<open>persistence/tag_repository.go\<close>). Tag_Service and Tag_Correct: the
  invariant of the tables, merging, re-tagging a post, and resolving names to tags.

  \<^bold>\<open>Impersonation\<close> (\<^verbatim>\<open>core/impersonation\<close>, \<^verbatim>\<open>persistence/impersonation_repository.go\<close>). Impersonation
  and Impersonation_Correct. A session is active, then ended once and for all; an
  actor has one active session at most; a token is accepted only while its session, both accounts and
  the base session live; the effective rights are never more than both have.

  \<^bold>\<open>Comments\<close> (\<^verbatim>\<open>core/comment\<close>, \<^verbatim>\<open>persistence/comment_repository.go\<close>,
  \<^verbatim>\<open>persistence/comment_moderation_repository.go\<close>). Comment_Service: the domain rules, the repository,
  writing, flagging, upvoting and moderating. Comment_Correct: the invariant of the tables under all
  requests. Comment_Properties: single requests and two interleavings the guards of the
  code let through. Comment_Lists: paging, and the page number at which the 64-bit offset
  wraps around.

  \<^bold>\<open>The read cache\<close> (\<^verbatim>\<open>core/readcache\<close>, \<^verbatim>\<open>adapters/outbound/cache/redis.go\<close>). Cache_Redis is a step
  relation: readers in the middle of \<open>Through\<close> and writers in the middle of \<open>Invalidate\<close> take steps in any
  order, any command may fail and any Redis key may vanish. The ghost fields \<open>tick\<close>, \<open>dropped\<close>,
  \<open>born\<close>, \<open>used\<close> and \<open>fresh\<close> record when a family was last invalidated, when each generation began and
  which generation numbers were given out, once or more often. No
  reader returns a value older than the last invalidation completed before it began, as long as
  the random seed of a lost generation never repeats a number; a reader always ends; keys are
  unambiguous.

  \<^bold>\<open>The outbox\<close> (\<^verbatim>\<open>core/event\<close>, \<^verbatim>\<open>persistence/outbox_repository.go\<close>, \<^verbatim>\<open>adapters/outbound/outbox\<close>).
  Outbox: recording, claiming, publishing, backing off, draining, pruning and retrying: at
  least once delivery, the effect of a batch, the end of a drain, and the backoff. The loop of \<open>Drain\<close> has
  fuel; the property of \<open>Drain\<close> shows that one more than the number of rows that come due is enough while
  the clock advances by less than one base backoff. (When it advances more, failing rows come due again
  and the loop may go on for as long as the context allows.)

  \<^bold>\<open>Posts\<close> (\<^verbatim>\<open>core/post\<close>, \<^verbatim>\<open>persistence/post_repository.go\<close>, \<^verbatim>\<open>post_revision_repository.go\<close>,
  \<^verbatim>\<open>post_seo_repository.go\<close>, \<^verbatim>\<open>post_media_repository.go\<close>). Post_Domain: statuses and transitions, snapshots, diffs
  and changelogs of revisions, slugs. Post_Repository: the tables and their guarded writes; the tag
  operations of a post run on the tag tables of this state. Post_Service: drafting, editing, transitions, the
  trash, media, and going back to a revision, each write with its revision and events in one transaction.
  Post_Slugs: the loop of \<open>freeSlug\<close> has one round more than there are taken slugs as fuel, which is
  enough since its candidates differ; ids are 64-bit, so a table has at most \<open>max_rows\<close> rows and suffixes stay
  within 19 digits. Post_Correct, Post_Requests, Post_Writes, Post_History: what each request did when it
  succeeded, and that a failed one changed no table. Post_Invariant, Post_Run: the invariant of posts,
  revisions and tags under all requests. Post_Properties: the invariant, the life of a post as an
  abstract automaton that the service refines, the slug search and its flaw at the length limit, edits with
  other requests between reading and writing, and the round trip through a revision.

  \<^bold>\<open>Authentication\<close> (\<^verbatim>\<open>core/auth\<close>, \<^verbatim>\<open>persistence/user_repository.go\<close>, \<^verbatim>\<open>reset_token_repository.go\<close>,
  \<^verbatim>\<open>registration_repository.go\<close>, \<^verbatim>\<open>two_factor_repository.go\<close>, \<^verbatim>\<open>oauth_identity_repository.go\<close>, and in Redis
  \<^verbatim>\<open>adapters/outbound/challenge\<close> and \<^verbatim>\<open>adapters/outbound/ratelimit/lockout.go\<close>). Auth_Store: the tables and Redis entries
  with their expiry. Auth_Service: login, lockout, refresh, codes and challenges. Auth_Accounts: enrollment, passwords,
  email change, administrator operations, sign-up, social login. A request brings its clock readings, ids and random
  texts and the functions of the cryptographic libraries (\<open>auth_env\<close>); \<open>Refresh\<close> and \<open>ResetPassword\<close> are split where another
  request may come between reading and writing. Stepwise has the locale \<open>stepwise\<close> of relations that every step of a
  computation keeps; Auth_Requests extends it to \<open>auth_frame\<close>, where a relation kept by every write of the service
  is kept by every request, and interprets it for the invariant (Auth_Correct), for spent time steps and for
  challenges (Auth_Tokens). Auth_Sessions, Auth_Tokens: what each call did when it returned. Auth_Properties:
  the tables under all requests, refresh and reset tokens and two races the code leaves open, codes, challenges and sign-up.

  \<^bold>\<open>The newsletter\<close> (\<^verbatim>\<open>core/newsletter\<close>, \<^verbatim>\<open>persistence/newsletter_repository.go\<close>, \<^verbatim>\<open>newsletter_issue_repository.go\<close>).
  Newsletter_Domain: lists, subscribers, consent events, tokens, settings, issues and their rules. Newsletter_Store: the tables, statement
  by statement, with the locks of other transactions, the clock, the ids and the provider's answers as part of the state. Newsletter_Service:
  double opt-in, preferences and the subscription of an account. Newsletter_Issues: administration, issues, the dispatch loop, feedback.
  Newsletter_Trail: the consent history as a specification, its \<open>replay\<close>, and what edits of the memberships do. Newsletter_Correct,
  Newsletter_Requests, Newsletter_Runs: proof rules for handlers that read, edit, save and then append the history, and that every request
  leaves tables the replay agrees with; the locale \<open>nl_frame\<close> extends \<open>stepwise\<close> and is interpreted for the growth of the history and for the
  deliveries. Newsletter_Dispatch: the loop of \<open>sendAll\<close> has as fuel one round more than subscribers times attempts, which is enough since
  each round uses up an attempt. Newsletter_Mails: how often a subscriber is mailed and who has been served when an issue is finished.
  Newsletter_Properties: the properties, with a subscriber passed over because of a lock and an archived list that blocks leaving.

  \<^bold>\<open>Not modelled.\<close> HTTP handlers, requests, responses and middleware, configuration, wiring,
  migrations, metrics and logging: translation and I/O around the services. Bigint keys: rows are named
  by their UUIDs, which the queries join on. The clients of brokers, mail, storage, captcha and OAuth
  services, the policy engine and the circuit breaker are third-party packages. \<^verbatim>\<open>docs/docs.go\<close> is
  generated.

  \<^bold>\<open>Open.\<close> The SEO rules and lists of posts, settings, analytics, media uploads, notification templates, consent
  and privacy requests, the role service and user profiles have no model yet.
\<close>

end
